(* ===== verification/Prelude.thy ===== *)
theory Prelude
  imports Main "HOL-Library.Word"
begin

text \<open>
  Shared vocabulary of the development: the machine integers of the kernel, the
  outcome type of code that may panic, and the generic facts on words, lists and
  outcomes that the component theories use.

  The kernel is built with the release profile and no \<^verbatim>\<open>overflow-checks\<close>
  (\<^verbatim>\<open>os/Makefile\<close>, \<^verbatim>\<open>os/Cargo.toml\<close>), so arithmetic on \<^verbatim>\<open>usize\<close> wraps; it is
  modelled by the wrapping arithmetic of 64-bit words.  What still panics in a
  release build (assertions, \<^verbatim>\<open>unwrap\<close>, slice indexing, explicit panics, a second
  borrow of a cell) is a value of type \<^verbatim>\<open>panic\<close>.
\<close>

unbundle bit_operations_syntax

section \<open>Machine integers\<close>

type_synonym usize = "64 word"
type_synonym u64 = "64 word"
type_synonym u32 = "32 word"
type_synonym u16 = "16 word"
type_synonym u8 = "8 word"

section \<open>Outcomes of code that may panic\<close>

datatype panic =
    Assert_failed
  | Unwrap_none
  | Index_out_of_bounds
  | Explicit_panic string
  | Todo
  | Already_borrowed
  | Fetch_failed

type_synonym 'a res = "panic + 'a"

definition bindR :: "('e + 'a) \<Rightarrow> ('a \<Rightarrow> 'e + 'b) \<Rightarrow> 'e + 'b" where
  "bindR m f = (case m of Inl e \<Rightarrow> Inl e | Inr x \<Rightarrow> f x)"

definition assertR :: "bool \<Rightarrow> unit res" where
  "assertR b = (if b then Inr () else Inl Assert_failed)"

definition unwrapR :: "'a option \<Rightarrow> 'a res" where
  "unwrapR x = (case x of None \<Rightarrow> Inl Unwrap_none | Some y \<Rightarrow> Inr y)"

definition nthR :: "'a list \<Rightarrow> nat \<Rightarrow> 'a res" where
  "nthR xs i = (if i < length xs then Inr (xs ! i) else Inl Index_out_of_bounds)"

fun foldR :: "('a \<Rightarrow> 's \<Rightarrow> 'e + 's) \<Rightarrow> 'a list \<Rightarrow> 's \<Rightarrow> 'e + 's" where
  "foldR f [] s = Inr s"
| "foldR f (x # xs) s = bindR (f x s) (foldR f xs)"

named_theorems outcome "equations and inversions for outcomes"

lemma bindR_simps [simp]:
  "bindR (Inl e) f = Inl e"
  "bindR (Inr x) f = f x"
  by (simp_all add: bindR_def)

lemma bindR_cong [fundef_cong]:
  "\<lbrakk> m = m'; \<And>x. m' = Inr x \<Longrightarrow> f x = f' x \<rbrakk> \<Longrightarrow> bindR m f = bindR m' f'"
  by (cases m') simp_all

lemma bindR_assoc: "bindR (bindR m f) g = bindR m (\<lambda>x. bindR (f x) g)"
  by (cases m) simp_all

lemma bindR_eq_Inr [outcome]:
  "bindR m f = Inr y \<longleftrightarrow> (\<exists>x. m = Inr x \<and> f x = Inr y)"
  by (cases m) simp_all

lemma bindR_eq_Inl [outcome]:
  "bindR m f = Inl e \<longleftrightarrow> m = Inl e \<or> (\<exists>x. m = Inr x \<and> f x = Inl e)"
  by (cases m) simp_all

lemma assertR_eq_Inr [simp]: "assertR b = Inr u \<longleftrightarrow> b"
  by (simp add: assertR_def)

lemma assertR_eq_Inl [simp]: "assertR b = Inl e \<longleftrightarrow> \<not> b \<and> e = Assert_failed"
  by (auto simp: assertR_def)

lemma assertR_True [simp]: "assertR True = Inr ()"
  by (simp add: assertR_def)

lemma assertR_False [simp]: "assertR False = Inl Assert_failed"
  by (simp add: assertR_def)

lemma unwrapR_simps [simp]: "unwrapR None = Inl Unwrap_none" "unwrapR (Some x) = Inr x"
  by (simp_all add: unwrapR_def)

lemma unwrapR_eq_Inr [outcome]: "unwrapR x = Inr y \<longleftrightarrow> x = Some y"
  by (cases x) simp_all

lemma unwrapR_eq_Inl [outcome]: "unwrapR x = Inl e \<longleftrightarrow> x = None \<and> e = Unwrap_none"
  by (cases x) auto

lemma nthR_eq_Inr [outcome]: "nthR xs i = Inr y \<longleftrightarrow> i < length xs \<and> y = xs ! i"
  by (auto simp: nthR_def)

lemma foldR_append: "foldR f (xs @ ys) s = bindR (foldR f xs s) (foldR f ys)"
proof (induction xs arbitrary: s)
  case (Cons x xs)
  show ?case
    by (cases "f x s") (simp_all add: Cons.IH)
qed simp

lemma foldR_invariant:
  assumes "foldR f xs s = Inr t" "P s"
    and "\<And>x s s'. \<lbrakk> x \<in> set xs; P s; f x s = Inr s' \<rbrakk> \<Longrightarrow> P s'"
  shows "P t"
  using assms by (induction xs arbitrary: s) (auto simp: bindR_eq_Inr)

section \<open>Words\<close>

lemma word_le_unat: "(a :: 'a :: len word) \<le> b \<longleftrightarrow> unat a \<le> unat b"
  by (simp add: word_le_nat_alt)

lemma word_less_unat: "(a :: 'a :: len word) < b \<longleftrightarrow> unat a < unat b"
  by (simp add: word_less_nat_alt)

lemma unat_add_small:
  "unat (a :: 'a :: len word) + unat b < 2 ^ LENGTH('a) \<Longrightarrow> unat (a + b) = unat a + unat b"
  by (simp add: unat_add_lem)

lemma unat_bound: "unat (a :: 'a :: len word) < 2 ^ LENGTH('a)"
  by (rule unsigned_less)

lemma unat_Suc_word:
  fixes a b :: "'a :: len word"
  assumes "a < b"
  shows "unat (a + 1) = Suc (unat a)"
proof -
  have "unat a < unat b"
    using assms by (simp add: word_less_nat_alt)
  then have "unat a + 1 < 2 ^ LENGTH('a)"
    using unat_bound [of b] by linarith
  then show ?thesis
    using unat_add_lem [of a 1] by simp
qed

lemma unat_sub_Suc:
  "(a :: 'a :: len word) \<noteq> b \<Longrightarrow> Suc (unat (b - (a + 1))) = unat (b - a)"
proof -
  assume "a \<noteq> b"
  then have "b - a \<noteq> 0" by simp
  then have "Suc (unat ((b - a) - 1)) = unat (b - a)"
    using unat_minus_one [of "b - a"] unat_gt_0 [of "b - a"] by simp
  then show ?thesis by (simp add: diff_diff_eq)
qed

lemma word_plus_one_le:
  "(a :: 'a :: len word) < b \<Longrightarrow> a + 1 \<le> b"
  by (rule inc_le)

lemma and_mask_less:
  fixes x :: "'a :: len word"
  assumes "n < LENGTH('a)"
  shows "unat (x AND mask n) < 2 ^ n"
  by (simp add: take_bit_eq_mask [symmetric] unsigned_take_bit_eq)

lemma div_bounds:
  assumes "(0 :: int) < k"
  shows "s div k = 0 \<longleftrightarrow> 0 \<le> s \<and> s < k"
    and "s div k = - 1 \<longleftrightarrow> - k \<le> s \<and> s < 0"
proof -
  show z: "s div k = 0 \<longleftrightarrow> 0 \<le> s \<and> s < k" for s
    using assms by (auto simp: zdiv_eq_0_iff)
  have "s div k = - 1 \<longleftrightarrow> (s + k) div k = 0"
    using assms by (simp add: div_add_self2) linarith
  also have "\<dots> \<longleftrightarrow> - k \<le> s \<and> s < 0"
    unfolding z by auto
  finally show "s div k = - 1 \<longleftrightarrow> - k \<le> s \<and> s < 0" .
qed

lemma signed_drop_bit_range:
  fixes v :: "'a :: len word"
  shows "signed_drop_bit n v = 0 \<longleftrightarrow> 0 \<le> sint v \<and> sint v < 2 ^ n"
    and "signed_drop_bit n v = - 1 \<longleftrightarrow> - (2 ^ n) \<le> sint v \<and> sint v < 0"
proof -
  have "signed_drop_bit n v = w \<longleftrightarrow> sint v div 2 ^ n = sint w" for w
    by (metis signed_word_eqI sint_signed_drop_bit_eq drop_bit_eq_div)
  then show "signed_drop_bit n v = 0 \<longleftrightarrow> 0 \<le> sint v \<and> sint v < 2 ^ n"
    and "signed_drop_bit n v = - 1 \<longleftrightarrow> - (2 ^ n) \<le> sint v \<and> sint v < 0"
    by (simp_all add: div_bounds)
qed

lemma drop_bit_push_bit_word:
  "drop_bit n (push_bit n (v :: 'a :: len word)) = take_bit (LENGTH('a) - n) v"
  by (rule bit_eqI) (auto simp: bit_simps)

lemma take_bit_word_self_iff:
  "take_bit m (v :: 'a :: len word) = v \<longleftrightarrow> unat v < 2 ^ m"
  by (simp add: word_unat_eq_iff unsigned_take_bit_eq take_bit_nat_eq_self_iff)

lemma and_low_mask:
  "(v :: usize) AND 4095 = take_bit 12 v"
  "(v :: usize) AND 511 = take_bit 9 v"
  by (simp_all add: take_bit_eq_mask mask_eq_exp_minus_1)

lemma unat_take_bit: "unat (take_bit n (v :: 'a :: len word)) = unat v mod 2 ^ n"
  unfolding unsigned_take_bit_eq by (rule take_bit_eq_mod)

lemma unat_drop_bit: "unat (drop_bit n (v :: 'a :: len word)) = unat v div 2 ^ n"
  unfolding unat_drop_bit_eq by (rule drop_bit_eq_div)

lemma unat_push_12: "unat v < 2 ^ 52 \<Longrightarrow> unat (push_bit 12 (v :: usize)) = unat v * 4096"
  using unat_mult_lem [of v 4096] by (simp add: push_bit_eq_mult)

lemma nat_div_eq_iff:
  "0 < k \<Longrightarrow> (n :: nat) div k = q \<longleftrightarrow> q * k \<le> n \<and> n < Suc q * k"
  using less_eq_div_iff_mult_less_eq [of k q n] div_less_iff_less_mult [of k n "Suc q"]
  by (simp only: order.eq_iff [of "n div k" q] less_Suc_eq_le) blast

section \<open>Positions in vectors\<close>

text \<open>\<^verbatim>\<open>iter().position\<close> and \<^verbatim>\<open>Vec::remove\<close>.\<close>

fun find_position :: "('a \<Rightarrow> bool) \<Rightarrow> 'a list \<Rightarrow> nat option" where
  "find_position P [] = None"
| "find_position P (x # xs) = (if P x then Some 0 else map_option Suc (find_position P xs))"

definition remove_nth :: "nat \<Rightarrow> 'a list \<Rightarrow> 'a list" where
  "remove_nth i xs = take i xs @ drop (Suc i) xs"

lemma find_position_last:
  "\<lbrakk> \<And>x. x \<in> set xs \<Longrightarrow> \<not> P x; P y \<rbrakk> \<Longrightarrow> find_position P (xs @ [y]) = Some (length xs)"
  by (induction xs) auto

lemma find_position_Some:
  "find_position P xs = Some i \<longleftrightarrow> i < length xs \<and> P (xs ! i) \<and> (\<forall>j < i. \<not> P (xs ! j))"
proof (induction xs arbitrary: i)
  case (Cons x xs)
  show ?case
    by (cases i) (auto simp: Cons.IH less_Suc_eq_0_disj)
qed simp

lemma find_position_None: "find_position P xs = None \<longleftrightarrow> (\<forall>x \<in> set xs. \<not> P x)"
  by (induction xs) auto

lemma length_remove_nth: "i < length xs \<Longrightarrow> length (remove_nth i xs) = length xs - 1"
  by (simp add: remove_nth_def)

lemma set_remove_nth_subset: "set (remove_nth i xs) \<subseteq> set xs"
  using set_take_subset [of i xs] set_drop_subset [of "Suc i" xs] by (auto simp: remove_nth_def)

lemma set_remove_nth:
  assumes "distinct xs" "i < length xs"
  shows "set (remove_nth i xs) = set xs - {xs ! i}"
proof -
  have split: "xs = take i xs @ xs ! i # drop (Suc i) xs" using assms(2) by (simp add: id_take_nth_drop)
  have "xs ! i \<notin> set (take i xs)" "xs ! i \<notin> set (drop (Suc i) xs)"
    using assms(1) split by (metis disjoint_insert(1) distinct.simps(2) distinct_append list.set(2))+
  then show ?thesis unfolding remove_nth_def using arg_cong [OF split, of set] by auto
qed

section \<open>Calls that may not return\<close>

text \<open>A call that can loop forever is a partial function into \<^verbatim>\<open>option\<close>: \<^term>\<open>None\<close> when it does not
  return, otherwise its outcome.\<close>

definition bindO :: "'a res option \<Rightarrow> ('a \<Rightarrow> 'b res option) \<Rightarrow> 'b res option" where
  "bindO m f = Option.bind m (\<lambda>r. case r of Inl e \<Rightarrow> Some (Inl e) | Inr x \<Rightarrow> f x)"

lemma bindO_simps [simp]:
  "bindO None f = None" "bindO (Some (Inl e)) f = Some (Inl e)" "bindO (Some (Inr x)) f = f x"
  by (simp_all add: bindO_def)

lemma bindO_eq_Inr [outcome]: "bindO m f = Some (Inr y) \<longleftrightarrow> (\<exists>x. m = Some (Inr x) \<and> f x = Some (Inr y))"
  by (cases m) (auto simp: bindO_def split: sum.splits)

lemma bindO_mono [partial_function_mono]:
  assumes "mono_option M" "\<And>y. mono_option (\<lambda>f. N y f)"
  shows "mono_option (\<lambda>f. bindO (M f) (\<lambda>y. N y f))"
proof -
  have "mono_option (\<lambda>f. case r of Inl e \<Rightarrow> Some (Inl e) | Inr x \<Rightarrow> N x f)" for r
    using assms(2) by (cases r) (simp_all add: monotone_def flat_ord_def)
  then show ?thesis unfolding bindO_def by (intro bind_mono assms(1))
qed

end
