(* ===== verification/Config.thy ===== *)
theory Config
  imports Prelude
begin

text \<open>
  The constants of \<^verbatim>\<open>os/src/config.rs\<close> and of \<^verbatim>\<open>os/src/boards/qemu.rs\<close> that
  the components use.  All of them are in the collection \<^verbatim>\<open>config\<close>.
\<close>

named_theorems config "values of the configuration constants"

definition PAGE_SIZE :: usize where [config]: "PAGE_SIZE = 0x1000"
definition PAGE_SIZE_BITS :: nat where [config]: "PAGE_SIZE_BITS = 12"
definition USER_STACK_SIZE :: usize where [config]: "USER_STACK_SIZE = 4096 * 20"
definition KERNEL_STACK_SIZE :: usize where [config]: "KERNEL_STACK_SIZE = 4096 * 8"
definition MEMORY_END :: usize where [config]: "MEMORY_END = 0xffffffc088000000"
definition MAX_SYSCALL_NUM :: nat where [config]: "MAX_SYSCALL_NUM = 500"
definition USER_SPACE_END :: usize where [config]: "USER_SPACE_END = 0x3FFFFFFFFF"
definition TRAP_CONTEXT_BASE :: usize where
  [config]: "TRAP_CONTEXT_BASE = USER_SPACE_END - PAGE_SIZE * 2 + 1"
definition MMAP_BASE :: usize where [config]: "MMAP_BASE = 0x20000000"
definition PAGE_TABLE_LEVEL :: nat where [config]: "PAGE_TABLE_LEVEL = 3"
definition KERNEL_SPACE_OFFSET :: usize where
  [config]: "KERNEL_SPACE_OFFSET = 0xffffffc000000"
definition TRAP_CONTEXT_TRAMPOLINE :: usize where
  [config]: "TRAP_CONTEXT_TRAMPOLINE = 0xFFFFFFFFFFFFE000"
definition CLOCK_FREQ :: usize where [config]: "CLOCK_FREQ = 12500000"

section \<open>Error numbers\<close>

text \<open>System calls return an \<^verbatim>\<open>isize\<close>; negative values are the error numbers of
  \<^verbatim>\<open>os/src/syscall/errno.rs\<close>, kept here as the words they are returned as.\<close>

definition SUCCESS :: usize where "SUCCESS = 0"
definition EPERM :: usize where "EPERM = - 1"
definition ENOENT :: usize where "ENOENT = - 2"
definition ESRCH :: usize where "ESRCH = - 3"
definition EBADF :: usize where "EBADF = - 9"
definition ECHILD :: usize where "ECHILD = - 10"
definition EINVAL :: usize where "EINVAL = - 22"

lemmas errno_defs = SUCCESS_def EPERM_def ENOENT_def ESRCH_def EBADF_def ECHILD_def EINVAL_def

end
