(* ===== verification/Address.thy ===== *)
theory Address
  imports Config
begin

text \<open>
  Addresses and page numbers: \<^verbatim>\<open>os/src/mm/address.rs\<close>.  Each tuple struct is a
  datatype with one constructor; each \<^verbatim>\<open>From\<close> instance is a function named
  \<^verbatim>\<open>target_from_source\<close>, which panics where the source asserts.  The lemmas
  give the ranges the assertions accept, the round trips between addresses and
  page numbers, and that the three table indexes of a page number determine it.
\<close>

section \<open>The newtypes\<close>

datatype PhysAddr = PhysAddr (pa_raw: usize)
datatype VirtAddr = VirtAddr (va_raw: usize)
datatype PhysPageNum = PhysPageNum (ppn_raw: usize)
datatype VirtPageNum = VirtPageNum (vpn_raw: usize)
datatype KernelAddr = KernelAddr (ka_raw: usize)

instantiation VirtPageNum :: linorder
begin
definition less_eq_VirtPageNum :: "VirtPageNum \<Rightarrow> VirtPageNum \<Rightarrow> bool" where
  "a \<le> b \<longleftrightarrow> vpn_raw a \<le> vpn_raw b"
definition less_VirtPageNum :: "VirtPageNum \<Rightarrow> VirtPageNum \<Rightarrow> bool" where
  "a < b \<longleftrightarrow> vpn_raw a < vpn_raw b"
instance
  by standard (auto simp: less_eq_VirtPageNum_def less_VirtPageNum_def VirtPageNum.expand)
end

instantiation VirtAddr :: linorder
begin
definition less_eq_VirtAddr :: "VirtAddr \<Rightarrow> VirtAddr \<Rightarrow> bool" where
  "a \<le> b \<longleftrightarrow> va_raw a \<le> va_raw b"
definition less_VirtAddr :: "VirtAddr \<Rightarrow> VirtAddr \<Rightarrow> bool" where
  "a < b \<longleftrightarrow> va_raw a < va_raw b"
instance
  by standard (auto simp: less_eq_VirtAddr_def less_VirtAddr_def VirtAddr.expand)
end

lemmas newtype_order = less_eq_VirtPageNum_def less_VirtPageNum_def
  less_eq_VirtAddr_def less_VirtAddr_def

lemma newtype_eq [simp]:
  "pa_raw a = pa_raw b \<longleftrightarrow> a = b"
  "va_raw c = va_raw d \<longleftrightarrow> c = d"
  "ppn_raw e = ppn_raw f \<longleftrightarrow> e = f"
  "vpn_raw g = vpn_raw h \<longleftrightarrow> g = h"
  "ka_raw k = ka_raw l \<longleftrightarrow> k = l"
  by (auto intro: PhysAddr.expand VirtAddr.expand PhysPageNum.expand VirtPageNum.expand
      KernelAddr.expand)

section \<open>Conversions\<close>

definition PA_WIDTH_SV39 :: nat where "PA_WIDTH_SV39 = 56"
definition VA_WIDTH_SV39 :: nat where "VA_WIDTH_SV39 = 39"
definition PPN_WIDTH_SV39 :: nat where "PPN_WIDTH_SV39 = PA_WIDTH_SV39 - PAGE_SIZE_BITS"
definition VPN_WIDTH_SV39 :: nat where "VPN_WIDTH_SV39 = VA_WIDTH_SV39 - PAGE_SIZE_BITS"

lemmas sv39_widths = PA_WIDTH_SV39_def VA_WIDTH_SV39_def PPN_WIDTH_SV39_def
  VPN_WIDTH_SV39_def PAGE_SIZE_BITS_def

definition KernelAddr_from_PhysAddr :: "PhysAddr \<Rightarrow> KernelAddr" where
  "KernelAddr_from_PhysAddr pa =
     KernelAddr (pa_raw pa + push_bit PAGE_SIZE_BITS KERNEL_SPACE_OFFSET)"

definition PhysAddr_from_KernelAddr :: "KernelAddr \<Rightarrow> PhysAddr" where
  "PhysAddr_from_KernelAddr ka =
     PhysAddr (ka_raw ka - push_bit PAGE_SIZE_BITS KERNEL_SPACE_OFFSET)"

definition VirtAddr_from_KernelAddr :: "KernelAddr \<Rightarrow> VirtAddr" where
  "VirtAddr_from_KernelAddr ka = VirtAddr (ka_raw ka)"

definition PhysAddr_from_usize :: "usize \<Rightarrow> PhysAddr res" where
  "PhysAddr_from_usize v =
     (let tmp = signed_drop_bit PA_WIDTH_SV39 v in
      bindR (assertR (tmp = 0 \<or> tmp = - 1)) (\<lambda>_. Inr (PhysAddr v)))"

definition PhysPageNum_from_usize :: "usize \<Rightarrow> PhysPageNum res" where
  "PhysPageNum_from_usize v =
     (let tmp = signed_drop_bit PPN_WIDTH_SV39 v in
      bindR (assertR (tmp = 0 \<or> tmp = - 1)) (\<lambda>_. Inr (PhysPageNum v)))"

definition VirtAddr_from_usize :: "usize \<Rightarrow> VirtAddr res" where
  "VirtAddr_from_usize v =
     (let tmp = signed_drop_bit VA_WIDTH_SV39 v in
      bindR (assertR (tmp = 0 \<or> tmp = - 1)) (\<lambda>_. Inr (VirtAddr v)))"

definition VirtPageNum_from_usize :: "usize \<Rightarrow> VirtPageNum res" where
  "VirtPageNum_from_usize v =
     (let tmp = drop_bit (VPN_WIDTH_SV39 - 1) v in
      bindR (assertR (tmp = 0 \<or> tmp = push_bit (52 - VPN_WIDTH_SV39 + 1) 1 - 1))
        (\<lambda>_. Inr (VirtPageNum v)))"

definition usize_from_VirtAddr :: "VirtAddr \<Rightarrow> usize" where
  "usize_from_VirtAddr v =
     (if va_raw v \<ge> push_bit (VA_WIDTH_SV39 - 1) 1
      then va_raw v OR NOT (push_bit VA_WIDTH_SV39 1 - 1)
      else va_raw v)"

definition VirtAddr_floor :: "VirtAddr \<Rightarrow> VirtPageNum" where
  "VirtAddr_floor va = VirtPageNum (va_raw va div PAGE_SIZE)"

definition VirtAddr_ceil :: "VirtAddr \<Rightarrow> VirtPageNum" where
  "VirtAddr_ceil va = VirtPageNum ((va_raw va - 1 + PAGE_SIZE) div PAGE_SIZE)"

definition VirtAddr_page_offset :: "VirtAddr \<Rightarrow> usize" where
  "VirtAddr_page_offset va = va_raw va AND (PAGE_SIZE - 1)"

definition VirtAddr_aligned :: "VirtAddr \<Rightarrow> bool" where
  "VirtAddr_aligned va = (VirtAddr_page_offset va = 0)"

definition VirtPageNum_from_VirtAddr :: "VirtAddr \<Rightarrow> VirtPageNum res" where
  "VirtPageNum_from_VirtAddr va =
     bindR (assertR (VirtAddr_page_offset va = 0)) (\<lambda>_. Inr (VirtAddr_floor va))"

definition VirtAddr_from_VirtPageNum :: "VirtPageNum \<Rightarrow> VirtAddr" where
  "VirtAddr_from_VirtPageNum vpn = VirtAddr (push_bit PAGE_SIZE_BITS (vpn_raw vpn))"

definition PhysAddr_floor :: "PhysAddr \<Rightarrow> PhysPageNum" where
  "PhysAddr_floor pa = PhysPageNum (pa_raw pa div PAGE_SIZE)"

definition PhysAddr_ceil :: "PhysAddr \<Rightarrow> PhysPageNum" where
  "PhysAddr_ceil pa = PhysPageNum ((pa_raw pa - 1 + PAGE_SIZE) div PAGE_SIZE)"

definition PhysAddr_page_offset :: "PhysAddr \<Rightarrow> usize" where
  "PhysAddr_page_offset pa = pa_raw pa AND (PAGE_SIZE - 1)"

definition PhysAddr_aligned :: "PhysAddr \<Rightarrow> bool" where
  "PhysAddr_aligned pa = (PhysAddr_page_offset pa = 0)"

definition PhysPageNum_from_PhysAddr :: "PhysAddr \<Rightarrow> PhysPageNum res" where
  "PhysPageNum_from_PhysAddr pa =
     bindR (assertR (PhysAddr_page_offset pa = 0)) (\<lambda>_. Inr (PhysAddr_floor pa))"

definition PhysAddr_from_PhysPageNum :: "PhysPageNum \<Rightarrow> PhysAddr" where
  "PhysAddr_from_PhysPageNum ppn = PhysAddr (push_bit PAGE_SIZE_BITS (ppn_raw ppn))"

definition PhysPageNum_from_KernelAddr :: "KernelAddr \<Rightarrow> PhysPageNum" where
  "PhysPageNum_from_KernelAddr ka = PhysAddr_floor (PhysAddr_from_KernelAddr ka)"

section \<open>Table indexes\<close>

fun indexes_loop :: "nat \<Rightarrow> usize \<Rightarrow> nat list \<Rightarrow> nat list" where
  "indexes_loop 0 vpn idx = idx"
| "indexes_loop (Suc i) vpn idx =
     indexes_loop i (drop_bit 9 vpn) (idx[i := unat (vpn AND 511)])"

definition indexes :: "VirtPageNum \<Rightarrow> nat list" where
  "indexes vpn =
     indexes_loop PAGE_TABLE_LEVEL (vpn_raw vpn) (replicate PAGE_TABLE_LEVEL 0)"

section \<open>Ranges of page numbers\<close>

definition VirtPageNum_step :: "VirtPageNum \<Rightarrow> VirtPageNum" where
  "VirtPageNum_step vpn = VirtPageNum (vpn_raw vpn + 1)"

definition PhysPageNum_step :: "PhysPageNum \<Rightarrow> PhysPageNum" where
  "PhysPageNum_step ppn = PhysPageNum (ppn_raw ppn + 1)"

record VPNRange =
  range_l :: VirtPageNum
  range_r :: VirtPageNum

definition VPNRange_new :: "VirtPageNum \<Rightarrow> VirtPageNum \<Rightarrow> VPNRange res" where
  "VPNRange_new start end' =
     bindR (assertR (start \<le> end')) (\<lambda>_. Inr \<lparr> range_l = start, range_r = end' \<rparr>)"

definition SimpleRangeIterator_next ::
  "VirtPageNum \<times> VirtPageNum \<Rightarrow> (VirtPageNum \<times> (VirtPageNum \<times> VirtPageNum)) option" where
  "SimpleRangeIterator_next it =
     (case it of (current, end') \<Rightarrow>
        if current = end' then None
        else Some (current, (VirtPageNum_step current, end')))"

function range_iter :: "VirtPageNum \<times> VirtPageNum \<Rightarrow> VirtPageNum list" where
  "range_iter it =
     (case SimpleRangeIterator_next it of
        None \<Rightarrow> []
      | Some (vpn, it') \<Rightarrow> vpn # range_iter it')"
  by pat_completeness auto
termination
proof (relation "measure (\<lambda>(c, e). unat (vpn_raw e - vpn_raw c))")
  fix it p vpn it'
  assume "SimpleRangeIterator_next it = Some p" "(vpn, it') = p"
  then show "(it', it) \<in> measure (\<lambda>(c, e). unat (vpn_raw e - vpn_raw c))"
    using unat_sub_Suc [of "vpn_raw (fst it)" "vpn_raw (snd it)"]
    by (auto simp: SimpleRangeIterator_next_def VirtPageNum_step_def VirtPageNum.expand
        split: if_splits prod.splits)
qed simp

declare range_iter.simps [simp del]

definition VPNRange_vpns :: "VPNRange \<Rightarrow> VirtPageNum list" where
  "VPNRange_vpns r = range_iter (range_l r, range_r r)"

section \<open>The direct map\<close>

text \<open>
  \<^verbatim>\<open>get_pte_array\<close> and \<^verbatim>\<open>get_bytes_array\<close> reach a physical page through its address
  in the kernel's direct map.  That address is what identifies a page in the
  memory of the model.
\<close>

definition ppn_kernel_addr :: "PhysPageNum \<Rightarrow> usize" where
  "ppn_kernel_addr ppn = ka_raw (KernelAddr_from_PhysAddr (PhysAddr_from_PhysPageNum ppn))"

section \<open>What the conversions accept\<close>

lemma VirtAddr_from_usize_Inr:
  "VirtAddr_from_usize v = Inr va \<longleftrightarrow> va = VirtAddr v \<and> - (2 ^ 39) \<le> sint v \<and> sint v < 2 ^ 39"
  by (auto simp: VirtAddr_from_usize_def VA_WIDTH_SV39_def signed_drop_bit_range outcome)

lemma PhysAddr_from_usize_Inr:
  "PhysAddr_from_usize v = Inr pa \<longleftrightarrow> pa = PhysAddr v \<and> - (2 ^ 56) \<le> sint v \<and> sint v < 2 ^ 56"
  by (auto simp: PhysAddr_from_usize_def PA_WIDTH_SV39_def signed_drop_bit_range outcome)

lemma PhysPageNum_from_usize_Inr:
  "PhysPageNum_from_usize v = Inr ppn \<longleftrightarrow>
     ppn = PhysPageNum v \<and> - (2 ^ 44) \<le> sint v \<and> sint v < 2 ^ 44"
  by (auto simp: PhysPageNum_from_usize_def sv39_widths signed_drop_bit_range outcome)

lemma VirtPageNum_from_usize_Inr:
  "VirtPageNum_from_usize v = Inr vpn \<longleftrightarrow>
     vpn = VirtPageNum v \<and> (unat v < 2 ^ 26 \<or> 2 ^ 52 - 2 ^ 26 \<le> unat v \<and> unat v < 2 ^ 52)"
proof -
  have "drop_bit 26 v = 0 \<longleftrightarrow> unat v div 2 ^ 26 = 0"
    unfolding word_unat_eq_iff unat_drop_bit by simp
  moreover have "drop_bit 26 v = 0x3ffffff \<longleftrightarrow> unat v div 2 ^ 26 = 0x3ffffff"
    unfolding word_unat_eq_iff unat_drop_bit by simp
  ultimately show ?thesis
    by (auto simp: VirtPageNum_from_usize_def sv39_widths outcome nat_div_eq_iff)
qed

lemma sint_usize:
  "sint (v :: usize) = (if uint v < 2 ^ 63 then uint v else uint v - 2 ^ 64)"
proof -
  have s: "sint v = signed_take_bit 63 (uint v)"
    by (subst sint_uint) simp
  show ?thesis
  proof (cases "uint v < 2 ^ 63")
    case True
    moreover have "- (2 ^ 63) \<le> uint v"
      by (rule order_trans [OF _ uint_nonnegative]) simp
    ultimately show ?thesis
      unfolding s by (simp only: signed_take_bit_int_eq_self_iff if_True)
  next
    case False
    have "take_bit 64 (uint v - 2 ^ 64) = take_bit 64 (uint v)"
      using mod_add_self2 [of "uint v - 2 ^ 64" "2 ^ 64"] by (simp only: take_bit_eq_mod) simp
    then have "sint v = signed_take_bit 63 (uint v - 2 ^ 64)"
      unfolding s by (simp only: signed_take_bit_eq_iff_take_bit_eq) simp
    also have "\<dots> = uint v - 2 ^ 64"
      using False uint_bounded [of v] by (subst signed_take_bit_int_eq_self_iff) simp
    finally show ?thesis
      using False by (simp only: if_False)
  qed
qed

lemma PhysPageNum_from_usize_small:
  assumes "unat v < 2 ^ 44"
  shows "PhysPageNum_from_usize v = Inr (PhysPageNum v)"
proof -
  have "uint v < 2 ^ 44"
    using assms by (simp only: uint_nat of_nat_less_numeral_power_cancel_iff)
  moreover have "- (2 ^ 44) \<le> uint v"
    by (rule order_trans [OF _ uint_nonnegative]) simp
  ultimately show ?thesis
    by (simp add: PhysPageNum_from_usize_Inr sint_usize)
qed

section \<open>Pages and offsets\<close>

lemma VirtAddr_floor_alt: "VirtAddr_floor va = VirtPageNum (drop_bit 12 (va_raw va))"
  by (simp add: VirtAddr_floor_def PAGE_SIZE_def drop_bit_eq_div)

lemma VirtAddr_page_offset_alt: "VirtAddr_page_offset va = take_bit 12 (va_raw va)"
  by (simp add: VirtAddr_page_offset_def PAGE_SIZE_def and_low_mask)

lemma VirtAddr_page_offset_less: "unat (VirtAddr_page_offset va) < 4096"
  by (simp add: VirtAddr_page_offset_alt unat_take_bit)

lemma VirtAddr_split:
  "push_bit 12 (vpn_raw (VirtAddr_floor va)) + VirtAddr_page_offset va = va_raw va"
  by (simp add: VirtAddr_floor_alt VirtAddr_page_offset_alt bits_ident)

lemma VirtAddr_ceil_eq:
  assumes "va_raw va \<noteq> 0" "unat (va_raw va) \<le> 2 ^ 64 - 4096"
  shows "unat (vpn_raw (VirtAddr_ceil va)) =
    (unat (va_raw va) + 4095) div 4096"
proof -
  have "unat (va_raw va - 1) = unat (va_raw va) - 1"
    using assms(1) by (rule unat_minus_one)
  moreover have "0 < unat (va_raw va)"
    using assms(1) by (simp add: unat_gt_0)
  ultimately have "unat (va_raw va - 1 + 4096) = unat (va_raw va) + 4095"
    using assms(2) by (subst unat_add_small) auto
  then show ?thesis
    by (simp add: VirtAddr_ceil_def PAGE_SIZE_def unat_div)
qed

lemma VirtPageNum_VirtAddr_round_trip:
  assumes "unat (vpn_raw vpn) < 2 ^ 52"
  shows "VirtPageNum_from_VirtAddr (VirtAddr_from_VirtPageNum vpn) = Inr vpn"
proof -
  have "take_bit 12 (push_bit 12 (vpn_raw vpn)) = 0"
    by (rule bit_eqI) (simp add: bit_simps)
  moreover have "drop_bit 12 (push_bit 12 (vpn_raw vpn)) = vpn_raw vpn"
    using assms by (simp only: drop_bit_push_bit_word take_bit_word_self_iff) simp
  ultimately show ?thesis
    unfolding VirtPageNum_from_VirtAddr_def VirtAddr_page_offset_alt VirtAddr_floor_alt
      VirtAddr_from_VirtPageNum_def PAGE_SIZE_BITS_def
    by simp
qed

lemma VirtAddr_VirtPageNum_round_trip:
  assumes "VirtPageNum_from_VirtAddr va = Inr vpn"
  shows "VirtAddr_from_VirtPageNum vpn = va"
  using assms VirtAddr_split [of va]
  by (auto simp: VirtPageNum_from_VirtAddr_def VirtAddr_from_VirtPageNum_def PAGE_SIZE_BITS_def
      outcome)

section \<open>The direct map separates pages\<close>

lemma ppn_kernel_addr_inj:
  assumes "ppn_kernel_addr p = ppn_kernel_addr q"
    and "unat (ppn_raw p) < 2 ^ 52" "unat (ppn_raw q) < 2 ^ 52"
  shows "p = q"
proof -
  have "push_bit 12 (ppn_raw p) = push_bit 12 (ppn_raw q)"
    using assms(1)
    by (simp add: ppn_kernel_addr_def KernelAddr_from_PhysAddr_def PhysAddr_from_PhysPageNum_def
        PAGE_SIZE_BITS_def)
  then have "unat (ppn_raw p) * 4096 = unat (ppn_raw q) * 4096"
    using assms(2,3) by (metis unat_push_12)
  then show ?thesis
    by (simp add: word_unat_eq_iff [symmetric])
qed

lemma kernel_direct_map_inverse:
  assumes "unat (ppn_raw p) < 2 ^ 52"
  shows "PhysPageNum_from_KernelAddr (KernelAddr (ppn_kernel_addr p)) = p"
proof -
  have "drop_bit 12 (push_bit 12 (ppn_raw p)) = ppn_raw p"
    using assms by (simp only: drop_bit_push_bit_word take_bit_word_self_iff) simp
  then have "push_bit 12 (ppn_raw p) div 4096 = ppn_raw p"
    by (simp add: drop_bit_eq_div)
  then show ?thesis
    by (simp add: PhysPageNum_from_KernelAddr_def ppn_kernel_addr_def PhysAddr_floor_def
        PhysAddr_from_KernelAddr_def KernelAddr_from_PhysAddr_def PhysAddr_from_PhysPageNum_def
        PAGE_SIZE_BITS_def PAGE_SIZE_def)
qed

section \<open>Indexes and ranges\<close>

lemma indexes_eq:
  "indexes vpn =
     [unat (vpn_raw vpn) div 2 ^ 18 mod 2 ^ 9, unat (vpn_raw vpn) div 2 ^ 9 mod 2 ^ 9,
      unat (vpn_raw vpn) mod 2 ^ 9]"
  by (simp add: indexes_def PAGE_TABLE_LEVEL_def numeral_3_eq_3 and_low_mask unat_take_bit
      unat_drop_bit div_mult2_eq [symmetric])

lemma length_indexes [simp]: "length (indexes vpn) = 3"
  by (simp add: indexes_eq)

lemma indexes_less: "i \<in> set (indexes vpn) \<Longrightarrow> i < 512"
  by (auto simp: indexes_eq)

lemma indexes_decomp: "\<exists>i j k. indexes vpn = [i, j, k] \<and> i < 512 \<and> j < 512 \<and> k < 512"
  by (simp add: indexes_eq)

lemma indexes_determine_vpn:
  assumes "VirtPageNum_from_usize a = Inr va" "VirtPageNum_from_usize b = Inr vb"
    and "indexes va = indexes vb"
  shows "va = vb"
proof -
  have split: "k mod 2 ^ 27 =
      2 ^ 18 * (k div 2 ^ 18 mod 2 ^ 9) + (2 ^ 9 * (k div 2 ^ 9 mod 2 ^ 9) + k mod 2 ^ 9)"
    for k :: nat
    using mod_mult2_eq [of k "2 ^ 18" "2 ^ 9"] mod_mult2_eq [of k "2 ^ 9" "2 ^ 9"] by simp
  have low: "k mod 2 ^ 27 = (if k < 2 ^ 26 then k else k - (2 ^ 52 - 2 ^ 27))"
    if "k < 2 ^ 26 \<or> 2 ^ 52 - 2 ^ 26 \<le> k \<and> k < 2 ^ 52" for k :: nat
  proof (cases "k < 2 ^ 26")
    case False
    define r where "r = k - (2 ^ 52 - 2 ^ 27)"
    have "k = r + 33554431 * 2 ^ 27" "r < 2 ^ 27"
      using that False by (simp_all add: r_def) linarith
    then have "k mod 2 ^ 27 = r"
      by (simp only: mod_mult_self1 mod_less)
    then show ?thesis
      using False by (simp add: r_def)
  qed simp
  have "unat a mod 2 ^ 27 = unat b mod 2 ^ 27"
    unfolding split using assms by (simp add: VirtPageNum_from_usize_Inr indexes_eq)
  moreover have "unat a mod 2 ^ 27 = (if unat a < 2 ^ 26 then unat a else unat a - (2 ^ 52 - 2 ^ 27))"
    "unat b mod 2 ^ 27 = (if unat b < 2 ^ 26 then unat b else unat b - (2 ^ 52 - 2 ^ 27))"
    using assms(1,2) low [of "unat a"] low [of "unat b"]
    by (simp_all add: VirtPageNum_from_usize_Inr)
  ultimately have "unat a = unat b"
    using assms(1,2) unfolding VirtPageNum_from_usize_Inr by (simp split: if_splits) linarith+
  then have "a = b"
    by (simp only: word_unat_eq_iff)
  then show ?thesis
    using assms(1,2) by (simp add: VirtPageNum_from_usize_Inr)
qed

lemma range_iter_eq:
  "range_iter (VirtPageNum l, VirtPageNum r) =
     map (\<lambda>i. VirtPageNum (l + of_nat i)) [0..<unat (r - l)]"
proof (induction "unat (r - l)" arbitrary: l)
  case 0
  then show ?case
    by (subst range_iter.simps) (simp add: SimpleRangeIterator_next_def unat_0_iff)
next
  case (Suc n)
  then have "l \<noteq> r" by auto
  then have n: "n = unat (r - (l + 1))"
    using unat_sub_Suc [of l r] Suc.hyps(2) by simp
  have "range_iter (VirtPageNum l, VirtPageNum r) =
      VirtPageNum l # range_iter (VirtPageNum (l + 1), VirtPageNum r)"
    using \<open>l \<noteq> r\<close>
    by (subst range_iter.simps) (simp add: SimpleRangeIterator_next_def VirtPageNum_step_def)
  then show ?case
    unfolding Suc.hyps(1) [OF n] n [symmetric] Suc.hyps(2) [symmetric]
    by (simp add: upt_conv_Cons map_Suc_upt [symmetric] o_def add.assoc del: upt_Suc)
qed

lemma set_range_iter:
  assumes "l \<le> r"
  shows "set (range_iter (l, r)) = {v. l \<le> v \<and> v < r}"
proof (intro equalityI subsetI)
  fix v assume "v \<in> set (range_iter (l, r))"
  then obtain i where i: "i < unat (vpn_raw r - vpn_raw l)" "v = VirtPageNum (vpn_raw l + of_nat i)"
    using range_iter_eq [of "vpn_raw l" "vpn_raw r"] by auto
  have le: "unat (vpn_raw l) \<le> unat (vpn_raw r)"
    using assms by (simp add: newtype_order word_le_nat_alt)
  have "i < unat (vpn_raw r) - unat (vpn_raw l)"
    using i(1) assms by (simp add: newtype_order unat_sub)
  moreover have "unat (of_nat i :: usize) = i"
    using i(1) unat_bound [of "vpn_raw r - vpn_raw l"]
    by (simp add: unat_of_nat take_bit_nat_eq_self)
  ultimately have "unat (vpn_raw v) = unat (vpn_raw l) + i" "i < unat (vpn_raw r) - unat (vpn_raw l)"
    using i(2) unat_bound [of "vpn_raw r"] by (simp_all add: unat_add_small)
  then show "v \<in> {v. l \<le> v \<and> v < r}"
    using le by (simp add: newtype_order word_le_nat_alt word_less_nat_alt)
next
  fix v assume v: "v \<in> {v. l \<le> v \<and> v < r}"
  then have "unat (vpn_raw v - vpn_raw l) < unat (vpn_raw r - vpn_raw l)"
    using assms
    by (simp add: newtype_order unat_sub word_le_nat_alt word_less_nat_alt diff_less_mono)
  moreover have "v = VirtPageNum (vpn_raw l + of_nat (unat (vpn_raw v - vpn_raw l)))"
    by simp
  ultimately show "v \<in> set (range_iter (l, r))"
    using range_iter_eq [of "vpn_raw l" "vpn_raw r"] by force
qed

lemma distinct_range_iter: "distinct (range_iter (l, r))"
proof -
  have "inj_on (\<lambda>i. VirtPageNum (vpn_raw l + of_nat i)) {0..<unat (vpn_raw r - vpn_raw l)}"
    using unat_bound [of "vpn_raw r - vpn_raw l"]
    by (intro inj_onI) (simp add: word_of_nat_eq_iff take_bit_nat_eq_self)
  then show ?thesis
    using range_iter_eq [of "vpn_raw l" "vpn_raw r"] by (simp add: distinct_map)
qed

lemma VPNRange_vpns_set:
  assumes "VPNRange_new l r = Inr rng"
  shows "set (VPNRange_vpns rng) = {v. l \<le> v \<and> v < r}" "distinct (VPNRange_vpns rng)"
  using assms
  by (auto simp: VPNRange_new_def VPNRange_vpns_def set_range_iter distinct_range_iter outcome)

section \<open>Properties\<close>

text \<open>
  The three table indexes of a page number that passes the kernel's legality
  check determine the page number: two legal pages never share a page table slot.
\<close>
theorem indexes_injective:
  assumes "VirtPageNum_from_usize a = Inr va" "VirtPageNum_from_usize b = Inr vb"
  shows "indexes va = indexes vb \<longleftrightarrow> va = vb"
  using indexes_determine_vpn [OF assms] by blast

theorem indexes_injective_witness:
  "indexes (VirtPageNum 0x3ffffff) \<noteq> indexes (VirtPageNum 0xffffffc000000)"
  using indexes_injective [of "0x3ffffff" "VirtPageNum 0x3ffffff"
      "0xffffffc000000" "VirtPageNum 0xffffffc000000"]
  by (simp add: VirtPageNum_from_usize_Inr)

text \<open>
  Page numbers and page-aligned addresses correspond: an address converts to a
  page number exactly when it is aligned, converting back gives the address, and
  every page number below $2^{52}$ is the number of its own first address.
\<close>
theorem page_address_round_trip:
  "(\<forall>va. (\<exists>vpn. VirtPageNum_from_VirtAddr va = Inr vpn) \<longleftrightarrow> VirtAddr_aligned va) \<and>
   (\<forall>va vpn. VirtPageNum_from_VirtAddr va = Inr vpn \<longrightarrow> VirtAddr_from_VirtPageNum vpn = va) \<and>
   (\<forall>vpn. unat (vpn_raw vpn) < 2 ^ 52 \<longrightarrow>
      VirtPageNum_from_VirtAddr (VirtAddr_from_VirtPageNum vpn) = Inr vpn)"
  using VirtAddr_VirtPageNum_round_trip VirtPageNum_VirtAddr_round_trip
  by (auto simp: VirtPageNum_from_VirtAddr_def VirtAddr_aligned_def outcome)

theorem page_address_round_trip_witness:
  "VirtPageNum_from_VirtAddr (VirtAddr_from_VirtPageNum (VirtPageNum 0x80000)) =
     Inr (VirtPageNum 0x80000)"
  using page_address_round_trip
    [THEN conjunct2, THEN conjunct2, THEN spec, of "VirtPageNum 0x80000"] by simp

text \<open>
  The assertion in the conversion of an integer to a virtual address accepts
  exactly the integers that are sign extensions of 40 bits, not of the 39 bits of an
  SV39 address: half of what it accepts is no SV39 address.
\<close>
theorem VirtAddr_check_accepts_40_bits:
  "((\<exists>va. VirtAddr_from_usize v = Inr va) \<longleftrightarrow> - (2 ^ 39) \<le> sint v \<and> sint v < 2 ^ 39) \<and>
   VirtAddr_from_usize 0x4000000000 = Inr (VirtAddr 0x4000000000)"
  by (simp add: VirtAddr_from_usize_Inr sint_usize)

end
