(* ===== verification/Frame_Alloc.thy ===== *)
theory Frame_Alloc
  imports Address
begin

text \<open>
  Physical memory and the frame allocator: \<^verbatim>\<open>os/src/mm/frame_allocator.rs\<close> and the
  page accessors of \<^verbatim>\<open>os/src/mm/address.rs\<close>.

  Memory is a function from the direct-map address of a page and the index of a
  64-bit word in it; the bytes of a page are the little-endian bytes of its words.
  The locale \<^verbatim>\<open>frame_source\<close> is the contract the rest of memory management relies
  on, and \<^verbatim>\<open>StackFrameAllocator\<close> is its interpretation.
\<close>

section \<open>Memory\<close>

type_synonym kmem = "usize \<Rightarrow> nat \<Rightarrow> u64"

definition pte_array :: "kmem \<Rightarrow> PhysPageNum \<Rightarrow> nat \<Rightarrow> u64" where
  "pte_array m ppn i = m (ppn_kernel_addr ppn) i"

definition pte_array_write :: "PhysPageNum \<Rightarrow> nat \<Rightarrow> u64 \<Rightarrow> kmem \<Rightarrow> kmem" where
  "pte_array_write ppn i w m =
     m(ppn_kernel_addr ppn := (m (ppn_kernel_addr ppn))(i := w))"

definition word_byte :: "u64 \<Rightarrow> nat \<Rightarrow> u8" where
  "word_byte w k = ucast (drop_bit (8 * k) w)"

definition word_set_byte :: "nat \<Rightarrow> u8 \<Rightarrow> u64 \<Rightarrow> u64" where
  "word_set_byte k b w = (w AND NOT (push_bit (8 * k) 0xFF)) OR push_bit (8 * k) (ucast b)"

definition bytes_array :: "kmem \<Rightarrow> PhysPageNum \<Rightarrow> nat \<Rightarrow> u8" where
  "bytes_array m ppn i = word_byte (m (ppn_kernel_addr ppn) (i div 8)) (i mod 8)"

definition bytes_array_write :: "PhysPageNum \<Rightarrow> nat \<Rightarrow> u8 \<Rightarrow> kmem \<Rightarrow> kmem" where
  "bytes_array_write ppn i b m =
     pte_array_write ppn (i div 8)
       (word_set_byte (i mod 8) b (m (ppn_kernel_addr ppn) (i div 8))) m"

section \<open>The allocator\<close>

record StackFrameAllocator =
  fa_current :: usize
  fa_end :: usize
  fa_recycled :: "usize list"

definition fa_new :: StackFrameAllocator where
  "fa_new = \<lparr> fa_current = 0, fa_end = 0, fa_recycled = [] \<rparr>"

definition fa_init :: "PhysPageNum \<Rightarrow> PhysPageNum \<Rightarrow> StackFrameAllocator \<Rightarrow> StackFrameAllocator" where
  "fa_init l r a = a\<lparr> fa_current := ppn_raw l, fa_end := ppn_raw r \<rparr>"

definition fa_alloc ::
  "StackFrameAllocator \<Rightarrow> (PhysPageNum option \<times> StackFrameAllocator) res" where
  "fa_alloc a =
     (if fa_current a = fa_end a then Inr (None, a)
      else
        let a' = a\<lparr> fa_current := fa_current a + 1 \<rparr> in
        bindR (PhysPageNum_from_usize (fa_current a' - 1)) (\<lambda>ppn. Inr (Some ppn, a')))"

primrec fa_contiguous_loop ::
  "nat \<Rightarrow> PhysPageNum list \<Rightarrow> StackFrameAllocator \<Rightarrow>
     (PhysPageNum list \<times> StackFrameAllocator) res" where
  "fa_contiguous_loop 0 ret a = Inr (ret, a)"
| "fa_contiguous_loop (Suc n) ret a =
     (if fa_current a = fa_end a then Inl (Explicit_panic ''FrameAllocator out of memory!'')
      else
        let a' = a\<lparr> fa_current := fa_current a + 1 \<rparr> in
        bindR (PhysPageNum_from_usize (fa_current a' - 1)) (\<lambda>ppn.
          fa_contiguous_loop n (ret @ [ppn]) a'))"

definition fa_alloc_contiguous ::
  "usize \<Rightarrow> StackFrameAllocator \<Rightarrow>
     ((PhysPageNum list \<times> PhysPageNum) \<times> StackFrameAllocator) res" where
  "fa_alloc_contiguous num a =
     bindR (fa_contiguous_loop (unat num) [] a) (\<lambda>(ret, a').
       bindR (PhysPageNum_from_usize (fa_current a)) (\<lambda>root. Inr ((ret, root), a')))"

definition fa_dealloc :: "PhysPageNum \<Rightarrow> StackFrameAllocator \<Rightarrow> StackFrameAllocator res" where
  "fa_dealloc ppn a =
     (if ppn_raw ppn \<ge> fa_current a \<or> ppn_raw ppn \<in> set (fa_recycled a)
      then Inl (Explicit_panic ''Frame has not been allocated!'')
      else Inr (a\<lparr> fa_recycled := fa_recycled a @ [ppn_raw ppn] \<rparr>))"

definition init_frame_allocator ::
  "usize \<Rightarrow> usize \<Rightarrow> StackFrameAllocator \<Rightarrow> StackFrameAllocator" where
  "init_frame_allocator ekernel memory_end a =
     fa_init (PhysAddr_ceil (PhysAddr_from_KernelAddr (KernelAddr ekernel)))
       (PhysAddr_floor (PhysAddr_from_KernelAddr (KernelAddr memory_end))) a"

section \<open>Frame trackers\<close>

datatype FrameTracker = FrameTracker (ft_ppn: PhysPageNum)

record MM =
  mm_falloc :: StackFrameAllocator
  mm_mem :: kmem

definition FrameTracker_new :: "PhysPageNum \<Rightarrow> kmem \<Rightarrow> FrameTracker \<times> kmem" where
  "FrameTracker_new ppn m = (FrameTracker ppn, m(ppn_kernel_addr ppn := (\<lambda>_. 0)))"

definition frame_alloc :: "MM \<Rightarrow> (FrameTracker option \<times> MM) res" where
  "frame_alloc s =
     bindR (fa_alloc (mm_falloc s)) (\<lambda>(r, a).
       case r of
         None \<Rightarrow> Inr (None, s\<lparr> mm_falloc := a \<rparr>)
       | Some ppn \<Rightarrow>
           (let (ft, m) = FrameTracker_new ppn (mm_mem s)
            in Inr (Some ft, s\<lparr> mm_falloc := a, mm_mem := m \<rparr>)))"

fun FrameTracker_new_all :: "PhysPageNum list \<Rightarrow> kmem \<Rightarrow> FrameTracker list \<times> kmem" where
  "FrameTracker_new_all [] m = ([], m)"
| "FrameTracker_new_all (p # ps) m =
     (let (ft, m') = FrameTracker_new p m; (fts, m'') = FrameTracker_new_all ps m'
      in (ft # fts, m''))"

definition frame_alloc_contiguous ::
  "usize \<Rightarrow> MM \<Rightarrow> ((FrameTracker list \<times> PhysPageNum) \<times> MM) res" where
  "frame_alloc_contiguous num s =
     bindR (fa_alloc_contiguous num (mm_falloc s)) (\<lambda>((frames, root), a).
       let (trackers, m) = FrameTracker_new_all frames (mm_mem s)
       in Inr ((trackers, root), s\<lparr> mm_falloc := a, mm_mem := m \<rparr>))"

definition frame_dealloc :: "PhysPageNum \<Rightarrow> MM \<Rightarrow> MM res" where
  "frame_dealloc ppn s =
     bindR (fa_dealloc ppn (mm_falloc s)) (\<lambda>a. Inr (s\<lparr> mm_falloc := a \<rparr>))"

definition FrameTracker_drop :: "FrameTracker \<Rightarrow> MM \<Rightarrow> MM res" where
  "FrameTracker_drop ft s = frame_dealloc (ft_ppn ft) s"

section \<open>Bytes of a page\<close>

lemma bit_word_byte: "bit (word_byte w k) i \<longleftrightarrow> i < 8 \<and> bit w (8 * k + i)"
  by (auto simp: word_byte_def bit_simps)

lemma bit_word_set_byte:
  "k < 8 \<Longrightarrow> bit (word_set_byte k b w) i \<longleftrightarrow>
     i < 64 \<and> (if 8 * k \<le> i \<and> i < 8 * k + 8 then bit b (i - 8 * k) else bit w i)"
proof -
  have ff: "(0xFF :: u64) = mask 8" by (simp add: mask_eq_exp_minus_1)
  assume "k < 8"
  then show ?thesis
    unfolding word_set_byte_def ff by (auto simp: bit_simps dest: bit_imp_le_length)
qed

lemma word_byte_set [simp]:
  "\<lbrakk> j < 8; k < 8 \<rbrakk> \<Longrightarrow> word_byte (word_set_byte k b w) j = (if j = k then b else word_byte w j)"
  by (rule bit_eqI) (auto simp: bit_word_byte bit_word_set_byte)

lemma bytes_array_write_same [simp]:
  "bytes_array (bytes_array_write p i b m) p j = (if i = j then b else bytes_array m p j)"
proof (cases "i div 8 = j div 8")
  case True
  then have "i mod 8 = j mod 8 \<longleftrightarrow> i = j"
    by (metis div_mult_mod_eq)
  then show ?thesis
    using True by (auto simp: bytes_array_def bytes_array_write_def pte_array_write_def)
next
  case False
  then have "i \<noteq> j" by auto
  then show ?thesis
    using False by (simp add: bytes_array_def bytes_array_write_def pte_array_write_def)
qed

lemma bytes_array_write_other:
  "ppn_kernel_addr p \<noteq> ppn_kernel_addr q \<Longrightarrow>
     bytes_array (bytes_array_write p i b m) q j = bytes_array m q j"
  by (simp add: bytes_array_def bytes_array_write_def pte_array_write_def)

lemma pte_array_write_same [simp]:
  "pte_array (pte_array_write p i w m) p j = (if i = j then w else pte_array m p j)"
  by (simp add: pte_array_def pte_array_write_def)

lemma pte_array_write_other [simp]:
  "ppn_kernel_addr p \<noteq> ppn_kernel_addr q \<Longrightarrow>
     pte_array (pte_array_write p i w m) q j = pte_array m q j"
  by (simp add: pte_array_def pte_array_write_def)

lemma word_byte_zero [simp]: "word_byte 0 k = 0"
  by (simp add: word_byte_def)

section \<open>The contract of a frame allocator\<close>

primrec alloc_many :: "('s \<Rightarrow> ('p option \<times> 's) res) \<Rightarrow> nat \<Rightarrow> 's \<Rightarrow> ('p list \<times> 's) res" where
  "alloc_many alloc 0 s = Inr ([], s)"
| "alloc_many alloc (Suc n) s =
     bindR (alloc s) (\<lambda>(r, s').
       bindR (unwrapR r) (\<lambda>p.
         bindR (alloc_many alloc n s') (\<lambda>(ps, s''). Inr (p # ps, s''))))"

locale frame_source =
  fixes alloc :: "'s \<Rightarrow> ('p option \<times> 's) res"
    and dealloc :: "'p \<Rightarrow> 's \<Rightarrow> 's res"
    and live :: "'s \<Rightarrow> 'p set"
    and inv :: "'s \<Rightarrow> bool"
  assumes alloc_total: "inv s \<Longrightarrow> \<exists>r s'. alloc s = Inr (r, s')"
    and alloc_some: "\<lbrakk> inv s; alloc s = Inr (Some p, s') \<rbrakk> \<Longrightarrow>
          p \<notin> live s \<and> live s' = insert p (live s) \<and> inv s'"
    and alloc_none: "\<lbrakk> inv s; alloc s = Inr (None, s') \<rbrakk> \<Longrightarrow> s' = s"
    and dealloc_live: "\<lbrakk> inv s; p \<in> live s \<rbrakk> \<Longrightarrow>
          \<exists>s'. dealloc p s = Inr s' \<and> live s' = live s - {p} \<and> inv s'"
begin

lemma alloc_many_fresh:
  assumes "inv s" "alloc_many alloc n s = Inr (ps, s')"
  shows "distinct ps \<and> length ps = n \<and> set ps \<inter> live s = {} \<and>
    live s' = live s \<union> set ps \<and> inv s'"
  using assms
proof (induction n arbitrary: s ps)
  case (Suc n)
  then obtain p s1 qs where 1: "alloc s = Inr (Some p, s1)"
    and 2: "alloc_many alloc n s1 = Inr (qs, s')" and ps: "ps = p # qs"
    by (auto simp: outcome split: prod.splits)
  note a = alloc_some [OF Suc.prems(1) 1]
  then have "distinct qs \<and> length qs = n \<and> set qs \<inter> live s1 = {} \<and>
      live s' = live s1 \<union> set qs \<and> inv s'"
    using Suc.IH [OF _ 2] by blast
  then show ?case
    using a ps by auto
qed simp

lemma dealloc_then_alloc_fresh:
  assumes "inv s" "p \<in> live s" "dealloc p s = Inr s1" "alloc s1 = Inr (Some q, s2)"
  shows "q \<notin> live s - {p}"
  using dealloc_live [OF assms(1,2)] assms(3,4) alloc_some [of s1 q s2] by auto

end

section \<open>The stack allocator keeps the contract\<close>

definition fa_inv :: "usize \<Rightarrow> StackFrameAllocator \<Rightarrow> bool" where
  "fa_inv l a \<longleftrightarrow> l \<le> fa_current a \<and> fa_current a \<le> fa_end a \<and> unat (fa_end a) < 2 ^ 44 \<and>
     distinct (fa_recycled a) \<and> (\<forall>p \<in> set (fa_recycled a). p < fa_current a)"

definition fa_live :: "usize \<Rightarrow> StackFrameAllocator \<Rightarrow> PhysPageNum set" where
  "fa_live l a =
     PhysPageNum ` ({p. l \<le> p \<and> p < fa_current a} - set (fa_recycled a))"

lemma fa_inv_current_small: "fa_inv l a \<Longrightarrow> unat (fa_current a) < 2 ^ 44"
  by (auto simp: fa_inv_def word_le_nat_alt)

lemma fa_alloc_eq:
  assumes "fa_inv l a"
  shows "fa_alloc a =
    (if fa_current a = fa_end a then Inr (None, a)
     else Inr (Some (PhysPageNum (fa_current a)), a\<lparr> fa_current := fa_current a + 1 \<rparr>))"
  using fa_inv_current_small [OF assms]
  by (simp add: fa_alloc_def Let_def PhysPageNum_from_usize_small)

lemma fa_inv_advance:
  assumes "fa_inv l a" "fa_current a \<noteq> fa_end a"
  shows "fa_inv l (a\<lparr> fa_current := fa_current a + 1 \<rparr>)"
    and "unat (fa_current a + 1) = Suc (unat (fa_current a))"
proof -
  have lt: "fa_current a < fa_end a"
    using assms by (simp add: fa_inv_def order.not_eq_order_implies_strict)
  then show s: "unat (fa_current a + 1) = Suc (unat (fa_current a))"
    by (rule unat_Suc_word)
  show "fa_inv l (a\<lparr> fa_current := fa_current a + 1 \<rparr>)"
    using assms lt s by (auto simp: fa_inv_def word_le_nat_alt word_less_nat_alt)
qed

lemma fa_live_advance:
  assumes "fa_inv l a" "fa_current a \<noteq> fa_end a"
  shows "fa_live l (a\<lparr> fa_current := fa_current a + 1 \<rparr>) =
    insert (PhysPageNum (fa_current a)) (fa_live l a)"
proof -
  have "{p. l \<le> p \<and> p < fa_current a + 1} = insert (fa_current a) {p. l \<le> p \<and> p < fa_current a}"
    using assms fa_inv_advance(2) [OF assms]
    by (auto simp: fa_inv_def word_less_nat_alt word_le_nat_alt less_Suc_eq word_unat_eq_iff)
  moreover have "fa_current a \<notin> set (fa_recycled a)"
    using assms(1) by (auto simp: fa_inv_def)
  ultimately show ?thesis
    by (auto simp: fa_live_def)
qed

interpretation fa: frame_source fa_alloc fa_dealloc "fa_live l" "fa_inv l" for l
proof (unfold_locales, goal_cases)
  case (1 s)
  then show ?case by (simp add: fa_alloc_eq)
next
  case (2 s p s')
  then show ?case
    by (auto simp: fa_alloc_eq fa_live_advance fa_inv_advance split: if_splits)
      (auto simp: fa_live_def)
next
  case (3 s s')
  then show ?case by (auto simp: fa_alloc_eq split: if_splits)
next
  case (4 s p)
  then show ?case
    by (auto simp: fa_dealloc_def fa_live_def fa_inv_def)
qed

section \<open>Frames for the rest of the kernel\<close>

definition mm_inv :: "usize \<Rightarrow> MM \<Rightarrow> bool" where
  "mm_inv l s = fa_inv l (mm_falloc s)"

definition mm_live :: "usize \<Rightarrow> MM \<Rightarrow> FrameTracker set" where
  "mm_live l s = FrameTracker ` fa_live l (mm_falloc s)"

lemma frame_alloc_cases:
  assumes "fa_inv l (mm_falloc s)"
  shows "frame_alloc s =
    (if fa_current (mm_falloc s) = fa_end (mm_falloc s) then Inr (None, s)
     else Inr (Some (FrameTracker (PhysPageNum (fa_current (mm_falloc s)))),
       s\<lparr> mm_falloc := (mm_falloc s)\<lparr> fa_current := fa_current (mm_falloc s) + 1 \<rparr>,
          mm_mem := (mm_mem s)(ppn_kernel_addr (PhysPageNum (fa_current (mm_falloc s))) := (\<lambda>_. 0)) \<rparr>))"
  using assms by (simp add: frame_alloc_def fa_alloc_eq FrameTracker_new_def)

interpretation mm: frame_source frame_alloc FrameTracker_drop "mm_live l" "mm_inv l" for l
proof (unfold_locales, goal_cases)
  case (1 s)
  then show ?case by (simp add: mm_inv_def frame_alloc_cases)
next
  case (2 s p s')
  then have inv: "fa_inv l (mm_falloc s)" and ne: "fa_current (mm_falloc s) \<noteq> fa_end (mm_falloc s)"
    and p: "p = FrameTracker (PhysPageNum (fa_current (mm_falloc s)))"
    and s': "mm_falloc s' = (mm_falloc s)\<lparr> fa_current := fa_current (mm_falloc s) + 1 \<rparr>"
    by (auto simp: mm_inv_def frame_alloc_cases split: if_splits)
  have "PhysPageNum (fa_current (mm_falloc s)) \<notin> fa_live l (mm_falloc s)"
    by (auto simp: fa_live_def)
  then show ?case
    using fa_live_advance [OF inv ne] fa_inv_advance(1) [OF inv ne] s' p
    by (auto simp: mm_live_def mm_inv_def)
next
  case (3 s s')
  then show ?case by (auto simp: mm_inv_def frame_alloc_cases split: if_splits)
next
  case (4 s p)
  then have "fa_inv l (mm_falloc s)" "ft_ppn p \<in> fa_live l (mm_falloc s)"
    by (auto simp: mm_inv_def mm_live_def)
  from fa.dealloc_live [OF this] obtain a where
    a: "fa_dealloc (ft_ppn p) (mm_falloc s) = Inr a"
      "fa_live l a = fa_live l (mm_falloc s) - {ft_ppn p}" "fa_inv l a"
    by blast
  have "inj FrameTracker" by (rule injI) simp
  then have "FrameTracker ` (fa_live l (mm_falloc s) - {ft_ppn p}) =
      FrameTracker ` fa_live l (mm_falloc s) - {p}"
    by (simp add: image_set_diff)
  then show ?case
    using a by (simp add: FrameTracker_drop_def frame_dealloc_def mm_live_def mm_inv_def)
qed

section \<open>Contiguous allocation\<close>

lemma fa_contiguous_loop_eq:
  assumes "fa_inv l a" "n \<le> unat (fa_end a) - unat (fa_current a)"
  shows "fa_contiguous_loop n ret a =
    Inr (ret @ map (\<lambda>i. PhysPageNum (fa_current a + of_nat i)) [0..<n],
      a\<lparr> fa_current := fa_current a + of_nat n \<rparr>)"
  using assms
proof (induction n arbitrary: a ret)
  case (Suc n)
  then have ne: "fa_current a \<noteq> fa_end a" by auto
  note adv = fa_inv_advance [OF Suc.prems(1) ne]
  have "n \<le> unat (fa_end a) - unat (fa_current a + 1)"
    using Suc.prems(2) adv(2) by simp
  then show ?case
    using Suc.IH [OF adv(1)] ne fa_inv_current_small [OF Suc.prems(1)]
    by (simp add: Let_def PhysPageNum_from_usize_small upt_conv_Cons map_Suc_upt [symmetric]
        o_def add.assoc del: upt_Suc)
qed simp

lemma fa_contiguous_loop_oom:
  assumes "fa_inv l a" "unat (fa_end a) - unat (fa_current a) < n"
  shows "fa_contiguous_loop n ret a = Inl (Explicit_panic ''FrameAllocator out of memory!'')"
  using assms
proof (induction n arbitrary: a ret)
  case (Suc n)
  show ?case
  proof (cases "fa_current a = fa_end a")
    case False
    note adv = fa_inv_advance [OF Suc.prems(1) False]
    have "unat (fa_end a) - unat (fa_current a + 1) < n"
      using Suc.prems adv(2) False by (auto simp: fa_inv_def word_le_nat_alt word_unat_eq_iff)
    then show ?thesis
      using Suc.IH [OF adv(1)] False fa_inv_current_small [OF Suc.prems(1)]
      by (simp add: Let_def PhysPageNum_from_usize_small)
  qed simp
qed simp

lemma alloc_many_eq:
  assumes "fa_inv l a" "n \<le> unat (fa_end a) - unat (fa_current a)"
  shows "alloc_many fa_alloc n a =
    Inr (map (\<lambda>i. PhysPageNum (fa_current a + of_nat i)) [0..<n],
      a\<lparr> fa_current := fa_current a + of_nat n \<rparr>)"
  using assms
proof (induction n arbitrary: a)
  case (Suc n)
  then have ne: "fa_current a \<noteq> fa_end a" by auto
  note adv = fa_inv_advance [OF Suc.prems(1) ne]
  have "n \<le> unat (fa_end a) - unat (fa_current a + 1)"
    using Suc.prems(2) adv(2) by simp
  then show ?case
    using Suc.IH [OF adv(1)] ne
    by (simp add: fa_alloc_eq [OF Suc.prems(1)] upt_conv_Cons map_Suc_upt [symmetric]
        o_def add.assoc del: upt_Suc)
qed simp

lemma fa_alloc_contiguous_eq:
  assumes "fa_inv l a"
  shows "fa_alloc_contiguous num a =
    (if unat num \<le> unat (fa_end a) - unat (fa_current a)
     then Inr ((map (\<lambda>i. PhysPageNum (fa_current a + of_nat i)) [0..<unat num],
                PhysPageNum (fa_current a)),
            a\<lparr> fa_current := fa_current a + num \<rparr>)
     else Inl (Explicit_panic ''FrameAllocator out of memory!''))"
  using fa_inv_current_small [OF assms]
  by (simp add: fa_alloc_contiguous_def fa_contiguous_loop_eq [OF assms]
      fa_contiguous_loop_oom [OF assms] PhysPageNum_from_usize_small)

text \<open>
  C17.  Contiguous allocation of \<^verbatim>\<open>num\<close> frames from a well-formed allocator panics
  exactly when fewer than \<^verbatim>\<open>num\<close> frames are left.  Otherwise it returns the
  \<^verbatim>\<open>num\<close> consecutive frames from the current position with the first of them as
  root: the same frames and the same allocator as \<^verbatim>\<open>num\<close> single allocations, with
  no frame repeated and none that was live before.
\<close>
theorem alloc_contiguous_correct:
  assumes "fa_inv l a"
  shows "if unat num \<le> unat (fa_end a) - unat (fa_current a)
    then \<exists>ps a'.
      fa_alloc_contiguous num a = Inr ((ps, PhysPageNum (fa_current a)), a') \<and>
      ps = map (\<lambda>i. PhysPageNum (fa_current a + of_nat i)) [0..<unat num] \<and>
      alloc_many fa_alloc (unat num) a = Inr (ps, a') \<and> distinct ps \<and>
      set ps \<inter> fa_live l a = {} \<and> fa_live l a' = fa_live l a \<union> set ps \<and> fa_inv l a'
    else fa_alloc_contiguous num a = Inl (Explicit_panic ''FrameAllocator out of memory!'')"
proof (cases "unat num \<le> unat (fa_end a) - unat (fa_current a)")
  case True
  then have many: "alloc_many fa_alloc (unat num) a =
      Inr (map (\<lambda>i. PhysPageNum (fa_current a + of_nat i)) [0..<unat num],
        a\<lparr> fa_current := fa_current a + num \<rparr>)"
    using alloc_many_eq [OF assms] by simp
  then show ?thesis
    using True fa.alloc_many_fresh [OF assms many] fa_alloc_contiguous_eq [OF assms, of num] by simp
qed (simp add: fa_alloc_contiguous_eq [OF assms])

theorem alloc_contiguous_correct_witness:
  "\<exists>a'. fa_alloc_contiguous 2 \<lparr> fa_current = 5, fa_end = 9, fa_recycled = [3] \<rparr> =
     Inr (([PhysPageNum 5, PhysPageNum 6], PhysPageNum 5), a') \<and> fa_inv 3 a'"
proof -
  have "fa_inv 3 \<lparr> fa_current = 5, fa_end = 9, fa_recycled = [3] \<rparr>"
    by (simp add: fa_inv_def)
  from alloc_contiguous_correct [OF this, of 2] show ?thesis
    by (auto simp: upt_rec)
qed

section \<open>Runs of the allocator\<close>

datatype fa_event = Got PhysPageNum | Oom | Freed PhysPageNum

inductive fa_run :: "StackFrameAllocator \<Rightarrow> fa_event list \<Rightarrow> StackFrameAllocator \<Rightarrow> bool" where
  fa_stop: "fa_run a [] a"
| fa_got: "\<lbrakk> fa_alloc a = Inr (Some p, b); fa_run b es c \<rbrakk> \<Longrightarrow> fa_run a (Got p # es) c"
| fa_oom: "\<lbrakk> fa_alloc a = Inr (None, b); fa_run b es c \<rbrakk> \<Longrightarrow> fa_run a (Oom # es) c"
| fa_freed: "\<lbrakk> fa_dealloc p a = Inr b; fa_run b es c \<rbrakk> \<Longrightarrow> fa_run a (Freed p # es) c"

fun got_pages :: "fa_event list \<Rightarrow> PhysPageNum list" where
  "got_pages [] = []"
| "got_pages (Got p # es) = p # got_pages es"
| "got_pages (e # es) = got_pages es"

lemma fa_dealloc_Inr:
  assumes "fa_dealloc p a = Inr b" "fa_inv l a"
  shows "fa_inv l b" "fa_current b = fa_current a" "fa_end b = fa_end a"
  using assms by (auto simp: fa_dealloc_def fa_inv_def split: if_splits)

text \<open>
  C18.  Over any run of allocations and deallocations no frame is handed out twice:
  the frames handed out are consecutive page numbers from the position at the start
  of the run.  So a run can never hand out more frames than were left at its start,
  however many of them were freed in between.
\<close>
theorem fa_run_consecutive:
  assumes "fa_run a es b" "fa_inv l a"
  shows "got_pages es =
      map (\<lambda>i. PhysPageNum (fa_current a + of_nat i)) [0..<length (got_pages es)] \<and>
    length (got_pages es) \<le> unat (fa_end a) - unat (fa_current a) \<and>
    distinct (got_pages es) \<and> fa_inv l b"
  using assms
proof (induction rule: fa_run.induct)
  case (fa_got a p b es c)
  then have ne: "fa_current a \<noteq> fa_end a" and p: "p = PhysPageNum (fa_current a)"
    and b: "b = a\<lparr> fa_current := fa_current a + 1 \<rparr>"
    by (auto simp: fa_alloc_eq split: if_splits)
  note adv = fa_inv_advance [OF fa_got.prems ne]
  have IH: "got_pages es = map (\<lambda>i. PhysPageNum (fa_current b + of_nat i)) [0..<length (got_pages es)]"
    "length (got_pages es) \<le> unat (fa_end b) - unat (fa_current b)" "fa_inv l c"
    using fa_got.IH adv(1) b by auto
  have lt: "unat (fa_current a) < unat (fa_end a)"
    using fa_got.prems ne by (simp add: fa_inv_def word_le_nat_alt order_less_le word_unat_eq_iff)
  have eq: "got_pages (Got p # es) =
      map (\<lambda>i. PhysPageNum (fa_current a + of_nat i)) [0..<length (got_pages (Got p # es))]"
    using IH(1) p b
    by (simp add: upt_conv_Cons map_Suc_upt [symmetric] o_def add.assoc del: upt_Suc)
  have len: "length (got_pages (Got p # es)) \<le> unat (fa_end a) - unat (fa_current a)"
    using IH(2) b adv(2) lt by simp
  have "alloc_many fa_alloc (length (got_pages (Got p # es))) a =
      Inr (got_pages (Got p # es), a\<lparr> fa_current := fa_current a + of_nat (length (got_pages (Got p # es))) \<rparr>)"
    using alloc_many_eq [OF fa_got.prems len] eq by simp
  then show ?case
    using eq len IH(3) fa.alloc_many_fresh [OF fa_got.prems] by blast
next
  case (fa_oom a b es c)
  then show ?case by (auto simp: fa_alloc_eq split: if_splits)
next
  case (fa_freed p a b es c)
  then show ?case using fa_dealloc_Inr [OF fa_freed.hyps(1) fa_freed.prems] by simp
qed simp

theorem fa_run_consecutive_witness:
  "\<exists>b. fa_run \<lparr> fa_current = 5, fa_end = 6, fa_recycled = [] \<rparr>
      [Got (PhysPageNum 5), Freed (PhysPageNum 5), Oom] b \<and> fa_inv 5 b"
proof -
  let ?a = "\<lparr> fa_current = 5, fa_end = 6, fa_recycled = [] \<rparr>"
  let ?b = "\<lparr> fa_current = 6, fa_end = 6, fa_recycled = [5] \<rparr>"
  have run: "fa_run ?a [Got (PhysPageNum 5), Freed (PhysPageNum 5), Oom] ?b"
    by (rule fa_run.intros | simp add: fa_alloc_def fa_dealloc_def PhysPageNum_from_usize_small)+
  have "fa_inv 5 ?a" by (simp add: fa_inv_def)
  from fa_run_consecutive [OF run this] run show ?thesis by blast
qed

end
