(* ===== verification/Page_Table.thy ===== *)
theory Page_Table
  imports Frame_Alloc "HOL-Library.Sublist"
begin

text \<open>
  SV39 page tables: \<^verbatim>\<open>os/src/mm/page_table.rs\<close>.  A reference to a page table entry
  is the page that holds it and its index there.  The tables live in the memory of
  the model, so a walk reads what earlier writes left there; the invariant
  \<^verbatim>\<open>pt_wf\<close> says that the tables reached from the root form a tree of allocated
  pages, and the view \<^verbatim>\<open>pt_view\<close> is the map from page numbers to valid entries that
  the tables stand for.  The locale \<^verbatim>\<open>page_map\<close> is the interface that the memory
  sets use.
\<close>

section \<open>Entries\<close>

type_synonym PTEFlags = u8

definition PTE_V :: PTEFlags where "PTE_V = push_bit 0 1"
definition PTE_R :: PTEFlags where "PTE_R = push_bit 1 1"
definition PTE_W :: PTEFlags where "PTE_W = push_bit 2 1"
definition PTE_X :: PTEFlags where "PTE_X = push_bit 3 1"
definition PTE_U :: PTEFlags where "PTE_U = push_bit 4 1"
definition PTE_G :: PTEFlags where "PTE_G = push_bit 5 1"
definition PTE_A :: PTEFlags where "PTE_A = push_bit 6 1"
definition PTE_D :: PTEFlags where "PTE_D = push_bit 7 1"

lemmas pte_flag_defs = PTE_V_def PTE_R_def PTE_W_def PTE_X_def PTE_U_def PTE_G_def PTE_A_def PTE_D_def

datatype PageTableEntry = PageTableEntry (pte_bits: usize)

definition pte_new :: "PhysPageNum \<Rightarrow> PTEFlags \<Rightarrow> PageTableEntry" where
  "pte_new ppn flags = PageTableEntry (push_bit 10 (ppn_raw ppn) OR ucast flags)"

definition pte_empty :: PageTableEntry where
  "pte_empty = PageTableEntry 0"

definition pte_ppn :: "PageTableEntry \<Rightarrow> PhysPageNum res" where
  "pte_ppn pte = PhysPageNum_from_usize (drop_bit 10 (pte_bits pte) AND (push_bit 44 1 - 1))"

text \<open>All eight bits of the flags are declared, so \<^verbatim>\<open>PTEFlags::from_bits\<close> accepts
  every byte and its \<^verbatim>\<open>unwrap\<close> cannot panic.\<close>

definition pte_flags :: "PageTableEntry \<Rightarrow> PTEFlags" where
  "pte_flags pte = ucast (pte_bits pte)"

definition pte_is_valid :: "PageTableEntry \<Rightarrow> bool" where
  "pte_is_valid pte = (pte_flags pte AND PTE_V \<noteq> 0)"

definition pte_readable :: "PageTableEntry \<Rightarrow> bool" where
  "pte_readable pte = (pte_flags pte AND PTE_R \<noteq> 0)"

definition pte_writable :: "PageTableEntry \<Rightarrow> bool" where
  "pte_writable pte = (pte_flags pte AND PTE_W \<noteq> 0)"

definition pte_executable :: "PageTableEntry \<Rightarrow> bool" where
  "pte_executable pte = (pte_flags pte AND PTE_X \<noteq> 0)"

section \<open>Tables\<close>

record PageTable =
  pt_root_ppn :: PhysPageNum
  pt_frames :: "FrameTracker list"

type_synonym pte_ref = "PhysPageNum \<times> nat"

definition pte_ref_at :: "PhysPageNum \<Rightarrow> nat \<Rightarrow> pte_ref res" where
  "pte_ref_at ppn idx = (if idx < 512 then Inr (ppn, idx) else Inl Index_out_of_bounds)"

definition pte_read :: "kmem \<Rightarrow> pte_ref \<Rightarrow> PageTableEntry" where
  "pte_read m r = PageTableEntry (pte_array m (fst r) (snd r))"

definition pte_write :: "pte_ref \<Rightarrow> PageTableEntry \<Rightarrow> MM \<Rightarrow> MM" where
  "pte_write r pte s = s\<lparr> mm_mem := pte_array_write (fst r) (snd r) (pte_bits pte) (mm_mem s) \<rparr>"

definition PageTable_new :: "MM \<Rightarrow> (PageTable \<times> MM) res" where
  "PageTable_new s =
     bindR (frame_alloc s) (\<lambda>(f, s').
       bindR (unwrapR f) (\<lambda>frame.
         Inr (\<lparr> pt_root_ppn = ft_ppn frame, pt_frames = [frame] \<rparr>, s')))"

definition PageTable_from_token :: "usize \<Rightarrow> PageTable res" where
  "PageTable_from_token satp =
     bindR (PhysPageNum_from_usize (satp AND (push_bit 44 1 - 1))) (\<lambda>root.
       Inr \<lparr> pt_root_ppn = root, pt_frames = [] \<rparr>)"

definition copy_entries_from :: "nat \<Rightarrow> PhysPageNum \<Rightarrow> PhysPageNum \<Rightarrow> kmem \<Rightarrow> kmem" where
  "copy_entries_from start dst src m =
     m(ppn_kernel_addr dst :=
         (\<lambda>i. if start \<le> i \<and> i < 512 then pte_array m src i else pte_array m dst i))"

definition PageTable_new_process :: "PageTable \<Rightarrow> MM \<Rightarrow> (PageTable \<times> MM) res" where
  "PageTable_new_process kernel_pt s =
     bindR (frame_alloc s) (\<lambda>(f, s').
       bindR (unwrapR f) (\<lambda>frame.
         bindR (VirtPageNum_from_usize KERNEL_SPACE_OFFSET) (\<lambda>kernel_root_vpn.
           let start = indexes kernel_root_vpn ! 0;
               m = copy_entries_from start (ft_ppn frame) (pt_root_ppn kernel_pt) (mm_mem s')
           in Inr (\<lparr> pt_root_ppn = ft_ppn frame, pt_frames = [frame] \<rparr>, s'\<lparr> mm_mem := m \<rparr>))))"

fun find_pte_create_loop ::
  "nat \<Rightarrow> nat list \<Rightarrow> PhysPageNum \<Rightarrow> PageTable \<Rightarrow> MM \<Rightarrow> (pte_ref option \<times> PageTable \<times> MM) res" where
  "find_pte_create_loop i [] ppn pt s = Inr (None, pt, s)"
| "find_pte_create_loop i (idx # idxs) ppn pt s =
     bindR (pte_ref_at ppn idx) (\<lambda>r.
       if i = 2 then Inr (Some r, pt, s)
       else if \<not> pte_is_valid (pte_read (mm_mem s) r) then
         bindR (frame_alloc s) (\<lambda>(f, s1).
           bindR (unwrapR f) (\<lambda>frame.
             let s2 = pte_write r (pte_new (ft_ppn frame) PTE_V) s1;
                 pt2 = pt\<lparr> pt_frames := pt_frames pt @ [frame] \<rparr>
             in bindR (pte_ppn (pte_read (mm_mem s2) r)) (\<lambda>ppn2.
                  find_pte_create_loop (Suc i) idxs ppn2 pt2 s2)))
       else
         bindR (pte_ppn (pte_read (mm_mem s) r)) (\<lambda>ppn2.
           find_pte_create_loop (Suc i) idxs ppn2 pt s))"

definition find_pte_create ::
  "VirtPageNum \<Rightarrow> PageTable \<Rightarrow> MM \<Rightarrow> (pte_ref option \<times> PageTable \<times> MM) res" where
  "find_pte_create vpn pt s = find_pte_create_loop 0 (indexes vpn) (pt_root_ppn pt) pt s"

fun find_pte_loop :: "kmem \<Rightarrow> nat \<Rightarrow> nat list \<Rightarrow> PhysPageNum \<Rightarrow> pte_ref option res" where
  "find_pte_loop m i [] ppn = Inr None"
| "find_pte_loop m i (idx # idxs) ppn =
     bindR (pte_ref_at ppn idx) (\<lambda>r.
       if i = 2 then Inr (Some r)
       else if \<not> pte_is_valid (pte_read m r) then Inr None
       else bindR (pte_ppn (pte_read m r)) (find_pte_loop m (Suc i) idxs))"

definition find_pte :: "VirtPageNum \<Rightarrow> PageTable \<Rightarrow> kmem \<Rightarrow> pte_ref option res" where
  "find_pte vpn pt m = find_pte_loop m 0 (indexes vpn) (pt_root_ppn pt)"

definition PageTable_map ::
  "VirtPageNum \<Rightarrow> PhysPageNum \<Rightarrow> PTEFlags \<Rightarrow> PageTable \<times> MM \<Rightarrow> (PageTable \<times> MM) res" where
  "PageTable_map vpn ppn flags = (\<lambda>(pt, s).
     bindR (find_pte_create vpn pt s) (\<lambda>(r, pt', s').
       bindR (unwrapR r) (\<lambda>pte.
         bindR (assertR (\<not> pte_is_valid (pte_read (mm_mem s') pte))) (\<lambda>_.
           Inr (pt', pte_write pte (pte_new ppn (flags OR PTE_V OR PTE_D OR PTE_A)) s')))))"

definition PageTable_map_allow_cover ::
  "VirtPageNum \<Rightarrow> PhysPageNum \<Rightarrow> PTEFlags \<Rightarrow> PageTable \<times> MM \<Rightarrow> (PageTable \<times> MM) res" where
  "PageTable_map_allow_cover vpn ppn flags = (\<lambda>(pt, s).
     bindR (find_pte_create vpn pt s) (\<lambda>(r, pt', s').
       bindR (unwrapR r) (\<lambda>pte.
         Inr (pt', pte_write pte (pte_new ppn (flags OR PTE_V OR PTE_D OR PTE_A)) s'))))"

definition PageTable_unmap :: "VirtPageNum \<Rightarrow> PageTable \<times> MM \<Rightarrow> (PageTable \<times> MM) res" where
  "PageTable_unmap vpn = (\<lambda>(pt, s).
     bindR (find_pte vpn pt (mm_mem s)) (\<lambda>r.
       bindR (unwrapR r) (\<lambda>pte.
         bindR (assertR (pte_is_valid (pte_read (mm_mem s) pte))) (\<lambda>_.
           Inr (pt, pte_write pte pte_empty s)))))"

definition PageTable_translate :: "VirtPageNum \<Rightarrow> PageTable \<Rightarrow> kmem \<Rightarrow> PageTableEntry option res" where
  "PageTable_translate vpn pt m =
     bindR (find_pte vpn pt m) (\<lambda>r. Inr (map_option (pte_read m) r))"

definition PageTable_translate_va :: "VirtAddr \<Rightarrow> PageTable \<Rightarrow> kmem \<Rightarrow> PhysAddr option res" where
  "PageTable_translate_va va pt m =
     bindR (find_pte (VirtAddr_floor va) pt m) (\<lambda>r.
       case r of
         None \<Rightarrow> Inr None
       | Some pte \<Rightarrow>
           bindR (pte_ppn (pte_read m pte)) (\<lambda>ppn.
             bindR (PhysAddr_from_usize
                 (pa_raw (PhysAddr_from_PhysPageNum ppn) + VirtAddr_page_offset va))
               (\<lambda>pa. Inr (Some pa))))"

definition PageTable_token :: "PageTable \<Rightarrow> usize" where
  "PageTable_token pt = push_bit 60 8 OR ppn_raw (pt_root_ppn pt)"

section \<open>Entries encode a page and its flags\<close>

definition pte_target :: "PageTableEntry \<Rightarrow> PhysPageNum" where
  "pte_target pte = PhysPageNum (take_bit 44 (drop_bit 10 (pte_bits pte)))"

lemma mask_44: "(push_bit 44 1 - 1 :: usize) = mask 44"
  by (simp add: mask_eq_exp_minus_1)

lemma pte_ppn_eq [simp]: "pte_ppn pte = Inr (pte_target pte)"
proof -
  have "unat (take_bit 44 (drop_bit 10 (pte_bits pte))) < 2 ^ 44"
    by (simp add: unat_take_bit)
  then show ?thesis
    unfolding pte_ppn_def pte_target_def mask_44 take_bit_eq_mask [symmetric]
    by (rule PhysPageNum_from_usize_small)
qed

lemma pte_target_small: "unat (ppn_raw (pte_target pte)) < 2 ^ 44"
  by (simp add: pte_target_def unat_take_bit)

lemma pte_target_new:
  assumes "unat (ppn_raw ppn) < 2 ^ 44"
  shows "pte_target (pte_new ppn flags) = ppn"
proof -
  have "take_bit 44 (ppn_raw ppn) = ppn_raw ppn"
    using assms by (simp add: take_bit_word_self_iff)
  moreover have "take_bit 44 (drop_bit 10 (push_bit 10 (ppn_raw ppn) OR ucast flags)) = take_bit 44 (ppn_raw ppn)"
    by (rule bit_eqI) (auto simp: bit_simps dest: bit_imp_le_length)
  ultimately show ?thesis
    by (simp add: pte_target_def pte_new_def)
qed

lemma pte_flags_new [simp]: "pte_flags (pte_new ppn flags) = flags"
  unfolding pte_flags_def pte_new_def
  by (rule bit_eqI) (auto simp: bit_simps dest: bit_imp_le_length)

lemma pte_is_valid_bit: "pte_is_valid pte \<longleftrightarrow> odd (pte_bits pte)"
proof -
  have "odd (ucast (pte_bits pte) :: u8) \<longleftrightarrow> odd (pte_bits pte)"
    unfolding bit_0 [symmetric] by (simp add: bit_simps)
  then show ?thesis
    by (simp add: pte_is_valid_def pte_flags_def PTE_V_def and_one_eq mod2_eq_if)
qed

lemma pte_is_valid_new: "pte_is_valid (pte_new ppn flags) \<longleftrightarrow> odd flags"
  by (simp add: pte_is_valid_def PTE_V_def and_one_eq mod2_eq_if)

lemma pte_is_valid_map [simp]: "pte_is_valid (pte_new ppn (flags OR PTE_V OR PTE_D OR PTE_A))"
  by (simp add: pte_is_valid_new pte_flag_defs even_or_iff)

lemma pte_is_valid_V [simp]: "pte_is_valid (pte_new ppn PTE_V)"
  by (simp add: pte_is_valid_new pte_flag_defs)

lemma pte_is_valid_empty [simp]: "\<not> pte_is_valid pte_empty" "\<not> pte_is_valid (PageTableEntry 0)"
  by (simp_all add: pte_is_valid_bit pte_empty_def)

section \<open>The tree of tables\<close>

definition table_step :: "kmem \<Rightarrow> PhysPageNum \<Rightarrow> nat \<Rightarrow> PhysPageNum option" where
  "table_step m p i =
     (let e = pte_read m (p, i) in if pte_is_valid e then Some (pte_target e) else None)"

fun table_at :: "kmem \<Rightarrow> PhysPageNum \<Rightarrow> nat list \<Rightarrow> PhysPageNum option" where
  "table_at m p [] = Some p"
| "table_at m p (i # is) = Option.bind (table_step m p i) (\<lambda>q. table_at m q is)"

definition table_path :: "nat list \<Rightarrow> bool" where
  "table_path is \<longleftrightarrow> length is \<le> 2 \<and> (\<forall>i \<in> set is. i < 512)"

definition pt_wf :: "nat \<Rightarrow> kmem \<Rightarrow> PhysPageNum \<Rightarrow> bool" where
  "pt_wf bound m root \<longleftrightarrow> bound < 2 ^ 44 \<and>
     (\<forall>is p. table_path is \<longrightarrow> table_at m root is = Some p \<longrightarrow> unat (ppn_raw p) < bound) \<and>
     (\<forall>is js p. table_path is \<longrightarrow> table_path js \<longrightarrow>
        table_at m root is = Some p \<longrightarrow> table_at m root js = Some p \<longrightarrow> is = js)"

definition leaf_view :: "kmem \<Rightarrow> PhysPageNum \<Rightarrow> nat list \<Rightarrow> PageTableEntry option" where
  "leaf_view m root is =
     Option.bind (table_at m root (butlast is)) (\<lambda>q.
       let e = pte_read m (q, last is) in if pte_is_valid e then Some e else None)"

lemma table_at_append:
  "table_at m p (is @ js) = Option.bind (table_at m p is) (\<lambda>q. table_at m q js)"
  by (induction "is" arbitrary: p) (auto split: bind_splits)

lemma table_at_snoc:
  "table_at m p (is @ [i]) = Option.bind (table_at m p is) (\<lambda>q. table_step m q i)"
proof -
  have "table_at m q [i] = table_step m q i" for q
    by (cases "table_step m q i") simp_all
  then show ?thesis by (simp add: table_at_append)
qed

lemma table_path_snoc [simp]:
  "table_path (is @ [i]) \<longleftrightarrow> length is \<le> 1 \<and> (\<forall>j \<in> set is. j < 512) \<and> i < 512"
  by (auto simp: table_path_def)

lemma table_path_snocD: "table_path (is @ [i]) \<Longrightarrow> table_path is"
  by (auto simp: table_path_def)

lemma pt_wf_bound: "\<lbrakk> pt_wf b m root; table_path is; table_at m root is = Some p \<rbrakk> \<Longrightarrow>
    unat (ppn_raw p) < b"
  by (auto simp: pt_wf_def)

lemma pt_wf_inj: "\<lbrakk> pt_wf b m root; table_path is; table_path js; table_at m root is = Some p;
    table_at m root js = Some p \<rbrakk> \<Longrightarrow> is = js"
  by (auto simp: pt_wf_def)

lemma pt_wf_separate:
  assumes "pt_wf b m root" "table_path is" "table_at m root is = Some p"
    and "unat (ppn_raw q) < 2 ^ 44" "p \<noteq> q"
  shows "ppn_kernel_addr p \<noteq> ppn_kernel_addr q"
proof
  assume "ppn_kernel_addr p = ppn_kernel_addr q"
  moreover have "unat (ppn_raw p) < 2 ^ 44"
    using pt_wf_bound [OF assms(1-3)] assms(1) by (auto simp: pt_wf_def)
  ultimately show False
    using ppn_kernel_addr_inj [of p q] assms(4,5) by simp
qed

text \<open>Changing one entry of one table leaves every table alone that is not reached
  through that entry.\<close>

lemma table_at_entry_write:
  assumes wf: "pt_wf b m root" and P: "table_path P" "table_at m root P = Some p"
    and Q: "table_path Q" "\<not> prefix (P @ [i]) Q"
  shows "table_at (pte_array_write p i w m) root Q = table_at m root Q"
  using Q
proof (induction Q rule: rev_induct)
  case (snoc r R)
  have R: "table_path R" "\<not> prefix (P @ [i]) R"
    using snoc.prems by (auto intro: table_path_snocD)
  have IH: "table_at (pte_array_write p i w m) root R = table_at m root R"
    using snoc.IH R by blast
  show ?case
  proof (cases "table_at m root R")
    case (Some q)
    have "table_step (pte_array_write p i w m) q r = table_step m q r"
    proof (cases "q = p")
      case True
      then have "R = P"
        using pt_wf_inj [OF wf R(1) P(1)] Some P(2) by simp
      then have "r \<noteq> i" using snoc.prems(2) by auto
      then show ?thesis
        using True by (simp add: table_step_def pte_read_def)
    next
      case False
      have "unat (ppn_raw q) < 2 ^ 44"
        using pt_wf_bound [OF wf R(1) Some] wf by (auto simp: pt_wf_def)
      then have "ppn_kernel_addr p \<noteq> ppn_kernel_addr q"
        using pt_wf_separate [OF wf P] False by blast
      then show ?thesis
        by (simp add: table_step_def pte_read_def)
    qed
    then show ?thesis
      using IH Some by (simp add: table_at_snoc)
  qed (simp add: IH table_at_snoc)
qed simp

lemma table_at_page_write:
  assumes wf: "pt_wf b m root" and f: "b \<le> unat (ppn_raw f)" "unat (ppn_raw f) < 2 ^ 44"
    and Q: "table_path Q"
  shows "table_at (m(ppn_kernel_addr f := g)) root Q = table_at m root Q"
  using Q
proof (induction Q rule: rev_induct)
  case (snoc r R)
  have R: "table_path R" using snoc.prems by (rule table_path_snocD)
  note IH = snoc.IH [OF R]
  show ?case
  proof (cases "table_at m root R")
    case None
    then show ?thesis by (simp only: table_at_snoc IH Option.bind_lzero)
  next
    case (Some q)
    have "q \<noteq> f" using pt_wf_bound [OF wf R Some] f by auto
    then have "ppn_kernel_addr q \<noteq> ppn_kernel_addr f"
      using pt_wf_separate [OF wf R Some f(2)] by blast
    then have "table_step (m(ppn_kernel_addr f := g)) q r = table_step m q r"
      by (simp add: table_step_def pte_read_def pte_array_def)
    then show ?thesis
      by (simp only: table_at_snoc IH Some Option.bind_lunit)
  qed
qed simp

lemma pt_wf_page_write:
  assumes "pt_wf b m root" "b \<le> unat (ppn_raw f)" "unat (ppn_raw f) < 2 ^ 44"
  shows "pt_wf b (m(ppn_kernel_addr f := g)) root"
  using assms(1) unfolding pt_wf_def
  by (simp add: table_at_page_write [OF assms] cong: conj_cong imp_cong)

lemma pt_wf_mono: "\<lbrakk> pt_wf b m root; b \<le> c; c < 2 ^ 44 \<rbrakk> \<Longrightarrow> pt_wf c m root"
  by (auto simp: pt_wf_def intro: order.strict_trans2)

lemma leaf_view_page_write:
  assumes "pt_wf b m root" "b \<le> unat (ppn_raw f)" "unat (ppn_raw f) < 2 ^ 44"
    and "table_path (butlast is)"
  shows "leaf_view (m(ppn_kernel_addr f := g)) root is = leaf_view m root is"
proof (cases "table_at m root (butlast is)")
  case (Some q)
  have "q \<noteq> f" using pt_wf_bound [OF assms(1,4) Some] assms(2) by auto
  then have "ppn_kernel_addr q \<noteq> ppn_kernel_addr f"
    using pt_wf_separate [OF assms(1,4) Some assms(3)] by blast
  then show ?thesis
    using table_at_page_write [OF assms] Some by (simp add: leaf_view_def pte_read_def pte_array_def)
qed (simp add: leaf_view_def table_at_page_write [OF assms])

text \<open>Linking a zeroed page into a free slot adds one table and no valid leaf.\<close>

definition link_table :: "PhysPageNum \<Rightarrow> nat \<Rightarrow> PhysPageNum \<Rightarrow> kmem \<Rightarrow> kmem" where
  "link_table p i f m =
     pte_array_write p i (pte_bits (pte_new f PTE_V)) (m(ppn_kernel_addr f := (\<lambda>_. 0)))"

lemma link_table_at:
  assumes wf: "pt_wf b m root" and f: "b \<le> unat (ppn_raw f)" "unat (ppn_raw f) < 2 ^ 44"
    and P: "length P \<le> 1" "table_path P" "table_at m root P = Some p"
    and i: "i < 512" "\<not> pte_is_valid (pte_read m (p, i))"
    and Q: "table_path Q"
  shows "table_at (link_table p i f m) root Q =
    (if prefix (P @ [i]) Q then (if Q = P @ [i] then Some f else None) else table_at m root Q)"
proof -
  let ?m1 = "m(ppn_kernel_addr f := (\<lambda>_. 0))"
  let ?m2 = "link_table p i f m"
  note wf1 = pt_wf_page_write [OF wf f]
  have at1: "table_at ?m1 root R = table_at m root R" if "table_path R" for R
    using table_at_page_write [OF wf f that] .
  have P1: "table_at ?m1 root P = Some p" using at1 P by simp
  have pf: "ppn_kernel_addr p \<noteq> ppn_kernel_addr f"
    using pt_wf_separate [OF wf P(2,3) f(2)] pt_wf_bound [OF wf P(2,3)] f(1) by fastforce
  have same: "table_at ?m2 root R = table_at m root R" if "table_path R" "\<not> prefix (P @ [i]) R" for R
    unfolding link_table_def using table_at_entry_write [OF wf1 P(2) P1 that] at1 that(1) by simp
  have "\<not> prefix (P @ [i]) P" by (auto simp: prefix_def)
  then have "table_at ?m2 root P = Some p" using same P by simp
  moreover have "table_step ?m2 p i = Some f"
    using f by (simp add: table_step_def pte_read_def link_table_def pte_target_new)
  ultimately have new: "table_at ?m2 root (P @ [i]) = Some f"
    by (simp add: table_at_snoc)
  have "table_step ?m2 f r = None" for r
    using pf by (simp add: table_step_def pte_read_def link_table_def pte_array_write_def pte_array_def)
  then have dead: "table_at ?m2 root ((P @ [i]) @ r # rs) = None" for r rs
    unfolding table_at_append [of _ _ "P @ [i]"] new by simp
  show ?thesis
  proof (cases "prefix (P @ [i]) Q")
    case True
    then obtain zs where zs: "Q = (P @ [i]) @ zs" by (rule prefixE)
    show ?thesis
      using True new dead zs by (cases zs) auto
  next
    case False
    then show ?thesis using same Q by simp
  qed
qed

lemma link_table_wf:
  assumes wf: "pt_wf b m root" and f: "b \<le> unat (ppn_raw f)" "Suc (unat (ppn_raw f)) < 2 ^ 44"
    and P: "length P \<le> 1" "table_path P" "table_at m root P = Some p"
    and i: "i < 512" "\<not> pte_is_valid (pte_read m (p, i))"
  shows "pt_wf (Suc (unat (ppn_raw f))) (link_table p i f m) root"
proof -
  have f2: "unat (ppn_raw f) < 2 ^ 44" using f(2) by simp
  note at = link_table_at [OF wf f(1) f2 P i]
  have bound: "unat (ppn_raw q) < Suc (unat (ppn_raw f))"
    if "table_path R" "table_at (link_table p i f m) root R = Some q" for R q
    using that at [OF that(1)] pt_wf_bound [OF wf that(1)] f(1)
    by (auto split: if_splits intro: order.strict_trans2)
  have fresh: "table_at m root R \<noteq> Some f" if "table_path R" for R
    using pt_wf_bound [OF wf that] f(1) by fastforce
  have inj: "R = S"
    if "table_path R" "table_path S" "table_at (link_table p i f m) root R = Some q"
      "table_at (link_table p i f m) root S = Some q" for R S q
    using that at [OF that(1)] at [OF that(2)] fresh pt_wf_inj [OF wf that(1,2)]
    by (auto split: if_splits)
  show ?thesis
    unfolding pt_wf_def using f(2) bound inj by blast
qed

lemma link_table_leaf:
  assumes wf: "pt_wf b m root" and f: "b \<le> unat (ppn_raw f)" "unat (ppn_raw f) < 2 ^ 44"
    and P: "length P \<le> 1" "table_path P" "table_at m root P = Some p"
    and i: "i < 512" "\<not> pte_is_valid (pte_read m (p, i))"
    and Q: "table_path Q" "length Q = 2"
  shows "leaf_view (link_table p i f m) root (Q @ [k]) = leaf_view m root (Q @ [k])"
proof -
  note at = link_table_at [OF wf f P i Q(1)]
  have pf: "ppn_kernel_addr p \<noteq> ppn_kernel_addr f"
    using pt_wf_separate [OF wf P(2,3) f(2)] pt_wf_bound [OF wf P(2,3)] f(1) by fastforce
  have old: "table_at m root Q = None" if pre: "prefix (P @ [i]) Q"
  proof -
    obtain zs where "Q = (P @ [i]) @ zs" using pre by (rule prefixE)
    then show ?thesis
      using P(3) i(2) by (simp add: table_at_append table_step_def)
  qed
  have zero: "pte_read (link_table p i f m) (f, k) = PageTableEntry 0"
    using pf by (simp add: pte_read_def link_table_def pte_array_write_def pte_array_def)
  show ?thesis
  proof (cases "prefix (P @ [i]) Q")
    case True
    then show ?thesis
      using at old zero by (auto simp: leaf_view_def)
  next
    case False
    show ?thesis
    proof (cases "table_at m root Q")
      case (Some q)
      have "q \<noteq> f" using pt_wf_bound [OF wf Q(1) Some] f(1) by auto
      then have qf: "ppn_kernel_addr q \<noteq> ppn_kernel_addr f"
        using pt_wf_separate [OF wf Q(1) Some f(2)] by blast
      have "q \<noteq> p" using pt_wf_inj [OF wf Q(1) P(2) Some] P Q(2) by auto
      then have qp: "ppn_kernel_addr p \<noteq> ppn_kernel_addr q"
        using pt_wf_separate [OF wf P(2,3)] pt_wf_bound [OF wf Q(1) Some] wf
        by (auto simp: pt_wf_def)
      then have "pte_read (link_table p i f m) (q, k) = pte_read m (q, k)"
        using qf by (simp add: pte_read_def link_table_def pte_array_write_def pte_array_def)
      then show ?thesis
        using at False Some by (simp add: leaf_view_def)
    qed (use at False in \<open>simp add: leaf_view_def\<close>)
  qed
qed

text \<open>Writing a leaf changes that leaf alone.\<close>

lemma leaf_write:
  assumes wf: "pt_wf b m root" and Q: "table_path Q" "length Q = 2" "table_at m root Q = Some q"
  shows "pt_wf b (pte_array_write q k w m) root"
    and "table_path R \<Longrightarrow> table_at (pte_array_write q k w m) root R = table_at m root R"
    and "\<lbrakk> table_path R; length R = 2 \<rbrakk> \<Longrightarrow>
      leaf_view (pte_array_write q k w m) root (R @ [j]) =
        (if R = Q \<and> j = k
         then (if pte_is_valid (PageTableEntry w) then Some (PageTableEntry w) else None)
         else leaf_view m root (R @ [j]))"
proof -
  have at: "table_at (pte_array_write q k w m) root R = table_at m root R" if "table_path R" for R
  proof -
    have "length R \<le> 2" using that by (simp add: table_path_def)
    then have "\<not> prefix (Q @ [k]) R"
      using Q(2) by (auto dest: prefix_length_le)
    then show ?thesis
      using table_at_entry_write [OF wf Q(1,3) that] by blast
  qed
  then show "table_path R \<Longrightarrow> table_at (pte_array_write q k w m) root R = table_at m root R" .
  show "pt_wf b (pte_array_write q k w m) root"
    using wf unfolding pt_wf_def by (simp add: at cong: conj_cong imp_cong)
  assume R: "table_path R" "length R = 2"
  show "leaf_view (pte_array_write q k w m) root (R @ [j]) =
      (if R = Q \<and> j = k
       then (if pte_is_valid (PageTableEntry w) then Some (PageTableEntry w) else None)
       else leaf_view m root (R @ [j]))"
  proof (cases "table_at m root R")
    case None
    then show ?thesis using at [OF R(1)] Q(3) by (auto simp: leaf_view_def)
  next
    case (Some r)
    have "R = Q \<longleftrightarrow> r = q"
      using pt_wf_inj [OF wf R(1) Q(1) Some] Q(3) Some by auto
    moreover have "r \<noteq> q \<Longrightarrow> ppn_kernel_addr q \<noteq> ppn_kernel_addr r"
      using pt_wf_separate [OF wf Q(1,3)] pt_wf_bound [OF wf R(1) Some] wf
      by (auto simp: pt_wf_def)
    ultimately show ?thesis
      using at [OF R(1)] Some by (cases "r = q") (auto simp: leaf_view_def pte_read_def)
  qed
qed

section \<open>Walks\<close>

definition mm_current :: "MM \<Rightarrow> nat" where
  "mm_current s = unat (fa_current (mm_falloc s))"

definition mm_left :: "MM \<Rightarrow> nat" where
  "mm_left s = unat (fa_end (mm_falloc s)) - unat (fa_current (mm_falloc s))"

definition pt_inv :: "usize \<Rightarrow> PageTable \<Rightarrow> MM \<Rightarrow> bool" where
  "pt_inv l pt s \<longleftrightarrow> mm_inv l s \<and> pt_wf (mm_current s) (mm_mem s) (pt_root_ppn pt)"

definition pt_tables :: "PageTable \<Rightarrow> MM \<Rightarrow> PhysPageNum set" where
  "pt_tables pt s = {p. \<exists>Q. table_path Q \<and> table_at (mm_mem s) (pt_root_ppn pt) Q = Some p}"

text \<open>What an operation on a page table may change: it keeps the root, takes frames
  from the allocator, turns only such new frames into tables, and leaves every
  allocated page alone that is not one of its tables.\<close>

definition pt_frame :: "PageTable \<times> MM \<Rightarrow> PageTable \<times> MM \<Rightarrow> bool" where
  "pt_frame x y = (case (x, y) of ((pt, s), (pt', s')) \<Rightarrow>
     pt_root_ppn pt' = pt_root_ppn pt \<and>
     fa_end (mm_falloc s') = fa_end (mm_falloc s) \<and>
     fa_recycled (mm_falloc s') = fa_recycled (mm_falloc s) \<and>
     mm_current s \<le> mm_current s' \<and>
     pt_tables pt s \<subseteq> pt_tables pt' s' \<and>
     (\<forall>p \<in> pt_tables pt' s'. p \<in> pt_tables pt s \<or> mm_current s \<le> unat (ppn_raw p)) \<and>
     (\<forall>g. g \<notin> pt_tables pt s \<longrightarrow> unat (ppn_raw g) < mm_current s \<longrightarrow>
        mm_mem s' (ppn_kernel_addr g) = mm_mem s (ppn_kernel_addr g)))"

lemma pt_frame_refl [simp]: "pt_frame x x"
  by (cases x) (simp add: pt_frame_def)

lemma pt_frame_trans [trans]: "\<lbrakk> pt_frame x y; pt_frame y z \<rbrakk> \<Longrightarrow> pt_frame x z"
proof -
  obtain p s q t r u where [simp]: "x = (p, s)" "y = (q, t)" "z = (r, u)"
    by (cases x; cases y; cases z)
  assume a: "pt_frame x y" and b: "pt_frame y z"
  have "mm_mem u (ppn_kernel_addr g) = mm_mem s (ppn_kernel_addr g)"
    if "g \<notin> pt_tables p s" "unat (ppn_raw g) < mm_current s" for g
  proof -
    have "g \<notin> pt_tables q t" "unat (ppn_raw g) < mm_current t"
      using a that by (auto simp: pt_frame_def)
    then have "mm_mem u (ppn_kernel_addr g) = mm_mem t (ppn_kernel_addr g)"
      using b by (auto simp: pt_frame_def)
    then show ?thesis
      using a that by (auto simp: pt_frame_def)
  qed
  moreover have "h \<in> pt_tables p s \<or> mm_current s \<le> unat (ppn_raw h)" if "h \<in> pt_tables r u" for h
    using a b that by (fastforce simp: pt_frame_def)
  ultimately show ?thesis
    using a b by (auto simp: pt_frame_def)
qed

lemma pt_inv_small: "pt_inv l pt s \<Longrightarrow> mm_current s < 2 ^ 44"
  by (simp add: pt_inv_def pt_wf_def)

lemma pt_tables_bound: "\<lbrakk> pt_inv l pt s; p \<in> pt_tables pt s \<rbrakk> \<Longrightarrow> unat (ppn_raw p) < mm_current s"
  by (auto simp: pt_inv_def pt_tables_def dest: pt_wf_bound)

lemma mm_inv_current: "mm_inv l s \<Longrightarrow> mm_current s \<le> unat (fa_end (mm_falloc s))"
  by (simp add: mm_inv_def fa_inv_def mm_current_def word_le_nat_alt)

lemma frame_alloc_Inr:
  assumes "mm_inv l s" "frame_alloc s = Inr (Some f, s')"
  shows "unat (ppn_raw (ft_ppn f)) = mm_current s" "mm_current s' = Suc (mm_current s)"
    "mm_mem s' = (mm_mem s)(ppn_kernel_addr (ft_ppn f) := (\<lambda>_. 0))"
    "fa_end (mm_falloc s') = fa_end (mm_falloc s)"
    "fa_recycled (mm_falloc s') = fa_recycled (mm_falloc s)"
    "mm_inv l s'" "mm_left s = Suc (mm_left s')" "Suc (mm_current s) < 2 ^ 44"
proof -
  have inv: "fa_inv l (mm_falloc s)" using assms(1) by (simp add: mm_inv_def)
  have ne: "fa_current (mm_falloc s) \<noteq> fa_end (mm_falloc s)"
    and f: "f = FrameTracker (PhysPageNum (fa_current (mm_falloc s)))"
    and s': "s' = s\<lparr> mm_falloc := (mm_falloc s)\<lparr> fa_current := fa_current (mm_falloc s) + 1 \<rparr>,
          mm_mem := (mm_mem s)(ppn_kernel_addr (PhysPageNum (fa_current (mm_falloc s))) := (\<lambda>_. 0)) \<rparr>"
    using assms(2) by (auto simp: frame_alloc_cases [OF inv] split: if_splits)
  note adv = fa_inv_advance [OF inv ne]
  show "unat (ppn_raw (ft_ppn f)) = mm_current s" by (simp add: f mm_current_def)
  show c: "mm_current s' = Suc (mm_current s)" using adv(2) by (simp add: s' mm_current_def)
  show "mm_mem s' = (mm_mem s)(ppn_kernel_addr (ft_ppn f) := (\<lambda>_. 0))"
    "fa_end (mm_falloc s') = fa_end (mm_falloc s)"
    "fa_recycled (mm_falloc s') = fa_recycled (mm_falloc s)"
    by (simp_all add: s' f)
  show i: "mm_inv l s'" using adv(1) by (simp add: mm_inv_def s')
  have "mm_current s' \<le> unat (fa_end (mm_falloc s'))" using mm_inv_current [OF i] .
  then show "mm_left s = Suc (mm_left s')"
    using c by (simp add: mm_left_def mm_current_def s')
  show "Suc (mm_current s) < 2 ^ 44"
    using fa_inv_current_small [of l "mm_falloc s'"] i c by (simp add: mm_inv_def mm_current_def)
qed

lemma frame_alloc_left: "\<lbrakk> mm_inv l s; 0 < mm_left s \<rbrakk> \<Longrightarrow> \<exists>f s'. frame_alloc s = Inr (Some f, s')"
  by (auto simp: mm_inv_def frame_alloc_cases mm_left_def)

text \<open>A frame taken for data is no table and changes no view.\<close>

lemma frame_alloc_pt:
  assumes "pt_inv l pt s" "frame_alloc s = Inr (Some f, s')"
  shows "pt_inv l pt s'" "pt_frame (pt, s) (pt, s')" "ft_ppn f \<notin> pt_tables pt s'"
    and "\<lbrakk> table_path Q; length Q = 2 \<rbrakk> \<Longrightarrow>
      leaf_view (mm_mem s') (pt_root_ppn pt) (Q @ [k]) = leaf_view (mm_mem s) (pt_root_ppn pt) (Q @ [k])"
proof -
  have inv: "mm_inv l s" and wf: "pt_wf (mm_current s) (mm_mem s) (pt_root_ppn pt)"
    using assms(1) by (simp_all add: pt_inv_def)
  note fa = frame_alloc_Inr [OF inv assms(2)]
  have f: "mm_current s \<le> unat (ppn_raw (ft_ppn f))" "unat (ppn_raw (ft_ppn f)) < 2 ^ 44"
    using fa(1,8) by simp_all
  have "pt_wf (mm_current s) (mm_mem s') (pt_root_ppn pt)"
    unfolding fa(3) by (rule pt_wf_page_write [OF wf f])
  then show i: "pt_inv l pt s'"
    using fa(2,6,8) pt_wf_mono by (auto simp: pt_inv_def)
  have at: "table_at (mm_mem s') (pt_root_ppn pt) Q = table_at (mm_mem s) (pt_root_ppn pt) Q"
    if "table_path Q" for Q
    unfolding fa(3) by (rule table_at_page_write [OF wf f that])
  then have tabs: "pt_tables pt s' = pt_tables pt s"
    by (auto simp: pt_tables_def)
  show "ft_ppn f \<notin> pt_tables pt s'"
    using pt_tables_bound [OF assms(1), of "ft_ppn f"] f(1) by (auto simp: tabs)
  have "mm_mem s' (ppn_kernel_addr g) = mm_mem s (ppn_kernel_addr g)"
    if "unat (ppn_raw g) < mm_current s" for g
  proof -
    have "g \<noteq> ft_ppn f" using that fa(1) by auto
    then have "ppn_kernel_addr g \<noteq> ppn_kernel_addr (ft_ppn f)"
      using ppn_kernel_addr_inj [of g "ft_ppn f"] that f(2) fa(8) by auto
    then show ?thesis by (simp add: fa(3))
  qed
  then show "pt_frame (pt, s) (pt, s')"
    using fa(2,4,5) tabs by (simp add: pt_frame_def)
  assume "table_path Q" "length Q = 2"
  then show "leaf_view (mm_mem s') (pt_root_ppn pt) (Q @ [k]) =
      leaf_view (mm_mem s) (pt_root_ppn pt) (Q @ [k])"
    unfolding fa(3) using leaf_view_page_write [OF wf f, of "Q @ [k]"] by simp
qed

lemma indexes_cases:
  obtains i j k where "indexes v = [i, j, k]" "i < 512" "j < 512" "k < 512"
    "table_path []" "table_path [i]" "table_path [i, j]"
  using indexes_decomp [of v] by (auto simp: table_path_def)

lemma pte_ref_at_less [simp]: "i < 512 \<Longrightarrow> pte_ref_at p i = Inr (p, i)"
  by (simp add: pte_ref_at_def)

lemma find_pte_eq:
  assumes "indexes v = [i, j, k]"
  shows "find_pte v pt m = Inr (map_option (\<lambda>q. (q, k)) (table_at m (pt_root_ppn pt) [i, j]))"
proof -
  have "i < 512" "j < 512" "k < 512"
    using indexes_less [of _ v] assms by auto
  then show ?thesis
    by (simp add: find_pte_def assms table_step_def Let_def numeral_2_eq_2)
qed

lemma pt_tables_I: "\<lbrakk> table_path Q; table_at (mm_mem s) (pt_root_ppn pt) Q = Some p \<rbrakk> \<Longrightarrow> p \<in> pt_tables pt s"
  by (auto simp: pt_tables_def)

text \<open>Linking a fresh frame into a free slot of a table of the tree.\<close>

definition link_frame :: "pte_ref \<Rightarrow> FrameTracker \<Rightarrow> PageTable \<times> MM \<Rightarrow> PageTable \<times> MM" where
  "link_frame r f x = (case x of (pt, s1) \<Rightarrow>
     (pt\<lparr> pt_frames := pt_frames pt @ [f] \<rparr>, pte_write r (pte_new (ft_ppn f) PTE_V) s1))"

lemma link_frame_mem:
  assumes "mm_inv l s" "frame_alloc s = Inr (Some f, s1)" "link_frame (p, i) f (pt, s1) = (pt2, s2)"
  shows "mm_mem s2 = link_table p i (ft_ppn f) (mm_mem s)" "pt_root_ppn pt2 = pt_root_ppn pt"
    "mm_falloc s2 = mm_falloc s1" "mm_current s2 = Suc (unat (ppn_raw (ft_ppn f)))"
proof -
  note fa = frame_alloc_Inr [OF assms(1,2)]
  have s2: "s2 = pte_write (p, i) (pte_new (ft_ppn f) PTE_V) s1"
    and pt2: "pt2 = pt\<lparr> pt_frames := pt_frames pt @ [f] \<rparr>"
    using assms(3) by (simp_all add: link_frame_def)
  show "mm_mem s2 = link_table p i (ft_ppn f) (mm_mem s)"
    by (simp add: s2 pte_write_def link_table_def fa(3))
  show "pt_root_ppn pt2 = pt_root_ppn pt" by (simp add: pt2)
  show "mm_falloc s2 = mm_falloc s1" by (simp add: s2 pte_write_def)
  then show "mm_current s2 = Suc (unat (ppn_raw (ft_ppn f)))"
    using fa(1,2) by (simp add: mm_current_def)
qed

lemma link_frame_inv:
  assumes inv: "pt_inv l pt s" and P: "length P \<le> 1" "table_path P"
    "table_at (mm_mem s) (pt_root_ppn pt) P = Some p"
    and i: "i < 512" "\<not> pte_is_valid (pte_read (mm_mem s) (p, i))"
    and al: "frame_alloc s = Inr (Some f, s1)" and lf: "link_frame (p, i) f (pt, s1) = (pt2, s2)"
  shows "pt_inv l pt2 s2"
    and "table_at (mm_mem s2) (pt_root_ppn pt2) (P @ [i]) = Some (ft_ppn f)"
    and "pte_target (pte_read (mm_mem s2) (p, i)) = ft_ppn f"
    and "\<lbrakk> table_path Q; length Q = 2 \<rbrakk> \<Longrightarrow> leaf_view (mm_mem s2) (pt_root_ppn pt2) (Q @ [k]) =
      leaf_view (mm_mem s) (pt_root_ppn pt) (Q @ [k])"
proof -
  have mi: "mm_inv l s" and wf: "pt_wf (mm_current s) (mm_mem s) (pt_root_ppn pt)"
    using inv by (simp_all add: pt_inv_def)
  note fa = frame_alloc_Inr [OF mi al] and lm = link_frame_mem [OF mi al lf]
  have fb: "mm_current s \<le> unat (ppn_raw (ft_ppn f))" "unat (ppn_raw (ft_ppn f)) < 2 ^ 44"
    "Suc (unat (ppn_raw (ft_ppn f))) < 2 ^ 44"
    using fa(1,8) by simp_all
  note at = link_table_at [OF wf fb(1,2) P i]
  show "pt_inv l pt2 s2"
    using link_table_wf [OF wf fb(1,3) P i] fa(6) lm by (simp add: pt_inv_def mm_inv_def)
  show "table_at (mm_mem s2) (pt_root_ppn pt2) (P @ [i]) = Some (ft_ppn f)"
    using at [of "P @ [i]"] P i by (simp add: lm table_path_def)
  show "pte_target (pte_read (mm_mem s2) (p, i)) = ft_ppn f"
    using fb(2) by (simp add: lm link_table_def pte_read_def pte_target_new)
  show "\<lbrakk> table_path Q; length Q = 2 \<rbrakk> \<Longrightarrow> leaf_view (mm_mem s2) (pt_root_ppn pt2) (Q @ [k]) =
      leaf_view (mm_mem s) (pt_root_ppn pt) (Q @ [k])"
    using link_table_leaf [OF wf fb(1,2) P i] by (simp add: lm)
qed

lemma link_frame_frame:
  assumes inv: "pt_inv l pt s" and P: "length P \<le> 1" "table_path P"
    "table_at (mm_mem s) (pt_root_ppn pt) P = Some p"
    and i: "i < 512" "\<not> pte_is_valid (pte_read (mm_mem s) (p, i))"
    and al: "frame_alloc s = Inr (Some f, s1)" and lf: "link_frame (p, i) f (pt, s1) = (pt2, s2)"
  shows "pt_frame (pt, s) (pt2, s2)"
proof -
  have mi: "mm_inv l s" and wf: "pt_wf (mm_current s) (mm_mem s) (pt_root_ppn pt)"
    using inv by (simp_all add: pt_inv_def)
  note fa = frame_alloc_Inr [OF mi al] and lm = link_frame_mem [OF mi al lf]
  have fb: "mm_current s \<le> unat (ppn_raw (ft_ppn f))" "unat (ppn_raw (ft_ppn f)) < 2 ^ 44"
    "Suc (unat (ppn_raw (ft_ppn f))) < 2 ^ 44"
    using fa(1,8) by simp_all
  note at = link_table_at [OF wf fb(1,2) P i]
  have "x \<in> pt_tables pt2 s2" if x: "x \<in> pt_tables pt s" for x
  proof -
    obtain Q where Q: "table_path Q" "table_at (mm_mem s) (pt_root_ppn pt) Q = Some x"
      using x by (auto simp: pt_tables_def)
    have "\<not> prefix (P @ [i]) Q"
    proof
      assume "prefix (P @ [i]) Q"
      then obtain zs where "Q = (P @ [i]) @ zs" by (rule prefixE)
      then show False
        using Q(2) P(3) i(2) by (simp add: table_at_append table_step_def)
    qed
    then show ?thesis
      using at [OF Q(1)] Q by (auto simp: pt_tables_def lm)
  qed
  moreover have "x \<in> pt_tables pt s \<or> mm_current s \<le> unat (ppn_raw x)" if "x \<in> pt_tables pt2 s2" for x
    using that at fb(1) by (auto simp: pt_tables_def lm split: if_splits)
  moreover have "mm_mem s2 (ppn_kernel_addr g) = mm_mem s (ppn_kernel_addr g)"
    if "g \<notin> pt_tables pt s" "unat (ppn_raw g) < mm_current s" for g
  proof -
    have "ppn_kernel_addr g \<noteq> ppn_kernel_addr (ft_ppn f)"
      using ppn_kernel_addr_inj [of g "ft_ppn f"] that fb by auto
    moreover have "p \<noteq> g" using pt_tables_I [OF P(2,3)] that(1) by auto
    then have "ppn_kernel_addr p \<noteq> ppn_kernel_addr g"
      using pt_wf_separate [OF wf P(2,3), of g] that(2) pt_inv_small [OF inv] by auto
    ultimately show ?thesis
      by (simp add: lm link_table_def pte_array_write_def)
  qed
  ultimately show ?thesis
    using lm fa(4,5) fb(1) by (auto simp: pt_frame_def)
qed

text \<open>One level of \<^verbatim>\<open>find_pte_create\<close>.\<close>

lemma create_level:
  assumes inv: "pt_inv l pt s" and P: "length P \<le> 1" "table_path P"
    "table_at (mm_mem s) (pt_root_ppn pt) P = Some p" and i: "i < 512" and n: "n \<noteq> 2"
    and ok: "find_pte_create_loop n (i # is) p pt s = Inr res"
  shows "\<exists>q pt2 s2. find_pte_create_loop (Suc n) is q pt2 s2 = Inr res \<and> pt_inv l pt2 s2 \<and>
    pt_frame (pt, s) (pt2, s2) \<and> table_at (mm_mem s2) (pt_root_ppn pt2) (P @ [i]) = Some q \<and>
    mm_left s \<le> Suc (mm_left s2) \<and>
    (\<forall>Q k. table_path Q \<longrightarrow> length Q = 2 \<longrightarrow>
       leaf_view (mm_mem s2) (pt_root_ppn pt2) (Q @ [k]) = leaf_view (mm_mem s) (pt_root_ppn pt) (Q @ [k]))"
proof (cases "pte_is_valid (pte_read (mm_mem s) (p, i))")
  case True
  then have "find_pte_create_loop (Suc n) is (pte_target (pte_read (mm_mem s) (p, i))) pt s = Inr res"
    using ok i n by simp
  moreover have "table_at (mm_mem s) (pt_root_ppn pt) (P @ [i]) =
      Some (pte_target (pte_read (mm_mem s) (p, i)))"
    using True P(3) by (simp add: table_at_snoc table_step_def)
  ultimately show ?thesis using inv pt_frame_refl [of "(pt, s)"] le_SucI [OF order_refl] by blast
next
  case False
  obtain f s1 where al: "frame_alloc s = Inr (Some f, s1)"
    and rest: "find_pte_create_loop (Suc n) is
      (pte_target (pte_read (mm_mem (snd (link_frame (p, i) f (pt, s1)))) (p, i)))
      (fst (link_frame (p, i) f (pt, s1))) (snd (link_frame (p, i) f (pt, s1))) = Inr res"
    using ok i n False by (auto simp: outcome Let_def link_frame_def split: prod.splits)
  obtain pt2 s2 where lf: "link_frame (p, i) f (pt, s1) = (pt2, s2)" by (cases "link_frame (p, i) f (pt, s1)")
  note li = link_frame_inv [OF inv P i False al lf]
  have "find_pte_create_loop (Suc n) is (ft_ppn f) pt2 s2 = Inr res"
    using rest li(3) by (simp add: lf)
  moreover have "mm_left s \<le> Suc (mm_left s2)"
  proof -
    have mi: "mm_inv l s" using inv by (simp add: pt_inv_def)
    show ?thesis
      using frame_alloc_Inr(7) [OF mi al] link_frame_mem(3) [OF mi al lf] by (simp add: mm_left_def)
  qed
  ultimately show ?thesis
    using li(1,2,4) link_frame_frame [OF inv P i False al lf] by blast
qed

lemma create_level_total:
  assumes inv: "pt_inv l pt s" and P: "length P \<le> 1" "table_path P"
    "table_at (mm_mem s) (pt_root_ppn pt) P = Some p" and i: "i < 512" and n: "n \<noteq> 2"
    and left: "k < mm_left s"
  shows "\<exists>q pt2 s2. find_pte_create_loop n (i # is) p pt s = find_pte_create_loop (Suc n) is q pt2 s2 \<and>
    pt_inv l pt2 s2 \<and> table_at (mm_mem s2) (pt_root_ppn pt2) (P @ [i]) = Some q \<and> k \<le> mm_left s2"
proof (cases "pte_is_valid (pte_read (mm_mem s) (p, i))")
  case True
  then have "table_at (mm_mem s) (pt_root_ppn pt) (P @ [i]) =
      Some (pte_target (pte_read (mm_mem s) (p, i)))"
    using P(3) by (simp add: table_at_snoc table_step_def)
  moreover have "find_pte_create_loop n (i # is) p pt s =
      find_pte_create_loop (Suc n) is (pte_target (pte_read (mm_mem s) (p, i))) pt s"
    using True i n by simp
  ultimately show ?thesis using inv less_imp_le [OF left] by blast
next
  case False
  have mi: "mm_inv l s" using inv by (simp add: pt_inv_def)
  then obtain f s1 where al: "frame_alloc s = Inr (Some f, s1)"
    using frame_alloc_left left by fastforce
  obtain pt2 s2 where lf: "link_frame (p, i) f (pt, s1) = (pt2, s2)" by (cases "link_frame (p, i) f (pt, s1)")
  note li = link_frame_inv [OF inv P i False al lf]
  have "mm_left s2 = mm_left s1"
    using link_frame_mem(3) [OF mi al lf] by (simp add: mm_left_def)
  then have "k \<le> mm_left s2" using frame_alloc_Inr(7) [OF mi al] left by simp
  moreover have "find_pte_create_loop n (i # is) p pt s = find_pte_create_loop (Suc n) is (ft_ppn f) pt2 s2"
    using i n False al lf li(3) by (auto simp: Let_def link_frame_def)
  ultimately show ?thesis using li(1,2) by blast
qed

lemma find_pte_create_spec:
  assumes inv: "pt_inv l pt s" and ix: "indexes v = [i, j, k]"
    and ok: "find_pte_create v pt s = Inr (r, pt', s')"
  shows "\<exists>q. r = Some (q, k) \<and> pt_inv l pt' s' \<and> pt_frame (pt, s) (pt', s') \<and>
    mm_left s \<le> mm_left s' + 2 \<and> table_at (mm_mem s') (pt_root_ppn pt') [i, j] = Some q \<and>
    (\<forall>Q x. table_path Q \<longrightarrow> length Q = 2 \<longrightarrow>
       leaf_view (mm_mem s') (pt_root_ppn pt') (Q @ [x]) = leaf_view (mm_mem s) (pt_root_ppn pt) (Q @ [x]))"
proof -
  have b: "i < 512" "j < 512" "k < 512" using indexes_less [of _ v] ix by auto
  have p: "table_path []" "table_path [i]" using b by (simp_all add: table_path_def)
  have ok0: "find_pte_create_loop 0 (i # [j, k]) (pt_root_ppn pt) pt s = Inr (r, pt', s')"
    using ok by (simp add: find_pte_create_def ix)
  obtain q1 pt1 s1 where 1: "find_pte_create_loop (Suc 0) (j # [k]) q1 pt1 s1 = Inr (r, pt', s')"
    "pt_inv l pt1 s1" "pt_frame (pt, s) (pt1, s1)" "table_at (mm_mem s1) (pt_root_ppn pt1) [i] = Some q1"
    "mm_left s \<le> Suc (mm_left s1)"
    "\<forall>Q x. table_path Q \<longrightarrow> length Q = 2 \<longrightarrow>
       leaf_view (mm_mem s1) (pt_root_ppn pt1) (Q @ [x]) = leaf_view (mm_mem s) (pt_root_ppn pt) (Q @ [x])"
    using create_level [OF inv _ p(1) _ b(1) _ ok0] by auto
  obtain q2 pt2 s2 where 2: "find_pte_create_loop (Suc (Suc 0)) [k] q2 pt2 s2 = Inr (r, pt', s')"
    "pt_inv l pt2 s2" "pt_frame (pt1, s1) (pt2, s2)" "table_at (mm_mem s2) (pt_root_ppn pt2) [i, j] = Some q2"
    "mm_left s1 \<le> Suc (mm_left s2)"
    "\<forall>Q x. table_path Q \<longrightarrow> length Q = 2 \<longrightarrow>
       leaf_view (mm_mem s2) (pt_root_ppn pt2) (Q @ [x]) = leaf_view (mm_mem s1) (pt_root_ppn pt1) (Q @ [x])"
    using create_level [OF 1(2) _ p(2) 1(4) b(2) _ 1(1)] by auto
  have "r = Some (q2, k)" "pt' = pt2" "s' = s2" using 2(1) b(3) by auto
  then show ?thesis
    using 2(2,4-6) 1(5,6) pt_frame_trans [OF 1(3) 2(3)] by simp
qed

lemma find_pte_create_total:
  assumes inv: "pt_inv l pt s" and left: "2 \<le> mm_left s"
  shows "\<exists>r pt' s'. find_pte_create v pt s = Inr (r, pt', s')"
proof -
  obtain i j k where ix: "indexes v = [i, j, k]" and b: "i < 512" "j < 512" "k < 512"
    and p: "table_path []" "table_path [i]" by (rule indexes_cases)
  obtain q1 pt1 s1 where 1: "find_pte_create_loop 0 (i # [j, k]) (pt_root_ppn pt) pt s =
      find_pte_create_loop (Suc 0) (j # [k]) q1 pt1 s1" "pt_inv l pt1 s1"
    "table_at (mm_mem s1) (pt_root_ppn pt1) [i] = Some q1" "1 \<le> mm_left s1"
    using create_level_total [OF inv _ p(1) _ b(1), of _ 0 1 "[j, k]"] left by auto
  obtain q2 pt2 s2 where "find_pte_create_loop (Suc 0) (j # [k]) q1 pt1 s1 =
      find_pte_create_loop (Suc (Suc 0)) [k] q2 pt2 s2"
    using create_level_total [OF 1(2) _ p(2) 1(3) b(2), of "Suc 0" 0 "[k]"] 1(4) by auto
  then show ?thesis
    using 1(1) b(3) by (simp add: find_pte_create_def ix)
qed

section \<open>The map a page table stands for\<close>

definition legal_vpn :: "VirtPageNum \<Rightarrow> bool" where
  "legal_vpn v \<longleftrightarrow> VirtPageNum_from_usize (vpn_raw v) = Inr v"

definition pt_view :: "PageTable \<times> MM \<Rightarrow> VirtPageNum \<Rightarrow> PageTableEntry option" where
  "pt_view x v = (case x of (pt, s) \<Rightarrow>
     if legal_vpn v then leaf_view (mm_mem s) (pt_root_ppn pt) (indexes v) else None)"

definition map_entry :: "PhysPageNum \<Rightarrow> PTEFlags \<Rightarrow> PageTableEntry" where
  "map_entry ppn flags = pte_new ppn (flags OR PTE_V OR PTE_D OR PTE_A)"

definition pt_inv2 :: "usize \<Rightarrow> PageTable \<times> MM \<Rightarrow> bool" where
  "pt_inv2 l x = (case x of (pt, s) \<Rightarrow> pt_inv l pt s)"

lemma indexes_snoc:
  obtains Q k where "indexes v = Q @ [k]" "table_path Q" "length Q = 2"
proof -
  obtain i j k where "indexes v = [i, j, k]" "table_path [i, j]" by (rule indexes_cases)
  then show ?thesis using that [of "[i, j]" k] by simp
qed

lemma pt_view_translate:
  assumes "legal_vpn v"
  shows "pt_view (pt, s) v =
    (case PageTable_translate v pt (mm_mem s) of
       Inr (Some pte) \<Rightarrow> if pte_is_valid pte then Some pte else None | _ \<Rightarrow> None)"
proof -
  obtain i j k where ix: "indexes v = [i, j, k]" by (rule indexes_cases)
  show ?thesis
    using assms
    by (cases "table_at (mm_mem s) (pt_root_ppn pt) [i, j]")
      (simp_all add: pt_view_def leaf_view_def PageTable_translate_def find_pte_eq [OF ix] ix Let_def
        del: table_at.simps)
qed

lemma leaf_write_view:
  assumes inv: "pt_inv l pt s" and v: "legal_vpn v" "indexes v = [i, j, k]"
    and q: "table_at (mm_mem s) (pt_root_ppn pt) [i, j] = Some q"
  shows "pt_inv l pt (pte_write (q, k) e s)" "pt_frame (pt, s) (pt, pte_write (q, k) e s)"
    "pt_view (pt, pte_write (q, k) e s) =
       (pt_view (pt, s))(v := if pte_is_valid e then Some e else None)"
proof -
  have wf: "pt_wf (mm_current s) (mm_mem s) (pt_root_ppn pt)" using inv by (simp add: pt_inv_def)
  have Q: "table_path [i, j]" "length [i, j] = 2"
    using indexes_less [of _ v] v by (auto simp: table_path_def)
  note lw = leaf_write [OF wf Q q, where k = k and w = "pte_bits e"]
  show "pt_inv l pt (pte_write (q, k) e s)"
    using lw(1) inv by (simp add: pt_inv_def pte_write_def mm_current_def mm_inv_def)
  have "pt_tables pt (pte_write (q, k) e s) = pt_tables pt s"
    using lw(2) by (auto simp: pt_tables_def pte_write_def)
  moreover have "mm_mem (pte_write (q, k) e s) (ppn_kernel_addr g) = mm_mem s (ppn_kernel_addr g)"
    if "g \<notin> pt_tables pt s" "unat (ppn_raw g) < mm_current s" for g
  proof -
    have "q \<noteq> g" using pt_tables_I [OF Q(1) q] that(1) by auto
    then have "ppn_kernel_addr q \<noteq> ppn_kernel_addr g"
      using pt_wf_separate [OF wf Q(1) q, of g] that(2) pt_inv_small [OF inv] by auto
    then show ?thesis by (simp add: pte_write_def pte_array_write_def)
  qed
  ultimately show "pt_frame (pt, s) (pt, pte_write (q, k) e s)"
    by (simp add: pt_frame_def pte_write_def mm_current_def)
  show "pt_view (pt, pte_write (q, k) e s) =
      (pt_view (pt, s))(v := if pte_is_valid e then Some e else None)"
  proof
    fix u
    obtain R x where R: "indexes u = R @ [x]" "table_path R" "length R = 2" by (rule indexes_snoc)
    have "R = [i, j] \<and> x = k \<longleftrightarrow> u = v" if "legal_vpn u"
      using indexes_determine_vpn [of "vpn_raw u" u "vpn_raw v" v] that v R(1)
      by (auto simp: legal_vpn_def)
    then show "pt_view (pt, pte_write (q, k) e s) u =
        ((pt_view (pt, s))(v := if pte_is_valid e then Some e else None)) u"
      using lw(3) [OF R(2,3), of x] v by (auto simp: pt_view_def R(1) pte_write_def)
  qed
qed

lemma pt_view_create:
  assumes "pt_inv l pt s" "find_pte_create v pt s = Inr (r, pt', s')"
  shows "pt_view (pt', s') = pt_view (pt, s)"
proof
  fix u
  obtain i j k where ix: "indexes v = [i, j, k]" by (rule indexes_cases)
  obtain R x where R: "indexes u = R @ [x]" "table_path R" "length R = 2" by (rule indexes_snoc)
  then show "pt_view (pt', s') u = pt_view (pt, s) u"
    using find_pte_create_spec [OF assms(1) ix assms(2)] by (auto simp: pt_view_def)
qed

lemma PageTable_map_spec:
  assumes inv: "pt_inv l pt s" and v: "legal_vpn v"
    and ok: "PageTable_map v ppn flags (pt, s) = Inr (pt', s')"
  shows "pt_inv l pt' s'" "pt_frame (pt, s) (pt', s')" "pt_view (pt, s) v = None"
    "pt_view (pt', s') = (pt_view (pt, s))(v \<mapsto> map_entry ppn flags)"
    "mm_left s \<le> mm_left s' + 2"
proof -
  obtain i j k where ix: "indexes v = [i, j, k]" and p: "table_path [i, j]" by (rule indexes_cases)
  obtain r s1 where cr: "find_pte_create v pt s = Inr (Some r, pt', s1)"
    and nv: "\<not> pte_is_valid (pte_read (mm_mem s1) r)"
    and s': "s' = pte_write r (map_entry ppn flags) s1"
    using ok by (auto simp: PageTable_map_def outcome map_entry_def split: prod.splits)
  obtain q where r: "r = (q, k)" and inv1: "pt_inv l pt' s1" and fr: "pt_frame (pt, s) (pt', s1)"
    and left: "mm_left s \<le> mm_left s1 + 2" and q: "table_at (mm_mem s1) (pt_root_ppn pt') [i, j] = Some q"
    using find_pte_create_spec [OF inv ix cr] by auto
  note lw = leaf_write_view [OF inv1 v ix q, where e = "map_entry ppn flags"]
  have view: "pt_view (pt', s1) = pt_view (pt, s)" by (rule pt_view_create [OF inv cr])
  show "mm_left s \<le> mm_left s' + 2" using left by (simp add: s' pte_write_def mm_left_def)
  show "pt_inv l pt' s'" using lw(1) by (simp add: s' r)
  show "pt_frame (pt, s) (pt', s')" using pt_frame_trans [OF fr lw(2)] by (simp add: s' r)
  have "pt_view (pt', s1) v = None"
    using nv q v by (simp add: pt_view_def leaf_view_def ix r Let_def del: table_at.simps)
  then show "pt_view (pt, s) v = None" by (simp add: view)
  show "pt_view (pt', s') = (pt_view (pt, s))(v \<mapsto> map_entry ppn flags)"
    using lw(3) by (simp add: s' r view map_entry_def)
qed

lemma PageTable_map_total:
  assumes inv: "pt_inv l pt s" and v: "legal_vpn v" and left: "2 \<le> mm_left s"
  shows "pt_view (pt, s) v = None \<Longrightarrow> \<exists>y. PageTable_map v ppn flags (pt, s) = Inr y"
    and "pt_view (pt, s) v \<noteq> None \<Longrightarrow> PageTable_map v ppn flags (pt, s) = Inl Assert_failed"
proof -
  obtain i j k where ix: "indexes v = [i, j, k]" and p: "table_path [i, j]" by (rule indexes_cases)
  obtain r pt' s1 where cr: "find_pte_create v pt s = Inr (r, pt', s1)"
    using find_pte_create_total [OF inv left] by blast
  obtain q where r: "r = Some (q, k)" and q: "table_at (mm_mem s1) (pt_root_ppn pt') [i, j] = Some q"
    using find_pte_create_spec [OF inv ix cr] by auto
  have "pt_view (pt, s) v =
      (let e = pte_read (mm_mem s1) (q, k) in if pte_is_valid e then Some e else None)"
    using q v pt_view_create [OF inv cr, THEN fun_cong, of v, symmetric]
    by (simp add: pt_view_def leaf_view_def ix del: table_at.simps)
  then show "pt_view (pt, s) v = None \<Longrightarrow> \<exists>y. PageTable_map v ppn flags (pt, s) = Inr y"
    and "pt_view (pt, s) v \<noteq> None \<Longrightarrow> PageTable_map v ppn flags (pt, s) = Inl Assert_failed"
    by (auto simp: PageTable_map_def cr r Let_def split: if_splits)
qed

lemma PageTable_unmap_spec:
  assumes inv: "pt_inv l pt s" and v: "legal_vpn v"
  shows "PageTable_unmap v (pt, s) = Inr (pt', s') \<Longrightarrow>
      pt' = pt \<and> pt_inv l pt s' \<and> pt_frame (pt, s) (pt, s') \<and> pt_view (pt, s) v \<noteq> None \<and>
      pt_view (pt, s') = (pt_view (pt, s))(v := None)"
    and "pt_view (pt, s) v \<noteq> None \<Longrightarrow> \<exists>s'. PageTable_unmap v (pt, s) = Inr (pt, s')"
    and "pt_view (pt, s) v = None \<Longrightarrow> \<exists>e. PageTable_unmap v (pt, s) = Inl e"
proof -
  obtain i j k where ix: "indexes v = [i, j, k]" and p: "table_path [i, j]" by (rule indexes_cases)
  let ?t = "table_at (mm_mem s) (pt_root_ppn pt) [i, j]"
  have view: "pt_view (pt, s) v = Option.bind ?t (\<lambda>q.
      let e = pte_read (mm_mem s) (q, k) in if pte_is_valid e then Some e else None)"
    using v by (simp add: pt_view_def leaf_view_def ix del: table_at.simps)
  show "PageTable_unmap v (pt, s) = Inr (pt', s') \<Longrightarrow>
      pt' = pt \<and> pt_inv l pt s' \<and> pt_frame (pt, s) (pt, s') \<and> pt_view (pt, s) v \<noteq> None \<and>
      pt_view (pt, s') = (pt_view (pt, s))(v := None)"
  proof -
    assume "PageTable_unmap v (pt, s) = Inr (pt', s')"
    then obtain q where q: "?t = Some q" "pte_is_valid (pte_read (mm_mem s) (q, k))"
      "pt' = pt" "s' = pte_write (q, k) pte_empty s"
      by (auto simp: PageTable_unmap_def find_pte_eq [OF ix] outcome simp del: table_at.simps)
    then show ?thesis
      using leaf_write_view [OF inv v ix q(1), of pte_empty] view by (simp add: Let_def)
  qed
  show "pt_view (pt, s) v \<noteq> None \<Longrightarrow> \<exists>s'. PageTable_unmap v (pt, s) = Inr (pt, s')"
    and "pt_view (pt, s) v = None \<Longrightarrow> \<exists>e. PageTable_unmap v (pt, s) = Inl e"
    by (cases ?t, auto simp: PageTable_unmap_def find_pte_eq [OF ix] view Let_def assertR_def
        simp del: table_at.simps split: if_splits)+
qed

section \<open>The interface of address spaces\<close>

text \<open>
  What a client of a page table may assume: mapping a free page adds exactly that
  page to the view and mapping a used one is refused; unmapping removes exactly one
  page; taking a frame for data changes no view.
\<close>

locale page_map =
  fixes map_page :: "'v \<Rightarrow> 'p \<Rightarrow> 'f \<Rightarrow> 's \<Rightarrow> 's res"
    and unmap_page :: "'v \<Rightarrow> 's \<Rightarrow> 's res"
    and view :: "'s \<Rightarrow> 'v \<Rightarrow> 'e option"
    and entry :: "'p \<Rightarrow> 'f \<Rightarrow> 'e"
    and legal :: "'v \<Rightarrow> bool"
    and inv :: "'s \<Rightarrow> bool"
  assumes map_page_ok: "\<lbrakk> inv s; legal v; map_page v p f s = Inr s' \<rbrakk> \<Longrightarrow>
        inv s' \<and> view s v = None \<and> view s' = (view s)(v \<mapsto> entry p f)"
    and unmap_page_ok: "\<lbrakk> inv s; legal v; unmap_page v s = Inr s' \<rbrakk> \<Longrightarrow>
        inv s' \<and> view s v \<noteq> None \<and> view s' = (view s)(v := None)"
    and unmap_page_total: "\<lbrakk> inv s; legal v; view s v \<noteq> None \<rbrakk> \<Longrightarrow> \<exists>s'. unmap_page v s = Inr s'"
begin

lemma unmap_list_view:
  assumes "inv s" "\<forall>v \<in> set vs. legal v" "foldR unmap_page vs s = Inr s'"
  shows "inv s' \<and> distinct vs \<and> (\<forall>v \<in> set vs. view s v \<noteq> None) \<and> view s' = view s |` (- set vs)"
  using assms
proof (induction vs arbitrary: s)
  case (Cons v vs)
  then obtain s1 where 1: "unmap_page v s = Inr s1" and 2: "foldR unmap_page vs s1 = Inr s'"
    by (auto simp: outcome)
  have u: "inv s1" "view s v \<noteq> None" "view s1 = (view s)(v := None)"
    using unmap_page_ok [OF Cons.prems(1) _ 1] Cons.prems(2) by auto
  have IH: "inv s'" "distinct vs" "\<forall>w \<in> set vs. view s1 w \<noteq> None" "view s' = view s1 |` (- set vs)"
    using Cons.IH [OF u(1) _ 2] Cons.prems(2) by auto
  have "view s' = view s |` (- set (v # vs))"
    using IH(4) u(3) by (auto simp: restrict_map_def fun_eq_iff)
  then show ?case
    using IH u(2,3) by (auto split: if_splits)
qed (auto simp: restrict_map_def)

lemma unmap_list_total:
  assumes "inv s" "\<forall>v \<in> set vs. legal v" "distinct vs" "\<forall>v \<in> set vs. view s v \<noteq> None"
  shows "\<exists>s'. foldR unmap_page vs s = Inr s'"
  using assms
proof (induction vs arbitrary: s)
  case (Cons v vs)
  then obtain s1 where 1: "unmap_page v s = Inr s1"
    using unmap_page_total [of s v] by auto
  have u: "inv s1" "view s1 = (view s)(v := None)"
    using unmap_page_ok [OF Cons.prems(1) _ 1] Cons.prems(2) by auto
  have "view s1 w \<noteq> None" if "w \<in> set vs" for w
    using that Cons.prems(3,4) u(2) by auto
  then have "\<exists>s'. foldR unmap_page vs s1 = Inr s'"
    using Cons.IH [OF u(1)] Cons.prems(2,3) by auto
  then show ?case by (simp add: 1)
qed simp

lemma map_unmap_view:
  assumes "inv s" "legal v" "map_page v p f s = Inr s1"
  shows "\<exists>s2. unmap_page v s1 = Inr s2 \<and> view s2 = view s \<and> inv s2"
proof -
  have m: "inv s1" "view s v = None" "view s1 = (view s)(v \<mapsto> entry p f)"
    using map_page_ok [OF assms] by auto
  then obtain s2 where 2: "unmap_page v s1 = Inr s2"
    using unmap_page_total [OF m(1) assms(2)] by auto
  have "(view s)(v := None) = view s" using m(2) by (simp add: fun_upd_idem_iff)
  then show ?thesis
    using 2 unmap_page_ok [OF m(1) assms(2) 2] m(3) by simp
qed

end

definition map_fresh ::
  "('s \<Rightarrow> ('p \<times> 's) res) \<Rightarrow> ('v \<Rightarrow> 'p \<Rightarrow> 'f \<Rightarrow> 's \<Rightarrow> 's res) \<Rightarrow> 'f \<Rightarrow> 'v \<Rightarrow>
     ('v \<times> 'p) list \<times> 's \<Rightarrow> (('v \<times> 'p) list \<times> 's) res" where
  "map_fresh take_frame map_page f v x = (case x of (ps, s) \<Rightarrow>
     bindR (take_frame s) (\<lambda>(p, s1).
       bindR (map_page v p f s1) (\<lambda>s2. Inr (ps @ [(v, p)], s2))))"

locale page_map_frames = page_map +
  fixes take_frame :: "'s \<Rightarrow> ('p \<times> 's) res"
    and used :: "'s \<Rightarrow> 'p set"
  assumes take_frame_ok: "\<lbrakk> inv s; take_frame s = Inr (p, s') \<rbrakk> \<Longrightarrow>
        inv s' \<and> view s' = view s \<and> p \<notin> used s \<and> insert p (used s) \<subseteq> used s'"
    and map_page_used: "\<lbrakk> inv s; legal v; map_page v p f s = Inr s' \<rbrakk> \<Longrightarrow> used s \<subseteq> used s'"
begin

lemma map_fresh_Inr:
  "map_fresh take_frame map_page f v (ps, s) = Inr y \<longleftrightarrow>
     (\<exists>p s1 s2. take_frame s = Inr (p, s1) \<and> map_page v p f s1 = Inr s2 \<and> y = (ps @ [(v, p)], s2))"
  by (auto simp: map_fresh_def outcome split: prod.splits)

lemma map_fresh_list:
  assumes "inv s" "\<forall>v \<in> set vs. legal v" "foldR (map_fresh take_frame map_page f) vs (ps, s) = Inr (ps', s')"
  shows "\<exists>qs. ps' = ps @ qs \<and> map fst qs = vs \<and> distinct vs \<and> distinct (map snd qs) \<and>
    inv s' \<and> (\<forall>v \<in> set vs. view s v = None) \<and> set (map snd qs) \<inter> used s = {} \<and>
    used s \<union> set (map snd qs) \<subseteq> used s' \<and>
    view s' = view s ++ map_of (map (\<lambda>(v, p). (v, entry p f)) qs)"
  using assms
proof (induction vs arbitrary: ps s)
  case (Cons v vs)
  then obtain p s1 s2 where 1: "take_frame s = Inr (p, s1)" and 2: "map_page v p f s1 = Inr s2"
    and 3: "foldR (map_fresh take_frame map_page f) vs (ps @ [(v, p)], s2) = Inr (ps', s')"
    by (auto simp: bindR_eq_Inr map_fresh_Inr)
  have lv: "legal v" using Cons.prems(2) by simp
  have t: "inv s1" "view s1 = view s" "p \<notin> used s" "insert p (used s) \<subseteq> used s1"
    using take_frame_ok [OF Cons.prems(1) 1] by auto
  have m: "inv s2" "view s1 v = None" "view s2 = (view s1)(v \<mapsto> entry p f)" "used s1 \<subseteq> used s2"
    using map_page_ok [OF t(1) lv 2] map_page_used [OF t(1) lv 2] by auto
  obtain qs where qs: "ps' = (ps @ [(v, p)]) @ qs" "map fst qs = vs" "distinct vs"
    "distinct (map snd qs)" "inv s'" "\<forall>w \<in> set vs. view s2 w = None"
    "set (map snd qs) \<inter> used s2 = {}" "used s2 \<union> set (map snd qs) \<subseteq> used s'"
    "view s' = view s2 ++ map_of (map (\<lambda>(v, p). (v, entry p f)) qs)"
    using Cons.IH [OF m(1) _ 3] Cons.prems(2) by auto
  have v: "v \<notin> set vs" using qs(6) m(3) by auto
  have "map_of (map (\<lambda>(v, p). (v, entry p f)) qs) v = None"
    using v qs(2) by (force simp: map_of_eq_None_iff)
  then have "view s' = view s ++ map_of (map (\<lambda>(v, p). (v, entry p f)) ((v, p) # qs))"
    using qs(9) m(3) t(2) by (auto simp: fun_eq_iff map_add_def split: option.splits)
  moreover have u2: "p \<in> used s2" "used s \<subseteq> used s2" using t(4) m(4) by auto
  then have "p \<notin> set (map snd qs)" "set (map snd qs) \<inter> used s = {}" using qs(7) by auto
  then have "set (map snd ((v, p) # qs)) \<inter> used s = {}" "distinct (map snd ((v, p) # qs))"
    using t(3) qs(4) by auto
  moreover have "used s \<union> set (map snd ((v, p) # qs)) \<subseteq> used s'" using qs(8) u2 by auto
  moreover have "\<forall>w \<in> set (v # vs). view s w = None"
  proof
    fix w assume "w \<in> set (v # vs)"
    then show "view s w = None"
      using qs(6) m(2,3) t(2) by (cases "w = v") auto
  qed
  moreover have "ps' = ps @ (v, p) # qs" "map fst ((v, p) # qs) = v # vs" "distinct (v # vs)"
    using qs(1,2,3) v by simp_all
  ultimately show ?case
    using qs(5) by (intro exI [of _ "(v, p) # qs"] conjI)
qed auto

end

definition pt_take_frame :: "PageTable \<times> MM \<Rightarrow> (PhysPageNum \<times> (PageTable \<times> MM)) res" where
  "pt_take_frame x = (case x of (pt, s) \<Rightarrow>
     bindR (frame_alloc s) (\<lambda>(f, s'). bindR (unwrapR f) (\<lambda>frame. Inr (ft_ppn frame, (pt, s')))))"

definition mm_used :: "PageTable \<times> MM \<Rightarrow> PhysPageNum set" where
  "mm_used x = {p. unat (ppn_raw p) < mm_current (snd x)}"

lemma pt_view_frame_alloc:
  assumes "pt_inv l pt s" "frame_alloc s = Inr (Some f, s')"
  shows "pt_view (pt, s') = pt_view (pt, s)"
proof
  fix u
  obtain R x where "indexes u = R @ [x]" "table_path R" "length R = 2" by (rule indexes_snoc)
  then show "pt_view (pt, s') u = pt_view (pt, s) u"
    using frame_alloc_pt(4) [OF assms] by (simp add: pt_view_def)
qed

interpretation pt: page_map PageTable_map PageTable_unmap pt_view map_entry legal_vpn "pt_inv2 l" for l
proof (unfold_locales, goal_cases)
  case (1 s v p f s')
  then show ?case
    using PageTable_map_spec [of l "fst s" "snd s" v p f "fst s'" "snd s'"]
    by (cases s; cases s') (simp add: pt_inv2_def)
next
  case (2 s v s')
  then show ?case
    using PageTable_unmap_spec(1) [of l "fst s" "snd s" v "fst s'" "snd s'"]
    by (cases s; cases s') (auto simp: pt_inv2_def)
next
  case (3 s v)
  then show ?case
    using PageTable_unmap_spec(2) [of l "fst s" "snd s" v] by (cases s) (auto simp: pt_inv2_def)
qed

interpretation ptf: page_map_frames PageTable_map PageTable_unmap pt_view map_entry legal_vpn "pt_inv2 l"
  pt_take_frame mm_used for l
proof (unfold_locales, goal_cases)
  case (1 s p s')
  then obtain pt m f m' where s: "s = (pt, m)" "s' = (pt, m')" "p = ft_ppn f"
    and al: "frame_alloc m = Inr (Some f, m')" and inv: "pt_inv l pt m"
    by (auto simp: pt_take_frame_def pt_inv2_def outcome split: prod.splits)
  have mi: "mm_inv l m" using inv by (simp add: pt_inv_def)
  show ?case
    using frame_alloc_Inr(1,2) [OF mi al] frame_alloc_pt(1) [OF inv al] pt_view_frame_alloc [OF inv al]
    by (auto simp: s pt_inv2_def mm_used_def)
next
  case (2 s v p f s')
  then show ?case
    using PageTable_map_spec(2) [of l "fst s" "snd s" v p f "fst s'" "snd s'"]
    by (cases s; cases s') (auto simp: pt_inv2_def pt_frame_def mm_used_def)
qed

section \<open>New tables\<close>

lemma table_at_zero_root:
  assumes "\<And>i. \<not> pte_is_valid (pte_read m (r, i))"
  shows "table_at m r Q = (if Q = [] then Some r else None)"
  using assms by (cases Q) (simp_all add: table_step_def)

lemma PageTable_new_spec:
  assumes inv: "mm_inv l s" and left: "0 < mm_left s"
  shows "\<exists>pt s'. PageTable_new s = Inr (pt, s') \<and> pt_inv l pt s' \<and> pt_view (pt, s') = Map.empty \<and>
    unat (ppn_raw (pt_root_ppn pt)) = mm_current s \<and> mm_left s = Suc (mm_left s')"
proof -
  obtain f s' where al: "frame_alloc s = Inr (Some f, s')" using frame_alloc_left [OF inv left] by blast
  note fa = frame_alloc_Inr [OF inv al]
  define pt where "pt = \<lparr> pt_root_ppn = ft_ppn f, pt_frames = [f] \<rparr>"
  have new: "PageTable_new s = Inr (pt, s')" by (simp add: PageTable_new_def al pt_def)
  have z: "\<not> pte_is_valid (pte_read (mm_mem s') (ft_ppn f, i))" for i
    by (simp add: fa(3) pte_read_def pte_array_def)
  have "pt_wf (mm_current s') (mm_mem s') (ft_ppn f)"
    using fa(1,2,8) by (auto simp: pt_wf_def table_at_zero_root [OF z] split: if_splits)
  then have "pt_inv l pt s'" using fa(6) by (simp add: pt_inv_def pt_def)
  moreover have "pt_view (pt, s') = Map.empty"
  proof
    fix v
    obtain R x where "indexes v = R @ [x]" "length R = 2" by (rule indexes_snoc)
    then show "pt_view (pt, s') v = None"
      by (auto simp: pt_view_def leaf_view_def pt_def table_at_zero_root [OF z])
  qed
  ultimately show ?thesis using new fa(1,7) by (simp add: pt_def)
qed

lemma kernel_root_index: "VirtPageNum_from_usize KERNEL_SPACE_OFFSET = Inr (VirtPageNum KERNEL_SPACE_OFFSET)"
  "indexes (VirtPageNum KERNEL_SPACE_OFFSET) ! 0 = 256"
  by (simp_all add: VirtPageNum_from_usize_Inr KERNEL_SPACE_OFFSET_def indexes_eq)

lemma new_process_mem:
  assumes inv: "pt_inv l kpt s" and al: "frame_alloc s = Inr (Some f, s1)"
    and m': "m' = copy_entries_from 256 (ft_ppn f) (pt_root_ppn kpt) (mm_mem s1)"
  shows "\<exists>g. m' = (mm_mem s)(ppn_kernel_addr (ft_ppn f) := g)"
    and "pte_read m' (ft_ppn f, i) =
      (if 256 \<le> i \<and> i < 512 then pte_read (mm_mem s) (pt_root_ppn kpt, i) else PageTableEntry 0)"
    and "ppn_kernel_addr (pt_root_ppn kpt) \<noteq> ppn_kernel_addr (ft_ppn f)"
proof -
  have mi: "mm_inv l s" and wf: "pt_wf (mm_current s) (mm_mem s) (pt_root_ppn kpt)"
    using inv by (simp_all add: pt_inv_def)
  note fa = frame_alloc_Inr [OF mi al]
  have "table_path []" by (simp add: table_path_def)
  then have "pt_root_ppn kpt \<noteq> ft_ppn f"
    using pt_wf_bound [OF wf, of "[]"] fa(1) by auto
  then show ne: "ppn_kernel_addr (pt_root_ppn kpt) \<noteq> ppn_kernel_addr (ft_ppn f)"
    using pt_wf_separate [OF wf \<open>table_path []\<close>] fa(1,8) by simp
  show "\<exists>g. m' = (mm_mem s)(ppn_kernel_addr (ft_ppn f) := g)"
    by (simp add: m' copy_entries_from_def fa(3)) blast
  show "pte_read m' (ft_ppn f, i) =
      (if 256 \<le> i \<and> i < 512 then pte_read (mm_mem s) (pt_root_ppn kpt, i) else PageTableEntry 0)"
    using ne by (simp add: m' copy_entries_from_def fa(3) pte_read_def pte_array_def)
qed

lemma new_process_table_at:
  assumes inv: "pt_inv l kpt s" and al: "frame_alloc s = Inr (Some f, s1)"
    and m': "m' = copy_entries_from 256 (ft_ppn f) (pt_root_ppn kpt) (mm_mem s1)"
    and Q: "table_path Q"
  shows "table_at m' (pt_root_ppn kpt) Q = table_at (mm_mem s) (pt_root_ppn kpt) Q"
    and "table_at m' (ft_ppn f) Q =
      (case Q of [] \<Rightarrow> Some (ft_ppn f)
       | i # _ \<Rightarrow> if 256 \<le> i then table_at (mm_mem s) (pt_root_ppn kpt) Q else None)"
proof -
  have mi: "mm_inv l s" and wf: "pt_wf (mm_current s) (mm_mem s) (pt_root_ppn kpt)"
    using inv by (simp_all add: pt_inv_def)
  note fa = frame_alloc_Inr [OF mi al] and nm = new_process_mem [OF inv al m']
  have f: "mm_current s \<le> unat (ppn_raw (ft_ppn f))" "unat (ppn_raw (ft_ppn f)) < 2 ^ 44"
    using fa(1,8) by simp_all
  obtain g where g: "m' = (mm_mem s)(ppn_kernel_addr (ft_ppn f) := g)" using nm(1) by blast
  show k: "table_at m' (pt_root_ppn kpt) Q = table_at (mm_mem s) (pt_root_ppn kpt) Q"
    unfolding g by (rule table_at_page_write [OF wf f Q])
  show "table_at m' (ft_ppn f) Q =
      (case Q of [] \<Rightarrow> Some (ft_ppn f)
       | i # _ \<Rightarrow> if 256 \<le> i then table_at (mm_mem s) (pt_root_ppn kpt) Q else None)"
  proof (cases Q)
    case (Cons i js)
    have "i < 512" using Q Cons by (simp add: table_path_def)
    have "table_step m' (pt_root_ppn kpt) i = table_step (mm_mem s) (pt_root_ppn kpt) i"
      using nm(3) by (simp add: g table_step_def pte_read_def pte_array_def)
    moreover have "table_step m' (ft_ppn f) i =
        (if 256 \<le> i then table_step (mm_mem s) (pt_root_ppn kpt) i else None)"
      using \<open>i < 512\<close> by (simp add: table_step_def nm(2))
    ultimately show ?thesis
      using k by (simp add: Cons)
  qed simp
qed

lemma PageTable_new_process_spec:
  assumes inv: "pt_inv l kpt s" and left: "0 < mm_left s"
  shows "\<exists>pt s'. PageTable_new_process kpt s = Inr (pt, s') \<and> pt_inv l pt s' \<and> pt_inv l kpt s' \<and>
    pt_view (kpt, s') = pt_view (kpt, s) \<and>
    pt_view (pt, s') = (\<lambda>v. if 256 \<le> indexes v ! 0 then pt_view (kpt, s) v else None)"
proof -
  have mi: "mm_inv l s" and wf: "pt_wf (mm_current s) (mm_mem s) (pt_root_ppn kpt)"
    using inv by (simp_all add: pt_inv_def)
  obtain f s1 where al: "frame_alloc s = Inr (Some f, s1)" using frame_alloc_left [OF mi left] by blast
  note fa = frame_alloc_Inr [OF mi al]
  define m' where m': "m' = copy_entries_from 256 (ft_ppn f) (pt_root_ppn kpt) (mm_mem s1)"
  define pt s' where pt: "pt = \<lparr> pt_root_ppn = ft_ppn f, pt_frames = [f] \<rparr>" and s': "s' = s1\<lparr> mm_mem := m' \<rparr>"
  note at = new_process_table_at [OF inv al m'] and nm = new_process_mem [OF inv al m']
  have new: "PageTable_new_process kpt s = Inr (pt, s')"
    by (simp add: PageTable_new_process_def al kernel_root_index Let_def pt s' m')
  have f: "mm_current s \<le> unat (ppn_raw (ft_ppn f))" "unat (ppn_raw (ft_ppn f)) < 2 ^ 44"
    using fa(1,8) by simp_all
  obtain g where g: "m' = (mm_mem s)(ppn_kernel_addr (ft_ppn f) := g)" using nm(1) by blast
  have old: "p \<noteq> ft_ppn f" if "table_path Q" "table_at (mm_mem s) (pt_root_ppn kpt) Q = Some p" for Q p
    using pt_wf_bound [OF wf that] f(1) by auto
  have "pt_wf (Suc (mm_current s)) m' (ft_ppn f)"
    unfolding pt_wf_def
  proof (intro conjI allI impI)
    show "Suc (mm_current s) < 2 ^ 44" by (rule fa(8))
    show "unat (ppn_raw p) < Suc (mm_current s)" if "table_path Q" "table_at m' (ft_ppn f) Q = Some p" for Q p
      using that at(2) [OF that(1)] fa(1) pt_wf_bound [OF wf that(1), of p]
      by (auto split: list.splits if_splits)
    show "Q = R" if "table_path Q" "table_path R" "table_at m' (ft_ppn f) Q = Some p"
      "table_at m' (ft_ppn f) R = Some p" for Q R p
      using that at(2) [OF that(1)] at(2) [OF that(2)] old [OF that(1)] old [OF that(2)]
        pt_wf_inj [OF wf that(1,2)]
      by (auto split: list.splits if_splits)
  qed
  then have i1: "pt_inv l pt s'" using fa(2,6) by (simp add: pt_inv_def pt s' mm_current_def mm_inv_def)
  have "pt_wf (mm_current s) m' (pt_root_ppn kpt)" unfolding g by (rule pt_wf_page_write [OF wf f])
  then have i2: "pt_inv l kpt s'"
    using fa(2,6,8) pt_wf_mono [of "mm_current s" m' "pt_root_ppn kpt" "Suc (mm_current s)"]
    by (simp add: pt_inv_def s' mm_current_def mm_inv_def)
  have kv: "leaf_view m' (pt_root_ppn kpt) (R @ [x]) = leaf_view (mm_mem s) (pt_root_ppn kpt) (R @ [x])"
    if "table_path R" for R x
    unfolding g using leaf_view_page_write [OF wf f] that by simp
  have pv: "leaf_view m' (ft_ppn f) [i, j, x] =
      (if 256 \<le> i then leaf_view m' (pt_root_ppn kpt) [i, j, x] else None)" if "table_path [i, j]" for i j x
    using at [OF that] by (simp add: leaf_view_def del: table_at.simps)
  have "pt_view (kpt, s') u = pt_view (kpt, s) u \<and>
      pt_view (pt, s') u = (if 256 \<le> indexes u ! 0 then pt_view (kpt, s) u else None)" for u
  proof -
    obtain i j k where "indexes u = [i, j, k]" "table_path [i, j]" by (rule indexes_cases)
    then show ?thesis
      using kv [of "[i, j]" k] pv by (simp add: pt_view_def pt s')
  qed
  then show ?thesis using new i1 i2 by blast
qed

section \<open>Translation of addresses\<close>

lemma translate_va_view:
  assumes "legal_vpn (VirtAddr_floor va)" "pt_view (pt, s) (VirtAddr_floor va) = Some e"
  shows "\<exists>pa. PageTable_translate_va va pt (mm_mem s) = Inr (Some pa) \<and>
    PhysAddr_floor pa = pte_target e \<and> PhysAddr_page_offset pa = VirtAddr_page_offset va"
proof -
  obtain i j k where ix: "indexes (VirtAddr_floor va) = [i, j, k]" by (rule indexes_cases)
  obtain q where q: "table_at (mm_mem s) (pt_root_ppn pt) [i, j] = Some q"
    and e: "e = pte_read (mm_mem s) (q, k)"
    using assms by (auto simp: pt_view_def leaf_view_def ix Let_def bind_eq_Some_conv
        simp del: table_at.simps split: if_splits)
  define o' where "o' = VirtAddr_page_offset va"
  define n where "n = ppn_raw (pte_target e)"
  have n: "unat n < 2 ^ 44" unfolding n_def by (rule pte_target_small)
  have o: "unat o' < 4096" unfolding o'_def by (rule VirtAddr_page_offset_less)
  have pn: "unat (push_bit 12 n) = unat n * 4096" using n by (intro unat_push_12) simp
  have sum: "unat (push_bit 12 n + o') = unat n * 4096 + unat o'"
    using n o by (subst unat_add_small) (simp_all only: pn, simp)
  then have "unat (push_bit 12 n + o') < 2 ^ 56" using n o by simp
  then have "uint (push_bit 12 n + o') < 2 ^ 56"
    by (simp only: uint_nat of_nat_less_numeral_power_cancel_iff)
  moreover have "- (2 ^ 56) \<le> uint (push_bit 12 n + o')"
    by (rule order_trans [OF _ uint_nonnegative]) simp
  ultimately have "PhysAddr_from_usize (push_bit 12 n + o') = Inr (PhysAddr (push_bit 12 n + o'))"
    by (simp only: PhysAddr_from_usize_Inr sint_usize) simp
  then have "PageTable_translate_va va pt (mm_mem s) = Inr (Some (PhysAddr (push_bit 12 n + o')))"
    by (simp add: PageTable_translate_va_def find_pte_eq [OF ix] q e [symmetric] o'_def n_def
        PhysAddr_from_PhysPageNum_def PAGE_SIZE_BITS_def del: table_at.simps)
  moreover have "(push_bit 12 n + o') div 4096 = n"
    using o by (simp only: word_unat_eq_iff unat_div sum) simp
  moreover have "(push_bit 12 n + o') AND 4095 = o'"
    using o by (simp only: and_low_mask word_unat_eq_iff unat_take_bit sum) simp
  ultimately show ?thesis
    by (auto simp: PhysAddr_floor_def PhysAddr_page_offset_def PAGE_SIZE_def n_def o'_def)
qed

lemma token_root:
  assumes "unat (ppn_raw (pt_root_ppn pt)) < 2 ^ 44"
  shows "PageTable_from_token (PageTable_token pt) = Inr \<lparr> pt_root_ppn = pt_root_ppn pt, pt_frames = [] \<rparr>"
proof -
  have "take_bit 44 (push_bit 60 8 OR ppn_raw (pt_root_ppn pt)) = take_bit 44 (ppn_raw (pt_root_ppn pt))"
    by (rule bit_eqI) (auto simp: bit_simps)
  also have "\<dots> = ppn_raw (pt_root_ppn pt)" using assms by (simp add: take_bit_word_self_iff)
  finally show ?thesis
    unfolding PageTable_from_token_def PageTable_token_def mask_44 take_bit_eq_mask [symmetric]
    using assms by (simp add: PhysPageNum_from_usize_small)
qed

section \<open>Properties\<close>

definition example_mm :: MM where
  "example_mm = \<lparr> mm_falloc = \<lparr> fa_current = 1, fa_end = 100, fa_recycled = [] \<rparr>, mm_mem = (\<lambda>_ _. 0) \<rparr>"

lemma example_mm_inv: "mm_inv 1 example_mm" "mm_left example_mm = 99" "mm_current example_mm = 1"
  by (simp_all add: example_mm_def mm_inv_def fa_inv_def mm_left_def mm_current_def)

lemma example_table:
  obtains pt s where "PageTable_new example_mm = Inr (pt, s)" "pt_inv 1 pt s" "mm_left s = 98"
    "pt_view (pt, s) = Map.empty"
  using PageTable_new_spec [OF example_mm_inv(1)] example_mm_inv(2) by auto

lemma legal_vpn_small: "unat (vpn_raw v) < 2 ^ 26 \<Longrightarrow> legal_vpn v"
  by (simp add: legal_vpn_def VirtPageNum_from_usize_Inr)

lemma example_mapped:
  obtains pt s pt' s' where "PageTable_new example_mm = Inr (pt, s)" "pt_inv 1 pt s"
    "pt_view (pt, s) = Map.empty" "legal_vpn (VirtPageNum 5)"
    "PageTable_map (VirtPageNum 5) (PhysPageNum 50) PTE_R (pt, s) = Inr (pt', s')"
    "pt_inv 1 pt' s'" "pt_view (pt', s') = [VirtPageNum 5 \<mapsto> map_entry (PhysPageNum 50) PTE_R]"
proof -
  obtain pt s where e: "PageTable_new example_mm = Inr (pt, s)" "pt_inv 1 pt s" "mm_left s = 98"
    "pt_view (pt, s) = Map.empty" by (rule example_table)
  have v: "legal_vpn (VirtPageNum 5)" by (simp add: legal_vpn_small)
  have left: "2 \<le> mm_left s" using e(3) by simp
  obtain y where "PageTable_map (VirtPageNum 5) (PhysPageNum 50) PTE_R (pt, s) = Inr y"
    using PageTable_map_total(1) [OF e(2) v left, of "PhysPageNum 50" PTE_R] e(4) by auto
  then have y: "PageTable_map (VirtPageNum 5) (PhysPageNum 50) PTE_R (pt, s) = Inr (fst y, snd y)" by simp
  show ?thesis
    using that [OF e(1,2,4) v y] PageTable_map_spec [OF e(2) v y] e(4) by simp
qed

text \<open>
  C3.  Mapping refines the update of a partial map.  On a well-formed page table with
  two frames left, \<^verbatim>\<open>map\<close> of a legal page panics on the assertion exactly when the
  page is mapped already.  Otherwise it returns a well-formed page table whose view is
  the old view with that one page added, pointing to the given frame with the given
  flags and V, D and A; it changes no allocated page other than its own tables.
\<close>
theorem PageTable_map_refines:
  assumes "pt_inv l pt s" "legal_vpn v" "2 \<le> mm_left s"
  shows "if pt_view (pt, s) v = None
    then \<exists>pt' s'. PageTable_map v ppn flags (pt, s) = Inr (pt', s') \<and> pt_inv l pt' s' \<and>
      pt_frame (pt, s) (pt', s') \<and>
      pt_view (pt', s') = (pt_view (pt, s))(v \<mapsto> pte_new ppn (flags OR PTE_V OR PTE_D OR PTE_A))
    else PageTable_map v ppn flags (pt, s) = Inl Assert_failed"
proof (cases "pt_view (pt, s) v = None")
  case True
  then obtain pt' s' where ok: "PageTable_map v ppn flags (pt, s) = Inr (pt', s')"
    using PageTable_map_total(1) [OF assms] by force
  then show ?thesis
    using True PageTable_map_spec [OF assms(1,2) ok] by (simp add: map_entry_def)
qed (use PageTable_map_total(2) [OF assms] in simp)

theorem PageTable_map_refines_witness:
  "\<exists>pt s pt' s'. PageTable_new example_mm = Inr (pt, s) \<and>
     PageTable_map (VirtPageNum 5) (PhysPageNum 50) PTE_R (pt, s) = Inr (pt', s') \<and>
     pt_view (pt', s') (VirtPageNum 6) = None \<and>
     pt_view (pt', s') (VirtPageNum 5) = Some (pte_new (PhysPageNum 50) (PTE_R OR PTE_V OR PTE_D OR PTE_A))"
proof -
  obtain pt s where e: "PageTable_new example_mm = Inr (pt, s)" "pt_inv 1 pt s" "mm_left s = 98"
    "pt_view (pt, s) = Map.empty" by (rule example_table)
  then show ?thesis
    using PageTable_map_refines [OF e(2) legal_vpn_small, of "VirtPageNum 5" "PhysPageNum 50" PTE_R]
    by auto
qed

text \<open>
  C19.  Unmapping refines the removal from a partial map: of a mapped page it returns
  the page table whose view lacks exactly that page and keeps the page table well
  formed, without touching any allocated page but its own tables; of a page that is
  not mapped it panics.  Unmapping what was just mapped restores the view.
\<close>
theorem PageTable_unmap_refines:
  assumes "pt_inv l pt s" "legal_vpn v"
  shows "(if pt_view (pt, s) v = None then \<exists>e. PageTable_unmap v (pt, s) = Inl e
      else \<exists>s'. PageTable_unmap v (pt, s) = Inr (pt, s') \<and> pt_inv l pt s' \<and>
        pt_frame (pt, s) (pt, s') \<and> pt_view (pt, s') = (pt_view (pt, s))(v := None)) \<and>
    (\<forall>y. PageTable_map v ppn flags (pt, s) = Inr y \<longrightarrow>
      (\<exists>z. PageTable_unmap v y = Inr z \<and> pt_view z = pt_view (pt, s)))"
proof -
  have "pt_inv2 l (pt, s)" using assms(1) by (simp add: pt_inv2_def)
  then have "\<exists>z. PageTable_unmap v y = Inr z \<and> pt_view z = pt_view (pt, s)"
    if "PageTable_map v ppn flags (pt, s) = Inr y" for y
    using pt.map_unmap_view [OF _ assms(2) that] by blast
  then show ?thesis
    using PageTable_unmap_spec [OF assms] by auto
qed

theorem PageTable_unmap_refines_witness:
  "\<exists>pt s y z. PageTable_new example_mm = Inr (pt, s) \<and>
     PageTable_map (VirtPageNum 5) (PhysPageNum 50) PTE_R (pt, s) = Inr y \<and>
     PageTable_unmap (VirtPageNum 5) y = Inr z \<and> pt_view z = Map.empty"
proof -
  obtain pt s pt' s' where e: "PageTable_new example_mm = Inr (pt, s)" "pt_inv 1 pt s"
    "pt_view (pt, s) = Map.empty" "legal_vpn (VirtPageNum 5)"
    "PageTable_map (VirtPageNum 5) (PhysPageNum 50) PTE_R (pt, s) = Inr (pt', s')"
    by (rule example_mapped)
  show ?thesis
    using PageTable_unmap_refines [OF e(2,4), of "PhysPageNum 50" PTE_R] e by auto
qed

text \<open>
  C20.  The page table of a new process shares the kernel half of the kernel's page
  table and maps nothing in the user half: its view agrees with the kernel's on pages
  whose top-level index is 256 or more and is empty below.  Creating it leaves the
  kernel's page table well formed and its view unchanged.
\<close>
theorem PageTable_new_process_shares_kernel:
  assumes "pt_inv l kpt s" "0 < mm_left s"
  shows "\<exists>pt s'. PageTable_new_process kpt s = Inr (pt, s') \<and> pt_inv l pt s' \<and> pt_inv l kpt s' \<and>
    pt_view (kpt, s') = pt_view (kpt, s) \<and>
    pt_view (pt, s') = (\<lambda>v. if 256 \<le> indexes v ! 0 then pt_view (kpt, s) v else None)"
  by (rule PageTable_new_process_spec [OF assms])

theorem PageTable_new_process_shares_kernel_witness:
  "\<exists>kpt s pt s'. PageTable_new example_mm = Inr (kpt, s) \<and> PageTable_new_process kpt s = Inr (pt, s') \<and>
     pt_view (pt, s') = Map.empty"
proof -
  obtain pt s where e: "PageTable_new example_mm = Inr (pt, s)" "pt_inv 1 pt s" "mm_left s = 98"
    "pt_view (pt, s) = Map.empty" by (rule example_table)
  obtain pt' s' where "PageTable_new_process pt s = Inr (pt', s')"
    "pt_view (pt', s') = (\<lambda>v. if 256 \<le> indexes v ! 0 then pt_view (pt, s) v else None)"
    using PageTable_new_process_shares_kernel [OF e(2)] e(3) by auto
  then show ?thesis
    using e(1,4) by (auto simp: fun_eq_iff)
qed

text \<open>
  C21.  A virtual address in a mapped page translates to the physical address with the
  same offset in the frame of the page's entry, and the token of a page table gives
  back a page table with the same root, which translates alike.
\<close>
theorem translate_va_correct:
  assumes "pt_inv l pt s" "legal_vpn (VirtAddr_floor va)" "pt_view (pt, s) (VirtAddr_floor va) = Some e"
  shows "\<exists>pa tpt. PageTable_translate_va va pt (mm_mem s) = Inr (Some pa) \<and>
    PhysAddr_floor pa = pte_target e \<and> PhysAddr_page_offset pa = VirtAddr_page_offset va \<and>
    PageTable_from_token (PageTable_token pt) = Inr tpt \<and>
    PageTable_translate_va va tpt (mm_mem s) = Inr (Some pa)"
proof -
  have "table_path []" by (simp add: table_path_def)
  then have "unat (ppn_raw (pt_root_ppn pt)) < 2 ^ 44"
    using pt_tables_bound [OF assms(1), of "pt_root_ppn pt"] pt_inv_small [OF assms(1)]
      pt_tables_I [of "[]" s pt] by auto
  note tok = token_root [OF this]
  have "PageTable_translate_va va \<lparr> pt_root_ppn = pt_root_ppn pt, pt_frames = [] \<rparr> (mm_mem s) =
      PageTable_translate_va va pt (mm_mem s)"
    by (simp add: PageTable_translate_va_def find_pte_def)
  then show ?thesis
    using translate_va_view [OF assms(2,3)] tok by auto
qed

theorem translate_va_correct_witness:
  "\<exists>pt s y pa. PageTable_new example_mm = Inr (pt, s) \<and>
     PageTable_map (VirtPageNum 5) (PhysPageNum 50) PTE_R (pt, s) = Inr y \<and>
     PageTable_translate_va (VirtAddr 0x5123) (fst y) (mm_mem (snd y)) = Inr (Some pa) \<and>
     PhysAddr_floor pa = PhysPageNum 50 \<and> PhysAddr_page_offset pa = 0x123"
proof -
  obtain pt s pt' s' where e: "PageTable_new example_mm = Inr (pt, s)"
    "legal_vpn (VirtPageNum 5)" "PageTable_map (VirtPageNum 5) (PhysPageNum 50) PTE_R (pt, s) = Inr (pt', s')"
    "pt_inv 1 pt' s'" "pt_view (pt', s') = [VirtPageNum 5 \<mapsto> map_entry (PhysPageNum 50) PTE_R]"
    by (rule example_mapped)
  have fl: "VirtAddr_floor (VirtAddr 0x5123) = VirtPageNum 5" "VirtAddr_page_offset (VirtAddr 0x5123) = 0x123"
    by (simp_all add: VirtAddr_floor_def VirtAddr_page_offset_def PAGE_SIZE_def)
  have t: "pte_target (map_entry (PhysPageNum 50) PTE_R) = PhysPageNum 50"
    unfolding map_entry_def by (rule pte_target_new) simp
  show ?thesis
    using translate_va_correct [OF e(4), of "VirtAddr 0x5123" "map_entry (PhysPageNum 50) PTE_R"] e t
    by (auto simp: fl)
qed

text \<open>
  \<^verbatim>\<open>translate_va\<close> does not look at the valid bit of the leaf: right after a page is
  unmapped, an address in it still translates, to the offset in physical page 0.
\<close>
theorem translate_va_after_unmap:
  assumes "pt_inv l pt s" "legal_vpn (VirtAddr_floor va)"
    and "PageTable_unmap (VirtAddr_floor va) (pt, s) = Inr (pt', s')"
  shows "PageTable_translate_va va pt' (mm_mem s') = Inr (Some (PhysAddr (VirtAddr_page_offset va)))"
proof -
  obtain i j k where ix: "indexes (VirtAddr_floor va) = [i, j, k]" and p: "table_path [i, j]" by (rule indexes_cases)
  obtain q where q: "table_at (mm_mem s) (pt_root_ppn pt) [i, j] = Some q"
    "pt' = pt" "s' = pte_write (q, k) pte_empty s"
    using assms(3) by (auto simp: PageTable_unmap_def find_pte_eq [OF ix] outcome simp del: table_at.simps)
  have wf: "pt_wf (mm_current s) (mm_mem s) (pt_root_ppn pt)" using assms(1) by (simp add: pt_inv_def)
  have "table_at (mm_mem s') (pt_root_ppn pt) [i, j] = Some q"
    using leaf_write(2) [OF wf p _ q(1) p] q by (simp add: pte_write_def del: table_at.simps)
  moreover have "pte_read (mm_mem s') (q, k) = PageTableEntry 0"
    by (simp add: q pte_write_def pte_read_def pte_empty_def)
  moreover have "PhysAddr_from_usize (VirtAddr_page_offset va) = Inr (PhysAddr (VirtAddr_page_offset va))"
  proof -
    have "uint (VirtAddr_page_offset va) < 2 ^ 12"
      using VirtAddr_page_offset_less [of va] by (simp only: uint_nat of_nat_less_numeral_power_cancel_iff) simp
    moreover have "- (2 ^ 56) \<le> uint (VirtAddr_page_offset va)"
      by (rule order_trans [OF _ uint_nonnegative]) simp
    ultimately show ?thesis
      by (simp only: PhysAddr_from_usize_Inr sint_usize) simp
  qed
  ultimately show ?thesis
    by (simp add: PageTable_translate_va_def find_pte_eq [OF ix] q(2) pte_target_def
        PhysAddr_from_PhysPageNum_def del: table_at.simps)
qed

theorem translate_va_after_unmap_witness:
  "\<exists>pt s y z. PageTable_new example_mm = Inr (pt, s) \<and>
     PageTable_map (VirtPageNum 5) (PhysPageNum 50) PTE_R (pt, s) = Inr y \<and>
     PageTable_unmap (VirtPageNum 5) y = Inr z \<and>
     PageTable_translate_va (VirtAddr 0x5123) (fst z) (mm_mem (snd z)) = Inr (Some (PhysAddr 0x123))"
proof -
  obtain pt s pt' s' where e: "PageTable_new example_mm = Inr (pt, s)"
    "legal_vpn (VirtPageNum 5)" "PageTable_map (VirtPageNum 5) (PhysPageNum 50) PTE_R (pt, s) = Inr (pt', s')"
    "pt_inv 1 pt' s'" "pt_view (pt', s') = [VirtPageNum 5 \<mapsto> map_entry (PhysPageNum 50) PTE_R]"
    by (rule example_mapped)
  obtain z where z: "PageTable_unmap (VirtPageNum 5) (pt', s') = Inr (pt', z)"
    using PageTable_unmap_spec(2) [OF e(4,2)] e(5) by auto
  have fl: "VirtAddr_floor (VirtAddr 0x5123) = VirtPageNum 5" "VirtAddr_page_offset (VirtAddr 0x5123) = 0x123"
    by (simp_all add: VirtAddr_floor_def VirtAddr_page_offset_def PAGE_SIZE_def)
  show ?thesis
    using translate_va_after_unmap [OF e(4), of "VirtAddr 0x5123" pt' z] e z by (auto simp: fl)
qed

end
