(* ===== verification/User_Buffer.thy ===== *)
theory User_Buffer
  imports Page_Table
begin

text \<open>
  Access to user memory: the second half of \<^verbatim>\<open>os/src/mm/page_table.rs\<close>
  (\<^verbatim>\<open>translated_byte_buffer\<close>, \<^verbatim>\<open>translated_str\<close>, \<^verbatim>\<open>UserBuffer\<close> and its iterator) and
  \<^verbatim>\<open>os/src/utils/string.rs\<close>.  A mutable slice into a page is the page and the bounds
  of the slice; a pointer to a byte is the page and an offset.  Loads through the
  running address space are a parameter of the functions that make them.
\<close>

section \<open>Slices of user memory\<close>

datatype byte_slice = ByteSlice (bs_page: PhysPageNum) (bs_lo: nat) (bs_hi: nat)

type_synonym byte_ref = "PhysPageNum \<times> nat"

definition slice_len :: "byte_slice \<Rightarrow> nat" where
  "slice_len b = bs_hi b - bs_lo b"

definition slice_refs :: "byte_slice \<Rightarrow> byte_ref list" where
  "slice_refs b = map (\<lambda>o'. (bs_page b, o')) [bs_lo b..<bs_hi b]"

definition page_slice :: "PhysPageNum \<Rightarrow> usize \<Rightarrow> usize option \<Rightarrow> byte_slice res" where
  "page_slice ppn lo hi =
     (let h = (case hi of None \<Rightarrow> 4096 | Some x \<Rightarrow> unat x) in
      if unat lo \<le> h \<and> h \<le> 4096 then Inr (ByteSlice ppn (unat lo) h) else Inl Index_out_of_bounds)"

definition tbb_step :: "PageTable \<Rightarrow> kmem \<Rightarrow> usize \<Rightarrow> usize \<Rightarrow> (byte_slice \<times> usize) res" where
  "tbb_step pt m start end' =
     bindR (VirtAddr_from_usize start) (\<lambda>start_va.
       let vpn = VirtAddr_floor start_va in
       bindR (PageTable_translate vpn pt m) (\<lambda>t.
       bindR (unwrapR t) (\<lambda>pte.
       bindR (pte_ppn pte) (\<lambda>ppn.
       bindR (VirtAddr_from_usize end') (\<lambda>e.
         let end_va = min (VirtAddr_from_VirtPageNum (VirtPageNum_step vpn)) e in
         bindR (page_slice ppn (VirtAddr_page_offset start_va)
             (if VirtAddr_page_offset end_va = 0 then None else Some (VirtAddr_page_offset end_va)))
           (\<lambda>piece. Inr (piece, usize_from_VirtAddr end_va)))))))"

partial_function (option) tbb_loop ::
  "PageTable \<Rightarrow> kmem \<Rightarrow> usize \<Rightarrow> usize \<Rightarrow> byte_slice list \<Rightarrow> byte_slice list res option" where
  "tbb_loop pt m start end' v =
     (if start < end' then
        (case tbb_step pt m start end' of
           Inl e \<Rightarrow> Some (Inl e)
         | Inr (piece, start') \<Rightarrow> tbb_loop pt m start' end' (v @ [piece]))
      else Some (Inr v))"

definition translated_byte_buffer ::
  "usize \<Rightarrow> usize \<Rightarrow> usize \<Rightarrow> kmem \<Rightarrow> byte_slice list res option" where
  "translated_byte_buffer token ptr len m =
     (case PageTable_from_token token of
        Inl e \<Rightarrow> Some (Inl e)
      | Inr pt \<Rightarrow> tbb_loop pt m ptr (ptr + len) [])"

section \<open>Strings and single values\<close>

text \<open>A \<^verbatim>\<open>String\<close> is the list of its characters; \<^verbatim>\<open>c as char\<close> is the character with that number.\<close>

definition byte_char :: "u8 \<Rightarrow> char" where "byte_char b = char_of (unat b)"

partial_function (option) translated_str_loop ::
  "(usize \<Rightarrow> u8) \<Rightarrow> usize \<Rightarrow> string \<Rightarrow> string res option" where
  "translated_str_loop load va acc =
     (case VirtAddr_from_usize va of
        Inl e \<Rightarrow> Some (Inl e)
      | Inr a \<Rightarrow>
          if va_raw a = 0 then Some (Inl Unwrap_none)
          else if load (va_raw a) = 0 then Some (Inr acc)
          else translated_str_loop load (va + 1) (acc @ [byte_char (load (va_raw a))]))"

definition translated_str :: "(usize \<Rightarrow> u8) \<Rightarrow> usize \<Rightarrow> usize \<Rightarrow> string res option" where
  "translated_str load token ptr =
     (case PageTable_from_token token of
        Inl e \<Rightarrow> Some (Inl e)
      | Inr pt \<Rightarrow> translated_str_loop load ptr [])"

partial_function (option) c_ptr_loop ::
  "(usize \<Rightarrow> u8) \<Rightarrow> usize \<Rightarrow> usize \<Rightarrow> string \<Rightarrow> string option" where
  "c_ptr_loop load c_ptr i acc =
     (if load (c_ptr + i) = 0 then Some acc
      else c_ptr_loop load c_ptr (i + 1) (acc @ [byte_char (load (c_ptr + i))]))"

definition c_ptr_to_string :: "(usize \<Rightarrow> u8) \<Rightarrow> usize \<Rightarrow> string option" where
  "c_ptr_to_string load c_ptr = c_ptr_loop load c_ptr 0 []"

definition translated_refmut :: "usize \<Rightarrow> usize \<Rightarrow> kmem \<Rightarrow> usize res" where
  "translated_refmut token ptr m =
     bindR (PageTable_from_token token) (\<lambda>pt.
       bindR (VirtAddr_from_usize ptr) (\<lambda>va.
         bindR (PageTable_translate_va va pt m) (\<lambda>r.
           bindR (unwrapR r) (\<lambda>pa.
             if pa_raw pa = 0 then Inl Unwrap_none else Inr (pa_raw pa)))))"

section \<open>User buffers\<close>

record UserBuffer =
  ub_buffers :: "byte_slice list"

definition UserBuffer_len :: "UserBuffer \<Rightarrow> nat" where
  "UserBuffer_len b = fold (\<lambda>s total. total + slice_len s) (ub_buffers b) 0"

record UserBufferIterator =
  it_buffers :: "byte_slice list"
  it_current_buffer :: nat
  it_current_idx :: nat

definition UserBuffer_into_iter :: "UserBuffer \<Rightarrow> UserBufferIterator" where
  "UserBuffer_into_iter b =
     \<lparr> it_buffers = ub_buffers b, it_current_buffer = 0, it_current_idx = 0 \<rparr>"

definition UserBufferIterator_next ::
  "UserBufferIterator \<Rightarrow> (byte_ref option \<times> UserBufferIterator) res" where
  "UserBufferIterator_next it =
     (if it_current_buffer it \<ge> length (it_buffers it) then Inr (None, it)
      else
        let b = it_buffers it ! it_current_buffer it in
        if it_current_idx it < slice_len b then
          let r = (bs_page b, bs_lo b + it_current_idx it) in
          if it_current_idx it + 1 = slice_len b then
            Inr (Some r, it\<lparr> it_current_idx := 0, it_current_buffer := it_current_buffer it + 1 \<rparr>)
          else Inr (Some r, it\<lparr> it_current_idx := it_current_idx it + 1 \<rparr>)
        else Inl Index_out_of_bounds)"

section \<open>Iterators\<close>

primrec take_items :: "('i \<Rightarrow> ('a option \<times> 'i) res) \<Rightarrow> nat \<Rightarrow> 'i \<Rightarrow> ('a list \<times> 'i) res" where
  "take_items next_item 0 it = Inr ([], it)"
| "take_items next_item (Suc n) it =
     bindR (next_item it) (\<lambda>(r, it').
       case r of
         None \<Rightarrow> Inr ([], it')
       | Some x \<Rightarrow> bindR (take_items next_item n it') (\<lambda>(xs, it''). Inr (x # xs, it'')))"

locale list_iterator =
  fixes next_item :: "'i \<Rightarrow> ('a option \<times> 'i) res"
    and rest :: "'i \<Rightarrow> 'a list"
    and ok :: "'i \<Rightarrow> bool"
  assumes next_nil: "\<lbrakk> ok it; rest it = [] \<rbrakk> \<Longrightarrow> next_item it = Inr (None, it)"
    and next_cons: "\<lbrakk> ok it; rest it = x # xs \<rbrakk> \<Longrightarrow>
          \<exists>it'. next_item it = Inr (Some x, it') \<and> ok it' \<and> rest it' = xs"
begin

lemma take_items_rest:
  assumes "ok it"
  shows "\<exists>it'. take_items next_item n it = Inr (take n (rest it), it') \<and> ok it' \<and>
    rest it' = drop n (rest it)"
  using assms
proof (induction n arbitrary: it)
  case (Suc n)
  show ?case
  proof (cases "rest it")
    case Nil
    then show ?thesis using next_nil [OF Suc.prems] Suc.prems by simp
  next
    case (Cons x xs)
    then obtain it1 where 1: "next_item it = Inr (Some x, it1)" "ok it1" "rest it1 = xs"
      using next_cons [OF Suc.prems] by blast
    then show ?thesis using Suc.IH [OF 1(2)] Cons by auto
  qed
qed simp

end

definition it_ok :: "UserBufferIterator \<Rightarrow> bool" where
  "it_ok it \<longleftrightarrow> (\<forall>b \<in> set (it_buffers it). bs_lo b < bs_hi b) \<and>
     (it_current_buffer it < length (it_buffers it) \<longrightarrow>
        it_current_idx it < slice_len (it_buffers it ! it_current_buffer it))"

definition it_rest :: "UserBufferIterator \<Rightarrow> byte_ref list" where
  "it_rest it =
     (case drop (it_current_buffer it) (it_buffers it) of
        [] \<Rightarrow> []
      | b # bs \<Rightarrow> drop (it_current_idx it) (slice_refs b) @ concat (map slice_refs bs))"

lemma length_slice_refs [simp]: "length (slice_refs b) = slice_len b"
  by (simp add: slice_refs_def slice_len_def)

lemma nth_slice_refs: "i < slice_len b \<Longrightarrow> slice_refs b ! i = (bs_page b, bs_lo b + i)"
  by (simp add: slice_refs_def slice_len_def)

lemma it_rest_Cons:
  assumes "it_current_buffer it < length (it_buffers it)"
    and "it_current_idx it < slice_len (it_buffers it ! it_current_buffer it)"
  defines "b \<equiv> it_buffers it ! it_current_buffer it"
  shows "it_rest it = (bs_page b, bs_lo b + it_current_idx it) #
    drop (Suc (it_current_idx it)) (slice_refs b) @
    concat (map slice_refs (drop (Suc (it_current_buffer it)) (it_buffers it)))"
proof -
  have "drop (it_current_buffer it) (it_buffers it) = b # drop (Suc (it_current_buffer it)) (it_buffers it)"
    using assms by (simp add: Cons_nth_drop_Suc)
  moreover have "drop (it_current_idx it) (slice_refs b) =
      (bs_page b, bs_lo b + it_current_idx it) # drop (Suc (it_current_idx it)) (slice_refs b)"
    using assms by (simp add: Cons_nth_drop_Suc [symmetric] nth_slice_refs)
  ultimately show ?thesis by (simp add: it_rest_def)
qed

interpretation ub: list_iterator UserBufferIterator_next it_rest it_ok
proof (unfold_locales, goal_cases)
  case (1 it)
  then have "\<not> it_current_buffer it < length (it_buffers it)"
    using it_rest_Cons [of it] by (auto simp: it_ok_def)
  then show ?case by (simp add: UserBufferIterator_next_def)
next
  case (2 it x xs)
  have cb: "it_current_buffer it < length (it_buffers it)"
    using 2(2) by (cases "it_current_buffer it < length (it_buffers it)") (simp_all add: it_rest_def)
  then have ci: "it_current_idx it < slice_len (it_buffers it ! it_current_buffer it)"
    using 2(1) by (simp add: it_ok_def)
  let ?b = "it_buffers it ! it_current_buffer it"
  note r = it_rest_Cons [OF cb ci]
  show ?case
  proof (cases "it_current_idx it + 1 = slice_len ?b")
    case True
    let ?it = "it\<lparr> it_current_idx := 0, it_current_buffer := it_current_buffer it + 1 \<rparr>"
    have "it_ok ?it"
      using 2(1) by (auto simp: it_ok_def slice_len_def)
    moreover have "it_rest ?it = concat (map slice_refs (drop (Suc (it_current_buffer it)) (it_buffers it)))"
      by (cases "drop (Suc (it_current_buffer it)) (it_buffers it)") (simp_all add: it_rest_def)
    ultimately show ?thesis
      using r 2(2) True cb ci by (simp add: UserBufferIterator_next_def Let_def)
  next
    case False
    let ?it = "it\<lparr> it_current_idx := it_current_idx it + 1 \<rparr>"
    have "it_ok ?it" using 2(1) False ci by (simp add: it_ok_def)
    moreover have "it_rest ?it = drop (Suc (it_current_idx it)) (slice_refs ?b) @
        concat (map slice_refs (drop (Suc (it_current_buffer it)) (it_buffers it)))"
      using cb by (simp add: it_rest_def Cons_nth_drop_Suc [symmetric])
    ultimately show ?thesis
      using r 2(2) False cb ci by (simp add: UserBufferIterator_next_def Let_def)
  qed
qed

lemma into_iter_ok:
  assumes "\<forall>b \<in> set (ub_buffers u). bs_lo b < bs_hi b"
  shows "it_ok (UserBuffer_into_iter u)"
    and "it_rest (UserBuffer_into_iter u) = concat (map slice_refs (ub_buffers u))"
  using assms
  by (auto simp: it_ok_def it_rest_def UserBuffer_into_iter_def slice_len_def split: list.splits)

lemma UserBuffer_len_eq: "UserBuffer_len u = length (concat (map slice_refs (ub_buffers u)))"
proof -
  have "fold (\<lambda>s total. total + slice_len s) bs n = n + length (concat (map slice_refs bs))" for bs n
    by (induction bs arbitrary: n) simp_all
  then show ?thesis by (simp add: UserBuffer_len_def)
qed

section \<open>Translation of a user range\<close>

lemma VirtAddr_from_usize_small:
  assumes "unat v < 2 ^ 39"
  shows "VirtAddr_from_usize v = Inr (VirtAddr v)"
proof -
  have "uint v < 2 ^ 39"
    using assms by (simp only: uint_nat of_nat_less_numeral_power_cancel_iff)
  moreover have "- (2 ^ 39) \<le> uint v"
    by (rule order_trans [OF _ uint_nonnegative]) simp
  ultimately show ?thesis
    by (simp add: VirtAddr_from_usize_Inr sint_usize)
qed

lemma usize_from_VirtAddr_small:
  assumes "unat (va_raw a) < 2 ^ 38"
  shows "usize_from_VirtAddr a = va_raw a"
proof -
  have "unat (push_bit (VA_WIDTH_SV39 - 1) 1 :: usize) = 2 ^ 38"
    by (simp add: VA_WIDTH_SV39_def)
  then have "\<not> push_bit (VA_WIDTH_SV39 - 1) 1 \<le> va_raw a"
    using assms by (simp add: word_le_nat_alt del: push_bit_of_1)
  then show ?thesis by (simp add: usize_from_VirtAddr_def)
qed

definition page_of :: "nat \<Rightarrow> VirtPageNum" where
  "page_of n = VirtPageNum (of_nat (n div 4096))"

lemma VirtAddr_floor_page_of: "VirtAddr_floor (VirtAddr a) = page_of (unat a)"
  by (simp add: VirtAddr_floor_def PAGE_SIZE_def page_of_def word_unat_eq_iff unat_div unat_of_nat
      take_bit_nat_eq_self order.strict_trans1 [OF div_le_dividend unat_bound [of a, simplified]])

lemma VirtAddr_page_offset_nat: "unat (VirtAddr_page_offset (VirtAddr a)) = unat a mod 4096"
  by (simp add: VirtAddr_page_offset_alt unat_take_bit)

lemma unat_next_page:
  assumes "unat a < 2 ^ 38"
  shows "unat (va_raw (VirtAddr_from_VirtPageNum (VirtPageNum_step (page_of (unat a))))) =
    (unat a div 4096 + 1) * 4096"
proof -
  have "unat (of_nat (unat a div 4096) + 1 :: usize) = unat a div 4096 + 1"
    using assms by (subst unat_add_small) (simp_all add: unat_of_nat take_bit_nat_eq_self)
  then show ?thesis
    using assms unat_push_12 [of "of_nat (unat a div 4096) + 1"]
    by (simp add: VirtAddr_from_VirtPageNum_def VirtPageNum_step_def page_of_def PAGE_SIZE_BITS_def)
qed

lemma unat_min_VirtAddr: "unat (va_raw (min a b)) = min (unat (va_raw a)) (unat (va_raw b))"
  by (simp add: min_def newtype_order word_le_nat_alt)

lemma upt_shift: "[c + a..<c + b] = map (\<lambda>i. c + i) [a..<b]"
  by (induction b) auto

lemma tbb_step_user:
  assumes lt: "start < end'" and user: "unat end' < 2 ^ 38"
    and t: "PageTable_translate (page_of (unat start)) pt m = Inr (Some pte)"
  defines "stop \<equiv> min ((unat start div 4096 + 1) * 4096) (unat end')"
  shows "\<exists>piece start'. tbb_step pt m start end' = Inr (piece, start') \<and> unat start' = stop \<and>
    unat start < stop \<and> stop \<le> unat end' \<and> bs_lo piece < bs_hi piece \<and>
    slice_refs piece = map (\<lambda>n. (pte_target pte, n mod 4096)) [unat start..<stop] \<and>
    (\<forall>n. unat start \<le> n \<and> n < stop \<longrightarrow> n div 4096 = unat start div 4096)"
proof -
  let ?n = "unat start"
  have n: "?n < unat end'" using lt by (simp add: word_less_nat_alt)
  define end_va where "end_va = min (VirtAddr_from_VirtPageNum (VirtPageNum_step (page_of ?n))) (VirtAddr end')"
  have ev: "unat (va_raw end_va) = stop"
    using n user by (simp add: end_va_def unat_min_VirtAddr unat_next_page stop_def)
  have stop: "?n < stop" "stop \<le> unat end'" "stop \<le> ?n div 4096 * 4096 + 4096"
    using n by (auto simp: stop_def)
  have off: "unat (VirtAddr_page_offset end_va) = stop mod 4096"
    using ev VirtAddr_page_offset_nat [of "va_raw end_va"] by simp
  have ret: "usize_from_VirtAddr end_va = va_raw end_va"
    using ev stop user by (intro usize_from_VirtAddr_small) simp
  define hi where "hi = (if stop mod 4096 = 0 then 4096 else stop mod 4096)"
  define d where "d = stop - ?n div 4096 * 4096"
  have nd: "?n = ?n div 4096 * 4096 + ?n mod 4096" by simp
  have d: "stop = ?n div 4096 * 4096 + d" "?n mod 4096 < d" "d \<le> 4096"
    using stop(1,3) nd unfolding d_def by linarith+
  have "stop mod 4096 = d mod 4096" unfolding d(1) by simp
  then have "hi = d" using d(2,3) by (cases "d = 4096") (simp_all add: hi_def)
  then have hi: "stop = ?n div 4096 * 4096 + hi" "?n mod 4096 < hi" "hi \<le> 4096"
    using d by simp_all
  have "VirtAddr_page_offset end_va = 0 \<longleftrightarrow> stop mod 4096 = 0"
    using off by (simp add: word_unat_eq_iff)
  then have slice: "page_slice (pte_target pte) (VirtAddr_page_offset (VirtAddr start))
      (if VirtAddr_page_offset end_va = 0 then None else Some (VirtAddr_page_offset end_va)) =
      Inr (ByteSlice (pte_target pte) (?n mod 4096) hi)"
    using hi(2,3) off hi_def
    by (cases "stop mod 4096 = 0") (simp_all add: page_slice_def VirtAddr_page_offset_nat)
  have step: "tbb_step pt m start end' =
      Inr (ByteSlice (pte_target pte) (?n mod 4096) hi, va_raw end_va)"
    using n user slice ret t
    by (simp add: tbb_step_def VirtAddr_from_usize_small VirtAddr_floor_page_of end_va_def [symmetric] Let_def
        split: if_splits)
  have a: "[?n..<stop] = map (\<lambda>o'. ?n div 4096 * 4096 + o') [?n mod 4096..<hi]"
    using upt_shift [of "?n div 4096 * 4096" "?n mod 4096" hi] hi(1) by simp
  have b: "map (\<lambda>o'. (pte_target pte, o')) [?n mod 4096..<hi] =
      map (\<lambda>o'. (pte_target pte, (?n div 4096 * 4096 + o') mod 4096)) [?n mod 4096..<hi]"
    using hi(3) by simp
  have refs: "slice_refs (ByteSlice (pte_target pte) (?n mod 4096) hi) =
      map (\<lambda>n. (pte_target pte, n mod 4096)) [?n..<stop]"
    unfolding slice_refs_def byte_slice.sel a map_map o_def by (rule b)
  have "k div 4096 = ?n div 4096" if "?n \<le> k" "k < stop" for k
  proof -
    have "?n div 4096 * 4096 \<le> k" using that(1) nd by linarith
    moreover have "k < Suc (?n div 4096) * 4096" using that(2) hi(1,3) by simp
    ultimately show ?thesis by (subst nat_div_eq_iff) simp_all
  qed
  then have page: "\<forall>n. ?n \<le> n \<and> n < stop \<longrightarrow> n div 4096 = ?n div 4096" by blast
  have len: "bs_lo (ByteSlice (pte_target pte) (?n mod 4096) hi) < bs_hi (ByteSlice (pte_target pte) (?n mod 4096) hi)"
    using hi(2) by simp
  show ?thesis
    by (intro exI conjI) (rule step ev stop(1,2) refs len page)+
qed

lemma tbb_loop_user:
  assumes "unat end' < 2 ^ 38" "start \<le> end'"
    and "\<And>n. unat start \<le> n \<Longrightarrow> n < unat end' \<Longrightarrow>
      PageTable_translate (page_of n) pt m = Inr (Some (pte n))"
  shows "\<exists>bs. tbb_loop pt m start end' v = Some (Inr (v @ bs)) \<and> (\<forall>b \<in> set bs. bs_lo b < bs_hi b) \<and>
    concat (map slice_refs bs) = map (\<lambda>n. (pte_target (pte n), n mod 4096)) [unat start..<unat end']"
  using assms
proof (induction "unat end' - unat start" arbitrary: start v rule: less_induct)
  case less
  show ?case
  proof (cases "start < end'")
    case False
    then have "start = end'" using less.prems(2) by simp
    then show ?thesis by (subst tbb_loop.simps) simp
  next
    case True
    then have n: "unat start < unat end'" by (simp add: word_less_nat_alt)
    obtain piece start' stop where st: "tbb_step pt m start end' = Inr (piece, start')" "unat start' = stop"
      "unat start < stop" "stop \<le> unat end'" "bs_lo piece < bs_hi piece"
      "slice_refs piece = map (\<lambda>n. (pte_target (pte (unat start)), n mod 4096)) [unat start..<stop]"
      "\<forall>n. unat start \<le> n \<and> n < stop \<longrightarrow> n div 4096 = unat start div 4096"
      using tbb_step_user [OF True less.prems(1) less.prems(3) [OF order_refl n]] by blast
    have same: "pte k = pte (unat start)" if "unat start \<le> k" "k < stop" for k
    proof -
      have "k div 4096 = unat start div 4096" using st(7) that by blast
      then have "page_of k = page_of (unat start)" by (simp only: page_of_def)
      then show ?thesis
        using less.prems(3) [of k] less.prems(3) [OF order_refl n] that st(4) by simp
    qed
    have refs: "slice_refs piece = map (\<lambda>n. (pte_target (pte n), n mod 4096)) [unat start..<stop]"
      unfolding st(6)
    proof (rule map_cong [OF refl])
      fix x assume "x \<in> set [unat start..<stop]"
      then have "pte x = pte (unat start)" by (intro same) simp_all
      then show "(pte_target (pte (unat start)), x mod 4096) = (pte_target (pte x), x mod 4096)"
        by (simp only:)
    qed
    have tr: "PageTable_translate (page_of k) pt m = Inr (Some (pte k))" if "unat start' \<le> k" "k < unat end'" for k
      using less.prems(3) [of k] st(2,3) that by simp
    have dec: "unat end' - unat start' < unat end' - unat start" and le: "start' \<le> end'"
      using st(2-4) n by (simp_all add: word_le_nat_alt)
    obtain bs where bs: "tbb_loop pt m start' end' (v @ [piece]) = Some (Inr ((v @ [piece]) @ bs))"
      "\<forall>b \<in> set bs. bs_lo b < bs_hi b"
      "concat (map slice_refs bs) = map (\<lambda>n. (pte_target (pte n), n mod 4096)) [unat start'..<unat end']"
      using less.hyps [OF dec less.prems(1) le tr] by blast
    have "[unat start..<unat end'] = [unat start..<stop] @ [stop..<unat end']"
      using st(3,4) upt_add_eq_append [of "unat start" stop "unat end' - stop"] by simp
    moreover have "tbb_loop pt m start end' v = Some (Inr (v @ piece # bs))"
      using bs(1) True st(1) by (subst tbb_loop.simps) simp
    ultimately show ?thesis
      using bs(2,3) refs st(2,5) by (intro exI [of _ "piece # bs"]) simp
  qed
qed

lemma pt_view_Some_translate:
  "pt_view (pt, s) v = Some e \<Longrightarrow> PageTable_translate v pt (mm_mem s) = Inr (Some e)"
proof -
  assume v: "pt_view (pt, s) v = Some e"
  then have "legal_vpn v" by (simp add: pt_view_def split: if_splits)
  with v show ?thesis
    by (auto simp: pt_view_translate split: sum.splits option.splits if_splits)
qed

lemma pt_view_Some_legal: "pt_view x v = Some e \<Longrightarrow> legal_vpn v"
  by (auto simp: pt_view_def split: prod.splits if_splits)

section \<open>Properties\<close>

text \<open>
  C22.  For a user range whose pages are all mapped, \<^verbatim>\<open>translated_byte_buffer\<close> returns a
  list of non-empty slices whose bytes are, in order, exactly the physical bytes that
  the addresses of the range translate to; iterating over them as a \<^verbatim>\<open>UserBuffer\<close> never
  panics and yields each of them once.
\<close>
theorem translated_byte_buffer_correct:
  assumes inv: "pt_inv l pt s" and user: "unat ptr + unat len < 2 ^ 38"
    and mapped: "\<And>i. i < unat len \<Longrightarrow> pt_view (pt, s) (page_of (unat ptr + i)) \<noteq> None"
  shows "\<exists>bs refs it. translated_byte_buffer (PageTable_token pt) ptr len (mm_mem s) = Some (Inr bs) \<and>
    length refs = unat len \<and> UserBuffer_len \<lparr> ub_buffers = bs \<rparr> = unat len \<and>
    take_items UserBufferIterator_next (unat len) (UserBuffer_into_iter \<lparr> ub_buffers = bs \<rparr>) = Inr (refs, it) \<and>
    UserBufferIterator_next it = Inr (None, it) \<and>
    (\<forall>i < unat len. \<exists>pa.
       PageTable_translate_va (VirtAddr (ptr + of_nat i)) pt (mm_mem s) = Inr (Some pa) \<and>
       refs ! i = (PhysAddr_floor pa, unat (PhysAddr_page_offset pa)))"
proof -
  let ?t = "\<lparr> pt_root_ppn = pt_root_ppn pt, pt_frames = [] \<rparr>"
  define pte where "pte = (\<lambda>n. the (pt_view (pt, s) (page_of n)))"
  have e: "pt_view (pt, s) (page_of n) = Some (pte n)" if "unat ptr \<le> n" "n < unat ptr + unat len" for n
    using mapped [of "n - unat ptr"] that by (auto simp: pte_def)
  have en: "unat (ptr + len) = unat ptr + unat len" using user by (intro unat_add_small) simp
  have "unat (ppn_raw (pt_root_ppn pt)) < 2 ^ 44"
    using pt_tables_bound [OF inv pt_tables_I [of "[]"]] pt_inv_small [OF inv] by (simp add: table_path_def)
  note tok = token_root [OF this]
  have tr: "PageTable_translate (page_of n) ?t (mm_mem s) = Inr (Some (pte n))"
    if "unat ptr \<le> n" "n < unat (ptr + len)" for n
    using pt_view_Some_translate [OF e [of n]] that by (simp add: en PageTable_translate_def find_pte_def)
  have u: "unat (ptr + len) < 2 ^ 38" "ptr \<le> ptr + len" using en user by (simp_all add: word_le_nat_alt)
  obtain bs where bs: "tbb_loop ?t (mm_mem s) ptr (ptr + len) [] = Some (Inr bs)"
    "\<forall>b \<in> set bs. bs_lo b < bs_hi b"
    "concat (map slice_refs bs) = map (\<lambda>n. (pte_target (pte n), n mod 4096)) [unat ptr..<unat (ptr + len)]"
    using tbb_loop_user [OF u tr, of "[]"] by auto
  define refs where "refs = map (\<lambda>n. (pte_target (pte n), n mod 4096)) [unat ptr..<unat (ptr + len)]"
  have ok: "it_ok (UserBuffer_into_iter \<lparr> ub_buffers = bs \<rparr>)"
    "it_rest (UserBuffer_into_iter \<lparr> ub_buffers = bs \<rparr>) = refs"
    using into_iter_ok [of "\<lparr> ub_buffers = bs \<rparr>"] bs(2,3) by (simp_all add: refs_def)
  obtain it where it: "take_items UserBufferIterator_next (unat len) (UserBuffer_into_iter \<lparr> ub_buffers = bs \<rparr>)
      = Inr (refs, it)" "it_ok it" "it_rest it = []"
    using ub.take_items_rest [OF ok(1), of "unat len"] ok(2) by (auto simp: refs_def en)
  have "\<exists>pa. PageTable_translate_va (VirtAddr (ptr + of_nat i)) pt (mm_mem s) = Inr (Some pa) \<and>
      refs ! i = (PhysAddr_floor pa, unat (PhysAddr_page_offset pa))" if i: "i < unat len" for i
  proof -
    have "unat (of_nat i :: usize) = i"
      using i unat_bound [of len] by (simp add: unat_of_nat take_bit_nat_eq_self)
    then have n: "unat (ptr + of_nat i) = unat ptr + i" using user i by (subst unat_add_small) simp_all
    then have v: "pt_view (pt, s) (VirtAddr_floor (VirtAddr (ptr + of_nat i))) = Some (pte (unat ptr + i))"
      using e [of "unat ptr + i"] i by (simp add: VirtAddr_floor_page_of)
    from translate_va_view [OF pt_view_Some_legal [OF v] v] i n show ?thesis
      by (auto simp: refs_def en VirtAddr_page_offset_nat)
  qed
  then show ?thesis
    using bs(1,3) it ub.next_nil [OF it(2,3)] tok
    by (intro exI [of _ bs] exI [of _ refs] exI [of _ it])
      (simp add: translated_byte_buffer_def refs_def UserBuffer_len_eq en)
qed

theorem translated_byte_buffer_correct_witness:
  "\<exists>pt s y bs. PageTable_new example_mm = Inr (pt, s) \<and>
     PageTable_map (VirtPageNum 5) (PhysPageNum 50) PTE_R (pt, s) = Inr y \<and>
     translated_byte_buffer (PageTable_token (fst y)) 0x5ffe 2 (mm_mem (snd y)) = Some (Inr bs) \<and>
     UserBuffer_len \<lparr> ub_buffers = bs \<rparr> = 2"
proof -
  obtain pt s pt' s' where e: "PageTable_new example_mm = Inr (pt, s)"
    "PageTable_map (VirtPageNum 5) (PhysPageNum 50) PTE_R (pt, s) = Inr (pt', s')"
    "pt_inv 1 pt' s'" "pt_view (pt', s') = [VirtPageNum 5 \<mapsto> map_entry (PhysPageNum 50) PTE_R]"
    by (rule example_mapped)
  have m: "pt_view (pt', s') (page_of (unat (0x5ffe :: usize) + i)) \<noteq> None" if "i < unat (2 :: usize)" for i
  proof -
    have "i = 0 \<or> i = 1" using that by auto
    then show ?thesis using e(4) by (auto simp: page_of_def)
  qed
  show ?thesis
    using translated_byte_buffer_correct [OF e(3), of "0x5ffe" 2, OF _ m] e(1,2) by auto
qed

lemma translated_str_loop_user:
  assumes "ptr \<noteq> 0" "unat ptr + length cs < 2 ^ 39"
    and "\<And>i. i < length cs \<Longrightarrow> load (ptr + of_nat i) = cs ! i \<and> cs ! i \<noteq> 0"
    and "load (ptr + of_nat (length cs)) = 0"
  shows "translated_str_loop load ptr acc = Some (Inr (acc @ map byte_char cs))"
  using assms
proof (induction cs arbitrary: ptr acc)
  case Nil
  then show ?case
    by (subst translated_str_loop.simps) (simp add: VirtAddr_from_usize_small)
next
  case (Cons c cs)
  have va: "VirtAddr_from_usize ptr = Inr (VirtAddr ptr)"
    using Cons.prems(2) by (intro VirtAddr_from_usize_small) simp
  have c: "load ptr = c" "c \<noteq> 0" using Cons.prems(3) [of 0] by simp_all
  have u: "unat (ptr + 1) = unat ptr + 1" using Cons.prems(2) by (subst unat_add_small) simp_all
  have "ptr + 1 \<noteq> 0" using u by (metis add_eq_0_iff_both_eq_0 unat_0 zero_neq_one)
  moreover have "load (ptr + 1 + of_nat i) = cs ! i \<and> cs ! i \<noteq> 0" if "i < length cs" for i
    using Cons.prems(3) [of "Suc i"] that by (simp add: add.assoc)
  moreover have "load (ptr + 1 + of_nat (length cs)) = 0" using Cons.prems(4) by (simp add: add.assoc)
  ultimately have "translated_str_loop load (ptr + 1) (acc @ [byte_char c]) = Some (Inr ((acc @ [byte_char c]) @ map byte_char cs))"
    using Cons.prems(2) u by (intro Cons.IH) simp_all
  then show ?case
    using va c Cons.prems(1) by (subst translated_str_loop.simps) simp
qed

lemma c_ptr_loop_user:
  assumes "\<And>i. i < length cs \<Longrightarrow> load (ptr + k + of_nat i) = cs ! i \<and> cs ! i \<noteq> 0"
    and "load (ptr + k + of_nat (length cs)) = 0"
  shows "c_ptr_loop load ptr k acc = Some (acc @ map byte_char cs)"
  using assms
proof (induction cs arbitrary: k acc)
  case Nil
  then show ?case by (subst c_ptr_loop.simps) simp
next
  case (Cons c cs)
  have c: "load (ptr + k) = c" "c \<noteq> 0" using Cons.prems(1) [of 0] by simp_all
  have "load (ptr + (k + 1) + of_nat i) = cs ! i \<and> cs ! i \<noteq> 0" if "i < length cs" for i
    using Cons.prems(1) [of "Suc i"] that by (simp add: add.assoc)
  moreover have "load (ptr + (k + 1) + of_nat (length cs)) = 0" using Cons.prems(2) by (simp add: add.assoc)
  ultimately have "c_ptr_loop load ptr (k + 1) (acc @ [byte_char c]) = Some ((acc @ [byte_char c]) @ map byte_char cs)"
    by (rule Cons.IH)
  then show ?case using c by (subst c_ptr_loop.simps) simp
qed

text \<open>
  C23.  Reading a zero-terminated string from user memory terminates and returns the
  characters of the bytes before the first zero, one for each byte, and both of the kernel's string
  readers agree on it.
\<close>
theorem user_string_correct:
  assumes "ptr \<noteq> 0" "unat ptr + length cs < 2 ^ 39"
    and "\<And>i. i < length cs \<Longrightarrow> load (ptr + of_nat i) = cs ! i \<and> cs ! i \<noteq> 0"
    and "load (ptr + of_nat (length cs)) = 0"
  shows "translated_str load token ptr = Some (Inr (map byte_char cs)) \<and> c_ptr_to_string load ptr = Some (map byte_char cs)"
proof -
  have "unat (take_bit 44 token) < 2 ^ 44" by (simp add: unat_take_bit)
  then have "\<exists>pt. PageTable_from_token token = Inr pt"
    unfolding PageTable_from_token_def mask_44 take_bit_eq_mask [symmetric]
    by (simp add: PhysPageNum_from_usize_small)
  then show ?thesis
    using translated_str_loop_user [OF assms] c_ptr_loop_user [of cs load ptr 0 "[]"] assms(3,4)
    by (auto simp: translated_str_def c_ptr_to_string_def)
qed

theorem user_string_correct_witness:
  "translated_str ((\<lambda>_. 0)(0x1000 := 104, 0x1001 := 105)) 7 0x1000 = Some (Inr ''hi'')"
proof -
  let ?load = "(\<lambda>_. 0)(0x1000 := 104, 0x1001 := 105) :: usize \<Rightarrow> u8"
  have "map byte_char [104, 105] = ''hi''" by (simp add: byte_char_def char_of_def bit_Suc_0_iff)
  moreover have "?load (0x1000 + of_nat i) = [104, 105] ! i \<and> [104, 105] ! i \<noteq> (0 :: u8)"
    if "i < length [104 :: u8, 105]" for i
  proof -
    have "i = 0 \<or> i = 1" using that by auto
    then show ?thesis by auto
  qed
  ultimately show ?thesis
    using user_string_correct [of "0x1000" "[104, 105]" ?load 7] by simp
qed

end
