(* ===== verification/BTree_Map.thy ===== *)
theory BTree_Map
  imports Prelude
begin

text \<open>
  The part of \<^verbatim>\<open>alloc::collections::BTreeMap\<close> that the kernel uses: an association list
  in strictly increasing order of the keys, which is the order in which the map is
  iterated.  The locale \<^verbatim>\<open>finite_map\<close> states what a client relies on.
\<close>

type_synonym ('k, 'v) btree = "('k \<times> 'v) list"

definition bt_sorted :: "('k :: linorder, 'v) btree \<Rightarrow> bool" where
  "bt_sorted t \<longleftrightarrow> sorted_wrt (<) (map fst t)"

definition bt_get :: "'k \<Rightarrow> ('k, 'v) btree \<Rightarrow> 'v option" where
  "bt_get k t = map_of t k"

fun bt_put :: "'k :: linorder \<Rightarrow> 'v \<Rightarrow> ('k, 'v) btree \<Rightarrow> ('k, 'v) btree" where
  "bt_put k v [] = [(k, v)]"
| "bt_put k v ((k', v') # t) =
     (if k < k' then (k, v) # (k', v') # t
      else if k = k' then (k, v) # t
      else (k', v') # bt_put k v t)"

definition bt_del :: "'k \<Rightarrow> ('k, 'v) btree \<Rightarrow> ('k, 'v) btree" where
  "bt_del k t = filter (\<lambda>(k', _). k' \<noteq> k) t"

text \<open>\<^verbatim>\<open>insert\<close> and \<^verbatim>\<open>remove\<close> return the value that was there before.\<close>

definition bt_insert :: "'k :: linorder \<Rightarrow> 'v \<Rightarrow> ('k, 'v) btree \<Rightarrow> 'v option \<times> ('k, 'v) btree" where
  "bt_insert k v t = (bt_get k t, bt_put k v t)"

definition bt_remove :: "'k \<Rightarrow> ('k, 'v) btree \<Rightarrow> 'v option \<times> ('k, 'v) btree" where
  "bt_remove k t = (bt_get k t, bt_del k t)"

lemma bt_get_Nil [simp]: "bt_get k [] = None"
  by (simp add: bt_get_def)

lemma set_bt_put: "set (map fst (bt_put k v t)) = insert k (set (map fst t))"
  by (induction t rule: bt_put.induct) auto

lemma bt_sorted_put:
  fixes k :: "'k :: linorder"
  shows "bt_sorted t \<Longrightarrow> bt_sorted (bt_put k v t)"
proof (induction k v t rule: bt_put.induct)
  case (2 k v k' v' t)
  then show ?case
    using set_bt_put [of k v t] by (auto simp: bt_sorted_def)
qed (simp add: bt_sorted_def)

lemma bt_get_put:
  fixes k :: "'k :: linorder"
  shows "bt_sorted t \<Longrightarrow> bt_get j (bt_put k v t) = (if j = k then Some v else bt_get j t)"
proof (induction k v t rule: bt_put.induct)
  case (2 k v k' v' t)
  then show ?case
    by (auto simp: bt_get_def bt_sorted_def)
qed (simp add: bt_get_def)

lemma bt_sorted_del: "bt_sorted t \<Longrightarrow> bt_sorted (bt_del k t)"
  unfolding bt_sorted_def bt_del_def
  by (induction t) auto

lemma bt_get_del: "bt_get j (bt_del k t) = (if j = k then None else bt_get j t)"
  unfolding bt_get_def bt_del_def
  by (induction t) auto

lemma bt_get_Some_iff: "bt_sorted t \<Longrightarrow> bt_get k t = Some v \<longleftrightarrow> (k, v) \<in> set t"
proof -
  assume "bt_sorted t"
  then have "distinct (map fst t)"
    unfolding bt_sorted_def by (simp add: strict_sorted_iff)
  then show ?thesis by (simp add: bt_get_def map_of_eq_Some_iff)
qed

lemma bt_sorted_distinct: "bt_sorted t \<Longrightarrow> distinct (map fst t)"
  unfolding bt_sorted_def by (simp add: strict_sorted_iff)

locale finite_map =
  fixes get :: "'k \<Rightarrow> 'm \<Rightarrow> 'v option"
    and put :: "'k \<Rightarrow> 'v \<Rightarrow> 'm \<Rightarrow> 'v option \<times> 'm"
    and del :: "'k \<Rightarrow> 'm \<Rightarrow> 'v option \<times> 'm"
    and wf :: "'m \<Rightarrow> bool"
  assumes put_old: "wf m \<Longrightarrow> fst (put k v m) = get k m"
    and put_get: "wf m \<Longrightarrow> get j (snd (put k v m)) = (if j = k then Some v else get j m)"
    and put_wf: "wf m \<Longrightarrow> wf (snd (put k v m))"
    and del_old: "wf m \<Longrightarrow> fst (del k m) = get k m"
    and del_get: "wf m \<Longrightarrow> get j (snd (del k m)) = (if j = k then None else get j m)"
    and del_wf: "wf m \<Longrightarrow> wf (snd (del k m))"
begin

lemma put_fold:
  assumes "wf m" "distinct (map fst kvs)"
  shows "wf (fold (\<lambda>(k, v). snd \<circ> put k v) kvs m) \<and>
    get j (fold (\<lambda>(k, v). snd \<circ> put k v) kvs m) =
      (case map_of kvs j of None \<Rightarrow> get j m | Some v \<Rightarrow> Some v)"
  using assms
proof (induction kvs arbitrary: m)
  case (Cons kv kvs)
  obtain k v where kv: "kv = (k, v)" by (cases kv)
  have wf': "wf (snd (put k v m))" using Cons.prems(1) by (rule put_wf)
  have "map_of kvs k = None" using Cons.prems(2) kv by (auto simp: map_of_eq_None_iff)
  then show ?case
    using Cons.IH [OF wf'] Cons.prems put_get [OF Cons.prems(1)] kv
    by (auto split: option.splits)
qed simp

lemma del_fold:
  assumes "wf m"
  shows "wf (fold (\<lambda>k. snd \<circ> del k) ks m) \<and>
    get j (fold (\<lambda>k. snd \<circ> del k) ks m) = (if j \<in> set ks then None else get j m)"
  using assms
proof (induction ks arbitrary: m)
  case (Cons k ks)
  then show ?case
    using Cons.IH [OF del_wf [OF Cons.prems]] del_get [OF Cons.prems] by auto
qed simp

end

interpretation bt: finite_map bt_get bt_insert bt_remove bt_sorted
  by unfold_locales
    (simp_all add: bt_insert_def bt_remove_def bt_get_put bt_sorted_put bt_get_del bt_sorted_del)

end
