(* ===== verification/Memory_Set.thy ===== *)
theory Memory_Set
  imports User_Buffer BTree_Map
begin

text \<open>
  Address spaces: \<^verbatim>\<open>MapArea\<close> and \<^verbatim>\<open>MemorySet\<close> of \<^verbatim>\<open>os/src/mm/memory_set.rs\<close>.  Every
  operation threads the page table and physical memory; a frame tracker that the
  code drops (a replaced or removed map entry, a cleared area) is given back to the
  frame allocator where the code drops it.
\<close>

section \<open>Map areas\<close>

datatype MapType = Identical | Framed

type_synonym MapPermission = u8

definition PERM_R :: MapPermission where "PERM_R = push_bit 1 1"
definition PERM_W :: MapPermission where "PERM_W = push_bit 2 1"
definition PERM_X :: MapPermission where "PERM_X = push_bit 3 1"
definition PERM_U :: MapPermission where "PERM_U = push_bit 4 1"

record MapArea =
  ma_vpn_range :: VPNRange
  ma_data_frames :: "(VirtPageNum, FrameTracker) btree"
  ma_map_type :: MapType
  ma_map_perm :: MapPermission

definition drop_frame_opt :: "FrameTracker option \<Rightarrow> MM \<Rightarrow> MM res" where
  "drop_frame_opt f s = (case f of None \<Rightarrow> Inr s | Some ft \<Rightarrow> FrameTracker_drop ft s)"

definition drop_frames :: "FrameTracker list \<Rightarrow> MM \<Rightarrow> MM res" where
  "drop_frames = foldR FrameTracker_drop"

definition MapArea_new :: "VirtAddr \<Rightarrow> VirtAddr \<Rightarrow> MapType \<Rightarrow> MapPermission \<Rightarrow> MapArea res" where
  "MapArea_new start_va end_va map_type map_perm =
     bindR (VPNRange_new (VirtAddr_floor start_va) (VirtAddr_ceil end_va)) (\<lambda>range.
       Inr \<lparr> ma_vpn_range = range, ma_data_frames = [], ma_map_type = map_type, ma_map_perm = map_perm \<rparr>)"

definition MapArea_from_another :: "MapArea \<Rightarrow> MapArea res" where
  "MapArea_from_another another =
     bindR (VPNRange_new (range_l (ma_vpn_range another)) (range_r (ma_vpn_range another))) (\<lambda>range.
       Inr \<lparr> ma_vpn_range = range, ma_data_frames = [], ma_map_type = ma_map_type another,
             ma_map_perm = ma_map_perm another \<rparr>)"

definition map_one ::
  "VirtPageNum \<Rightarrow> MapArea \<times> PageTable \<times> MM \<Rightarrow> (MapArea \<times> PageTable \<times> MM) res" where
  "map_one vpn = (\<lambda>(area, pt, s).
     (case ma_map_type area of
        Identical \<Rightarrow>
          bindR (PageTable_map vpn (PhysPageNum (vpn_raw vpn - KERNEL_SPACE_OFFSET)) (ma_map_perm area) (pt, s))
            (\<lambda>(pt', s'). Inr (area, pt', s'))
      | Framed \<Rightarrow>
          bindR (frame_alloc s) (\<lambda>(f, s1).
            bindR (unwrapR f) (\<lambda>frame.
              let (old, frames) = bt_insert vpn frame (ma_data_frames area) in
              bindR (drop_frame_opt old s1) (\<lambda>s2.
                bindR (PageTable_map vpn (ft_ppn frame) (ma_map_perm area) (pt, s2))
                  (\<lambda>(pt', s'). Inr (area\<lparr> ma_data_frames := frames \<rparr>, pt', s')))))))"

definition unmap_one ::
  "VirtPageNum \<Rightarrow> MapArea \<times> PageTable \<times> MM \<Rightarrow> (MapArea \<times> PageTable \<times> MM) res" where
  "unmap_one vpn = (\<lambda>(area, pt, s).
     bindR (if ma_map_type area = Framed then
              let (old, frames) = bt_remove vpn (ma_data_frames area) in
              bindR (drop_frame_opt old s) (\<lambda>s1. Inr (area\<lparr> ma_data_frames := frames \<rparr>, s1))
            else Inr (area, s))
       (\<lambda>(area', s1).
          bindR (PageTable_unmap vpn (pt, s1)) (\<lambda>(pt', s'). Inr (area', pt', s'))))"

definition MapArea_map :: "MapArea \<times> PageTable \<times> MM \<Rightarrow> (MapArea \<times> PageTable \<times> MM) res" where
  "MapArea_map x = foldR map_one (VPNRange_vpns (ma_vpn_range (fst x))) x"

definition MapArea_unmap :: "MapArea \<times> PageTable \<times> MM \<Rightarrow> (MapArea \<times> PageTable \<times> MM) res" where
  "MapArea_unmap x = foldR unmap_one (VPNRange_vpns (ma_vpn_range (fst x))) x"

definition MapArea_shrink_to ::
  "VirtPageNum \<Rightarrow> MapArea \<times> PageTable \<times> MM \<Rightarrow> (MapArea \<times> PageTable \<times> MM) res" where
  "MapArea_shrink_to new_end x =
     bindR (VPNRange_new new_end (range_r (ma_vpn_range (fst x)))) (\<lambda>tail.
       bindR (foldR unmap_one (VPNRange_vpns tail) x) (\<lambda>(area, pt, s).
         bindR (VPNRange_new (range_l (ma_vpn_range area)) new_end) (\<lambda>range.
           Inr (area\<lparr> ma_vpn_range := range \<rparr>, pt, s))))"

definition MapArea_append_to ::
  "VirtPageNum \<Rightarrow> MapArea \<times> PageTable \<times> MM \<Rightarrow> (MapArea \<times> PageTable \<times> MM) res" where
  "MapArea_append_to new_end x =
     bindR (VPNRange_new (range_r (ma_vpn_range (fst x))) new_end) (\<lambda>tail.
       bindR (foldR map_one (VPNRange_vpns tail) x) (\<lambda>(area, pt, s).
         bindR (VPNRange_new (range_l (ma_vpn_range area)) new_end) (\<lambda>range.
           Inr (area\<lparr> ma_vpn_range := range \<rparr>, pt, s))))"

definition page_copy :: "PhysPageNum \<Rightarrow> nat \<Rightarrow> u8 list \<Rightarrow> kmem \<Rightarrow> kmem" where
  "page_copy ppn off bs m = fold (\<lambda>(i, b). bytes_array_write ppn (off + i) b) (enumerate 0 bs) m"

text \<open>One round of the loop in \<^verbatim>\<open>copy_data\<close>: slice, translate, bounds check, copy.\<close>

definition copy_piece ::
  "u8 list \<Rightarrow> nat \<Rightarrow> VirtPageNum \<Rightarrow> PageTable \<Rightarrow> kmem \<Rightarrow> kmem res" where
  "copy_piece src page_offset vpn pt m =
     bindR (PageTable_translate vpn pt m) (\<lambda>t.
       bindR (unwrapR t) (\<lambda>pte.
         bindR (pte_ppn pte) (\<lambda>ppn.
           if page_offset + length src \<le> 4096 then Inr (page_copy ppn page_offset src m)
           else Inl Index_out_of_bounds)))"

function copy_data_loop ::
  "u8 list \<Rightarrow> nat \<Rightarrow> nat \<Rightarrow> VirtPageNum \<Rightarrow> PageTable \<Rightarrow> kmem \<Rightarrow> kmem res" where
  "copy_data_loop data start page_offset vpn pt m =
     bindR (copy_piece
         (take (min (length data) (start + (4096 - page_offset)) - start) (drop start data))
         page_offset vpn pt m)
       (\<lambda>m'.
          let start' = start + (4096 - page_offset) in
          if start' \<ge> length data then Inr m'
          else copy_data_loop data start' 0 (VirtPageNum_step vpn) pt m')"
  by pat_completeness auto
termination
  by (relation "measures [\<lambda>(data, start, _). length data - start, \<lambda>(_, _, page_offset, _). page_offset]")
    auto

declare copy_data_loop.simps [simp del]

definition copy_data ::
  "u8 list \<Rightarrow> nat \<Rightarrow> MapArea \<Rightarrow> PageTable \<Rightarrow> MM \<Rightarrow> MM res" where
  "copy_data data offset area pt s =
     bindR (assertR (ma_map_type area = Framed)) (\<lambda>_.
       bindR (copy_data_loop data 0 offset (range_l (ma_vpn_range area)) pt (mm_mem s)) (\<lambda>m.
         Inr (s\<lparr> mm_mem := m \<rparr>)))"

definition is_conflict_with :: "VirtAddr \<Rightarrow> VirtAddr \<Rightarrow> MapArea \<Rightarrow> bool" where
  "is_conflict_with start_va end_va area =
     (\<not> (VirtAddr_floor start_va \<ge> range_r (ma_vpn_range area) \<or>
         VirtAddr_ceil end_va \<le> range_l (ma_vpn_range area)))"

section \<open>Memory sets\<close>

record MemorySet =
  ms_page_table :: PageTable
  ms_areas :: "MapArea list"
  ms_heap_area :: "(VirtPageNum, FrameTracker) btree"
  ms_mmap_area :: "(VirtPageNum, FrameTracker) btree"
  ms_mmap_base :: VirtAddr
  ms_mmap_end :: VirtAddr

definition MemorySet_with :: "(PageTable \<times> MM) res \<Rightarrow> (MemorySet \<times> MM) res" where
  "MemorySet_with table =
     bindR table (\<lambda>(pt, s).
       bindR (VirtAddr_from_usize MMAP_BASE) (\<lambda>base.
         Inr (\<lparr> ms_page_table = pt, ms_areas = [], ms_heap_area = [], ms_mmap_area = [],
                ms_mmap_base = base, ms_mmap_end = base \<rparr>, s)))"

definition MemorySet_new_bare :: "MM \<Rightarrow> (MemorySet \<times> MM) res" where
  "MemorySet_new_bare s = MemorySet_with (PageTable_new s)"

definition MemorySet_new_process :: "PageTable \<Rightarrow> MM \<Rightarrow> (MemorySet \<times> MM) res" where
  "MemorySet_new_process kernel_pt s = MemorySet_with (PageTable_new_process kernel_pt s)"

definition MemorySet_token :: "MemorySet \<Rightarrow> usize" where
  "MemorySet_token ms = PageTable_token (ms_page_table ms)"

definition push_with_offset ::
  "MapArea \<Rightarrow> nat \<Rightarrow> u8 list option \<Rightarrow> MemorySet \<times> MM \<Rightarrow> (MemorySet \<times> MM) res" where
  "push_with_offset map_area offset data = (\<lambda>(ms, s).
     bindR (MapArea_map (map_area, ms_page_table ms, s)) (\<lambda>(area, pt, s1).
       bindR (case data of None \<Rightarrow> Inr s1 | Some d \<Rightarrow> copy_data d offset area pt s1) (\<lambda>s2.
         Inr (ms\<lparr> ms_page_table := pt, ms_areas := ms_areas ms @ [area] \<rparr>, s2))))"

definition push :: "MapArea \<Rightarrow> u8 list option \<Rightarrow> MemorySet \<times> MM \<Rightarrow> (MemorySet \<times> MM) res" where
  "push map_area data = push_with_offset map_area 0 data"

definition insert_framed_area ::
  "VirtAddr \<Rightarrow> VirtAddr \<Rightarrow> MapPermission \<Rightarrow> MemorySet \<times> MM \<Rightarrow> (MemorySet \<times> MM) res" where
  "insert_framed_area start_va end_va permission x =
     bindR (MapArea_new start_va end_va Framed permission) (\<lambda>area. push area None x)"

definition insert_framed_area_with_data ::
  "VirtAddr \<Rightarrow> VirtAddr \<Rightarrow> MapPermission \<Rightarrow> u8 list \<Rightarrow> MemorySet \<times> MM \<Rightarrow> (MemorySet \<times> MM) res" where
  "insert_framed_area_with_data start_va end_va permission data x =
     bindR (MapArea_new start_va end_va Framed permission) (\<lambda>area. push area (Some data) x)"

definition is_conflict_with_va :: "VirtAddr \<Rightarrow> VirtAddr \<Rightarrow> MemorySet \<Rightarrow> bool" where
  "is_conflict_with_va start_va end_va ms = (\<exists>area \<in> set (ms_areas ms). is_conflict_with start_va end_va area)"

text \<open>Unmapping an area empties its frames, so removing it from the list drops what
  is left in \<^verbatim>\<open>data_frames\<close>.\<close>

definition unmap_and_remove :: "nat \<Rightarrow> MemorySet \<times> MM \<Rightarrow> (MemorySet \<times> MM) res" where
  "unmap_and_remove idx = (\<lambda>(ms, s).
     bindR (MapArea_unmap (ms_areas ms ! idx, ms_page_table ms, s)) (\<lambda>(area, pt, s1).
       bindR (drop_frames (map snd (ma_data_frames area)) s1) (\<lambda>s2.
         Inr (ms\<lparr> ms_page_table := pt, ms_areas := remove_nth idx (ms_areas ms) \<rparr>, s2))))"

definition remove_area_with_va ::
  "VirtAddr \<Rightarrow> VirtAddr \<Rightarrow> MemorySet \<times> MM \<Rightarrow> (bool \<times> MemorySet \<times> MM) res" where
  "remove_area_with_va start_va end_va = (\<lambda>(ms, s).
     case find_position (\<lambda>area. range_l (ma_vpn_range area) = VirtAddr_floor start_va \<and>
            range_r (ma_vpn_range area) = VirtAddr_ceil end_va) (ms_areas ms) of
       None \<Rightarrow> Inr (False, ms, s)
     | Some idx \<Rightarrow> bindR (unmap_and_remove idx (ms, s)) (\<lambda>(ms', s'). Inr (True, ms', s')))"

definition remove_area_with_start_vpn ::
  "VirtPageNum \<Rightarrow> MemorySet \<times> MM \<Rightarrow> (MemorySet \<times> MM) res" where
  "remove_area_with_start_vpn start_vpn = (\<lambda>(ms, s).
     case find_position (\<lambda>area. range_l (ma_vpn_range area) = start_vpn) (ms_areas ms) of
       None \<Rightarrow> Inr (ms, s)
     | Some idx \<Rightarrow> unmap_and_remove idx (ms, s))"

definition MemorySet_translate :: "VirtPageNum \<Rightarrow> MemorySet \<Rightarrow> kmem \<Rightarrow> PageTableEntry option res" where
  "MemorySet_translate vpn ms m = PageTable_translate vpn (ms_page_table ms) m"

definition recycle_data_pages :: "MemorySet \<times> MM \<Rightarrow> (MemorySet \<times> MM) res" where
  "recycle_data_pages = (\<lambda>(ms, s).
     bindR (drop_frames (concat (map (\<lambda>area. map snd (ma_data_frames area)) (ms_areas ms))) s) (\<lambda>s'.
       Inr (ms\<lparr> ms_areas := [] \<rparr>, s')))"

definition resize_area ::
  "(VirtPageNum \<Rightarrow> MapArea \<times> PageTable \<times> MM \<Rightarrow> (MapArea \<times> PageTable \<times> MM) res) \<Rightarrow>
     VirtAddr \<Rightarrow> VirtAddr \<Rightarrow> MemorySet \<times> MM \<Rightarrow> (bool \<times> MemorySet \<times> MM) res" where
  "resize_area op start new_end = (\<lambda>(ms, s).
     case find_position (\<lambda>area. range_l (ma_vpn_range area) = VirtAddr_floor start) (ms_areas ms) of
       None \<Rightarrow> Inr (False, ms, s)
     | Some idx \<Rightarrow>
         bindR (op (VirtAddr_ceil new_end) (ms_areas ms ! idx, ms_page_table ms, s)) (\<lambda>(area, pt, s').
           Inr (True, ms\<lparr> ms_page_table := pt, ms_areas := (ms_areas ms)[idx := area] \<rparr>, s')))"

definition MemorySet_shrink_to ::
  "VirtAddr \<Rightarrow> VirtAddr \<Rightarrow> MemorySet \<times> MM \<Rightarrow> (bool \<times> MemorySet \<times> MM) res" where
  "MemorySet_shrink_to = resize_area MapArea_shrink_to"

definition MemorySet_append_to ::
  "VirtAddr \<Rightarrow> VirtAddr \<Rightarrow> MemorySet \<times> MM \<Rightarrow> (bool \<times> MemorySet \<times> MM) res" where
  "MemorySet_append_to = resize_area MapArea_append_to"

section \<open>Heap\<close>

definition FLAGS_URW :: PTEFlags where "FLAGS_URW = PTE_U OR PTE_R OR PTE_W"
definition FLAGS_RWUX :: PTEFlags where "FLAGS_RWUX = PTE_R OR PTE_W OR PTE_U OR PTE_X"

text \<open>One round of \<^verbatim>\<open>map_heap\<close>.\<close>

definition map_heap_page :: "VirtAddr \<Rightarrow> MemorySet \<times> MM \<Rightarrow> (VirtAddr \<times> MemorySet \<times> MM) res" where
  "map_heap_page current_addr = (\<lambda>(ms, s).
     bindR (frame_alloc s) (\<lambda>(f, s1).
       bindR (unwrapR f) (\<lambda>frame.
         let vpn = VirtAddr_floor current_addr in
         bindR (PageTable_map vpn (ft_ppn frame) FLAGS_URW (ms_page_table ms, s1)) (\<lambda>(pt, s2).
           let (old, heap) = bt_insert vpn frame (ms_heap_area ms) in
           bindR (drop_frame_opt old s2) (\<lambda>s3.
             bindR (VirtAddr_from_usize (va_raw current_addr + PAGE_SIZE)) (\<lambda>next.
               Inr (next, ms\<lparr> ms_page_table := pt, ms_heap_area := heap \<rparr>, s3)))))))"

partial_function (option) map_heap ::
  "VirtAddr \<Rightarrow> VirtAddr \<Rightarrow> MemorySet \<times> MM \<Rightarrow> (MemorySet \<times> MM) res option" where
  "map_heap current_addr aim_addr x =
     (if va_raw current_addr \<ge> va_raw aim_addr then Some (Inr x)
      else
        case map_heap_page current_addr x of
          Inl e \<Rightarrow> Some (Inl e)
        | Inr (next, x') \<Rightarrow> map_heap next aim_addr x')"

definition page_align_up :: "usize \<Rightarrow> usize" where
  "page_align_up a = (a + PAGE_SIZE - 1) AND NOT (PAGE_SIZE - 1)"

text \<open>\<^verbatim>\<open>sys_brk\<close> on the fields of the task it uses.\<close>

record BrkState =
  brk_memory_set :: MemorySet
  brk_heap_base :: VirtAddr
  brk_heap_end :: VirtAddr

definition sys_brk :: "usize \<Rightarrow> BrkState \<times> MM \<Rightarrow> (usize \<times> BrkState \<times> MM) res option" where
  "sys_brk addr = (\<lambda>(b, s).
     if addr = 0 then Some (Inr (va_raw (brk_heap_end b), b, s))
     else if addr < va_raw (brk_heap_base b) then Some (Inr (EINVAL, b, s))
     else
       let align_addr = page_align_up addr;
           align_end = page_align_up (va_raw (brk_heap_end b))
       in
         if align_end \<ge> addr then
           Some (bindR (VirtAddr_from_usize addr) (\<lambda>e.
             Inr (align_addr, b\<lparr> brk_heap_end := e \<rparr>, s)))
         else
           (case VirtAddr_from_usize align_addr of
              Inl e \<Rightarrow> Some (Inl e)
            | Inr aim \<Rightarrow>
                map_option (\<lambda>r. bindR r (\<lambda>(ms, s').
                    Inr (addr, b\<lparr> brk_memory_set := ms, brk_heap_end := aim \<rparr>, s')))
                  (map_heap (brk_heap_end b) aim (brk_memory_set b, s))))"

section \<open>Memory mappings\<close>

definition MAP_FIXED :: u32 where "MAP_FIXED = 0x10"
definition MAP_ANONYMOUS :: u32 where "MAP_ANONYMOUS = 0x20"

text \<open>The bits that \<^verbatim>\<open>bitflags\<close> declares for \<^verbatim>\<open>Flags\<close>; \<^verbatim>\<open>from_bits\<close> refuses others.\<close>

definition MAP_ALL :: u32 where
  "MAP_ALL = 0x01 OR 0x02 OR 0x10 OR 0x20 OR 0x0100 OR 0x0800 OR 0x1000 OR 0x2000 OR 0x4000 OR
     0x8000 OR 0x10000 OR 0x20000 OR 0x40000 OR 0x80000 OR 0x100000 OR 0x4000000"

definition Flags_from_bits :: "u32 \<Rightarrow> u32 option" where
  "Flags_from_bits b = (if b AND NOT MAP_ALL = 0 then Some b else None)"

definition flags_contains :: "u32 \<Rightarrow> u32 \<Rightarrow> bool" where
  "flags_contains flags f = (flags AND f = f)"

definition mmap_page :: "VirtPageNum \<Rightarrow> MemorySet \<times> MM \<Rightarrow> (MemorySet \<times> MM) res" where
  "mmap_page vpn = (\<lambda>(ms, s).
     bindR (frame_alloc s) (\<lambda>(f, s1).
       bindR (unwrapR f) (\<lambda>frame.
         let (old, area) = bt_insert vpn frame (ms_mmap_area ms) in
         bindR (drop_frame_opt old s1) (\<lambda>s2.
           bindR (PageTable_map vpn (ft_ppn frame) FLAGS_RWUX (ms_page_table ms, s2)) (\<lambda>(pt, s3).
             Inr (ms\<lparr> ms_page_table := pt, ms_mmap_area := area \<rparr>, s3))))))"

definition mmap_page_fixed :: "VirtPageNum \<Rightarrow> MemorySet \<times> MM \<Rightarrow> (MemorySet \<times> MM) res" where
  "mmap_page_fixed vpn x =
     (case bt_get vpn (ms_mmap_area (fst x)) of Some _ \<Rightarrow> Inr x | None \<Rightarrow> mmap_page vpn x)"

text \<open>The loop that copies the file's bytes into the mapping; \<^verbatim>\<open>context[a..b]\<close> panics
  unless \<^verbatim>\<open>a <= b <= context.len()\<close>.\<close>

definition slice_of :: "u8 list \<Rightarrow> nat \<Rightarrow> nat \<Rightarrow> u8 list res" where
  "slice_of xs a b =
     (if a \<le> b \<and> b \<le> length xs then Inr (take (b - a) (drop a xs)) else Inl Index_out_of_bounds)"

function mmap_copy ::
  "u8 list \<Rightarrow> nat \<Rightarrow> nat \<Rightarrow> VirtPageNum \<Rightarrow> PageTable \<Rightarrow> kmem \<Rightarrow> kmem res" where
  "mmap_copy context len start vpn pt m =
     bindR (slice_of context start (min len (start + 4096))) (\<lambda>src.
       bindR (copy_piece src 0 vpn pt m) (\<lambda>m'.
         if start + 4096 \<ge> len then Inr m'
         else mmap_copy context len (start + 4096) (VirtPageNum_step vpn) pt m'))"
  by pat_completeness auto
termination by (relation "measure (\<lambda>(_, len, start, _). len - start)") auto

declare mmap_copy.simps [simp del]

definition MemorySet_mmap ::
  "usize \<Rightarrow> usize \<Rightarrow> usize \<Rightarrow> u8 list \<Rightarrow> u32 \<Rightarrow> MemorySet \<times> MM \<Rightarrow> (usize \<times> MemorySet \<times> MM) res" where
  "MemorySet_mmap start_addr len offset context flags = (\<lambda>(ms, s).
     let fixed = (flags_contains flags MAP_FIXED \<and> start_addr \<noteq> 0);
         base = (if fixed then start_addr else va_raw (ms_mmap_end ms));
         start_addr_align = page_align_up base;
         end_addr_align = page_align_up (base + len)
     in
       bindR (VirtAddr_from_usize (end_addr_align + PAGE_SIZE)) (\<lambda>mmap_end.
       bindR (VirtAddr_from_usize start_addr_align) (\<lambda>sa.
       bindR (VirtAddr_from_usize end_addr_align) (\<lambda>ea.
       bindR (VPNRange_new (VirtAddr_floor sa) (VirtAddr_floor ea)) (\<lambda>vpn_range.
       bindR (foldR (if fixed then mmap_page_fixed else mmap_page) (VPNRange_vpns vpn_range)
           (ms\<lparr> ms_mmap_end := mmap_end \<rparr>, s)) (\<lambda>(ms1, s1).
       bindR (if flags_contains flags MAP_ANONYMOUS then Inr (mm_mem s1)
              else mmap_copy context (unat len) (unat offset) (range_l vpn_range)
                (ms_page_table ms1) (mm_mem s1)) (\<lambda>m.
         Inr (start_addr_align, ms1, s1\<lparr> mm_mem := m \<rparr>))))))))"

definition munmap_page :: "VirtPageNum \<Rightarrow> MemorySet \<times> MM \<Rightarrow> (MemorySet \<times> MM) res" where
  "munmap_page vpn = (\<lambda>(ms, s).
     let (old, area) = bt_remove vpn (ms_mmap_area ms) in
     bindR (drop_frame_opt old s) (\<lambda>s'. Inr (ms\<lparr> ms_mmap_area := area \<rparr>, s')))"

definition MemorySet_munmap ::
  "usize \<Rightarrow> usize \<Rightarrow> MemorySet \<times> MM \<Rightarrow> (usize \<times> MemorySet \<times> MM) res" where
  "MemorySet_munmap start_addr len x =
     bindR (VirtAddr_from_usize (page_align_up start_addr)) (\<lambda>sa.
     bindR (VirtAddr_from_usize (page_align_up (start_addr + len))) (\<lambda>ea.
     bindR (VPNRange_new (VirtAddr_floor sa) (VirtAddr_floor ea)) (\<lambda>vpn_range.
     bindR (foldR munmap_page (VPNRange_vpns vpn_range) x) (\<lambda>(ms, s).
       Inr (SUCCESS, ms, s)))))"

text \<open>\<^verbatim>\<open>mmap\<close> of the task: the file's contents are a parameter, \<^verbatim>\<open>None\<close> when the descriptor
  is not an open file that can be read as an inode.\<close>

definition task_mmap ::
  "usize \<Rightarrow> usize \<Rightarrow> u32 \<Rightarrow> u8 list option \<Rightarrow> usize \<Rightarrow> MemorySet \<times> MM \<Rightarrow> (usize \<times> MemorySet \<times> MM) res" where
  "task_mmap start_addr len flags file offset = (\<lambda>(ms, s).
     bindR (unwrapR (Flags_from_bits flags)) (\<lambda>fl.
     bindR (unwrapR file) (\<lambda>contents.
       if flags_contains fl MAP_ANONYMOUS then MemorySet_mmap start_addr len offset [] fl (ms, s)
       else
         let file_len = of_nat (length contents) in
         if file_len \<le> offset then Inr (EPERM, ms, s)
         else MemorySet_mmap start_addr (min len (file_len - offset)) offset contents fl (ms, s))))"

definition sys_mmap ::
  "usize \<Rightarrow> usize \<Rightarrow> u32 \<Rightarrow> u8 list option \<Rightarrow> usize \<Rightarrow> MemorySet \<times> MM \<Rightarrow> (usize \<times> MemorySet \<times> MM) res" where
  "sys_mmap start len flags file off x =
     (if start = - 1 \<or> len = 0 then Inr (EINVAL, x) else task_mmap start len flags file off x)"

section \<open>Copies of an address space\<close>

definition copy_page :: "PhysPageNum \<Rightarrow> PhysPageNum \<Rightarrow> kmem \<Rightarrow> kmem" where
  "copy_page dst src m = m(ppn_kernel_addr dst := m (ppn_kernel_addr src))"

definition fork_page :: "MemorySet \<Rightarrow> PageTable \<Rightarrow> VirtPageNum \<Rightarrow> MM \<Rightarrow> MM res" where
  "fork_page user_space pt vpn s =
     bindR (MemorySet_translate vpn user_space (mm_mem s)) (\<lambda>t.
     bindR (unwrapR t) (\<lambda>src_pte.
     bindR (pte_ppn src_pte) (\<lambda>src.
     bindR (PageTable_translate vpn pt (mm_mem s)) (\<lambda>t'.
     bindR (unwrapR t') (\<lambda>dst_pte.
     bindR (pte_ppn dst_pte) (\<lambda>dst.
       Inr (s\<lparr> mm_mem := copy_page dst src (mm_mem s) \<rparr>)))))))"

definition fork_area :: "MemorySet \<Rightarrow> MapArea \<Rightarrow> MemorySet \<times> MM \<Rightarrow> (MemorySet \<times> MM) res" where
  "fork_area user_space area x =
     (if vpn_raw (range_l (ma_vpn_range area)) > KERNEL_SPACE_OFFSET then Inr x
      else
        bindR (MapArea_from_another area) (\<lambda>new_area.
        bindR (push new_area None x) (\<lambda>(ms, s).
        bindR (foldR (fork_page user_space (ms_page_table ms)) (VPNRange_vpns (ma_vpn_range area)) s) (\<lambda>s'.
          Inr (ms, s')))))"

definition fork_frame ::
  "VirtPageNum \<times> FrameTracker \<Rightarrow> (VirtPageNum, FrameTracker) btree \<times> PageTable \<times> MM \<Rightarrow>
     ((VirtPageNum, FrameTracker) btree \<times> PageTable \<times> MM) res" where
  "fork_frame entry = (\<lambda>(tree, pt, s).
     bindR (frame_alloc s) (\<lambda>(f, s1).
     bindR (unwrapR f) (\<lambda>dst_frame.
     bindR (PageTable_map (fst entry) (ft_ppn dst_frame) FLAGS_URW (pt, s1)) (\<lambda>(pt', s2).
       let (old, tree') = bt_insert (fst entry) dst_frame tree in
       bindR (drop_frame_opt old s2) (\<lambda>s3.
         Inr (tree', pt',
           s3\<lparr> mm_mem := copy_page (ft_ppn dst_frame) (ft_ppn (snd entry)) (mm_mem s3) \<rparr>))))))"

definition from_existed_user :: "PageTable \<Rightarrow> MemorySet \<Rightarrow> MM \<Rightarrow> (MemorySet \<times> MM) res" where
  "from_existed_user kernel_pt user_space s =
     bindR (MemorySet_new_process kernel_pt s) (\<lambda>(ms0, s0).
     bindR (foldR (fork_area user_space) (ms_areas user_space)
         (ms0\<lparr> ms_mmap_end := ms_mmap_end user_space \<rparr>, s0)) (\<lambda>(ms1, s1).
     bindR (foldR fork_frame (ms_heap_area user_space)
         (ms_heap_area ms1, ms_page_table ms1, s1)) (\<lambda>(heap, pt2, s2).
     bindR (foldR fork_frame (ms_mmap_area user_space)
         (ms_mmap_area ms1, pt2, s2)) (\<lambda>(mmaps, pt3, s3).
       Inr (ms1\<lparr> ms_page_table := pt3, ms_heap_area := heap, ms_mmap_area := mmaps \<rparr>, s3)))))"

definition write_to_user_ptr :: "usize \<Rightarrow> usize \<Rightarrow> MemorySet \<times> MM \<Rightarrow> (usize \<times> MemorySet \<times> MM) res" where
  "write_to_user_ptr token ptr = (\<lambda>(ms, s).
     bindR (PageTable_from_token token) (\<lambda>user_pt.
     bindR (VirtAddr_from_usize ptr) (\<lambda>va.
     bindR (PageTable_translate_va va user_pt (mm_mem s)) (\<lambda>t.
     bindR (unwrapR t) (\<lambda>pa.
     bindR (PageTable_map_allow_cover (VirtAddr_floor va) (PhysAddr_floor pa) (PTE_R OR PTE_W)
         (ms_page_table ms, s)) (\<lambda>(pt, s').
       if va_raw va = 0 then Inl Unwrap_none
       else Inr (va_raw va, ms\<lparr> ms_page_table := pt \<rparr>, s')))))))"

section \<open>Writing to pages that are no tables\<close>

lemma nontable_table_at:
  assumes wf: "pt_wf b m root" and g: "\<And>Q. table_path Q \<Longrightarrow> table_at m root Q \<noteq> Some g"
    "unat (ppn_raw g) < 2 ^ 44" and Q: "table_path Q"
  shows "table_at (m(ppn_kernel_addr g := h)) root Q = table_at m root Q"
  using Q
proof (induction Q rule: rev_induct)
  case (snoc r R)
  have R: "table_path R" using snoc.prems by (rule table_path_snocD)
  note IH = snoc.IH [OF R]
  show ?case
  proof (cases "table_at m root R")
    case None
    then show ?thesis by (simp only: table_at_snoc IH Option.bind_lzero)
  next
    case (Some q)
    have "q \<noteq> g" using g(1) [OF R] Some by auto
    then have "ppn_kernel_addr q \<noteq> ppn_kernel_addr g"
      using pt_wf_separate [OF wf R Some g(2)] by blast
    then have "table_step (m(ppn_kernel_addr g := h)) q r = table_step m q r"
      by (simp add: table_step_def pte_read_def pte_array_def)
    then show ?thesis
      by (simp only: table_at_snoc IH Some Option.bind_lunit)
  qed
qed simp

lemma nontable_write:
  assumes inv: "pt_inv l pt s" and g: "g \<notin> pt_tables pt s" "unat (ppn_raw g) < 2 ^ 44"
    and s'_def: "s' = s\<lparr> mm_mem := (mm_mem s)(ppn_kernel_addr g := h) \<rparr>"
  shows "pt_inv l pt s'" "pt_view (pt, s') = pt_view (pt, s)" "pt_tables pt s' = pt_tables pt s"
proof -
  have wf: "pt_wf (mm_current s) (mm_mem s) (pt_root_ppn pt)" using inv by (simp add: pt_inv_def)
  have g': "table_at (mm_mem s) (pt_root_ppn pt) Q \<noteq> Some g" if "table_path Q" for Q
    using g(1) that by (auto simp: pt_tables_def)
  have at: "table_at (mm_mem s') (pt_root_ppn pt) Q = table_at (mm_mem s) (pt_root_ppn pt) Q"
    if "table_path Q" for Q
    using nontable_table_at [OF wf g' g(2) that] by (simp add: s'_def)
  show "pt_tables pt s' = pt_tables pt s" using at by (auto simp: pt_tables_def)
  have "pt_wf (mm_current s) (mm_mem s') (pt_root_ppn pt)"
    using wf unfolding pt_wf_def by (simp add: at cong: conj_cong imp_cong)
  then show "pt_inv l pt s'" using inv by (simp add: pt_inv_def s'_def mm_current_def mm_inv_def)
  show "pt_view (pt, s') = pt_view (pt, s)"
  proof
    fix v
    obtain R x where R: "indexes v = R @ [x]" "table_path R" "length R = 2" by (rule indexes_snoc)
    show "pt_view (pt, s') v = pt_view (pt, s) v"
    proof (cases "table_at (mm_mem s) (pt_root_ppn pt) R")
      case (Some q)
      have "q \<noteq> g" using g' [OF R(2)] Some by auto
      then have "ppn_kernel_addr q \<noteq> ppn_kernel_addr g"
        using pt_wf_separate [OF wf R(2) Some g(2)] by blast
      then have "pte_read (mm_mem s') (q, x) = pte_read (mm_mem s) (q, x)"
        by (simp add: s'_def pte_read_def pte_array_def)
      then show ?thesis using at [OF R(2)] Some by (simp add: pt_view_def leaf_view_def R(1))
    qed (use at [OF R(2)] in \<open>simp add: pt_view_def leaf_view_def R(1)\<close>)
  qed
qed

lemma page_copy_spec:
  shows "\<exists>h. page_copy p off bs m = m(ppn_kernel_addr p := h)"
    and "bytes_array (page_copy p off bs m) p j =
      (if off \<le> j \<and> j < off + length bs then bs ! (j - off) else bytes_array m p j)"
proof -
  have gen: "(\<exists>h. fold (\<lambda>(i, b). bytes_array_write p (off + i) b) (enumerate k bs) m = m(ppn_kernel_addr p := h)) \<and>
    bytes_array (fold (\<lambda>(i, b). bytes_array_write p (off + i) b) (enumerate k bs) m) p j =
      (if off + k \<le> j \<and> j < off + k + length bs then bs ! (j - off - k) else bytes_array m p j)" for k
  proof (induction bs arbitrary: k m)
    case Nil
    show ?case by (intro conjI exI [of _ "m (ppn_kernel_addr p)"]) auto
  next
    case (Cons b bs)
    obtain h where h: "bytes_array_write p (off + k) b m = m(ppn_kernel_addr p := h)"
      by (simp add: bytes_array_write_def pte_array_write_def)
    obtain h' where h': "fold (\<lambda>(i, b). bytes_array_write p (off + i) b) (enumerate (Suc k) bs)
        (bytes_array_write p (off + k) b m) = (bytes_array_write p (off + k) b m)(ppn_kernel_addr p := h')"
      using Cons.IH by blast
    have "fold (\<lambda>(i, b). bytes_array_write p (off + i) b) (enumerate k (b # bs)) m = m(ppn_kernel_addr p := h')"
      using h h' by simp
    moreover have "j - off - k = Suc (j - off - Suc k)" if "off + Suc k \<le> j" using that by simp
    ultimately show ?case
      using Cons.IH [of "Suc k" "bytes_array_write p (off + k) b m"] by (auto simp: le_Suc_eq)
  qed
  show "\<exists>h. page_copy p off bs m = m(ppn_kernel_addr p := h)"
    and "bytes_array (page_copy p off bs m) p j =
      (if off \<le> j \<and> j < off + length bs then bs ! (j - off) else bytes_array m p j)"
    using gen [of 0] by (simp_all add: page_copy_def)
qed

lemma page_copy_other:
  "ppn_kernel_addr q \<noteq> ppn_kernel_addr p \<Longrightarrow> bytes_array (page_copy p off bs m) q j = bytes_array m q j"
  using page_copy_spec(1) [of p off bs m] by (auto simp: bytes_array_def)

section \<open>Mapping an area\<close>

lemma map_one_Framed:
  assumes "ma_map_type area = Framed" "bt_get v (ma_data_frames area) = None"
  shows "map_one v (area, pt, s) = Inr (area', pt', s') \<longleftrightarrow>
    (\<exists>f s1. frame_alloc s = Inr (Some f, s1) \<and> PageTable_map v (ft_ppn f) (ma_map_perm area) (pt, s1) = Inr (pt', s') \<and>
       area' = area\<lparr> ma_data_frames := bt_put v f (ma_data_frames area) \<rparr>)"
  using assms
  by (auto simp: map_one_def bt_insert_def drop_frame_opt_def outcome split: prod.splits)

lemma map_one_Framed_spec:
  assumes inv: "pt_inv l pt s" and v: "legal_vpn v"
    and area: "ma_map_type area = Framed" "bt_get v (ma_data_frames area) = None"
    and ok: "map_one v (area, pt, s) = Inr (area', pt', s')"
  shows "\<exists>f. area' = area\<lparr> ma_data_frames := bt_put v f (ma_data_frames area) \<rparr> \<and>
    pt_inv l pt' s' \<and> pt_frame (pt, s) (pt', s') \<and> pt_view (pt, s) v = None \<and>
    pt_view (pt', s') = (pt_view (pt, s))(v \<mapsto> map_entry (ft_ppn f) (ma_map_perm area)) \<and>
    unat (ppn_raw (ft_ppn f)) = mm_current s \<and> mm_current s < mm_current s' \<and>
    ft_ppn f \<notin> pt_tables pt' s' \<and> mm_mem s' (ppn_kernel_addr (ft_ppn f)) = (\<lambda>_. 0) \<and>
    mm_left s \<le> mm_left s' + 3"
proof -
  obtain f s1 where al: "frame_alloc s = Inr (Some f, s1)"
    and mp: "PageTable_map v (ft_ppn f) (ma_map_perm area) (pt, s1) = Inr (pt', s')"
    and area': "area' = area\<lparr> ma_data_frames := bt_put v f (ma_data_frames area) \<rparr>"
    using ok map_one_Framed [OF area] by auto
  have mi: "mm_inv l s" using inv by (simp add: pt_inv_def)
  note fa = frame_alloc_Inr [OF mi al] and fp = frame_alloc_pt [OF inv al]
  note ms = PageTable_map_spec [OF fp(1) v mp]
  have f1: "unat (ppn_raw (ft_ppn f)) < mm_current s1" using fa(1,2) by simp
  have "ft_ppn f \<notin> pt_tables pt' s'" "mm_mem s' (ppn_kernel_addr (ft_ppn f)) = mm_mem s1 (ppn_kernel_addr (ft_ppn f))"
    using ms(2) fp(3) f1 by (auto simp: pt_frame_def)
  moreover have "mm_current s1 \<le> mm_current s'" using ms(2) by (simp add: pt_frame_def)
  ultimately show ?thesis
    using area' ms(1,3,4,5) pt_frame_trans [OF fp(2) ms(2)] fa(1,2,3,7) pt_view_frame_alloc [OF inv al]
    by auto
qed

lemma map_one_Framed_total:
  assumes inv: "pt_inv l pt s" and v: "legal_vpn v" "pt_view (pt, s) v = None"
    and area: "ma_map_type area = Framed" "bt_get v (ma_data_frames area) = None" and left: "3 \<le> mm_left s"
  shows "\<exists>y. map_one v (area, pt, s) = Inr y"
proof -
  have mi: "mm_inv l s" using inv by (simp add: pt_inv_def)
  obtain f s1 where al: "frame_alloc s = Inr (Some f, s1)" using frame_alloc_left [OF mi] left by auto
  note fp = frame_alloc_pt [OF inv al]
  have "2 \<le> mm_left s1" using frame_alloc_Inr(7) [OF mi al] left by simp
  moreover have "pt_view (pt, s1) v = None" using v(2) pt_view_frame_alloc [OF inv al] by simp
  ultimately obtain y where "PageTable_map v (ft_ppn f) (ma_map_perm area) (pt, s1) = Inr y"
    using PageTable_map_total(1) [OF fp(1) v(1), of "ft_ppn f" "ma_map_perm area"] by blast
  then have "PageTable_map v (ft_ppn f) (ma_map_perm area) (pt, s1) = Inr (fst y, snd y)" by simp
  then show ?thesis using map_one_Framed [OF area] al by blast
qed

definition area_frames_fresh :: "nat \<Rightarrow> (VirtPageNum \<times> FrameTracker) list \<Rightarrow> PageTable \<Rightarrow> MM \<Rightarrow> bool" where
  "area_frames_fresh c qs pt s \<longleftrightarrow> distinct (map snd qs) \<and>
     (\<forall>(v, f) \<in> set qs. c \<le> unat (ppn_raw (ft_ppn f)) \<and> unat (ppn_raw (ft_ppn f)) < mm_current s \<and>
        ft_ppn f \<notin> pt_tables pt s \<and> mm_mem s (ppn_kernel_addr (ft_ppn f)) = (\<lambda>_. 0))"

definition area_view :: "MapPermission \<Rightarrow> (VirtPageNum \<times> FrameTracker) list \<Rightarrow> VirtPageNum \<Rightarrow> PageTableEntry option" where
  "area_view perm qs = map_of (map (\<lambda>(v, f). (v, map_entry (ft_ppn f) perm)) qs)"

lemma map_list_Framed:
  assumes "pt_inv l pt s" "\<forall>v \<in> set vs. legal_vpn v" "distinct vs" "ma_map_type area = Framed"
    "bt_sorted (ma_data_frames area)" "\<forall>v \<in> set vs. bt_get v (ma_data_frames area) = None"
    and "foldR map_one vs (area, pt, s) = Inr (area', pt', s')"
  shows "\<exists>qs. map fst qs = vs \<and> area_frames_fresh (mm_current s) qs pt' s' \<and>
    area' = area\<lparr> ma_data_frames := fold (\<lambda>(v, f). bt_put v f) qs (ma_data_frames area) \<rparr> \<and>
    pt_inv l pt' s' \<and> pt_frame (pt, s) (pt', s') \<and> (\<forall>v \<in> set vs. pt_view (pt, s) v = None) \<and>
    pt_view (pt', s') = pt_view (pt, s) ++ area_view (ma_map_perm area) qs"
  using assms
proof (induction vs arbitrary: area pt s)
  case Nil
  then show ?case by (auto simp: area_frames_fresh_def area_view_def)
next
  case (Cons v vs)
  from Cons.prems(7) obtain area1 pt1 s1 where 1: "map_one v (area, pt, s) = Inr (area1, pt1, s1)"
    and 2: "foldR map_one vs (area1, pt1, s1) = Inr (area', pt', s')"
    by (auto simp: bindR_eq_Inr)
  have v: "legal_vpn v" "bt_get v (ma_data_frames area) = None" using Cons.prems by auto
  obtain f where f: "area1 = area\<lparr> ma_data_frames := bt_put v f (ma_data_frames area) \<rparr>"
    "pt_inv l pt1 s1" "pt_frame (pt, s) (pt1, s1)" "pt_view (pt, s) v = None"
    "pt_view (pt1, s1) = (pt_view (pt, s))(v \<mapsto> map_entry (ft_ppn f) (ma_map_perm area))"
    "unat (ppn_raw (ft_ppn f)) = mm_current s" "mm_current s < mm_current s1"
    "ft_ppn f \<notin> pt_tables pt1 s1" "mm_mem s1 (ppn_kernel_addr (ft_ppn f)) = (\<lambda>_. 0)"
    using map_one_Framed_spec [OF Cons.prems(1) v(1) Cons.prems(4) v(2) 1] by blast
  have a1: "ma_map_type area1 = Framed" "bt_sorted (ma_data_frames area1)" "ma_map_perm area1 = ma_map_perm area"
    "\<forall>w \<in> set vs. bt_get w (ma_data_frames area1) = None"
    using Cons.prems(3-6) f(1) by (auto simp: bt_sorted_put bt_get_put)
  obtain qs where qs: "map fst qs = vs" "area_frames_fresh (mm_current s1) qs pt' s'"
    "area' = area1\<lparr> ma_data_frames := fold (\<lambda>(v, f). bt_put v f) qs (ma_data_frames area1) \<rparr>"
    "pt_inv l pt' s'" "pt_frame (pt1, s1) (pt', s')" "\<forall>v \<in> set vs. pt_view (pt1, s1) v = None"
    "pt_view (pt', s') = pt_view (pt1, s1) ++ area_view (ma_map_perm area1) qs"
    using Cons.IH [OF f(2) _ _ a1(1,2,4) 2] Cons.prems(2,3) by auto
  have keep: "ft_ppn f \<notin> pt_tables pt' s'" "mm_mem s' (ppn_kernel_addr (ft_ppn f)) = (\<lambda>_. 0)" "mm_current s1 \<le> mm_current s'"
    using qs(5) f(6-9) by (auto simp: pt_frame_def)
  have nf: "f \<notin> set (map snd qs)" using qs(2) f(6,7) by (fastforce simp: area_frames_fresh_def)
  have c1: "area_frames_fresh (mm_current s) ((v, f) # qs) pt' s'"
    using qs(2) keep f(6,7) nf by (auto simp: area_frames_fresh_def)
  have nv: "v \<notin> set vs" using Cons.prems(3) by simp
  have "area_view (ma_map_perm area) qs v = None"
    using nv qs(1) by (force simp: area_view_def map_of_eq_None_iff)
  then have c2: "pt_view (pt', s') = pt_view (pt, s) ++ area_view (ma_map_perm area) ((v, f) # qs)"
    using qs(7) f(5) a1(3) by (auto simp: fun_eq_iff map_add_def area_view_def split: option.splits)
  have c3: "\<forall>w \<in> set (v # vs). pt_view (pt, s) w = None"
  proof
    fix w assume "w \<in> set (v # vs)"
    then show "pt_view (pt, s) w = None"
      using qs(6) f(4,5) by (cases "w = v") auto
  qed
  have c4: "area' = area\<lparr> ma_data_frames := fold (\<lambda>(v, f). bt_put v f) ((v, f) # qs) (ma_data_frames area) \<rparr>"
    using qs(3) f(1) by simp
  show ?case
    using qs(1,4) c1 c2 c3 c4 pt_frame_trans [OF f(3) qs(5)]
    by (intro exI [of _ "(v, f) # qs"]) simp
qed

lemma map_list_Framed_total:
  assumes "pt_inv l pt s" "\<forall>v \<in> set vs. legal_vpn v" "distinct vs" "ma_map_type area = Framed"
    "bt_sorted (ma_data_frames area)" "\<forall>v \<in> set vs. bt_get v (ma_data_frames area) = None"
    and "\<forall>v \<in> set vs. pt_view (pt, s) v = None" "3 * length vs \<le> mm_left s"
  shows "\<exists>area' pt' s'. foldR map_one vs (area, pt, s) = Inr (area', pt', s')"
  using assms
proof (induction vs arbitrary: area pt s)
  case (Cons v vs)
  have v: "legal_vpn v" "bt_get v (ma_data_frames area) = None" "pt_view (pt, s) v = None" "3 \<le> mm_left s"
    using Cons.prems by auto
  obtain area1 pt1 s1 where 1: "map_one v (area, pt, s) = Inr (area1, pt1, s1)"
    using map_one_Framed_total [OF Cons.prems(1) v(1,3) Cons.prems(4) v(2,4)] by auto
  obtain f where f: "area1 = area\<lparr> ma_data_frames := bt_put v f (ma_data_frames area) \<rparr>"
    "pt_inv l pt1 s1" "pt_view (pt1, s1) = (pt_view (pt, s))(v \<mapsto> map_entry (ft_ppn f) (ma_map_perm area))"
    "mm_left s \<le> mm_left s1 + 3"
    using map_one_Framed_spec [OF Cons.prems(1) v(1) Cons.prems(4) v(2) 1] by blast
  have free: "pt_view (pt1, s1) w = None" if "w \<in> set vs" for w
    using that Cons.prems(3,7) f(3) by auto
  have "\<exists>area' pt' s'. foldR map_one vs (area1, pt1, s1) = Inr (area', pt', s')"
  proof (rule Cons.IH)
    show "\<forall>w \<in> set vs. pt_view (pt1, s1) w = None" using free by blast
  qed (use Cons.prems f(1,2,4) in \<open>auto simp: bt_sorted_put bt_get_put\<close>)
  then show ?case using 1 by simp
qed simp

section \<open>Copying data into an area\<close>

definition copy_target ::
  "PageTable \<Rightarrow> MM \<Rightarrow> usize \<Rightarrow> nat \<Rightarrow> (nat \<Rightarrow> PageTableEntry) \<Rightarrow> bool" where
  "copy_target pt s a n e \<longleftrightarrow>
     (\<forall>i < n. pt_view (pt, s) (VirtPageNum (a + of_nat i)) = Some (e i) \<and> pte_target (e i) \<notin> pt_tables pt s) \<and>
     inj_on (\<lambda>i. pte_target (e i)) {..<n}"

lemma copy_target_separate:
  "\<lbrakk> copy_target pt s a n e; i < n; j < n; i \<noteq> j \<rbrakk> \<Longrightarrow>
     ppn_kernel_addr (pte_target (e i)) \<noteq> ppn_kernel_addr (pte_target (e j))"
proof
  assume a: "copy_target pt s a n e" "i < n" "j < n" "i \<noteq> j"
    and "ppn_kernel_addr (pte_target (e i)) = ppn_kernel_addr (pte_target (e j))"
  then have "pte_target (e i) = pte_target (e j)"
    using pte_target_small [of "e i"] pte_target_small [of "e j"] by (intro ppn_kernel_addr_inj) simp_all
  then show False
    using a by (auto simp: copy_target_def inj_on_def)
qed

lemma copy_target_Suc:
  assumes "copy_target pt s a n e"
  shows "copy_target pt s (a + 1) (n - 1) (e \<circ> Suc)"
proof -
  have "pt_view (pt, s) (VirtPageNum (a + 1 + of_nat i)) = Some (e (Suc i)) \<and>
      pte_target (e (Suc i)) \<notin> pt_tables pt s" if "i < n - 1" for i
  proof -
    have "Suc i < n" using that by simp
    then have "pt_view (pt, s) (VirtPageNum (a + of_nat (Suc i))) = Some (e (Suc i)) \<and>
        pte_target (e (Suc i)) \<notin> pt_tables pt s"
      using assms unfolding copy_target_def by blast
    then show ?thesis by (simp add: add.assoc)
  qed
  moreover have "inj_on (\<lambda>i. pte_target (e (Suc i))) {..<n - 1}"
  proof (rule inj_onI)
    fix x y assume "x \<in> {..<n - 1}" "y \<in> {..<n - 1}" "pte_target (e (Suc x)) = pte_target (e (Suc y))"
    then have "Suc x = Suc y"
      using assms by (intro inj_onD [of "\<lambda>i. pte_target (e i)" "{..<n}"]) (auto simp: copy_target_def)
    then show "x = y" by simp
  qed
  ultimately show ?thesis by (simp add: copy_target_def)
qed

lemma copy_piece_step:
  assumes inv: "pt_inv l pt s" and ct: "copy_target pt s a n e" "0 < n" and fit: "off + length src \<le> 4096"
  defines "s1 \<equiv> s\<lparr> mm_mem := page_copy (pte_target (e 0)) off src (mm_mem s) \<rparr>"
  shows "copy_piece src off (VirtPageNum a) pt (mm_mem s) = Inr (mm_mem s1)"
    "pt_inv l pt s1" "pt_view (pt, s1) = pt_view (pt, s)" "pt_tables pt s1 = pt_tables pt s"
    "copy_target pt s1 a n e"
    "ppn_kernel_addr g \<noteq> ppn_kernel_addr (pte_target (e 0)) \<Longrightarrow>
       mm_mem s1 (ppn_kernel_addr g) = mm_mem s (ppn_kernel_addr g)"
proof -
  have e0: "pt_view (pt, s) (VirtPageNum a) = Some (e 0)" "pte_target (e 0) \<notin> pt_tables pt s"
    using ct by (auto simp: copy_target_def dest: spec [of _ 0])
  show "copy_piece src off (VirtPageNum a) pt (mm_mem s) = Inr (mm_mem s1)"
    using pt_view_Some_translate [OF e0(1)] fit by (simp add: copy_piece_def s1_def)
  obtain h where h: "page_copy (pte_target (e 0)) off src (mm_mem s) =
      (mm_mem s)(ppn_kernel_addr (pte_target (e 0)) := h)"
    using page_copy_spec(1) by blast
  have s1: "s1 = s\<lparr> mm_mem := (mm_mem s)(ppn_kernel_addr (pte_target (e 0)) := h) \<rparr>"
    by (simp add: s1_def h)
  note nw = nontable_write [OF inv e0(2) pte_target_small s1]
  show "pt_inv l pt s1" "pt_view (pt, s1) = pt_view (pt, s)" "pt_tables pt s1 = pt_tables pt s"
    by (rule nw)+
  then show "copy_target pt s1 a n e" using ct(1) by (simp add: copy_target_def)
  show "ppn_kernel_addr g \<noteq> ppn_kernel_addr (pte_target (e 0)) \<Longrightarrow>
      mm_mem s1 (ppn_kernel_addr g) = mm_mem s (ppn_kernel_addr g)"
    by (simp add: s1)
qed

text \<open>One round of the loop, and what it leaves for the next.\<close>

lemma copy_round:
  assumes inv: "pt_inv l pt s" and ct: "copy_target pt s a n e" "0 < n" and st: "start \<le> length data" "off < 4096"
  shows "\<exists>s1. copy_data_loop data start off (VirtPageNum a) pt (mm_mem s) =
      (if start + (4096 - off) \<ge> length data then Inr (mm_mem s1)
       else copy_data_loop data (start + (4096 - off)) 0 (VirtPageNum (a + 1)) pt (mm_mem s1)) \<and>
    s1 = s\<lparr> mm_mem := mm_mem s1 \<rparr> \<and> pt_inv l pt s1 \<and> pt_view (pt, s1) = pt_view (pt, s) \<and>
    copy_target pt s1 (a + 1) (n - 1) (e \<circ> Suc) \<and>
    (\<forall>i < n. \<forall>j. bytes_array (mm_mem s1) (pte_target (e i)) j =
      (if i = 0 \<and> off \<le> j \<and> j < off + min (length data - start) (4096 - off) then data ! (start + j - off)
       else bytes_array (mm_mem s) (pte_target (e i)) j)) \<and>
    (\<forall>g. ppn_kernel_addr g \<noteq> ppn_kernel_addr (pte_target (e 0)) \<longrightarrow>
       mm_mem s1 (ppn_kernel_addr g) = mm_mem s (ppn_kernel_addr g))"
proof -
  define c where "c = min (length data - start) (4096 - off)"
  define src where "src = take (min (length data) (start + (4096 - off)) - start) (drop start data)"
  have c: "min (length data) (start + (4096 - off)) - start = c" "length src = c" "off + c \<le> 4096"
    using st by (auto simp: c_def src_def)
  have nth_src: "src ! k = data ! (start + k)" if "k < c" for k
    using that c(1,2) st(1) by (simp add: src_def)
  define s1 where "s1 = s\<lparr> mm_mem := page_copy (pte_target (e 0)) off src (mm_mem s) \<rparr>"
  have fit: "off + length src \<le> 4096" using c by simp
  note cp = copy_piece_step [OF inv ct fit, folded s1_def]
  have "bytes_array (mm_mem s1) (pte_target (e i)) j =
      (if i = 0 \<and> off \<le> j \<and> j < off + c then data ! (start + j - off)
       else bytes_array (mm_mem s) (pte_target (e i)) j)" if "i < n" for i j
  proof (cases "i = 0")
    case True
    have "src ! (j - off) = data ! (start + j - off)" if "off \<le> j" "j < off + c"
      using nth_src [of "j - off"] that by simp
    then show ?thesis
      using True c(2) by (simp add: s1_def page_copy_spec(2))
  next
    case False
    have "ppn_kernel_addr (pte_target (e i)) \<noteq> ppn_kernel_addr (pte_target (e 0))"
      using copy_target_separate [OF ct(1) that ct(2) False] .
    then show ?thesis using False by (simp add: s1_def page_copy_other)
  qed
  moreover have "copy_data_loop data start off (VirtPageNum a) pt (mm_mem s) =
      (if start + (4096 - off) \<ge> length data then Inr (mm_mem s1)
       else copy_data_loop data (start + (4096 - off)) 0 (VirtPageNum (a + 1)) pt (mm_mem s1))"
    using cp(1) by (subst copy_data_loop.simps) (simp add: src_def [symmetric] VirtPageNum_step_def Let_def)
  ultimately show ?thesis
    using cp(2,3,6) copy_target_Suc [OF cp(5)] unfolding c_def
    by (intro exI [of _ s1]) (auto simp: s1_def)
qed

definition copied ::
  "u8 list \<Rightarrow> nat \<Rightarrow> nat \<Rightarrow> nat \<Rightarrow> (nat \<Rightarrow> PageTableEntry) \<Rightarrow> kmem \<Rightarrow> kmem \<Rightarrow> bool" where
  "copied data start off n e m m' \<longleftrightarrow>
     (\<forall>i < n. \<forall>j < 4096. bytes_array m' (pte_target (e i)) j =
        (if off \<le> i * 4096 + j \<and> i * 4096 + j < off + (length data - start)
         then data ! (start + (i * 4096 + j) - off) else bytes_array m (pte_target (e i)) j)) \<and>
     (\<forall>g. (\<forall>i < n. ppn_kernel_addr g \<noteq> ppn_kernel_addr (pte_target (e i))) \<longrightarrow>
        m' (ppn_kernel_addr g) = m (ppn_kernel_addr g))"

lemma copied_more:
  assumes first: "\<forall>i < n. \<forall>j. bytes_array m1 (pte_target (e i)) j =
      (if i = 0 \<and> off \<le> j \<and> j < 4096 then data ! (start + j - off) else bytes_array m (pte_target (e i)) j)"
    "\<forall>g. ppn_kernel_addr g \<noteq> ppn_kernel_addr (pte_target (e 0)) \<longrightarrow> m1 (ppn_kernel_addr g) = m (ppn_kernel_addr g)"
    and rest: "copied data (start + (4096 - off)) 0 (n - 1) (e \<circ> Suc) m1 m2"
    and sep: "\<And>i. i < n - 1 \<Longrightarrow> ppn_kernel_addr (pte_target (e 0)) \<noteq> ppn_kernel_addr (pte_target (e (Suc i)))"
    and n: "1 < n" "off < 4096" "start + (4096 - off) < length data"
  shows "copied data start off n e m m2"
  unfolding copied_def
proof (intro conjI allI impI)
  let ?st = "start + (4096 - off)" and ?len = "length data"
  have fr: "m2 (ppn_kernel_addr g) = m1 (ppn_kernel_addr g)"
    if "\<forall>i < n - 1. ppn_kernel_addr g \<noteq> ppn_kernel_addr (pte_target (e (Suc i)))" for g
    using rest that by (simp add: copied_def)
  fix i j assume ij: "i < n" "j < (4096 :: nat)"
  show "bytes_array m2 (pte_target (e i)) j =
      (if off \<le> i * 4096 + j \<and> i * 4096 + j < off + (?len - start)
       then data ! (start + (i * 4096 + j) - off) else bytes_array m (pte_target (e i)) j)"
  proof (cases i)
    case 0
    have "m2 (ppn_kernel_addr (pte_target (e 0))) = m1 (ppn_kernel_addr (pte_target (e 0)))"
      using sep by (intro fr) simp
    then have "bytes_array m2 (pte_target (e 0)) j = bytes_array m1 (pte_target (e 0)) j"
      by (simp add: bytes_array_def)
    then show ?thesis
      using first(1) ij n 0 by auto
  next
    case (Suc k)
    have idx: "?st + (k * 4096 + j) - 0 = start + (Suc k * 4096 + j) - off" using n(2) by simp
    have cond: "0 \<le> k * 4096 + j \<and> k * 4096 + j < 0 + (?len - ?st) \<longleftrightarrow> Suc k * 4096 + j < off + (?len - start)"
      using n by auto
    have kn: "k < n - 1" using ij(1) Suc by simp
    have "bytes_array m2 (pte_target ((e \<circ> Suc) k)) j =
        (if 0 \<le> k * 4096 + j \<and> k * 4096 + j < 0 + (?len - ?st) then data ! (?st + (k * 4096 + j) - 0)
         else bytes_array m1 (pte_target ((e \<circ> Suc) k)) j)"
      by (rule rest [unfolded copied_def, THEN conjunct1, rule_format, OF kn ij(2)])
    moreover have "bytes_array m1 (pte_target (e (Suc k))) j = bytes_array m (pte_target (e (Suc k))) j"
      using first(1) ij(1) Suc by simp
    moreover have "off \<le> Suc k * 4096 + j" using n(2) by simp
    ultimately show ?thesis by (simp only: Suc simp_thms cond idx o_apply)
  qed
next
  fix g assume g: "\<forall>i < n. ppn_kernel_addr g \<noteq> ppn_kernel_addr (pte_target (e i))"
  have "m2 (ppn_kernel_addr g) = m1 (ppn_kernel_addr g)"
    using rest g by (simp add: copied_def)
  then show "m2 (ppn_kernel_addr g) = m (ppn_kernel_addr g)"
    using first(2) g n(1) by simp
qed

lemma copy_data_loop_spec:
  assumes "pt_inv l pt s" "copy_target pt s a n e" "0 < n" "start \<le> length data" "off < 4096"
    "off + (length data - start) \<le> n * 4096"
  shows "\<exists>s'. copy_data_loop data start off (VirtPageNum a) pt (mm_mem s) = Inr (mm_mem s') \<and>
    s' = s\<lparr> mm_mem := mm_mem s' \<rparr> \<and> pt_inv l pt s' \<and> pt_view (pt, s') = pt_view (pt, s) \<and>
    copied data start off n e (mm_mem s) (mm_mem s')"
  using assms
proof (induction "length data - start" arbitrary: start off a e n s rule: less_induct)
  case less
  obtain s1 where st: "copy_data_loop data start off (VirtPageNum a) pt (mm_mem s) =
      (if start + (4096 - off) \<ge> length data then Inr (mm_mem s1)
       else copy_data_loop data (start + (4096 - off)) 0 (VirtPageNum (a + 1)) pt (mm_mem s1))"
    "s1 = s\<lparr> mm_mem := mm_mem s1 \<rparr>" "pt_inv l pt s1" "pt_view (pt, s1) = pt_view (pt, s)"
    "copy_target pt s1 (a + 1) (n - 1) (e \<circ> Suc)"
    and byte: "\<forall>i < n. \<forall>j. bytes_array (mm_mem s1) (pte_target (e i)) j =
      (if i = 0 \<and> off \<le> j \<and> j < off + min (length data - start) (4096 - off) then data ! (start + j - off)
       else bytes_array (mm_mem s) (pte_target (e i)) j)"
    and fr: "\<forall>g. ppn_kernel_addr g \<noteq> ppn_kernel_addr (pte_target (e 0)) \<longrightarrow>
       mm_mem s1 (ppn_kernel_addr g) = mm_mem s (ppn_kernel_addr g)"
    using copy_round [OF less.prems(1-5)] by blast
  show ?case
  proof (cases "start + (4096 - off) \<ge> length data")
    case True
    have "bytes_array (mm_mem s1) (pte_target (e i)) j =
        (if off \<le> i * 4096 + j \<and> i * 4096 + j < off + (length data - start)
         then data ! (start + (i * 4096 + j) - off) else bytes_array (mm_mem s) (pte_target (e i)) j)"
      if "i < n" "j < 4096" for i j
      using byte that True less.prems(5) by (cases i) auto
    then have "copied data start off n e (mm_mem s) (mm_mem s1)"
      using fr less.prems(3) by (simp add: copied_def)
    then show ?thesis
      using True st(1-4) by (intro exI [of _ s1]) simp
  next
    case False
    have n: "1 < n" using less.prems(5,6) False by (cases "n = 1") (use less.prems(3) in auto)
    obtain s' where s': "copy_data_loop data (start + (4096 - off)) 0 (VirtPageNum (a + 1)) pt (mm_mem s1) = Inr (mm_mem s')"
      "s' = s1\<lparr> mm_mem := mm_mem s' \<rparr>" "pt_inv l pt s'" "pt_view (pt, s') = pt_view (pt, s1)"
      "copied data (start + (4096 - off)) 0 (n - 1) (e \<circ> Suc) (mm_mem s1) (mm_mem s')"
    proof -
      have "length data - (start + (4096 - off)) < length data - start" using less.prems(5) False by auto
      moreover have "0 < n - 1" "start + (4096 - off) \<le> length data" "(0 :: nat) < 4096"
        "0 + (length data - (start + (4096 - off))) \<le> (n - 1) * 4096"
        using n False less.prems(4-6) by (auto simp: diff_mult_distrib)
      ultimately show ?thesis
        using less.hyps [OF _ st(3,5)] that by blast
    qed
    have m4: "off + min (length data - start) (4096 - off) = 4096" using False less.prems(4,5) by simp
    have "copied data start off n e (mm_mem s) (mm_mem s')"
      using copy_target_separate [OF less.prems(2), of 0] False n less.prems(5)
      by (intro copied_more [OF byte [unfolded m4] fr s'(5)]) simp_all
    then show ?thesis
      using False st(1,2,4) s'(1-4) by (intro exI [of _ s']) (simp, metis MM.surjective MM.update_convs(2))
  qed
qed

section \<open>Adding an area\<close>

definition fresh_area :: "usize \<Rightarrow> usize \<Rightarrow> MapPermission \<Rightarrow> MapArea" where
  "fresh_area a b perm =
     \<lparr> ma_vpn_range = \<lparr> range_l = VirtPageNum a, range_r = VirtPageNum b \<rparr>, ma_data_frames = [],
       ma_map_type = Framed, ma_map_perm = perm \<rparr>"

lemma fresh_area_vpns:
  "VPNRange_vpns (ma_vpn_range (fresh_area a b perm)) =
     map (\<lambda>i. VirtPageNum (a + of_nat i)) [0..<unat (b - a)]"
  by (simp add: fresh_area_def VPNRange_vpns_def range_iter_eq)

lemma distinct_fresh_vpns: "distinct (VPNRange_vpns (ma_vpn_range (fresh_area a b perm)))"
  by (simp add: fresh_area_def VPNRange_vpns_def distinct_range_iter)

lemma area_view_nth:
  assumes "distinct (map fst qs)" "i < length qs"
  shows "area_view perm qs (fst (qs ! i)) = Some (map_entry (ft_ppn (snd (qs ! i))) perm)"
proof -
  have "distinct (map fst (map (\<lambda>(v, f). (v, map_entry (ft_ppn f) perm)) qs))"
    using assms(1) by (simp add: comp_def case_prod_unfold)
  moreover have "(fst (qs ! i), map_entry (ft_ppn (snd (qs ! i))) perm) \<in>
      set (map (\<lambda>(v, f). (v, map_entry (ft_ppn f) perm)) qs)"
    using assms(2) nth_mem [OF assms(2)] by (force simp: image_iff case_prod_unfold)
  ultimately show ?thesis unfolding area_view_def by (rule map_of_is_SomeI)
qed

lemma nth_zip_mem: "\<lbrakk> i < length xs; i < length ys \<rbrakk> \<Longrightarrow> (xs ! i, ys ! i) \<in> set (zip xs ys)"
  by (auto simp: in_set_zip)

lemma area_view_None: "v \<notin> set (map fst qs) \<Longrightarrow> area_view perm qs v = None"
  by (force simp: area_view_def map_of_eq_None_iff)

definition free_range :: "PageTable \<times> MM \<Rightarrow> usize \<Rightarrow> nat \<Rightarrow> bool" where
  "free_range x a n \<longleftrightarrow>
     (\<forall>i < n. legal_vpn (VirtPageNum (a + of_nat i)) \<and> pt_view x (VirtPageNum (a + of_nat i)) = None)"

lemma fresh_area_map:
  assumes inv: "pt_inv l pt s" and free: "free_range (pt, s) a n" and n: "n = unat (b - a)"
    and left: "3 * n \<le> mm_left s"
  shows "\<exists>pt' s1 fs. MapArea_map (fresh_area a b perm, pt, s) =
      Inr ((fresh_area a b perm)\<lparr> ma_data_frames := fold (\<lambda>(v, f). bt_put v f)
          (zip (VPNRange_vpns (ma_vpn_range (fresh_area a b perm))) fs) [] \<rparr>, pt', s1) \<and>
    length fs = n \<and> area_frames_fresh (mm_current s)
      (zip (VPNRange_vpns (ma_vpn_range (fresh_area a b perm))) fs) pt' s1 \<and>
    pt_inv l pt' s1 \<and> pt_frame (pt, s) (pt', s1) \<and>
    pt_view (pt', s1) = pt_view (pt, s) ++
      area_view perm (zip (VPNRange_vpns (ma_vpn_range (fresh_area a b perm))) fs)"
proof -
  let ?vs = "VPNRange_vpns (ma_vpn_range (fresh_area a b perm))"
  have vs: "length ?vs = n" "distinct ?vs"
    by (simp add: fresh_area_vpns n) (rule distinct_fresh_vpns)
  have legal: "\<forall>v \<in> set ?vs. legal_vpn v" and none: "\<forall>v \<in> set ?vs. pt_view (pt, s) v = None"
    using free by (auto simp: fresh_area_vpns free_range_def n)
  have fa: "ma_map_type (fresh_area a b perm) = Framed" "bt_sorted (ma_data_frames (fresh_area a b perm))"
    "\<forall>v \<in> set ?vs. bt_get v (ma_data_frames (fresh_area a b perm)) = None"
    by (simp_all add: fresh_area_def bt_sorted_def)
  obtain area' pt' s1 where ok: "foldR map_one ?vs (fresh_area a b perm, pt, s) = Inr (area', pt', s1)"
    using map_list_Framed_total [OF inv legal vs(2) fa none] left vs(1) by auto
  obtain qs where qs: "map fst qs = ?vs" "area_frames_fresh (mm_current s) qs pt' s1"
    "area' = (fresh_area a b perm)\<lparr> ma_data_frames := fold (\<lambda>(v, f). bt_put v f) qs (ma_data_frames (fresh_area a b perm)) \<rparr>"
    "pt_inv l pt' s1" "pt_frame (pt, s) (pt', s1)"
    "pt_view (pt', s1) = pt_view (pt, s) ++ area_view (ma_map_perm (fresh_area a b perm)) qs"
    using map_list_Framed [OF inv legal vs(2) fa ok] by blast
  have q: "qs = zip ?vs (map snd qs)" using qs(1) by (metis zip_map_fst_snd)
  have "length (map snd qs) = n" using vs(1) qs(1) by (metis length_map)
  then show ?thesis
    using ok qs(2-6) q by (intro exI [of _ pt'] exI [of _ s1] exI [of _ "map snd qs"])
      (simp add: MapArea_map_def fresh_area_def)
qed

lemma fresh_copy_target:
  assumes inv: "pt_inv l pt' s1" and fr: "area_frames_fresh c (zip vs fs) pt' s1"
    and vs: "vs = map (\<lambda>i. VirtPageNum (a + of_nat i)) [0..<n]" "distinct vs" "length fs = n"
    and view: "pt_view (pt', s1) = old ++ area_view perm (zip vs fs)"
  shows "copy_target pt' s1 a n (\<lambda>i. map_entry (ft_ppn (fs ! i)) perm)"
    and "i < n \<Longrightarrow> pte_target (map_entry (ft_ppn (fs ! i)) perm) = ft_ppn (fs ! i)"
    and "i < n \<Longrightarrow> mm_mem s1 (ppn_kernel_addr (ft_ppn (fs ! i))) = (\<lambda>_. 0)"
proof -
  have len: "length vs = n" using vs(1) by simp
  have fsi: "unat (ppn_raw (ft_ppn (fs ! i))) < mm_current s1" "ft_ppn (fs ! i) \<notin> pt_tables pt' s1"
    "mm_mem s1 (ppn_kernel_addr (ft_ppn (fs ! i))) = (\<lambda>_. 0)" if "i < n" for i
  proof -
    have "(vs ! i, fs ! i) \<in> set (zip vs fs)"
      using that len vs(3) by (intro nth_zip_mem) simp_all
    then show "unat (ppn_raw (ft_ppn (fs ! i))) < mm_current s1" "ft_ppn (fs ! i) \<notin> pt_tables pt' s1"
      "mm_mem s1 (ppn_kernel_addr (ft_ppn (fs ! i))) = (\<lambda>_. 0)"
      using fr by (auto simp: area_frames_fresh_def)
  qed
  have tgt: "pte_target (map_entry (ft_ppn (fs ! i)) perm) = ft_ppn (fs ! i)" if "i < n" for i
    unfolding map_entry_def
    using fsi(1) [OF that] pt_inv_small [OF inv] by (intro pte_target_new) simp
  show "i < n \<Longrightarrow> pte_target (map_entry (ft_ppn (fs ! i)) perm) = ft_ppn (fs ! i)" by (rule tgt)
  show "i < n \<Longrightarrow> mm_mem s1 (ppn_kernel_addr (ft_ppn (fs ! i))) = (\<lambda>_. 0)" by (rule fsi(3))
  have dfs: "distinct fs" using fr len vs(3) by (simp add: area_frames_fresh_def)
  have "inj_on (\<lambda>i. pte_target (map_entry (ft_ppn (fs ! i)) perm)) {..<n}"
  proof (rule inj_onI)
    fix i j assume "i \<in> {..<n}" "j \<in> {..<n}"
      "pte_target (map_entry (ft_ppn (fs ! i)) perm) = pte_target (map_entry (ft_ppn (fs ! j)) perm)"
    then have "fs ! i = fs ! j" "i < n" "j < n" by (auto simp: tgt intro: FrameTracker.expand)
    then show "i = j" using dfs vs(3) by (simp add: nth_eq_iff_index_eq)
  qed
  moreover have "pt_view (pt', s1) (VirtPageNum (a + of_nat i)) = Some (map_entry (ft_ppn (fs ! i)) perm)"
    if "i < n" for i
  proof -
    have "area_view perm (zip vs fs) (fst (zip vs fs ! i)) =
        Some (map_entry (ft_ppn (snd (zip vs fs ! i))) perm)"
      using that vs len by (intro area_view_nth) simp_all
    then have "area_view perm (zip vs fs) (VirtPageNum (a + of_nat i)) = Some (map_entry (ft_ppn (fs ! i)) perm)"
      using that len vs(3) by (simp add: vs(1))
    then show ?thesis by (simp add: view map_add_def)
  qed
  ultimately show "copy_target pt' s1 a n (\<lambda>i. map_entry (ft_ppn (fs ! i)) perm)"
    using fsi(2) tgt by (simp add: copy_target_def)
qed
lemma bytes_array_zero: "mm_mem s (ppn_kernel_addr f) = (\<lambda>_. 0) \<Longrightarrow> bytes_array (mm_mem s) f j = 0"
  by (simp add: bytes_array_def word_byte_def)

lemma MapArea_new_fresh:
  "MapArea_new start_va end_va Framed perm = Inr area \<Longrightarrow>
     area = fresh_area (vpn_raw (VirtAddr_floor start_va)) (vpn_raw (VirtAddr_ceil end_va)) perm"
  by (auto simp: MapArea_new_def VPNRange_new_def fresh_area_def bindR_eq_Inr assertR_def split: if_splits)

text \<open>The bytes that an area's pages hold once data has been copied to an offset.\<close>

definition page_contents :: "u8 list \<Rightarrow> nat \<Rightarrow> nat \<Rightarrow> u8" where
  "page_contents data off k = (if off \<le> k \<and> k < off + length data then data ! (k - off) else 0)"

lemma fresh_area_push:
  assumes inv: "pt_inv l (ms_page_table ms) s" and free: "free_range (ms_page_table ms, s) a n"
    and n: "n = unat (b - a)" "0 < n" and left: "3 * n \<le> mm_left s"
    and off: "off < 4096" "off + length data \<le> n * 4096"
  shows "\<exists>area' pt' s' fs. push_with_offset (fresh_area a b perm) off (Some data) (ms, s) =
      Inr (ms\<lparr> ms_page_table := pt', ms_areas := ms_areas ms @ [area'] \<rparr>, s') \<and>
    pt_inv l pt' s' \<and> length fs = n \<and>
    pt_view (pt', s') = pt_view (ms_page_table ms, s) ++
      area_view perm (zip (map (\<lambda>i. VirtPageNum (a + of_nat i)) [0..<n]) fs) \<and>
    (\<forall>i < n. mm_current s \<le> unat (ppn_raw (ft_ppn (fs ! i))) \<and>
       pt_view (pt', s') (VirtPageNum (a + of_nat i)) = Some (map_entry (ft_ppn (fs ! i)) perm) \<and>
       (\<forall>j < 4096. bytes_array (mm_mem s') (ft_ppn (fs ! i)) j = page_contents data off (i * 4096 + j))) \<and>
    (\<forall>g. g \<notin> pt_tables (ms_page_table ms) s \<longrightarrow> unat (ppn_raw g) < mm_current s \<longrightarrow>
       mm_mem s' (ppn_kernel_addr g) = mm_mem s (ppn_kernel_addr g))"
proof -
  let ?vs = "map (\<lambda>i. VirtPageNum (a + of_nat i)) [0..<n]"
  have vs: "VPNRange_vpns (ma_vpn_range (fresh_area a b perm)) = ?vs" by (simp add: fresh_area_vpns n(1))
  obtain area' pt' s1 fs where m: "MapArea_map (fresh_area a b perm, ms_page_table ms, s) = Inr (area', pt', s1)"
    and area': "ma_map_type area' = Framed" "range_l (ma_vpn_range area') = VirtPageNum a"
    and len: "length fs = n" and fr: "area_frames_fresh (mm_current s) (zip ?vs fs) pt' s1"
    and inv1: "pt_inv l pt' s1" and pf: "pt_frame (ms_page_table ms, s) (pt', s1)"
    and view: "pt_view (pt', s1) = pt_view (ms_page_table ms, s) ++ area_view perm (zip ?vs fs)"
    using fresh_area_map [OF inv free n(1) left, of perm] unfolding vs by (auto simp: fresh_area_def)
  have dist: "distinct ?vs" using distinct_fresh_vpns [of a b perm] by (simp add: vs)
  let ?e = "\<lambda>i. map_entry (ft_ppn (fs ! i)) perm"
  note ct = fresh_copy_target [OF inv1 fr refl dist len view]
  obtain s' where c: "copy_data_loop data 0 off (VirtPageNum a) pt' (mm_mem s1) = Inr (mm_mem s')"
    "s' = s1\<lparr> mm_mem := mm_mem s' \<rparr>" "pt_inv l pt' s'" "pt_view (pt', s') = pt_view (pt', s1)"
    "copied data 0 off n ?e (mm_mem s1) (mm_mem s')"
    using copy_data_loop_spec [OF inv1 ct(1) n(2), of 0 data off] off by auto
  have "copy_data data off area' pt' s1 = Inr s'"
    using c(1,2) area' by (simp add: copy_data_def assertR_def)
  then have run: "push_with_offset (fresh_area a b perm) off (Some data) (ms, s) =
      Inr (ms\<lparr> ms_page_table := pt', ms_areas := ms_areas ms @ [area'] \<rparr>, s')"
    using m by (simp add: push_with_offset_def)
  have fresh: "mm_current s \<le> unat (ppn_raw (ft_ppn (fs ! i)))" if "i < n" for i
  proof -
    have "(?vs ! i, fs ! i) \<in> set (zip ?vs fs)" using that len by (intro nth_zip_mem) simp_all
    then show ?thesis using fr by (auto simp: area_frames_fresh_def)
  qed
  have bytes: "bytes_array (mm_mem s') (ft_ppn (fs ! i)) j = page_contents data off (i * 4096 + j)"
    if "i < n" "j < 4096" for i j
    using c(5) [unfolded copied_def, THEN conjunct1, rule_format, OF that]
    by (simp add: ct(2) [OF that(1)] bytes_array_zero [where s = s1, OF ct(3) [OF that(1)]] page_contents_def)
  have keep: "mm_mem s' (ppn_kernel_addr g) = mm_mem s (ppn_kernel_addr g)"
    if "g \<notin> pt_tables (ms_page_table ms) s" "unat (ppn_raw g) < mm_current s" for g
  proof -
    have "ppn_kernel_addr g \<noteq> ppn_kernel_addr (pte_target (?e i))" if i: "i < n" for i
    proof
      assume "ppn_kernel_addr g = ppn_kernel_addr (pte_target (?e i))"
      then have "g = pte_target (?e i)"
        using \<open>unat (ppn_raw g) < mm_current s\<close> pt_inv_small [OF inv] pte_target_small [of "?e i"]
        by (intro ppn_kernel_addr_inj) simp_all
      then show False using fresh [OF i] ct(2) [OF i] \<open>unat (ppn_raw g) < mm_current s\<close> by simp
    qed
    then show ?thesis using c(5) pf that by (simp add: copied_def pt_frame_def)
  qed
  show ?thesis
    using run c(3,4) len view ct(1) fresh bytes keep
    by (intro exI [of _ area'] exI [of _ pt'] exI [of _ s'] exI [of _ fs]) (simp add: copy_target_def)
qed

text \<open>C10. Loading data into a new framed area (\<^verbatim>\<open>MapArea::new\<close>, then \<^verbatim>\<open>push_with_offset\<close>, as the
  ELF loader does): when the pages are legal and unmapped and enough frames are left, the
  call succeeds; every page of the area maps with the area's permission to a frame that was
  not allocated before, whose bytes are the data at the given offset and zero elsewhere; no
  other translation changes, nor any allocated page that is not a page table.\<close>

theorem push_with_offset_correct:
  assumes inv: "pt_inv l (ms_page_table ms) s"
    and area: "MapArea_new start_va end_va Framed perm = Inr area"
    and a: "a = vpn_raw (VirtAddr_floor start_va)" "n = unat (vpn_raw (VirtAddr_ceil end_va) - a)" "0 < n"
    and free: "free_range (ms_page_table ms, s) a n" and left: "3 * n \<le> mm_left s"
    and off: "off < 4096" "off + length data \<le> n * 4096"
  shows "\<exists>ms' s'. push_with_offset area off (Some data) (ms, s) = Inr (ms', s') \<and>
    pt_inv l (ms_page_table ms') s' \<and> length (ms_areas ms') = Suc (length (ms_areas ms)) \<and>
    (\<forall>i < n. \<exists>f. pt_view (ms_page_table ms', s') (VirtPageNum (a + of_nat i)) = Some (map_entry f perm) \<and>
       mm_current s \<le> unat (ppn_raw f) \<and>
       (\<forall>j < 4096. bytes_array (mm_mem s') f j = page_contents data off (i * 4096 + j))) \<and>
    (\<forall>v. (\<forall>i < n. v \<noteq> VirtPageNum (a + of_nat i)) \<longrightarrow>
       pt_view (ms_page_table ms', s') v = pt_view (ms_page_table ms, s) v) \<and>
    (\<forall>g. g \<notin> pt_tables (ms_page_table ms) s \<longrightarrow> unat (ppn_raw g) < mm_current s \<longrightarrow>
       mm_mem s' (ppn_kernel_addr g) = mm_mem s (ppn_kernel_addr g))"
proof -
  obtain b where ab: "area = fresh_area a b perm" "n = unat (b - a)"
    using MapArea_new_fresh [OF area] a by simp
  obtain area' pt' s' fs where r: "push_with_offset (fresh_area a b perm) off (Some data) (ms, s) =
      Inr (ms\<lparr> ms_page_table := pt', ms_areas := ms_areas ms @ [area'] \<rparr>, s')"
    "pt_inv l pt' s'" "length fs = n"
    "pt_view (pt', s') = pt_view (ms_page_table ms, s) ++
      area_view perm (zip (map (\<lambda>i. VirtPageNum (a + of_nat i)) [0..<n]) fs)"
    "\<forall>i < n. mm_current s \<le> unat (ppn_raw (ft_ppn (fs ! i))) \<and>
       pt_view (pt', s') (VirtPageNum (a + of_nat i)) = Some (map_entry (ft_ppn (fs ! i)) perm) \<and>
       (\<forall>j < 4096. bytes_array (mm_mem s') (ft_ppn (fs ! i)) j = page_contents data off (i * 4096 + j))"
    "\<forall>g. g \<notin> pt_tables (ms_page_table ms) s \<longrightarrow> unat (ppn_raw g) < mm_current s \<longrightarrow>
       mm_mem s' (ppn_kernel_addr g) = mm_mem s (ppn_kernel_addr g)"
    using fresh_area_push [OF inv free ab(2) a(3) left off, of perm] by auto
  have other: "pt_view (pt', s') v = pt_view (ms_page_table ms, s) v"
    if "\<forall>i < n. v \<noteq> VirtPageNum (a + of_nat i)" for v
    using r(3,4) that by (simp add: map_add_def area_view_None image_iff)
  show ?thesis
    using r other ab(1) by (intro exI [of _ "ms\<lparr> ms_page_table := pt', ms_areas := ms_areas ms @ [area'] \<rparr>"]
        exI [of _ s']) auto
qed

lemma example_memory_set:
  obtains ms s where "MemorySet_new_bare example_mm = Inr (ms, s)" "pt_inv 1 (ms_page_table ms) s"
    "mm_left s = 98" "pt_view (ms_page_table ms, s) = Map.empty" "ms_areas ms = []"
    "ms_heap_area ms = []" "ms_mmap_area ms = []" "ms_mmap_end ms = VirtAddr MMAP_BASE"
proof -
  obtain pt s where e: "PageTable_new example_mm = Inr (pt, s)" "pt_inv 1 pt s" "mm_left s = 98"
    "pt_view (pt, s) = Map.empty" by (rule example_table)
  have "VirtAddr_from_usize MMAP_BASE = Inr (VirtAddr MMAP_BASE)"
    by (intro VirtAddr_from_usize_small) (simp add: MMAP_BASE_def)
  then show ?thesis
    using e by (intro that) (auto simp: MemorySet_new_bare_def MemorySet_with_def)
qed

lemma example_free_range:
  assumes "pt_view x = Map.empty" "unat a + n < 2 ^ 20"
  shows "free_range x a n"
proof -
  have "legal_vpn (VirtPageNum (a + of_nat i))" if "i < n" for i
  proof -
    have "unat (a + of_nat i) = unat a + i"
      using assms(2) that by (simp add: unat_word_ariths unat_of_nat take_bit_nat_eq_self)
    then show ?thesis
      using assms(2) that by (simp add: legal_vpn_def VirtPageNum_from_usize_Inr)
  qed
  then show ?thesis using assms(1) by (simp add: free_range_def)
qed

theorem push_with_offset_witness:
  "\<exists>ms s area ms' s' f. MemorySet_new_bare example_mm = Inr (ms, s) \<and>
     MapArea_new (VirtAddr 0x5000) (VirtAddr 0x7000) Framed PERM_R = Inr area \<and>
     push_with_offset area 10 (Some [1, 2, 3]) (ms, s) = Inr (ms', s') \<and>
     pt_view (ms_page_table ms', s') (VirtPageNum 5) = Some (map_entry f PERM_R) \<and>
     bytes_array (mm_mem s') f 11 = 2 \<and> bytes_array (mm_mem s') f 13 = 0"
proof -
  obtain ms s where e: "MemorySet_new_bare example_mm = Inr (ms, s)" "pt_inv 1 (ms_page_table ms) s"
    "mm_left s = 98" "pt_view (ms_page_table ms, s) = Map.empty"
    by (rule example_memory_set)
  have area: "MapArea_new (VirtAddr 0x5000) (VirtAddr 0x7000) Framed PERM_R = Inr (fresh_area 5 7 PERM_R)"
    by (simp add: MapArea_new_def VPNRange_new_def assertR_def VirtAddr_floor_def VirtAddr_ceil_def
        fresh_area_def config less_eq_VirtPageNum_def)
  have "free_range (ms_page_table ms, s) 5 2" by (intro example_free_range e(4)) simp
  moreover have "(5 :: usize) = vpn_raw (VirtAddr_floor (VirtAddr 0x5000))"
    "2 = unat (vpn_raw (VirtAddr_ceil (VirtAddr 0x7000)) - (5 :: usize))"
    by (simp_all add: VirtAddr_floor_def VirtAddr_ceil_def config)
  ultimately obtain ms' s' where r: "push_with_offset (fresh_area 5 7 PERM_R) 10 (Some [1, 2, 3]) (ms, s) = Inr (ms', s')"
    and p: "\<forall>i < 2. \<exists>f. pt_view (ms_page_table ms', s') (VirtPageNum (5 + of_nat i)) = Some (map_entry f PERM_R) \<and>
       mm_current s \<le> unat (ppn_raw f) \<and>
       (\<forall>j < 4096. bytes_array (mm_mem s') f j = page_contents [1, 2, 3] 10 (i * 4096 + j))"
    using push_with_offset_correct [OF e(2) area, of 5 2 10 "[1, 2, 3]"] e(3) by auto
  obtain f where "pt_view (ms_page_table ms', s') (VirtPageNum 5) = Some (map_entry f PERM_R)"
    "\<forall>j < 4096. bytes_array (mm_mem s') f j = page_contents [1, 2, 3] 10 j"
    using p [rule_format, of 0] by auto
  then show ?thesis
    using e(1) area r by (intro exI [of _ ms] exI [of _ s] exI [of _ "fresh_area 5 7 PERM_R"] exI [of _ ms']
        exI [of _ s'] exI [of _ f]) (simp add: page_contents_def)
qed

section \<open>Removing an area\<close>

lemma area_view_None_iff: "area_view perm qs v = None \<longleftrightarrow> v \<notin> set (map fst qs)"
  by (simp add: area_view_def map_of_eq_None_iff image_image case_prod_unfold)

lemma drop_keeps_table:
  assumes inv: "pt_inv l pt s" and f: "f \<in> mm_live l s"
  shows "\<exists>s'. FrameTracker_drop f s = Inr s' \<and> pt_inv l pt s' \<and> mm_live l s' = mm_live l s - {f} \<and>
    pt_view (pt, s') = pt_view (pt, s) \<and> mm_mem s' = mm_mem s"
proof -
  have "mm_inv l s" using inv by (simp add: pt_inv_def)
  then obtain s' where d: "FrameTracker_drop f s = Inr s'" "mm_live l s' = mm_live l s - {f}" "mm_inv l s'"
    using mm.dealloc_live [of l s f] f by auto
  have "mm_mem s' = mm_mem s" "mm_current s' = mm_current s"
    using d(1) by (auto simp: FrameTracker_drop_def frame_dealloc_def fa_dealloc_def mm_current_def split: if_splits)
  moreover from this have "pt_view (pt, s') = pt_view (pt, s)"
    by (intro ext) (simp add: pt_view_def)
  ultimately show ?thesis using d inv by (simp add: pt_inv_def)
qed

lemma PageTable_unmap_live:
  "PageTable_unmap v (pt, s) = Inr (pt', s') \<Longrightarrow> mm_live l s' = mm_live l s"
  by (auto simp: PageTable_unmap_def bindR_eq_Inr mm_live_def pte_write_def split: prod.splits)

lemma unmap_one_Framed:
  assumes inv: "pt_inv l pt s" and v: "legal_vpn v" "pt_view (pt, s) v \<noteq> None"
    and area: "ma_map_type area = Framed" "bt_get v (ma_data_frames area) = Some f" and f: "f \<in> mm_live l s"
  shows "\<exists>s'. unmap_one v (area, pt, s) =
      Inr (area\<lparr> ma_data_frames := bt_del v (ma_data_frames area) \<rparr>, pt, s') \<and>
    pt_inv l pt s' \<and> pt_view (pt, s') = (pt_view (pt, s))(v := None) \<and> mm_live l s' = mm_live l s - {f}"
proof -
  obtain s1 where d: "FrameTracker_drop f s = Inr s1" "pt_inv l pt s1" "mm_live l s1 = mm_live l s - {f}"
    "pt_view (pt, s1) = pt_view (pt, s)"
    using drop_keeps_table [OF inv f] by blast
  obtain s' where u: "PageTable_unmap v (pt, s1) = Inr (pt, s')"
    using PageTable_unmap_spec(2) [OF d(2) v(1)] v(2) d(4) by auto
  then have "pt_inv l pt s'" "pt_view (pt, s') = (pt_view (pt, s1))(v := None)"
    using PageTable_unmap_spec(1) [OF d(2) v(1) u] by auto
  then show ?thesis
    using d u area PageTable_unmap_live [OF u, of l]
    by (simp add: unmap_one_def bt_remove_def drop_frame_opt_def)
qed

lemma unmap_list_Framed:
  assumes "pt_inv l pt s" "distinct vs" "ma_map_type area = Framed"
    and "\<And>v. v \<in> set vs \<Longrightarrow> legal_vpn v \<and> pt_view (pt, s) v \<noteq> None \<and>
      bt_get v (ma_data_frames area) = Some (fr v) \<and> fr v \<in> mm_live l s"
    and "inj_on fr (set vs)"
  shows "\<exists>s'. foldR unmap_one vs (area, pt, s) =
      Inr (area\<lparr> ma_data_frames := fold bt_del vs (ma_data_frames area) \<rparr>, pt, s') \<and>
    pt_inv l pt s' \<and> pt_view (pt, s') = pt_view (pt, s) |` (- set vs) \<and>
    mm_live l s' = mm_live l s - fr ` set vs"
  using assms
proof (induction vs arbitrary: area s)
  case (Cons v vs)
  have v: "legal_vpn v" "pt_view (pt, s) v \<noteq> None" "bt_get v (ma_data_frames area) = Some (fr v)"
    "fr v \<in> mm_live l s" using Cons.prems(4) [of v] by simp_all
  obtain s1 where u: "unmap_one v (area, pt, s) =
      Inr (area\<lparr> ma_data_frames := bt_del v (ma_data_frames area) \<rparr>, pt, s1)"
    "pt_inv l pt s1" "pt_view (pt, s1) = (pt_view (pt, s))(v := None)" "mm_live l s1 = mm_live l s - {fr v}"
    using unmap_one_Framed [OF Cons.prems(1) v(1,2) Cons.prems(3) v(3,4)] by blast
  let ?area = "area\<lparr> ma_data_frames := bt_del v (ma_data_frames area) \<rparr>"
  have "\<exists>s'. foldR unmap_one vs (?area, pt, s1) =
      Inr (?area\<lparr> ma_data_frames := fold bt_del vs (ma_data_frames ?area) \<rparr>, pt, s') \<and>
    pt_inv l pt s' \<and> pt_view (pt, s') = pt_view (pt, s1) |` (- set vs) \<and>
    mm_live l s' = mm_live l s1 - fr ` set vs"
  proof (rule Cons.IH [OF u(2)])
    fix w assume w: "w \<in> set vs"
    then have "w \<noteq> v" "fr w \<noteq> fr v" using Cons.prems(2,5) by (auto simp: inj_on_def)
    then show "legal_vpn w \<and> pt_view (pt, s1) w \<noteq> None \<and>
        bt_get w (ma_data_frames ?area) = Some (fr w) \<and> fr w \<in> mm_live l s1"
      using Cons.prems(4) [of w] w u(3,4) by (simp add: bt_get_del)
  qed (use Cons.prems(2,3,5) in simp_all)
  then obtain s' where "foldR unmap_one vs (?area, pt, s1) =
      Inr (area\<lparr> ma_data_frames := fold bt_del vs (bt_del v (ma_data_frames area)) \<rparr>, pt, s')"
    "pt_inv l pt s'" "pt_view (pt, s') = pt_view (pt, s1) |` (- set vs)" "mm_live l s' = mm_live l s1 - fr ` set vs"
    by auto
  moreover have "pt_view (pt, s1) |` (- set vs) = pt_view (pt, s) |` (- set (v # vs))"
    unfolding u(3) by (rule ext) (simp add: restrict_map_def)
  moreover have "mm_live l s1 - fr ` set vs = mm_live l s - fr ` set (v # vs)"
    unfolding u(4) by auto
  ultimately show ?case using u(1) by (intro exI [of _ s']) simp
qed (simp add: restrict_map_def)

lemma fold_bt_put_get:
  fixes kvs :: "('k :: linorder \<times> 'v) list"
  assumes "distinct (map fst kvs)"
  shows "bt_sorted (fold (\<lambda>(k, v). bt_put k v) kvs [])" "bt_get j (fold (\<lambda>(k, v). bt_put k v) kvs []) = map_of kvs j"
proof -
  have eq: "(\<lambda>(k :: 'k, v :: 'v). snd \<circ> bt_insert k v) = (\<lambda>(k, v). bt_put k v)"
    by (auto simp: fun_eq_iff bt_insert_def)
  show "bt_sorted (fold (\<lambda>(k, v). bt_put k v) kvs [])" "bt_get j (fold (\<lambda>(k, v). bt_put k v) kvs []) = map_of kvs j"
    using bt.put_fold [of "[]" kvs j, OF _ assms] unfolding eq
    by (auto simp: bt_sorted_def split: option.splits)
qed

lemma fold_bt_del_get:
  fixes t :: "('k :: linorder, 'v) btree"
  assumes "bt_sorted t"
  shows "bt_sorted (fold bt_del ks t)" "bt_get j (fold bt_del ks t) = (if j \<in> set ks then None else bt_get j t)"
proof -
  have eq: "(\<lambda>k :: 'k. snd \<circ> bt_remove k) = (bt_del :: 'k \<Rightarrow> ('k, 'v) btree \<Rightarrow> ('k, 'v) btree)"
    by (auto simp: fun_eq_iff bt_remove_def)
  show "bt_sorted (fold bt_del ks t)" "bt_get j (fold bt_del ks t) = (if j \<in> set ks then None else bt_get j t)"
    using bt.del_fold [OF assms, of ks j] unfolding eq by auto
qed

lemma bt_empty: "\<lbrakk> bt_sorted t; \<And>k. bt_get k t = None \<rbrakk> \<Longrightarrow> t = []"
  using bt_get_Some_iff by (cases t) fastforce+

lemma set_bt: "\<lbrakk> bt_sorted t; bt_sorted u; \<And>k. bt_get k t = bt_get k u \<rbrakk> \<Longrightarrow> set t = set u"
  using bt_get_Some_iff by (metis (no_types, lifting) subsetI subset_antisym surj_pair)


lemma fresh_frames_live:
  assumes inv: "pt_inv l pt1 s1" "mm_inv l s" and pf: "pt_frame (pt, s) (pt1, s1)"
    and f: "mm_current s \<le> unat (ppn_raw (ft_ppn f))" "unat (ppn_raw (ft_ppn f)) < mm_current s1"
  shows "f \<in> mm_live l s1"
proof -
  have rec: "fa_recycled (mm_falloc s1) = fa_recycled (mm_falloc s)" using pf by (simp add: pt_frame_def)
  have "ppn_raw (ft_ppn f) \<notin> set (fa_recycled (mm_falloc s1))"
    using inv(2) f(1) unfolding rec by (auto simp: mm_inv_def fa_inv_def mm_current_def word_less_nat_alt)
  moreover have "l \<le> ppn_raw (ft_ppn f)"
    using inv(2) f(1) by (auto simp: mm_inv_def fa_inv_def mm_current_def word_le_nat_alt)
  moreover have "ppn_raw (ft_ppn f) < fa_current (mm_falloc s1)"
    using f(2) by (simp add: mm_current_def word_less_nat_alt)
  ultimately have "PhysPageNum (ppn_raw (ft_ppn f)) \<in> fa_live l (mm_falloc s1)"
    unfolding fa_live_def by (intro imageI) simp
  then show ?thesis
    unfolding mm_live_def by (intro image_eqI [of _ _ "ft_ppn f"]) simp_all
qed

lemma zip_function:
  assumes "distinct vs" "length fs = length vs" "distinct fs"
  obtains ff where "\<And>v. map_of (zip vs fs) v = (if v \<in> set vs then Some (ff v) else None)"
    "inj_on ff (set vs)" "\<And>v. v \<in> set vs \<Longrightarrow> (v, ff v) \<in> set (zip vs fs)"
proof -
  define ff where "ff v = the (map_of (zip vs fs) v)" for v
  have dom: "dom (map_of (zip vs fs)) = set vs" by (simp add: dom_map_of_zip assms(2))
  have ff: "map_of (zip vs fs) v = (if v \<in> set vs then Some (ff v) else None)" for v
    using dom unfolding ff_def by (metis domIff option.collapse)
  then have mem: "(v, ff v) \<in> set (zip vs fs)" if "v \<in> set vs" for v
    using that by (simp add: map_of_SomeD)
  have "inj_on ff (set vs)"
  proof (rule inj_onI)
    fix u v assume uv: "u \<in> set vs" "v \<in> set vs" "ff u = ff v"
    obtain i j where "i < length fs" "j < length fs" "u = vs ! i" "v = vs ! j" "fs ! i = ff u" "fs ! j = ff v"
      using mem [OF uv(1)] mem [OF uv(2)] unfolding in_set_zip by auto
    then show "u = v" using assms(3) uv(3) by (metis nth_eq_iff_index_eq)
  qed
  then show ?thesis using that ff mem by blast
qed

lemma unmap_fresh:
  assumes inv: "mm_inv l s" "pt_inv l pt' s1" and pf: "pt_frame (pt, s) (pt', s1)"
    and vs: "distinct vs" "length fs = length vs" "\<And>v. v \<in> set vs \<Longrightarrow> legal_vpn v"
    and fr: "area_frames_fresh (mm_current s) (zip vs fs) pt' s1"
    and view: "pt_view (pt', s1) = old ++ area_view perm (zip vs fs)"
    and area: "ma_map_type area = Framed" "ma_data_frames area = fold (\<lambda>(v, f). bt_put v f) (zip vs fs) []"
  shows "\<exists>s2. foldR unmap_one vs (area, pt', s1) = Inr (area\<lparr> ma_data_frames := [] \<rparr>, pt', s2) \<and>
    pt_inv l pt' s2 \<and> pt_view (pt', s2) = old |` (- set vs) \<and>
    mm_live l s2 = mm_live l s1 - snd ` set (ma_data_frames area)"
proof -
  let ?t = "ma_data_frames area"
  have fst: "map fst (zip vs fs) = vs" and snd: "map snd (zip vs fs) = fs" using vs(2) by simp_all
  have t: "bt_sorted ?t" "\<And>j. bt_get j ?t = map_of (zip vs fs) j"
    unfolding area(2) by (rule fold_bt_put_get, simp only: fst vs)+
  have "distinct fs" using fr snd by (simp add: area_frames_fresh_def)
  then obtain ff where ff: "\<And>v. map_of (zip vs fs) v = (if v \<in> set vs then Some (ff v) else None)"
    and inj: "inj_on ff (set vs)" and mem: "\<And>v. v \<in> set vs \<Longrightarrow> (v, ff v) \<in> set (zip vs fs)"
    using zip_function [OF vs(1,2)] by blast
  have each: "legal_vpn v \<and> pt_view (pt', s1) v \<noteq> None \<and> bt_get v ?t = Some (ff v) \<and> ff v \<in> mm_live l s1"
    if v: "v \<in> set vs" for v
  proof -
    have "mm_current s \<le> unat (ppn_raw (ft_ppn (ff v)))" "unat (ppn_raw (ft_ppn (ff v))) < mm_current s1"
      using fr mem [OF v] by (auto simp: area_frames_fresh_def)
    then have "ff v \<in> mm_live l s1" by (rule fresh_frames_live [OF inv(2,1) pf])
    moreover have "area_view perm (zip vs fs) v \<noteq> None"
      using v fst by (simp only: area_view_None_iff) simp
    then have "pt_view (pt', s1) v \<noteq> None" by (auto simp: view map_add_def split: option.splits)
    ultimately show ?thesis using ff vs(3) [OF v] v t(2) by simp
  qed
  obtain s2 where u: "foldR unmap_one vs (area, pt', s1) =
      Inr (area\<lparr> ma_data_frames := fold bt_del vs ?t \<rparr>, pt', s2)" "pt_inv l pt' s2"
    "pt_view (pt', s2) = pt_view (pt', s1) |` (- set vs)" "mm_live l s2 = mm_live l s1 - ff ` set vs"
    using unmap_list_Framed [where fr = ff, OF inv(2) vs(1) area(1) each inj] by blast
  have "fold bt_del vs ?t = []"
    by (rule bt_empty) (simp_all add: fold_bt_del_get [OF t(1)] ff t(2))
  moreover have "set ?t = (\<lambda>v. (v, ff v)) ` set vs"
  proof (rule set_eqI)
    fix x
    have "x \<in> set ?t \<longleftrightarrow> (if fst x \<in> set vs then Some (ff (fst x)) else None) = Some (snd x)"
      using bt_get_Some_iff [OF t(1), of "fst x" "snd x"] unfolding t(2) ff by simp
    then show "x \<in> set ?t \<longleftrightarrow> x \<in> (\<lambda>v. (v, ff v)) ` set vs" by (cases x) auto
  qed
  then have "snd ` set ?t = ff ` set vs" by force
  moreover have "pt_view (pt', s1) |` (- set vs) = old |` (- set vs)"
  proof
    fix v show "(pt_view (pt', s1) |` (- set vs)) v = (old |` (- set vs)) v"
      using area_view_None [of v "zip vs fs" perm] unfolding fst
      by (cases "v \<in> set vs") (simp_all add: restrict_map_def view map_add_def)
  qed
  ultimately show ?thesis using u by simp
qed

text \<open>C24. Inserting a framed area and removing it again: on unmapped legal pages with enough
  frames left, \<^verbatim>\<open>insert_framed_area\<close> followed by \<^verbatim>\<open>remove_area_with_va\<close> of the same bounds
  succeeds, restores the list of areas and every translation, and gives exactly the area's
  frames back to the frame allocator.\<close>

theorem insert_remove_area:
  assumes inv: "pt_inv l (ms_page_table ms) s"
    and a: "a = vpn_raw (VirtAddr_floor start_va)" "b = vpn_raw (VirtAddr_ceil end_va)" "a \<le> b"
    and free: "free_range (ms_page_table ms, s) a (unat (b - a))" and left: "3 * unat (b - a) \<le> mm_left s"
    and new: "\<forall>area \<in> set (ms_areas ms). range_l (ma_vpn_range area) \<noteq> VirtPageNum a"
  shows "\<exists>ms1 s1 ms2 s2. insert_framed_area start_va end_va perm (ms, s) = Inr (ms1, s1) \<and>
    remove_area_with_va start_va end_va (ms1, s1) = Inr (True, ms2, s2) \<and>
    ms_areas ms2 = ms_areas ms \<and> pt_inv l (ms_page_table ms2) s2 \<and>
    pt_view (ms_page_table ms2, s2) = pt_view (ms_page_table ms, s) \<and>
    mm_live l s2 = mm_live l s1 - snd ` set (ma_data_frames (last (ms_areas ms1)))"
proof -
  define vs where "vs = VPNRange_vpns (ma_vpn_range (fresh_area a b perm))"
  have new_area: "MapArea_new start_va end_va Framed perm = Inr (fresh_area a b perm)"
    using a by (simp add: MapArea_new_def VPNRange_new_def assertR_def fresh_area_def less_eq_VirtPageNum_def)
  have vs: "distinct vs" "length vs = unat (b - a)" "\<And>v. v \<in> set vs \<Longrightarrow> legal_vpn v \<and> pt_view (ms_page_table ms, s) v = None"
    using distinct_fresh_vpns free by (auto simp: vs_def fresh_area_vpns free_range_def)
  obtain pt' s1 fs where m: "MapArea_map (fresh_area a b perm, ms_page_table ms, s) =
      Inr ((fresh_area a b perm)\<lparr> ma_data_frames := fold (\<lambda>(v, f). bt_put v f) (zip vs fs) [] \<rparr>, pt', s1)"
    and len: "length fs = unat (b - a)" and fr: "area_frames_fresh (mm_current s) (zip vs fs) pt' s1"
    and inv1: "pt_inv l pt' s1" and pf: "pt_frame (ms_page_table ms, s) (pt', s1)"
    and view: "pt_view (pt', s1) = pt_view (ms_page_table ms, s) ++ area_view perm (zip vs fs)"
    using fresh_area_map [OF inv free refl left, of perm] unfolding vs_def by blast
  define area where "area = (fresh_area a b perm)\<lparr> ma_data_frames := fold (\<lambda>(v, f). bt_put v f) (zip vs fs) [] \<rparr>"
  have area: "ma_map_type area = Framed" "ma_data_frames area = fold (\<lambda>(v, f). bt_put v f) (zip vs fs) []"
    "VPNRange_vpns (ma_vpn_range area) = vs" "ma_vpn_range area = \<lparr> range_l = VirtPageNum a, range_r = VirtPageNum b \<rparr>"
    by (simp_all add: area_def fresh_area_def vs_def)
  let ?ms1 = "ms\<lparr> ms_page_table := pt', ms_areas := ms_areas ms @ [area] \<rparr>"
  have ins: "insert_framed_area start_va end_va perm (ms, s) = Inr (?ms1, s1)"
    using m by (simp add: insert_framed_area_def new_area push_def push_with_offset_def area_def)
  obtain s2 where u: "foldR unmap_one vs (area, pt', s1) = Inr (area\<lparr> ma_data_frames := [] \<rparr>, pt', s2)"
    "pt_inv l pt' s2" "pt_view (pt', s2) = pt_view (ms_page_table ms, s) |` (- set vs)"
    "mm_live l s2 = mm_live l s1 - snd ` set (ma_data_frames area)"
    using unmap_fresh [OF _ inv1 pf vs(1) _ _ fr view area(1,2)] inv vs len by (auto simp: pt_inv_def)
  have "find_position (\<lambda>area. range_l (ma_vpn_range area) = VirtAddr_floor start_va \<and>
      range_r (ma_vpn_range area) = VirtAddr_ceil end_va) (ms_areas ?ms1) = Some (length (ms_areas ms))"
    using new a area(4) by (simp, intro find_position_last) auto
  then have "remove_area_with_va start_va end_va (?ms1, s1) = Inr (True, ms\<lparr> ms_page_table := pt' \<rparr>, s2)"
    using u(1) area(3)
    by (simp add: remove_area_with_va_def unmap_and_remove_def MapArea_unmap_def drop_frames_def remove_nth_def)
  moreover have "pt_view (ms_page_table ms, s) |` (- set vs) = pt_view (ms_page_table ms, s)"
    using vs(3) by (intro ext) (simp add: restrict_map_def)
  ultimately show ?thesis
    using ins u by (intro exI [of _ ?ms1] exI [of _ s1] exI [of _ "ms\<lparr> ms_page_table := pt' \<rparr>"] exI [of _ s2]) simp
qed

theorem insert_remove_area_witness:
  "\<exists>ms s ms1 s1 ms2 s2. MemorySet_new_bare example_mm = Inr (ms, s) \<and>
     insert_framed_area (VirtAddr 0x5000) (VirtAddr 0x7000) PERM_R (ms, s) = Inr (ms1, s1) \<and>
     remove_area_with_va (VirtAddr 0x5000) (VirtAddr 0x7000) (ms1, s1) = Inr (True, ms2, s2) \<and>
     pt_view (ms_page_table ms2, s2) = Map.empty"
proof -
  obtain ms s where e: "MemorySet_new_bare example_mm = Inr (ms, s)" "pt_inv 1 (ms_page_table ms) s"
    "mm_left s = 98" "pt_view (ms_page_table ms, s) = Map.empty" "ms_areas ms = []"
    by (rule example_memory_set)
  have ab: "(5 :: usize) = vpn_raw (VirtAddr_floor (VirtAddr 0x5000))"
    "(7 :: usize) = vpn_raw (VirtAddr_ceil (VirtAddr 0x7000))"
    by (simp_all add: VirtAddr_floor_def VirtAddr_ceil_def config)
  have "free_range (ms_page_table ms, s) 5 (unat (7 - 5 :: usize))" by (intro example_free_range e(4)) simp
  then show ?thesis
    using insert_remove_area [OF e(2) ab, of PERM_R] e by fastforce
qed

end
