(* ===== verification/Heap_Mmap.thy ===== *)
theory Heap_Mmap
  imports Memory_Set
begin

text \<open>
  What the heap and the memory mappings of a process do: growing the heap with
  \<^verbatim>\<open>sys_brk\<close>, anonymous \<^verbatim>\<open>mmap\<close> and \<^verbatim>\<open>munmap\<close>.  Both the heap and the mapping area keep
  their frames in a map from pages to frame trackers, as a framed area does; the proofs
  reduce their loops to the loop of \<^verbatim>\<open>MapArea::map\<close>.
\<close>

unbundle bit_operations_syntax

section \<open>Heap and memory mappings\<close>

lemma unat_page_align_up:
  assumes "unat a + 4095 < 2 ^ 64"
  shows "unat (page_align_up a) = (unat a + 4095) div 4096 * 4096"
proof -
  have m: "page_align_up a = (a + 4095) AND NOT (mask 12)"
    by (simp add: page_align_up_def config mask_eq_exp_minus_1 add.commute)
  have eq: "page_align_up a = push_bit 12 (drop_bit 12 (a + 4095))"
    unfolding m by (rule bit_eqI) (auto simp: bit_simps dest: bit_imp_le_length)
  have s: "unat (a + 4095) = unat a + 4095"
    using assms by (subst unat_add_small) simp_all
  show ?thesis
    unfolding eq using assms by (subst unat_push_12) (simp_all add: unat_drop_bit s less_mult_imp_div_less)
qed

definition as_area :: "(VirtPageNum, FrameTracker) btree \<Rightarrow> PTEFlags \<Rightarrow> MapArea" where
  "as_area t perm =
     \<lparr> ma_vpn_range = \<lparr> range_l = VirtPageNum 0, range_r = VirtPageNum 0 \<rparr>, ma_data_frames = t,
       ma_map_type = Framed, ma_map_perm = perm \<rparr>"

text \<open>A page of an anonymous mapping is mapped as \<^verbatim>\<open>map_one\<close> maps a page of a framed area.\<close>

lemma mmap_page_map_one:
  "mmap_page v (ms, s) =
     bindR (map_one v (as_area (ms_mmap_area ms) FLAGS_RWUX, ms_page_table ms, s)) (\<lambda>(area, pt, s').
       Inr (ms\<lparr> ms_page_table := pt, ms_mmap_area := ma_data_frames area \<rparr>, s'))"
  by (auto simp: mmap_page_def map_one_def as_area_def bt_insert_def bindR_def Let_def
      split: sum.splits option.splits prod.splits)

lemma mmap_pages_map_list:
  "foldR mmap_page vs (ms, s) =
     bindR (foldR map_one vs (as_area (ms_mmap_area ms) FLAGS_RWUX, ms_page_table ms, s)) (\<lambda>(area, pt, s').
       Inr (ms\<lparr> ms_page_table := pt, ms_mmap_area := ma_data_frames area \<rparr>, s'))"
proof (induction vs arbitrary: ms s)
  case Nil
  then show ?case by (simp add: as_area_def)
next
  case (Cons v vs)
  show ?case
  proof (cases "map_one v (as_area (ms_mmap_area ms) FLAGS_RWUX, ms_page_table ms, s)")
    case (Inr y)
    obtain area pt s' where y: "y = (area, pt, s')" by (cases y)
    have "area = as_area (ma_data_frames area) FLAGS_RWUX"
      using Inr unfolding y
      by (auto simp: map_one_def as_area_def bt_insert_def bindR_eq_Inr split: prod.splits)
    then have "foldR map_one vs (as_area (ma_data_frames area) FLAGS_RWUX, pt, s') = foldR map_one vs (area, pt, s')"
      by simp
    then show ?thesis
      using Cons.IH [of "ms\<lparr> ms_page_table := pt, ms_mmap_area := ma_data_frames area \<rparr>" s'] Inr y
      by (simp add: mmap_page_map_one bindR_def split: sum.splits prod.splits)
  qed (simp add: mmap_page_map_one)
qed
lemma as_area_pages:
  assumes inv: "pt_inv l pt s" and vs: "\<forall>v \<in> set vs. legal_vpn v" "distinct vs"
    and t: "bt_sorted t" "\<forall>v \<in> set vs. bt_get v t = None" "\<forall>v \<in> set vs. pt_view (pt, s) v = None"
    and left: "3 * length vs \<le> mm_left s"
  shows "\<exists>pt' s' fs. foldR map_one vs (as_area t perm, pt, s) =
      Inr (as_area (fold (\<lambda>(v, f). bt_put v f) (zip vs fs) t) perm, pt', s') \<and>
    length fs = length vs \<and> area_frames_fresh (mm_current s) (zip vs fs) pt' s' \<and>
    pt_inv l pt' s' \<and> pt_frame (pt, s) (pt', s') \<and>
    pt_view (pt', s') = pt_view (pt, s) ++ area_view perm (zip vs fs)"
proof -
  have a: "ma_map_type (as_area t perm) = Framed" "bt_sorted (ma_data_frames (as_area t perm))"
    "\<forall>v \<in> set vs. bt_get v (ma_data_frames (as_area t perm)) = None"
    using t by (simp_all add: as_area_def)
  obtain area' pt' s' where ok: "foldR map_one vs (as_area t perm, pt, s) = Inr (area', pt', s')"
    using map_list_Framed_total [OF inv vs a t(3) left] by auto
  obtain qs where qs: "map fst qs = vs" "area_frames_fresh (mm_current s) qs pt' s'"
    "area' = (as_area t perm)\<lparr> ma_data_frames := fold (\<lambda>(v, f). bt_put v f) qs (ma_data_frames (as_area t perm)) \<rparr>"
    "pt_inv l pt' s'" "pt_frame (pt, s) (pt', s')"
    "pt_view (pt', s') = pt_view (pt, s) ++ area_view (ma_map_perm (as_area t perm)) qs"
    using map_list_Framed [OF inv vs a ok] by blast
  have q: "qs = zip vs (map snd qs)" using qs(1) by (metis zip_map_fst_snd)
  have "length (map snd qs) = length vs" using qs(1) by (metis length_map)
  then show ?thesis
    using ok qs(2-6) q by (intro exI [of _ pt'] exI [of _ s'] exI [of _ "map snd qs"]) (simp add: as_area_def)
qed

lemma mapped_zero_pages:
  assumes inv: "pt_inv l pt' s'" and fr: "area_frames_fresh c (zip vs fs) pt' s'"
    and vs: "vs = map (\<lambda>i. VirtPageNum (a + of_nat i)) [0..<n]" "distinct vs" "length fs = n"
    and view: "pt_view (pt', s') = old ++ area_view perm (zip vs fs)"
  shows "i < n \<Longrightarrow> \<exists>f. pt_view (pt', s') (VirtPageNum (a + of_nat i)) = Some (map_entry f perm) \<and>
      c \<le> unat (ppn_raw f) \<and> (\<forall>j. bytes_array (mm_mem s') f j = 0)"
    and "\<forall>i < n. v \<noteq> VirtPageNum (a + of_nat i) \<Longrightarrow> pt_view (pt', s') v = old v"
proof -
  note ct = fresh_copy_target [OF inv fr vs view]
  assume i: "i < n"
  have "(vs ! i, fs ! i) \<in> set (zip vs fs)" using i vs(1,3) by (intro nth_zip_mem) simp_all
  then have "c \<le> unat (ppn_raw (ft_ppn (fs ! i)))" using fr by (auto simp: area_frames_fresh_def)
  moreover have "pt_view (pt', s') (VirtPageNum (a + of_nat i)) = Some (map_entry (ft_ppn (fs ! i)) perm)"
    using ct(1) i by (simp add: copy_target_def)
  ultimately show "\<exists>f. pt_view (pt', s') (VirtPageNum (a + of_nat i)) = Some (map_entry f perm) \<and>
      c \<le> unat (ppn_raw f) \<and> (\<forall>j. bytes_array (mm_mem s') f j = 0)"
    using bytes_array_zero [where s = s', OF ct(3) [OF i]] by blast
next
  assume "\<forall>i < n. v \<noteq> VirtPageNum (a + of_nat i)"
  then have "area_view perm (zip vs fs) v = None"
    using vs(1,3) by (auto simp: area_view_None_iff)
  then show "pt_view (pt', s') v = old v" by (simp add: view map_add_def)
qed

lemma unat_usize_of_nat: "n < 2 ^ 64 \<Longrightarrow> unat (of_nat n :: usize) = n"
  by (simp only: unat_of_nat) (simp add: take_bit_nat_eq_self)

text \<open>Word addresses of page \<open>k\<close> of the lower half of the address space.\<close>

lemma page_word:
  assumes "k < 2 ^ 27"
  shows "unat (of_nat (k * 4096) :: usize) = k * 4096" "VirtAddr_from_usize (of_nat (k * 4096)) = Inr (VirtAddr (of_nat (k * 4096)))"
    "VirtAddr_floor (VirtAddr (of_nat (k * 4096))) = VirtPageNum (of_nat k)"
proof -
  show u: "unat (of_nat (k * 4096) :: usize) = k * 4096"
    using assms by (intro unat_usize_of_nat) simp
  show "VirtAddr_from_usize (of_nat (k * 4096)) = Inr (VirtAddr (of_nat (k * 4096)))"
    using assms by (intro VirtAddr_from_usize_small) (simp only: u, simp)
  have "unat ((of_nat (k * 4096) :: usize) div PAGE_SIZE) = unat (of_nat k :: usize)"
    unfolding unat_div u using assms by (simp add: config unat_usize_of_nat)
  then show "VirtAddr_floor (VirtAddr (of_nat (k * 4096))) = VirtPageNum (of_nat k)"
    by (simp only: VirtAddr_floor_def VirtAddr.sel VirtPageNum.inject word_unat_eq_iff)
qed

lemma page_align_up_word:
  assumes "unat a + 4095 < 2 ^ 64"
  shows "page_align_up a = of_nat ((unat a + 4095) div 4096 * 4096)"
proof -
  have "of_nat (unat (page_align_up a)) = page_align_up a" by simp
  then show ?thesis unfolding unat_page_align_up [OF assms] by (rule sym)
qed

lemma page_range:
  assumes "k \<le> k'" "k' < 2 ^ 27"
  shows "VPNRange_new (VirtPageNum (of_nat k)) (VirtPageNum (of_nat k')) =
      Inr \<lparr> range_l = VirtPageNum (of_nat k), range_r = VirtPageNum (of_nat k') \<rparr>"
    "VPNRange_vpns \<lparr> range_l = VirtPageNum (of_nat k), range_r = VirtPageNum (of_nat k') \<rparr> =
      map (\<lambda>i. VirtPageNum (of_nat k + of_nat i)) [0..<k' - k]"
proof -
  have u: "unat (of_nat k :: usize) = k" "unat (of_nat k' :: usize) = k'"
    using assms by (simp_all add: unat_usize_of_nat)
  then show "VPNRange_new (VirtPageNum (of_nat k)) (VirtPageNum (of_nat k')) =
      Inr \<lparr> range_l = VirtPageNum (of_nat k), range_r = VirtPageNum (of_nat k') \<rparr>"
    using assms by (simp add: VPNRange_new_def assertR_def less_eq_VirtPageNum_def word_le_nat_alt)
  have "(of_nat k' - of_nat k :: usize) = of_nat (k' - k)" using assms(1) by (simp add: of_nat_diff)
  then have "unat (of_nat k' - of_nat k :: usize) = k' - k"
    using assms by (simp only:) (intro unat_usize_of_nat, simp)
  then show "VPNRange_vpns \<lparr> range_l = VirtPageNum (of_nat k), range_r = VirtPageNum (of_nat k') \<rparr> =
      map (\<lambda>i. VirtPageNum (of_nat k + of_nat i)) [0..<k' - k]"
    by (simp add: VPNRange_vpns_def range_iter_eq)
qed

lemma mmap_bounds:
  assumes e: "ms_mmap_end ms = VirtAddr (of_nat (k * 4096))"
    and n: "n = (unat len + 4095) div 4096" "k + n + 1 < 2 ^ 27"
  shows "page_align_up (va_raw (ms_mmap_end ms)) = of_nat (k * 4096)"
    "page_align_up (va_raw (ms_mmap_end ms) + len) = of_nat ((k + n) * 4096)"
    "of_nat ((k + n) * 4096) + PAGE_SIZE = of_nat ((k + n + 1) * 4096)"
proof -
  have len: "unat len \<le> n * 4096"
    using n(1) div_mult_mod_eq [of "unat len + 4095" 4096] mod_less_divisor [of 4096 "unat len + 4095"] by linarith
  have u: "unat (va_raw (ms_mmap_end ms)) = k * 4096" using e n(2) by (simp only: VirtAddr.sel page_word)
  have s: "unat (va_raw (ms_mmap_end ms) + len) = k * 4096 + unat len"
    using u len n(2) by (subst unat_add_small) simp_all
  show "page_align_up (va_raw (ms_mmap_end ms)) = of_nat (k * 4096)"
    using n(2) by (subst page_align_up_word) (simp_all only: u, simp_all)
  have "(k * 4096 + unat len + 4095) div 4096 = k + n"
    unfolding n(1) by (simp add: add.assoc div_mult_self3)
  then show "page_align_up (va_raw (ms_mmap_end ms) + len) = of_nat ((k + n) * 4096)"
    using n(2) len by (subst page_align_up_word) (simp_all only: s, simp_all)
  show "of_nat ((k + n) * 4096) + PAGE_SIZE = of_nat ((k + n + 1) * 4096)"
    by (simp add: config algebra_simps)
qed

text \<open>C25. An anonymous mapping without \<^verbatim>\<open>MAP_FIXED\<close>: \<^verbatim>\<open>mmap\<close> returns the old end of the mapping
  area, maps exactly the pages that cover the length, each to its own new frame full of zeros,
  readable, writable and executable for the user, changes no other translation, and moves the
  end of the mapping area past the new pages, so that later mappings are disjoint from it.\<close>

theorem mmap_anonymous_correct:
  assumes inv: "pt_inv l (ms_page_table ms) s" and area: "bt_sorted (ms_mmap_area ms)"
    and e: "ms_mmap_end ms = VirtAddr (of_nat (k * 4096))"
    and flags: "flags_contains flags MAP_ANONYMOUS" "\<not> (flags_contains flags MAP_FIXED \<and> start_addr \<noteq> 0)"
    and n: "n = (unat len + 4095) div 4096" "k + n + 1 < 2 ^ 27"
    and free: "free_range (ms_page_table ms, s) (of_nat k) n"
      "\<forall>i < n. bt_get (VirtPageNum (of_nat k + of_nat i)) (ms_mmap_area ms) = None"
    and left: "3 * n \<le> mm_left s"
  shows "\<exists>ms' s'. MemorySet_mmap start_addr len offset context flags (ms, s) =
      Inr (va_raw (ms_mmap_end ms), ms', s') \<and> pt_inv l (ms_page_table ms') s' \<and>
    (\<forall>i < n. \<exists>f. pt_view (ms_page_table ms', s') (VirtPageNum (of_nat k + of_nat i)) =
        Some (map_entry f FLAGS_RWUX) \<and> mm_current s \<le> unat (ppn_raw f) \<and>
        (\<forall>j. bytes_array (mm_mem s') f j = 0)) \<and>
    (\<forall>v. (\<forall>i < n. v \<noteq> VirtPageNum (of_nat k + of_nat i)) \<longrightarrow>
        pt_view (ms_page_table ms', s') v = pt_view (ms_page_table ms, s) v) \<and>
    ms_mmap_end ms' = VirtAddr (of_nat ((k + n + 1) * 4096))"
proof -
  define vs where "vs = map (\<lambda>i. VirtPageNum (of_nat k + of_nat i)) [0..<n]"
  note b = mmap_bounds [OF e n]
  have kn: "k < 2 ^ 27" "k + n < 2 ^ 27" using n(2) by simp_all
  have rng: "VPNRange_new (VirtPageNum (of_nat k)) (VirtPageNum (of_nat (k + n))) =
      Inr \<lparr> range_l = VirtPageNum (of_nat k), range_r = VirtPageNum (of_nat (k + n)) \<rparr>"
    "VPNRange_vpns \<lparr> range_l = VirtPageNum (of_nat k), range_r = VirtPageNum (of_nat (k + n)) \<rparr> = vs"
    using page_range [of k "k + n"] kn by (simp_all only: vs_def) simp_all
  have vs: "distinct vs" unfolding rng(2) [symmetric] by (simp add: VPNRange_vpns_def distinct_range_iter)
  let ?ms = "ms\<lparr> ms_mmap_end := VirtAddr (of_nat ((k + n + 1) * 4096)) \<rparr>"
  have pages: "\<forall>v \<in> set vs. legal_vpn v" "\<forall>v \<in> set vs. bt_get v (ms_mmap_area ?ms) = None"
    "\<forall>v \<in> set vs. pt_view (ms_page_table ?ms, s) v = None" "3 * length vs \<le> mm_left s"
    "pt_inv l (ms_page_table ?ms) s" "bt_sorted (ms_mmap_area ?ms)"
    using free left inv area by (auto simp: vs_def free_range_def)
  obtain pt' s' fs where m: "foldR map_one vs (as_area (ms_mmap_area ?ms) FLAGS_RWUX, ms_page_table ?ms, s) =
      Inr (as_area (fold (\<lambda>(v, f). bt_put v f) (zip vs fs) (ms_mmap_area ?ms)) FLAGS_RWUX, pt', s')"
    and len: "length fs = n" and fr: "area_frames_fresh (mm_current s) (zip vs fs) pt' s'"
    and inv': "pt_inv l pt' s'"
    and view: "pt_view (pt', s') = pt_view (ms_page_table ms, s) ++ area_view FLAGS_RWUX (zip vs fs)"
    using as_area_pages [OF pages(5,1) vs pages(6,2-4), of FLAGS_RWUX] by (auto simp: vs_def)
  define ms' where "ms' = ?ms\<lparr> ms_page_table := pt',
    ms_mmap_area := fold (\<lambda>(v, f). bt_put v f) (zip vs fs) (ms_mmap_area ms) \<rparr>"
  have "foldR mmap_page vs (?ms, s) = Inr (ms', s')"
    unfolding mmap_pages_map_list m by (simp add: as_area_def ms'_def)
  then have "MemorySet_mmap start_addr len offset context flags (ms, s) = Inr (of_nat (k * 4096), ms', s')"
    using flags unfolding MemorySet_mmap_def
    by (simp only: Let_def prod.case if_False simp_thms b page_word [OF kn(1)] page_word [OF kn(2)]
        page_word [OF n(2)] bindR_simps rng if_True) simp
  moreover have "pt_inv l (ms_page_table ms') s'" "ms_mmap_end ms' = VirtAddr (of_nat ((k + n + 1) * 4096))"
    using inv' by (simp_all only: ms'_def) simp_all
  moreover note z = mapped_zero_pages [OF inv' fr vs_def vs len view]
  ultimately show ?thesis
    using z unfolding e by (intro exI [of _ ms'] exI [of _ s']) (simp add: ms'_def)
qed
theorem mmap_anonymous_witness:
  "\<exists>ms s ms' s'. MemorySet_new_bare example_mm = Inr (ms, s) \<and>
     MemorySet_mmap 0 5000 0 [] 0x22 (ms, s) = Inr (MMAP_BASE, ms', s') \<and>
     pt_view (ms_page_table ms', s') (VirtPageNum 0x20001) \<noteq> None \<and>
     pt_view (ms_page_table ms', s') (VirtPageNum 0x20002) = None"
proof -
  obtain ms s where e: "MemorySet_new_bare example_mm = Inr (ms, s)" "pt_inv 1 (ms_page_table ms) s"
    "mm_left s = 98" "pt_view (ms_page_table ms, s) = Map.empty"
    "ms_mmap_area ms = []" "ms_mmap_end ms = VirtAddr MMAP_BASE"
    by (rule example_memory_set)
  have h: "bt_sorted (ms_mmap_area ms)" "ms_mmap_end ms = VirtAddr (of_nat (0x20000 * 4096))"
    "flags_contains 0x22 MAP_ANONYMOUS" "\<not> (flags_contains 0x22 MAP_FIXED \<and> (0 :: usize) \<noteq> 0)"
    "2 = (unat (5000 :: usize) + 4095) div 4096" "0x20000 + 2 + 1 < (2 :: nat) ^ 27"
    "free_range (ms_page_table ms, s) (of_nat 0x20000) 2"
    "\<forall>i < 2. bt_get (VirtPageNum (of_nat 0x20000 + of_nat i)) (ms_mmap_area ms) = None" "3 * 2 \<le> mm_left s"
    using e by (auto simp: bt_sorted_def config flags_contains_def MAP_ANONYMOUS_def intro: example_free_range)
  obtain ms' s' where r: "MemorySet_mmap 0 5000 0 [] 0x22 (ms, s) = Inr (va_raw (ms_mmap_end ms), ms', s')"
    "\<forall>i < 2. \<exists>f. pt_view (ms_page_table ms', s') (VirtPageNum (of_nat 0x20000 + of_nat i)) =
        Some (map_entry f FLAGS_RWUX) \<and> mm_current s \<le> unat (ppn_raw f) \<and>
        (\<forall>j. bytes_array (mm_mem s') f j = 0)"
    "\<forall>v. (\<forall>i < 2. v \<noteq> VirtPageNum (of_nat 0x20000 + of_nat i)) \<longrightarrow>
        pt_view (ms_page_table ms', s') v = pt_view (ms_page_table ms, s) v"
    using mmap_anonymous_correct [OF e(2) h] by blast
  have "pt_view (ms_page_table ms', s') (VirtPageNum 0x20001) \<noteq> None"
    using r(2) [rule_format, of 1] by auto
  moreover have "\<forall>i < 2. VirtPageNum 0x20002 \<noteq> VirtPageNum (of_nat 0x20000 + of_nat i)"
    by (auto simp: less_2_cases_iff)
  then have "pt_view (ms_page_table ms', s') (VirtPageNum 0x20002) = None"
    using r(3) e(4) by simp
  ultimately show ?thesis using e(1,6) r(1) by auto
qed

lemma drop_frame_opt_keeps:
  assumes "drop_frame_opt f s = Inr s'"
  shows "mm_mem s' = mm_mem s" "mm_live l s' = mm_live l s - set_option f"
proof -
  show "mm_mem s' = mm_mem s"
    using assms by (auto simp: drop_frame_opt_def FrameTracker_drop_def frame_dealloc_def bindR_eq_Inr split: option.splits)
  have inj: "inj FrameTracker" "inj PhysPageNum" by (auto intro: injI)
  show "mm_live l s' = mm_live l s - set_option f"
  proof (cases f)
    case (Some ft)
    obtain p where ft: "ft = FrameTracker (PhysPageNum p)" by (cases ft, cases "ft_ppn ft") auto
    have s': "s' = s\<lparr> mm_falloc := (mm_falloc s)\<lparr> fa_recycled := fa_recycled (mm_falloc s) @ [p] \<rparr> \<rparr>"
      using assms Some ft
      by (auto simp: drop_frame_opt_def FrameTracker_drop_def frame_dealloc_def fa_dealloc_def bindR_eq_Inr split: if_splits)
    then show ?thesis
      using Some ft by (auto simp: mm_live_def fa_live_def)
  qed (use assms in \<open>simp add: drop_frame_opt_def\<close>)
qed

lemma munmap_page_eq:
  "munmap_page v (ms, s) = bindR (drop_frame_opt (bt_get v (ms_mmap_area ms)) s) (\<lambda>s'.
     Inr (ms\<lparr> ms_mmap_area := bt_del v (ms_mmap_area ms) \<rparr>, s'))"
  by (simp add: munmap_page_def bt_remove_def)

lemma munmap_pages_keep:
  assumes "foldR munmap_page vs (ms, s) = Inr (ms', s')"
  shows "ms_page_table ms' = ms_page_table ms \<and> mm_mem s' = mm_mem s \<and> mm_live l s' \<subseteq> mm_live l s \<and>
    (\<forall>v \<in> set vs. bt_get v (ms_mmap_area ms') = None \<and>
      (\<forall>f. bt_get v (ms_mmap_area ms) = Some f \<longrightarrow> f \<notin> mm_live l s')) \<and>
    (\<forall>v. v \<notin> set vs \<longrightarrow> bt_get v (ms_mmap_area ms') = bt_get v (ms_mmap_area ms))"
  using assms
proof (induction vs arbitrary: ms s)
  case (Cons v vs)
  let ?ms1 = "ms\<lparr> ms_mmap_area := bt_del v (ms_mmap_area ms) \<rparr>"
  obtain s1 where 1: "drop_frame_opt (bt_get v (ms_mmap_area ms)) s = Inr s1"
    "foldR munmap_page vs (?ms1, s1) = Inr (ms', s')"
    using Cons.prems by (auto simp: munmap_page_eq bindR_eq_Inr)
  note d = drop_frame_opt_keeps [OF 1(1)]
  have ih: "ms_page_table ms' = ms_page_table ?ms1" "mm_mem s' = mm_mem s1" "mm_live l s' \<subseteq> mm_live l s1"
    "\<And>w f. \<lbrakk> w \<in> set vs; bt_get w (ms_mmap_area ?ms1) = Some f \<rbrakk> \<Longrightarrow> f \<notin> mm_live l s'"
    "\<And>w. w \<in> set vs \<Longrightarrow> bt_get w (ms_mmap_area ms') = None"
    "\<And>w. w \<notin> set vs \<Longrightarrow> bt_get w (ms_mmap_area ms') = bt_get w (ms_mmap_area ?ms1)"
    using Cons.IH [OF 1(2)] by blast+
  have live: "mm_live l s' \<subseteq> mm_live l s - set_option (bt_get v (ms_mmap_area ms))"
    using ih(3) unfolding d(2) .
  have gone: "f \<notin> mm_live l s'" if "w \<in> set (v # vs)" "bt_get w (ms_mmap_area ms) = Some f" for w f
  proof (cases "w = v")
    case True
    then show ?thesis using that(2) live by auto
  next
    case False
    then show ?thesis using that ih(4) [of w f] by (simp add: bt_get_del)
  qed
  have none: "bt_get w (ms_mmap_area ms') = None" if "w \<in> set (v # vs)" for w
    using that ih(5) [of w] ih(6) [of w] by (cases "w \<in> set vs") (auto simp: bt_get_del)
  have other: "bt_get w (ms_mmap_area ms') = bt_get w (ms_mmap_area ms)" if "w \<notin> set (v # vs)" for w
    using that ih(6) [of w] by (simp add: bt_get_del)
  show ?case
    using ih(1,2) d(1) live gone none other by (intro conjI ballI allI impI) auto
qed auto

text \<open>\<^verbatim>\<open>munmap\<close> only takes frames out of the mapping area: a page in the range has its frame
  given back to the frame allocator, yet the page table is not touched, so the page still
  translates to the frame that was just freed.\<close>

theorem munmap_keeps_translations:
  assumes "MemorySet_munmap start_addr len (ms, s) = Inr (r, ms', s')"
    and "VirtAddr_from_usize (page_align_up start_addr) = Inr sa"
    and "VirtAddr_from_usize (page_align_up (start_addr + len)) = Inr ea"
    and "VirtAddr_floor sa \<le> v" "v < VirtAddr_floor ea" "bt_get v (ms_mmap_area ms) = Some f"
  shows "r = SUCCESS \<and> bt_get v (ms_mmap_area ms') = None \<and> f \<notin> mm_live l s' \<and>
    pt_view (ms_page_table ms', s') = pt_view (ms_page_table ms, s)"
proof -
  obtain rng where rng: "VPNRange_new (VirtAddr_floor sa) (VirtAddr_floor ea) = Inr rng"
    and run: "foldR munmap_page (VPNRange_vpns rng) (ms, s) = Inr (ms', s')" "r = SUCCESS"
    using assms(1-3) by (auto simp: MemorySet_munmap_def bindR_eq_Inr split: prod.splits)
  have v: "v \<in> set (VPNRange_vpns rng)" using VPNRange_vpns_set [OF rng] assms(4,5) by simp
  note k = munmap_pages_keep [OF run(1), of l]
  have "pt_view (ms_page_table ms', s') = pt_view (ms_page_table ms, s)"
    using k by (intro ext) (simp add: pt_view_def)
  then show ?thesis using k v assms(6) run(2) by blast
qed

definition example_mmapped :: "MemorySet \<times> MM" where
  "example_mmapped =
     (\<lparr> ms_page_table = \<lparr> pt_root_ppn = PhysPageNum 1, pt_frames = [] \<rparr>, ms_areas = [], ms_heap_area = [],
        ms_mmap_area = [(VirtPageNum 0x20000, FrameTracker (PhysPageNum 5))],
        ms_mmap_base = VirtAddr 0x20000000, ms_mmap_end = VirtAddr 0x20002000 \<rparr>,
      \<lparr> mm_falloc = \<lparr> fa_current = 10, fa_end = 100, fa_recycled = [] \<rparr>, mm_mem = (\<lambda>_ _. 0) \<rparr>)"

theorem munmap_keeps_translations_witness:
  "\<exists>ms' s'. MemorySet_munmap 0x20000000 4096 example_mmapped = Inr (SUCCESS, ms', s') \<and>
     FrameTracker (PhysPageNum 5) \<in> mm_live 1 (snd example_mmapped) \<and>
     FrameTracker (PhysPageNum 5) \<notin> mm_live 1 s'"
proof -
  have al: "page_align_up 0x20000000 = 0x20000000" "page_align_up 0x20001000 = 0x20001000"
    by (simp_all add: page_align_up_def config)
  have va: "VirtAddr_from_usize 0x20000000 = Inr (VirtAddr 0x20000000)"
    "VirtAddr_from_usize 0x20001000 = Inr (VirtAddr 0x20001000)"
    by (simp_all add: VirtAddr_from_usize_small)
  have rng: "VPNRange_new (VirtPageNum 0x20000) (VirtPageNum 0x20001) =
      Inr \<lparr> range_l = VirtPageNum 0x20000, range_r = VirtPageNum 0x20001 \<rparr>"
    "VPNRange_vpns \<lparr> range_l = VirtPageNum 0x20000, range_r = VirtPageNum 0x20001 \<rparr> = [VirtPageNum 0x20000]"
    by (simp_all add: VPNRange_new_def assertR_def less_eq_VirtPageNum_def VPNRange_vpns_def range_iter_eq)
  have fl: "VirtAddr_floor (VirtAddr 0x20000000) = VirtPageNum 0x20000"
    "VirtAddr_floor (VirtAddr 0x20001000) = VirtPageNum 0x20001"
    by (simp_all add: VirtAddr_floor_def config)
  have "\<exists>ms' s'. MemorySet_munmap 0x20000000 4096 example_mmapped = Inr (SUCCESS, ms', s')"
    by (simp add: MemorySet_munmap_def al va fl rng munmap_page_eq example_mmapped_def bt_get_def
        drop_frame_opt_def FrameTracker_drop_def frame_dealloc_def fa_dealloc_def)
  then obtain ms' s' where r: "MemorySet_munmap 0x20000000 4096 (fst example_mmapped, snd example_mmapped) =
      Inr (SUCCESS, ms', s')" by auto
  have "FrameTracker (PhysPageNum 5) \<notin> mm_live 1 s'"
    using munmap_keeps_translations [OF r, of "VirtAddr 0x20000000" "VirtAddr 0x20001000" "VirtPageNum 0x20000"
        "FrameTracker (PhysPageNum 5)" 1] al va
    by (simp add: fl example_mmapped_def bt_get_def less_eq_VirtPageNum_def less_VirtPageNum_def)
  moreover have "FrameTracker (PhysPageNum 5) \<in> mm_live 1 (snd example_mmapped)"
    by (simp add: mm_live_def fa_live_def example_mmapped_def)
  ultimately show ?thesis using r by auto
qed

text \<open>A page that is already mapped cannot be mapped again: the round of \<^verbatim>\<open>map_heap\<close> panics.\<close>

lemma map_heap_page_panics:
  assumes inv: "pt_inv l (ms_page_table ms) s" and v: "legal_vpn (VirtAddr_floor cur)"
    "pt_view (ms_page_table ms, s) (VirtAddr_floor cur) \<noteq> None"
  shows "\<exists>e. map_heap_page cur (ms, s) = Inl e"
proof -
  have inv2: "pt_inv2 l (ms_page_table ms, s)" using inv by (simp add: pt_inv2_def)
  have mm: "mm_inv l s" using inv by (simp add: pt_inv_def)
  obtain r s1 where al: "frame_alloc s = Inr (r, s1)" using mm.alloc_total [OF mm] by blast
  show ?thesis
  proof (cases r)
    case None
    then show ?thesis using al by (simp add: map_heap_page_def unwrapR_def)
  next
    case (Some f)
    have take: "pt_take_frame (ms_page_table ms, s) = Inr (ft_ppn f, (ms_page_table ms, s1))"
      using al Some by (simp add: pt_take_frame_def unwrapR_def)
    have t: "pt_inv l (ms_page_table ms) s1" "pt_view (ms_page_table ms, s1) = pt_view (ms_page_table ms, s)"
      using ptf.take_frame_ok [OF inv2 take] by (simp_all add: pt_inv2_def)
    have "\<exists>e. PageTable_map (VirtAddr_floor cur) (ft_ppn f) FLAGS_URW (ms_page_table ms, s1) = Inl e"
      using PageTable_map_spec(3) [OF t(1) v(1)] v(2) t(2)
      by (cases "PageTable_map (VirtAddr_floor cur) (ft_ppn f) FLAGS_URW (ms_page_table ms, s1)") auto
    then show ?thesis using al Some by (auto simp: map_heap_page_def unwrapR_def)
  qed
qed

text \<open>Growing the heap panics once its end is inside a mapped page: \<^verbatim>\<open>sys_brk\<close> starts mapping
  at the page that holds the current end, so after a call has moved the end down to an
  address inside the heap, the next call past that page maps a mapped page and the assertion in
  \<^verbatim>\<open>PageTable::map\<close> stops the kernel.\<close>

theorem sys_brk_regrow_panics:
  assumes "pt_inv l (ms_page_table (brk_memory_set b)) s"
    and "legal_vpn (VirtAddr_floor (brk_heap_end b))"
    and "pt_view (ms_page_table (brk_memory_set b), s) (VirtAddr_floor (brk_heap_end b)) \<noteq> None"
    and "addr \<noteq> 0" "va_raw (brk_heap_base b) \<le> addr" "page_align_up (va_raw (brk_heap_end b)) < addr"
    and "va_raw (brk_heap_end b) < page_align_up addr"
  shows "\<exists>e. sys_brk addr (b, s) = Some (Inl e)"
proof -
  have c: "\<not> addr < va_raw (brk_heap_base b)" "\<not> addr \<le> page_align_up (va_raw (brk_heap_end b))"
    using assms(5,6) by (simp_all add: not_less not_le)
  show ?thesis
  proof (cases "VirtAddr_from_usize (page_align_up addr)")
    case (Inl e)
    then show ?thesis using assms(4) c by (simp add: sys_brk_def Let_def)
  next
    case (Inr aim)
    then have aim: "va_raw aim = page_align_up addr"
      by (auto simp: VirtAddr_from_usize_def Let_def bindR_eq_Inr)
    obtain e where "map_heap_page (brk_heap_end b) (brk_memory_set b, s) = Inl e"
      using map_heap_page_panics [OF assms(1-3)] by blast
    then have "map_heap (brk_heap_end b) aim (brk_memory_set b, s) = Some (Inl e)"
      using assms(7) aim by (subst map_heap.simps) simp
    then show ?thesis using assms(4) c Inr by (simp add: sys_brk_def Let_def)
  qed
qed

lemma map_heap_page_map_one:
  assumes "bt_get (VirtAddr_floor cur) (ms_heap_area ms) = None"
    and "VirtAddr_from_usize (va_raw cur + PAGE_SIZE) = Inr nxt"
  shows "map_heap_page cur (ms, s) =
    bindR (map_one (VirtAddr_floor cur) (as_area (ms_heap_area ms) FLAGS_URW, ms_page_table ms, s)) (\<lambda>(area, pt, s').
      Inr (nxt, ms\<lparr> ms_page_table := pt, ms_heap_area := ma_data_frames area \<rparr>, s'))"
  using assms
  by (auto simp: map_heap_page_def map_one_def as_area_def bt_insert_def bindR_def Let_def drop_frame_opt_def
      split: sum.splits option.splits prod.splits)

lemma map_one_as_area:
  assumes "bt_get v t = None" "map_one v (as_area t perm, pt, s) = Inr (area, pt', s')"
  shows "\<exists>f. area = as_area (bt_put v f t) perm"
  using assms by (auto simp: map_one_def as_area_def bt_insert_def bindR_eq_Inr split: prod.splits)

lemma map_heap_map_list:
  assumes "k + n < 2 ^ 27" "bt_sorted (ms_heap_area ms)"
    and "\<forall>i < n. bt_get (VirtPageNum (of_nat (k + i))) (ms_heap_area ms) = None"
  shows "map_heap (VirtAddr (of_nat (k * 4096))) (VirtAddr (of_nat ((k + n) * 4096))) (ms, s) =
    Some (bindR (foldR map_one (map (\<lambda>i. VirtPageNum (of_nat (k + i))) [0..<n])
        (as_area (ms_heap_area ms) FLAGS_URW, ms_page_table ms, s)) (\<lambda>(area, pt, s').
      Inr (ms\<lparr> ms_page_table := pt, ms_heap_area := ma_data_frames area \<rparr>, s')))"
  using assms
proof (induction n arbitrary: k ms s)
  case 0
  then show ?case by (subst map_heap.simps) (simp add: as_area_def)
next
  case (Suc n)
  have kn: "k < 2 ^ 27" "Suc k < 2 ^ 27" "k + Suc n < 2 ^ 27" using Suc.prems(1) by simp_all
  have less: "\<not> va_raw (VirtAddr (of_nat ((k + Suc n) * 4096))) \<le> va_raw (VirtAddr (of_nat (k * 4096)))"
    by (simp only: VirtAddr.sel word_le_nat_alt page_word [OF kn(1)] page_word [OF kn(3)]) simp
  have nxt: "VirtAddr_from_usize (va_raw (VirtAddr (of_nat (k * 4096))) + PAGE_SIZE) =
      Inr (VirtAddr (of_nat (Suc k * 4096)))"
    using page_word(2) [OF kn(2)] by (simp add: config algebra_simps)
  let ?v = "VirtPageNum (of_nat k)"
  have v: "bt_get ?v (ms_heap_area ms) = None" using Suc.prems(3) [rule_format, of 0] by simp
  note page = map_heap_page_map_one [of "VirtAddr (of_nat (k * 4096))" ms, unfolded page_word(3) [OF kn(1)], OF v nxt]
  have upt: "map (\<lambda>i. VirtPageNum (of_nat (k + i))) [0..<Suc n] =
      ?v # map (\<lambda>i. VirtPageNum (of_nat (Suc k + i))) [0..<n]"
    by (simp add: upt_conv_Cons map_Suc_upt [symmetric] comp_def del: upt_Suc)
  show ?case
  proof (cases "map_one ?v (as_area (ms_heap_area ms) FLAGS_URW, ms_page_table ms, s)")
    case (Inl e)
    then show ?thesis using less page [of s] unfolding upt by (subst map_heap.simps) simp
  next
    case (Inr y)
    obtain area pt s1 where y: "y = (area, pt, s1)" by (cases y)
    obtain f where area: "area = as_area (bt_put ?v f (ms_heap_area ms)) FLAGS_URW"
      using map_one_as_area [OF v Inr [unfolded y]] by blast
    let ?ms = "ms\<lparr> ms_page_table := pt, ms_heap_area := bt_put ?v f (ms_heap_area ms) \<rparr>"
    have other: "bt_get (VirtPageNum (of_nat (Suc k + i))) (ms_heap_area ?ms) = None" if i: "i < n" for i
    proof -
      have "unat (of_nat (Suc k + i) :: usize) = Suc k + i" "unat (of_nat k :: usize) = k"
        using Suc.prems(1) i by (intro unat_usize_of_nat, simp)+
      then have "VirtPageNum (of_nat (Suc k + i)) \<noteq> ?v" by (metis VirtPageNum.inject add_Suc less_irrefl_nat less_add_Suc1)
      moreover have "bt_get (VirtPageNum (of_nat (Suc k + i))) (ms_heap_area ms) = None"
        using Suc.prems(3) [rule_format, of "Suc i"] i by simp
      ultimately show ?thesis using Suc.prems(2) by (simp add: bt_get_put)
    qed
    have "map_heap (VirtAddr (of_nat (k * 4096))) (VirtAddr (of_nat ((k + Suc n) * 4096))) (ms, s) =
        map_heap (VirtAddr (of_nat (Suc k * 4096))) (VirtAddr (of_nat ((Suc k + n) * 4096))) (?ms, s1)"
      using less page [of s] Inr unfolding y area by (subst map_heap.simps) (simp add: as_area_def)
    then show ?thesis
      using Suc.IH [of "Suc k" ?ms s1] kn(3) Suc.prems(2) other Inr unfolding upt y area
      by (simp add: bt_sorted_put)
  qed
qed

lemma page_count_small: "\<lbrakk> q = (x + 4095) div 4096; q + 1 < 2 ^ 27 \<rbrakk> \<Longrightarrow> x + 4095 < (2 :: nat) ^ 64"
  by (simp add: div_less_iff_less_mult less_diff_conv)

lemma sys_brk_grow:
  assumes inv: "pt_inv l (ms_page_table (brk_memory_set b)) s" and heap: "bt_sorted (ms_heap_area (brk_memory_set b))"
    and e: "brk_heap_end b = VirtAddr (of_nat (k * 4096))" and base: "va_raw (brk_heap_base b) \<le> of_nat (k * 4096)"
    and addr: "k * 4096 < unat addr" "k + n = (unat addr + 4095) div 4096" "k + n + 1 < 2 ^ 27"
    and free: "free_range (ms_page_table (brk_memory_set b), s) (of_nat k) n"
      "\<forall>i < n. bt_get (VirtPageNum (of_nat k + of_nat i)) (ms_heap_area (brk_memory_set b)) = None"
    and left: "3 * n \<le> mm_left s"
  shows "\<exists>b' s'. sys_brk addr (b, s) = Some (Inr (addr, b', s')) \<and>
    pt_inv l (ms_page_table (brk_memory_set b')) s' \<and>
    brk_heap_end b' = VirtAddr (of_nat ((k + n) * 4096)) \<and> brk_heap_base b' = brk_heap_base b \<and>
    (\<forall>i < n. \<exists>f. pt_view (ms_page_table (brk_memory_set b'), s') (VirtPageNum (of_nat k + of_nat i)) =
        Some (map_entry f FLAGS_URW) \<and> mm_current s \<le> unat (ppn_raw f) \<and>
        (\<forall>j. bytes_array (mm_mem s') f j = 0)) \<and>
    (\<forall>v. (\<forall>i < n. v \<noteq> VirtPageNum (of_nat k + of_nat i)) \<longrightarrow>
        pt_view (ms_page_table (brk_memory_set b'), s') v = pt_view (ms_page_table (brk_memory_set b), s) v)"
proof -
  let ?ms = "brk_memory_set b"
  define vs where "vs = map (\<lambda>i. VirtPageNum (of_nat k + of_nat i)) [0..<n]"
  have kn: "k < 2 ^ 27" "k + n < 2 ^ 27" using addr(3) by simp_all
  have small: "unat addr + 4095 < 2 ^ 64"
    using addr(2,3) by (rule page_count_small)
  have al: "page_align_up addr = of_nat ((k + n) * 4096)"
    using page_align_up_word [OF small] addr(2) by simp
  have "page_align_up (of_nat (k * 4096)) = of_nat (k * 4096)"
    using kn(1) by (subst page_align_up_word) (simp_all only: page_word(1), simp_all)
  moreover have gt: "\<not> addr \<le> of_nat (k * 4096)"
    using addr(1) by (simp only: word_le_nat_alt page_word(1) [OF kn(1)] not_le)
  ultimately have c: "addr \<noteq> 0" "\<not> addr < va_raw (brk_heap_base b)" "\<not> addr \<le> page_align_up (va_raw (brk_heap_end b))"
    using base e gt by (auto simp del: of_nat_mult)
  have rng: "VPNRange_vpns \<lparr> range_l = VirtPageNum (of_nat k), range_r = VirtPageNum (of_nat (k + n)) \<rparr> = vs"
    using page_range(2) [of k "k + n"] kn(2) by (simp only: vs_def) simp
  have vs: "distinct vs" unfolding rng [symmetric] by (simp add: VPNRange_vpns_def distinct_range_iter)
  have pages: "\<forall>v \<in> set vs. legal_vpn v" "\<forall>v \<in> set vs. bt_get v (ms_heap_area ?ms) = None"
    "\<forall>v \<in> set vs. pt_view (ms_page_table ?ms, s) v = None" "3 * length vs \<le> mm_left s"
    using free left by (auto simp: vs_def free_range_def)
  obtain pt' s' fs where m: "foldR map_one vs (as_area (ms_heap_area ?ms) FLAGS_URW, ms_page_table ?ms, s) =
      Inr (as_area (fold (\<lambda>(v, f). bt_put v f) (zip vs fs) (ms_heap_area ?ms)) FLAGS_URW, pt', s')"
    and len: "length fs = n" and fr: "area_frames_fresh (mm_current s) (zip vs fs) pt' s'"
    and inv': "pt_inv l pt' s'"
    and view: "pt_view (pt', s') = pt_view (ms_page_table ?ms, s) ++ area_view FLAGS_URW (zip vs fs)"
    using as_area_pages [OF inv pages(1) vs heap pages(2-4), of FLAGS_URW] by (auto simp: vs_def)
  define ms' where "ms' = ?ms\<lparr> ms_page_table := pt',
    ms_heap_area := fold (\<lambda>(v, f). bt_put v f) (zip vs fs) (ms_heap_area ?ms) \<rparr>"
  have "map_heap (VirtAddr (of_nat (k * 4096))) (VirtAddr (of_nat ((k + n) * 4096))) (?ms, s) = Some (Inr (ms', s'))"
    using free(2) m by (subst map_heap_map_list [OF kn(2) heap]) (simp_all add: vs_def as_area_def ms'_def)
  then have "sys_brk addr (b, s) = Some (Inr (addr, b\<lparr> brk_memory_set := ms',
      brk_heap_end := VirtAddr (of_nat ((k + n) * 4096)) \<rparr>, s'))"
    using c e by (simp add: sys_brk_def Let_def al page_word(2) [OF kn(2)] del: of_nat_mult of_nat_add distrib_right_numeral)
  moreover note z = mapped_zero_pages [OF inv' fr vs_def vs len view]
  ultimately show ?thesis
    using z inv' by (intro exI [of _ "b\<lparr> brk_memory_set := ms', brk_heap_end := VirtAddr (of_nat ((k + n) * 4096)) \<rparr>"]
        exI [of _ s']) (simp add: ms'_def)
qed

text \<open>C26. Growing the heap from a page-aligned end: \<^verbatim>\<open>sys_brk\<close> returns the requested address, and
  every page between the old and the new end (rounded up) is mapped, readable and writable for
  the user, to its own new frame full of zeros; no other translation changes.\<close>

theorem sys_brk_grow_correct:
  assumes "pt_inv l (ms_page_table (brk_memory_set b)) s" "bt_sorted (ms_heap_area (brk_memory_set b))"
    and "brk_heap_end b = VirtAddr (of_nat (k * 4096))" "va_raw (brk_heap_base b) \<le> of_nat (k * 4096)"
    and "k * 4096 < unat addr" "k + n = (unat addr + 4095) div 4096" "k + n + 1 < 2 ^ 27"
    and "free_range (ms_page_table (brk_memory_set b), s) (of_nat k) n"
      "\<forall>i < n. bt_get (VirtPageNum (of_nat k + of_nat i)) (ms_heap_area (brk_memory_set b)) = None"
    and "3 * n \<le> mm_left s"
  shows "\<exists>b' s'. sys_brk addr (b, s) = Some (Inr (addr, b', s')) \<and>
    brk_heap_end b' = VirtAddr (page_align_up addr) \<and>
    (\<forall>i < n. \<exists>f. pt_view (ms_page_table (brk_memory_set b'), s') (VirtPageNum (of_nat k + of_nat i)) =
        Some (map_entry f FLAGS_URW) \<and> mm_current s \<le> unat (ppn_raw f) \<and>
        (\<forall>j. bytes_array (mm_mem s') f j = 0)) \<and>
    (\<forall>v. (\<forall>i < n. v \<noteq> VirtPageNum (of_nat k + of_nat i)) \<longrightarrow>
        pt_view (ms_page_table (brk_memory_set b'), s') v = pt_view (ms_page_table (brk_memory_set b), s) v)"
proof -
  have "unat addr + 4095 < 2 ^ 64"
    using assms(6,7) by (rule page_count_small)
  then have "page_align_up addr = of_nat ((k + n) * 4096)"
    using page_align_up_word assms(6) by simp
  then show ?thesis using sys_brk_grow [OF assms] by (auto simp del: of_nat_mult of_nat_add distrib_right_numeral)
qed

lemma example_brk:
  obtains b :: BrkState and s where "MemorySet_new_bare example_mm = Inr (brk_memory_set b, s)"
    "pt_inv 1 (ms_page_table (brk_memory_set b)) s" "bt_sorted (ms_heap_area (brk_memory_set b))"
    "brk_heap_end b = VirtAddr (of_nat (5 * 4096))" "va_raw (brk_heap_base b) \<le> of_nat (5 * 4096)"
    "free_range (ms_page_table (brk_memory_set b), s) (of_nat 5) 1"
    "\<forall>i < 1. bt_get (VirtPageNum (of_nat 5 + of_nat i)) (ms_heap_area (brk_memory_set b)) = None"
    "3 * 1 \<le> mm_left s" "brk_heap_base b = VirtAddr 0x5000"
proof -
  obtain ms s where e: "MemorySet_new_bare example_mm = Inr (ms, s)" "pt_inv 1 (ms_page_table ms) s"
    "mm_left s = 98" "pt_view (ms_page_table ms, s) = Map.empty" "ms_heap_area ms = []"
    by (rule example_memory_set)
  show ?thesis
  proof (rule that [of "\<lparr> brk_memory_set = ms, brk_heap_base = VirtAddr 0x5000, brk_heap_end = VirtAddr 0x5000 \<rparr>" s])
    show "free_range (ms_page_table (brk_memory_set \<lparr>brk_memory_set = ms, brk_heap_base = VirtAddr 0x5000,
        brk_heap_end = VirtAddr 0x5000\<rparr>), s) (of_nat 5) 1"
      using e(4) by (intro example_free_range) simp_all
  qed (use e in \<open>simp_all add: bt_sorted_def\<close>)
qed

theorem sys_brk_grow_correct_witness:
  "\<exists>b s b' s'. MemorySet_new_bare example_mm = Inr (brk_memory_set b, s) \<and>
     sys_brk 0x5010 (b, s) = Some (Inr (0x5010, b', s')) \<and>
     pt_view (ms_page_table (brk_memory_set b'), s') (VirtPageNum 5) \<noteq> None"
proof -
  obtain b :: BrkState and s where e: "MemorySet_new_bare example_mm = Inr (brk_memory_set b, s)"
    "pt_inv 1 (ms_page_table (brk_memory_set b)) s" "bt_sorted (ms_heap_area (brk_memory_set b))"
    "brk_heap_end b = VirtAddr (of_nat (5 * 4096))" "va_raw (brk_heap_base b) \<le> of_nat (5 * 4096)"
    "free_range (ms_page_table (brk_memory_set b), s) (of_nat 5) 1"
    "\<forall>i < 1. bt_get (VirtPageNum (of_nat 5 + of_nat i)) (ms_heap_area (brk_memory_set b)) = None"
    "3 * 1 \<le> mm_left s"
    by (rule example_brk)
  have a: "5 * 4096 < unat (0x5010 :: usize)" "5 + 1 = (unat (0x5010 :: usize) + 4095) div 4096"
    "5 + 1 + 1 < (2 :: nat) ^ 27" by simp_all
  obtain b' s' where r: "sys_brk 0x5010 (b, s) = Some (Inr (0x5010, b', s'))"
    "\<forall>i < 1. \<exists>f. pt_view (ms_page_table (brk_memory_set b'), s') (VirtPageNum (of_nat 5 + of_nat i)) =
        Some (map_entry f FLAGS_URW) \<and> mm_current s \<le> unat (ppn_raw f) \<and> (\<forall>j. bytes_array (mm_mem s') f j = 0)"
    using sys_brk_grow_correct [OF e(2-5) a e(6-8)] by blast
  then have "pt_view (ms_page_table (brk_memory_set b'), s') (VirtPageNum 5) \<noteq> None" by auto
  then show ?thesis using e(1) r(1) by blast
qed

theorem sys_brk_regrow_panics_witness:
  "\<exists>b s b' s' b'' e. MemorySet_new_bare example_mm = Inr (brk_memory_set b, s) \<and>
     sys_brk 0x5010 (b, s) = Some (Inr (0x5010, b', s')) \<and>
     sys_brk 0x5800 (b', s') = Some (Inr (0x6000, b'', s')) \<and>
     sys_brk 0x6800 (b'', s') = Some (Inl e)"
proof -
  obtain b :: BrkState and s where e: "MemorySet_new_bare example_mm = Inr (brk_memory_set b, s)"
    "pt_inv 1 (ms_page_table (brk_memory_set b)) s" "bt_sorted (ms_heap_area (brk_memory_set b))"
    "brk_heap_end b = VirtAddr (of_nat (5 * 4096))" "va_raw (brk_heap_base b) \<le> of_nat (5 * 4096)"
    "free_range (ms_page_table (brk_memory_set b), s) (of_nat 5) 1"
    "\<forall>i < 1. bt_get (VirtPageNum (of_nat 5 + of_nat i)) (ms_heap_area (brk_memory_set b)) = None"
    "3 * 1 \<le> mm_left s" "brk_heap_base b = VirtAddr 0x5000"
    by (rule example_brk)
  have a: "5 * 4096 < unat (0x5010 :: usize)" "5 + 1 = (unat (0x5010 :: usize) + 4095) div 4096"
    "5 + 1 + 1 < (2 :: nat) ^ 27" by simp_all
  obtain b' s' where r: "sys_brk 0x5010 (b, s) = Some (Inr (0x5010, b', s'))"
    "pt_inv 1 (ms_page_table (brk_memory_set b')) s'" "brk_heap_end b' = VirtAddr (of_nat ((5 + 1) * 4096))"
    "brk_heap_base b' = brk_heap_base b"
    "\<forall>i < 1. \<exists>f. pt_view (ms_page_table (brk_memory_set b'), s') (VirtPageNum (of_nat 5 + of_nat i)) =
        Some (map_entry f FLAGS_URW) \<and> mm_current s \<le> unat (ppn_raw f) \<and> (\<forall>j. bytes_array (mm_mem s') f j = 0)"
    using sys_brk_grow [OF e(2-5) a e(6-8)] by blast
  have al: "page_align_up 0x6000 = 0x6000" "page_align_up 0x5800 = 0x6000" "page_align_up 0x6800 = 0x7000"
    by (simp_all add: page_align_up_def config)
  let ?b = "b'\<lparr> brk_heap_end := VirtAddr 0x5800 \<rparr>"
  have 2: "sys_brk 0x5800 (b', s') = Some (Inr (0x6000, ?b, s'))"
    using r(3,4) e(9) by (simp add: sys_brk_def Let_def al VirtAddr_from_usize_small)
  have fl: "VirtAddr_floor (VirtAddr 0x5800) = VirtPageNum 5" by (simp add: VirtAddr_floor_def config)
  have "\<exists>e. sys_brk 0x6800 (?b, s') = Some (Inl e)"
  proof (rule sys_brk_regrow_panics)
    show "pt_inv 1 (ms_page_table (brk_memory_set ?b)) s'" using r(2) by simp
    show "pt_view (ms_page_table (brk_memory_set ?b), s') (VirtAddr_floor (brk_heap_end ?b)) \<noteq> None"
      using r(5) by (auto simp: fl)
    show "legal_vpn (VirtAddr_floor (brk_heap_end ?b))"
      by (simp add: fl legal_vpn_def VirtPageNum_from_usize_Inr)
  qed (use r(4) e(9) in \<open>simp_all add: al\<close>)
  then show ?thesis using e(1) r(1) 2 by blast
qed

end
