(* ===== verification/Task_Res.thy ===== *)
theory Task_Res
  imports Memory_Set
begin

text \<open>
  Identifiers and kernel stacks of tasks (\<^verbatim>\<open>os/src/task/res.rs\<close>): the allocator that hands out
  process and stack numbers, the positions of kernel stacks and trap contexts, and the kernel
  stack that is mapped into the kernel space.
\<close>

section \<open>Identifiers\<close>

record RecycleAllocator =
  ra_current :: usize
  ra_recycled :: "usize list"

definition RecycleAllocator_new :: RecycleAllocator where
  "RecycleAllocator_new = \<lparr> ra_current = 0, ra_recycled = [] \<rparr>"

text \<open>\<^verbatim>\<open>Vec::pop\<close> takes the last element and \<^verbatim>\<open>push\<close> appends.\<close>

definition ra_alloc :: "RecycleAllocator \<Rightarrow> usize \<times> RecycleAllocator" where
  "ra_alloc a =
     (if ra_recycled a \<noteq> [] then (last (ra_recycled a), a\<lparr> ra_recycled := butlast (ra_recycled a) \<rparr>)
      else (ra_current a + 1 - 1, a\<lparr> ra_current := ra_current a + 1 \<rparr>))"

definition ra_dealloc :: "usize \<Rightarrow> RecycleAllocator \<Rightarrow> RecycleAllocator res" where
  "ra_dealloc i a =
     bindR (assertR (i < ra_current a)) (\<lambda>_.
     bindR (assertR (\<not> (\<exists>j \<in> set (ra_recycled a). j = i))) (\<lambda>_.
       Inr (a\<lparr> ra_recycled := ra_recycled a @ [i] \<rparr>)))"

definition IDLE_PID :: usize where "IDLE_PID = 0"

section \<open>Positions\<close>

definition kernel_stack_position :: "usize \<Rightarrow> usize \<times> usize" where
  "kernel_stack_position kstack_id =
     (let bottom = MEMORY_END + kstack_id * (KERNEL_STACK_SIZE + PAGE_SIZE);
          top = bottom + KERNEL_STACK_SIZE
      in (bottom, top))"

definition trap_cx_bottom_from_tid :: "usize \<Rightarrow> usize" where
  "trap_cx_bottom_from_tid tid = TRAP_CONTEXT_BASE - tid * PAGE_SIZE"

definition ustack_bottom_from_tid :: "usize \<Rightarrow> usize \<Rightarrow> usize" where
  "ustack_bottom_from_tid ustack_base tid = ustack_base + tid * (PAGE_SIZE + USER_STACK_SIZE)"

definition ustack_top_from_id :: "usize \<Rightarrow> usize \<Rightarrow> usize" where
  "ustack_top_from_id ustack_top i = ustack_top - i * (PAGE_SIZE + USER_STACK_SIZE)"

section \<open>Kernel stacks\<close>

text \<open>The state is the stack allocator \<^verbatim>\<open>KSTACK_ALLOCATOR\<close> with the kernel space and physical memory.\<close>

definition kstack_alloc ::
  "RecycleAllocator \<times> MemorySet \<times> MM \<Rightarrow> (usize \<times> RecycleAllocator \<times> MemorySet \<times> MM) res" where
  "kstack_alloc = (\<lambda>(ids, kernel_space, s).
     let (kstack_id, ids') = ra_alloc ids;
         (kstack_bottom, kstack_top) = kernel_stack_position kstack_id
     in bindR (VirtAddr_from_usize kstack_bottom) (\<lambda>bottom_va.
        bindR (VirtAddr_from_usize kstack_top) (\<lambda>top_va.
        bindR (insert_framed_area bottom_va top_va (PERM_R OR PERM_W) (kernel_space, s)) (\<lambda>(space, s').
          Inr (kstack_id, ids', space, s')))))"

definition KernelStack_drop ::
  "usize \<Rightarrow> RecycleAllocator \<times> MemorySet \<times> MM \<Rightarrow> (RecycleAllocator \<times> MemorySet \<times> MM) res" where
  "KernelStack_drop kstack_id = (\<lambda>(ids, kernel_space, s).
     bindR (VirtAddr_from_usize (fst (kernel_stack_position kstack_id))) (\<lambda>bottom_va.
     bindR (VirtPageNum_from_VirtAddr bottom_va) (\<lambda>vpn.
     bindR (remove_area_with_start_vpn vpn (kernel_space, s)) (\<lambda>(space, s').
     bindR (ra_dealloc kstack_id ids) (\<lambda>ids'.
       Inr (ids', space, s'))))))"

definition KernelStack_get_top :: "usize \<Rightarrow> usize" where
  "KernelStack_get_top kstack_id = snd (kernel_stack_position kstack_id)"

definition push_on_top :: "usize \<Rightarrow> usize \<Rightarrow> usize" where
  "push_on_top kstack_id size_of_T = KernelStack_get_top kstack_id - size_of_T"

section \<open>The allocator keeps the contract of an allocator\<close>

definition ra_inv :: "usize \<Rightarrow> RecycleAllocator \<Rightarrow> bool" where
  "ra_inv limit a \<longleftrightarrow> ra_current a \<le> limit \<and> distinct (ra_recycled a) \<and>
     (\<forall>i \<in> set (ra_recycled a). i < ra_current a)"

definition ra_live :: "RecycleAllocator \<Rightarrow> usize set" where
  "ra_live a = {i. i < ra_current a} - set (ra_recycled a)"

text \<open>Numbers are 64 bits wide and are never exhausted in practice; the contract is stated up to a
  limit, beyond which the allocator is taken to have nothing to give.\<close>

definition ra_alloc_below :: "usize \<Rightarrow> RecycleAllocator \<Rightarrow> (usize option \<times> RecycleAllocator) res" where
  "ra_alloc_below limit a =
     (if ra_recycled a = [] \<and> ra_current a = limit then Inr (None, a)
      else let (i, a') = ra_alloc a in Inr (Some i, a'))"

lemma ra_alloc_fresh:
  assumes inv: "ra_inv limit a" and room: "ra_recycled a \<noteq> [] \<or> ra_current a < limit"
  shows "fst (ra_alloc a) \<notin> ra_live a" "ra_live (snd (ra_alloc a)) = insert (fst (ra_alloc a)) (ra_live a)"
    "ra_inv limit (snd (ra_alloc a))" "fst (ra_alloc a) < limit"
proof -
  have "fst (ra_alloc a) \<notin> ra_live a \<and> ra_live (snd (ra_alloc a)) = insert (fst (ra_alloc a)) (ra_live a) \<and>
    ra_inv limit (snd (ra_alloc a)) \<and> fst (ra_alloc a) < limit"
  proof (cases "ra_recycled a" rule: rev_cases)
    case Nil
    then have lt: "ra_current a < limit" using room by simp
    have "{i. i < ra_current a + 1} = insert (ra_current a) {i. i < ra_current a}"
      using unat_Suc_word [OF lt] by (auto simp: word_less_nat_alt less_Suc_eq word_unat_eq_iff)
    then show ?thesis
      using Nil lt word_plus_one_le [OF lt] by (simp add: ra_alloc_def ra_live_def ra_inv_def)
  next
    case (snoc ids i)
    then show ?thesis using inv by (auto simp: ra_alloc_def ra_live_def ra_inv_def)
  qed
  then show "fst (ra_alloc a) \<notin> ra_live a" "ra_live (snd (ra_alloc a)) = insert (fst (ra_alloc a)) (ra_live a)"
    "ra_inv limit (snd (ra_alloc a))" "fst (ra_alloc a) < limit" by blast+
qed

lemma ra_dealloc_live:
  assumes "ra_inv limit a" "i \<in> ra_live a"
  obtains b where "ra_dealloc i a = Inr b" "ra_live b = ra_live a - {i}" "ra_inv limit b"
  using assms by (intro that [of "a\<lparr> ra_recycled := ra_recycled a @ [i] \<rparr>"])
    (auto simp: ra_dealloc_def ra_live_def ra_inv_def)

interpretation ra: frame_source "ra_alloc_below limit" ra_dealloc ra_live "ra_inv limit" for limit
proof (unfold_locales, goal_cases)
  case (1 s)
  then show ?case by (simp add: ra_alloc_below_def split: prod.splits)
next
  case (2 s p s')
  then have "ra_recycled s \<noteq> [] \<or> ra_current s < limit" "p = fst (ra_alloc s)" "s' = snd (ra_alloc s)"
    by (auto simp: ra_alloc_below_def ra_inv_def order_less_le split: if_splits prod.splits)
  then show ?case using ra_alloc_fresh [OF 2(1)] by auto
next
  case (3 s s')
  then show ?case by (auto simp: ra_alloc_below_def split: if_splits prod.splits)
next
  case (4 s p)
  then show ?case by (auto elim: ra_dealloc_live)
qed

section \<open>Kernel stacks do not touch\<close>

text \<open>From the end of physical memory to the top of the address space there is room for more than
  seven million kernel stacks of eight pages with a guard page each.\<close>

definition MAX_KSTACKS :: usize where "MAX_KSTACKS = 7000000"

lemma kernel_stack_position_value:
  assumes "i < MAX_KSTACKS"
  shows "unat (fst (kernel_stack_position i)) = 0xffffffc088000000 + unat i * 0x9000"
    and "unat (snd (kernel_stack_position i)) = unat (fst (kernel_stack_position i)) + 0x8000"
proof -
  have i: "unat i < 7000000" using assms by (simp add: MAX_KSTACKS_def word_less_nat_alt)
  then have m: "unat (i * 0x9000) = unat i * 0x9000"
    using unat_mult_lem [of i "0x9000"] by simp
  then have b: "unat (0xffffffc088000000 + i * 0x9000) = 0xffffffc088000000 + unat i * 0x9000"
    using i unat_add_small [of "0xffffffc088000000" "i * 0x9000"] by simp
  then show "unat (fst (kernel_stack_position i)) = 0xffffffc088000000 + unat i * 0x9000"
    by (simp add: kernel_stack_position_def config Let_def)
  have "unat (0xffffffc088000000 + i * 0x9000 + 0x8000) = unat (0xffffffc088000000 + i * 0x9000) + 0x8000"
    using b i unat_add_small [of "0xffffffc088000000 + i * 0x9000" "0x8000"] by simp
  then show "unat (snd (kernel_stack_position i)) = unat (fst (kernel_stack_position i)) + 0x8000"
    by (simp add: kernel_stack_position_def config Let_def)
qed

lemma kernel_stack_gap:
  assumes "i < MAX_KSTACKS" "j < MAX_KSTACKS" "i < j"
  shows "unat (snd (kernel_stack_position i)) + 0x1000 \<le> unat (fst (kernel_stack_position j))"
proof -
  have "unat i + 1 \<le> unat j" using assms(3) by (simp add: word_less_nat_alt)
  then show ?thesis
    by (simp add: kernel_stack_position_value [OF assms(1)] kernel_stack_position_value [OF assms(2)])
qed

text \<open>The stack numbers in use after any sequence of allocations and releases from the start: each
  allocation adds the number it returned to the list, each release takes out one number that is
  in it.  At most \<^const>\<open>MAX_KSTACKS\<close> are in use at a time.\<close>

inductive stacks_held :: "usize list \<Rightarrow> RecycleAllocator \<Rightarrow> bool" where
  start: "stacks_held [] RecycleAllocator_new"
| alloc: "\<lbrakk> stacks_held held a; length held < unat MAX_KSTACKS; ra_alloc a = (i, b) \<rbrakk> \<Longrightarrow> stacks_held (i # held) b"
| dealloc: "\<lbrakk> stacks_held held a; i \<in> set held; ra_dealloc i a = Inr b \<rbrakk> \<Longrightarrow> stacks_held (remove1 i held) b"

lemma card_ra_live:
  assumes "ra_inv limit a"
  shows "card (ra_live a) + length (ra_recycled a) = unat (ra_current a)"
proof -
  have "n \<in> unat ` {i. i < ra_current a}" if "n < unat (ra_current a)" for n
  proof
    have "n < 2 ^ LENGTH(64)" using that unsigned_less [of "ra_current a", where ?'a = nat] by simp
    then show "n = unat (word_of_nat n :: usize)" by (simp add: unat_of_nat)
    then show "word_of_nat n \<in> {i. i < ra_current a}" using that by (simp add: word_less_nat_alt)
  qed
  then have "unat ` {i. i < ra_current a} = {..<unat (ra_current a)}" by (auto simp: word_less_nat_alt)
  moreover have "inj_on unat {i. i < ra_current a}" by (simp add: inj_on_def word_unat_eq_iff)
  ultimately have c: "card {i. i < ra_current a} = unat (ra_current a)" using card_image by fastforce
  have s: "set (ra_recycled a) \<subseteq> {i. i < ra_current a}" using assms by (auto simp: ra_inv_def)
  have "card (ra_live a) = unat (ra_current a) - length (ra_recycled a)"
    using assms s c by (simp add: ra_live_def card_Diff_subset distinct_card ra_inv_def)
  moreover have "length (ra_recycled a) \<le> unat (ra_current a)"
    using card_mono [OF _ s] assms c by (simp add: distinct_card ra_inv_def)
  ultimately show ?thesis by simp
qed

lemma stacks_held_inv:
  "stacks_held held a \<Longrightarrow> ra_inv MAX_KSTACKS a \<and> ra_live a = set held \<and> distinct held"
proof (induction rule: stacks_held.induct)
  case start
  show ?case by (simp add: ra_inv_def ra_live_def RecycleAllocator_new_def)
next
  case (alloc held a i b)
  have "ra_recycled a \<noteq> [] \<or> ra_current a < MAX_KSTACKS"
    using card_ra_live [of MAX_KSTACKS a] alloc by (auto simp: distinct_card word_less_nat_alt)
  then show ?case using ra_alloc_fresh [of MAX_KSTACKS a] alloc by auto
next
  case (dealloc held a i b)
  then show ?case using ra_dealloc_live [of MAX_KSTACKS a i] by (auto simp: distinct_remove1)
qed

lemma stacks_apart:
  assumes "i < MAX_KSTACKS" "j < MAX_KSTACKS" "i \<noteq> j"
  shows "snd (kernel_stack_position i) + 0x1000 \<le> fst (kernel_stack_position j) \<or>
      snd (kernel_stack_position j) + 0x1000 \<le> fst (kernel_stack_position i)"
proof -
  have top: "unat (snd (kernel_stack_position k) + 0x1000) = unat (snd (kernel_stack_position k)) + 0x1000"
    if "k < MAX_KSTACKS" for k
    using that kernel_stack_position_value [OF that]
      unat_add_small [of "snd (kernel_stack_position k)" "0x1000"]
    by (simp add: MAX_KSTACKS_def word_less_nat_alt)
  show ?thesis
    using assms(3) kernel_stack_gap [OF assms(1,2)] kernel_stack_gap [OF assms(2,1)] top [OF assms(1)] top [OF assms(2)]
    by (cases i j rule: linorder_cases) (simp_all add: word_le_nat_alt)
qed

text \<open>
  C36.  Kernel stacks never touch.  After any sequence of allocations and releases from the start
  with at most seven million stacks in use at a time, the numbers in use are all different; their
  stacks are eight pages long, lie above the end of physical memory, do not wrap around and are
  pairwise at least a page apart, so there is a guard page below every stack; releasing one that is
  in use does not panic.  The number that \<^verbatim>\<open>kstack_alloc\<close> returns next is again one
  of such a sequence, and so are the numbers that stay in use when a stack is dropped.
\<close>
theorem kernel_stacks_apart:
  assumes "stacks_held held a"
  shows "distinct held \<and>
    (\<forall>i \<in> set held. \<forall>j \<in> set held. i \<noteq> j \<longrightarrow>
      snd (kernel_stack_position i) + 0x1000 \<le> fst (kernel_stack_position j) \<or>
      snd (kernel_stack_position j) + 0x1000 \<le> fst (kernel_stack_position i)) \<and>
    (\<forall>i \<in> set held. MEMORY_END \<le> fst (kernel_stack_position i) \<and>
      unat (snd (kernel_stack_position i)) = unat (fst (kernel_stack_position i)) + unat KERNEL_STACK_SIZE \<and>
      (\<exists>b. ra_dealloc i a = Inr b)) \<and>
    (\<forall>m i b m'. length held < 7000000 \<and> kstack_alloc (a, m) = Inr (i, b, m') \<longrightarrow>
      i \<notin> set held \<and> stacks_held (i # held) b) \<and>
    (\<forall>i m b m'. i \<in> set held \<and> KernelStack_drop i (a, m) = Inr (b, m') \<longrightarrow> stacks_held (remove1 i held) b)"
proof -
  note inv = stacks_held_inv [OF assms]
  have lt: "i < MAX_KSTACKS" if "i \<in> set held" for i
  proof -
    have "i \<in> ra_live a" "ra_inv MAX_KSTACKS a" using that inv by auto
    then show ?thesis by (auto simp: ra_live_def ra_inv_def)
  qed
  have "MEMORY_END \<le> fst (kernel_stack_position i) \<and>
      unat (snd (kernel_stack_position i)) = unat (fst (kernel_stack_position i)) + unat KERNEL_STACK_SIZE \<and>
      (\<exists>b. ra_dealloc i a = Inr b)" if "i \<in> set held" for i
  proof -
    have "i \<in> ra_live a" "ra_inv MAX_KSTACKS a" using that inv by auto
    then obtain b where "ra_dealloc i a = Inr b" using ra_dealloc_live by blast
    then show ?thesis using kernel_stack_position_value [OF lt [OF that]] by (simp add: word_le_nat_alt config)
  qed
  moreover have "i \<notin> set held \<and> stacks_held (i # held) b"
    if "length held < 7000000" "kstack_alloc (a, m) = Inr (i, b, m')" for m i b m'
  proof -
    have "ra_alloc a = (i, b)" using that(2) by (cases m) (auto simp: kstack_alloc_def Let_def outcome split: prod.splits)
    then have "stacks_held (i # held) b" using that(1) assms by (intro stacks_held.alloc) (simp_all add: MAX_KSTACKS_def)
    then show ?thesis using stacks_held_inv by fastforce
  qed
  moreover have "stacks_held (remove1 i held) b" if "i \<in> set held" "KernelStack_drop i (a, m) = Inr (b, m')" for i m b m'
    using that stacks_held.dealloc [OF assms that(1)] by (cases m) (auto simp: KernelStack_drop_def outcome)
  ultimately show ?thesis using inv stacks_apart lt by blast
qed

theorem kernel_stacks_apart_witness:
  "distinct [1, 2, 0 :: usize] \<and>
   (snd (kernel_stack_position 0) + 0x1000 \<le> fst (kernel_stack_position 2) \<or>
    snd (kernel_stack_position 2) + 0x1000 \<le> fst (kernel_stack_position 0))"
proof -
  note s = RecycleAllocator_new_def ra_alloc_def ra_dealloc_def MAX_KSTACKS_def
  have "stacks_held [0] \<lparr> ra_current = 1, ra_recycled = [] \<rparr>"
    by (rule stacks_held.alloc [OF stacks_held.start]) (simp_all add: s)
  then have "stacks_held [1, 0] \<lparr> ra_current = 2, ra_recycled = [] \<rparr>"
    by (rule stacks_held.alloc) (simp_all add: s)
  then have "stacks_held [2, 1, 0] \<lparr> ra_current = 3, ra_recycled = [] \<rparr>"
    by (rule stacks_held.alloc) (simp_all add: s)
  then have "stacks_held [2, 0] \<lparr> ra_current = 3, ra_recycled = [1] \<rparr>"
    using stacks_held.dealloc [of "[2, 1, 0]" _ 1 "\<lparr> ra_current = 3, ra_recycled = [1] \<rparr>"] by (simp add: s)
  then have "stacks_held [1, 2, 0] \<lparr> ra_current = 3, ra_recycled = [] \<rparr>"
    by (rule stacks_held.alloc) (simp_all add: s)
  from kernel_stacks_apart [OF this] show ?thesis by simp
qed

section \<open>Trap contexts\<close>

lemma trap_cx_bottom_value:
  assumes "unat tid < 0x3000000"
  shows "unat (trap_cx_bottom_from_tid tid) = 0x3fffffe000 - unat tid * 0x1000"
proof -
  have "unat (tid * 0x1000) = unat tid * 0x1000"
    using assms unat_mult_lem [of tid "0x1000"] by simp
  then show ?thesis
    using assms unat_sub [of "tid * 0x1000" "0x3fffffe000"]
    by (simp add: trap_cx_bottom_from_tid_def config word_le_nat_alt)
qed

lemma trap_cx_bottom_inj:
  "\<lbrakk> trap_cx_bottom_from_tid t = trap_cx_bottom_from_tid u; unat t < 0x3000000; unat u < 0x3000000 \<rbrakk> \<Longrightarrow> t = u"
  using trap_cx_bottom_value [of t] trap_cx_bottom_value [of u] by (simp add: word_unat_eq_iff)


end
