(* ===== verification/Signal.thy ===== *)
theory Signal
  imports Config
begin

text \<open>
  Signals (\<^verbatim>\<open>os/src/task/signal.rs\<close>, \<^verbatim>\<open>os/src/task/sigaction.rs\<close>): the signal set as a word with one
  bit per signal, the signals that end a task, and the table of actions.
\<close>

unbundle bit_operations_syntax

section \<open>Signal sets\<close>

type_synonym SignalFlags = usize

definition MAX_SIG :: usize where "MAX_SIG = 63"
definition SIG_BLOCK :: usize where "SIG_BLOCK = 0"
definition SIG_UNBLOCK :: usize where "SIG_UNBLOCK = 1"
definition SIG_SETMASK :: usize where "SIG_SETMASK = 2"
definition SIG_DFL :: usize where "SIG_DFL = 0"

definition SIGINT :: SignalFlags where "SIGINT = push_bit 1 1"
definition SIGILL :: SignalFlags where "SIGILL = push_bit 3 1"
definition SIGABRT :: SignalFlags where "SIGABRT = push_bit 5 1"
definition SIGFPE :: SignalFlags where "SIGFPE = push_bit 7 1"
definition SIGKILL :: SignalFlags where "SIGKILL = push_bit 8 1"
definition SIGSEGV :: SignalFlags where "SIGSEGV = push_bit 10 1"
definition SIGSTOP :: SignalFlags where "SIGSTOP = push_bit 18 1"

lemmas signal_defs = SIGINT_def SIGILL_def SIGABRT_def SIGFPE_def SIGKILL_def SIGSEGV_def SIGSTOP_def

text \<open>A flag is declared for each of the 64 bits, so \<^verbatim>\<open>from_bits\<close> accepts every word.\<close>

definition SignalFlags_all :: SignalFlags where
  "SignalFlags_all = foldr (\<lambda>i w. push_bit i 1 OR w) [0..<64] 0"

definition SignalFlags_from_bits :: "usize \<Rightarrow> SignalFlags option" where
  "SignalFlags_from_bits bits = (if bits AND NOT SignalFlags_all = 0 then Some bits else None)"

definition sig_contains :: "SignalFlags \<Rightarrow> SignalFlags \<Rightarrow> bool" where
  "sig_contains flags flag \<longleftrightarrow> flags AND flag = flag"

definition check_error :: "SignalFlags \<Rightarrow> (32 word \<times> string) option" where
  "check_error self =
     (if sig_contains self SIGINT then Some (- 2, ''Killed, SIGINT=2'')
      else if sig_contains self SIGILL then Some (- 4, ''Illegal Instruction, SIGILL=4'')
      else if sig_contains self SIGABRT then Some (- 6, ''Aborted, SIGABRT=6'')
      else if sig_contains self SIGFPE then Some (- 8, ''Erroneous Arithmetic Operation, SIGFPE=8'')
      else if sig_contains self SIGSEGV then Some (- 11, ''Segmentation Fault, SIGSEGV=11'')
      else None)"

section \<open>Actions\<close>

record SignalAction =
  sa_handler :: usize
  sa_flags :: u32
  sa_restorer :: usize
  sa_mask :: SignalFlags

definition SignalAction_default :: SignalAction where
  "SignalAction_default = \<lparr> sa_handler = SIG_DFL, sa_flags = 0, sa_restorer = 0, sa_mask = 40 \<rparr>"

type_synonym SignalActions = "SignalAction list"

definition SignalActions_default :: SignalActions where
  "SignalActions_default = replicate (unat MAX_SIG + 1) SignalAction_default"

definition check_sigaction_error :: "SignalFlags \<Rightarrow> bool" where
  "check_sigaction_error signal \<longleftrightarrow> signal = SIGKILL \<or> signal = SIGSTOP"

record SigInfo =
  si_signo :: u32
  si_errno :: u32
  si_code :: u32
  si_pad :: "u8 list"

definition SigInfo_new :: "usize \<Rightarrow> usize \<Rightarrow> usize \<Rightarrow> SigInfo" where
  "SigInfo_new signo errno code =
     \<lparr> si_signo = ucast signo, si_errno = ucast errno, si_code = ucast code,
       si_pad = replicate (128 - 3 * 4) 0 \<rparr>"

section \<open>Facts on signal sets\<close>

lemma bit_flag_union:
  "bit (foldr (\<lambda>i w. push_bit i 1 OR w) xs (0 :: usize)) k \<longleftrightarrow> k \<in> set xs \<and> k < 64"
  by (induction xs) (auto simp: bit_simps)

lemma SignalFlags_all_eq: "SignalFlags_all = - 1"
  by (rule bit_word_eqI) (simp only: SignalFlags_all_def bit_flag_union, simp)

lemma SignalFlags_from_bits_all: "SignalFlags_from_bits b = Some b"
  by (simp add: SignalFlags_from_bits_def SignalFlags_all_eq)

lemma sig_contains_bit:
  assumes "n < 64"
  shows "sig_contains s (push_bit n 1) \<longleftrightarrow> bit s n"
proof -
  have "s AND push_bit n 1 = push_bit n (of_bool (bit s n))"
    by (rule bit_word_eqI) (auto simp: bit_simps)
  then show ?thesis using assms by (auto simp: sig_contains_def push_bit_eq_mult)
qed

end
