(* ===== verification/Timer.thy ===== *)
theory Timer
  imports Config
begin

text \<open>
  Clock values of \<^verbatim>\<open>os/src/timer.rs\<close>: the tick counter read as milliseconds and
  microseconds, \<^verbatim>\<open>TimeSpec\<close> with its arithmetic and order, the clock identifiers, and
  the busy-waiting loops.  The \<^verbatim>\<open>time\<close> register is an argument; a loop that reads it
  again and again gets the sequence of its values.
\<close>

section \<open>Units\<close>

definition NSEC_PER_SEC :: usize where [config]: "NSEC_PER_SEC = 1000000000"
definition NSEC_PER_MSEC :: usize where [config]: "NSEC_PER_MSEC = 1000000"
definition NSEC_PER_USEC :: usize where [config]: "NSEC_PER_USEC = 1000"
definition TICKS_PER_SEC :: usize where [config]: "TICKS_PER_SEC = 10"
definition MSEC_PER_SEC :: usize where [config]: "MSEC_PER_SEC = 1000"
definition USEC_PER_SEC :: usize where [config]: "USEC_PER_SEC = 1000000"
definition MICRO_PER_SEC :: usize where [config]: "MICRO_PER_SEC = 1000000"

section \<open>Time values\<close>

record TimeSpec =
  tv_sec :: usize
  tv_nsec :: usize

datatype ordering = Less | Equal | Greater

definition word_cmp :: "usize \<Rightarrow> usize \<Rightarrow> ordering" where
  "word_cmp a b = (if a < b then Less else if a = b then Equal else Greater)"

definition TimeSpec_new :: TimeSpec where
  "TimeSpec_new = \<lparr> tv_sec = 0, tv_nsec = 0 \<rparr>"

definition from_tick :: "usize \<Rightarrow> TimeSpec" where
  "from_tick tick = \<lparr> tv_sec = tick div CLOCK_FREQ,
     tv_nsec = (tick mod CLOCK_FREQ) * NSEC_PER_SEC div CLOCK_FREQ \<rparr>"

definition from_s :: "usize \<Rightarrow> TimeSpec" where
  "from_s s = \<lparr> tv_sec = s, tv_nsec = 0 \<rparr>"

definition from_ms :: "usize \<Rightarrow> TimeSpec" where
  "from_ms ms = \<lparr> tv_sec = ms div MSEC_PER_SEC, tv_nsec = (ms mod MSEC_PER_SEC) * NSEC_PER_MSEC \<rparr>"

definition from_us :: "usize \<Rightarrow> TimeSpec" where
  "from_us us = \<lparr> tv_sec = us div USEC_PER_SEC, tv_nsec = (us mod USEC_PER_SEC) * NSEC_PER_USEC \<rparr>"

definition from_ns :: "usize \<Rightarrow> TimeSpec" where
  "from_ns ns = \<lparr> tv_sec = ns div NSEC_PER_SEC, tv_nsec = ns mod NSEC_PER_SEC \<rparr>"

definition to_ns :: "TimeSpec \<Rightarrow> usize" where
  "to_ns t = tv_sec t * NSEC_PER_SEC + tv_nsec t"

definition is_zero :: "TimeSpec \<Rightarrow> bool" where
  "is_zero t \<longleftrightarrow> tv_sec t = 0 \<and> tv_nsec t = 0"

definition TimeSpec_add_assign :: "TimeSpec \<Rightarrow> TimeSpec \<Rightarrow> TimeSpec" where
  "TimeSpec_add_assign self rhs =
     self\<lparr> tv_sec := tv_sec self + tv_sec rhs, tv_nsec := tv_nsec self + tv_nsec rhs \<rparr>"

definition TimeSpec_add :: "TimeSpec \<Rightarrow> TimeSpec \<Rightarrow> TimeSpec" where
  "TimeSpec_add self other =
     (let sec = tv_sec self + tv_sec other;
          nsec = tv_nsec self + tv_nsec other
      in \<lparr> tv_sec = sec + nsec div NSEC_PER_SEC, tv_nsec = nsec mod NSEC_PER_SEC \<rparr>)"

definition TimeSpec_sub :: "TimeSpec \<Rightarrow> TimeSpec \<Rightarrow> TimeSpec" where
  "TimeSpec_sub self other =
     (let self_ns = to_ns self;
          other_ns = to_ns other
      in if self_ns \<le> other_ns then TimeSpec_new else from_ns (self_ns - other_ns))"

definition TimeSpec_cmp :: "TimeSpec \<Rightarrow> TimeSpec \<Rightarrow> ordering" where
  "TimeSpec_cmp self other =
     (case word_cmp (tv_sec self) (tv_sec other) of
        Less \<Rightarrow> Less
      | Equal \<Rightarrow> word_cmp (tv_nsec self) (tv_nsec other)
      | Greater \<Rightarrow> Greater)"

definition TimeSpec_partial_cmp :: "TimeSpec \<Rightarrow> TimeSpec \<Rightarrow> ordering option" where
  "TimeSpec_partial_cmp self other = Some (TimeSpec_cmp self other)"

section \<open>The tick counter\<close>

definition get_time_ms :: "usize \<Rightarrow> usize" where
  "get_time_ms time = time * MSEC_PER_SEC div CLOCK_FREQ"

definition get_time_us :: "usize \<Rightarrow> usize" where
  "get_time_us time = time * MICRO_PER_SEC div CLOCK_FREQ"

definition TimeSpec_now :: "usize \<Rightarrow> TimeSpec" where
  "TimeSpec_now time = from_tick time"

definition set_next_trigger :: "usize \<Rightarrow> usize" where
  "set_next_trigger time = time + CLOCK_FREQ div TICKS_PER_SEC"

text \<open>The loops that wait for the clock.  Reading number \<^term>\<open>n\<close> of the register is
  \<^term>\<open>clock n\<close>; the result is the number of readings made.  In \<^verbatim>\<open>sys_sleep\<close> the task is
  suspended between two readings.\<close>

partial_function (option) poll_loop :: "(nat \<Rightarrow> bool) \<Rightarrow> nat \<Rightarrow> nat option" where
  "poll_loop stop n = (if stop n then Some (Suc n) else poll_loop stop (Suc n))"

definition sleep_ms :: "(nat \<Rightarrow> usize) \<Rightarrow> usize \<Rightarrow> nat option" where
  "sleep_ms clock ms =
     (let end_time = get_time_ms (clock 0) + ms
      in poll_loop (\<lambda>n. \<not> get_time_ms (clock n) < end_time) 1)"

definition sleep_ms_until :: "(nat \<Rightarrow> usize) \<Rightarrow> usize \<Rightarrow> (nat \<Rightarrow> bool) \<Rightarrow> nat option" where
  "sleep_ms_until clock ms f =
     (let end_time = get_time_ms (clock 0) + ms
      in poll_loop (\<lambda>n. \<not> get_time_ms (clock n) < end_time \<or> f n) 1)"

definition sleep_is_end :: "usize \<Rightarrow> usize \<Rightarrow> bool" where
  "sleep_is_end current_time end_time \<longleftrightarrow> current_time \<ge> end_time"

definition sys_sleep :: "(nat \<Rightarrow> usize) \<Rightarrow> u64 \<Rightarrow> u64 \<Rightarrow> nat option" where
  "sys_sleep clock sec nano_sec =
     (let end_time = clock 0 + sec * CLOCK_FREQ + nano_sec * CLOCK_FREQ div NSEC_PER_SEC
      in poll_loop (\<lambda>n. sleep_is_end (clock n) end_time) 1)"

section \<open>Clock identifiers\<close>

datatype ClockId =
    Realtime | Monotonic | ProcessCputimeId | ThreadCputimeId | MonotonicRaw | RealtimeCoarse
  | MonotonicCoarse | Boottime | RealtimeAlarm | BoottimeAlarm | Tai

definition ClockId_from :: "usize \<Rightarrow> ClockId res" where
  "ClockId_from clock_id =
     (if clock_id = 0 then Inr Realtime
      else if clock_id = 1 then Inr Monotonic
      else if clock_id = 2 then Inr ProcessCputimeId
      else if clock_id = 3 then Inr ThreadCputimeId
      else if clock_id = 4 then Inr MonotonicRaw
      else if clock_id = 5 then Inr RealtimeCoarse
      else if clock_id = 6 then Inr MonotonicCoarse
      else if clock_id = 7 then Inr Boottime
      else if clock_id = 8 then Inr RealtimeAlarm
      else if clock_id = 9 then Inr BoottimeAlarm
      else if clock_id = 11 then Inr Tai
      else Inl (Explicit_panic ''clock_id not supported''))"

section \<open>Time values as numbers of nanoseconds\<close>

text \<open>The abstract value of a time is a natural number of nanoseconds; a normalised time keeps less
  than a second in \<^verbatim>\<open>tv_nsec\<close>.\<close>

definition ts_ns :: "TimeSpec \<Rightarrow> nat" where
  "ts_ns t = unat (tv_sec t) * 1000000000 + unat (tv_nsec t)"

definition ts_ok :: "TimeSpec \<Rightarrow> bool" where
  "ts_ok t \<longleftrightarrow> unat (tv_nsec t) < 1000000000"

lemma unat_small_mult:
  "unat (a :: usize) * unat b < 2 ^ 64 \<Longrightarrow> unat (a * b) = unat a * unat b"
  using unat_mult_lem [of a b] by simp

lemma word_cmp_unat:
  "word_cmp a b = Less \<longleftrightarrow> unat a < unat b"
  "word_cmp a b = Equal \<longleftrightarrow> unat a = unat b"
  "word_cmp a b = Greater \<longleftrightarrow> unat b < unat a"
  by (auto simp: word_cmp_def word_less_nat_alt word_unat_eq_iff)

lemma to_ns_value:
  assumes "ts_ns t < 2 ^ 64"
  shows "unat (to_ns t) = ts_ns t"
proof -
  have m: "unat (tv_sec t * NSEC_PER_SEC) = unat (tv_sec t) * 1000000000"
    using assms unat_small_mult [of "tv_sec t" NSEC_PER_SEC] by (simp add: ts_ns_def config)
  then show ?thesis
    using assms unat_add_small [of "tv_sec t * NSEC_PER_SEC" "tv_nsec t"] by (simp add: to_ns_def ts_ns_def)
qed

lemma from_ns_value: "ts_ns (from_ns ns) = unat ns" "ts_ok (from_ns ns)"
  by (simp_all add: ts_ns_def ts_ok_def from_ns_def config unat_div unat_mod)

lemma to_from_ns: "to_ns (from_ns ns) = ns"
proof -
  have "unat (to_ns (from_ns ns)) = unat ns"
    using to_ns_value [of "from_ns ns"] unsigned_less [of ns] by (simp add: from_ns_value)
  then show ?thesis by (simp add: word_unat_eq_iff)
qed

lemma from_to_ns:
  assumes "ts_ok t" "ts_ns t < 2 ^ 64"
  shows "from_ns (to_ns t) = t"
proof -
  have "tv_sec (from_ns (to_ns t)) = tv_sec t" "tv_nsec (from_ns (to_ns t)) = tv_nsec t"
    using assms to_ns_value [OF assms(2)]
    by (simp_all add: from_ns_def config word_unat_eq_iff unat_div unat_mod ts_ns_def ts_ok_def)
  then show ?thesis by simp
qed

lemma TimeSpec_add_value:
  assumes "unat (tv_nsec a) + unat (tv_nsec b) < 2 ^ 64"
    and "unat (tv_sec a) + unat (tv_sec b) + (unat (tv_nsec a) + unat (tv_nsec b)) div 1000000000 < 2 ^ 64"
  shows "ts_ns (TimeSpec_add a b) = ts_ns a + ts_ns b" "ts_ok (TimeSpec_add a b)"
proof -
  let ?n = "unat (tv_nsec a) + unat (tv_nsec b)"
  have n: "unat (tv_nsec a + tv_nsec b) = ?n" using assms(1) by (intro unat_add_small) simp
  then have d: "unat ((tv_nsec a + tv_nsec b) div NSEC_PER_SEC) = ?n div 1000000000"
    by (simp add: unat_div config)
  have s: "unat (tv_sec a + tv_sec b) = unat (tv_sec a) + unat (tv_sec b)"
    using assms(2) by (intro unat_add_small) simp
  have "unat (tv_sec a + tv_sec b + (tv_nsec a + tv_nsec b) div NSEC_PER_SEC) =
      unat (tv_sec a) + unat (tv_sec b) + ?n div 1000000000"
    using unat_add_small [of "tv_sec a + tv_sec b" "(tv_nsec a + tv_nsec b) div NSEC_PER_SEC"] assms(2) s d
    by simp
  moreover have "unat ((tv_nsec a + tv_nsec b) mod NSEC_PER_SEC) = ?n mod 1000000000"
    using n by (simp add: unat_mod config)
  moreover have "?n div 1000000000 * 1000000000 + ?n mod 1000000000 = ?n" by (rule div_mult_mod_eq)
  ultimately show "ts_ns (TimeSpec_add a b) = ts_ns a + ts_ns b" "ts_ok (TimeSpec_add a b)"
    by (simp_all add: TimeSpec_add_def ts_ns_def ts_ok_def Let_def)
qed

lemma TimeSpec_sub_value:
  assumes "ts_ns a < 2 ^ 64" "ts_ns b < 2 ^ 64"
  shows "ts_ns (TimeSpec_sub a b) = ts_ns a - ts_ns b" "ts_ok (TimeSpec_sub a b)"
proof -
  note v = to_ns_value [OF assms(1)] to_ns_value [OF assms(2)]
  show "ts_ns (TimeSpec_sub a b) = ts_ns a - ts_ns b"
  proof (cases "to_ns a \<le> to_ns b")
    case True
    then show ?thesis using v by (simp add: TimeSpec_sub_def TimeSpec_new_def ts_ns_def word_le_nat_alt)
  next
    case False
    then have "unat (to_ns a - to_ns b) = unat (to_ns a) - unat (to_ns b)"
      by (intro unat_sub) (simp add: word_le_nat_alt)
    then show ?thesis using False v by (simp add: TimeSpec_sub_def from_ns_value Let_def)
  qed
  show "ts_ok (TimeSpec_sub a b)"
    using from_ns_value(2) by (simp add: TimeSpec_sub_def TimeSpec_new_def Let_def) (simp add: ts_ok_def)
qed

lemma TimeSpec_cmp_value:
  assumes "ts_ok a" "ts_ok b"
  shows "TimeSpec_cmp a b =
    (if ts_ns a < ts_ns b then Less else if ts_ns a = ts_ns b then Equal else Greater)"
proof (cases "unat (tv_sec a)" "unat (tv_sec b)" rule: linorder_cases)
  case less
  then have "TimeSpec_cmp a b = Less" by (simp add: TimeSpec_cmp_def word_cmp_unat(1) [THEN iffD2])
  moreover have "ts_ns a < ts_ns b" using less assms by (simp add: ts_ns_def ts_ok_def)
  ultimately show ?thesis by simp
next
  case equal
  then have "TimeSpec_cmp a b = word_cmp (tv_nsec a) (tv_nsec b)"
    by (simp add: TimeSpec_cmp_def word_cmp_unat(2) [THEN iffD2])
  then show ?thesis using equal by (auto simp: ts_ns_def word_cmp_def word_less_nat_alt word_unat_eq_iff)
next
  case greater
  then have "TimeSpec_cmp a b = Greater" by (simp add: TimeSpec_cmp_def word_cmp_unat(3) [THEN iffD2])
  moreover have "ts_ns b < ts_ns a" using greater assms by (simp add: ts_ns_def ts_ok_def)
  ultimately show ?thesis by simp
qed

text \<open>The clock runs at 12.5 MHz, so a tick is exactly 80 ns and \<^verbatim>\<open>from_tick\<close> loses nothing.\<close>

lemma from_tick_value: "ts_ns (from_tick tick) = unat tick * 80" "ts_ok (from_tick tick)"
proof -
  let ?r = "unat tick mod 12500000"
  have r: "unat (tick mod CLOCK_FREQ) = ?r" by (simp add: unat_mod config)
  have lt: "?r < 12500000" by simp
  then have "unat (tick mod CLOCK_FREQ * NSEC_PER_SEC) = ?r * 1000000000"
    using unat_small_mult [of "tick mod CLOCK_FREQ" NSEC_PER_SEC] r by (simp add: config)
  then have n: "unat (tick mod CLOCK_FREQ * NSEC_PER_SEC div CLOCK_FREQ) = ?r * 80"
    by (simp add: unat_div config)
  have "unat tick div 12500000 * 12500000 + ?r = unat tick" by (rule div_mult_mod_eq)
  then have "unat tick div 12500000 * 1000000000 + ?r * 80 = unat tick * 80" by linarith
  then show "ts_ns (from_tick tick) = unat tick * 80"
    using n by (simp add: from_tick_def ts_ns_def unat_div config)
  show "ts_ok (from_tick tick)"
    using n lt by (simp add: from_tick_def ts_ok_def)
qed

lemma from_units_value:
  "ts_ns (from_ms ms) = unat ms * 1000000" "ts_ok (from_ms ms)"
  "ts_ns (from_us us) = unat us * 1000" "ts_ok (from_us us)"
proof -
  have "unat (ms mod MSEC_PER_SEC * NSEC_PER_MSEC) = unat ms mod 1000 * 1000000"
    using unat_small_mult [of "ms mod MSEC_PER_SEC" NSEC_PER_MSEC] by (simp add: unat_mod config)
  moreover have "unat ms div 1000 * 1000 + unat ms mod 1000 = unat ms" by (rule div_mult_mod_eq)
  ultimately show "ts_ns (from_ms ms) = unat ms * 1000000" "ts_ok (from_ms ms)"
    unfolding from_ms_def ts_ns_def ts_ok_def by (simp add: unat_div MSEC_PER_SEC_def, linarith, simp)
  have "unat (us mod USEC_PER_SEC * NSEC_PER_USEC) = unat us mod 1000000 * 1000"
    using unat_small_mult [of "us mod USEC_PER_SEC" NSEC_PER_USEC] by (simp add: unat_mod config)
  moreover have "unat us div 1000000 * 1000000 + unat us mod 1000000 = unat us" by (rule div_mult_mod_eq)
  ultimately show "ts_ns (from_us us) = unat us * 1000" "ts_ok (from_us us)"
    unfolding from_us_def ts_ns_def ts_ok_def by (simp add: unat_div USEC_PER_SEC_def, linarith, simp)
qed

text \<open>
  \<^verbatim>\<open>TimeSpec\<close> implements arithmetic on nanoseconds.  As long as the values fit into 64 bits, the sum
  of two times is their sum, the difference is cut off at zero, both are normalised, and the
  order of normalised times is the order of the nanoseconds; a conversion from ticks, and the
  conversions to and from nanoseconds, lose nothing.
\<close>
theorem timespec_arithmetic:
  assumes "ts_ok a" "ts_ok b" "ts_ns a + ts_ns b < 2 ^ 64"
  shows "ts_ok (TimeSpec_add a b) \<and> ts_ns (TimeSpec_add a b) = ts_ns a + ts_ns b \<and>
    ts_ok (TimeSpec_sub a b) \<and> ts_ns (TimeSpec_sub a b) = ts_ns a - ts_ns b \<and>
    TimeSpec_cmp a b = (if ts_ns a < ts_ns b then Less else if ts_ns a = ts_ns b then Equal else Greater) \<and>
    from_ns (to_ns a) = a \<and> to_ns (from_ns n) = n \<and>
    ts_ok (from_tick n) \<and> ts_ns (from_tick n) = unat n * 80"
proof -
  have lt: "ts_ns a < 2 ^ 64" "ts_ns b < 2 ^ 64" using assms(3) by linarith+
  have "unat (tv_nsec a) + unat (tv_nsec b) < 2 ^ 64"
    "unat (tv_sec a) + unat (tv_sec b) + (unat (tv_nsec a) + unat (tv_nsec b)) div 1000000000 < 2 ^ 64"
    using assms by (simp_all add: ts_ok_def ts_ns_def)
  note add = TimeSpec_add_value [OF this]
  show ?thesis
    by (intro conjI add TimeSpec_sub_value [OF lt] TimeSpec_cmp_value [OF assms(1,2)]
        from_to_ns [OF assms(1) lt(1)] to_from_ns from_tick_value)
qed

theorem timespec_arithmetic_witness:
  "ts_ns (TimeSpec_add \<lparr> tv_sec = 1, tv_nsec = 999999999 \<rparr> \<lparr> tv_sec = 2, tv_nsec = 1 \<rparr>) = 4000000000"
proof -
  have "ts_ok \<lparr> tv_sec = 1, tv_nsec = 999999999 \<rparr>" "ts_ok \<lparr> tv_sec = 2, tv_nsec = 1 \<rparr>"
    "ts_ns \<lparr> tv_sec = 1, tv_nsec = 999999999 \<rparr> + ts_ns \<lparr> tv_sec = 2, tv_nsec = 1 \<rparr> < 2 ^ 64"
    by (simp_all add: ts_ok_def ts_ns_def)
  from timespec_arithmetic [OF this, of 0] show ?thesis by (simp add: ts_ns_def)
qed

text \<open>\<^verbatim>\<open>add_assign\<close> does not carry into the seconds, unlike \<^verbatim>\<open>add\<close>.\<close>

lemma add_assign_not_normalised:
  "ts_ok \<lparr> tv_sec = 0, tv_nsec = 600000000 \<rparr> \<and>
   \<not> ts_ok (TimeSpec_add_assign \<lparr> tv_sec = 0, tv_nsec = 600000000 \<rparr> \<lparr> tv_sec = 0, tv_nsec = 600000000 \<rparr>)"
  by (simp add: ts_ok_def TimeSpec_add_assign_def)

section \<open>Waiting ends\<close>

lemma poll_loop_first:
  assumes "stop k" "n \<le> k" "\<And>i. n \<le> i \<Longrightarrow> i < k \<Longrightarrow> \<not> stop i"
  shows "poll_loop stop n = Some (Suc k)"
  using assms
proof (induction "k - n" arbitrary: n)
  case 0
  then show ?case by (subst poll_loop.simps) simp
next
  case (Suc d)
  then have "\<not> stop n" "poll_loop stop (Suc n) = Some (Suc k)" by auto
  then show ?case by (subst poll_loop.simps) simp
qed

lemma poll_loop_returns:
  assumes "stop k" "n \<le> k"
  obtains j where "n \<le> j" "j \<le> k" "stop j" "poll_loop stop n = Some (Suc j)"
proof -
  define j where "j = (LEAST i. n \<le> i \<and> stop i)"
  have "n \<le> j" "stop j" "j \<le> k"
    using LeastI [of "\<lambda>i. n \<le> i \<and> stop i" k] Least_le [of "\<lambda>i. n \<le> i \<and> stop i" k] assms
    unfolding j_def by auto
  moreover have "\<not> stop i" if "n \<le> i" "i < j" for i
    using not_less_Least [of i "\<lambda>i. n \<le> i \<and> stop i"] that unfolding j_def by auto
  ultimately show ?thesis using poll_loop_first [of stop j n] that by blast
qed

lemma sleep_ms_returns:
  assumes "get_time_ms (clock 0) + ms \<le> get_time_ms (clock k)" "0 < k"
  obtains j where "sleep_ms clock ms = Some (Suc j)" "j \<le> k" "get_time_ms (clock 0) + ms \<le> get_time_ms (clock j)"
proof -
  have "\<not> get_time_ms (clock k) < get_time_ms (clock 0) + ms" "1 \<le> k" using assms by auto
  from poll_loop_returns [of "\<lambda>n. \<not> get_time_ms (clock n) < get_time_ms (clock 0) + ms", OF this]
  show ?thesis using that by (auto simp: sleep_ms_def Let_def not_less)
qed

end
