(* ===== verification/Task.thy ===== *)
theory Task
  imports Task_Res Signal Timer
begin

text \<open>
  Tasks and the scheduler: the control block of \<^verbatim>\<open>os/src/task/task.rs\<close>, the ready and block queues
  of \<^verbatim>\<open>os/src/task/manager.rs\<close>, the processor of \<^verbatim>\<open>os/src/task/processor.rs\<close>, the timers of
  \<^verbatim>\<open>os/src/timer.rs\<close> and the ways a task gives up the processor in \<^verbatim>\<open>os/src/task/mod.rs\<close>.

  An \<^verbatim>\<open>Arc<TaskControlBlock>\<close> is the index of its control block in the list of all control
  blocks.  A kernel function that gives up the processor ends in \<^verbatim>\<open>schedule\<close>, which leaves the
  rest to the idle loop \<^verbatim>\<open>run_tasks\<close>; the model of such a function is the change of state up to
  that point.
\<close>

section \<open>Control blocks\<close>

type_synonym task_ref = nat

datatype TaskStatus = Ready | Running | Blocked | Zombie | Exit

record TaskContext =
  tc_ra :: usize
  tc_sp :: usize
  tc_s :: "usize list"

definition zero_init :: TaskContext where
  "zero_init = \<lparr> tc_ra = 0, tc_sp = 0, tc_s = replicate 12 0 \<rparr>"

text \<open>The addresses the linker gives to the functions a context returns to, and to the trap handler.\<close>

record symbols =
  sym_trap_return :: usize
  sym_initproc_entry :: usize
  sym_user_entry :: usize
  sym_trap_handler :: usize

definition goto_trap_return :: "symbols \<Rightarrow> usize \<Rightarrow> TaskContext" where
  "goto_trap_return sy kstack_ptr =
     \<lparr> tc_ra = sym_trap_return sy, tc_sp = kstack_ptr, tc_s = replicate 12 0 \<rparr>"

definition goto_initproc_entry :: "symbols \<Rightarrow> usize \<Rightarrow> TaskContext" where
  "goto_initproc_entry sy kstack_ptr =
     \<lparr> tc_ra = sym_initproc_entry sy, tc_sp = kstack_ptr, tc_s = replicate 12 0 \<rparr>"

definition goto_user_entry :: "symbols \<Rightarrow> usize \<Rightarrow> TaskContext" where
  "goto_user_entry sy kstack_ptr =
     \<lparr> tc_ra = sym_user_entry sy, tc_sp = kstack_ptr, tc_s = replicate 12 0 \<rparr>"

text \<open>Open files and working directories are shared objects: apart from the two console files, which
  have no state, a file is the object behind its \<^verbatim>\<open>Arc\<close>, given by a number.\<close>

datatype InodeRef = Fat32Ref nat | Ext4Ref nat

datatype File = Stdin | Stdout | PipeFile nat | InodeFile InodeRef

record WorkDir =
  wd_name :: string
  wd_inode :: InodeRef

record TaskControlBlock =
  t_kstack :: usize
  t_tid :: usize
  t_pid :: usize
  t_send_sigchld_when_exit :: bool
  t_memory_set :: MemorySet
  t_trap_cx_ppn :: PhysPageNum
  t_task_cx :: TaskContext
  t_task_status :: TaskStatus
  t_syscall_times :: "u32 list"
  t_first_time :: "usize option"
  t_clear_child_tid :: usize
  t_work_dir :: WorkDir
  t_parent :: "task_ref option"
  t_children :: "task_ref list"
  t_threads :: "task_ref option list"
  t_user_stack_top :: usize
  t_exit_code :: "32 word option"
  t_fd_table :: "File option list"
  t_clock_stop_watch :: usize
  t_user_clock :: usize
  t_kernel_clock :: usize
  t_heap_base :: VirtAddr
  t_heap_end :: VirtAddr
  t_is_zombie :: bool
  t_signals :: SignalFlags
  t_signal_actions :: SignalActions
  t_signals_pending :: SignalFlags
  t_signal_mask :: SignalFlags

section \<open>The kernel's state\<close>

record TaskManager =
  ready_queue :: "task_ref list"
  block_queue :: "task_ref list"
  stop_task :: "task_ref option"

record Processor =
  p_current :: "task_ref option"
  p_idle_task_cx :: TaskContext

record TimerCondVar =
  tm_expire_ms :: usize
  tm_task :: task_ref

text \<open>The binary heap of timers is the list of its elements from the greatest down.  The library
  leaves open in which order elements that compare equal come out; here it is the order of
  insertion.\<close>

record Kernel =
  k_tasks :: "TaskControlBlock list"
  k_manager :: TaskManager
  k_pid2pcb :: "(usize, task_ref) btree"
  k_processor :: Processor
  k_timers :: "TimerCondVar list"
  k_pids :: RecycleAllocator
  k_kstacks :: RecycleAllocator
  k_space :: MemorySet
  k_mm :: MM
  k_initproc :: task_ref

abbreviation k_ready :: "Kernel \<Rightarrow> task_ref list" where
  "k_ready k \<equiv> ready_queue (k_manager k)"

abbreviation k_current :: "Kernel \<Rightarrow> task_ref option" where
  "k_current k \<equiv> p_current (k_processor k)"

abbreviation task :: "Kernel \<Rightarrow> task_ref \<Rightarrow> TaskControlBlock" where
  "task k t \<equiv> k_tasks k ! t"

definition upd_task :: "task_ref \<Rightarrow> (TaskControlBlock \<Rightarrow> TaskControlBlock) \<Rightarrow> Kernel \<Rightarrow> Kernel" where
  "upd_task t f k = k\<lparr> k_tasks := (k_tasks k)[t := f (k_tasks k ! t)] \<rparr>"

section \<open>Queues\<close>

definition TaskManager_new :: TaskManager where
  "TaskManager_new = \<lparr> ready_queue = [], block_queue = [], stop_task = None \<rparr>"

definition tm_add :: "task_ref \<Rightarrow> TaskManager \<Rightarrow> TaskManager" where
  "tm_add t m = m\<lparr> ready_queue := ready_queue m @ [t] \<rparr>"

definition tm_add_block :: "task_ref \<Rightarrow> TaskManager \<Rightarrow> TaskManager" where
  "tm_add_block t m = m\<lparr> block_queue := block_queue m @ [t] \<rparr>"

definition tm_fetch :: "TaskManager \<Rightarrow> task_ref option \<times> TaskManager" where
  "tm_fetch m =
     (if ready_queue m = [] then (None, m)
      else (Some (hd (ready_queue m)), m\<lparr> ready_queue := tl (ready_queue m) \<rparr>))"

definition tm_remove :: "task_ref \<Rightarrow> TaskManager \<Rightarrow> TaskManager" where
  "tm_remove t m =
     (case find_position (\<lambda>u. u = t) (ready_queue m) of
        Some i \<Rightarrow> m\<lparr> ready_queue := remove_nth i (ready_queue m) \<rparr>
      | None \<Rightarrow> m)"

definition tm_add_stop :: "task_ref \<Rightarrow> TaskManager \<Rightarrow> TaskManager" where
  "tm_add_stop t m = m\<lparr> stop_task := Some t \<rparr>"

definition add_task :: "task_ref \<Rightarrow> Kernel \<Rightarrow> Kernel" where
  "add_task t k = k\<lparr> k_manager := tm_add t (k_manager k) \<rparr>"

definition add_block_task :: "task_ref \<Rightarrow> Kernel \<Rightarrow> Kernel" where
  "add_block_task t k = k\<lparr> k_manager := tm_add_block t (k_manager k) \<rparr>"

definition wakeup_task :: "task_ref \<Rightarrow> Kernel \<Rightarrow> Kernel" where
  "wakeup_task t k = add_task t (upd_task t (\<lambda>c. c\<lparr> t_task_status := Ready \<rparr>) k)"

definition remove_task :: "task_ref \<Rightarrow> Kernel \<Rightarrow> Kernel" where
  "remove_task t k = k\<lparr> k_manager := tm_remove t (k_manager k) \<rparr>"

definition fetch_task :: "Kernel \<Rightarrow> task_ref option \<times> Kernel" where
  "fetch_task k = (let (t, m) = tm_fetch (k_manager k) in (t, k\<lparr> k_manager := m \<rparr>))"

definition add_stopping_task :: "task_ref \<Rightarrow> Kernel \<Rightarrow> Kernel" where
  "add_stopping_task t k = k\<lparr> k_manager := tm_add_stop t (k_manager k) \<rparr>"

definition unblock_task :: "task_ref \<Rightarrow> Kernel \<Rightarrow> Kernel" where
  "unblock_task t k =
     (let k1 = upd_task t (\<lambda>c. c\<lparr> t_task_status := Ready \<rparr>) k;
          m = k_manager k1
      in case find_position (\<lambda>u. u = t) (block_queue m) of
           Some i \<Rightarrow> k1\<lparr> k_manager :=
             m\<lparr> block_queue := remove_nth i (block_queue m), ready_queue := t # ready_queue m \<rparr> \<rparr>
         | None \<Rightarrow> k1)"

section \<open>Process numbers\<close>

definition pid2process :: "usize \<Rightarrow> Kernel \<Rightarrow> task_ref option" where
  "pid2process p k = bt_get p (k_pid2pcb k)"

definition insert_into_pid2process :: "usize \<Rightarrow> task_ref \<Rightarrow> Kernel \<Rightarrow> Kernel" where
  "insert_into_pid2process p t k = k\<lparr> k_pid2pcb := snd (bt_insert p t (k_pid2pcb k)) \<rparr>"

definition remove_from_pid2process :: "usize \<Rightarrow> Kernel \<Rightarrow> Kernel res" where
  "remove_from_pid2process p k =
     (case bt_remove p (k_pid2pcb k) of
        (None, _) \<Rightarrow> Inl (Explicit_panic ''cannot find pid in pid2task!'')
      | (Some _, tree) \<Rightarrow> Inr (k\<lparr> k_pid2pcb := tree \<rparr>))"

definition pid_alloc :: "Kernel \<Rightarrow> usize \<times> Kernel" where
  "pid_alloc k = (let (p, ids) = ra_alloc (k_pids k) in (p, k\<lparr> k_pids := ids \<rparr>))"

definition PidHandle_drop :: "usize \<Rightarrow> Kernel \<Rightarrow> Kernel res" where
  "PidHandle_drop p k = bindR (ra_dealloc p (k_pids k)) (\<lambda>ids. Inr (k\<lparr> k_pids := ids \<rparr>))"

section \<open>Timers\<close>

text \<open>The order of timers: \<^verbatim>\<open>-(expire_ms as isize)\<close>, so that the earliest is the greatest.\<close>

definition timer_key :: "TimerCondVar \<Rightarrow> int" where
  "timer_key tm = sint (- tm_expire_ms tm)"

definition timer_eq :: "TimerCondVar \<Rightarrow> TimerCondVar \<Rightarrow> bool" where
  "timer_eq a b \<longleftrightarrow> tm_expire_ms a = tm_expire_ms b"

definition timer_cmp :: "TimerCondVar \<Rightarrow> TimerCondVar \<Rightarrow> ordering" where
  "timer_cmp a b =
     (if timer_key a < timer_key b then Less else if timer_key a = timer_key b then Equal else Greater)"

fun heap_push :: "TimerCondVar \<Rightarrow> TimerCondVar list \<Rightarrow> TimerCondVar list" where
  "heap_push tm [] = [tm]"
| "heap_push tm (x # xs) = (if timer_cmp x tm = Less then tm # x # xs else x # heap_push tm xs)"

definition add_timer :: "usize \<Rightarrow> task_ref \<Rightarrow> Kernel \<Rightarrow> Kernel" where
  "add_timer expire_ms t k =
     k\<lparr> k_timers := heap_push \<lparr> tm_expire_ms = expire_ms, tm_task = t \<rparr> (k_timers k) \<rparr>"

definition remove_timer :: "task_ref \<Rightarrow> Kernel \<Rightarrow> Kernel" where
  "remove_timer t k =
     k\<lparr> k_timers := fold heap_push (filter (\<lambda>tm. tm_task tm \<noteq> t) (k_timers k)) [] \<rparr>"

fun check_timer_loop :: "usize \<Rightarrow> TimerCondVar list \<Rightarrow> Kernel \<Rightarrow> Kernel" where
  "check_timer_loop current_ms [] k = k\<lparr> k_timers := [] \<rparr>"
| "check_timer_loop current_ms (tm # timers) k =
     (if tm_expire_ms tm \<le> current_ms then check_timer_loop current_ms timers (wakeup_task (tm_task tm) k)
      else k\<lparr> k_timers := tm # timers \<rparr>)"

definition check_timer :: "usize \<Rightarrow> Kernel \<Rightarrow> Kernel" where
  "check_timer time k = check_timer_loop (get_time_ms time) (k_timers k) k"

section \<open>The processor\<close>

definition Processor_new :: Processor where
  "Processor_new = \<lparr> p_current = None, p_idle_task_cx = zero_init \<rparr>"

definition take_current_task :: "Kernel \<Rightarrow> task_ref option \<times> Kernel" where
  "take_current_task k = (k_current k, k\<lparr> k_processor := (k_processor k)\<lparr> p_current := None \<rparr> \<rparr>)"

definition current_task :: "Kernel \<Rightarrow> task_ref option" where
  "current_task k = k_current k"

definition current_pid :: "Kernel \<Rightarrow> usize option" where
  "current_pid k = map_option (\<lambda>t. t_pid (task k t)) (current_task k)"

definition current_tid :: "Kernel \<Rightarrow> usize option" where
  "current_tid k = map_option (\<lambda>t. t_tid (task k t)) (current_task k)"

definition current_user_token :: "Kernel \<Rightarrow> usize res" where
  "current_user_token k =
     bindR (unwrapR (current_task k)) (\<lambda>t. Inr (MemorySet_token (t_memory_set (task k t))))"

definition current_trap_cx_user_va :: "Kernel \<Rightarrow> VirtAddr res" where
  "current_trap_cx_user_va k =
     bindR (unwrapR (current_task k)) (\<lambda>t. VirtAddr_from_usize (trap_cx_bottom_from_tid (t_pid (task k t))))"

definition current_kstack_top :: "Kernel \<Rightarrow> usize res" where
  "current_kstack_top k =
     bindR (unwrapR (current_task k)) (\<lambda>t. Inr (KernelStack_get_top (t_kstack (task k t))))"

text \<open>One turn of the idle loop: \<^term>\<open>False\<close> when the ready queue is empty and the loop returns.\<close>

definition run_tasks_turn :: "usize \<Rightarrow> Kernel \<Rightarrow> bool \<times> Kernel" where
  "run_tasks_turn time k =
     (case fetch_task k of
        (Some t, k1) \<Rightarrow>
          let k2 = upd_task t (\<lambda>c. c\<lparr> t_task_status := Running,
                t_first_time := (case t_first_time c of None \<Rightarrow> Some (get_time_ms time) | Some x \<Rightarrow> Some x),
                t_clock_stop_watch := time \<rparr>) k1
          in (True, k2\<lparr> k_processor := (k_processor k2)\<lparr> p_current := Some t \<rparr> \<rparr>)
      | (None, k1) \<Rightarrow> (False, k1))"

section \<open>Giving up the processor\<close>

definition suspend_current_and_run_next :: "Kernel \<Rightarrow> Kernel res" where
  "suspend_current_and_run_next k =
     (let (cur, k1) = take_current_task k in
      bindR (unwrapR cur) (\<lambda>t.
        Inr (add_task t (upd_task t (\<lambda>c. c\<lparr> t_task_status := Ready \<rparr>) k1))))"

definition block_current_and_run_next :: "Kernel \<Rightarrow> Kernel res" where
  "block_current_and_run_next k =
     (let (cur, k1) = take_current_task k in
      bindR (unwrapR cur) (\<lambda>t.
        Inr (add_block_task t (upd_task t (\<lambda>c. c\<lparr> t_task_status := Blocked \<rparr>) k1))))"

definition remove_inactive_task :: "task_ref \<Rightarrow> Kernel \<Rightarrow> Kernel" where
  "remove_inactive_task t k = remove_timer t (remove_task t k)"

section \<open>Accounting\<close>

definition clock_time_refresh :: "usize \<Rightarrow> TaskControlBlock \<Rightarrow> TaskControlBlock" where
  "clock_time_refresh time c = c\<lparr> t_clock_stop_watch := time \<rparr>"

definition user_clock_time_end :: "usize \<Rightarrow> TaskControlBlock \<Rightarrow> usize \<times> TaskControlBlock" where
  "user_clock_time_end time c =
     (let last_stop = t_clock_stop_watch c;
          c1 = c\<lparr> t_clock_stop_watch := time \<rparr>;
          c2 = c1\<lparr> t_user_clock := t_user_clock c1 + (t_clock_stop_watch c1 - last_stop) \<rparr>
      in (t_user_clock c2, c2))"

definition user_clock_time_start :: "usize \<Rightarrow> TaskControlBlock \<Rightarrow> usize \<times> TaskControlBlock" where
  "user_clock_time_start time c =
     (let last_stop = t_clock_stop_watch c;
          c1 = c\<lparr> t_clock_stop_watch := time \<rparr>;
          c2 = c1\<lparr> t_kernel_clock := t_kernel_clock c1 + (t_clock_stop_watch c1 - last_stop) \<rparr>
      in (t_kernel_clock c2, c2))"

definition get_process_clock_time :: "usize \<Rightarrow> TaskControlBlock \<Rightarrow> (usize \<times> usize) \<times> TaskControlBlock" where
  "get_process_clock_time time c =
     (let c1 = snd (user_clock_time_start time c) in ((t_kernel_clock c1, t_user_clock c1), c1))"

definition get_children_process_clock_time :: "TaskControlBlock \<Rightarrow> Kernel \<Rightarrow> usize \<times> usize" where
  "get_children_process_clock_time c k =
     (sum_list (map (\<lambda>t. t_kernel_clock (task k t)) (t_children c)),
      sum_list (map (\<lambda>t. t_user_clock (task k t)) (t_children c)))"

end
