(* ===== verification/Elf_Load.thy ===== *)
theory Elf_Load
  imports Heap_Mmap
begin

text \<open>
  The kernel's own address space, the ELF loader and the initial user stack
  (\<^verbatim>\<open>new_kernel\<close>, \<^verbatim>\<open>from_elf\<close> and \<^verbatim>\<open>build_stack\<close> of \<^verbatim>\<open>os/src/mm/memory_set.rs\<close>).  The parser of
  the \<^verbatim>\<open>xmas_elf\<close> crate is a parameter: a function from the file's bytes to the header values
  and program headers the loader reads.
\<close>

unbundle bit_operations_syntax

section \<open>The kernel space\<close>

text \<open>The section boundaries that the linker script defines.\<close>

record sections =
  stext :: usize
  etext :: usize
  srodata :: usize
  erodata :: usize
  sdata :: usize
  edata :: usize
  sbss_with_stack :: usize
  ebss :: usize
  ekernel :: usize

definition PERMISSION_RW :: MapPermission where
  "PERMISSION_RW = PERM_R OR PERM_W"

definition MMIO :: "(usize \<times> usize \<times> MapPermission) list" where
  "MMIO = [(0x10000000, 0x1000, PERMISSION_RW), (0x10001000, 0x1000, PERMISSION_RW),
     (0x02000000, 0x10000, PERMISSION_RW), (0x0C000000, 0x400000, PERMISSION_RW)]"

definition push_identical ::
  "usize \<times> usize \<times> MapPermission \<Rightarrow> MemorySet \<times> MM \<Rightarrow> (MemorySet \<times> MM) res" where
  "push_identical = (\<lambda>(l, r, perm) x.
     bindR (VirtAddr_from_usize l) (\<lambda>start_va.
     bindR (VirtAddr_from_usize r) (\<lambda>end_va.
     bindR (MapArea_new start_va end_va Identical perm) (\<lambda>area. push area None x))))"

definition kernel_areas :: "sections \<Rightarrow> (usize \<times> usize \<times> MapPermission) list" where
  "kernel_areas sec =
     [(stext sec, etext sec, PERM_R OR PERM_X), (srodata sec, erodata sec, PERM_R),
      (sdata sec, edata sec, PERM_R OR PERM_W), (sbss_with_stack sec, ebss sec, PERM_R OR PERM_W),
      (ekernel sec, MEMORY_END, PERM_R OR PERM_W)] @
     map (\<lambda>(a, n, _). (a + push_bit PAGE_SIZE_BITS KERNEL_SPACE_OFFSET,
        a + n + push_bit PAGE_SIZE_BITS KERNEL_SPACE_OFFSET, PERM_R OR PERM_W)) MMIO"

definition new_kernel :: "sections \<Rightarrow> MM \<Rightarrow> (MemorySet \<times> MM) res" where
  "new_kernel sec s = bindR (MemorySet_new_bare s) (foldR push_identical (kernel_areas sec))"

section \<open>ELF files\<close>

datatype SegmentType = Load | Interp | OtherSegment

record ProgramHeader =
  ph_type :: "SegmentType option"
  ph_virtual_addr :: u64
  ph_mem_size :: u64
  ph_offset :: u64
  ph_file_size :: u64
  ph_is_read :: bool
  ph_is_write :: bool
  ph_is_execute :: bool

record ElfFile =
  elf_input :: "u8 list"
  elf_magic :: "u8 list"
  elf_ph_entry_size :: u16
  elf_ph_count :: u16
  elf_ph_offset :: u64
  elf_entry_point :: u64
  elf_program_header :: "nat \<Rightarrow> ProgramHeader option"

record AuxHeader =
  aux_type :: usize
  aux_value :: usize

definition AuxHeader_new :: "usize \<Rightarrow> usize \<Rightarrow> AuxHeader" where
  "AuxHeader_new ty v = \<lparr> aux_type = ty, aux_value = v \<rparr>"

definition AT_NULL :: usize where "AT_NULL = 0"
definition AT_PHDR :: usize where "AT_PHDR = 3"
definition AT_PHENT :: usize where "AT_PHENT = 4"
definition AT_PHNUM :: usize where "AT_PHNUM = 5"
definition AT_PAGESIZE :: usize where "AT_PAGESIZE = 6"
definition AT_BASE :: usize where "AT_BASE = 7"
definition AT_FLAGS :: usize where "AT_FLAGS = 8"
definition AT_ENTRY :: usize where "AT_ENTRY = 9"
definition AT_NOELF :: usize where "AT_NOELF = 10"
definition AT_UID :: usize where "AT_UID = 11"
definition AT_EUID :: usize where "AT_EUID = 12"
definition AT_GID :: usize where "AT_GID = 13"
definition AT_EGID :: usize where "AT_EGID = 14"
definition AT_PLATFORM :: usize where "AT_PLATFORM = 15"
definition AT_HWCAP :: usize where "AT_HWCAP = 16"
definition AT_CLKTCK :: usize where "AT_CLKTCK = 17"
definition AT_SECURE :: usize where "AT_SECURE = 23"
definition AT_RANDOM :: usize where "AT_RANDOM = 25"
definition AT_EXECFN :: usize where "AT_EXECFN = 31"

definition elf_auxv :: "ElfFile \<Rightarrow> AuxHeader list" where
  "elf_auxv elf =
     [AuxHeader_new AT_PHENT (ucast (elf_ph_entry_size elf)),
      AuxHeader_new AT_PHNUM (ucast (elf_ph_count elf)),
      AuxHeader_new AT_PAGESIZE PAGE_SIZE,
      AuxHeader_new AT_FLAGS 0,
      AuxHeader_new AT_ENTRY (elf_entry_point elf),
      AuxHeader_new AT_UID 0,
      AuxHeader_new AT_EUID 0,
      AuxHeader_new AT_GID 0,
      AuxHeader_new AT_EGID 0,
      AuxHeader_new AT_PLATFORM 0,
      AuxHeader_new AT_HWCAP 0,
      AuxHeader_new AT_CLKTCK CLOCK_FREQ,
      AuxHeader_new AT_SECURE 0,
      AuxHeader_new AT_NOELF 0x112d]"

definition segment_perm :: "ProgramHeader \<Rightarrow> MapPermission" where
  "segment_perm ph =
     PERM_U OR (if ph_is_read ph then PERM_R else 0) OR (if ph_is_write ph then PERM_W else 0) OR
       (if ph_is_execute ph then PERM_X else 0)"

text \<open>What the loop over the program headers changes.\<close>

record LoadState =
  ld_space :: "MemorySet \<times> MM"
  ld_max_end_vpn :: VirtPageNum
  ld_head_va :: usize

definition load_segment :: "u8 list \<Rightarrow> ProgramHeader \<Rightarrow> LoadState \<Rightarrow> LoadState res" where
  "load_segment input ph ld =
     bindR (VirtAddr_from_usize (ph_virtual_addr ph)) (\<lambda>start_va.
     bindR (VirtAddr_from_usize (ph_virtual_addr ph + ph_mem_size ph)) (\<lambda>end_va.
     bindR (MapArea_new start_va end_va Framed (segment_perm ph)) (\<lambda>map_area.
     bindR (slice_of input (unat (ph_offset ph)) (unat (ph_offset ph + ph_file_size ph))) (\<lambda>data.
     bindR (if VirtAddr_page_offset start_va = 0 then push map_area (Some data) (ld_space ld)
            else push_with_offset map_area (unat (VirtAddr_page_offset start_va)) (Some data) (ld_space ld))
       (\<lambda>space.
         Inr \<lparr> ld_space = space, ld_max_end_vpn = range_r (ma_vpn_range map_area),
               ld_head_va = (if ld_head_va ld = 0 then va_raw start_va else ld_head_va ld) \<rparr>)))))"

definition load_header :: "ElfFile \<Rightarrow> nat \<Rightarrow> LoadState \<Rightarrow> LoadState res" where
  "load_header elf i ld =
     bindR (unwrapR (elf_program_header elf i)) (\<lambda>ph.
     bindR (unwrapR (ph_type ph)) (\<lambda>ty.
       case ty of
         Load \<Rightarrow> load_segment (elf_input elf) ph ld
       | Interp \<Rightarrow> Inl Todo
       | OtherSegment \<Rightarrow> Inr ld))"

definition from_elf ::
  "(u8 list \<Rightarrow> ElfFile option) \<Rightarrow> PageTable \<Rightarrow> u8 list \<Rightarrow> MM \<Rightarrow>
     ((MemorySet \<times> usize \<times> usize \<times> usize \<times> AuxHeader list) \<times> MM) res" where
  "from_elf parse kernel_pt elf_data s =
     bindR (MemorySet_new_process kernel_pt s) (\<lambda>space.
     bindR (unwrapR (parse elf_data)) (\<lambda>elf.
     bindR (assertR (elf_magic elf = [0x7f, 0x45, 0x4c, 0x46])) (\<lambda>_.
     bindR (foldR (load_header elf) [0..<unat (elf_ph_count elf)]
         \<lparr> ld_space = space, ld_max_end_vpn = VirtPageNum 0, ld_head_va = 0 \<rparr>) (\<lambda>ld.
       let auxv = elf_auxv elf @ [AuxHeader_new AT_BASE 0,
             AuxHeader_new AT_PHDR (ld_head_va ld + elf_ph_offset elf)];
           max_end_va = VirtAddr_from_VirtPageNum (ld_max_end_vpn ld);
           user_stack_bottom = usize_from_VirtAddr max_end_va + PAGE_SIZE;
           user_stack_top = user_stack_bottom + USER_STACK_SIZE;
           user_heap_base = user_stack_top + PAGE_SIZE
       in Inr ((fst (ld_space ld), user_heap_base, user_stack_top, elf_entry_point elf, auxv),
             snd (ld_space ld))))))"

section \<open>The initial user stack\<close>

text \<open>A store through a user address goes through the page table of the current address space.\<close>

definition store_u8 :: "usize \<Rightarrow> u8 \<Rightarrow> MemorySet \<times> MM \<Rightarrow> (MemorySet \<times> MM) res" where
  "store_u8 va b = (\<lambda>(ms, s).
     bindR (VirtAddr_from_usize va) (\<lambda>v.
     bindR (PageTable_translate_va v (ms_page_table ms) (mm_mem s)) (\<lambda>t.
     bindR (unwrapR t) (\<lambda>pa.
       Inr (ms, s\<lparr> mm_mem := bytes_array_write (PhysAddr_floor pa) (unat (PhysAddr_page_offset pa)) b
         (mm_mem s) \<rparr>)))))"

definition write_u8 :: "usize \<Rightarrow> usize \<Rightarrow> u8 \<Rightarrow> MemorySet \<times> MM \<Rightarrow> (MemorySet \<times> MM) res" where
  "write_u8 token p b x = bindR (write_to_user_ptr token p x) (\<lambda>(q, y). store_u8 q b y)"

definition write_usize :: "usize \<Rightarrow> usize \<Rightarrow> usize \<Rightarrow> MemorySet \<times> MM \<Rightarrow> (MemorySet \<times> MM) res" where
  "write_usize token p w x =
     bindR (write_to_user_ptr token p x) (\<lambda>(q, y).
       foldR (\<lambda>i. store_u8 (q + of_nat i) (word_byte w i)) [0..<8] y)"

fun write_bytes :: "usize \<Rightarrow> usize \<Rightarrow> u8 list \<Rightarrow> MemorySet \<times> MM \<Rightarrow> (MemorySet \<times> MM) res" where
  "write_bytes token p [] x = Inr x"
| "write_bytes token p (c # cs) x = bindR (write_u8 token p c x) (write_bytes token (p + 1) cs)"

fun write_words :: "usize \<Rightarrow> usize \<Rightarrow> usize list \<Rightarrow> MemorySet \<times> MM \<Rightarrow> (MemorySet \<times> MM) res" where
  "write_words token p [] x = Inr x"
| "write_words token p (w # ws) x = bindR (write_usize token p w x) (write_words token (p + 8) ws)"

text \<open>\<^verbatim>\<open>push_stack\<close> copies the strings downwards, each with a terminating zero, and returns their
  addresses followed by a null pointer.\<close>

fun push_strings ::
  "usize \<Rightarrow> u8 list list \<Rightarrow> usize \<Rightarrow> MemorySet \<times> MM \<Rightarrow> (usize list \<times> usize \<times> MemorySet \<times> MM) res" where
  "push_strings token [] user_sp x = Inr ([], user_sp, x)"
| "push_strings token (parm # parms) user_sp x =
     (let sp = user_sp - (of_nat (length parm) + 1) in
      bindR (write_bytes token sp (parm @ [0]) x) (\<lambda>x1.
      bindR (push_strings token parms sp x1) (\<lambda>(ptrs, sp', x2).
        Inr (sp # ptrs, sp', x2))))"

definition push_stack ::
  "usize \<Rightarrow> u8 list list \<Rightarrow> usize \<Rightarrow> MemorySet \<times> MM \<Rightarrow> (usize list \<times> usize \<times> MemorySet \<times> MM) res" where
  "push_stack token parms user_sp x =
     bindR (push_strings token parms user_sp x) (\<lambda>(ptrs, sp, x'). Inr (ptrs @ [0], sp, x'))"

definition align_down :: "usize \<Rightarrow> usize \<Rightarrow> usize" where
  "align_down n a = a - a mod n"

definition aux_words :: "AuxHeader list \<Rightarrow> usize list" where
  "aux_words auxv = concat (map (\<lambda>h. [aux_type h, aux_value h]) auxv)"

definition build_stack ::
  "usize \<Rightarrow> u8 list list \<Rightarrow> u8 list list \<Rightarrow> AuxHeader list \<Rightarrow> usize \<Rightarrow> MemorySet \<times> MM \<Rightarrow>
     ((usize \<times> usize \<times> usize \<times> usize \<times> usize) \<times> MemorySet \<times> MM) res" where
  "build_stack user_sp0 argv_vec envp_vec auxv_vec token x0 =
     bindR (push_stack token envp_vec (user_sp0 - 2 * 8) x0) (\<lambda>(envp, sp1, x1).
     bindR (push_stack token argv_vec (align_down 8 sp1) x1) (\<lambda>(argv, sp2, x2).
     let rand_sp = align_down 8 sp2 - 16 in
     bindR (write_usize token rand_sp 0x01020304050607 x2) (\<lambda>x3.
     bindR (write_usize token (rand_sp + 8) 0x08090a0b0c0d0e0f x3) (\<lambda>x4.
     bindR (nthR argv 0) (\<lambda>execfn.
     let auxv = auxv_vec @ [AuxHeader_new AT_RANDOM rand_sp, AuxHeader_new AT_EXECFN execfn,
           AuxHeader_new AT_NULL 0];
         aux_base = align_down 16 rand_sp - of_nat (length auxv) * 16;
         envp_base = aux_base - of_nat (length envp) * 8;
         argv_base = envp_base - of_nat (length argv) * 8;
         user_sp = argv_base - 8
     in bindR (write_words token aux_base (aux_words auxv) x4) (\<lambda>x5.
        bindR (write_words token envp_base envp x5) (\<lambda>x6.
        bindR (write_words token argv_base argv x6) (\<lambda>x7.
        bindR (write_usize token user_sp (of_nat (length argv_vec)) x7) (\<lambda>x8.
          Inr ((user_sp, of_nat (length argv_vec), argv_base, envp_base, aux_base), x8))))))))))"

end
