(* ===== verification/Process.thy ===== *)
theory Process
  imports Task Elf_Load
begin

text \<open>
  Processes: creation, \<^verbatim>\<open>fork\<close>, \<^verbatim>\<open>clone\<close>, \<^verbatim>\<open>exec\<close> and destruction of control blocks
  (\<^verbatim>\<open>os/src/task/task.rs\<close>), the exit of a task (\<^verbatim>\<open>os/src/task/mod.rs\<close>), the trap context
  (\<^verbatim>\<open>os/src/trap/context.rs\<close>) and the system calls of \<^verbatim>\<open>os/src/syscall/process.rs\<close>,
  \<^verbatim>\<open>signal.rs\<close> and \<^verbatim>\<open>thread.rs\<close> on processes.

  A control block whose last \<^verbatim>\<open>Arc\<close> goes away would be dropped.  That never happens: \<^verbatim>\<open>exit\<close> keeps
  its own \<^verbatim>\<open>Arc\<close> on the kernel stack it never returns to.  The list of control blocks therefore
  only grows.
\<close>

unbundle bit_operations_syntax

section \<open>Cells\<close>

text \<open>\<^verbatim>\<open>UPSafeCell::exclusive_access\<close>: the argument says whether the cell is already borrowed.\<close>

definition exclusive_access :: "bool \<Rightarrow> unit res" where
  "exclusive_access borrowed = (if borrowed then Inl Already_borrowed else Inr ())"

section \<open>Trap contexts\<close>

record TrapContext =
  cx_x :: "usize list"
  cx_sstatus :: usize
  cx_sepc :: usize
  cx_kernel_satp :: usize
  cx_kernel_sp :: usize
  cx_trap_handler :: usize

definition set_sp :: "usize \<Rightarrow> TrapContext \<Rightarrow> TrapContext" where
  "set_sp sp cx = cx\<lparr> cx_x := (cx_x cx)[2 := sp] \<rparr>"

text \<open>Bit 8 of \<^verbatim>\<open>sstatus\<close> is \<^verbatim>\<open>SPP\<close>, zero for user mode.\<close>

definition set_spp_user :: "usize \<Rightarrow> usize" where
  "set_spp_user sstatus = sstatus AND NOT (push_bit 8 1)"

definition app_init_context :: "usize \<Rightarrow> usize \<Rightarrow> usize \<Rightarrow> usize \<Rightarrow> usize \<Rightarrow> usize \<Rightarrow> TrapContext" where
  "app_init_context sstatus entry sp kernel_satp kernel_sp trap_handler =
     set_sp sp \<lparr> cx_x = replicate 32 0, cx_sstatus = set_spp_user sstatus, cx_sepc = entry,
       cx_kernel_satp = kernel_satp, cx_kernel_sp = kernel_sp, cx_trap_handler = trap_handler \<rparr>"

text \<open>The context lies at the start of its page, as 37 words.\<close>

definition TRAP_CX_WORDS :: nat where "TRAP_CX_WORDS = 37"

definition cx_words :: "TrapContext \<Rightarrow> usize list" where
  "cx_words cx = cx_x cx @ [cx_sstatus cx, cx_sepc cx, cx_kernel_satp cx, cx_kernel_sp cx, cx_trap_handler cx]"

definition load_trap_cx :: "PhysPageNum \<Rightarrow> kmem \<Rightarrow> TrapContext" where
  "load_trap_cx p m =
     \<lparr> cx_x = map (pte_array m p) [0..<32], cx_sstatus = pte_array m p 32, cx_sepc = pte_array m p 33,
       cx_kernel_satp = pte_array m p 34, cx_kernel_sp = pte_array m p 35, cx_trap_handler = pte_array m p 36 \<rparr>"

definition store_trap_cx :: "PhysPageNum \<Rightarrow> TrapContext \<Rightarrow> kmem \<Rightarrow> kmem" where
  "store_trap_cx p cx m = fold (\<lambda>i. pte_array_write p i (cx_words cx ! i)) [0..<TRAP_CX_WORDS] m"

text \<open>The kernel reaches a trap context through the page table that is in use; where it is not
  mapped readable and writable for the kernel, the access traps and \<^verbatim>\<open>trap_from_kernel\<close> panics.\<close>

definition kernel_page :: "usize \<Rightarrow> PageTable \<Rightarrow> kmem \<Rightarrow> PhysPageNum res" where
  "kernel_page addr pt m =
     bindR (VirtAddr_from_usize addr) (\<lambda>va.
     bindR (PageTable_translate (VirtAddr_floor va) pt m) (\<lambda>t.
       case t of
         None \<Rightarrow> Inl (Explicit_panic ''a trap from kernel!'')
       | Some e \<Rightarrow>
           if pte_is_valid e \<and> pte_readable e \<and> pte_writable e \<and> pte_flags e AND PTE_U = 0 then pte_ppn e
           else Inl (Explicit_panic ''a trap from kernel!'')))"

section \<open>Control blocks\<close>

definition init_fd_table :: "File option list" where
  "init_fd_table = [Some Stdin, Some Stdout, Some Stdout]"

definition trap_cx_vpn :: "usize \<Rightarrow> VirtPageNum res" where
  "trap_cx_vpn tid = bindR (VirtAddr_from_usize (trap_cx_bottom_from_tid tid)) VirtPageNum_from_VirtAddr"

text \<open>\<^verbatim>\<open>memory_set.translate(trap_cx_bottom_va.into()).unwrap().ppn()\<close>.\<close>

definition trap_cx_ppn :: "usize \<Rightarrow> MemorySet \<Rightarrow> kmem \<Rightarrow> PhysPageNum res" where
  "trap_cx_ppn tid ms m =
     bindR (trap_cx_vpn tid) (\<lambda>vpn.
     bindR (MemorySet_translate vpn ms m) (\<lambda>t.
     bindR (unwrapR t) pte_ppn))"

definition insert_area_usize ::
  "usize \<Rightarrow> usize \<Rightarrow> MapPermission \<Rightarrow> MemorySet \<times> MM \<Rightarrow> (MemorySet \<times> MM) res" where
  "insert_area_usize l r perm x =
     bindR (VirtAddr_from_usize l) (\<lambda>start_va.
     bindR (VirtAddr_from_usize r) (\<lambda>end_va. insert_framed_area start_va end_va perm x))"

definition alloc_trap_cx :: "usize \<Rightarrow> MemorySet \<times> MM \<Rightarrow> (MemorySet \<times> MM) res" where
  "alloc_trap_cx p =
     insert_area_usize (trap_cx_bottom_from_tid p) (trap_cx_bottom_from_tid p + PAGE_SIZE) (PERM_R OR PERM_W)"

definition kstack_take :: "Kernel \<Rightarrow> (usize \<times> Kernel) res" where
  "kstack_take k =
     bindR (kstack_alloc (k_kstacks k, k_space k, k_mm k)) (\<lambda>(id', ids, space, s).
       Inr (id', k\<lparr> k_kstacks := ids, k_space := space, k_mm := s \<rparr>))"

definition init_task ::
  "symbols \<Rightarrow> usize \<Rightarrow> InodeRef \<Rightarrow> (u8 list \<Rightarrow> ElfFile option) \<Rightarrow> u8 list \<Rightarrow> Kernel \<Rightarrow> (task_ref \<times> Kernel) res" where
  "init_task sy sstatus root_inode parse elf_data k0 =
     bindR (kstack_take k0) (\<lambda>(kstack, k1).
     bindR (from_elf parse (ms_page_table (k_space k1)) elf_data (k_mm k1))
       (\<lambda>((ms0, user_heap_base, ustack_top, entry_point, auxv), s0).
     let (pid, k2) = pid_alloc k1 in
     bindR (insert_area_usize (ustack_top - USER_STACK_SIZE) ustack_top (PERM_R OR PERM_W OR PERM_U) (ms0, s0)) (\<lambda>x1.
     bindR (alloc_trap_cx pid x1) (\<lambda>(ms2, s2).
     bindR (trap_cx_ppn pid ms2 (mm_mem s2)) (\<lambda>ppn.
     bindR (VirtAddr_from_usize (trap_cx_bottom_from_tid pid)) (\<lambda>cx_va.
     bindR (PageTable_map (VirtAddr_floor cx_va) ppn (PERM_R OR PERM_W) (ms_page_table (k_space k2), s2)) (\<lambda>(kpt, s3).
     bindR (trap_cx_ppn pid ms2 (mm_mem s3)) (\<lambda>cx_ppn.
     bindR (VirtAddr_from_usize user_heap_base) (\<lambda>heap_va.
     let kstack_top = KernelStack_get_top kstack;
         space = (k_space k2)\<lparr> ms_page_table := kpt \<rparr>;
         tcb = \<lparr> t_kstack = kstack, t_tid = pid, t_pid = pid, t_send_sigchld_when_exit = False,
                 t_memory_set = ms2, t_trap_cx_ppn = cx_ppn, t_task_cx = goto_initproc_entry sy kstack_top,
                 t_task_status = Ready, t_syscall_times = replicate MAX_SYSCALL_NUM 0, t_first_time = None,
                 t_clear_child_tid = 0, t_work_dir = \<lparr> wd_name = ''/'', wd_inode = root_inode \<rparr>,
                 t_parent = None, t_children = [], t_threads = [], t_user_stack_top = ustack_top - 8,
                 t_exit_code = None, t_fd_table = init_fd_table, t_clock_stop_watch = 0, t_user_clock = 0,
                 t_kernel_clock = 0, t_heap_base = heap_va, t_heap_end = heap_va, t_is_zombie = False,
                 t_signals = 0, t_signal_actions = SignalActions_default, t_signals_pending = 0,
                 t_signal_mask = 0 \<rparr>
     in bindR (kernel_page (trap_cx_bottom_from_tid pid) kpt (mm_mem s3)) (\<lambda>cx_page.
          let cx = app_init_context sstatus entry_point (ustack_top - 8) (MemorySet_token space) kstack_top
                (sym_trap_handler sy);
              s4 = s3\<lparr> mm_mem := store_trap_cx cx_page cx (mm_mem s3) \<rparr>;
              t = length (k_tasks k2)
          in Inr (t, add_task t (k2\<lparr> k_tasks := k_tasks k2 @ [tcb], k_space := space, k_mm := s4 \<rparr>))))))))))))"

text \<open>\<^verbatim>\<open>fork\<close> of the current task.  The contexts are copied as 13 structures of 37 words.\<close>

definition copy_trap_cx :: "PhysPageNum \<Rightarrow> PhysPageNum \<Rightarrow> kmem \<Rightarrow> kmem" where
  "copy_trap_cx dst src m =
     m(ppn_kernel_addr dst := (\<lambda>i. if i < 4096 div (8 * TRAP_CX_WORDS) * TRAP_CX_WORDS
         then m (ppn_kernel_addr src) i else m (ppn_kernel_addr dst) i))"

definition fork_tcb :: "symbols \<Rightarrow> task_ref \<Rightarrow> TaskControlBlock \<Rightarrow> usize \<Rightarrow> usize \<Rightarrow> MemorySet \<Rightarrow> PhysPageNum \<Rightarrow> TaskControlBlock" where
  "fork_tcb sy self father pid kstack ms cx_ppn =
     \<lparr> t_kstack = kstack, t_tid = pid, t_pid = pid, t_send_sigchld_when_exit = False,
       t_memory_set = ms, t_trap_cx_ppn = cx_ppn, t_task_cx = goto_user_entry sy (KernelStack_get_top kstack),
       t_task_status = Ready, t_syscall_times = replicate MAX_SYSCALL_NUM 0, t_first_time = None,
       t_clear_child_tid = 0, t_work_dir = t_work_dir father, t_parent = Some self, t_children = [],
       t_threads = [], t_user_stack_top = t_user_stack_top father, t_exit_code = None,
       t_fd_table = t_fd_table father, t_clock_stop_watch = 0, t_user_clock = 0, t_kernel_clock = 0,
       t_heap_base = t_heap_base father, t_heap_end = t_heap_end father, t_is_zombie = False,
       t_signals = 0, t_signal_actions = SignalActions_default,
       t_signals_pending = t_signals_pending father, t_signal_mask = 0 \<rparr>"

definition fork :: "symbols \<Rightarrow> task_ref \<Rightarrow> Kernel \<Rightarrow> (usize \<times> Kernel) res" where
  "fork sy self k0 =
     (let (pid, k1) = pid_alloc k0 in
      bindR (trap_cx_ppn (t_tid (task k1 self)) (t_memory_set (task k1 self)) (mm_mem (k_mm k1))) (\<lambda>cx_ppn.
      bindR (kstack_take k1) (\<lambda>(kstack, k2).
      bindR (from_existed_user (ms_page_table (k_space k2)) (t_memory_set (task k2 self)) (k_mm k2)) (\<lambda>x1.
      bindR (alloc_trap_cx pid x1) (\<lambda>(ms, s2).
      bindR (trap_cx_ppn pid ms (mm_mem s2)) (\<lambda>child_ppn.
      bindR (VirtAddr_from_usize (trap_cx_bottom_from_tid pid)) (\<lambda>cx_va.
      bindR (PageTable_map (VirtAddr_floor cx_va) child_ppn (PERM_R OR PERM_W)
          (ms_page_table (t_memory_set (task k2 self)), s2)) (\<lambda>(pt, s3).
      bindR (kernel_page (trap_cx_bottom_from_tid (t_pid (task k2 self))) pt (mm_mem s3)) (\<lambda>src.
      bindR (kernel_page (trap_cx_bottom_from_tid pid) pt (mm_mem s3)) (\<lambda>dst.
      let child = length (k_tasks k2);
          father = task k2 self;
          m1 = copy_trap_cx dst src (mm_mem s3);
          m2 = pte_array_write dst 10 0 m1;
          m3 = pte_array_write dst 35 (KernelStack_get_top kstack) m2;
          k3 = upd_task self (\<lambda>c. c\<lparr> t_memory_set := (t_memory_set c)\<lparr> ms_page_table := pt \<rparr>,
                 t_children := t_children c @ [child] \<rparr>) k2;
          k4 = k3\<lparr> k_tasks := k_tasks k3 @ [fork_tcb sy self father pid kstack ms cx_ppn],
                 k_mm := s3\<lparr> mm_mem := m3 \<rparr> \<rparr>
      in Inr (pid, add_task child (insert_into_pid2process pid child k4))))))))))))"

section \<open>Threads\<close>

definition CSIGNAL :: usize where "CSIGNAL = 0xff"
definition CLONE_THREAD :: u32 where "CLONE_THREAD = 0x00010000"
definition CLONE_PARENT_SETTID :: u32 where "CLONE_PARENT_SETTID = 0x00100000"
definition CLONE_CHILD_CLEARTID :: u32 where "CLONE_CHILD_CLEARTID = 0x00200000"
definition CLONE_CHILD_SETTID :: u32 where "CLONE_CHILD_SETTID = 0x01000000"

definition CloneFlags_all :: u32 where
  "CloneFlags_all = foldr (\<lambda>i w. push_bit i 1 OR w) [7..<32] 0"

definition CloneFlags_from_bits :: "u32 \<Rightarrow> u32 option" where
  "CloneFlags_from_bits b = (if b AND NOT CloneFlags_all = 0 then Some b else None)"

text \<open>\<^verbatim>\<open>clone2\<close>: while the parent is borrowed, a null stack pointer asks for a second borrow of it; the
  address of the trap context is passed where a page number is expected.\<close>

definition clone2 :: "symbols \<Rightarrow> task_ref \<Rightarrow> usize \<Rightarrow> usize \<Rightarrow> Kernel \<Rightarrow> (task_ref \<times> Kernel) res" where
  "clone2 sy self stack_ptr tls k0 =
     (let (pid, k1) = pid_alloc k0 in
      bindR (exclusive_access False) (\<lambda>_.
      bindR (if stack_ptr \<noteq> 0 then Inr stack_ptr
             else bindR (exclusive_access True) (\<lambda>_. Inr (t_user_stack_top (task k1 self)))) (\<lambda>thread_stack_top.
      bindR (kstack_take k1) (\<lambda>(kstack, k2).
      bindR (VirtPageNum_from_usize (trap_cx_bottom_from_tid pid)) (\<lambda>vpn.
      bindR (PageTable_translate vpn (ms_page_table (t_memory_set (task k2 self))) (mm_mem (k_mm k2))) (\<lambda>t.
      bindR (unwrapR t) (\<lambda>e.
      bindR (pte_ppn e) (\<lambda>cx_ppn.
      bindR (alloc_trap_cx pid (t_memory_set (task k2 self), k_mm k2)) (\<lambda>(father_ms, s1).
      bindR (from_existed_user (ms_page_table (k_space k2)) father_ms s1) (\<lambda>(ms, s2).
      let new_task = length (k_tasks k2);
          father = task k2 self;
          tcb = (fork_tcb sy self father pid kstack ms cx_ppn)\<lparr> t_tid := t_pid father, t_parent := None,
            t_user_stack_top := thread_stack_top, t_fd_table := init_fd_table \<rparr>;
          k3 = upd_task self (\<lambda>c. c\<lparr> t_memory_set := father_ms, t_threads := t_threads c @ [Some new_task] \<rparr>) k2;
          k4 = k3\<lparr> k_tasks := k_tasks k3 @ [tcb], k_mm := s2 \<rparr>
      in bindR (kernel_page (trap_cx_bottom_from_tid (t_pid father)) (ms_page_table father_ms) (mm_mem s2)) (\<lambda>src.
         bindR (kernel_page (trap_cx_bottom_from_tid pid) (ms_page_table father_ms) (mm_mem s2)) (\<lambda>dst.
           let cx = load_trap_cx src (mm_mem s2);
               cx' = (set_sp thread_stack_top (cx\<lparr> cx_x := ((cx_x cx)[10 := 0])[4 := tls] \<rparr>))
                 \<lparr> cx_kernel_sp := KernelStack_get_top kstack \<rparr>
           in Inr (new_task, add_task new_task
                (k4\<lparr> k_mm := s2\<lparr> mm_mem := store_trap_cx dst cx' (mm_mem s2) \<rparr> \<rparr>))))))))))))))"

text \<open>\<^verbatim>\<open>sys_clone\<close>: besides the result, the values stored through \<^verbatim>\<open>ptid\<close> and \<^verbatim>\<open>ctid\<close>.\<close>

definition sys_clone ::
  "symbols \<Rightarrow> usize \<Rightarrow> usize \<Rightarrow> usize \<Rightarrow> usize \<Rightarrow> usize \<Rightarrow> Kernel \<Rightarrow>
     (usize \<times> usize option \<times> usize option \<times> Kernel) res" where
  "sys_clone sy flags stack_ptr ptid tls ctid k =
     bindR (unwrapR (current_task k)) (\<lambda>self.
     bindR (unwrapR (SignalFlags_from_bits (push_bit (unat (((flags AND CSIGNAL) - 1) AND 63)) 1))) (\<lambda>exit_signal.
     bindR (unwrapR (CloneFlags_from_bits (ucast (flags AND NOT CSIGNAL)))) (\<lambda>clone_signals.
       if \<not> flags_contains clone_signals CLONE_THREAD then
         bindR (fork sy self k) (\<lambda>(pid, k'). Inr (pid, None, None, k'))
       else
         bindR (clone2 sy self stack_ptr tls k) (\<lambda>(new_thread, k').
           let process_pid = t_pid (task k' self);
               ttid = (if t_tid (task k' new_thread) = process_pid then 0 else t_tid (task k' new_thread));
               k'' = (if flags_contains clone_signals CLONE_CHILD_CLEARTID
                      then upd_task new_thread (\<lambda>c. c\<lparr> t_clear_child_tid := ctid \<rparr>) k' else k')
           in Inr (ttid,
                (if flags_contains clone_signals CLONE_PARENT_SETTID \<and> ptid \<noteq> 0 then Some ttid else None),
                (if flags_contains clone_signals CLONE_CHILD_SETTID \<and> ctid \<noteq> 0 then Some ttid else None), k'')))))"

text \<open>\<^verbatim>\<open>clone_t\<close> allocates a number and a stack and copies the address space before it ends in
  \<^verbatim>\<open>todo!()\<close>.\<close>

definition clone_t :: "task_ref \<Rightarrow> Kernel \<Rightarrow> (task_ref \<times> Kernel) res" where
  "clone_t self k0 =
     (let (pid, k1) = pid_alloc k0 in
      bindR (from_existed_user (ms_page_table (k_space k1)) (t_memory_set (task k1 self)) (k_mm k1)) (\<lambda>(ms, s).
      bindR (kstack_take (k1\<lparr> k_mm := s \<rparr>)) (\<lambda>(kstack, k2). Inl Todo)))"

section \<open>Running another program\<close>

text \<open>Replacing an address space drops the old one: its tables, areas, heap and mappings.\<close>

definition drop_space :: "MemorySet \<Rightarrow> MM \<Rightarrow> MM res" where
  "drop_space ms = drop_frames (pt_frames (ms_page_table ms) @
     concat (map (\<lambda>area. map snd (ma_data_frames area)) (ms_areas ms)) @
     map snd (ms_heap_area ms) @ map snd (ms_mmap_area ms))"

text \<open>\<^verbatim>\<open>exec\<close> of the current task.  The arguments are written through the old address space, which
  is in use; the new trap context is stored in the new space as data of its area, and at the
  end also through the old page table, which is still the one in use.  The register
  \<^verbatim>\<open>sstatus\<close> is read while user access is enabled.\<close>

definition exec ::
  "symbols \<Rightarrow> usize \<Rightarrow> (u8 list \<Rightarrow> ElfFile option) \<Rightarrow> task_ref \<Rightarrow> u8 list \<Rightarrow> u8 list list \<Rightarrow> u8 list list \<Rightarrow>
     Kernel \<Rightarrow> Kernel res" where
  "exec sy sstatus parse self elf_data argv_vec envp_vec k =
     bindR (assertR (t_pid (task k self) = t_tid (task k self))) (\<lambda>_.
     bindR (from_elf parse (ms_page_table (k_space k)) elf_data (k_mm k))
       (\<lambda>((ms0, user_heap_base, ustack_top0, entry_point, auxv), s0).
     bindR (VirtAddr_from_usize user_heap_base) (\<lambda>heap_va.
     let ustack_top = ustack_top0 - 8;
         ustack_bottom = ustack_top - USER_STACK_SIZE + 8;
         old = t_memory_set (task k self)
     in
     bindR (insert_area_usize ustack_bottom ustack_top (PERM_R OR PERM_W OR PERM_U) (ms0, s0)) (\<lambda>(ms1, s1).
     bindR (build_stack ustack_top argv_vec envp_vec auxv (MemorySet_token ms1) (old, s1))
       (\<lambda>((user_sp, argc, argv_base, envp_base, aux_base), old1, s2).
     let kstack_top = KernelStack_get_top (t_kstack (task k self));
         cx0 = app_init_context sstatus entry_point user_sp (MemorySet_token (k_space k)) kstack_top
           (sym_trap_handler sy);
         cx = cx0\<lparr> cx_x := (((cx_x cx0)[10 := argc])[11 := argv_base])[12 := envp_base] \<rparr>;
         cx' = cx\<lparr> cx_x := (cx_x cx)[13 := aux_base] \<rparr>;
         cx_bytes = concat (map (\<lambda>w. map (word_byte w) [0..<8]) (cx_words cx'));
         bottom = trap_cx_bottom_from_tid (t_pid (task k self))
     in
     bindR (drop_space old1 s2) (\<lambda>s3.
     bindR (VirtAddr_from_usize bottom) (\<lambda>bottom_va.
     bindR (VirtAddr_from_usize (bottom + PAGE_SIZE)) (\<lambda>top_va.
     bindR (insert_framed_area_with_data bottom_va top_va (PERM_R OR PERM_W) cx_bytes (ms1, s3)) (\<lambda>(ms2, s4).
     bindR (kernel_page bottom (ms_page_table old1) (mm_mem s4)) (\<lambda>cx_page.
       Inr ((upd_task self (\<lambda>c. c\<lparr> t_heap_base := heap_va, t_heap_end := heap_va,
              t_user_stack_top := ustack_top, t_memory_set := ms2,
              t_task_cx := goto_user_entry sy kstack_top \<rparr>) k)
            \<lparr> k_mm := s4\<lparr> mm_mem := store_trap_cx cx_page cx' (mm_mem s4) \<rparr> \<rparr>)))))))))))"

section \<open>Exit\<close>

definition reparent :: "task_ref \<Rightarrow> Kernel \<Rightarrow> Kernel" where
  "reparent child k =
     upd_task (k_initproc k) (\<lambda>c. c\<lparr> t_children := t_children c @ [child] \<rparr>)
       (upd_task child (\<lambda>c. c\<lparr> t_parent := Some (k_initproc k) \<rparr>) k)"

text \<open>The main thread's part of \<^verbatim>\<open>exit_current_and_run_next\<close>.\<close>

definition exit_process :: "task_ref \<Rightarrow> 32 word \<Rightarrow> Kernel \<Rightarrow> Kernel res" where
  "exit_process t code k =
     bindR (remove_from_pid2process (t_pid (task k t)) k) (\<lambda>k1.
     let k2 = upd_task t (\<lambda>c. c\<lparr> t_is_zombie := True, t_exit_code := Some code \<rparr>) k1;
         k3 = fold reparent (t_children (task k2 t)) k2;
         k4 = fold remove_inactive_task (List.map_filter (\<lambda>u. u) (t_threads (task k3 t))) k3
     in bindR (recycle_data_pages (t_memory_set (task k4 t), k_mm k4)) (\<lambda>(ms, s).
        Inr ((upd_task t (\<lambda>c. c\<lparr> t_children := [], t_memory_set := ms, t_fd_table := [], t_threads := [] \<rparr>) k4)
             \<lparr> k_mm := s \<rparr>)))"

text \<open>\<^term>\<open>None\<close>: the machine is shut down.\<close>

definition exit_current_and_run_next :: "32 word \<Rightarrow> Kernel \<Rightarrow> Kernel option res" where
  "exit_current_and_run_next code k =
     (let (cur, k1) = take_current_task k in
      bindR (unwrapR cur) (\<lambda>t.
        if t_tid (task k1 t) = t_pid (task k1 t) then
          if t_pid (task k1 t) = IDLE_PID then Inr None
          else bindR (exit_process t code k1) (\<lambda>k2. Inr (Some k2))
        else Inr (Some k1)))"

text \<open>\<^verbatim>\<open>Drop\<close> of a control block: the cell is borrowed a second time while the first borrow lives.\<close>

definition dealloc_user_res :: "task_ref \<Rightarrow> Kernel \<Rightarrow> Kernel res" where
  "dealloc_user_res t k =
     bindR (exclusive_access False) (\<lambda>_.
     bindR (exclusive_access True) (\<lambda>_.
     let c = task k t in
     bindR (VirtAddr_from_usize (t_user_stack_top c - USER_STACK_SIZE)) (\<lambda>ustack_bottom_va.
     bindR (VirtPageNum_from_VirtAddr ustack_bottom_va) (\<lambda>stack_vpn.
     bindR (remove_area_with_start_vpn stack_vpn (t_memory_set c, k_mm k)) (\<lambda>x.
     bindR (trap_cx_vpn (t_tid c)) (\<lambda>cx_vpn.
     bindR (remove_area_with_start_vpn cx_vpn x) (\<lambda>(ms, s).
       Inr ((upd_task t (\<lambda>c. c\<lparr> t_memory_set := ms \<rparr>) k)\<lparr> k_mm := s \<rparr>))))))))"

section \<open>System calls on processes\<close>

definition sys_exit :: "32 word \<Rightarrow> Kernel \<Rightarrow> Kernel option res" where
  "sys_exit code k = exit_current_and_run_next code k"

definition sys_exit_group :: "32 word \<Rightarrow> Kernel \<Rightarrow> Kernel option res" where
  "sys_exit_group code k = exit_current_and_run_next code k"

definition sys_yield :: "Kernel \<Rightarrow> (usize \<times> Kernel) res" where
  "sys_yield k = bindR (suspend_current_and_run_next k) (\<lambda>k'. Inr (0, k'))"

definition sys_getpid :: "Kernel \<Rightarrow> usize res" where
  "sys_getpid k = bindR (unwrapR (current_task k)) (\<lambda>t. Inr (t_pid (task k t)))"

definition sys_getppid :: "Kernel \<Rightarrow> usize res" where
  "sys_getppid k =
     bindR (unwrapR (current_task k)) (\<lambda>t.
       case t_parent (task k t) of
         Some parent \<Rightarrow> Inr (t_pid (task k parent))
       | None \<Rightarrow> Inr ESRCH)"

definition sys_gettid :: "Kernel \<Rightarrow> usize res" where
  "sys_gettid k = bindR (unwrapR (current_task k)) (\<lambda>t. Inr (t_tid (task k t)))"

definition sys_set_tid_address :: "usize \<Rightarrow> Kernel \<Rightarrow> (usize \<times> Kernel) res" where
  "sys_set_tid_address tidptr k =
     bindR (unwrapR (current_task k)) (\<lambda>t.
       Inr (t_tid (task k t), upd_task t (\<lambda>c. c\<lparr> t_clear_child_tid := tidptr \<rparr>) k))"

text \<open>\<^verbatim>\<open>sys_wait4\<close>.  One turn of its loop either returns, with the pid and the exit code to be stored
  through a non-null pointer, or suspends the task.\<close>

datatype wait_turn = WaitReturn usize "32 word option" | WaitSuspended

definition WNOHANG :: u32 where "WNOHANG = 1"

definition WaitOption_from_bits :: "u32 \<Rightarrow> u32 option" where
  "WaitOption_from_bits b = (if b AND NOT (1 OR 2 OR 4 OR 8 OR 0x1000000) = 0 then Some b else None)"

definition waits_for :: "usize \<Rightarrow> Kernel \<Rightarrow> task_ref \<Rightarrow> bool" where
  "waits_for pid k p \<longleftrightarrow> pid = - 1 \<or> pid = t_pid (task k p)"

definition wait4_turn :: "usize \<Rightarrow> usize \<Rightarrow> u32 \<Rightarrow> Kernel \<Rightarrow> (wait_turn \<times> Kernel) res" where
  "wait4_turn pid exit_code_ptr option k =
     bindR (unwrapR (current_task k)) (\<lambda>t.
       let children = t_children (task k t) in
       if \<not> (\<exists>p \<in> set children. waits_for pid k p) then Inr (WaitReturn ECHILD None, k)
       else
         case find_position (\<lambda>p. t_is_zombie (task k p) \<and> waits_for pid k p) children of
           Some idx \<Rightarrow>
             let child = children ! idx in
             bindR (unwrapR (t_exit_code (task k child))) (\<lambda>exit_code.
               Inr (WaitReturn (t_pid (task k child)) (if exit_code_ptr \<noteq> 0 then Some exit_code else None),
                    upd_task t (\<lambda>c. c\<lparr> t_children := remove_nth idx (t_children c) \<rparr>) k))
         | None \<Rightarrow>
             if flags_contains option WNOHANG then Inr (WaitReturn 0 None, k)
             else bindR (suspend_current_and_run_next k) (\<lambda>k'. Inr (WaitSuspended, k')))"

text \<open>The whole call; \<^term>\<open>others n\<close> is what the rest of the system does between suspending the
  task for the \<^term>\<open>n\<close>-th time and running it again.\<close>

partial_function (option) wait4_loop ::
  "(nat \<Rightarrow> Kernel \<Rightarrow> Kernel) \<Rightarrow> usize \<Rightarrow> usize \<Rightarrow> u32 \<Rightarrow> nat \<Rightarrow> Kernel \<Rightarrow> (usize \<times> 32 word option \<times> Kernel) res option" where
  "wait4_loop others pid exit_code_ptr option n k =
     (case wait4_turn pid exit_code_ptr option k of
        Inl e \<Rightarrow> Some (Inl e)
      | Inr (WaitReturn r code, k') \<Rightarrow> Some (Inr (r, code, k'))
      | Inr (WaitSuspended, k') \<Rightarrow> wait4_loop others pid exit_code_ptr option (Suc n) (others n k'))"

definition sys_wait4 ::
  "(nat \<Rightarrow> Kernel \<Rightarrow> Kernel) \<Rightarrow> usize \<Rightarrow> usize \<Rightarrow> u32 \<Rightarrow> Kernel \<Rightarrow> (usize \<times> 32 word option \<times> Kernel) res option" where
  "sys_wait4 others pid exit_code_ptr option k =
     (case WaitOption_from_bits option of
        None \<Rightarrow> Some (Inl Unwrap_none)
      | Some opt \<Rightarrow> wait4_loop others pid exit_code_ptr opt 0 k)"

definition sys_kill :: "usize \<Rightarrow> u32 \<Rightarrow> Kernel \<Rightarrow> usize \<times> Kernel" where
  "sys_kill pid signal k =
     (case pid2process pid k of
        Some p \<Rightarrow>
          (case SignalFlags_from_bits (ucast signal) of
             Some flag \<Rightarrow> (0, upd_task p (\<lambda>c. c\<lparr> t_signals := t_signals c OR flag \<rparr>) k)
           | None \<Rightarrow> (EINVAL, k))
      | None \<Rightarrow> (ESRCH, k))"

definition check_signals_of_current :: "Kernel \<Rightarrow> (32 word \<times> string) option res" where
  "check_signals_of_current k =
     bindR (unwrapR (current_task k)) (\<lambda>t. Inr (check_error (t_signals (task k t))))"

definition current_add_signal :: "SignalFlags \<Rightarrow> Kernel \<Rightarrow> Kernel res" where
  "current_add_signal signal k =
     bindR (unwrapR (current_task k)) (\<lambda>t. Inr (upd_task t (\<lambda>c. c\<lparr> t_signals := t_signals c OR signal \<rparr>) k))"

text \<open>User memory behind pointers is a store from addresses to values of the pointer's type.\<close>

definition sys_sigprocmask ::
  "usize \<Rightarrow> usize \<Rightarrow> usize \<Rightarrow> (usize \<Rightarrow> usize) \<Rightarrow> Kernel \<Rightarrow> (usize \<times> (usize \<Rightarrow> usize) \<times> Kernel) res" where
  "sys_sigprocmask how set_ptr old_set umem k =
     bindR (unwrapR (current_task k)) (\<lambda>t.
       let mask = t_signal_mask (task k t);
           umem1 = (if old_set \<noteq> 0 then umem(old_set := mask) else umem)
       in if set_ptr = 0 then Inr (SUCCESS, umem1, k)
          else
            bindR (unwrapR (SignalFlags_from_bits (umem1 set_ptr))) (\<lambda>set_flags.
              if how = SIG_BLOCK then
                Inr (SUCCESS, umem1, upd_task t (\<lambda>c. c\<lparr> t_signal_mask := mask OR set_flags \<rparr>) k)
              else if how = SIG_UNBLOCK then
                Inr (SUCCESS, umem1, upd_task t (\<lambda>c. c\<lparr> t_signal_mask := mask AND NOT set_flags \<rparr>) k)
              else if how = SIG_SETMASK then
                Inr (SUCCESS, umem1, upd_task t (\<lambda>c. c\<lparr> t_signal_mask := set_flags \<rparr>) k)
              else Inr (EPERM, umem1, k)))"

definition sys_sigaction ::
  "usize \<Rightarrow> usize \<Rightarrow> usize \<Rightarrow> (usize \<Rightarrow> SignalAction) \<Rightarrow> Kernel \<Rightarrow>
     (usize \<times> (usize \<Rightarrow> SignalAction) \<times> Kernel) res" where
  "sys_sigaction signum action old_action umem k =
     bindR (unwrapR (current_task k)) (\<lambda>t.
       if signum > MAX_SIG then Inr (EPERM, umem, k)
       else
         bindR (nthR (t_signal_actions (task k t)) (unat signum)) (\<lambda>old.
         let umem1 = (if old_action \<noteq> 0 then umem(old_action := old) else umem) in
         case SignalFlags_from_bits (push_bit (unat ((signum - 1) AND 63)) 1) of
           None \<Rightarrow> Inr (EPERM, umem1, k)
         | Some flag \<Rightarrow>
             if check_sigaction_error flag then Inr (EPERM, umem1, k)
             else
               let umem2 = (if old_action \<noteq> 0 \<and> sa_mask old \<noteq> 40 then umem1(old_action := old) else umem1);
                   k1 = (if action \<noteq> 0
                         then upd_task t (\<lambda>c. c\<lparr> t_signal_actions := (t_signal_actions c)[unat signum := umem2 action] \<rparr>) k
                         else k)
               in Inr (SUCCESS, umem2, k1)))"

definition sys_sigtimedwait :: "usize \<Rightarrow> usize \<Rightarrow> usize \<Rightarrow> usize \<Rightarrow> usize" where
  "sys_sigtimedwait uthese info uts sigsetsize = SUCCESS"

text \<open>\<^verbatim>\<open>sys_times\<close>: user, kernel, children's user and children's kernel clock, and the result.\<close>

definition sys_times :: "usize \<Rightarrow> Kernel \<Rightarrow> ((usize \<times> usize \<times> usize \<times> usize) \<times> usize \<times> Kernel) res" where
  "sys_times time k =
     bindR (unwrapR (current_task k)) (\<lambda>t.
       let ((stime, utime), c) = get_process_clock_time time (task k t);
           k1 = upd_task t (\<lambda>_. c) k;
           (cstime, cutime) = get_children_process_clock_time (task k1 t) k1
       in Inr ((utime, stime, cutime, cstime), stime + utime, k1))"

definition sys_gettimeofday :: "usize \<Rightarrow> usize \<times> usize" where
  "sys_gettimeofday time =
     (let us = get_time_us time in (us div 1000000, us mod 1000000))"

definition sys_task_info :: "usize \<Rightarrow> Kernel \<Rightarrow> (TaskStatus \<times> u32 list \<times> usize) res" where
  "sys_task_info time k =
     bindR (unwrapR (current_task k)) (\<lambda>t.
     bindR (unwrapR (t_first_time (task k t))) (\<lambda>first.
       Inr (Running, t_syscall_times (task k t), get_time_ms time - first)))"


end
