(* ===== verification/Proc_Inv.thy ===== *)
theory Proc_Inv
  imports Process
begin

text \<open>
  Invariants of the scheduler and of the process tree, over every sequence of kernel entries: a
  step relation whose rules are the modelled kernel functions, the states it reaches from the
  first process, and what holds in all of them.
\<close>

section \<open>Updating a control block\<close>

lemma upd_task_fields [simp]:
  "k_manager (upd_task t f k) = k_manager k" "k_pid2pcb (upd_task t f k) = k_pid2pcb k"
  "k_processor (upd_task t f k) = k_processor k" "k_timers (upd_task t f k) = k_timers k"
  "k_pids (upd_task t f k) = k_pids k" "k_initproc (upd_task t f k) = k_initproc k"
  "k_kstacks (upd_task t f k) = k_kstacks k" "k_space (upd_task t f k) = k_space k" "k_mm (upd_task t f k) = k_mm k"
  "length (k_tasks (upd_task t f k)) = length (k_tasks k)"
  by (simp_all add: upd_task_def)

lemma task_upd_task [simp]:
  "t < length (k_tasks k) \<Longrightarrow> task (upd_task t f k) u = (if u = t then f (task k t) else task k u)"
  by (simp add: upd_task_def nth_list_update)

section \<open>Invariants\<close>

definition sched_ok :: "Kernel \<Rightarrow> bool" where
  "sched_ok k \<longleftrightarrow>
     distinct (k_ready k) \<and>
     (\<forall>t. t \<in> set (k_ready k) \<longleftrightarrow> t < length (k_tasks k) \<and> t_task_status (task k t) = Ready) \<and>
     (\<forall>t. k_current k = Some t \<longrightarrow>
        t < length (k_tasks k) \<and> t_task_status (task k t) = Running \<and> \<not> t_is_zombie (task k t)) \<and>
     (\<forall>t < length (k_tasks k). t_task_status (task k t) = Running \<longrightarrow>
        k_current k = Some t \<or> t_is_zombie (task k t)) \<and>
     (\<forall>t < length (k_tasks k). t_task_status (task k t) = Blocked \<longrightarrow> t \<in> set (block_queue (k_manager k))) \<and>
     (\<forall>t < length (k_tasks k). t_is_zombie (task k t) \<longrightarrow> t_task_status (task k t) = Running)"

definition pids_ok :: "Kernel \<Rightarrow> bool" where
  "pids_ok k \<longleftrightarrow>
     0 < length (k_tasks k) \<and> length (k_tasks k) < 2 ^ 64 \<and>
     k_pids k = \<lparr> ra_current = of_nat (length (k_tasks k)), ra_recycled = [] \<rparr> \<and> k_initproc k = 0 \<and>
     (\<forall>t < length (k_tasks k). t_pid (task k t) = of_nat t \<and> t_tid (task k t) = of_nat t \<and>
        t_threads (task k t) = []) \<and>
     bt_sorted (k_pid2pcb k) \<and>
     (\<forall>p t. bt_get p (k_pid2pcb k) = Some t \<longleftrightarrow>
        0 < t \<and> t < length (k_tasks k) \<and> \<not> t_is_zombie (task k t) \<and> p = of_nat t)"

definition tree_ok :: "Kernel \<Rightarrow> bool" where
  "tree_ok k \<longleftrightarrow>
     \<not> t_is_zombie (task k 0) \<and>
     (\<forall>t < length (k_tasks k). distinct (t_children (task k t)) \<and>
        (\<forall>c \<in> set (t_children (task k t)). t < c \<and> c < length (k_tasks k) \<and> t_parent (task k c) = Some t)) \<and>
     (\<forall>c < length (k_tasks k). 0 < c \<longrightarrow> \<not> t_is_zombie (task k c) \<longrightarrow>
        (\<exists>p < length (k_tasks k). \<not> t_is_zombie (task k p) \<and> c \<in> set (t_children (task k p)))) \<and>
     (\<forall>t < length (k_tasks k). t_is_zombie (task k t) \<longrightarrow>
        t_exit_code (task k t) \<noteq> None \<and> t_children (task k t) = [])"

definition kernel_ok :: "Kernel \<Rightarrow> bool" where
  "kernel_ok k \<longleftrightarrow> sched_ok k \<and> pids_ok k \<and> tree_ok k"

text \<open>Each invariant depends on a few fields of the control blocks only.\<close>

definition sched_fields :: "TaskControlBlock \<Rightarrow> TaskStatus \<times> bool" where
  "sched_fields c = (t_task_status c, t_is_zombie c)"

definition tree_fields :: "TaskControlBlock \<Rightarrow> _" where
  "tree_fields c = (t_is_zombie c, t_pid c, t_tid c, t_threads c, t_parent c, t_children c, t_exit_code c)"

definition sched_view :: "Kernel \<Rightarrow> _" where
  "sched_view k = (map sched_fields (k_tasks k), k_manager k, k_processor k)"

definition tree_view :: "Kernel \<Rightarrow> _" where
  "tree_view k = (map tree_fields (k_tasks k), k_pid2pcb k, k_pids k, k_initproc k)"

lemma map_tasks_cong:
  assumes "map f (k_tasks k') = map f (k_tasks k)"
  shows "length (k_tasks k') = length (k_tasks k)"
    and "t < length (k_tasks k) \<Longrightarrow> f (task k' t) = f (task k t)"
proof -
  show len: "length (k_tasks k') = length (k_tasks k)" using assms by (rule map_eq_imp_length_eq)
  assume "t < length (k_tasks k)"
  then show "f (task k' t) = f (task k t)"
    using len nth_map [of t "k_tasks k'" f] nth_map [of t "k_tasks k" f] assms by simp
qed

lemma map_tasks_upd:
  assumes "f (g (task k t)) = f (task k t)"
  shows "map f (k_tasks (upd_task t g k)) = map f (k_tasks k)"
proof (cases "t < length (k_tasks k)")
  case True
  then show ?thesis
    unfolding upd_task_def using list_update_id [of "map f (k_tasks k)" t] assms by (simp add: map_update)
qed (simp add: upd_task_def list_update_beyond)

lemma sched_ok_cong:
  assumes "sched_view k' = sched_view k"
  shows "sched_ok k' = sched_ok k"
proof -
  have "map sched_fields (k_tasks k') = map sched_fields (k_tasks k)" "k_manager k' = k_manager k" "k_processor k' = k_processor k"
    using assms unfolding sched_view_def prod.inject by blast+
  note eq = this(2,3) map_tasks_cong [OF this(1), unfolded sched_fields_def prod.inject]
  show ?thesis unfolding sched_ok_def by (simp add: eq cong: conj_cong)
qed

lemma pids_okD:
  assumes "pids_ok k"
  shows "0 < length (k_tasks k)" "length (k_tasks k) < 2 ^ 64" "k_initproc k = 0"
    "k_pids k = \<lparr> ra_current = of_nat (length (k_tasks k)), ra_recycled = [] \<rparr>" "bt_sorted (k_pid2pcb k)"
    "t < length (k_tasks k) \<Longrightarrow> t_pid (task k t) = of_nat t \<and> t_tid (task k t) = of_nat t \<and> t_threads (task k t) = []"
    "bt_get p (k_pid2pcb k) = Some t \<longleftrightarrow>
       0 < t \<and> t < length (k_tasks k) \<and> \<not> t_is_zombie (task k t) \<and> p = of_nat t"
  using assms unfolding pids_ok_def by blast+

lemma pids_okI:
  assumes "0 < length (k_tasks k)" "length (k_tasks k) < 2 ^ 64" "k_initproc k = 0"
    "k_pids k = \<lparr> ra_current = of_nat (length (k_tasks k)), ra_recycled = [] \<rparr>" "bt_sorted (k_pid2pcb k)"
    "\<And>t. t < length (k_tasks k) \<Longrightarrow> t_pid (task k t) = of_nat t \<and> t_tid (task k t) = of_nat t \<and> t_threads (task k t) = []"
    "\<And>p t. bt_get p (k_pid2pcb k) = Some t \<longleftrightarrow>
       0 < t \<and> t < length (k_tasks k) \<and> \<not> t_is_zombie (task k t) \<and> p = of_nat t"
  shows "pids_ok k"
  unfolding pids_ok_def using assms by blast

lemma tree_okD:
  assumes "tree_ok k"
  shows "\<not> t_is_zombie (task k 0)"
    "t < length (k_tasks k) \<Longrightarrow> distinct (t_children (task k t))"
    "\<lbrakk> t < length (k_tasks k); c \<in> set (t_children (task k t)) \<rbrakk> \<Longrightarrow>
       t < c \<and> c < length (k_tasks k) \<and> t_parent (task k c) = Some t"
    "\<lbrakk> c < length (k_tasks k); 0 < c; \<not> t_is_zombie (task k c) \<rbrakk> \<Longrightarrow>
       \<exists>p < length (k_tasks k). \<not> t_is_zombie (task k p) \<and> c \<in> set (t_children (task k p))"
    "\<lbrakk> t < length (k_tasks k); t_is_zombie (task k t) \<rbrakk> \<Longrightarrow> t_exit_code (task k t) \<noteq> None \<and> t_children (task k t) = []"
  using assms unfolding tree_ok_def by blast+

lemma tree_okI:
  assumes "\<not> t_is_zombie (task k 0)"
    "\<And>t. t < length (k_tasks k) \<Longrightarrow> distinct (t_children (task k t))"
    "\<And>t c. \<lbrakk> t < length (k_tasks k); c \<in> set (t_children (task k t)) \<rbrakk> \<Longrightarrow>
       t < c \<and> c < length (k_tasks k) \<and> t_parent (task k c) = Some t"
    "\<And>c. \<lbrakk> c < length (k_tasks k); 0 < c; \<not> t_is_zombie (task k c) \<rbrakk> \<Longrightarrow>
       \<exists>p < length (k_tasks k). \<not> t_is_zombie (task k p) \<and> c \<in> set (t_children (task k p))"
    "\<And>t. \<lbrakk> t < length (k_tasks k); t_is_zombie (task k t) \<rbrakk> \<Longrightarrow> t_exit_code (task k t) \<noteq> None \<and> t_children (task k t) = []"
  shows "tree_ok k"
  unfolding tree_ok_def using assms by blast

lemma tree_ok_frame:
  assumes eq: "map tree_fields (k_tasks k') = map tree_fields (k_tasks k)" and n: "0 < length (k_tasks k)" and ok: "tree_ok k"
  shows "tree_ok k'"
proof (rule tree_okI)
  have len: "length (k_tasks k') = length (k_tasks k)" by (rule map_tasks_cong(1) [OF eq])
  have f: "t_is_zombie (task k' t) = t_is_zombie (task k t)" "t_children (task k' t) = t_children (task k t)"
    "t_parent (task k' t) = t_parent (task k t)" "t_exit_code (task k' t) = t_exit_code (task k t)"
    if "t < length (k_tasks k')" for t
    using map_tasks_cong(2) [OF eq] that unfolding len tree_fields_def prod.inject by blast+
  show "\<not> t_is_zombie (task k' 0)" using f(1) [of 0] n len tree_okD(1) [OF ok] by simp
  fix t assume t: "t < length (k_tasks k')"
  note t' = t [unfolded len]
  show "distinct (t_children (task k' t))" using tree_okD(2) [OF ok t'] f(2) [OF t] by simp
  show "t < c \<and> c < length (k_tasks k') \<and> t_parent (task k' c) = Some t" if "c \<in> set (t_children (task k' t))" for c
    using tree_okD(3) [OF ok t' that [unfolded f(2) [OF t]]] f(3) [of c] len by simp
  show "\<exists>p < length (k_tasks k'). \<not> t_is_zombie (task k' p) \<and> t \<in> set (t_children (task k' p))"
    if "0 < t" "\<not> t_is_zombie (task k' t)"
    using tree_okD(4) [OF ok t' that(1) that(2) [unfolded f(1) [OF t]]] f(1,2) len by metis
  show "t_exit_code (task k' t) \<noteq> None \<and> t_children (task k' t) = []" if "t_is_zombie (task k' t)"
    using tree_okD(5) [OF ok t' that [unfolded f(1) [OF t]]] f(2,4) [OF t] by simp
qed

lemma tree_ok_cong:
  assumes "tree_view k' = tree_view k"
  shows "pids_ok k' = pids_ok k" "pids_ok k \<Longrightarrow> tree_ok k' = tree_ok k"
proof -
  have m: "map tree_fields (k_tasks k') = map tree_fields (k_tasks k)" and "k_pid2pcb k' = k_pid2pcb k" "k_pids k' = k_pids k"
    "k_initproc k' = k_initproc k"
    using assms unfolding tree_view_def prod.inject by blast+
  note eq = this(2-4) map_tasks_cong [OF m, unfolded tree_fields_def prod.inject]
  show "pids_ok k' = pids_ok k" unfolding pids_ok_def by (simp add: eq cong: conj_cong)
  assume "pids_ok k"
  then have n: "0 < length (k_tasks k)" by (rule pids_okD)
  then have "0 < length (k_tasks k')" using map_tasks_cong(1) [OF m] by simp
  then show "tree_ok k' = tree_ok k" using tree_ok_frame [OF m n] tree_ok_frame [OF m [symmetric]] by blast
qed

lemma kernel_ok_cong:
  assumes "sched_view k' = sched_view k" "tree_view k' = tree_view k" "kernel_ok k"
  shows "kernel_ok k'"
  using assms(3) sched_ok_cong [OF assms(1)] tree_ok_cong [OF assms(2)] by (simp add: kernel_ok_def)

lemma kernel_okD:
  assumes "kernel_ok k"
  shows "sched_ok k" "pids_ok k" "tree_ok k" "0 < length (k_tasks k)"
  using assms by (simp_all add: kernel_ok_def pids_ok_def)

section \<open>Steps of the scheduler\<close>

lemma kernel_ok_frame:
  assumes "kernel_ok k" "sched_ok k'" "map tree_fields (k_tasks k') = map tree_fields (k_tasks k)"
    "k_pid2pcb k' = k_pid2pcb k" "k_pids k' = k_pids k" "k_initproc k' = k_initproc k"
  shows "kernel_ok k'"
proof -
  have "tree_view k' = tree_view k" unfolding tree_view_def assms(3-6) by (rule refl)
  note eq = tree_ok_cong [OF this]
  show ?thesis using eq kernel_okD(2,3) [OF assms(1)] assms(2) by (simp add: kernel_ok_def)
qed

lemma tree_fields_status [simp]: "tree_fields (c\<lparr> t_task_status := st \<rparr>) = tree_fields c"
  by (simp add: tree_fields_def)

lemma add_task_fields [simp]:
  "k_tasks (add_task t k) = k_tasks k" "k_pid2pcb (add_task t k) = k_pid2pcb k"
  "k_processor (add_task t k) = k_processor k" "k_timers (add_task t k) = k_timers k"
  "k_pids (add_task t k) = k_pids k" "k_initproc (add_task t k) = k_initproc k" "k_mm (add_task t k) = k_mm k"
  "k_manager (add_task t k) = tm_add t (k_manager k)"
  "k_tasks (add_block_task t k) = k_tasks k" "k_pid2pcb (add_block_task t k) = k_pid2pcb k"
  "k_processor (add_block_task t k) = k_processor k" "k_timers (add_block_task t k) = k_timers k"
  "k_pids (add_block_task t k) = k_pids k" "k_initproc (add_block_task t k) = k_initproc k"
  "k_mm (add_block_task t k) = k_mm k" "k_manager (add_block_task t k) = tm_add_block t (k_manager k)"
  by (simp_all add: add_task_def add_block_task_def)

lemma tm_add_fields [simp]:
  "ready_queue (tm_add t m) = ready_queue m @ [t]" "block_queue (tm_add t m) = block_queue m"
  "ready_queue (tm_add_block t m) = ready_queue m" "block_queue (tm_add_block t m) = block_queue m @ [t]"
  by (simp_all add: tm_add_def tm_add_block_def)

lemma sched_ok_current:
  assumes "sched_ok k" "k_current k = Some t"
  shows "t < length (k_tasks k)" "t_task_status (task k t) = Running" "\<not> t_is_zombie (task k t)" "t \<notin> set (k_ready k)"
  using assms by (auto simp: sched_ok_def)

lemma sched_okI:
  assumes "distinct (k_ready k)"
    "\<And>t. t \<in> set (k_ready k) \<longleftrightarrow> t < length (k_tasks k) \<and> t_task_status (task k t) = Ready"
    "\<And>t. k_current k = Some t \<Longrightarrow> t < length (k_tasks k) \<and> t_task_status (task k t) = Running \<and> \<not> t_is_zombie (task k t)"
    "\<And>t. \<lbrakk> t < length (k_tasks k); t_task_status (task k t) = Running; k_current k \<noteq> Some t \<rbrakk> \<Longrightarrow> t_is_zombie (task k t)"
    "\<And>t. \<lbrakk> t < length (k_tasks k); t_task_status (task k t) = Blocked \<rbrakk> \<Longrightarrow> t \<in> set (block_queue (k_manager k))"
    "\<And>t. \<lbrakk> t < length (k_tasks k); t_is_zombie (task k t) \<rbrakk> \<Longrightarrow> t_task_status (task k t) = Running"
  shows "sched_ok k"
  unfolding sched_ok_def by (intro conjI allI impI) (use assms in blast)+

lemma sched_okD:
  assumes "sched_ok k"
  shows "distinct (k_ready k)"
    "t \<in> set (k_ready k) \<longleftrightarrow> t < length (k_tasks k) \<and> t_task_status (task k t) = Ready"
    "\<lbrakk> t < length (k_tasks k); t_task_status (task k t) = Running; k_current k \<noteq> Some t \<rbrakk> \<Longrightarrow> t_is_zombie (task k t)"
    "\<lbrakk> t < length (k_tasks k); t_task_status (task k t) = Blocked \<rbrakk> \<Longrightarrow> t \<in> set (block_queue (k_manager k))"
    "\<lbrakk> t < length (k_tasks k); t_is_zombie (task k t) \<rbrakk> \<Longrightarrow> t_task_status (task k t) = Running"
  using assms unfolding sched_ok_def by blast+

lemma suspend_eq:
  assumes "suspend_current_and_run_next k = Inr k'"
  obtains t where "k_current k = Some t"
    "k' = add_task t (upd_task t (\<lambda>c. c\<lparr> t_task_status := Ready \<rparr>) (k\<lparr> k_processor := (k_processor k)\<lparr> p_current := None \<rparr> \<rparr>))"
  using assms by (auto simp: suspend_current_and_run_next_def take_current_task_def outcome)

lemma block_eq:
  assumes "block_current_and_run_next k = Inr k'"
  obtains t where "k_current k = Some t"
    "k' = add_block_task t (upd_task t (\<lambda>c. c\<lparr> t_task_status := Blocked \<rparr>) (k\<lparr> k_processor := (k_processor k)\<lparr> p_current := None \<rparr> \<rparr>))"
  using assms by (auto simp: block_current_and_run_next_def take_current_task_def outcome)

lemma suspend_kernel_ok:
  assumes ok: "kernel_ok k" and s: "suspend_current_and_run_next k = Inr k'"
  shows "kernel_ok k'"
proof -
  let ?k = "k\<lparr> k_processor := (k_processor k)\<lparr> p_current := None \<rparr> \<rparr>"
  obtain t where t: "k_current k = Some t" and k': "k' = add_task t (upd_task t (\<lambda>c. c\<lparr> t_task_status := Ready \<rparr>) ?k)"
    using suspend_eq [OF s] by blast
  note c = sched_ok_current [OF kernel_okD(1) [OF ok] t]
  have st: "task k' u = (if u = t then (task k t)\<lparr> t_task_status := Ready \<rparr> else task k u)" for u
    using c(1) by (simp add: k')
  have len: "length (k_tasks k') = length (k_tasks k)" by (simp add: k')
  have "k_ready k' = k_ready k @ [t]" "k_current k' = None" "block_queue (k_manager k') = block_queue (k_manager k)"
    by (simp_all add: k')
  then have "sched_ok k'"
    using kernel_okD(1) [OF ok] t c unfolding sched_ok_def by (auto simp: st len)
  then show ?thesis
    by (rule kernel_ok_frame [OF ok]) (simp_all add: k' map_tasks_upd)
qed

lemma block_kernel_ok:
  assumes ok: "kernel_ok k" and s: "block_current_and_run_next k = Inr k'"
  shows "kernel_ok k'"
proof -
  let ?k = "k\<lparr> k_processor := (k_processor k)\<lparr> p_current := None \<rparr> \<rparr>"
  obtain t where t: "k_current k = Some t" and k': "k' = add_block_task t (upd_task t (\<lambda>c. c\<lparr> t_task_status := Blocked \<rparr>) ?k)"
    using block_eq [OF s] by blast
  note c = sched_ok_current [OF kernel_okD(1) [OF ok] t]
  have st: "task k' u = (if u = t then (task k t)\<lparr> t_task_status := Blocked \<rparr> else task k u)" for u
    using c(1) by (simp add: k')
  have len: "length (k_tasks k') = length (k_tasks k)" by (simp add: k')
  have "k_ready k' = k_ready k" "k_current k' = None" "block_queue (k_manager k') = block_queue (k_manager k) @ [t]"
    by (simp_all add: k')
  then have "sched_ok k'"
    using kernel_okD(1) [OF ok] t c unfolding sched_ok_def by (auto simp: st len)
  then show ?thesis
    by (rule kernel_ok_frame [OF ok]) (simp_all add: k' map_tasks_upd)
qed

lemma wakeup_kernel_ok:
  assumes ok: "kernel_ok k" and t: "t < length (k_tasks k)" "t_task_status (task k t) = Blocked"
  shows "kernel_ok (wakeup_task t k)"
proof -
  have st: "task (wakeup_task t k) u = (if u = t then (task k t)\<lparr> t_task_status := Ready \<rparr> else task k u)" for u
    using t(1) by (simp add: wakeup_task_def)
  have len: "length (k_tasks (wakeup_task t k)) = length (k_tasks k)" by (simp add: wakeup_task_def)
  have "k_ready (wakeup_task t k) = k_ready k @ [t]" "k_current (wakeup_task t k) = k_current k"
    "block_queue (k_manager (wakeup_task t k)) = block_queue (k_manager k)"
    by (simp_all add: wakeup_task_def)
  then have "sched_ok (wakeup_task t k)"
    using kernel_okD(1) [OF ok] t unfolding sched_ok_def by (auto simp: st len)
  then show ?thesis
    by (rule kernel_ok_frame [OF ok]) (simp_all add: wakeup_task_def map_tasks_upd)
qed

lemma run_turn_eq:
  assumes "run_tasks_turn time k = (True, k')"
  obtains t where "k_ready k = t # k_ready k'" "k_current k' = Some t"
    "k_tasks k' = (k_tasks k)[t := (k_tasks k ! t)\<lparr> t_task_status := Running,
       t_first_time := (case t_first_time (k_tasks k ! t) of None \<Rightarrow> Some (get_time_ms time) | Some x \<Rightarrow> Some x),
       t_clock_stop_watch := time \<rparr>]"
    "block_queue (k_manager k') = block_queue (k_manager k)" "k_pid2pcb k' = k_pid2pcb k" "k_pids k' = k_pids k"
    "k_initproc k' = k_initproc k"
  using assms
  by (cases "k_ready k") (auto simp: run_tasks_turn_def fetch_task_def tm_fetch_def upd_task_def Let_def)

lemma run_turn_kernel_ok:
  assumes ok: "kernel_ok k" and idle: "k_current k = None" and s: "run_tasks_turn time k = (True, k')"
  shows "kernel_ok k'"
proof -
  obtain t where t: "k_ready k = t # k_ready k'" "k_current k' = Some t"
    "block_queue (k_manager k') = block_queue (k_manager k)"
    and ts: "k_tasks k' = (k_tasks k)[t := (k_tasks k ! t)\<lparr> t_task_status := Running,
       t_first_time := (case t_first_time (k_tasks k ! t) of None \<Rightarrow> Some (get_time_ms time) | Some x \<Rightarrow> Some x),
       t_clock_stop_watch := time \<rparr>]"
    and f: "k_pid2pcb k' = k_pid2pcb k" "k_pids k' = k_pids k" "k_initproc k' = k_initproc k"
    using run_turn_eq [OF s] by metis
  have s0: "sched_ok k" using ok by (rule kernel_okD)
  then have r: "t < length (k_tasks k)" "t_task_status (task k t) = Ready" "t \<notin> set (k_ready k')" "distinct (k_ready k')"
    using t(1) by (auto simp: sched_ok_def)
  have st: "sched_fields (task k' u) = (if u = t then (Running, t_is_zombie (task k t)) else sched_fields (task k u))"
    if "u < length (k_tasks k)" for u
    using r(1) by (simp add: ts sched_fields_def nth_list_update)
  have st': "t_task_status (task k' u) = (if u = t then Running else t_task_status (task k u))"
    "t_is_zombie (task k' u) = t_is_zombie (task k u)" if "u < length (k_tasks k)" for u
    using st [OF that] by (auto simp: sched_fields_def split: if_splits)
  have nz: "\<not> t_is_zombie (task k t)" using s0 r by (auto simp: sched_ok_def)
  have len: "length (k_tasks k') = length (k_tasks k)" by (simp add: ts)
  have mem: "u \<in> set (k_ready k') \<longleftrightarrow> u < length (k_tasks k) \<and> t_task_status (task k u) = Ready \<and> u \<noteq> t" for u
    using sched_okD(2) [OF s0, of u] t(1) r(3) by auto
  have "sched_ok k'"
  proof (rule sched_okI, unfold len t(2,3) mem)
    show "distinct (k_ready k')" by (rule r)
    fix u
    show "(u < length (k_tasks k) \<and> t_task_status (task k u) = Ready \<and> u \<noteq> t) =
        (u < length (k_tasks k) \<and> t_task_status (task k' u) = Ready)" using st'(1) by (auto split: if_splits)
    show "Some t = Some u \<Longrightarrow> u < length (k_tasks k) \<and> t_task_status (task k' u) = Running \<and> \<not> t_is_zombie (task k' u)"
      using r(1) nz st' by simp
    assume u: "u < length (k_tasks k)"
    show "t_task_status (task k' u) = Running \<Longrightarrow> Some t \<noteq> Some u \<Longrightarrow> t_is_zombie (task k' u)"
      using sched_okD(3) [OF s0 u] idle st' [OF u] by simp
    show "t_task_status (task k' u) = Blocked \<Longrightarrow> u \<in> set (block_queue (k_manager k))"
      using sched_okD(4) [OF s0 u] st' [OF u] by (simp split: if_splits)
    show "t_is_zombie (task k' u) \<Longrightarrow> t_task_status (task k' u) = Running"
      using sched_okD(5) [OF s0 u] st' [OF u] by simp
  qed
  moreover have "map tree_fields (k_tasks k') = map tree_fields (k_tasks k)"
    unfolding ts using map_tasks_upd [of tree_fields "\<lambda>_. (k_tasks k ! t)\<lparr> t_task_status := Running,
       t_first_time := (case t_first_time (k_tasks k ! t) of None \<Rightarrow> Some (get_time_ms time) | Some x \<Rightarrow> Some x),
       t_clock_stop_watch := time \<rparr>" k t] by (simp add: upd_task_def tree_fields_def)
  ultimately show ?thesis using kernel_ok_frame [OF ok] f by blast
qed

section \<open>Fork\<close>

lemma kstack_take_fields:
  assumes "kstack_take k = Inr (id', k')"
  shows "k_tasks k' = k_tasks k" "k_manager k' = k_manager k" "k_pid2pcb k' = k_pid2pcb k"
    "k_processor k' = k_processor k" "k_pids k' = k_pids k" "k_initproc k' = k_initproc k" "k_timers k' = k_timers k"
  using assms by (auto simp: kstack_take_def bindR_eq_Inr)

lemma fork_eq:
  assumes "fork sy self k = Inr (pid, k')"
  obtains kstack ms cx pt where
    "k_tasks k' = (k_tasks k)[self := (task k self)\<lparr> t_memory_set := (t_memory_set (task k self))\<lparr> ms_page_table := pt \<rparr>,
       t_children := t_children (task k self) @ [length (k_tasks k)] \<rparr>] @ [fork_tcb sy self (task k self) pid kstack ms cx]"
    "k_manager k' = tm_add (length (k_tasks k)) (k_manager k)"
    "k_pid2pcb k' = snd (bt_insert pid (length (k_tasks k)) (k_pid2pcb k))"
    "k_processor k' = k_processor k" "k_pids k' = snd (ra_alloc (k_pids k))" "k_initproc k' = k_initproc k"
    "pid = fst (ra_alloc (k_pids k))"
proof -
  obtain p k1 where p: "pid_alloc k = (p, k1)" by (cases "pid_alloc k")
  have k1: "k1 = k\<lparr> k_pids := snd (ra_alloc (k_pids k)) \<rparr>" "p = fst (ra_alloc (k_pids k))"
    using p by (auto simp: pid_alloc_def split: prod.splits)
  obtain kstack k2 where ks: "kstack_take k1 = Inr (kstack, k2)"
    using assms p by (auto simp: fork_def bindR_eq_Inr)
  note f = kstack_take_fields [OF ks]
  show ?thesis
    using assms p ks f k1
    by (auto simp: fork_def bindR_eq_Inr Let_def upd_task_def insert_into_pid2process_def
        intro!: that)
qed

lemma unat_of_nat64: "a < 2 ^ 64 \<Longrightarrow> unat (of_nat a :: usize) = a"
  by (rule of_nat_inverse [OF refl]) simp

lemma of_nat_inj64: "\<lbrakk> (of_nat a :: usize) = of_nat b; a < 2 ^ 64; b < 2 ^ 64 \<rbrakk> \<Longrightarrow> a = b"
  by (metis unat_of_nat64)

text \<open>What \<^verbatim>\<open>fork\<close> does to the fields the invariants speak of.\<close>

lemma fork_effect:
  assumes ok: "kernel_ok k" and cur: "k_current k = Some self" and f: "fork sy self k = Inr (pid, k')"
  shows "length (k_tasks k') = Suc (length (k_tasks k))" "pid = of_nat (length (k_tasks k))"
    "u < length (k_tasks k) \<Longrightarrow> sched_fields (task k' u) = sched_fields (task k u)"
    "u < length (k_tasks k) \<Longrightarrow> tree_fields (task k' u) = tree_fields (if u = self
       then (task k self)\<lparr> t_children := t_children (task k self) @ [length (k_tasks k)] \<rparr> else task k u)"
    "sched_fields (task k' (length (k_tasks k))) = (Ready, False)"
    "tree_fields (task k' (length (k_tasks k))) = (False, pid, pid, [], Some self, [], None)"
    "k_manager k' = tm_add (length (k_tasks k)) (k_manager k)" "k_processor k' = k_processor k"
    "k_pid2pcb k' = snd (bt_insert pid (length (k_tasks k)) (k_pid2pcb k))" "k_initproc k' = k_initproc k"
    "k_pids k' = \<lparr> ra_current = of_nat (Suc (length (k_tasks k))), ra_recycled = [] \<rparr>"
proof -
  let ?n = "length (k_tasks k)"
  obtain kstack ms cx pt where
    ts: "k_tasks k' = (k_tasks k)[self := (task k self)\<lparr> t_memory_set := (t_memory_set (task k self))\<lparr> ms_page_table := pt \<rparr>,
       t_children := t_children (task k self) @ [?n] \<rparr>] @ [fork_tcb sy self (task k self) pid kstack ms cx]"
    and g: "k_manager k' = tm_add ?n (k_manager k)" "k_pid2pcb k' = snd (bt_insert pid ?n (k_pid2pcb k))"
      "k_processor k' = k_processor k" "k_initproc k' = k_initproc k"
    and ids: "k_pids k' = snd (ra_alloc (k_pids k))" and pid: "pid = fst (ra_alloc (k_pids k))"
    by (rule fork_eq [OF f])
  show "k_manager k' = tm_add ?n (k_manager k)" "k_processor k' = k_processor k"
    "k_pid2pcb k' = snd (bt_insert pid ?n (k_pid2pcb k))" "k_initproc k' = k_initproc k" by (rule g)+
  show "pid = of_nat ?n" "k_pids k' = \<lparr> ra_current = of_nat (Suc ?n), ra_recycled = [] \<rparr>"
    using pids_okD(4) [OF kernel_okD(2) [OF ok]] pid ids by (simp_all add: ra_alloc_def)
  show "length (k_tasks k') = Suc ?n" by (simp add: ts)
  have self: "self < ?n" by (rule sched_ok_current [OF kernel_okD(1) [OF ok] cur])
  show "u < ?n \<Longrightarrow> sched_fields (task k' u) = sched_fields (task k u)"
    using self by (simp add: ts nth_append nth_list_update sched_fields_def)
  show "u < ?n \<Longrightarrow> tree_fields (task k' u) = tree_fields (if u = self
       then (task k self)\<lparr> t_children := t_children (task k self) @ [?n] \<rparr> else task k u)"
    using self by (simp add: ts nth_append nth_list_update tree_fields_def)
  show "sched_fields (task k' ?n) = (Ready, False)" "tree_fields (task k' ?n) = (False, pid, pid, [], Some self, [], None)"
    by (simp_all add: ts nth_append sched_fields_def tree_fields_def fork_tcb_def)
qed

lemma fork_sched_ok:
  assumes ok: "kernel_ok k" and cur: "k_current k = Some self" and f: "fork sy self k = Inr (pid, k')"
  shows "sched_ok k'"
proof (rule sched_okI)
  let ?n = "length (k_tasks k)"
  note s0 = kernel_okD(1) [OF ok] and e = fork_effect [OF ok cur f]
  note old = e(3) [unfolded sched_fields_def prod.inject] and new = e(5) [unfolded sched_fields_def prod.inject]
  have "?n \<notin> set (k_ready k)" using sched_okD(2) [OF s0, of ?n] by simp
  then show "distinct (k_ready k')" using sched_okD(1) [OF s0] by (simp add: e(7))
  fix u
  show "u \<in> set (k_ready k') \<longleftrightarrow> u < length (k_tasks k') \<and> t_task_status (task k' u) = Ready"
    using sched_okD(2) [OF s0, of u] old [of u] new by (auto simp: e(1,7) less_Suc_eq)
  show "k_current k' = Some u \<Longrightarrow> u < length (k_tasks k') \<and> t_task_status (task k' u) = Running \<and> \<not> t_is_zombie (task k' u)"
    using sched_ok_current [OF s0, of u] old [of u] by (simp add: e(1,8))
  assume "u < length (k_tasks k')"
  then consider "u = ?n" | "u < ?n" using e(1) by linarith
  note u = this
  show "t_task_status (task k' u) = Running \<Longrightarrow> k_current k' \<noteq> Some u \<Longrightarrow> t_is_zombie (task k' u)"
    using u by cases (use new sched_okD(3) [OF s0, of u] old [of u] in \<open>simp_all add: e(8)\<close>)
  show "t_task_status (task k' u) = Blocked \<Longrightarrow> u \<in> set (block_queue (k_manager k'))"
    using u by cases (use new sched_okD(4) [OF s0, of u] old [of u] in \<open>simp_all add: e(7)\<close>)
  show "t_is_zombie (task k' u) \<Longrightarrow> t_task_status (task k' u) = Running"
    using u by cases (use new sched_okD(5) [OF s0, of u] old [of u] in simp_all)
qed

lemma fork_pids_ok:
  assumes ok: "kernel_ok k" and cur: "k_current k = Some self" and f: "fork sy self k = Inr (pid, k')"
    and room: "Suc (length (k_tasks k)) < 2 ^ 64"
  shows "pids_ok k'"
proof (rule pids_okI)
  let ?n = "length (k_tasks k)"
  note p0 = kernel_okD(2) [OF ok] and e = fork_effect [OF ok cur f]
  have old: "t_is_zombie (task k' u) = t_is_zombie (task k u) \<and> t_pid (task k' u) = t_pid (task k u) \<and>
      t_tid (task k' u) = t_tid (task k u) \<and> t_threads (task k' u) = t_threads (task k u)" if "u < ?n" for u
    using e(4) [OF that] by (auto simp: tree_fields_def split: if_splits)
  note new = e(6) [unfolded tree_fields_def prod.inject]
  show "0 < length (k_tasks k')" "length (k_tasks k') < 2 ^ 64" "k_initproc k' = 0"
    "k_pids k' = \<lparr> ra_current = of_nat (length (k_tasks k')), ra_recycled = [] \<rparr>" "bt_sorted (k_pid2pcb k')"
    using room e(1) e(10,11) pids_okD(3) [OF p0] bt.put_wf [OF pids_okD(5) [OF p0]] by (simp_all add: e(9))
  show "t_pid (task k' t) = of_nat t \<and> t_tid (task k' t) = of_nat t \<and> t_threads (task k' t) = []"
    if "t < length (k_tasks k')" for t
  proof (cases "t = ?n")
    case True
    then show ?thesis using new e(2) by simp
  next
    case False
    then have "t < ?n" using that e(1) by simp
    then show ?thesis using old pids_okD(6) [OF p0] by simp
  qed
  fix p t
  have n: "0 < ?n" by (rule pids_okD(1) [OF p0])
  have get: "bt_get p (k_pid2pcb k') = (if p = pid then Some ?n else bt_get p (k_pid2pcb k))"
    unfolding e(9) by (rule bt.put_get [OF pids_okD(5) [OF p0]])
  show "bt_get p (k_pid2pcb k') = Some t \<longleftrightarrow>
      0 < t \<and> t < length (k_tasks k') \<and> \<not> t_is_zombie (task k' t) \<and> p = of_nat t"
  proof (cases "t = ?n")
    case True
    then show ?thesis
      using get new n e(1,2) pids_okD(7) [OF p0, of p ?n] by auto
  next
    case False
    have "p \<noteq> of_nat t" if "t < ?n" "p = pid"
      using that of_nat_inj64 [of t ?n] e(2) room by auto
    then show ?thesis
      using False get old [of t] e(1,2) pids_okD(7) [OF p0, of p t] by auto
  qed
qed

lemma fork_tree_ok:
  assumes ok: "kernel_ok k" and cur: "k_current k = Some self" and f: "fork sy self k = Inr (pid, k')"
  shows "tree_ok k'"
proof (rule tree_okI)
  let ?n = "length (k_tasks k)"
  note t0 = kernel_okD(3) [OF ok] and e = fork_effect [OF ok cur f]
  note c = sched_ok_current [OF kernel_okD(1) [OF ok] cur]
  have old: "t_is_zombie (task k' u) = t_is_zombie (task k u)" "t_parent (task k' u) = t_parent (task k u)"
      "t_exit_code (task k' u) = t_exit_code (task k u)"
      "t_children (task k' u) = t_children (task k u) @ (if u = self then [?n] else [])" if "u < ?n" for u
    using e(4) [OF that] by (auto simp: tree_fields_def split: if_splits)
  note new = e(6) [unfolded tree_fields_def prod.inject]
  have split: "t = ?n \<or> t < ?n" if "t < length (k_tasks k')" for t using that e(1) by linarith
  show "\<not> t_is_zombie (task k' 0)" using old(1) [OF kernel_okD(4) [OF ok]] tree_okD(1) [OF t0] by simp
  show "distinct (t_children (task k' t))" if "t < length (k_tasks k')" for t
    using split [OF that] new old [of t] tree_okD(2) [OF t0, of t] tree_okD(3) [OF t0, of t ?n] by auto
  show "t < u \<and> u < length (k_tasks k') \<and> t_parent (task k' u) = Some t"
    if t: "t < length (k_tasks k')" and u: "u \<in> set (t_children (task k' t))" for t u
  proof -
    have t': "t < ?n" using split [OF t] u new by auto
    then consider "u \<in> set (t_children (task k t))" | "u = ?n" "t = self"
      using u old(4) [OF t'] by (auto split: if_splits)
    then show ?thesis
    proof cases
      case 1
      then show ?thesis using tree_okD(3) [OF t0 t' 1] old(2) [of u] e(1) by simp
    next
      case 2
      then show ?thesis using c(1) new e(1) by simp
    qed
  qed
  show "\<exists>p < length (k_tasks k'). \<not> t_is_zombie (task k' p) \<and> u \<in> set (t_children (task k' p))"
    if u: "u < length (k_tasks k')" "0 < u" "\<not> t_is_zombie (task k' u)" for u
  proof (cases "u = ?n")
    case True
    then show ?thesis using c old [OF c(1)] e(1) by (intro exI [of _ self]) auto
  next
    case False
    then have u': "u < ?n" using split [OF u(1)] by blast
    then obtain p where "p < ?n" "\<not> t_is_zombie (task k p)" "u \<in> set (t_children (task k p))"
      using tree_okD(4) [OF t0 u' u(2)] u(3) old(1) by auto
    then show ?thesis using old [of p] e(1) by (intro exI [of _ p]) auto
  qed
  show "t_exit_code (task k' t) \<noteq> None \<and> t_children (task k' t) = []"
    if t: "t < length (k_tasks k')" "t_is_zombie (task k' t)" for t
    using split [OF t(1)] t(2) new old [of t] tree_okD(5) [OF t0, of t] c(3) by auto
qed

lemma fork_kernel_ok:
  assumes "kernel_ok k" "k_current k = Some self" "fork sy self k = Inr (pid, k')" "Suc (length (k_tasks k)) < 2 ^ 64"
  shows "kernel_ok k'"
  using fork_sched_ok [OF assms(1-3)] fork_pids_ok [OF assms] fork_tree_ok [OF assms(1-3)] by (simp add: kernel_ok_def)


section \<open>Exit\<close>

lemma reparent_fields [simp]:
  "k_manager (reparent c k) = k_manager k" "k_pid2pcb (reparent c k) = k_pid2pcb k"
  "k_processor (reparent c k) = k_processor k" "k_pids (reparent c k) = k_pids k"
  "k_initproc (reparent c k) = k_initproc k" "k_mm (reparent c k) = k_mm k" "k_timers (reparent c k) = k_timers k"
  "length (k_tasks (reparent c k)) = length (k_tasks k)"
  by (simp_all add: reparent_def)

lemma fold_reparent_fields [simp]:
  "k_manager (fold reparent cs k) = k_manager k" "k_pid2pcb (fold reparent cs k) = k_pid2pcb k"
  "k_processor (fold reparent cs k) = k_processor k" "k_pids (fold reparent cs k) = k_pids k"
  "k_initproc (fold reparent cs k) = k_initproc k" "k_mm (fold reparent cs k) = k_mm k" "k_timers (fold reparent cs k) = k_timers k"
  "length (k_tasks (fold reparent cs k)) = length (k_tasks k)"
  by (induction cs arbitrary: k) simp_all

lemma fold_reparent_task:
  assumes "k_initproc k = 0" "0 < length (k_tasks k)" "\<forall>c \<in> set cs. 0 < c \<and> c < length (k_tasks k)"
  shows "task (fold reparent cs k) u =
    (if u = 0 then (task k 0)\<lparr> t_children := t_children (task k 0) @ cs \<rparr>
     else if u \<in> set cs then (task k u)\<lparr> t_parent := Some 0 \<rparr> else task k u)"
  using assms
proof (induction cs arbitrary: k)
  case (Cons c cs)
  have c: "0 < c" "c < length (k_tasks k)" using Cons.prems(3) by auto
  have t: "task (reparent c k) v = (if v = 0 then (task k 0)\<lparr> t_children := t_children (task k 0) @ [c] \<rparr>
      else if v = c then (task k c)\<lparr> t_parent := Some 0 \<rparr> else task k v)" for v
    using c Cons.prems by (simp add: reparent_def)
  have "task (fold reparent cs (reparent c k)) u =
    (if u = 0 then (task (reparent c k) 0)\<lparr> t_children := t_children (task (reparent c k) 0) @ cs \<rparr>
     else if u \<in> set cs then (task (reparent c k) u)\<lparr> t_parent := Some 0 \<rparr> else task (reparent c k) u)"
    by (rule Cons.IH) (use Cons.prems in simp_all)
  then show ?case unfolding t using c by (simp add: t)
qed simp

text \<open>A process that is not the first: its children move to the first process, its pid is free of the
  table, and its address space is given back.\<close>

lemma exit_eq:
  assumes ok: "kernel_ok k" and cur: "k_current k = Some t" and x: "exit_current_and_run_next code k = Inr (Some k')"
  obtains ms s ps where "0 < t" "t < length (k_tasks k)" "bt_remove (of_nat t) (k_pid2pcb k) = (Some t, ps)"
    "length (k_tasks k') = length (k_tasks k)"
    "\<forall>u. task k' u = (if u = 0 then (task k 0)\<lparr> t_children := t_children (task k 0) @ t_children (task k t) \<rparr>
       else if u = t then (task k t)\<lparr> t_is_zombie := True, t_exit_code := Some code, t_children := [], t_memory_set := ms,
           t_fd_table := [], t_threads := [] \<rparr>
       else if u \<in> set (t_children (task k t)) then (task k u)\<lparr> t_parent := Some 0 \<rparr> else task k u)"
    "k_manager k' = k_manager k" "k_processor k' = (k_processor k)\<lparr> p_current := None \<rparr>" "k_pid2pcb k' = ps"
    "k_pids k' = k_pids k" "k_initproc k' = 0" "k_mm k' = s" "k_timers k' = k_timers k"
    "recycle_data_pages (t_memory_set (task k t), k_mm k) = Inr (ms, s)"
proof -
  let ?ch = "t_children (task k t)"
  let ?k1 = "k\<lparr> k_processor := (k_processor k)\<lparr> p_current := None \<rparr> \<rparr>"
  note c = sched_ok_current [OF kernel_okD(1) [OF ok] cur]
  note p0 = kernel_okD(2) [OF ok] and t0 = kernel_okD(3) [OF ok]
  have id: "t_pid (task k t) = of_nat t" "t_tid (task k t) = of_nat t" "t_threads (task k t) = []"
    using pids_okD(6) [OF p0 c(1)] by simp_all
  have x': "t_pid (task k t) \<noteq> IDLE_PID" "exit_process t code ?k1 = Inr k'"
    using x cur id by (auto simp: exit_current_and_run_next_def take_current_task_def outcome bindR_eq_Inr split: if_splits)
  have t: "0 < t" using x'(1) id(1) by (cases t) (simp_all add: IDLE_PID_def)
  obtain k2 where rm: "remove_from_pid2process (of_nat t) ?k1 = Inr k2"
    using x'(2) id(1) by (auto simp: exit_process_def bindR_eq_Inr)
  then obtain w ps where ps: "bt_remove (of_nat t) (k_pid2pcb k) = (Some w, ps)" and k2: "k2 = ?k1\<lparr> k_pid2pcb := ps \<rparr>"
    by (auto simp: remove_from_pid2process_def split: prod.splits option.splits)
  have w: "w = t"
    using ps bt.del_old [OF pids_okD(5) [OF p0], of "of_nat t"] pids_okD(7) [OF p0, of "of_nat t" t] t c by auto
  let ?k3 = "upd_task t (\<lambda>c. c\<lparr> t_is_zombie := True, t_exit_code := Some code \<rparr>) k2"
  let ?k4 = "fold reparent ?ch ?k3"
  have "0 < u \<and> u < length (k_tasks ?k3) \<and> u \<noteq> t" if "u \<in> set ?ch" for u
    using tree_okD(3) [OF t0 c(1) that] by (simp add: k2)
  then have ch: "\<forall>u \<in> set ?ch. 0 < u \<and> u < length (k_tasks ?k3)" "t \<notin> set ?ch" by blast+
  have len: "t < length (k_tasks k2)" using c(1) by (simp add: k2)
  have ch3: "t_children (task ?k3 t) = ?ch" using len by (simp add: k2)
  have k4: "task ?k4 u =
    (if u = 0 then (task ?k3 0)\<lparr> t_children := t_children (task ?k3 0) @ ?ch \<rparr>
     else if u \<in> set ?ch then (task ?k3 u)\<lparr> t_parent := Some 0 \<rparr> else task ?k3 u)" for u
    by (rule fold_reparent_task) (use ch pids_okD(1,3) [OF p0] in \<open>simp_all add: k2\<close>)
  have k4t: "t_threads (task ?k4 t) = []" "t_memory_set (task ?k4 t) = t_memory_set (task k t)"
    using t ch(2) len id(3) unfolding k4 by (simp_all add: k2)
  have k4f: "k_mm ?k4 = k_mm k" by (simp add: k2)
  obtain ms s where rc: "recycle_data_pages (t_memory_set (task k t), k_mm k) = Inr (ms, s)"
    and k': "k' = (upd_task t (\<lambda>c. c\<lparr> t_children := [], t_memory_set := ms, t_fd_table := [], t_threads := [] \<rparr>) ?k4)\<lparr> k_mm := s \<rparr>"
    using x'(2) id(1) rm ch3 k4t k4f by (auto simp: exit_process_def bindR_eq_Inr Let_def map_filter_def)
  show ?thesis
  proof (rule that [OF t c(1) ps [unfolded w]])
    show "length (k_tasks k') = length (k_tasks k)" "k_manager k' = k_manager k"
      "k_processor k' = (k_processor k)\<lparr> p_current := None \<rparr>" "k_pid2pcb k' = ps" "k_pids k' = k_pids k" "k_mm k' = s" "k_timers k' = k_timers k"
      by (simp_all add: k' k2)
    show "k_initproc k' = 0" using pids_okD(3) [OF p0] by (simp add: k' k2)
    show "recycle_data_pages (t_memory_set (task k t), k_mm k) = Inr (ms, s)" by (rule rc)
    have "task k' u = (if u = t then (task ?k4 t)\<lparr> t_children := [], t_memory_set := ms, t_fd_table := [], t_threads := [] \<rparr>
        else task ?k4 u)" for u unfolding k' using len by simp
    then show "\<forall>u. task k' u = (if u = 0 then (task k 0)\<lparr> t_children := t_children (task k 0) @ ?ch \<rparr>
       else if u = t then (task k t)\<lparr> t_is_zombie := True, t_exit_code := Some code, t_children := [], t_memory_set := ms,
           t_fd_table := [], t_threads := [] \<rparr>
       else if u \<in> set ?ch then (task k u)\<lparr> t_parent := Some 0 \<rparr> else task k u)"
      unfolding k4 using t len ch(2) by (simp add: k2)
  qed
qed

lemma exit_effect:
  assumes ok: "kernel_ok k" and cur: "k_current k = Some t" and x: "exit_current_and_run_next code k = Inr (Some k')"
  shows "0 < t" "length (k_tasks k') = length (k_tasks k)"
    "t_task_status (task k' u) = t_task_status (task k u)" "t_is_zombie (task k' u) \<longleftrightarrow> t_is_zombie (task k u) \<or> u = t"
    "t_pid (task k' u) = t_pid (task k u)" "t_tid (task k' u) = t_tid (task k u)"
    "t_threads (task k' u) = (if u = t then [] else t_threads (task k u))"
    "t_children (task k' u) = (if u = 0 then t_children (task k 0) @ t_children (task k t) else if u = t then [] else t_children (task k u))"
    "t_exit_code (task k' u) = (if u = t then Some code else t_exit_code (task k u))"
    "t_parent (task k' u) = (if u \<in> set (t_children (task k t)) then Some 0 else t_parent (task k u))"
    "k_manager k' = k_manager k" "k_processor k' = (k_processor k)\<lparr> p_current := None \<rparr>"
    "bt_get p (k_pid2pcb k') = (if p = of_nat t then None else bt_get p (k_pid2pcb k))" "bt_sorted (k_pid2pcb k')"
    "k_pids k' = k_pids k" "k_initproc k' = 0" "k_timers k' = k_timers k"
proof -
  obtain ms s ps where t: "0 < t" "t < length (k_tasks k)" and ps: "bt_remove (of_nat t) (k_pid2pcb k) = (Some t, ps)"
    and len: "length (k_tasks k') = length (k_tasks k)"
    and ts0: "\<forall>u. task k' u = (if u = 0 then (task k 0)\<lparr> t_children := t_children (task k 0) @ t_children (task k t) \<rparr>
       else if u = t then (task k t)\<lparr> t_is_zombie := True, t_exit_code := Some code, t_children := [], t_memory_set := ms,
           t_fd_table := [], t_threads := [] \<rparr>
       else if u \<in> set (t_children (task k t)) then (task k u)\<lparr> t_parent := Some 0 \<rparr> else task k u)"
    and g: "k_manager k' = k_manager k" "k_processor k' = (k_processor k)\<lparr> p_current := None \<rparr>"
    and p: "k_pid2pcb k' = ps" and g': "k_pids k' = k_pids k" "k_initproc k' = 0"
    and "k_mm k' = s" and tm: "k_timers k' = k_timers k" and "recycle_data_pages (t_memory_set (task k t), k_mm k) = Inr (ms, s)"
    by (rule exit_eq [OF ok cur x])
  note ts = ts0 [rule_format]
  show "0 < t" "length (k_tasks k') = length (k_tasks k)" "k_manager k' = k_manager k"
    "k_processor k' = (k_processor k)\<lparr> p_current := None \<rparr>" "k_pids k' = k_pids k" "k_initproc k' = 0" "k_timers k' = k_timers k"
    by (fact t len g g' tm)+
  have ch: "0 \<notin> set (t_children (task k t))" "t \<notin> set (t_children (task k t))"
    using tree_okD(3) [OF kernel_okD(3) [OF ok] t(2)] by blast+
  show "t_task_status (task k' u) = t_task_status (task k u)" "t_is_zombie (task k' u) \<longleftrightarrow> t_is_zombie (task k u) \<or> u = t"
    "t_pid (task k' u) = t_pid (task k u)" "t_tid (task k' u) = t_tid (task k u)"
    "t_threads (task k' u) = (if u = t then [] else t_threads (task k u))"
    "t_children (task k' u) = (if u = 0 then t_children (task k 0) @ t_children (task k t) else if u = t then [] else t_children (task k u))"
    "t_exit_code (task k' u) = (if u = t then Some code else t_exit_code (task k u))"
    "t_parent (task k' u) = (if u \<in> set (t_children (task k t)) then Some 0 else t_parent (task k u))"
    unfolding ts using t(1) ch by simp_all
  note so = pids_okD(5) [OF kernel_okD(2) [OF ok]]
  show "bt_get p (k_pid2pcb k') = (if p = of_nat t then None else bt_get p (k_pid2pcb k))" "bt_sorted (k_pid2pcb k')"
    using bt.del_get [OF so, of p "of_nat t"] bt.del_wf [OF so, of "of_nat t"] p ps by simp_all
qed

lemma exit_sched_ok:
  assumes ok: "kernel_ok k" and cur: "k_current k = Some t" and x: "exit_current_and_run_next code k = Inr (Some k')"
  shows "sched_ok k'"
proof (rule sched_okI)
  note s0 = kernel_okD(1) [OF ok] and e = exit_effect [OF ok cur x]
  note c = sched_ok_current [OF s0 cur]
  show "distinct (k_ready k')" using sched_okD(1) [OF s0] by (simp add: e(11))
  show "k_current k' = Some u \<Longrightarrow> u < length (k_tasks k') \<and> t_task_status (task k' u) = Running \<and> \<not> t_is_zombie (task k' u)" for u
    by (simp add: e(12))
  fix u
  show "u \<in> set (k_ready k') \<longleftrightarrow> u < length (k_tasks k') \<and> t_task_status (task k' u) = Ready"
    using sched_okD(2) [OF s0, of u] by (simp add: e(2,3,11))
  assume "u < length (k_tasks k')"
  then have u: "u < length (k_tasks k)" by (simp add: e(2))
  show "t_task_status (task k' u) = Running \<Longrightarrow> k_current k' \<noteq> Some u \<Longrightarrow> t_is_zombie (task k' u)"
    using sched_okD(3) [OF s0 u] cur by (auto simp: e(3,4))
  show "t_task_status (task k' u) = Blocked \<Longrightarrow> u \<in> set (block_queue (k_manager k'))"
    using sched_okD(4) [OF s0 u] by (simp add: e(3,11))
  show "t_is_zombie (task k' u) \<Longrightarrow> t_task_status (task k' u) = Running"
    using sched_okD(5) [OF s0 u] c(2) by (auto simp: e(3,4))
qed

lemma exit_pids_ok:
  assumes ok: "kernel_ok k" and cur: "k_current k = Some t" and x: "exit_current_and_run_next code k = Inr (Some k')"
  shows "pids_ok k'"
proof (rule pids_okI)
  note p0 = kernel_okD(2) [OF ok] and e = exit_effect [OF ok cur x]
  show "0 < length (k_tasks k')" "length (k_tasks k') < 2 ^ 64" "k_initproc k' = 0" "bt_sorted (k_pid2pcb k')"
    "k_pids k' = \<lparr> ra_current = of_nat (length (k_tasks k')), ra_recycled = [] \<rparr>"
    using pids_okD(1-4) [OF p0] e(14) by (simp_all only: e(2,15,16))
  show "t_pid (task k' u) = of_nat u \<and> t_tid (task k' u) = of_nat u \<and> t_threads (task k' u) = []"
    if "u < length (k_tasks k')" for u
    using pids_okD(6) [OF p0 that [unfolded e(2)]] by (simp add: e(5-7))
  fix p :: usize and u
  have "p = of_nat t \<Longrightarrow> p = of_nat u \<Longrightarrow> u < length (k_tasks k) \<Longrightarrow> u = t"
    using of_nat_inj64 [of u t] pids_okD(2) [OF p0] sched_ok_current(1) [OF kernel_okD(1) [OF ok] cur] by simp
  then show "bt_get p (k_pid2pcb k') = Some u \<longleftrightarrow>
      0 < u \<and> u < length (k_tasks k') \<and> \<not> t_is_zombie (task k' u) \<and> p = of_nat u"
    unfolding e(2,4,13) using pids_okD(7) [OF p0, of p u] by auto
qed

lemma exit_tree_ok:
  assumes ok: "kernel_ok k" and cur: "k_current k = Some t" and x: "exit_current_and_run_next code k = Inr (Some k')"
  shows "tree_ok k'"
proof (rule tree_okI)
  note t0 = kernel_okD(3) [OF ok] and e = exit_effect [OF ok cur x]
  note c = sched_ok_current [OF kernel_okD(1) [OF ok] cur] and n = kernel_okD(4) [OF ok]
  have apart: "v \<notin> set (t_children (task k b))" if "v \<in> set (t_children (task k a))" "a \<noteq> b" "a < length (k_tasks k)" "b < length (k_tasks k)" for a b v
    using tree_okD(3) [OF t0 that(3,1)] tree_okD(3) [OF t0 that(4), of v] that(2) by auto
  show "\<not> t_is_zombie (task k' 0)" using e(1) tree_okD(1) [OF t0] by (simp add: e(4))
  fix u assume "u < length (k_tasks k')"
  then have u: "u < length (k_tasks k)" by (simp add: e(2))
  have "set (t_children (task k 0)) \<inter> set (t_children (task k t)) = {}" using apart [of _ 0 t] e(1) n c(1) by blast
  then show "distinct (t_children (task k' u))"
    using tree_okD(2) [OF t0 u] tree_okD(2) [OF t0 n] tree_okD(2) [OF t0 c(1)] by (simp add: e(8))
  show "u < v \<and> v < length (k_tasks k') \<and> t_parent (task k' v) = Some u" if v: "v \<in> set (t_children (task k' u))" for v
  proof -
    consider "u = 0" "v \<in> set (t_children (task k t))" | "u \<noteq> t" "v \<in> set (t_children (task k u))"
      using v e(1) by (auto simp: e(8) split: if_splits)
    then show ?thesis
    proof cases
      case 1
      then show ?thesis using tree_okD(3) [OF t0 c(1) 1(2)] by (simp add: e(2,10))
    next
      case 2
      then show ?thesis using tree_okD(3) [OF t0 u 2(2)] apart [OF 2(2,1) u c(1)] by (simp add: e(2,10))
    qed
  qed
  show "\<exists>p < length (k_tasks k'). \<not> t_is_zombie (task k' p) \<and> u \<in> set (t_children (task k' p))"
    if z: "0 < u" "\<not> t_is_zombie (task k' u)"
  proof -
    obtain p where p: "p < length (k_tasks k)" "\<not> t_is_zombie (task k p)" "u \<in> set (t_children (task k p))"
      using tree_okD(4) [OF t0 u z(1)] z(2) by (auto simp: e(4))
    show ?thesis
    proof (cases "p = t")
      case True
      then show ?thesis using p(3) n e(1) tree_okD(1) [OF t0] by (intro exI [of _ 0]) (simp add: e(2,4,8))
    next
      case False
      then show ?thesis using p by (intro exI [of _ p]) (auto simp: e(2,4,8))
    qed
  qed
  show "t_exit_code (task k' u) \<noteq> None \<and> t_children (task k' u) = []" if "t_is_zombie (task k' u)"
    using that tree_okD(5) [OF t0 u] tree_okD(1) [OF t0] e(1) by (auto simp: e(4,8,9))
qed

lemma exit_kernel_ok:
  assumes "kernel_ok k" "k_current k = Some t" "exit_current_and_run_next code k = Inr (Some k')"
  shows "kernel_ok k'"
  using exit_sched_ok [OF assms] exit_pids_ok [OF assms] exit_tree_ok [OF assms] by (simp add: kernel_ok_def)


section \<open>Wait\<close>

text \<open>A turn of \<^verbatim>\<open>sys_wait4\<close> either leaves the kernel alone, or suspends the caller, or takes
  the first zombie child that is waited for off the caller's list.\<close>

lemma wait4_turn_cases:
  assumes cur: "k_current k = Some t" and w: "wait4_turn pid ptr option k = Inr (r, k')"
  obtains (same) n where "r = WaitReturn n None" "k' = k"
  | (reap) idx child code where "find_position (\<lambda>p. t_is_zombie (task k p) \<and> waits_for pid k p) (t_children (task k t)) = Some idx"
      "child = t_children (task k t) ! idx" "t_exit_code (task k child) = Some code"
      "r = WaitReturn (t_pid (task k child)) (if ptr \<noteq> 0 then Some code else None)"
      "k' = upd_task t (\<lambda>c. c\<lparr> t_children := remove_nth idx (t_children c) \<rparr>) k"
  | (suspend) "r = WaitSuspended" "suspend_current_and_run_next k = Inr k'"
      "\<forall>p \<in> set (t_children (task k t)). waits_for pid k p \<longrightarrow> \<not> t_is_zombie (task k p)"
      "\<exists>p \<in> set (t_children (task k t)). waits_for pid k p"
proof (cases "\<exists>p \<in> set (t_children (task k t)). waits_for pid k p")
  case False
  then have "(r, k') = (WaitReturn ECHILD None, k)"
    using w unfolding wait4_turn_def current_task_def cur by (simp add: outcome Let_def)
  then show thesis by (intro same [of ECHILD]) simp_all
next
  case True
  then have ex: "(\<forall>p \<in> set (t_children (task k t)). \<not> waits_for pid k p) = False" by blast
  let ?f = "find_position (\<lambda>p. t_is_zombie (task k p) \<and> waits_for pid k p) (t_children (task k t))"
  show thesis
  proof (cases ?f)
    case None
    then have none: "\<forall>p \<in> set (t_children (task k t)). waits_for pid k p \<longrightarrow> \<not> t_is_zombie (task k p)"
      by (auto simp: find_position_None)
    show thesis
    proof (cases "flags_contains option WNOHANG")
      case c: True
      have "(r, k') = (WaitReturn 0 None, k)"
        using w None ex c unfolding wait4_turn_def current_task_def cur by (simp add: outcome Let_def)
      then show thesis by (intro same [of 0]) simp_all
    next
      case c: False
      have "suspend_current_and_run_next k = Inr k' \<and> r = WaitSuspended"
        using w None ex c unfolding wait4_turn_def current_task_def cur by (simp add: outcome Let_def bindR_eq_Inr)
      then show thesis using none True by (intro suspend) simp_all
    qed
  next
    case (Some idx)
    let ?child = "t_children (task k t) ! idx"
    obtain code where c: "t_exit_code (task k ?child) = Some code"
      "(r, k') = (WaitReturn (t_pid (task k ?child)) (if ptr \<noteq> 0 then Some code else None),
         upd_task t (\<lambda>c. c\<lparr> t_children := remove_nth idx (t_children c) \<rparr>) k)"
      using w Some ex unfolding wait4_turn_def current_task_def cur
      by (cases "t_exit_code (task k ?child)") (simp_all add: outcome Let_def)
    then show thesis by (intro reap [OF Some refl, of code]) simp_all
  qed
qed

lemma distinct_remove_nth: "distinct xs \<Longrightarrow> distinct (remove_nth i xs)"
  unfolding remove_nth_def using set_take_disj_set_drop_if_distinct [of xs i "Suc i"] by auto

lemma reap_tree_ok:
  assumes ok: "kernel_ok k" and t: "t < length (k_tasks k)" and i: "i < length (t_children (task k t))"
    "t_is_zombie (task k (t_children (task k t) ! i))"
    and k': "k' = upd_task t (\<lambda>c. c\<lparr> t_children := remove_nth i (t_children c) \<rparr>) k"
  shows "tree_ok k'"
proof (rule tree_okI)
  note t0 = kernel_okD(3) [OF ok]
  have len: "length (k_tasks k') = length (k_tasks k)" by (simp add: k')
  have f: "t_is_zombie (task k' u) = t_is_zombie (task k u)" "t_exit_code (task k' u) = t_exit_code (task k u)"
    "t_parent (task k' u) = t_parent (task k u)"
    "t_children (task k' u) = (if u = t then remove_nth i (t_children (task k t)) else t_children (task k u))" for u
    using t by (simp_all add: k')
  have sub: "set (t_children (task k' u)) \<subseteq> set (t_children (task k u))" for u
    using set_remove_nth_subset [of i "t_children (task k t)"] by (simp add: f(4))
  show "\<not> t_is_zombie (task k' 0)" using tree_okD(1) [OF t0] by (simp add: f)
  fix u assume "u < length (k_tasks k')"
  then have u: "u < length (k_tasks k)" by (simp add: len)
  show "distinct (t_children (task k' u))"
    using tree_okD(2) [OF t0 u] by (auto simp: f(4) distinct_remove_nth)
  show "u < v \<and> v < length (k_tasks k') \<and> t_parent (task k' v) = Some u" if "v \<in> set (t_children (task k' u))" for v
    using tree_okD(3) [OF t0 u subsetD [OF sub that]] by (simp add: len f(3))
  show "\<exists>p < length (k_tasks k'). \<not> t_is_zombie (task k' p) \<and> u \<in> set (t_children (task k' p))"
    if z: "0 < u" "\<not> t_is_zombie (task k' u)"
  proof -
    obtain p where p: "p < length (k_tasks k)" "\<not> t_is_zombie (task k p)" "u \<in> set (t_children (task k p))"
      using tree_okD(4) [OF t0 u z(1)] z(2) by (auto simp: f(1))
    have "u \<noteq> t_children (task k t) ! i" using z(2) i(2) by (auto simp: f(1))
    then have "u \<in> set (t_children (task k' p))"
      using p(3) set_remove_nth [OF tree_okD(2) [OF t0 t] i(1)] by (auto simp: f(4))
    then show ?thesis using p by (auto simp: len f(1))
  qed
  show "t_exit_code (task k' u) \<noteq> None \<and> t_children (task k' u) = []" if "t_is_zombie (task k' u)"
    using tree_okD(5) [OF t0 u that [unfolded f(1)]] sub [of u] by (simp add: f(2))
qed

lemma reap_kernel_ok:
  assumes ok: "kernel_ok k" and t: "t < length (k_tasks k)" and i: "i < length (t_children (task k t))"
    "t_is_zombie (task k (t_children (task k t) ! i))"
    and k': "k' = upd_task t (\<lambda>c. c\<lparr> t_children := remove_nth i (t_children c) \<rparr>) k"
  shows "kernel_ok k'"
proof -
  have "sched_view k' = sched_view k"
    unfolding sched_view_def k' by (simp add: map_tasks_upd sched_fields_def)
  then have "sched_ok k'" using sched_ok_cong kernel_okD(1) [OF ok] by blast
  moreover have "pids_ok k'"
    using kernel_okD(2) [OF ok] t unfolding pids_ok_def k' by (simp cong: conj_cong) 
  ultimately show ?thesis using reap_tree_ok [OF assms] by (simp add: kernel_ok_def)
qed

lemma wait4_kernel_ok:
  assumes ok: "kernel_ok k" and cur: "k_current k = Some t" and w: "wait4_turn pid ptr option k = Inr (r, k')"
  shows "kernel_ok k'"
  using cur w
proof (cases rule: wait4_turn_cases)
  case (reap idx child code)
  then show ?thesis using reap_kernel_ok [OF ok sched_ok_current(1) [OF kernel_okD(1) [OF ok] cur], of idx]
    by (auto simp: find_position_Some)
qed (use ok suspend_kernel_ok [OF ok] in simp_all)

section \<open>Calls that leave both invariants' fields alone\<close>

definition same_view :: "Kernel \<Rightarrow> Kernel \<Rightarrow> bool" where
  "same_view k k' \<longleftrightarrow> sched_view k' = sched_view k \<and> tree_view k' = tree_view k \<and> k_timers k' = k_timers k"

lemma same_view_refl [simp]: "same_view k k"
  by (simp add: same_view_def)

lemma same_view_trans: "\<lbrakk> same_view k k'; same_view k' k'' \<rbrakk> \<Longrightarrow> same_view k k''"
  by (simp add: same_view_def)

lemma same_view_upd:
  assumes "sched_fields (f (task k t)) = sched_fields (task k t)" "tree_fields (f (task k t)) = tree_fields (task k t)"
  shows "same_view k (upd_task t f k)"
  by (simp add: same_view_def sched_view_def tree_view_def map_tasks_upd assms)

lemma same_view_mm [simp]: "same_view k (k'\<lparr> k_mm := s \<rparr>) = same_view k k'"
  by (simp add: same_view_def sched_view_def tree_view_def)

lemma same_view_ok: "\<lbrakk> same_view k k'; kernel_ok k \<rbrakk> \<Longrightarrow> kernel_ok k'"
  by (auto simp: same_view_def intro: kernel_ok_cong)

lemma same_view_fields:
  assumes "same_view k k'"
  shows "length (k_tasks k') = length (k_tasks k)" "k_manager k' = k_manager k" "k_processor k' = k_processor k"
    "u < length (k_tasks k) \<Longrightarrow> t_task_status (task k' u) = t_task_status (task k u)"
proof -
  have m: "map sched_fields (k_tasks k') = map sched_fields (k_tasks k)" and "k_manager k' = k_manager k" "k_processor k' = k_processor k"
    using assms unfolding same_view_def sched_view_def prod.inject by blast+
  then show "length (k_tasks k') = length (k_tasks k)" "k_manager k' = k_manager k" "k_processor k' = k_processor k"
    using map_tasks_cong(1) [OF m] by blast+
  show "u < length (k_tasks k) \<Longrightarrow> t_task_status (task k' u) = t_task_status (task k u)"
    using map_tasks_cong(2) [OF m] unfolding sched_fields_def prod.inject by blast
qed

lemma exec_same_view:
  assumes "exec sy sstatus parse self data argv envp k = Inr k'"
  shows "same_view k k'"
  using assms by (auto simp: exec_def bindR_eq_Inr Let_def sched_fields_def tree_fields_def intro!: same_view_upd)

lemma sys_kill_same_view:
  assumes "sys_kill pid signal k = (r, k')"
  shows "same_view k k'"
  using assms by (auto simp: sys_kill_def sched_fields_def tree_fields_def split: option.splits intro!: same_view_upd)

lemma sys_sigaction_same_view:
  assumes "sys_sigaction signum action old um k = Inr (r, um', k')"
  shows "same_view k k'"
  using assms
  by (auto simp: sys_sigaction_def bindR_eq_Inr Let_def sched_fields_def tree_fields_def
      split: option.splits if_splits intro!: same_view_upd)

lemma sys_sigprocmask_same_view:
  assumes "sys_sigprocmask how st old um k = Inr (r, um', k')"
  shows "same_view k k'"
  using assms
  by (auto simp: sys_sigprocmask_def bindR_eq_Inr Let_def sched_fields_def tree_fields_def
      split: option.splits if_splits intro!: same_view_upd)

lemma sys_set_tid_address_same_view:
  assumes "sys_set_tid_address p k = Inr (r, k')"
  shows "same_view k k'"
  using assms by (auto simp: sys_set_tid_address_def bindR_eq_Inr sched_fields_def tree_fields_def intro!: same_view_upd)

lemma sys_times_same_view:
  assumes "sys_times time k = Inr (x, r, k')"
  shows "same_view k k'"
  using assms
  by (auto simp: sys_times_def bindR_eq_Inr Let_def get_process_clock_time_def user_clock_time_start_def
      get_children_process_clock_time_def sched_fields_def tree_fields_def intro!: same_view_upd)

lemma current_add_signal_same_view:
  assumes "current_add_signal signal k = Inr k'"
  shows "same_view k k'"
  using assms by (auto simp: current_add_signal_def bindR_eq_Inr sched_fields_def tree_fields_def intro!: same_view_upd)

section \<open>Threads\<close>

lemma trap_cx_not_a_page_number:
  assumes "unat tid < 0x3000000"
  shows "VirtPageNum_from_usize (trap_cx_bottom_from_tid tid) = Inl Assert_failed"
proof -
  let ?a = "trap_cx_bottom_from_tid tid"
  have "unat (drop_bit 26 ?a) = unat ?a div 2 ^ 26" by (simp only: unat_drop_bit_eq) (simp only: drop_bit_eq_div)
  then have "0 < unat (drop_bit 26 ?a)" "unat (drop_bit 26 ?a) < 2 ^ 25"
    using trap_cx_bottom_value [OF assms] assms by (simp_all add: div_greater_zero_iff less_mult_imp_div_less)
  then have "drop_bit 26 ?a \<noteq> 0" "drop_bit 26 ?a \<noteq> 0x3ffffff" by auto
  then show ?thesis by (simp add: VirtPageNum_from_usize_def VPN_WIDTH_SV39_def VA_WIDTH_SV39_def config outcome Let_def)
qed

lemma clone2_panics:
  assumes "unat (fst (ra_alloc (k_pids k))) < 0x3000000"
  shows "\<exists>e. clone2 sy self stack_ptr tls k = Inl e"
proof -
  obtain p k1 where p: "pid_alloc k = (p, k1)" "p = fst (ra_alloc (k_pids k))"
    by (cases "pid_alloc k") (auto simp: pid_alloc_def split: prod.splits)
  show ?thesis
    using assms trap_cx_not_a_page_number [of p]
    by (cases "stack_ptr = 0"; cases "kstack_take k1") (auto simp: clone2_def p outcome exclusive_access_def)
qed


text \<open>A successful \<^verbatim>\<open>sys_clone\<close> has forked.\<close>

lemma sys_clone_fork:
  assumes "sys_clone sy flags stack_ptr ptid tls ctid k = Inr (r, pt, ct, k')" "k_current k = Some self"
    "unat (fst (ra_alloc (k_pids k))) < 0x3000000"
  shows "fork sy self k = Inr (r, k') \<and> pt = None \<and> ct = None"
  using assms(1,2) clone2_panics [OF assms(3), of sy self stack_ptr tls]
  by (auto simp: sys_clone_def current_task_def outcome bindR_eq_Inr split: if_splits)


end
