(* ===== verification/Sync.thy ===== *)
theory Sync
  imports Proc_Inv
begin

text \<open>
  Synchronisation: counting semaphores, which block and wake tasks, and spin locks with the guards
  that switch interrupts off (\<^verbatim>\<open>os/src/sync/semaphore.rs\<close>, \<^verbatim>\<open>os/src/sync/mutex\<close>).
\<close>

section \<open>Semaphores\<close>

record Semaphore =
  sem_count :: "64 word"
  sem_wait_queue :: "task_ref list"

definition Semaphore_new :: "usize \<Rightarrow> Semaphore" where
  "Semaphore_new res_count = \<lparr> sem_count = res_count, sem_wait_queue = [] \<rparr>"

definition up :: "Semaphore \<Rightarrow> Kernel \<Rightarrow> Semaphore \<times> Kernel" where
  "up s k =
     (let s1 = s\<lparr> sem_count := sem_count s + 1 \<rparr> in
      if sint (sem_count s1) \<le> 0 then
        case sem_wait_queue s1 of
          t # q \<Rightarrow> (s1\<lparr> sem_wait_queue := q \<rparr>, wakeup_task t k)
        | [] \<Rightarrow> (s1, k)
      else (s1, k))"

definition down :: "Semaphore \<Rightarrow> Kernel \<Rightarrow> (Semaphore \<times> Kernel) res" where
  "down s k =
     (let s1 = s\<lparr> sem_count := sem_count s - 1 \<rparr> in
      if sint (sem_count s1) < 0 then
        bindR (unwrapR (current_task k)) (\<lambda>t.
        bindR (block_current_and_run_next k) (\<lambda>k'.
          Inr (s1\<lparr> sem_wait_queue := sem_wait_queue s1 @ [t] \<rparr>, k')))
      else Inr (s1, k))"

section \<open>Spin locks\<close>

text \<open>Interrupts: the bit \<^verbatim>\<open>sie\<close> of \<^verbatim>\<open>sstatus\<close>.  A guard remembers it.\<close>

definition SieGuard_new :: "bool \<Rightarrow> bool \<times> bool" where
  "SieGuard_new sie = (sie, False)"

definition SieGuard_drop :: "bool \<Rightarrow> bool \<Rightarrow> bool" where
  "SieGuard_drop guard sie = (if guard then True else sie)"

text \<open>The two kinds of support: a plain lock keeps no guard data.\<close>

datatype MutexSupport = Spin | SpinNoIrq

definition before_lock :: "MutexSupport \<Rightarrow> bool \<Rightarrow> bool option \<times> bool" where
  "before_lock S sie =
     (case S of Spin \<Rightarrow> (None, sie)
      | SpinNoIrq \<Rightarrow> let (guard, sie') = SieGuard_new sie in (Some guard, sie'))"

definition after_unlock :: "MutexSupport \<Rightarrow> bool option \<Rightarrow> bool option" where
  "after_unlock S guard = guard"

record 'a SpinMutex =
  sm_lock :: bool
  sm_data :: 'a

definition SpinMutex_new :: "'a \<Rightarrow> 'a SpinMutex" where
  "SpinMutex_new user_data = \<lparr> sm_lock = False, sm_data = user_data \<rparr>"

text \<open>The lock may be changed by others between two reads of it: \<^term>\<open>seen n\<close> is the value its
  \<^term>\<open>n\<close>-th atomic access finds.  \<^verbatim>\<open>wait_unlock\<close> gives up after 0x10000000 reads.\<close>

definition MAX_TRY :: nat where "MAX_TRY = 0x10000000"

function wait_unlock :: "(nat \<Rightarrow> bool) \<Rightarrow> nat \<Rightarrow> nat \<Rightarrow> nat res" where
  "wait_unlock seen try_count n =
     (if seen n then
        if Suc try_count \<ge> MAX_TRY then Inl (Explicit_panic ''Mutex: deadlock detected!'')
        else wait_unlock seen (Suc try_count) (Suc n)
      else Inr (Suc n))"
  by pat_completeness auto
termination by (relation "measure (\<lambda>(_, t, _). MAX_TRY - t)") auto

declare wait_unlock.simps [simp del]

text \<open>\<^verbatim>\<open>lock\<close>: the number of accesses made when the exchange succeeds.\<close>

partial_function (option) lock_loop :: "(nat \<Rightarrow> bool) \<Rightarrow> nat \<Rightarrow> nat res option" where
  "lock_loop seen n =
     (case wait_unlock seen 0 n of
        Inl e \<Rightarrow> Some (Inl e)
      | Inr m \<Rightarrow> if seen m then lock_loop seen (Suc m) else Some (Inr (Suc m)))"

definition lock :: "(nat \<Rightarrow> bool) \<Rightarrow> MutexSupport \<Rightarrow> 'a SpinMutex \<Rightarrow> bool \<Rightarrow> (bool option \<times> 'a SpinMutex \<times> bool) res option" where
  "lock seen S m sie =
     (let (guard, sie') = before_lock S sie in
      bindO (lock_loop seen 0) (\<lambda>_. Some (Inr (guard, m\<lparr> sm_lock := True \<rparr>, sie'))))"

text \<open>Dropping the guard of a lock releases the lock and then drops the guard data.\<close>

definition MutexGuard_drop :: "MutexSupport \<Rightarrow> bool option \<Rightarrow> 'a SpinMutex \<Rightarrow> bool \<Rightarrow> 'a SpinMutex \<times> bool" where
  "MutexGuard_drop S guard m sie =
     (m\<lparr> sm_lock := False \<rparr>,
      (case after_unlock S guard of None \<Rightarrow> sie | Some g \<Rightarrow> SieGuard_drop g sie))"

section \<open>Spin locks on one processor\<close>

lemma wait_unlock_held:
  assumes "\<forall>n. seen n"
  shows "wait_unlock seen c n = Inl (Explicit_panic ''Mutex: deadlock detected!'')"
  using assms
proof (induction seen c n rule: wait_unlock.induct)
  case (1 seen c n)
  then have "seen n" by blast
  show ?case
  proof (cases "MAX_TRY \<le> Suc c")
    case True
    then show ?thesis using \<open>seen n\<close> by (subst wait_unlock.simps) simp
  next
    case False
    have "wait_unlock seen (Suc c) (Suc n) = Inl (Explicit_panic ''Mutex: deadlock detected!'')"
      by (rule "1.IH" [OF \<open>seen n\<close> False "1.prems"])
    then show ?thesis using \<open>seen n\<close> False by (subst wait_unlock.simps) (simp only: if_True if_False)
  qed
qed

lemma wait_unlock_free: "\<not> seen n \<Longrightarrow> wait_unlock seen c n = Inr (Suc n)"
  by (subst wait_unlock.simps) simp

text \<open>\<^verbatim>\<open>wait_unlock\<close> returns in every case: with the first read that finds the lock free, or by the
  panic after its last attempt.\<close>

lemma wait_unlock_first_free:
  assumes "\<forall>j < d. seen (n + j)" "\<not> seen (n + d)" "c + d < MAX_TRY"
  shows "wait_unlock seen c n = Inr (Suc (n + d))"
  using assms
proof (induction d arbitrary: c n)
  case 0
  then show ?case by (simp add: wait_unlock_free)
next
  case (Suc d)
  have "seen n" using Suc.prems(1) [rule_format, of 0] by simp
  moreover have "wait_unlock seen (Suc c) (Suc n) = Inr (Suc (Suc n + d))"
    by (rule Suc.IH) (use Suc.prems in \<open>auto dest: spec [of _ "Suc _"]\<close>)
  ultimately show ?case using Suc.prems(3) by (subst wait_unlock.simps) simp
qed

text \<open>Nothing else runs on the processor while a lock is taken, so each access sees the lock as it was.\<close>

theorem spin_lock_uniprocessor:
  assumes "\<forall>n. seen n = sm_lock m"
  shows "(sm_lock m \<longrightarrow> lock seen S m sie = Some (Inl (Explicit_panic ''Mutex: deadlock detected!''))) \<and>
    (\<not> sm_lock m \<longrightarrow> (\<exists>guard m' sie'. lock seen S m sie = Some (Inr (guard, m', sie')) \<and> sm_lock m' \<and>
       sm_data m' = sm_data m \<and> (S = SpinNoIrq \<longrightarrow> \<not> sie') \<and> MutexGuard_drop S guard m' sie' = (m, sie)))"
proof (cases "sm_lock m")
  case True
  then have "lock_loop seen 0 = Some (Inl (Explicit_panic ''Mutex: deadlock detected!''))"
    using assms wait_unlock_held [of seen 0 0] by (subst lock_loop.simps) simp
  then show ?thesis using True by (simp add: lock_def split_beta)
next
  case False
  then have "lock_loop seen 0 = Some (Inr 2)"
    using assms wait_unlock_free [of seen 0 0] by (subst lock_loop.simps) simp
  then show ?thesis
    using False by (cases S)
      (auto simp: lock_def before_lock_def SieGuard_new_def MutexGuard_drop_def after_unlock_def SieGuard_drop_def)
qed

text \<open>Guards that are dropped in the reverse order keep interrupts off until the last one is gone.\<close>

lemma nested_guards:
  assumes "SieGuard_new sie = (g1, sie1)" "SieGuard_new sie1 = (g2, sie2)"
  shows "\<not> sie2 \<and> \<not> SieGuard_drop g2 sie2 \<and> SieGuard_drop g1 (SieGuard_drop g2 sie2) = sie"
  using assms by (auto simp: SieGuard_new_def SieGuard_drop_def)


end
