(* ===== verification/Trap.thy ===== *)
theory Trap
  imports Sync
begin

text \<open>
  The trap handler (\<^verbatim>\<open>os/src/trap/mod.rs\<close>).  Its control flow is cut where the task may lose the
  processor: the part up to the \<^verbatim>\<open>match\<close> on the cause, the test for fatal signals, and the way back
  to user space.  Each part says whether the handler goes on, whether the processor has been given
  to the scheduler, or whether the machine has been shut down.
\<close>

section \<open>Definitions\<close>

datatype TrapCause =
    UserEnvCall
  | StoreFault | StorePageFault | InstructionFault | InstructionPageFault | LoadFault | LoadPageFault
  | IllegalInstruction | SupervisorTimer | OtherTrap

datatype 'a flow = Continue 'a | Switched Kernel | Shutdown

text \<open>Exit never comes back.\<close>

definition exit_flow :: "32 word \<Rightarrow> Kernel \<Rightarrow> 'a flow res" where
  "exit_flow code k =
     bindR (exit_current_and_run_next code k) (\<lambda>r.
       Inr (case r of None \<Rightarrow> Shutdown | Some k' \<Rightarrow> Switched k'))"

text \<open>The trap context of the current task, through the page table in use.\<close>

definition current_trap_cx :: "Kernel \<Rightarrow> PhysPageNum res" where
  "current_trap_cx k =
     bindR (unwrapR (current_task k)) (\<lambda>t.
       kernel_page (trap_cx_bottom_from_tid (t_pid (task k t)))
         (ms_page_table (t_memory_set (task k t))) (mm_mem (k_mm k)))"

text \<open>A system call: the clock, the program counter, the number and the arguments.\<close>

definition ecall_entry :: "usize \<Rightarrow> Kernel \<Rightarrow> ((usize \<times> usize list) \<times> Kernel) res" where
  "ecall_entry time k =
     bindR (unwrapR (current_task k)) (\<lambda>t.
     let k1 = upd_task t (\<lambda>c. snd (user_clock_time_end time c)) k in
     bindR (current_trap_cx k1) (\<lambda>page.
       let cx = load_trap_cx page (mm_mem (k_mm k1));
           s = k_mm k1;
           s' = s\<lparr> mm_mem := pte_array_write page 33 (cx_sepc cx + 4) (mm_mem s) \<rparr>
       in Inr ((cx_x cx ! 17, map (\<lambda>i. cx_x cx ! i) [10..<16]), k1\<lparr> k_mm := s' \<rparr>)))"

text \<open>\<^verbatim>\<open>syscall\<close> counts the call before it looks at the number.\<close>

definition count_syscall :: "usize \<Rightarrow> Kernel \<Rightarrow> Kernel res" where
  "count_syscall syscall_id k =
     bindR (unwrapR (current_task k)) (\<lambda>t.
     bindR (nthR (t_syscall_times (task k t)) (unat syscall_id)) (\<lambda>n.
       Inr (upd_task t (\<lambda>c. c\<lparr> t_syscall_times := (t_syscall_times c)[unat syscall_id := n + 1] \<rparr>) k)))"

text \<open>The \<^verbatim>\<open>match\<close> on the cause; \<^term>\<open>call\<close> is the dispatch of system calls.\<close>

definition trap_cause ::
  "(usize \<Rightarrow> usize list \<Rightarrow> Kernel \<Rightarrow> (usize \<times> Kernel) flow res) \<Rightarrow> usize \<Rightarrow> TrapCause \<Rightarrow> Kernel \<Rightarrow>
     ((usize \<times> usize) option \<times> Kernel) flow res" where
  "trap_cause call time cause k =
     (case cause of
        UserEnvCall \<Rightarrow>
          bindR (ecall_entry time k) (\<lambda>((num, args), k1).
          bindR (count_syscall num k1) (\<lambda>k2.
          bindR (call num args k2) (\<lambda>r.
            Inr (case r of
                   Continue (result, k') \<Rightarrow> Continue (Some (num, result), k')
                 | Switched k' \<Rightarrow> Switched k'
                 | Shutdown \<Rightarrow> Shutdown))))
      | IllegalInstruction \<Rightarrow> exit_flow (- 1) k
      | SupervisorTimer \<Rightarrow>
          bindR (suspend_current_and_run_next (check_timer time k)) (\<lambda>k'. Inr (Switched k'))
      | OtherTrap \<Rightarrow> Inl (Explicit_panic ''[kernel] trap_handler: unsupport trap'')
      | _ \<Rightarrow> bindR (current_add_signal SIGSEGV k) (\<lambda>k'. Inr (Continue (None, k'))))"

definition trap_signals :: "Kernel \<Rightarrow> Kernel flow res" where
  "trap_signals k =
     bindR (check_signals_of_current k) (\<lambda>r.
       case r of Some (errno, _) \<Rightarrow> exit_flow errno k | None \<Rightarrow> Inr (Continue k))"

text \<open>The way back.  A task that was switched to another page table in between goes through the
  entry that loads its own table, and \<^verbatim>\<open>execve\<close> always does.\<close>

datatype return_path = Initproc_entry | User_entry | Trap_return

definition SYSCALL_EXECVE :: usize where "SYSCALL_EXECVE = 221"

definition entry_of_pid :: "usize \<Rightarrow> return_path" where
  "entry_of_pid pid = (if pid = 0 then Initproc_entry else User_entry)"

definition store_result :: "usize \<Rightarrow> Kernel \<Rightarrow> Kernel res" where
  "store_result result k =
     bindR (current_trap_cx k) (\<lambda>page.
       Inr (k\<lparr> k_mm := (k_mm k)\<lparr> mm_mem := pte_array_write page 10 result (mm_mem (k_mm k)) \<rparr> \<rparr>))"

definition trap_leave ::
  "(usize \<times> usize) option \<Rightarrow> usize \<Rightarrow> usize \<Rightarrow> Kernel \<Rightarrow> (return_path \<times> Kernel) res" where
  "trap_leave call call_satp leave_satp k =
     bindR (unwrapR (current_task k)) (\<lambda>t.
     let entry = entry_of_pid (t_pid (task k t)) in
     case call of
       Some (num, result) \<Rightarrow>
         if (ucast num :: 32 word) = ucast SYSCALL_EXECVE then
           bindR (store_result result k) (\<lambda>k'. Inr (entry, k'))
         else if call_satp \<noteq> leave_satp then Inr (entry, k)
         else bindR (store_result result k) (\<lambda>k'. Inr (Trap_return, k'))
     | None \<Rightarrow> Inr (if call_satp \<noteq> leave_satp then entry else Trap_return, k))"

text \<open>\<^verbatim>\<open>trap_return\<close>: the clock, and the two values handed to the assembly.\<close>

definition trap_return :: "usize \<Rightarrow> Kernel \<Rightarrow> ((VirtAddr \<times> usize) \<times> Kernel) res" where
  "trap_return time k =
     bindR (unwrapR (current_task k)) (\<lambda>t.
     let k1 = upd_task t (\<lambda>c. snd (user_clock_time_start time c)) k in
     bindR (current_trap_cx_user_va k1) (\<lambda>va.
     bindR (current_user_token k1) (\<lambda>token. Inr ((va, token), k1))))"

definition initproc_entry :: "Kernel \<Rightarrow> (VirtAddr \<times> usize) res" where
  "initproc_entry k =
     bindR (current_trap_cx_user_va k) (\<lambda>va.
       Inr (va, MemorySet_token (t_memory_set (task k (k_initproc k)))))"

definition user_entry :: "Kernel \<Rightarrow> (VirtAddr \<times> usize) res" where
  "user_entry k =
     bindR (current_trap_cx_user_va k) (\<lambda>va.
     bindR (current_user_token k) (\<lambda>token. Inr (va, token)))"

end
