(* ===== verification/System.thy ===== *)
theory System
  imports Trap "HOL-Library.Multiset"
begin

text \<open>
  The kernel as a transition system.  The rules of \<^verbatim>\<open>kstep\<close> are the modelled entries into the
  kernel; \<^verbatim>\<open>sstep\<close> adds the semaphores, the only callers of blocking and waking.  The invariants
  hold in every state that is reached from the first process.
\<close>

section \<open>Steps of the kernel\<close>

inductive kstep :: "Kernel \<Rightarrow> Kernel \<Rightarrow> bool" where
  ks_run: "\<lbrakk> k_current k = None; run_tasks_turn time k = (True, k') \<rbrakk> \<Longrightarrow> kstep k k'"
| ks_yield: "sys_yield k = Inr (r, k') \<Longrightarrow> kstep k k'"
| ks_timer: "trap_cause call time SupervisorTimer k = Inr (Switched k') \<Longrightarrow> kstep k k'"
| ks_fault: "\<lbrakk> cause \<notin> {UserEnvCall, SupervisorTimer}; trap_cause call time cause k = Inr (Continue (r, k')) \<rbrakk> \<Longrightarrow> kstep k k'"
| ks_illegal: "\<lbrakk> cause \<notin> {UserEnvCall, SupervisorTimer}; trap_cause call time cause k = Inr (Switched k') \<rbrakk> \<Longrightarrow> kstep k k'"
| ks_signals: "trap_signals k = Inr (Switched k') \<Longrightarrow> kstep k k'"
| ks_ecall: "ecall_entry time k = Inr (x, k') \<Longrightarrow> kstep k k'"
| ks_count: "count_syscall num k = Inr k' \<Longrightarrow> kstep k k'"
| ks_leave: "trap_leave c call_satp leave_satp k = Inr (path, k') \<Longrightarrow> kstep k k'"
| ks_return: "trap_return time k = Inr (x, k') \<Longrightarrow> kstep k k'"
| ks_clone: "\<lbrakk> sys_clone sy flags stack_ptr ptid tls ctid k = Inr (r, pt, ct, k'); length (k_tasks k) < 0x3000000 \<rbrakk>
    \<Longrightarrow> kstep k k'"
| ks_exec: "\<lbrakk> k_current k = Some self; exec sy sstatus parse self elf_data argv envp k = Inr k' \<rbrakk> \<Longrightarrow> kstep k k'"
| ks_exit: "sys_exit code k = Inr (Some k') \<Longrightarrow> kstep k k'"
| ks_wait: "wait4_turn pid ptr option k = Inr (w, k') \<Longrightarrow> kstep k k'"
| ks_kill: "sys_kill pid signal k = (r, k') \<Longrightarrow> kstep k k'"
| ks_sigaction: "sys_sigaction signum action old um k = Inr (r, um', k') \<Longrightarrow> kstep k k'"
| ks_sigprocmask: "sys_sigprocmask how st old um k = Inr (r, um', k') \<Longrightarrow> kstep k k'"
| ks_tid: "sys_set_tid_address p k = Inr (r, k') \<Longrightarrow> kstep k k'"
| ks_times: "sys_times time k = Inr (x, r, k') \<Longrightarrow> kstep k k'"

text \<open>What a step may do to tasks that wait: nothing.\<close>

definition calm :: "Kernel \<Rightarrow> Kernel \<Rightarrow> bool" where
  "calm k k' \<longleftrightarrow> k_timers k' = k_timers k \<and> length (k_tasks k) \<le> length (k_tasks k') \<and>
     (\<forall>u < length (k_tasks k). t_task_status (task k u) = Blocked \<longrightarrow> t_task_status (task k' u) = Blocked)"

definition good :: "Kernel \<Rightarrow> Kernel \<Rightarrow> bool" where
  "good k k' \<longleftrightarrow> kernel_ok k' \<and> calm k k'"

lemma goodI: "\<lbrakk> kernel_ok k'; calm k k' \<rbrakk> \<Longrightarrow> good k k'"
  by (simp add: good_def)

lemma same_view_good: "\<lbrakk> kernel_ok k; same_view k k' \<rbrakk> \<Longrightarrow> good k k'"
  using same_view_ok [of k k'] same_view_fields [of k k']
  by (auto simp: good_def calm_def same_view_def)

lemma suspend_good:
  assumes ok: "kernel_ok k" and s: "suspend_current_and_run_next k = Inr k'"
  shows "good k k'"
proof (rule goodI)
  show "kernel_ok k'" by (rule suspend_kernel_ok [OF ok s])
  obtain t where t: "k_current k = Some t" and k': "k' = add_task t (upd_task t (\<lambda>c. c\<lparr> t_task_status := Ready \<rparr>)
      (k\<lparr> k_processor := (k_processor k)\<lparr> p_current := None \<rparr> \<rparr>))"
    using suspend_eq [OF s] by blast
  show "calm k k'"
    using sched_ok_current [OF kernel_okD(1) [OF ok] t] by (auto simp: calm_def k' upd_task_def nth_list_update)
qed

lemma run_turn_good:
  assumes ok: "kernel_ok k" and idle: "k_current k = None" and s: "run_tasks_turn time k = (True, k')"
  shows "good k k'"
proof (rule goodI)
  show "kernel_ok k'" by (rule run_turn_kernel_ok [OF ok idle s])
  obtain t q where q: "k_ready k = t # q" using s by (cases "k_ready k") (auto simp: run_tasks_turn_def fetch_task_def tm_fetch_def)
  then have "t_task_status (task k t) = Ready" "t < length (k_tasks k)" using sched_okD(2) [OF kernel_okD(1) [OF ok], of t] by simp_all
  then show "calm k k'"
    using s q by (auto simp: calm_def run_tasks_turn_def fetch_task_def tm_fetch_def upd_task_def Let_def nth_list_update)
qed

lemma fork_good:
  assumes ok: "kernel_ok k" and cur: "k_current k = Some self" and f: "fork sy self k = Inr (pid, k')"
    and room: "Suc (length (k_tasks k)) < 2 ^ 64"
  shows "good k k'"
proof (rule goodI)
  show "kernel_ok k'" by (rule fork_kernel_ok [OF ok cur f room])
  note e = fork_effect [OF ok cur f]
  have "k_timers k' = k_timers k"
    using f by (auto simp: fork_def bindR_eq_Inr Let_def pid_alloc_def insert_into_pid2process_def
        dest!: kstack_take_fields(7) split: prod.splits)
  then show "calm k k'" using e(1,3) by (simp add: calm_def sched_fields_def)
qed

lemma exit_good:
  assumes ok: "kernel_ok k" and x: "exit_current_and_run_next code k = Inr (Some k')"
  shows "good k k'"
proof (rule goodI)
  obtain t where cur: "k_current k = Some t"
    using x by (cases "k_current k") (auto simp: exit_current_and_run_next_def take_current_task_def outcome)
  show "kernel_ok k'" by (rule exit_kernel_ok [OF ok cur x])
  note e = exit_effect [OF ok cur x]
  show "calm k k'" using e(2,3,17) by (simp add: calm_def)
qed


lemma wait_good:
  assumes ok: "kernel_ok k" and w: "wait4_turn pid ptr option k = Inr (r, k')"
  shows "good k k'"
proof -
  obtain t where cur: "k_current k = Some t"
    using w by (cases "k_current k") (auto simp: wait4_turn_def current_task_def outcome)
  from cur w show ?thesis
  proof (cases rule: wait4_turn_cases)
    case same
    then show ?thesis using same_view_good [OF ok] by simp
  next
    case (reap idx child code)
    show ?thesis
      by (rule goodI [OF wait4_kernel_ok [OF ok cur w]])
        (use sched_ok_current(1) [OF kernel_okD(1) [OF ok] cur] reap(5) in \<open>simp add: calm_def\<close>)
  next
    case suspend
    then show ?thesis using suspend_good [OF ok] by simp
  qed
qed

lemma clone_good:
  assumes ok: "kernel_ok k" and c: "sys_clone sy flags stack_ptr ptid tls ctid k = Inr (r, pt, ct, k')"
    and room: "length (k_tasks k) < 0x3000000"
  shows "good k k'"
proof -
  obtain t where cur: "k_current k = Some t"
    using c by (cases "k_current k") (auto simp: sys_clone_def current_task_def outcome)
  have "fst (ra_alloc (k_pids k)) = of_nat (length (k_tasks k))"
    using pids_okD(4) [OF kernel_okD(2) [OF ok]] by (simp add: ra_alloc_def)
  then have "unat (fst (ra_alloc (k_pids k))) < 0x3000000"
    using room unat_of_nat64 [of "length (k_tasks k)"] by simp
  then have "fork sy t k = Inr (r, k')" using sys_clone_fork [OF c cur] by blast
  then show ?thesis using fork_good [OF ok cur] room by simp
qed

lemma check_timer_idle: "k_timers k = [] \<Longrightarrow> check_timer time k = k"
  by (simp add: check_timer_def)

lemma exit_flow_eq:
  "exit_flow code k = Inr (Switched k') \<longleftrightarrow> exit_current_and_run_next code k = Inr (Some k')"
  "exit_flow code k \<noteq> Inr (Continue x)"
  by (auto simp: exit_flow_def bindR_eq_Inr split: option.splits)

lemma store_result_same_view: "store_result r k = Inr k' \<Longrightarrow> same_view k k'"
  by (auto simp: store_result_def bindR_eq_Inr)

lemma trap_leave_same_view:
  assumes "trap_leave c call_satp leave_satp k = Inr (path, k')"
  shows "same_view k k'"
proof (cases c)
  case None
  then show ?thesis using assms by (auto simp: trap_leave_def bindR_eq_Inr)
next
  case (Some x)
  obtain num result where x: "x = (num, result)" by (cases x)
  show ?thesis
    using assms store_result_same_view [of result k k']
    by (auto simp: trap_leave_def Some x bindR_eq_Inr Let_def split: if_splits)
qed

lemma kstep_good:
  assumes "kstep k k'" "kernel_ok k" "k_timers k = []"
  shows "good k k'"
  using assms
proof (induction rule: kstep.induct)
  case (ks_run k time k')
  then show ?case using run_turn_good by blast
next
  case (ks_yield k r k')
  then show ?case using suspend_good by (auto simp: sys_yield_def bindR_eq_Inr)
next
  case (ks_timer call time k k')
  then show ?case using suspend_good by (auto simp: trap_cause_def bindR_eq_Inr check_timer_idle)
next
  case (ks_fault cause call time k r k')
  then show ?case
    using same_view_good current_add_signal_same_view
    by (cases cause) (auto simp: trap_cause_def bindR_eq_Inr exit_flow_eq)
next
  case (ks_illegal cause call time k k')
  then show ?case using exit_good by (cases cause) (auto simp: trap_cause_def bindR_eq_Inr exit_flow_eq)
next
  case (ks_signals k k')
  then show ?case using exit_good by (auto simp: trap_signals_def bindR_eq_Inr exit_flow_eq split: option.splits)
next
  case (ks_ecall time k x k')
  then show ?case
    by (intro same_view_good)
      (auto simp: ecall_entry_def bindR_eq_Inr Let_def user_clock_time_end_def sched_fields_def tree_fields_def intro!: same_view_upd)
next
  case (ks_count num k k')
  then show ?case
    by (intro same_view_good)
      (auto simp: count_syscall_def bindR_eq_Inr sched_fields_def tree_fields_def intro!: same_view_upd)
next
  case ks_leave
  then show ?case using same_view_good trap_leave_same_view by blast
next
  case (ks_return time k x k')
  then show ?case
    by (intro same_view_good)
      (auto simp: trap_return_def bindR_eq_Inr Let_def user_clock_time_start_def sched_fields_def tree_fields_def intro!: same_view_upd)
next
  case ks_clone
  then show ?case using clone_good by blast
next
  case ks_exec
  then show ?case using same_view_good exec_same_view by blast
next
  case ks_exit
  then show ?case using exit_good by (simp add: sys_exit_def)
next
  case ks_wait
  then show ?case using wait_good by blast
next
  case ks_kill
  then show ?case using same_view_good sys_kill_same_view by blast
next
  case ks_sigaction
  then show ?case using same_view_good sys_sigaction_same_view by blast
next
  case ks_sigprocmask
  then show ?case using same_view_good sys_sigprocmask_same_view by blast
next
  case ks_tid
  then show ?case using same_view_good sys_set_tid_address_same_view by blast
next
  case ks_times
  then show ?case using same_view_good sys_times_same_view by blast
qed


section \<open>Semaphores\<close>

text \<open>The kernel together with its semaphores.  \<^term>\<open>Up i\<close> and \<^term>\<open>Down i\<close> record the operations on the
  \<^term>\<open>i\<close>-th semaphore.\<close>

datatype event = Kernel_step | Up nat | Down nat

inductive sstep :: "Kernel \<times> Semaphore list \<Rightarrow> event \<Rightarrow> Kernel \<times> Semaphore list \<Rightarrow> bool" where
  ss_kernel: "kstep k k' \<Longrightarrow> sstep (k, ss) Kernel_step (k', ss)"
| ss_up: "\<lbrakk> i < length ss; up (ss ! i) k = (s, k') \<rbrakk> \<Longrightarrow> sstep (k, ss) (Up i) (k', ss[i := s])"
| ss_down: "\<lbrakk> i < length ss; k_current k = Some t; down (ss ! i) k = Inr (s, k') \<rbrakk> \<Longrightarrow> sstep (k, ss) (Down i) (k', ss[i := s])"

inductive run :: "Kernel \<times> Semaphore list \<Rightarrow> event list \<Rightarrow> Kernel \<times> Semaphore list \<Rightarrow> bool" where
  run_nil: "run x [] x"
| run_snoc: "\<lbrakk> run x es y; sstep y e z \<rbrakk> \<Longrightarrow> run x (es @ [e]) z"

inductive_cases run_nilE: "run x [] y"
inductive_cases run_snocE: "run x (es @ [e]) z"

text \<open>All the tasks that wait for a semaphore are blocked, each for one semaphore only.\<close>

definition queue_ok :: "Kernel \<Rightarrow> Semaphore list \<Rightarrow> bool" where
  "queue_ok k ss \<longleftrightarrow> distinct (concat (map sem_wait_queue ss)) \<and>
     (\<forall>t \<in> set (concat (map sem_wait_queue ss)). t < length (k_tasks k) \<and> t_task_status (task k t) = Blocked)"

definition sys_ok :: "Kernel \<times> Semaphore list \<Rightarrow> bool" where
  "sys_ok = (\<lambda>(k, ss). kernel_ok k \<and> k_timers k = [] \<and> queue_ok k ss)"

lemma queue_ok_calm: "\<lbrakk> queue_ok k ss; calm k k' \<rbrakk> \<Longrightarrow> queue_ok k' ss"
  by (fastforce simp: queue_ok_def calm_def)

lemma concat_update:
  "i < length xss \<Longrightarrow> mset (concat (xss[i := ys])) + mset (xss ! i) = mset (concat xss) + mset ys"
proof (induction xss arbitrary: i)
  case (Cons x xss)
  then show ?case by (cases i) (simp_all add: ac_simps)
qed simp

abbreviation waiting :: "Semaphore list \<Rightarrow> task_ref list" where
  "waiting ss \<equiv> concat (map sem_wait_queue ss)"

lemma waiting_update:
  assumes "i < length ss"
  shows "mset (waiting (ss[i := s])) + mset (sem_wait_queue (ss ! i)) = mset (waiting ss) + mset (sem_wait_queue s)"
  using concat_update [of i "map sem_wait_queue ss" "sem_wait_queue s"] assms by (simp add: map_update)

lemma waiting_same: "\<lbrakk> i < length ss; sem_wait_queue s = sem_wait_queue (ss ! i) \<rbrakk> \<Longrightarrow> waiting (ss[i := s]) = waiting ss"
  using list_update_id [of "map sem_wait_queue ss" i] by (simp add: map_update)

lemma waiting_pop:
  assumes "i < length ss" "sem_wait_queue (ss ! i) = t # sem_wait_queue s"
  shows "mset (waiting ss) = mset (t # waiting (ss[i := s]))"
  using waiting_update [OF assms(1), of s] assms(2) by simp

lemma waiting_push:
  assumes "i < length ss" "sem_wait_queue s = sem_wait_queue (ss ! i) @ [t]"
  shows "mset (waiting (ss[i := s])) = mset (t # waiting ss)"
  using waiting_update [OF assms(1), of s] assms(2) by simp

lemma mset_distinct_set: "mset xs = mset ys \<Longrightarrow> distinct xs = distinct ys \<and> set xs = set ys"
  using mset_eq_imp_distinct_iff mset_eq_setD by blast

lemma up_sys_ok:
  assumes ok: "sys_ok (k, ss)" and i: "i < length ss" and u: "up (ss ! i) k = (s, k')"
  shows "sys_ok (k', ss[i := s])"
proof -
  have k: "kernel_ok k" "k_timers k = []" "queue_ok k ss" using ok by (simp_all add: sys_ok_def)
  consider (stay) "k' = k" "sem_wait_queue s = sem_wait_queue (ss ! i)"
    | (pop) t where "sem_wait_queue (ss ! i) = t # sem_wait_queue s" "k' = wakeup_task t k"
    using u by (auto simp: up_def Let_def split: if_splits list.splits)
  then show ?thesis
  proof cases
    case stay
    then show ?thesis using k waiting_same [OF i stay(2)] by (simp add: sys_ok_def queue_ok_def del: set_concat)
  next
    case pop
    note eq = mset_distinct_set [OF waiting_pop [OF i pop(1)]]
    have t: "t < length (k_tasks k)" "t_task_status (task k t) = Blocked" "t \<notin> set (waiting (ss[i := s]))"
      "distinct (waiting (ss[i := s]))"
      using k(3) eq by (auto simp: queue_ok_def simp del: set_concat)
    have "queue_ok k' (ss[i := s])"
      using k(3) eq t by (auto simp: queue_ok_def pop(2) wakeup_task_def simp del: set_concat)
    then show ?thesis
      using wakeup_kernel_ok [OF k(1) t(1,2)] k(2) by (simp add: sys_ok_def pop(2)) (simp add: wakeup_task_def)
  qed
qed

lemma down_sys_ok:
  assumes ok: "sys_ok (k, ss)" and i: "i < length ss" and cur: "k_current k = Some t" and d: "down (ss ! i) k = Inr (s, k')"
  shows "sys_ok (k', ss[i := s])"
proof -
  have k: "kernel_ok k" "k_timers k = []" "queue_ok k ss" using ok by (simp_all add: sys_ok_def)
  note c = sched_ok_current [OF kernel_okD(1) [OF k(1)] cur]
  consider (stay) "k' = k" "sem_wait_queue s = sem_wait_queue (ss ! i)"
    | (push) "sem_wait_queue s = sem_wait_queue (ss ! i) @ [t]" "block_current_and_run_next k = Inr k'"
    using d cur by (auto simp: down_def Let_def current_task_def outcome bindR_eq_Inr split: if_splits)
  then show ?thesis
  proof cases
    case stay
    then show ?thesis using k waiting_same [OF i stay(2)] by (simp add: sys_ok_def queue_ok_def del: set_concat)
  next
    case push
    note eq = mset_distinct_set [OF waiting_push [OF i push(1)]]
    have k': "k' = add_block_task t (upd_task t (\<lambda>c. c\<lparr> t_task_status := Blocked \<rparr>)
        (k\<lparr> k_processor := (k_processor k)\<lparr> p_current := None \<rparr> \<rparr>))"
      using block_eq [OF push(2)] cur by auto
    have "t \<notin> set (waiting ss)" using k(3) c(2) by (auto simp: queue_ok_def simp del: set_concat)
    then have "queue_ok k' (ss[i := s])"
      using k(3) eq c(1) by (auto simp: queue_ok_def k' simp del: set_concat)
    then show ?thesis
      using block_kernel_ok [OF k(1) push(2)] k(2) by (simp add: sys_ok_def) (simp add: k')
  qed
qed

lemma sstep_sys_ok: "\<lbrakk> sstep x e y; sys_ok x \<rbrakk> \<Longrightarrow> sys_ok y"
proof (induction rule: sstep.induct)
  case (ss_kernel k k' ss)
  then have "good k k'" using kstep_good by (auto simp: sys_ok_def)
  then show ?case using ss_kernel queue_ok_calm by (auto simp: sys_ok_def good_def calm_def)
next
  case ss_up
  then show ?case using up_sys_ok by blast
next
  case ss_down
  then show ?case using down_sys_ok by blast
qed

lemma run_sys_ok: "\<lbrakk> run x es y; sys_ok x \<rbrakk> \<Longrightarrow> sys_ok y"
  by (induction rule: run.induct) (auto intro: sstep_sys_ok)

section \<open>The first process\<close>

text \<open>The kernel that \<^verbatim>\<open>init_task\<close> leaves behind.\<close>

definition boot_state :: "Kernel \<Rightarrow> bool" where
  "boot_state k \<longleftrightarrow>
     length (k_tasks k) = 1 \<and> sched_fields (task k 0) = (Ready, False) \<and>
     tree_fields (task k 0) = (False, 0, 0, [], None, [], None) \<and>
     k_manager k = tm_add 0 TaskManager_new \<and> k_pid2pcb k = [] \<and> k_processor k = Processor_new \<and>
     k_timers k = [] \<and> k_pids k = \<lparr> ra_current = 1, ra_recycled = [] \<rparr> \<and> k_initproc k = 0"

lemma init_task_boot:
  assumes "init_task sy sstatus root parse elf_data k0 = Inr (t, k)"
    "k_tasks k0 = []" "k_manager k0 = TaskManager_new" "k_pid2pcb k0 = []" "k_processor k0 = Processor_new"
    "k_timers k0 = []" "k_pids k0 = RecycleAllocator_new" "k_initproc k0 = 0"
  shows "t = 0 \<and> boot_state k"
proof -
  obtain kstack k1 where ks: "kstack_take k0 = Inr (kstack, k1)"
    using assms(1) by (auto simp: init_task_def bindR_eq_Inr)
  note f = kstack_take_fields [OF ks]
  show ?thesis
    using assms(1) ks
    by (auto simp: init_task_def bindR_eq_Inr Let_def pid_alloc_def ra_alloc_def RecycleAllocator_new_def f assms(2-8)
        boot_state_def sched_fields_def tree_fields_def)
qed

lemma boot_sys_ok:
  assumes "boot_state k"
  shows "sys_ok (k, map Semaphore_new ns)"
proof -
  note b = assms [unfolded boot_state_def sched_fields_def tree_fields_def prod.inject]
  have "sched_ok k" by (rule sched_okI) (use b in \<open>auto simp: TaskManager_new_def Processor_new_def\<close>)
  moreover have "pids_ok k" by (rule pids_okI) (use b in \<open>auto simp: bt_sorted_def\<close>)
  moreover have "tree_ok k" by (rule tree_okI) (use b in \<open>auto\<close>)
  moreover have "queue_ok k (map Semaphore_new ns)"
    by (induction ns) (simp_all add: queue_ok_def Semaphore_new_def)
  ultimately show ?thesis using b by (simp add: sys_ok_def kernel_ok_def)
qed

lemmas boot_run_ok = run_sys_ok [OF _ boot_sys_ok]


section \<open>What holds in every reachable state\<close>

text \<open>C1. The process tree.  In every state reached from the first process by kernel entries and semaphore
  operations, in any order: the process numbers of all control blocks differ; the table of
  processes holds exactly the live processes but the first, each under its own number; every live
  process but the first is the child of exactly one control block, its parent, which is alive; and a
  process that has exited has an exit code and no children left.\<close>

theorem process_tree_invariant:
  assumes "boot_state k0" "run (k0, map Semaphore_new ns) es (k, ss)"
  shows "inj_on (\<lambda>t. t_pid (task k t)) {..< length (k_tasks k)} \<and>
    (\<forall>p t. pid2process p k = Some t \<longleftrightarrow>
       0 < t \<and> t < length (k_tasks k) \<and> \<not> t_is_zombie (task k t) \<and> t_pid (task k t) = p) \<and>
    (\<forall>c < length (k_tasks k). 0 < c \<longrightarrow> \<not> t_is_zombie (task k c) \<longrightarrow>
       (\<exists>p < length (k_tasks k). \<not> t_is_zombie (task k p) \<and> t_parent (task k c) = Some p \<and>
          (\<forall>q < length (k_tasks k). c \<in> set (t_children (task k q)) \<longleftrightarrow> q = p))) \<and>
    (\<forall>c < length (k_tasks k). t_is_zombie (task k c) \<longrightarrow>
       t_exit_code (task k c) \<noteq> None \<and> t_children (task k c) = [])"
proof (intro conjI allI impI)
  have ok: "kernel_ok k" using boot_run_ok [OF assms(2,1)] by (simp add: sys_ok_def)
  note p0 = kernel_okD(2) [OF ok] and t0 = kernel_okD(3) [OF ok]
  show "inj_on (\<lambda>t. t_pid (task k t)) {..< length (k_tasks k)}"
  proof (rule inj_onI)
    fix a b assume "a \<in> {..< length (k_tasks k)}" "b \<in> {..< length (k_tasks k)}" "t_pid (task k a) = t_pid (task k b)"
    then show "a = b" using pids_okD(6) [OF p0, of a] pids_okD(6) [OF p0, of b] pids_okD(2) [OF p0] of_nat_inj64 [of a b] by simp
  qed
  show "pid2process p k = Some t \<longleftrightarrow>
       0 < t \<and> t < length (k_tasks k) \<and> \<not> t_is_zombie (task k t) \<and> t_pid (task k t) = p" for p t
    using pids_okD(6) [OF p0, of t] pids_okD(7) [OF p0, of p t] by (auto simp: pid2process_def)
  fix c assume c: "c < length (k_tasks k)"
  show "\<exists>p < length (k_tasks k). \<not> t_is_zombie (task k p) \<and> t_parent (task k c) = Some p \<and>
      (\<forall>q < length (k_tasks k). c \<in> set (t_children (task k q)) \<longleftrightarrow> q = p)" if z: "0 < c" "\<not> t_is_zombie (task k c)"
  proof -
    obtain p where p: "p < length (k_tasks k)" "\<not> t_is_zombie (task k p)" "c \<in> set (t_children (task k p))"
      using tree_okD(4) [OF t0 c z] by blast
    then have par: "t_parent (task k c) = Some p" using tree_okD(3) [OF t0] by blast
    have "q = p" if "q < length (k_tasks k)" "c \<in> set (t_children (task k q))" for q
      using tree_okD(3) [OF t0 that] par by simp
    then show ?thesis using p par by blast
  qed
  show "t_exit_code (task k c) \<noteq> None" "t_children (task k c) = []" if "t_is_zombie (task k c)"
    using tree_okD(5) [OF t0 c that] by blast+
qed

text \<open>C8. The scheduler.  In every reachable state the ready queue holds each ready task once and nothing
  else; the task on the processor is running and not queued; no exited task is queued or runs; and
  the tasks that wait for semaphores wait once, are blocked and are listed in the block queue, so that
  none of them can be picked.\<close>

theorem scheduler_invariant:
  assumes "boot_state k0" "run (k0, map Semaphore_new ns) es (k, ss)"
  shows "distinct (k_ready k) \<and> set (k_ready k) = {t. t < length (k_tasks k) \<and> t_task_status (task k t) = Ready} \<and>
    (\<forall>t. k_current k = Some t \<longrightarrow>
       t_task_status (task k t) = Running \<and> \<not> t_is_zombie (task k t) \<and> t \<notin> set (k_ready k)) \<and>
    (\<forall>t \<in> set (k_ready k). \<not> t_is_zombie (task k t)) \<and> distinct (waiting ss) \<and>
    (\<forall>t \<in> set (waiting ss). t_task_status (task k t) = Blocked \<and> t \<in> set (block_queue (k_manager k)) \<and>
       t \<notin> set (k_ready k) \<and> k_current k \<noteq> Some t)"
proof -
  have ok: "sched_ok k" "queue_ok k ss" using boot_run_ok [OF assms(2,1)] by (simp_all add: sys_ok_def kernel_ok_def)
  have q: "t < length (k_tasks k)" "t_task_status (task k t) = Blocked" if "t \<in> set (waiting ss)" for t
    using ok(2) that by (simp_all add: queue_ok_def del: set_concat)
  have "distinct (waiting ss)" using ok(2) by (simp add: queue_ok_def)
  moreover have "t_task_status (task k t) = Blocked \<and> t \<in> set (block_queue (k_manager k)) \<and>
      t \<notin> set (k_ready k) \<and> k_current k \<noteq> Some t" if "t \<in> set (waiting ss)" for t
    using q [OF that] sched_okD(2,4) [OF ok(1), of t] sched_ok_current(2) [OF ok(1), of t] by auto
  moreover have "\<not> t_is_zombie (task k t)" if "t \<in> set (k_ready k)" for t
    using that sched_okD(2,5) [OF ok(1), of t] by auto
  ultimately show ?thesis
    using sched_okD(1,2) [OF ok(1)] sched_ok_current [OF ok(1)] by (auto simp del: set_concat)
qed


section \<open>Semaphore counts\<close>

lemma sint_inc: "\<lbrakk> - (2 ^ 63) \<le> sint c + 1; sint c + 1 < 2 ^ 63 \<rbrakk> \<Longrightarrow> sint (c + 1 :: 64 word) = sint c + 1"
  by (simp add: sint_word_ariths signed_take_bit_int_eq_self)

lemma sint_dec: "\<lbrakk> - (2 ^ 63) \<le> sint c - 1; sint c - 1 < 2 ^ 63 \<rbrakk> \<Longrightarrow> sint (c - 1 :: 64 word) = sint c - 1"
  by (simp add: sint_word_ariths signed_take_bit_int_eq_self)

definition sem_inv :: "int \<Rightarrow> Semaphore \<Rightarrow> bool" where
  "sem_inv c s \<longleftrightarrow> sint (sem_count s) = c \<and> length (sem_wait_queue s) = nat (- c)"

lemma sem_inv_new:
  assumes "unat n = N" "N < 2 ^ 63"
  shows "sem_inv (int N) (Semaphore_new n)"
proof -
  have "signed_take_bit 63 (int N) = int N"
    by (rule signed_take_bit_int_eq_self) (use assms(2) in simp_all)
  moreover have "uint n = int N" using assms(1) by auto
  ultimately have "sint n = int N" by (simp add: sint_uint)
  then show ?thesis by (simp add: sem_inv_def Semaphore_new_def)
qed

lemma sem_inv_up:
  assumes "sem_inv c s" "up s k = (s', k')" "- (2 ^ 62) < c" "c < 2 ^ 62"
  shows "sem_inv (c + 1) s'"
proof -
  have "sint (sem_count s + 1) = c + 1" using sint_inc [of "sem_count s"] assms(1,3,4) by (simp add: sem_inv_def)
  then show ?thesis
    using assms(1,2) by (auto simp: up_def Let_def sem_inv_def split: if_splits list.splits)
qed

lemma sem_inv_down:
  assumes "sem_inv c s" "down s k = Inr (s', k')" "- (2 ^ 62) < c" "c < 2 ^ 62"
  shows "sem_inv (c - 1) s'"
proof -
  have "sint (sem_count s - 1) = c - 1" using sint_dec [of "sem_count s"] assms(1,3,4) by (simp add: sem_inv_def)
  then show ?thesis
    using assms(1,2) by (auto simp: down_def Let_def sem_inv_def bindR_eq_Inr split: if_splits)
qed

abbreviation ups :: "nat \<Rightarrow> event list \<Rightarrow> int" where
  "ups i es \<equiv> int (count_list es (Up i))"

abbreviation downs :: "nat \<Rightarrow> event list \<Rightarrow> int" where
  "downs i es \<equiv> int (count_list es (Down i))"

lemma run_sem_inv:
  assumes "run x es y" "snd x = map Semaphore_new ns" "i < length ns" "unat (ns ! i) = N" "N + length es < 2 ^ 62"
  shows "length (snd y) = length ns \<and> sem_inv (int N + ups i es - downs i es) (snd y ! i)"
  using assms
proof (induction rule: run.induct)
  case (run_nil x)
  then show ?case using sem_inv_new [of "ns ! i" N] by simp
next
  case (run_snoc x es y e z)
  let ?c = "int N + ups i es - downs i es"
  have IH: "length (snd y) = length ns" "sem_inv ?c (snd y ! i)" using run_snoc by simp_all
  have "count_list es (Up i) \<le> length es" "count_list es (Down i) \<le> length es" by (rule count_le_length)+
  then have b: "- (2 ^ 62) < ?c" "?c < 2 ^ 62"
    using run_snoc.prems(4) by simp_all
  from run_snoc.hyps(2) show ?case
  proof cases
    case (ss_kernel k k' ss)
    then show ?thesis using IH by simp
  next
    case (ss_up j ss k s k')
    then show ?thesis
      using IH sem_inv_up [OF IH(2) _ b, of k s k'] by (cases "j = i") (simp_all add: algebra_simps)
  next
    case (ss_down j ss k t s k')
    then show ?thesis
      using IH sem_inv_down [OF IH(2) _ b, of k s k'] by (cases "j = i") (simp_all add: algebra_simps)
  qed
qed

text \<open>C2. Semaphores.  Over every run of the kernel from the first process, with any interleaving of the
  tasks: the number of \<^verbatim>\<open>down\<close> operations that have got through is the number of all of them less
  the tasks in the wait queue; it never exceeds the initial count plus the number of \<^verbatim>\<open>up\<close>
  operations; and tasks wait only when it has reached that bound, so no wake-up is lost.\<close>

theorem semaphore_permits:
  assumes "boot_state k0" "run (k0, map Semaphore_new ns) es (k, ss)" "i < length ns"
    "unat (ns ! i) + length es < 2 ^ 62"
  shows "length (sem_wait_queue (ss ! i)) \<le> count_list es (Down i) \<and>
    count_list es (Down i) - length (sem_wait_queue (ss ! i)) \<le> unat (ns ! i) + count_list es (Up i) \<and>
    (sem_wait_queue (ss ! i) \<noteq> [] \<longrightarrow>
       count_list es (Down i) - length (sem_wait_queue (ss ! i)) = unat (ns ! i) + count_list es (Up i)) \<and>
    (\<forall>t \<in> set (sem_wait_queue (ss ! i)). t_task_status (task k t) = Blocked)"
proof -
  have inv: "length ss = length ns" "sem_inv (int (unat (ns ! i)) + ups i es - downs i es) (ss ! i)"
    using run_sem_inv [OF assms(2) _ assms(3) refl assms(4)] by simp_all
  have "queue_ok k ss" using boot_run_ok [OF assms(2,1)] by (simp add: sys_ok_def)
  then have "\<forall>t \<in> set (sem_wait_queue (ss ! i)). t_task_status (task k t) = Blocked"
    using inv(1) assms(3) nth_mem [of i ss] by (auto simp: queue_ok_def)
  moreover have "sem_wait_queue (ss ! i) \<noteq> [] \<longleftrightarrow> 0 < length (sem_wait_queue (ss ! i))" by simp
  ultimately show ?thesis using inv(2) unfolding sem_inv_def by linarith
qed


section \<open>Examples\<close>

definition example_space :: MemorySet where
  "example_space = \<lparr> ms_page_table = \<lparr> pt_root_ppn = PhysPageNum 0x80400, pt_frames = [] \<rparr>, ms_areas = [],
     ms_heap_area = [], ms_mmap_area = [], ms_mmap_base = VirtAddr MMAP_BASE, ms_mmap_end = VirtAddr MMAP_BASE \<rparr>"

definition example_tcb :: TaskControlBlock where
  "example_tcb = \<lparr> t_kstack = 0, t_tid = 0, t_pid = 0, t_send_sigchld_when_exit = False,
     t_memory_set = example_space, t_trap_cx_ppn = PhysPageNum 0x80401, t_task_cx = zero_init,
     t_task_status = Ready, t_syscall_times = replicate MAX_SYSCALL_NUM 0, t_first_time = None,
     t_clear_child_tid = 0, t_work_dir = \<lparr> wd_name = ''/'', wd_inode = Fat32Ref 0 \<rparr>,
     t_parent = None, t_children = [], t_threads = [], t_user_stack_top = 0x100000,
     t_exit_code = None, t_fd_table = init_fd_table, t_clock_stop_watch = 0, t_user_clock = 0,
     t_kernel_clock = 0, t_heap_base = VirtAddr 0x200000, t_heap_end = VirtAddr 0x200000, t_is_zombie = False,
     t_signals = 0, t_signal_actions = SignalActions_default, t_signals_pending = 0, t_signal_mask = 0 \<rparr>"

definition example_boot :: Kernel where
  "example_boot = \<lparr> k_tasks = [example_tcb], k_manager = tm_add 0 TaskManager_new, k_pid2pcb = [],
     k_processor = Processor_new, k_timers = [], k_pids = \<lparr> ra_current = 1, ra_recycled = [] \<rparr>,
     k_kstacks = \<lparr> ra_current = 1, ra_recycled = [] \<rparr>, k_space = example_space, k_mm = example_mm, k_initproc = 0 \<rparr>"

lemma example_boot_state: "boot_state example_boot"
  by (simp add: boot_state_def example_boot_def example_tcb_def sched_fields_def tree_fields_def)

text \<open>The first process is scheduled and takes the only permit of a semaphore twice: it blocks.\<close>

definition example_running :: Kernel where
  "example_running = snd (run_tasks_turn 0 example_boot)"

definition example_blocked :: Kernel where
  "example_blocked = (case block_current_and_run_next example_running of Inr k \<Rightarrow> k | Inl _ \<Rightarrow> example_running)"

definition example_sem :: Semaphore where
  "example_sem = \<lparr> sem_count = - 1, sem_wait_queue = [0] \<rparr>"

lemma example_running_current:
  "run_tasks_turn 0 example_boot = (True, example_running)" "k_current example_running = Some 0" "k_current example_boot = None"
  by (simp_all add: example_running_def example_boot_def run_tasks_turn_def fetch_task_def tm_fetch_def tm_add_def
      TaskManager_new_def Processor_new_def Let_def)

lemma example_blocks: "block_current_and_run_next example_running = Inr example_blocked"
  by (simp add: example_blocked_def block_current_and_run_next_def take_current_task_def example_running_current outcome Let_def)

lemma example_run:
  "run (example_boot, map Semaphore_new [1]) [Kernel_step, Down 0, Down 0] (example_blocked, [example_sem])"
proof -
  have "sstep (example_boot, [Semaphore_new 1]) Kernel_step (example_running, [Semaphore_new 1])"
    by (intro ss_kernel ks_run) (rule example_running_current)+
  then have r1: "run (example_boot, [Semaphore_new 1]) [Kernel_step] (example_running, [Semaphore_new 1])"
    using run_snoc [OF run_nil] by force
  have "sstep (example_running, [Semaphore_new 1]) (Down 0) (example_running, [Semaphore_new 1][0 := Semaphore_new 0])"
    by (rule ss_down [of 0 _ _ 0]) (simp_all add: down_def Semaphore_new_def example_running_current)
  then have r2: "run (example_boot, [Semaphore_new 1]) [Kernel_step, Down 0] (example_running, [Semaphore_new 0])"
    using run_snoc [OF r1] by force
  have "sstep (example_running, [Semaphore_new 0]) (Down 0) (example_blocked, [Semaphore_new 0][0 := example_sem])"
    by (rule ss_down [of 0 _ _ 0])
      (simp_all add: down_def Semaphore_new_def example_running_current example_blocks current_task_def outcome example_sem_def)
  then show ?thesis using run_snoc [OF r2] by force
qed

theorem process_tree_invariant_witness:
  "boot_state example_boot \<and>
   run (example_boot, map Semaphore_new [1]) [Kernel_step, Down 0, Down 0] (example_blocked, [example_sem]) \<and>
   inj_on (\<lambda>t. t_pid (task example_blocked t)) {..< length (k_tasks example_blocked)}"
  using process_tree_invariant [OF example_boot_state example_run] example_boot_state example_run by blast

theorem scheduler_invariant_witness:
  "boot_state example_boot \<and>
   run (example_boot, map Semaphore_new [1]) [Kernel_step, Down 0, Down 0] (example_blocked, [example_sem]) \<and>
   0 \<notin> set (k_ready example_blocked) \<and> t_task_status (task example_blocked 0) = Blocked"
  using scheduler_invariant [OF example_boot_state example_run] example_boot_state example_run
  by (simp add: example_sem_def)

theorem semaphore_permits_witness:
  "boot_state example_boot \<and>
   run (example_boot, map Semaphore_new [1]) [Kernel_step, Down 0, Down 0] (example_blocked, [example_sem]) \<and>
   count_list [Kernel_step, Down 0, Down 0] (Down 0) - length (sem_wait_queue ([example_sem] ! 0)) =
     unat (([1] :: usize list) ! 0) + count_list [Kernel_step, Down 0, Down 0] (Up 0)"
  using semaphore_permits [OF example_boot_state example_run, of 0] example_boot_state example_run
  by (simp add: example_sem_def)


section \<open>Exit and wait\<close>

lemma wait4_reaps:
  assumes ok: "kernel_ok k" and cur: "k_current k = Some p" and t: "t \<in> set (t_children (task k p))"
    "t_is_zombie (task k t)" "t_exit_code (task k t) = Some code"
  shows "\<exists>k'. wait4_turn (t_pid (task k t)) ptr option k =
      Inr (WaitReturn (t_pid (task k t)) (if ptr \<noteq> 0 then Some code else None), k') \<and>
      set (t_children (task k' p)) = set (t_children (task k p)) - {t}"
proof -
  let ?ch = "t_children (task k p)"
  note p = sched_ok_current(1) [OF kernel_okD(1) [OF ok] cur] and p0 = kernel_okD(2) [OF ok] and t0 = kernel_okD(3) [OF ok]
  have len: "u < length (k_tasks k)" if "u \<in> set ?ch" for u using tree_okD(3) [OF t0 p that] by blast
  have pid: "t_pid (task k u) = of_nat u" if "u \<in> set ?ch" for u using pids_okD(6) [OF p0 len [OF that]] by blast
  have only: "waits_for (t_pid (task k t)) k u \<longleftrightarrow> u = t" if u: "u \<in> set ?ch" for u
  proof -
    have "of_nat t \<noteq> (- 1 :: usize)"
    proof
      assume "of_nat t = (- 1 :: usize)"
      then have "of_nat (Suc t) = (0 :: usize)" by simp
      then show False using unat_of_nat64 [of "Suc t"] len [OF t(1)] pids_okD(2) [OF p0] by simp
    qed
    moreover have "of_nat t = (of_nat u :: usize) \<longleftrightarrow> u = t"
      using of_nat_inj64 [of t u] len [OF t(1)] len [OF u] pids_okD(2) [OF p0] by auto
    ultimately show ?thesis using pid [OF t(1)] pid [OF u] by (simp add: waits_for_def)
  qed
  let ?P = "\<lambda>u. t_is_zombie (task k u) \<and> waits_for (t_pid (task k t)) k u"
  obtain idx where idx: "find_position ?P ?ch = Some idx"
    using only [OF t(1)] t(1,2) find_position_None [of ?P ?ch] by (cases "find_position ?P ?ch") auto
  then have i: "idx < length ?ch" "?ch ! idx = t" using only nth_mem by (auto simp: find_position_Some)
  have ex: "(\<forall>u \<in> set ?ch. \<not> waits_for (t_pid (task k t)) k u) = False" using only t(1) by blast
  show ?thesis
    using i p t(3) set_remove_nth [OF tree_okD(2) [OF t0 p] i(1)]
    by (simp add: wait4_turn_def current_task_def cur outcome Let_def idx ex)
qed

lemma run_turn_tree:
  assumes "run_tasks_turn time k = (True, k')"
  shows "length (k_tasks k') = length (k_tasks k)" "k_pid2pcb k' = k_pid2pcb k"
    "u < length (k_tasks k) \<Longrightarrow> tree_fields (task k' u) = tree_fields (task k u)"
proof -
  obtain t where r: "k_tasks k' = (k_tasks k)[t := (k_tasks k ! t)\<lparr> t_task_status := Running,
       t_first_time := (case t_first_time (k_tasks k ! t) of None \<Rightarrow> Some (get_time_ms time) | Some x \<Rightarrow> Some x),
       t_clock_stop_watch := time \<rparr>]" "k_pid2pcb k' = k_pid2pcb k"
    using run_turn_eq [OF assms] by metis
  show "length (k_tasks k') = length (k_tasks k)" "k_pid2pcb k' = k_pid2pcb k" by (simp_all add: r)
  show "u < length (k_tasks k) \<Longrightarrow> tree_fields (task k' u) = tree_fields (task k u)"
    by (cases "u = t") (simp_all add: r(1) tree_fields_def)
qed

text \<open>C9. Exit and wait.  When a process other than the first exits with some code, and the scheduler then
  picks the task that has it in its list of children, a call of \<^verbatim>\<open>wait4\<close> for its number returns at once
  with that number and the code, takes it off the list, and the number is gone from the table of
  processes.  The children of the process have moved to the first process.\<close>

theorem exit_then_wait:
  assumes "kernel_ok k" "k_current k = Some t" "sys_exit code k = Inr (Some k1)"
    "run_tasks_turn time k1 = (True, k2)" "k_current k2 = Some p" "t \<in> set (t_children (task k p))"
  shows "pid2process (t_pid (task k t)) k2 = None \<and>
    set (t_children (task k t)) \<subseteq> set (t_children (task k2 0)) \<and>
    (\<exists>k3. wait4_turn (t_pid (task k t)) ptr option k2 =
       Inr (WaitReturn (t_pid (task k t)) (if ptr \<noteq> 0 then Some code else None), k3) \<and>
       set (t_children (task k3 p)) = set (t_children (task k2 p)) - {t})"
proof -
  have x: "exit_current_and_run_next code k = Inr (Some k1)" using assms(3) by (simp add: sys_exit_def)
  note e = exit_effect [OF assms(1,2) x]
  have ok1: "kernel_ok k1" by (rule exit_kernel_ok [OF assms(1,2) x])
  have "k_current k1 = None" by (simp add: e(12))
  then have ok2: "kernel_ok k2" using run_turn_kernel_ok [OF ok1 _ assms(4)] by blast
  have c: "t < length (k_tasks k)" by (rule sched_ok_current(1) [OF kernel_okD(1) [OF assms(1)] assms(2)])
  have pid: "t_pid (task k t) = of_nat t" using pids_okD(6) [OF kernel_okD(2) [OF assms(1)] c] by blast
  note r = run_turn_tree [OF assms(4)]
  note f = r(3) [unfolded tree_fields_def prod.inject e(2)]
  have "t \<noteq> p" using assms(6) tree_okD(3) [OF kernel_okD(3) [OF assms(1)] c, of t] by auto
  have "p < length (k_tasks k)" using sched_ok_current(1) [OF kernel_okD(1) [OF ok2] assms(5)] r(1) e(2) by simp
  then have ch: "t \<in> set (t_children (task k2 p))" using f e(8) assms(6) \<open>t \<noteq> p\<close> by auto
  have z: "t_is_zombie (task k2 t)" "t_exit_code (task k2 t) = Some code" "t_pid (task k2 t) = t_pid (task k t)"
    using f [OF c] e(4,5,9) by simp_all
  have "0 < length (k_tasks k)" by (rule kernel_okD(4) [OF assms(1)])
  then have "set (t_children (task k t)) \<subseteq> set (t_children (task k2 0))" using f [of 0] e(8) by simp
  moreover have "pid2process (t_pid (task k t)) k2 = None" using e(13) pid r(2) by (simp add: pid2process_def)
  ultimately show ?thesis using wait4_reaps [OF ok2 assms(5) ch z(1,2), of ptr option] z(3) by simp
qed

section \<open>Round robin\<close>

text \<open>One slice: the scheduler picks a task, which gives up the processor again.\<close>

definition slice :: "usize \<Rightarrow> Kernel \<Rightarrow> Kernel res" where
  "slice time k = suspend_current_and_run_next (snd (run_tasks_turn time k))"

lemma slice_rotates:
  assumes "k_current k = None" "k_ready k = t # q"
  shows "\<exists>k'. slice time k = Inr k' \<and> k_ready k' = q @ [t] \<and> k_current k' = None"
  using assms
  by (simp add: slice_def run_tasks_turn_def fetch_task_def tm_fetch_def Let_def suspend_current_and_run_next_def
      take_current_task_def outcome)

text \<open>C14. Round robin.  When every task that is picked gives up its slice without exiting, the task at
  position \<open>n\<close> of the ready queue runs after exactly \<open>n\<close> slices, whatever the other tasks are: no task
  that is ready is left out.\<close>

theorem round_robin:
  assumes "k_current k = None" "n < length (k_ready k)"
  shows "\<exists>k' k''. foldR slice (replicate n time) k = Inr k' \<and>
    k_ready k' = drop n (k_ready k) @ take n (k_ready k) \<and>
    run_tasks_turn time k' = (True, k'') \<and> k_current k'' = Some (k_ready k ! n)"
proof -
  have "\<exists>k'. foldR slice (replicate n time) k = Inr k' \<and> k_current k' = None \<and>
      k_ready k' = drop n (k_ready k) @ take n (k_ready k)"
    using assms
  proof (induction n arbitrary: k)
    case (Suc n)
    obtain t q where q: "k_ready k = t # q" using Suc.prems by (cases "k_ready k") auto
    obtain k1 where k1: "slice time k = Inr k1" "k_ready k1 = q @ [t]" "k_current k1 = None"
      using slice_rotates [OF Suc.prems(1) q] by blast
    obtain k' where "foldR slice (replicate n time) k1 = Inr k'" "k_current k' = None"
      "k_ready k' = drop n (q @ [t]) @ take n (q @ [t])"
      using Suc.IH [OF k1(3)] Suc.prems(2) k1(2) q by auto
    then show ?case using k1(1) q Suc.prems(2) by (auto simp: outcome)
  qed simp
  then obtain k' where k': "foldR slice (replicate n time) k = Inr k'" "k_current k' = None"
    "k_ready k' = drop n (k_ready k) @ take n (k_ready k)" by blast
  obtain q where "k_ready k' = k_ready k ! n # q"
    using k'(3) assms(2) by (simp add: Cons_nth_drop_Suc [symmetric])
  then have "\<exists>k''. run_tasks_turn time k' = (True, k'') \<and> k_current k'' = Some (k_ready k ! n)"
    by (simp add: run_tasks_turn_def fetch_task_def tm_fetch_def Let_def)
  then show ?thesis using k' by blast
qed

text \<open>Two processes: the first waits in the ready queue while its child runs.\<close>

definition example_pair :: Kernel where
  "example_pair = example_boot\<lparr>
     k_tasks := [example_tcb\<lparr> t_children := [1] \<rparr>,
       example_tcb\<lparr> t_pid := 1, t_tid := 1, t_parent := Some 0, t_task_status := Running \<rparr>],
     k_pid2pcb := [(1, 1)], k_processor := Processor_new\<lparr> p_current := Some 1 \<rparr>,
     k_pids := \<lparr> ra_current = 2, ra_recycled = [] \<rparr> \<rparr>"

lemma example_pair_simps:
  "k_tasks example_pair = [example_tcb\<lparr> t_children := [1] \<rparr>,
       example_tcb\<lparr> t_pid := 1, t_tid := 1, t_parent := Some 0, t_task_status := Running \<rparr>]"
  "k_manager example_pair = tm_add 0 TaskManager_new" "k_pid2pcb example_pair = [(1, 1)]" "k_current example_pair = Some 1"
  "k_pids example_pair = \<lparr> ra_current = 2, ra_recycled = [] \<rparr>" "k_initproc example_pair = 0"
  "t_children example_tcb = []" "t_task_status example_tcb = Ready" "t_is_zombie example_tcb = False"
  "t_pid example_tcb = 0" "t_tid example_tcb = 0" "t_threads example_tcb = []"
  "t_memory_set example_tcb = example_space" "ms_areas example_space = []"
  by (simp_all add: example_pair_def example_boot_def example_tcb_def example_space_def)

lemma less_two: "t < 2 \<longleftrightarrow> t = 0 \<or> t = (1 :: nat)"
  by linarith

lemma example_pair_ok: "kernel_ok example_pair"
proof -
  have "sched_ok example_pair"
    by (rule sched_okI) (auto simp: example_pair_simps TaskManager_new_def less_two less_Suc_eq)
  moreover have "pids_ok example_pair"
    by (rule pids_okI) (auto simp: example_pair_simps bt_sorted_def bt_get_def less_Suc_eq)
  moreover have "tree_ok example_pair"
    by (rule tree_okI) (auto simp: example_pair_simps less_Suc_eq)
  ultimately show ?thesis by (simp add: kernel_ok_def)
qed

definition example_exited :: Kernel where
  "example_exited = (case sys_exit 7 example_pair of Inr (Some k) \<Rightarrow> k | _ \<Rightarrow> example_pair)"

lemma example_exits: "sys_exit 7 example_pair = Inr (Some example_exited)"
proof -
  have "\<exists>k. sys_exit 7 example_pair = Inr (Some k)"
    by (simp add: sys_exit_def exit_current_and_run_next_def take_current_task_def outcome example_pair_simps IDLE_PID_def
        exit_process_def remove_from_pid2process_def bt_remove_def bt_get_def bt_del_def upd_task_def recycle_data_pages_def
        drop_frames_def map_filter_def Let_def)
  then show ?thesis by (auto simp: example_exited_def)
qed

theorem exit_then_wait_witness:
  "kernel_ok example_pair \<and> sys_exit 7 example_pair = Inr (Some example_exited) \<and>
   (\<exists>k2 k3. run_tasks_turn 0 example_exited = (True, k2) \<and>
      wait4_turn 1 0x1000 0 k2 = Inr (WaitReturn 1 (Some 7), k3))"
proof -
  note e = exit_effect [OF example_pair_ok example_pair_simps(4), unfolded sys_exit_def [symmetric], OF example_exits]
  have "k_ready example_exited = [0]" using e(11) by (simp add: example_pair_simps TaskManager_new_def)
  then obtain k2 where k2: "run_tasks_turn 0 example_exited = (True, k2)" "k_current k2 = Some 0"
    by (simp add: run_tasks_turn_def fetch_task_def tm_fetch_def Let_def)
  have "1 \<in> set (t_children (task example_pair 0))" by (simp add: example_pair_simps)
  note w = exit_then_wait [OF example_pair_ok example_pair_simps(4) example_exits k2 this, of "0x1000" 0]
  have "t_pid (task example_pair 1) = 1" by (simp add: example_pair_simps)
  then show ?thesis using w k2 example_pair_ok example_exits by auto
qed

theorem round_robin_witness:
  "\<exists>k' k''. foldR slice (replicate 1 0) (example_pair\<lparr> k_processor := Processor_new, k_manager := tm_add 1 (tm_add 0 TaskManager_new) \<rparr>) = Inr k' \<and>
    k_ready k' = [1, 0] \<and> run_tasks_turn 0 k' = (True, k'') \<and> k_current k'' = Some 1"
  using round_robin [of "example_pair\<lparr> k_processor := Processor_new, k_manager := tm_add 1 (tm_add 0 TaskManager_new) \<rparr>" 1 0]
  by (simp add: Processor_new_def TaskManager_new_def)


section \<open>Signals\<close>

text \<open>A task whose process faults is ended by the same trap, with the code of the first fatal signal.\<close>

lemma fault_exits:
  assumes "k_current k = Some t" "t < length (k_tasks k)" "check_error (t_signals (task k t)) = None"
    "cause \<in> {StoreFault, StorePageFault, InstructionFault, InstructionPageFault, LoadFault, LoadPageFault}"
  shows "\<exists>k'. trap_cause call time cause k = Inr (Continue (None, k')) \<and> trap_signals k' = exit_flow (- 11) k'"
proof -
  let ?k = "upd_task t (\<lambda>c. c\<lparr> t_signals := t_signals c OR SIGSEGV \<rparr>) k"
  have c: "trap_cause call time cause k = Inr (Continue (None, ?k))"
    using assms(1,4) by (auto simp: trap_cause_def current_add_signal_def current_task_def outcome)
  have none: "\<not> sig_contains (t_signals (task k t)) f" if "f \<in> {SIGINT, SIGILL, SIGABRT, SIGFPE, SIGSEGV}" for f
    using assms(3) that by (auto simp: check_error_def split: if_splits)
  have bits: "sig_contains (t_signals (task k t) OR push_bit 10 1) (push_bit n 1) \<longleftrightarrow>
      sig_contains (t_signals (task k t)) (push_bit n 1) \<or> n = 10" if "n < 64" for n
    using that by (simp only: sig_contains_bit bit_or_iff bit_push_bit_iff) (auto simp: bit_1_iff)
  have "check_error (t_signals (task k t) OR SIGSEGV) = Some (- 11, ''Segmentation Fault, SIGSEGV=11'')"
    using none unfolding check_error_def signal_defs by (simp only: bits) simp
  then have "trap_signals ?k = exit_flow (- 11) ?k"
    using assms(1,2) by (simp add: trap_signals_def check_signals_of_current_def current_task_def outcome)
  then show ?thesis using c by blast
qed

text \<open>\<^verbatim>\<open>kill(pid, 9)\<close>: the number is taken as a set of flags, so that the process is ended as if by an
  illegal instruction; a pending \<^verbatim>\<open>SIGKILL\<close> on its own ends nothing.\<close>

lemma kill_nine_is_sigill:
  assumes "pid2process pid k = Some t" "t < length (k_tasks k)" "t_signals (task k t) = 0"
  shows "fst (sys_kill pid 9 k) = 0 \<and> check_error (t_signals (task (snd (sys_kill pid 9 k)) t)) = Some (- 4, ''Illegal Instruction, SIGILL=4'')"
  using assms by (simp add: sys_kill_def SignalFlags_from_bits_all check_error_def sig_contains_def signal_defs)

lemma sigkill_alone_ignored: "check_error SIGKILL = None"
  by (simp add: check_error_def sig_contains_def signal_defs)

text \<open>The actions of \<^verbatim>\<open>SIGKILL\<close> and \<^verbatim>\<open>SIGSTOP\<close> never change.\<close>

lemma other_action_kept:
  assumes "i \<noteq> n" "u < length (k_tasks k)"
  shows "t_signal_actions (task (upd_task x (\<lambda>c. c\<lparr> t_signal_actions := (t_signal_actions c)[i := a] \<rparr>) k) u) ! n =
    t_signal_actions (task k u) ! n"
  using assms by (cases "u = x") (simp_all add: upd_task_def)

lemma sigaction_protects:
  assumes "sys_sigaction signum action old um k = Inr (r, um', k')" "u < length (k_tasks k)" "n \<in> {9, 19}"
  shows "t_signal_actions (task k' u) ! n = t_signal_actions (task k u) ! n"
proof (cases "unat signum = n")
  case True
  then have "signum = 9 \<or> signum = 19" using assms(3) by (auto simp: word_unat_eq_iff)
  then have "check_sigaction_error (push_bit (unat ((signum - 1) AND 63)) 1)"
    by (auto simp: check_sigaction_error_def signal_defs)
  then show ?thesis
    using assms(1) by (auto simp: sys_sigaction_def bindR_eq_Inr SignalFlags_from_bits_all Let_def split: if_splits)
next
  case False
  then show ?thesis
    using assms(1,2)
    by (auto simp: sys_sigaction_def bindR_eq_Inr SignalFlags_from_bits_all Let_def other_action_kept split: if_splits)
qed

text \<open>A call during which the processor was given away comes back through the entry that does not
  store the result: \<^verbatim>\<open>sched_yield\<close> returns whatever its first argument register held.\<close>

lemma yield_result_lost:
  assumes "k_current k = Some t" "call_satp \<noteq> leave_satp" "(ucast num :: 32 word) \<noteq> ucast SYSCALL_EXECVE"
  shows "trap_leave (Some (num, result)) call_satp leave_satp k = Inr (entry_of_pid (t_pid (task k t)), k)"
  using assms by (simp add: trap_leave_def current_task_def outcome)

text \<open>A number outside the table of counters stops the kernel before it is looked at.\<close>

lemma large_syscall_number_panics:
  assumes "k_current k = Some t" "length (t_syscall_times (task k t)) = MAX_SYSCALL_NUM" "unat num \<ge> MAX_SYSCALL_NUM"
  shows "count_syscall num k = Inl Index_out_of_bounds"
  using assms by (simp add: count_syscall_def current_task_def outcome nthR_def)


end
