(* ===== verification/Pipe.thy ===== *)
theory Pipe
  imports Prelude
begin

text \<open>
  Pipes, \<^verbatim>\<open>os/src/fs/pipe.rs\<close>.  The ring buffer is shared by the two ends; an end is kept
  alive by the strong references that descriptor tables hold, and the buffer only has weak
  references to the ends.  Reading and writing are loops that hold the buffer for one turn and
  give up the processor when they cannot go on; one turn is one function here, and the
  calls are loops over turns in which other tasks act in between.  The buffer of a call is a slice
  with fixed contents; calls on buffers in user pages are in \<^verbatim>\<open>Vfs\<close>.
\<close>

section \<open>The ring buffer\<close>

datatype RingBufferStatus = Full | Empty | Normal

datatype PipeEnd = Read_end | Write_end

definition RING_BUFFER_SIZE :: nat where "RING_BUFFER_SIZE = 3200"

record PipeRingBuffer =
  rb_arr :: "u8 list"
  rb_head :: nat
  rb_tail :: nat
  rb_status :: RingBufferStatus
  rb_write_end :: "PipeEnd option"
  rb_read_end :: "PipeEnd option"

definition PipeRingBuffer_new :: PipeRingBuffer where
  "PipeRingBuffer_new =
     \<lparr> rb_arr = replicate RING_BUFFER_SIZE 0, rb_head = 0, rb_tail = 0, rb_status = Empty,
       rb_write_end = None, rb_read_end = None \<rparr>"

definition set_write_end :: "PipeEnd \<Rightarrow> PipeRingBuffer \<Rightarrow> PipeRingBuffer" where
  "set_write_end e r = r\<lparr> rb_write_end := Some e \<rparr>"

definition write_byte :: "u8 \<Rightarrow> PipeRingBuffer \<Rightarrow> PipeRingBuffer res" where
  "write_byte byte r =
     (if rb_tail r < length (rb_arr r) then
        let tail = (rb_tail r + 1) mod RING_BUFFER_SIZE in
        Inr (r\<lparr> rb_arr := (rb_arr r)[rb_tail r := byte], rb_tail := tail,
               rb_status := (if tail = rb_head r then Full else Normal) \<rparr>)
      else Inl Index_out_of_bounds)"

definition read_byte :: "PipeRingBuffer \<Rightarrow> (u8 \<times> PipeRingBuffer) res" where
  "read_byte r =
     bindR (nthR (rb_arr r) (rb_head r)) (\<lambda>c.
       let head = (rb_head r + 1) mod RING_BUFFER_SIZE in
       Inr (c, r\<lparr> rb_head := head, rb_status := (if head = rb_tail r then Empty else Normal) \<rparr>))"

definition available_read :: "PipeRingBuffer \<Rightarrow> nat" where
  "available_read r =
     (if rb_status r = Empty then 0
      else if rb_tail r > rb_head r then rb_tail r - rb_head r
      else rb_tail r + RING_BUFFER_SIZE - rb_head r)"

definition available_write :: "PipeRingBuffer \<Rightarrow> nat" where
  "available_write r = (if rb_status r = Full then 0 else RING_BUFFER_SIZE - available_read r)"

text \<open>The strong reference counts of the two ends: a weak reference upgrades while the count
  is not zero.\<close>

record PipeWorld =
  pw_ring :: PipeRingBuffer
  pw_strong :: "PipeEnd \<Rightarrow> nat"

definition all_write_ends_closed :: "PipeWorld \<Rightarrow> bool res" where
  "all_write_ends_closed w =
     bindR (unwrapR (rb_write_end (pw_ring w))) (\<lambda>e. Inr (pw_strong w e = 0))"

definition all_read_ends_closed :: "PipeWorld \<Rightarrow> bool res" where
  "all_read_ends_closed w =
     bindR (unwrapR (rb_read_end (pw_ring w))) (\<lambda>e. Inr (pw_strong w e = 0))"

section \<open>Pipe ends\<close>

record Pipe =
  p_readable :: bool
  p_writable :: bool

definition read_end_with_buffer :: Pipe where
  "read_end_with_buffer = \<lparr> p_readable = True, p_writable = False \<rparr>"

definition write_end_with_buffer :: Pipe where
  "write_end_with_buffer = \<lparr> p_readable = False, p_writable = True \<rparr>"

definition make_pipe :: "Pipe \<times> Pipe \<times> PipeWorld" where
  "make_pipe =
     (read_end_with_buffer, write_end_with_buffer,
      \<lparr> pw_ring = set_write_end Write_end PipeRingBuffer_new, pw_strong = (\<lambda>_. 1) \<rparr>)"

definition Pipe_readable :: "Pipe \<Rightarrow> bool" where "Pipe_readable p = True"

definition Pipe_writable :: "Pipe \<Rightarrow> bool" where "Pipe_writable p = True"

text \<open>One turn of a loop: it returns from the call, goes round again, or waits for other tasks.\<close>

datatype turn = Return nat | Again | Wait

record Reader =
  rd_buf :: "u8 list"
  rd_next :: nat
  rd_already :: nat

text \<open>The loop over the bytes that are available, with the buffer held.\<close>

fun read_for :: "nat \<Rightarrow> PipeRingBuffer \<Rightarrow> Reader \<Rightarrow> (turn \<times> PipeRingBuffer \<times> Reader) res" where
  "read_for 0 r b = Inr (Again, r, b)"
| "read_for (Suc n) r b =
     (if rd_next b < length (rd_buf b) then
        bindR (read_byte r) (\<lambda>(c, r').
          let b' = b\<lparr> rd_buf := (rd_buf b)[rd_next b := c], rd_next := rd_next b + 1,
                      rd_already := rd_already b + 1 \<rparr> in
          if rd_already b' = length (rd_buf b) then Inr (Return (length (rd_buf b)), r', b')
          else read_for n r' b')
      else Inr (Return (rd_already b), r, b))"

definition read_turn :: "PipeWorld \<Rightarrow> Reader \<Rightarrow> (turn \<times> PipeWorld \<times> Reader) res" where
  "read_turn w b =
     (let loop_read = available_read (pw_ring w) in
      if loop_read = 0 then
        bindR (all_write_ends_closed w) (\<lambda>closed.
          Inr (if closed then Return (rd_already b) else Wait, w, b))
      else
        bindR (read_for loop_read (pw_ring w) b) (\<lambda>(t, r, b'). Inr (t, w\<lparr> pw_ring := r \<rparr>, b')))"

text \<open>\<^verbatim>\<open>others\<close> is what the other tasks do to the pipe while this one is suspended.\<close>

partial_function (option) read_loop ::
  "(PipeWorld \<Rightarrow> PipeWorld) \<Rightarrow> PipeWorld \<Rightarrow> Reader \<Rightarrow> (nat \<times> PipeWorld \<times> Reader) res option" where
  "read_loop others w b =
     (case read_turn w b of
        Inl e \<Rightarrow> Some (Inl e)
      | Inr (t, w', b') \<Rightarrow>
          (case t of
             Return n \<Rightarrow> Some (Inr (n, w', b'))
           | Again \<Rightarrow> read_loop others w' b'
           | Wait \<Rightarrow> read_loop others (others w') b'))"

definition Pipe_read ::
  "(PipeWorld \<Rightarrow> PipeWorld) \<Rightarrow> Pipe \<Rightarrow> u8 list \<Rightarrow> PipeWorld \<Rightarrow> (nat \<times> PipeWorld \<times> u8 list) res option" where
  "Pipe_read others p buf w =
     (if Pipe_readable p then
        map_option (\<lambda>r. bindR r (\<lambda>(n, w', b). Inr (n, w', rd_buf b)))
          (read_loop others w \<lparr> rd_buf = buf, rd_next = 0, rd_already = 0 \<rparr>)
      else Some (Inl Assert_failed))"

partial_function (option) read_all_loop ::
  "(PipeWorld \<Rightarrow> PipeWorld) \<Rightarrow> Pipe \<Rightarrow> u8 list \<Rightarrow> u8 list \<Rightarrow> PipeWorld \<Rightarrow> (u8 list \<times> PipeWorld) res option" where
  "read_all_loop others p v buf w =
     (case Pipe_read others p buf w of
        None \<Rightarrow> None
      | Some (Inl e) \<Rightarrow> Some (Inl e)
      | Some (Inr (len, w', buf')) \<Rightarrow>
          if len = 0 then Some (Inr (v, w'))
          else read_all_loop others p (v @ take len buf') buf' w')"

definition Pipe_read_all ::
  "(PipeWorld \<Rightarrow> PipeWorld) \<Rightarrow> Pipe \<Rightarrow> PipeWorld \<Rightarrow> (u8 list \<times> PipeWorld) res option" where
  "Pipe_read_all others p w = read_all_loop others p [] (replicate 512 0) w"

record Writer =
  wr_buf :: "u8 list"
  wr_next :: nat
  wr_already :: nat

fun write_for :: "nat \<Rightarrow> PipeRingBuffer \<Rightarrow> Writer \<Rightarrow> (turn \<times> PipeRingBuffer \<times> Writer) res" where
  "write_for 0 r b = Inr (Again, r, b)"
| "write_for (Suc n) r b =
     (if wr_next b < length (wr_buf b) then
        bindR (write_byte (wr_buf b ! wr_next b) r) (\<lambda>r'.
          let b' = b\<lparr> wr_next := wr_next b + 1, wr_already := wr_already b + 1 \<rparr> in
          if wr_already b' = length (wr_buf b) then Inr (Return (length (wr_buf b)), r', b')
          else write_for n r' b')
      else Inr (Return (wr_already b), r, b))"

definition write_turn :: "PipeWorld \<Rightarrow> Writer \<Rightarrow> (turn \<times> PipeWorld \<times> Writer) res" where
  "write_turn w b =
     (let loop_write = available_write (pw_ring w) in
      if loop_write = 0 then Inr (Wait, w, b)
      else
        bindR (write_for loop_write (pw_ring w) b) (\<lambda>(t, r, b'). Inr (t, w\<lparr> pw_ring := r \<rparr>, b')))"

partial_function (option) write_loop ::
  "(PipeWorld \<Rightarrow> PipeWorld) \<Rightarrow> PipeWorld \<Rightarrow> Writer \<Rightarrow> (nat \<times> PipeWorld \<times> Writer) res option" where
  "write_loop others w b =
     (case write_turn w b of
        Inl e \<Rightarrow> Some (Inl e)
      | Inr (t, w', b') \<Rightarrow>
          (case t of
             Return n \<Rightarrow> Some (Inr (n, w', b'))
           | Again \<Rightarrow> write_loop others w' b'
           | Wait \<Rightarrow> write_loop others (others w') b'))"

definition Pipe_write ::
  "(PipeWorld \<Rightarrow> PipeWorld) \<Rightarrow> Pipe \<Rightarrow> u8 list \<Rightarrow> PipeWorld \<Rightarrow> (nat \<times> PipeWorld) res option" where
  "Pipe_write others p buf w =
     (if Pipe_writable p then
        map_option (\<lambda>r. bindR r (\<lambda>(n, w', b). Inr (n, w')))
          (write_loop others w \<lparr> wr_buf = buf, wr_next = 0, wr_already = 0 \<rparr>)
      else Some (Inl Assert_failed))"

definition Pipe_fstat :: "Pipe \<Rightarrow> unit res" where
  "Pipe_fstat p = Inl (Explicit_panic ''Pipe::fstat not implemented'')"

definition hang_up :: "Pipe \<Rightarrow> PipeWorld \<Rightarrow> bool res" where
  "hang_up p w = (if p_readable p then all_write_ends_closed w else all_read_ends_closed w)"

definition r_ready :: "PipeWorld \<Rightarrow> bool" where
  "r_ready w = (rb_status (pw_ring w) \<noteq> Empty)"

definition w_ready :: "PipeWorld \<Rightarrow> bool" where
  "w_ready w = (rb_status (pw_ring w) \<noteq> Full)"

section \<open>Bounded queues\<close>

text \<open>What the loops rely on: bytes come out in the order they went in, and a queue with room
  takes one more.\<close>

locale bounded_queue =
  fixes enq :: "'a \<Rightarrow> 'q \<Rightarrow> 'q res"
    and deq :: "'q \<Rightarrow> ('a \<times> 'q) res"
    and items :: "'q \<Rightarrow> 'a list"
    and ok :: "'q \<Rightarrow> bool"
    and capacity :: nat
  assumes enq_room: "\<lbrakk> ok q; length (items q) < capacity \<rbrakk> \<Longrightarrow>
        \<exists>q'. enq x q = Inr q' \<and> ok q' \<and> items q' = items q @ [x]"
    and deq_cons: "\<lbrakk> ok q; items q = x # xs \<rbrakk> \<Longrightarrow> \<exists>q'. deq q = Inr (x, q') \<and> ok q' \<and> items q' = xs"
    and within: "ok q \<Longrightarrow> length (items q) \<le> capacity"
begin

lemma enq_list:
  assumes "ok q" "length (items q) + length xs \<le> capacity"
  shows "\<exists>q'. foldR enq xs q = Inr q' \<and> ok q' \<and> items q' = items q @ xs"
  using assms
proof (induction xs arbitrary: q)
  case (Cons x xs)
  obtain q1 where 1: "enq x q = Inr q1" "ok q1" "items q1 = items q @ [x]"
    using enq_room [OF Cons.prems(1), of x] Cons.prems(2) by auto
  then show ?case using Cons.IH [OF 1(2)] Cons.prems(2) by auto
qed simp

lemma enq_deq:
  assumes "ok q" "items q = []" "0 < capacity"
  shows "\<exists>q' q''. enq x q = Inr q' \<and> deq q' = Inr (x, q'') \<and> items q'' = []"
proof -
  obtain q' where 1: "enq x q = Inr q'" "ok q'" "items q' = [x]"
    using enq_room [OF assms(1), of x] assms(2,3) by auto
  then show ?thesis using deq_cons [OF 1(2,3)] by auto
qed

end

definition rb_ok :: "PipeRingBuffer \<Rightarrow> bool" where
  "rb_ok r \<longleftrightarrow> length (rb_arr r) = RING_BUFFER_SIZE \<and> rb_head r < RING_BUFFER_SIZE \<and>
     rb_tail r < RING_BUFFER_SIZE \<and> (rb_status r = Normal \<longleftrightarrow> rb_head r \<noteq> rb_tail r)"

definition rb_items :: "PipeRingBuffer \<Rightarrow> u8 list" where
  "rb_items r = map (\<lambda>i. rb_arr r ! ((rb_head r + i) mod RING_BUFFER_SIZE)) [0..<available_read r]"

lemma ring_mod:
  assumes "h < RING_BUFFER_SIZE" "n \<le> RING_BUFFER_SIZE"
  shows "(h + n) mod RING_BUFFER_SIZE = (if h + n < RING_BUFFER_SIZE then h + n else h + n - RING_BUFFER_SIZE)"
  using assms by (auto simp: mod_if)

lemma available_read_eq:
  assumes "rb_ok r" "n \<le> RING_BUFFER_SIZE" "rb_tail r = (rb_head r + n) mod RING_BUFFER_SIZE"
    "rb_status r = Empty \<longleftrightarrow> n = 0"
  shows "available_read r = n"
  using assms ring_mod [of "rb_head r" n]
  by (cases "rb_status r") (auto simp: available_read_def rb_ok_def RING_BUFFER_SIZE_def split: if_splits)

lemma available_read_spec:
  assumes "rb_ok r"
  shows "available_read r \<le> RING_BUFFER_SIZE" "rb_tail r = (rb_head r + available_read r) mod RING_BUFFER_SIZE"
    "rb_status r = Empty \<longleftrightarrow> available_read r = 0" "rb_status r = Full \<longleftrightarrow> available_read r = RING_BUFFER_SIZE"
proof -
  show le: "available_read r \<le> RING_BUFFER_SIZE"
    using assms by (cases "rb_status r") (auto simp: available_read_def rb_ok_def)
  show "rb_tail r = (rb_head r + available_read r) mod RING_BUFFER_SIZE"
    using assms ring_mod [OF _ le, of "rb_head r"]
    by (cases "rb_status r") (auto simp: available_read_def rb_ok_def)
  show "rb_status r = Empty \<longleftrightarrow> available_read r = 0" "rb_status r = Full \<longleftrightarrow> available_read r = RING_BUFFER_SIZE"
    using assms
    by (cases "rb_status r"; auto simp: available_read_def rb_ok_def RING_BUFFER_SIZE_def)+
qed

lemma length_rb_items: "length (rb_items r) = available_read r"
  by (simp add: rb_items_def)

lemma available_write_eq: "rb_ok r \<Longrightarrow> available_write r = RING_BUFFER_SIZE - length (rb_items r)"
  using available_read_spec(4) [of r] by (simp add: available_write_def length_rb_items)

lemma write_byte_spec:
  assumes ok: "rb_ok r" and room: "available_read r < RING_BUFFER_SIZE"
  shows "\<exists>r'. write_byte x r = Inr r' \<and> rb_ok r' \<and> rb_items r' = rb_items r @ [x]"
proof -
  let ?n = "available_read r" and ?t = "(rb_tail r + 1) mod RING_BUFFER_SIZE"
  define r' where "r' = r\<lparr> rb_arr := (rb_arr r)[rb_tail r := x], rb_tail := ?t,
    rb_status := (if ?t = rb_head r then Full else Normal) \<rparr>"
  note sp = available_read_spec [OF ok]
  have run: "write_byte x r = Inr r'" using ok by (simp add: write_byte_def rb_ok_def r'_def Let_def)
  have ok': "rb_ok r'" using ok by (simp add: rb_ok_def r'_def RING_BUFFER_SIZE_def)
  have "?t = (rb_head r + Suc ?n) mod RING_BUFFER_SIZE"
    unfolding sp(2) by (simp add: mod_simps)
  then have av: "available_read r' = Suc ?n"
    using room by (intro available_read_eq [OF ok']) (simp_all add: r'_def)
  have other: "(rb_head r + i) mod RING_BUFFER_SIZE \<noteq> rb_tail r" if "i < ?n" for i
    using that sp(2) room ok ring_mod [of "rb_head r" i] ring_mod [of "rb_head r" ?n]
    by (auto simp: rb_ok_def split: if_splits)
  have "rb_items r' = map (\<lambda>i. rb_arr r' ! ((rb_head r + i) mod RING_BUFFER_SIZE)) [0..<?n] @
      [rb_arr r' ! ((rb_head r + ?n) mod RING_BUFFER_SIZE)]"
    using av by (simp add: rb_items_def r'_def)
  moreover have "rb_arr r' ! ((rb_head r + ?n) mod RING_BUFFER_SIZE) = x"
    using ok by (simp add: r'_def sp(2) [symmetric] rb_ok_def)
  moreover have "map (\<lambda>i. rb_arr r' ! ((rb_head r + i) mod RING_BUFFER_SIZE)) [0..<?n] = rb_items r"
    unfolding rb_items_def using nth_list_update_neq [OF other [symmetric]] by (intro map_cong) (simp_all add: r'_def)
  ultimately show ?thesis using run ok' by simp
qed

lemma read_byte_spec:
  assumes ok: "rb_ok r" and items: "rb_items r = x # xs"
  shows "\<exists>r'. read_byte r = Inr (x, r') \<and> rb_ok r' \<and> rb_items r' = xs"
proof -
  let ?n = "available_read r" and ?h = "(rb_head r + 1) mod RING_BUFFER_SIZE"
  define r' where "r' = r\<lparr> rb_head := ?h, rb_status := (if ?h = rb_tail r then Empty else Normal) \<rparr>"
  note sp = available_read_spec [OF ok]
  have n: "?n = Suc (length xs)" using length_rb_items [of r] items by simp
  have upt: "[0..<?n] = 0 # map Suc [0..<length xs]" unfolding n map_Suc_upt by (simp add: upt_conv_Cons del: upt_Suc)
  have x: "x = rb_arr r ! rb_head r" and xs: "xs = map (\<lambda>i. rb_arr r ! ((rb_head r + Suc i) mod RING_BUFFER_SIZE)) [0..<length xs]"
    using items ok unfolding rb_items_def upt by (simp_all add: rb_ok_def comp_def)
  have run: "read_byte r = Inr (x, r')"
    using ok by (simp add: read_byte_def nthR_def rb_ok_def r'_def Let_def x)
  have ok': "rb_ok r'" using ok by (simp add: rb_ok_def r'_def RING_BUFFER_SIZE_def)
  have len: "length xs \<le> RING_BUFFER_SIZE" "length xs < RING_BUFFER_SIZE" using sp(1) n by simp_all
  have tail: "rb_tail r = (?h + length xs) mod RING_BUFFER_SIZE"
    unfolding sp(2) n by (simp add: mod_simps)
  have "?h < RING_BUFFER_SIZE" by (simp add: RING_BUFFER_SIZE_def)
  then have "?h = rb_tail r \<longleftrightarrow> length xs = 0"
    using tail len ring_mod [of ?h "length xs"] by (auto split: if_splits)
  then have av: "available_read r' = length xs"
    using len tail by (intro available_read_eq [OF ok']) (simp_all add: r'_def)
  have "rb_items r' = xs"
    unfolding rb_items_def av by (subst (2) xs) (simp add: r'_def mod_simps)
  then show ?thesis using run ok' by simp
qed

interpretation rb: bounded_queue write_byte read_byte rb_items rb_ok RING_BUFFER_SIZE
proof (unfold_locales, goal_cases)
  case (1 r x)
  then show ?case using write_byte_spec [of r x] by (simp add: length_rb_items)
next
  case (2 r x xs)
  then show ?case by (rule read_byte_spec)
next
  case (3 r)
  then show ?case using available_read_spec(1) [of r] by (simp add: length_rb_items)
qed

section \<open>Turns\<close>

definition rd_ok :: "Reader \<Rightarrow> bool" where
  "rd_ok b \<longleftrightarrow> rd_next b = rd_already b \<and> rd_already b \<le> length (rd_buf b)"

definition wr_ok :: "Writer \<Rightarrow> bool" where
  "wr_ok b \<longleftrightarrow> wr_next b = wr_already b \<and> wr_already b \<le> length (wr_buf b)"

text \<open>The reader after \<open>k\<close> more bytes.\<close>

definition rd_fill :: "nat \<Rightarrow> u8 list \<Rightarrow> Reader \<Rightarrow> Reader" where
  "rd_fill k xs b = b\<lparr> rd_buf := take (rd_next b) (rd_buf b) @ take k xs @ drop (rd_next b + k) (rd_buf b),
     rd_next := rd_next b + k, rd_already := rd_already b + k \<rparr>"

lemma rd_fill_0: "rd_fill 0 xs b = b"
  by (simp add: rd_fill_def)

lemma rd_fill_Suc:
  assumes "rd_next b < length (rd_buf b)"
  shows "rd_fill k xs (b\<lparr> rd_buf := (rd_buf b)[rd_next b := c], rd_next := Suc (rd_next b),
      rd_already := Suc (rd_already b) \<rparr>) = rd_fill (Suc k) (c # xs) b"
  using assms by (simp add: rd_fill_def take_Suc_conv_app_nth list_update_append)

lemma byte_ends:
  "write_byte x r = Inr r' \<Longrightarrow> rb_write_end r' = rb_write_end r \<and> rb_read_end r' = rb_read_end r"
  "read_byte r = Inr (c, r') \<Longrightarrow> rb_write_end r' = rb_write_end r \<and> rb_read_end r' = rb_read_end r"
  by (auto simp: write_byte_def read_byte_def Let_def bindR_eq_Inr split: if_splits)

lemma read_for_spec:
  assumes "rb_ok r" "n \<le> length (rb_items r)" "rd_ok b"
  shows "\<exists>r'. read_for n r b =
      Inr (if n \<noteq> 0 \<and> length (rd_buf b) - rd_next b \<le> n then Return (length (rd_buf b)) else Again, r',
        rd_fill (min n (length (rd_buf b) - rd_next b)) (rb_items r) b) \<and>
    rb_ok r' \<and> rb_items r' = drop (min n (length (rd_buf b) - rd_next b)) (rb_items r) \<and>
    rb_write_end r' = rb_write_end r \<and> rb_read_end r' = rb_read_end r"
  using assms
proof (induction n arbitrary: r b)
  case 0
  then show ?case by (simp add: rd_fill_0)
next
  case (Suc n)
  show ?case
  proof (cases "rd_next b < length (rd_buf b)")
    case False
    then show ?thesis using Suc.prems by (auto simp: rd_fill_0 rd_ok_def)
  next
    case True
    obtain x xs where xs: "rb_items r = x # xs" using Suc.prems(2) by (cases "rb_items r") auto
    obtain r1 where r1: "read_byte r = Inr (x, r1)" "rb_ok r1" "rb_items r1 = xs"
      using rb.deq_cons [OF Suc.prems(1) xs] by blast
    note e1 = byte_ends(2) [OF r1(1)]
    let ?b = "b\<lparr> rd_buf := (rd_buf b)[rd_next b := x], rd_next := Suc (rd_next b),
      rd_already := Suc (rd_already b) \<rparr>"
    have eq: "rd_next b = rd_already b" using Suc.prems(3) by (simp add: rd_ok_def)
    have b: "rd_ok ?b" using Suc.prems(3) True by (simp add: rd_ok_def)
    have fill: "rd_fill k xs ?b = rd_fill (Suc k) (x # xs) b" for k by (rule rd_fill_Suc [OF True])
    show ?thesis
    proof (cases "Suc (rd_already b) = length (rd_buf b)")
      case last: True
      then have "min (Suc n) (length (rd_buf b) - rd_next b) = Suc 0" using eq by simp
      then show ?thesis
        using True r1 e1 xs last eq fill [of 0] by (simp add: rd_fill_0)
    next
      case more: False
      obtain r' where r': "read_for n r1 ?b =
          Inr (if n \<noteq> 0 \<and> length (rd_buf ?b) - rd_next ?b \<le> n then Return (length (rd_buf ?b)) else Again, r',
            rd_fill (min n (length (rd_buf ?b) - rd_next ?b)) (rb_items r1) ?b)"
        "rb_ok r'" "rb_items r' = drop (min n (length (rd_buf ?b) - rd_next ?b)) (rb_items r1)"
        "rb_write_end r' = rb_write_end r1" "rb_read_end r' = rb_read_end r1"
        using Suc.IH [OF r1(2) _ b] Suc.prems(2) xs r1(3) by auto
      have m: "min (Suc n) (length (rd_buf b) - rd_next b) = Suc (min n (length (rd_buf b) - Suc (rd_next b)))"
        using True by simp
      have c: "Suc n \<noteq> 0 \<and> length (rd_buf b) - rd_next b \<le> Suc n \<longleftrightarrow> n \<noteq> 0 \<and> length (rd_buf b) - Suc (rd_next b) \<le> n"
        using more eq True by auto
      show ?thesis
        using r' e1 r1(1,3) True more xs fill unfolding c m by (simp add: Let_def)
    qed
  qed
qed

lemma write_for_spec:
  assumes "rb_ok r" "length (rb_items r) + n \<le> RING_BUFFER_SIZE" "wr_ok b"
  shows "\<exists>r'. write_for n r b =
      Inr (if n \<noteq> 0 \<and> length (wr_buf b) - wr_next b \<le> n then Return (length (wr_buf b)) else Again, r',
        b\<lparr> wr_next := wr_next b + min n (length (wr_buf b) - wr_next b),
           wr_already := wr_already b + min n (length (wr_buf b) - wr_next b) \<rparr>) \<and>
    rb_ok r' \<and> rb_items r' = rb_items r @ take n (drop (wr_next b) (wr_buf b)) \<and>
    rb_write_end r' = rb_write_end r \<and> rb_read_end r' = rb_read_end r"
  using assms
proof (induction n arbitrary: r b)
  case 0
  then show ?case by simp
next
  case (Suc n)
  show ?case
  proof (cases "wr_next b < length (wr_buf b)")
    case False
    then show ?thesis using Suc.prems by (auto simp: wr_ok_def)
  next
    case True
    let ?x = "wr_buf b ! wr_next b"
    obtain r1 where r1: "write_byte ?x r = Inr r1" "rb_ok r1" "rb_items r1 = rb_items r @ [?x]"
      using rb.enq_room [OF Suc.prems(1), of ?x] Suc.prems(2) by auto
    note e1 = byte_ends(1) [OF r1(1)]
    let ?b = "b\<lparr> wr_next := Suc (wr_next b), wr_already := Suc (wr_already b) \<rparr>"
    have eq: "wr_next b = wr_already b" using Suc.prems(3) by (simp add: wr_ok_def)
    have b: "wr_ok ?b" using Suc.prems(3) True by (simp add: wr_ok_def)
    have tk: "take (Suc n) (drop (wr_next b) (wr_buf b)) = ?x # take n (drop (Suc (wr_next b)) (wr_buf b))"
      using True by (simp add: Cons_nth_drop_Suc [symmetric])
    show ?thesis
    proof (cases "Suc (wr_already b) = length (wr_buf b)")
      case last: True
      then have "min (Suc n) (length (wr_buf b) - wr_next b) = Suc 0" "drop (Suc (wr_next b)) (wr_buf b) = []"
        using eq by simp_all
      then show ?thesis
        using True r1 e1 last eq tk by simp
    next
      case more: False
      obtain r' where r': "write_for n r1 ?b =
          Inr (if n \<noteq> 0 \<and> length (wr_buf ?b) - wr_next ?b \<le> n then Return (length (wr_buf ?b)) else Again, r',
            ?b\<lparr> wr_next := wr_next ?b + min n (length (wr_buf ?b) - wr_next ?b),
              wr_already := wr_already ?b + min n (length (wr_buf ?b) - wr_next ?b) \<rparr>)"
        "rb_ok r'" "rb_items r' = rb_items r1 @ take n (drop (wr_next ?b) (wr_buf ?b))"
        "rb_write_end r' = rb_write_end r1" "rb_read_end r' = rb_read_end r1"
        using Suc.IH [OF r1(2) _ b] Suc.prems(2) r1(3) by auto
      have m: "min (Suc n) (length (wr_buf b) - wr_next b) = Suc (min n (length (wr_buf b) - Suc (wr_next b)))"
        using True by simp
      have c: "Suc n \<noteq> 0 \<and> length (wr_buf b) - wr_next b \<le> Suc n \<longleftrightarrow> n \<noteq> 0 \<and> length (wr_buf b) - Suc (wr_next b) \<le> n"
        using more eq True by auto
      show ?thesis
        using r' e1 r1(1,3) True more tk unfolding c m by (simp add: Let_def)
    qed
  qed
qed

definition pipe_ok :: "PipeWorld \<Rightarrow> bool" where
  "pipe_ok w \<longleftrightarrow> rb_ok (pw_ring w) \<and> rb_write_end (pw_ring w) = Some Write_end \<and> rb_read_end (pw_ring w) = None"

abbreviation pipe_items :: "PipeWorld \<Rightarrow> u8 list" where
  "pipe_items w \<equiv> rb_items (pw_ring w)"

lemma make_pipe_ok:
  assumes "make_pipe = (r, wr, w)"
  shows "pipe_ok w" "pipe_items w = []" "p_readable r" "\<not> p_readable wr"
  using assms
  by (auto simp: make_pipe_def pipe_ok_def set_write_end_def PipeRingBuffer_new_def rb_ok_def rb_items_def
      available_read_def read_end_with_buffer_def write_end_with_buffer_def RING_BUFFER_SIZE_def)

lemma read_turn_spec:
  assumes w: "pipe_ok w" and b: "rd_ok b"
  defines "k \<equiv> min (length (pipe_items w)) (length (rd_buf b) - rd_next b)"
  shows "\<exists>w'. read_turn w b =
      Inr (if pipe_items w = [] then (if pw_strong w Write_end = 0 then Return (rd_already b) else Wait)
           else if length (rd_buf b) - rd_next b \<le> length (pipe_items w) then Return (length (rd_buf b)) else Again,
         w', rd_fill k (pipe_items w) b) \<and>
    pipe_ok w' \<and> pipe_items w' = drop k (pipe_items w) \<and> pw_strong w' = pw_strong w"
proof (cases "pipe_items w = []")
  case True
  then have "available_read (pw_ring w) = 0" by (simp add: length_rb_items [symmetric])
  then show ?thesis
    using True w by (simp add: read_turn_def all_write_ends_closed_def pipe_ok_def k_def rd_fill_0)
next
  case False
  have rb: "rb_ok (pw_ring w)" using w by (simp add: pipe_ok_def)
  obtain r' where r': "read_for (length (pipe_items w)) (pw_ring w) b =
      Inr (if length (pipe_items w) \<noteq> 0 \<and> length (rd_buf b) - rd_next b \<le> length (pipe_items w)
           then Return (length (rd_buf b)) else Again, r', rd_fill k (pipe_items w) b)"
    "rb_ok r'" "rb_items r' = drop k (pipe_items w)"
    "rb_write_end r' = rb_write_end (pw_ring w)" "rb_read_end r' = rb_read_end (pw_ring w)"
    using read_for_spec [OF rb order.refl b] unfolding k_def by blast
  then show ?thesis
    using False w by (simp add: read_turn_def pipe_ok_def length_rb_items [symmetric])
qed

lemma write_turn_spec:
  assumes w: "pipe_ok w" and b: "wr_ok b"
  defines "n \<equiv> RING_BUFFER_SIZE - length (pipe_items w)"
  defines "k \<equiv> min n (length (wr_buf b) - wr_next b)"
  shows "\<exists>w'. write_turn w b =
      Inr (if n = 0 then Wait
           else if length (wr_buf b) - wr_next b \<le> n then Return (length (wr_buf b)) else Again,
         w', b\<lparr> wr_next := wr_next b + k, wr_already := wr_already b + k \<rparr>) \<and>
    pipe_ok w' \<and> pipe_items w' = pipe_items w @ take k (drop (wr_next b) (wr_buf b)) \<and> pw_strong w' = pw_strong w"
proof -
  have rb: "rb_ok (pw_ring w)" using w by (simp add: pipe_ok_def)
  have av: "available_write (pw_ring w) = n" unfolding n_def by (rule available_write_eq [OF rb])
  have tk: "take n (drop (wr_next b) (wr_buf b)) = take k (drop (wr_next b) (wr_buf b))"
    by (simp add: k_def min_def)
  show ?thesis
  proof (cases "n = 0")
    case True
    then show ?thesis using w av by (simp add: write_turn_def k_def)
  next
    case False
    have "length (pipe_items w) + n \<le> RING_BUFFER_SIZE" using rb.within [OF rb] by (simp add: n_def)
    then obtain r' where r': "write_for n (pw_ring w) b =
        Inr (if n \<noteq> 0 \<and> length (wr_buf b) - wr_next b \<le> n then Return (length (wr_buf b)) else Again, r',
          b\<lparr> wr_next := wr_next b + k, wr_already := wr_already b + k \<rparr>)"
      "rb_ok r'" "rb_items r' = pipe_items w @ take n (drop (wr_next b) (wr_buf b))"
      "rb_write_end r' = rb_write_end (pw_ring w)" "rb_read_end r' = rb_read_end (pw_ring w)"
      using write_for_spec [OF rb _ b] unfolding k_def by blast
    then show ?thesis using False w av tk by (simp add: write_turn_def pipe_ok_def)
  qed
qed

section \<open>Interleavings\<close>

text \<open>Any number of readers and writers take turns; in between the reference counts of the
  ends change as descriptors are duplicated and closed.  The ghost fields record every byte
  that a writer put in and every byte that a reader took out, in order.\<close>

record PipeSys =
  ps_world :: PipeWorld
  ps_sent :: "u8 list"
  ps_received :: "u8 list"

inductive pipe_step :: "PipeSys \<Rightarrow> PipeSys \<Rightarrow> bool" where
  reads: "\<lbrakk> rd_ok b; read_turn (ps_world p) b = Inr (t, w, b') \<rbrakk> \<Longrightarrow>
    pipe_step p (p\<lparr> ps_world := w, ps_received := ps_received p @
      take (rd_next b' - rd_next b) (drop (rd_next b) (rd_buf b')) \<rparr>)"
| writes: "\<lbrakk> wr_ok b; write_turn (ps_world p) b = Inr (t, w, b') \<rbrakk> \<Longrightarrow>
    pipe_step p (p\<lparr> ps_world := w, ps_sent := ps_sent p @
      take (wr_next b' - wr_next b) (drop (wr_next b) (wr_buf b)) \<rparr>)"
| ends: "pipe_step p (p\<lparr> ps_world := (ps_world p)\<lparr> pw_strong := c \<rparr> \<rparr>)"

inductive_cases pipe_step_cases: "pipe_step p q"

definition pipe_start :: PipeSys where
  "pipe_start = \<lparr> ps_world = snd (snd make_pipe), ps_sent = [], ps_received = [] \<rparr>"

definition pipe_sys_ok :: "PipeSys \<Rightarrow> bool" where
  "pipe_sys_ok p \<longleftrightarrow> pipe_ok (ps_world p) \<and> ps_received p @ pipe_items (ps_world p) = ps_sent p"

lemma pipe_sys_ok_step:
  assumes "pipe_step p q" "pipe_sys_ok p"
  shows "pipe_sys_ok q"
  using assms(1)
proof (cases rule: pipe_step.cases)
  case (reads b t w b')
  let ?k = "min (length (pipe_items (ps_world p))) (length (rd_buf b) - rd_next b)"
  have ok: "pipe_ok (ps_world p)" using assms(2) by (simp add: pipe_sys_ok_def)
  have w: "pipe_ok w" "pipe_items w = drop ?k (pipe_items (ps_world p))" "b' = rd_fill ?k (pipe_items (ps_world p)) b"
    using read_turn_spec [OF ok reads(2)] reads(3) by auto
  have "rd_next b \<le> length (rd_buf b)" using reads(2) by (simp add: rd_ok_def)
  then have "take (rd_next b' - rd_next b) (drop (rd_next b) (rd_buf b')) = take ?k (pipe_items (ps_world p))"
    unfolding w(3) by (simp add: rd_fill_def)
  then show ?thesis using assms(2) reads(1) w(1,2) by (simp add: pipe_sys_ok_def)
next
  case (writes b t w b')
  have ok: "pipe_ok (ps_world p)" using assms(2) by (simp add: pipe_sys_ok_def)
  show ?thesis
    using write_turn_spec [OF ok writes(2)] writes(1,3) assms(2) by (auto simp: pipe_sys_ok_def)
next
  case (ends c)
  then show ?thesis using assms(2) by (simp add: pipe_sys_ok_def pipe_ok_def)
qed

lemma pipe_start_ok: "pipe_sys_ok pipe_start"
  using make_pipe_ok [of "fst make_pipe" "fst (snd make_pipe)" "snd (snd make_pipe)"]
  by (simp add: pipe_sys_ok_def pipe_start_def)

lemma pipe_reachable_ok: "pipe_step\<^sup>*\<^sup>* pipe_start p \<Longrightarrow> pipe_sys_ok p"
  by (induction rule: rtranclp_induct) (auto intro: pipe_start_ok pipe_sys_ok_step)

text \<open>C11. A pipe is a bounded first-in first-out stream under every interleaving of its
  readers and writers: in each state that turns of any readers and writers can reach from a
  new pipe, the bytes received so far followed by the bytes in the ring are the bytes
  sent so far, at most 3200 bytes are in transit, and no turn panics.\<close>

theorem pipe_fifo:
  assumes "pipe_step\<^sup>*\<^sup>* pipe_start p"
  shows "ps_received p @ pipe_items (ps_world p) = ps_sent p \<and>
    length (pipe_items (ps_world p)) \<le> 3200 \<and>
    (\<forall>b. rd_ok b \<longrightarrow> (\<exists>y. read_turn (ps_world p) b = Inr y)) \<and>
    (\<forall>b. wr_ok b \<longrightarrow> (\<exists>y. write_turn (ps_world p) b = Inr y))"
proof -
  have ok: "pipe_sys_ok p" using pipe_reachable_ok [OF assms] .
  then have w: "pipe_ok (ps_world p)" by (simp add: pipe_sys_ok_def)
  then have "length (pipe_items (ps_world p)) \<le> 3200"
    using rb.within by (simp add: pipe_ok_def RING_BUFFER_SIZE_def)
  moreover have "\<exists>y. read_turn (ps_world p) b = Inr y" if "rd_ok b" for b
    using read_turn_spec [OF w that] by blast
  moreover have "\<exists>y. write_turn (ps_world p) b = Inr y" if "wr_ok b" for b
    using write_turn_spec [OF w that] by blast
  ultimately show ?thesis using ok by (simp add: pipe_sys_ok_def)
qed

theorem pipe_fifo_witness:
  "\<exists>p. pipe_step pipe_start p \<and> ps_sent p = [7, 8] \<and> ps_received p @ pipe_items (ps_world p) = [7, 8]"
proof -
  let ?b = "\<lparr> wr_buf = [7, 8], wr_next = 0, wr_already = 0 \<rparr>"
  have b: "wr_ok ?b" by (simp add: wr_ok_def)
  have w: "pipe_ok (ps_world pipe_start)" "pipe_items (ps_world pipe_start) = []"
    using pipe_start_ok by (simp_all add: pipe_sys_ok_def pipe_start_def)
  obtain w' where t: "write_turn (ps_world pipe_start) ?b = Inr (Return 2, w', ?b\<lparr> wr_next := 2, wr_already := 2 \<rparr>)"
    using write_turn_spec [OF w(1) b] w(2) by (auto simp: RING_BUFFER_SIZE_def)
  have st: "pipe_step pipe_start (pipe_start\<lparr> ps_world := w', ps_sent := [7, 8] \<rparr>)"
    using pipe_step.writes [OF b t] by (simp add: pipe_start_def)
  then have "pipe_step\<^sup>*\<^sup>* pipe_start (pipe_start\<lparr> ps_world := w', ps_sent := [7, 8] \<rparr>)"
    by (rule r_into_rtranclp [of pipe_step])
  from pipe_fifo [OF this] show ?thesis
    using st by (intro exI [of _ "pipe_start\<lparr> ps_world := w', ps_sent := [7, 8] \<rparr>"]) simp
qed

text \<open>Polling the write end of a pipe for a hang-up panics: \<^verbatim>\<open>make_pipe\<close> never records the
  read end in the buffer and nothing sets it later, so \<^verbatim>\<open>all_read_ends_closed\<close> unwraps nothing
  in every reachable state; on the read end the answer is whether the writers are gone.\<close>

theorem hang_up_of_write_end_panics:
  assumes "pipe_step\<^sup>*\<^sup>* pipe_start p" "make_pipe = (r, wr, w0)"
  shows "hang_up wr (ps_world p) = Inl Unwrap_none \<and>
    hang_up r (ps_world p) = Inr (pw_strong (ps_world p) Write_end = 0)"
  using pipe_reachable_ok [OF assms(1)] make_pipe_ok(3,4) [OF assms(2)]
  by (simp add: hang_up_def pipe_sys_ok_def pipe_ok_def all_read_ends_closed_def all_write_ends_closed_def)

theorem hang_up_of_write_end_panics_witness:
  "hang_up write_end_with_buffer (snd (snd make_pipe)) = Inl Unwrap_none"
  using hang_up_of_write_end_panics [of pipe_start read_end_with_buffer write_end_with_buffer "snd (snd make_pipe)"]
  by (simp add: make_pipe_def pipe_start_def)

section \<open>Whole calls\<close>

text \<open>The turns of a read that returns without waiting.\<close>

inductive quick_read :: "PipeWorld \<Rightarrow> Reader \<Rightarrow> nat \<times> PipeWorld \<times> Reader \<Rightarrow> bool" where
  last_turn: "read_turn w b = Inr (Return n, w', b') \<Longrightarrow> quick_read w b (n, w', b')"
| more_turns: "\<lbrakk> read_turn w b = Inr (Again, w', b'); quick_read w' b' y \<rbrakk> \<Longrightarrow> quick_read w b y"

lemma quick_read_loop: "quick_read w b y \<Longrightarrow> read_loop others w b = Some (Inr y)"
  by (induction rule: quick_read.induct) (subst read_loop.simps, simp)+

lemma quick_read_closed:
  assumes w: "pipe_ok w" "pw_strong w Write_end = 0"
  shows "\<exists>w' b'. quick_read w \<lparr> rd_buf = buf, rd_next = 0, rd_already = 0 \<rparr> (min (length buf) (length (pipe_items w)), w', b') \<and>
    rd_buf b' = take (length buf) (pipe_items w) @ drop (length (pipe_items w)) buf \<and>
    pipe_ok w' \<and> pw_strong w' = pw_strong w \<and> pipe_items w' = drop (length buf) (pipe_items w)"
proof -
  let ?b = "\<lparr> rd_buf = buf, rd_next = 0, rd_already = 0 \<rparr>" and ?xs = "pipe_items w"
  let ?k = "min (length ?xs) (length (rd_buf ?b) - rd_next ?b)"
  let ?b1 = "rd_fill ?k ?xs ?b"
  have b: "rd_ok ?b" by (simp add: rd_ok_def)
  obtain w1 where t: "read_turn w ?b =
      Inr (if ?xs = [] then Return 0 else if length buf \<le> length ?xs then Return (length buf) else Again, w1, ?b1)"
    and w1: "pipe_ok w1" "pipe_items w1 = drop ?k ?xs" "pw_strong w1 = pw_strong w"
    using read_turn_spec [OF w(1) b] w(2) by auto
  have fill: "rd_buf ?b1 = take (length buf) ?xs @ drop (length ?xs) buf"
    by (simp add: rd_fill_def min_def)
  have drop: "drop ?k ?xs = drop (length buf) ?xs" by (simp add: min_def)
  show ?thesis
  proof (cases "?xs = [] \<or> length buf \<le> length ?xs")
    case True
    then have "read_turn w ?b = Inr (Return (min (length buf) (length ?xs)), w1, ?b1)" using t by auto
    from last_turn [OF this] show ?thesis using w1 fill drop by (intro exI [of _ w1] exI [of _ ?b1]) simp
  next
    case False
    have k: "?k = length ?xs" using False by simp
    have b1: "rd_ok ?b1" using False unfolding k by (simp add: rd_ok_def rd_fill_def)
    have "pipe_items w1 = []" using w1(2) k by simp
    then obtain w2 where t2: "read_turn w1 ?b1 = Inr (Return (rd_already ?b1), w2, rd_fill 0 [] ?b1)"
      and w2: "pipe_ok w2" "pipe_items w2 = []" "pw_strong w2 = pw_strong w1"
      using read_turn_spec [OF w1(1) b1] w1(3) w(2) by auto
    have "rd_already ?b1 = min (length buf) (length ?xs)" using False by (simp add: rd_fill_def)
    then have "quick_read w1 ?b1 (min (length buf) (length ?xs), w2, ?b1)" using last_turn [OF t2] by (simp add: rd_fill_0)
    moreover have "read_turn w ?b = Inr (Again, w1, ?b1)" using t False by simp
    ultimately have "quick_read w ?b (min (length buf) (length ?xs), w2, ?b1)" by (blast intro: more_turns)
    then show ?thesis using w2 w1(3) fill False by (intro exI [of _ w2] exI [of _ ?b1]) simp
  qed
qed

lemma read_loop_closed:
  assumes w: "pipe_ok w" "pw_strong w Write_end = 0"
  shows "\<exists>w'. Pipe_read others p buf w =
      Some (Inr (min (length buf) (length (pipe_items w)), w',
        take (length buf) (pipe_items w) @ drop (length (pipe_items w)) buf)) \<and>
    pipe_ok w' \<and> pw_strong w' = pw_strong w \<and> pipe_items w' = drop (length buf) (pipe_items w)"
  using quick_read_closed [OF w, of buf] by (auto simp: Pipe_read_def Pipe_readable_def dest!: quick_read_loop [of _ _ _ others])

lemma read_all_loop_closed:
  assumes "pipe_ok w" "pw_strong w Write_end = 0" "length buf = 512"
  shows "\<exists>w'. read_all_loop others p v buf w = Some (Inr (v @ pipe_items w, w')) \<and> pipe_ok w' \<and> pipe_items w' = []"
  using assms
proof (induction "length (pipe_items w)" arbitrary: w v buf rule: less_induct)
  case less
  obtain w1 where r: "Pipe_read others p buf w =
      Some (Inr (min (length buf) (length (pipe_items w)), w1,
        take (length buf) (pipe_items w) @ drop (length (pipe_items w)) buf))"
    "pipe_ok w1" "pw_strong w1 = pw_strong w" "pipe_items w1 = drop (length buf) (pipe_items w)"
    using read_loop_closed [OF less.prems(1,2)] by blast
  show ?case
  proof (cases "pipe_items w = []")
    case True
    then show ?thesis using r by (subst read_all_loop.simps) simp
  next
    case False
    let ?buf = "take (length buf) (pipe_items w) @ drop (length (pipe_items w)) buf"
    have "\<exists>w'. read_all_loop others p (v @ take (length buf) (pipe_items w)) ?buf w1 =
        Some (Inr ((v @ take (length buf) (pipe_items w)) @ pipe_items w1, w')) \<and> pipe_ok w' \<and> pipe_items w' = []"
      using False less.prems r by (intro less.hyps) (auto simp: min_def)
    moreover have "take (min (length buf) (length (pipe_items w))) ?buf = take (length buf) (pipe_items w)"
      by (simp add: min_def)
    ultimately show ?thesis
      using r(1,4) False less.prems(3) by (subst read_all_loop.simps) (auto simp: min_def)
  qed
qed

text \<open>Reading a pipe whose writers are gone always returns, whatever other tasks do: one
  \<^verbatim>\<open>read\<close> gives the oldest bytes, as many as fit, and leaves the rest; \<^verbatim>\<open>read_all\<close> gives everything
  that is left, in order, and empties the pipe.\<close>

theorem read_after_close:
  assumes "pipe_step\<^sup>*\<^sup>* pipe_start s" "pw_strong (ps_world s) Write_end = 0"
  shows "(\<exists>w'. Pipe_read others p buf (ps_world s) =
      Some (Inr (min (length buf) (length (pipe_items (ps_world s))), w',
        take (length buf) (pipe_items (ps_world s)) @ drop (length (pipe_items (ps_world s))) buf)) \<and>
      pipe_items w' = drop (length buf) (pipe_items (ps_world s))) \<and>
    (\<exists>w'. Pipe_read_all others p (ps_world s) = Some (Inr (pipe_items (ps_world s), w')) \<and> pipe_items w' = [])"
proof -
  have w: "pipe_ok (ps_world s)" using pipe_reachable_ok [OF assms(1)] by (simp add: pipe_sys_ok_def)
  show ?thesis
    using read_loop_closed [OF w assms(2)] read_all_loop_closed [OF w assms(2), of "replicate 512 0" others p "[]"]
    unfolding Pipe_read_all_def by fastforce
qed

theorem read_after_close_witness:
  "\<exists>w'. Pipe_read_all (\<lambda>w. w) read_end_with_buffer
     ((snd (snd make_pipe))\<lparr> pw_strong := (\<lambda>_. 0) \<rparr>) = Some (Inr ([], w'))"
proof -
  let ?s = "pipe_start\<lparr> ps_world := (ps_world pipe_start)\<lparr> pw_strong := (\<lambda>_. 0) \<rparr> \<rparr>"
  have "pipe_step\<^sup>*\<^sup>* pipe_start ?s" by (intro r_into_rtranclp pipe_step.ends)
  moreover have "pipe_items (ps_world pipe_start) = []" using pipe_start_ok by (simp add: pipe_sys_ok_def pipe_start_def)
  ultimately show ?thesis
    using read_after_close [of ?s "\<lambda>w. w" read_end_with_buffer "[]"] by (auto simp: pipe_start_def)
qed

definition pipe_full :: "PipeWorld \<Rightarrow> bool" where
  "pipe_full w \<longleftrightarrow> pipe_ok w \<and> length (pipe_items w) = RING_BUFFER_SIZE"

lemma write_loop_full:
  assumes "write_loop others w b = Some y" "\<forall>w. pipe_full w \<longrightarrow> pipe_full (others w)" "wr_ok b"
  shows "\<not> pipe_full w"
proof -
  let ?P = "\<lambda>others w b y. (\<forall>w. pipe_full w \<longrightarrow> pipe_full (others w)) \<longrightarrow> wr_ok b \<longrightarrow> \<not> pipe_full w"
  have "?P others w b y"
  proof (rule write_loop.raw_induct [where P = ?P, OF _ assms(1)], intro impI notI)
    fix loop others w b y
    assume IH: "\<And>others w b y. loop others w b = Some y \<Longrightarrow> ?P others w b y"
      and run: "(case write_turn w b of Inl e \<Rightarrow> Some (Inl e)
        | Inr (t, w', b') \<Rightarrow> (case t of Return n \<Rightarrow> Some (Inr (n, w', b'))
           | Again \<Rightarrow> loop others w' b' | Wait \<Rightarrow> loop others (others w') b')) = Some y"
      and a: "\<forall>w. pipe_full w \<longrightarrow> pipe_full (others w)" "wr_ok b" "pipe_full w"
    obtain w' where w': "write_turn w b = Inr (Wait, w', b)" "pipe_full w'"
      using write_turn_spec [of w b] a(2,3) by (auto simp: pipe_full_def)
    then have "loop others (others w') b = Some y" using run by simp
    then show False using IH a(1,2) w'(2) by blast
  qed
  then show ?thesis using assms(2,3) by blast
qed

text \<open>However the other tasks act, a write that returns has written the whole buffer.\<close>

lemma write_for_returns:
  assumes "write_for n r b = Inr (t, r', b')" "wr_ok b"
  shows "wr_ok b' \<and> wr_buf b' = wr_buf b \<and> (\<forall>k. t = Return k \<longrightarrow> k = length (wr_buf b))"
  using assms
proof (induction n r b rule: write_for.induct)
  case (2 n r b)
  show ?case
  proof (cases "wr_next b < length (wr_buf b)")
    case True
    then obtain r1 where r1: "write_byte (wr_buf b ! wr_next b) r = Inr r1" using 2(2) by (auto simp: outcome)
    let ?b = "b\<lparr> wr_next := wr_next b + 1, wr_already := wr_already b + 1 \<rparr>"
    have b: "wr_ok ?b" using 2(3) True by (simp add: wr_ok_def)
    show ?thesis
    proof (cases "wr_already ?b = length (wr_buf b)")
      case True
      then show ?thesis using 2(2) b \<open>wr_next b < length (wr_buf b)\<close> r1 by (auto simp: Let_def)
    next
      case False
      then have "write_for n r1 ?b = Inr (t, r', b')" using 2(2) r1 True by (simp add: Let_def)
      then show ?thesis using 2(1) [OF True r1 refl False _ b] by simp
    qed
  next
    case False
    then show ?thesis using 2(2,3) by (auto simp: wr_ok_def)
  qed
qed simp

lemma write_turn_returns:
  assumes "write_turn w b = Inr (t, w', b')" "wr_ok b"
  shows "wr_ok b' \<and> wr_buf b' = wr_buf b \<and> (\<forall>k. t = Return k \<longrightarrow> k = length (wr_buf b))"
  using assms write_for_returns [of "available_write (pw_ring w)" "pw_ring w" b t _ b']
  by (auto simp: write_turn_def Let_def outcome split: if_splits)

lemma write_loop_returns:
  assumes "write_loop others w b = Some y" "wr_ok b" "y = Inr (n, w', b')"
  shows "n = length (wr_buf b)"
proof -
  let ?P = "\<lambda>others w b y. wr_ok b \<longrightarrow> (\<forall>n w' b'. y = Inr (n, w', b') \<longrightarrow> n = length (wr_buf b))"
  have "?P others w b y"
  proof (rule write_loop.raw_induct [where P = ?P, OF _ assms(1)], intro impI allI)
    fix loop others w b y n w' b'
    assume IH: "\<And>others w b y. loop others w b = Some y \<Longrightarrow> ?P others w b y"
      and run: "(case write_turn w b of Inl e \<Rightarrow> Some (Inl e)
        | Inr (t, w', b') \<Rightarrow> (case t of Return n \<Rightarrow> Some (Inr (n, w', b'))
           | Again \<Rightarrow> loop others w' b' | Wait \<Rightarrow> loop others (others w') b')) = Some y"
      and a: "wr_ok b" "y = Inr (n, w', b')"
    obtain t w1 b1 where t: "write_turn w b = Inr (t, w1, b1)" using run a(2) by (auto split: sum.splits)
    note r = write_turn_returns [OF t a(1)]
    show "n = length (wr_buf b)"
    proof (cases t)
      case (Return k)
      then show ?thesis using run t r a(2) by simp
    next
      case Again
      then show ?thesis using run t IH [of others w1 b1 y] r a(2) by simp
    next
      case Wait
      then show ?thesis using run t IH [of others "others w1" b1 y] r a(2) by simp
    qed
  qed
  then show ?thesis using assms(2,3) by blast
qed



end
