(* ===== verification/Block_Cache.thy ===== *)
theory Block_Cache
  imports Prelude
begin

text \<open>
  The block cache, \<^verbatim>\<open>os/src/block/block_cache.rs\<close>.  The disk is a function from block numbers to
  the 512 bytes of a block; \<^verbatim>\<open>read_block\<close> and \<^verbatim>\<open>write_block\<close> of the device driver read and replace
  one of them.  The kernel has one such device, which every caller passes, and the cache finds a block
  by its number alone; so the device is not an argument here.  A driver that fails panics (\<^verbatim>\<open>Block_Dev\<close>)
  and is not considered here.  A cached block is shared through \<^verbatim>\<open>Arc\<close>; the number of strong references
  decides whether it may be evicted, so it is part of the state.
\<close>

section \<open>One cached block\<close>

definition BLOCK_SZ :: nat where "BLOCK_SZ = 512"

record BlockCache =
  bc_cache :: "u8 list"
  bc_block_id :: nat
  bc_modified :: bool

type_synonym disk = "nat \<Rightarrow> u8 list"

definition BlockCache_new :: "nat \<Rightarrow> disk \<Rightarrow> BlockCache" where
  "BlockCache_new block_id disk = \<lparr> bc_cache = disk block_id, bc_block_id = block_id, bc_modified = False \<rparr>"

definition addr_of_offset :: "nat \<Rightarrow> BlockCache \<Rightarrow> nat res" where
  "addr_of_offset offset c = (if offset < length (bc_cache c) then Inr offset else Inl Index_out_of_bounds)"

text \<open>\<^verbatim>\<open>get_ref\<close> and \<^verbatim>\<open>get_mut\<close> for a type of \<open>sz\<close> bytes: the bytes that are viewed as a value of the
  type.  \<^verbatim>\<open>modify\<close> runs its argument on the bytes, which replace the old ones.\<close>

definition get_ref :: "nat \<Rightarrow> nat \<Rightarrow> BlockCache \<Rightarrow> u8 list res" where
  "get_ref sz offset c =
     bindR (assertR (offset + sz \<le> BLOCK_SZ)) (\<lambda>_.
       bindR (addr_of_offset offset c) (\<lambda>a. Inr (take sz (drop a (bc_cache c)))))"

definition BlockCache_read :: "nat \<Rightarrow> nat \<Rightarrow> (u8 list \<Rightarrow> 'v) \<Rightarrow> BlockCache \<Rightarrow> 'v res" where
  "BlockCache_read sz offset f c = bindR (get_ref sz offset c) (\<lambda>bs. Inr (f bs))"

definition get_mut :: "nat \<Rightarrow> nat \<Rightarrow> BlockCache \<Rightarrow> (u8 list \<times> BlockCache) res" where
  "get_mut sz offset c =
     bindR (assertR (offset + sz \<le> BLOCK_SZ)) (\<lambda>_.
       bindR (addr_of_offset offset c) (\<lambda>a.
         Inr (take sz (drop a (bc_cache c)), c\<lparr> bc_modified := True \<rparr>)))"

definition BlockCache_modify ::
  "nat \<Rightarrow> nat \<Rightarrow> (u8 list \<Rightarrow> 'v \<times> u8 list) \<Rightarrow> BlockCache \<Rightarrow> ('v \<times> BlockCache) res" where
  "BlockCache_modify sz offset f c =
     bindR (get_mut sz offset c) (\<lambda>(bs, c').
       let (v, bs') = f bs in
       Inr (v, c'\<lparr> bc_cache := take offset (bc_cache c') @ bs' @ drop (offset + sz) (bc_cache c') \<rparr>))"

definition BlockCache_sync :: "BlockCache \<times> disk \<Rightarrow> BlockCache \<times> disk" where
  "BlockCache_sync = (\<lambda>(c, disk).
     if bc_modified c then (c\<lparr> bc_modified := False \<rparr>, disk(bc_block_id c := bc_cache c)) else (c, disk))"

definition BlockCache_drop :: "BlockCache \<Rightarrow> disk \<Rightarrow> disk" where
  "BlockCache_drop c disk = snd (BlockCache_sync (c, disk))"

section \<open>The cache manager\<close>

definition BLOCK_CACHE_SIZE :: nat where "BLOCK_CACHE_SIZE = 16"

record CacheSlot =
  cs_id :: nat
  cs_cache :: BlockCache
  cs_strong :: nat

record BlockState =
  bk_queue :: "CacheSlot list"
  bk_disk :: disk

definition BlockCacheManager_new :: "disk \<Rightarrow> BlockState" where
  "BlockCacheManager_new disk = \<lparr> bk_queue = [], bk_disk = disk \<rparr>"

definition evict :: "BlockState \<Rightarrow> BlockState res" where
  "evict st =
     (case find_position (\<lambda>s. cs_strong s = 1) (bk_queue st) of
        Some idx \<Rightarrow>
          Inr \<lparr> bk_queue = remove_nth idx (bk_queue st),
                bk_disk = BlockCache_drop (cs_cache (bk_queue st ! idx)) (bk_disk st) \<rparr>
      | None \<Rightarrow> Inl (Explicit_panic ''Run out of BlockCache!''))"

text \<open>The position of the cached block is returned in place of the reference to it.\<close>

definition get_block_cache :: "nat \<Rightarrow> BlockState \<Rightarrow> (nat \<times> BlockState) res" where
  "get_block_cache block_id st =
     (case find_position (\<lambda>s. cs_id s = block_id) (bk_queue st) of
        Some i \<Rightarrow>
          Inr (i, st\<lparr> bk_queue := (bk_queue st)[i := (bk_queue st ! i)\<lparr> cs_strong := cs_strong (bk_queue st ! i) + 1 \<rparr>] \<rparr>)
      | None \<Rightarrow>
          bindR (if length (bk_queue st) = BLOCK_CACHE_SIZE then evict st else Inr st) (\<lambda>st'.
            Inr (length (bk_queue st'), st'\<lparr> bk_queue := bk_queue st' @
              [\<lparr> cs_id = block_id, cs_cache = BlockCache_new block_id (bk_disk st'), cs_strong = 2 \<rparr>] \<rparr>)))"

text \<open>The reference is dropped at the end of the statement that obtained it.\<close>

definition release :: "nat \<Rightarrow> BlockState \<Rightarrow> BlockState" where
  "release i st = st\<lparr> bk_queue := (bk_queue st)[i := (bk_queue st ! i)\<lparr> cs_strong := cs_strong (bk_queue st ! i) - 1 \<rparr>] \<rparr>"

text \<open>\<^verbatim>\<open>get_block_cache(id, bdev).lock().read(offset, f)\<close> and the same with \<^verbatim>\<open>modify\<close>.\<close>

definition block_read :: "nat \<Rightarrow> nat \<Rightarrow> nat \<Rightarrow> (u8 list \<Rightarrow> 'v) \<Rightarrow> BlockState \<Rightarrow> ('v \<times> BlockState) res" where
  "block_read block_id sz offset f st =
     bindR (get_block_cache block_id st) (\<lambda>(i, st1).
       bindR (BlockCache_read sz offset f (cs_cache (bk_queue st1 ! i))) (\<lambda>v. Inr (v, release i st1)))"

definition block_modify ::
  "nat \<Rightarrow> nat \<Rightarrow> nat \<Rightarrow> (u8 list \<Rightarrow> 'v \<times> u8 list) \<Rightarrow> BlockState \<Rightarrow> ('v \<times> BlockState) res" where
  "block_modify block_id sz offset f st =
     bindR (get_block_cache block_id st) (\<lambda>(i, st1).
       bindR (BlockCache_modify sz offset f (cs_cache (bk_queue st1 ! i))) (\<lambda>(v, c).
         Inr (v, release i (st1\<lparr> bk_queue := (bk_queue st1)[i := (bk_queue st1 ! i)\<lparr> cs_cache := c \<rparr>] \<rparr>))))"

fun sync_slots :: "CacheSlot list \<Rightarrow> disk \<Rightarrow> CacheSlot list \<times> disk" where
  "sync_slots [] disk = ([], disk)"
| "sync_slots (s # ss) disk =
     (let (c, disk1) = BlockCache_sync (cs_cache s, disk); (ss', disk2) = sync_slots ss disk1
      in (s\<lparr> cs_cache := c \<rparr> # ss', disk2))"

definition block_cache_sync_all :: "BlockState \<Rightarrow> BlockState" where
  "block_cache_sync_all st =
     (let (q, d) = sync_slots (bk_queue st) (bk_disk st) in \<lparr> bk_queue = q, bk_disk = d \<rparr>)"

section \<open>The cache as a plain array of blocks\<close>

definition slot_of :: "BlockState \<Rightarrow> nat \<Rightarrow> CacheSlot option" where
  "slot_of st b = map_of (map (\<lambda>s. (cs_id s, s)) (bk_queue st)) b"

definition blk :: "BlockState \<Rightarrow> nat \<Rightarrow> u8 list" where
  "blk st b = (case slot_of st b of None \<Rightarrow> bk_disk st b | Some s \<Rightarrow> bc_cache (cs_cache s))"

definition cache_ok :: "BlockState \<Rightarrow> bool" where
  "cache_ok st \<longleftrightarrow> distinct (map cs_id (bk_queue st)) \<and> length (bk_queue st) \<le> BLOCK_CACHE_SIZE \<and>
     (\<forall>s \<in> set (bk_queue st). bc_block_id (cs_cache s) = cs_id s \<and> length (bc_cache (cs_cache s)) = BLOCK_SZ \<and>
        (\<not> bc_modified (cs_cache s) \<longrightarrow> bc_cache (cs_cache s) = bk_disk st (cs_id s))) \<and>
     (\<forall>b. length (bk_disk st b) = BLOCK_SZ)"

text \<open>No reference to a cached block is held outside the manager.\<close>

definition unheld :: "BlockState \<Rightarrow> bool" where
  "unheld st \<longleftrightarrow> (\<forall>s \<in> set (bk_queue st). cs_strong s = 1)"

lemma slot_of_iff:
  assumes "distinct (map cs_id (bk_queue st))"
  shows "slot_of st b = Some s \<longleftrightarrow> s \<in> set (bk_queue st) \<and> cs_id s = b"
proof -
  have "distinct (map fst (map (\<lambda>s. (cs_id s, s)) (bk_queue st)))" using assms by (simp add: comp_def)
  then show ?thesis by (auto simp: slot_of_def map_of_eq_Some_iff)
qed

lemma blk_cached: "\<lbrakk> distinct (map cs_id (bk_queue st)); s \<in> set (bk_queue st) \<rbrakk> \<Longrightarrow> blk st (cs_id s) = bc_cache (cs_cache s)"
  using slot_of_iff [of st "cs_id s" s] by (simp add: blk_def)

lemma blk_uncached: "b \<notin> cs_id ` set (bk_queue st) \<Longrightarrow> blk st b = bk_disk st b"
proof -
  assume "b \<notin> cs_id ` set (bk_queue st)"
  then have "slot_of st b = None" by (simp add: slot_of_def map_of_eq_None_iff image_image)
  then show ?thesis by (simp add: blk_def)
qed

lemma length_blk: "cache_ok st \<Longrightarrow> length (blk st b) = BLOCK_SZ"
  by (cases "b \<in> cs_id ` set (bk_queue st)") (auto simp: cache_ok_def blk_cached blk_uncached)

text \<open>Replacing one slot by another for the same block.\<close>

lemma slot_update:
  assumes ok: "cache_ok st" and i: "i < length (bk_queue st)"
    and s: "cs_id s = cs_id (bk_queue st ! i)" "bc_block_id (cs_cache s) = cs_id s"
      "length (bc_cache (cs_cache s)) = BLOCK_SZ"
      "bc_modified (cs_cache s) \<or> bc_cache (cs_cache s) = bk_disk st (cs_id s)"
  shows "cache_ok (st\<lparr> bk_queue := (bk_queue st)[i := s] \<rparr>)"
    "blk (st\<lparr> bk_queue := (bk_queue st)[i := s] \<rparr>) = (blk st)(cs_id s := bc_cache (cs_cache s))"
proof -
  let ?q = "bk_queue st" and ?st = "st\<lparr> bk_queue := (bk_queue st)[i := s] \<rparr>"
  have ids: "map cs_id (?q[i := s]) = map cs_id ?q"
    using i s(1) by (simp add: map_update list_update_same_conv)
  have d: "distinct (map cs_id ?q)" using ok by (simp add: cache_ok_def)
  have set: "set (?q[i := s]) = insert s (set ?q - {?q ! i})"
    using d i by (simp add: set_update_distinct distinct_map)
  show ok': "cache_ok ?st"
    using ok s(2-4) by (auto simp: cache_ok_def ids set)
  show "blk ?st = (blk st)(cs_id s := bc_cache (cs_cache s))"
  proof
    fix b
    have d': "distinct (map cs_id (bk_queue ?st))" using d ids by simp
    consider "b = cs_id s" | "b \<noteq> cs_id s" "b \<in> cs_id ` set ?q" | "b \<notin> cs_id ` set ?q" by blast
    then show "blk ?st b = ((blk st)(cs_id s := bc_cache (cs_cache s))) b"
    proof cases
      case 1
      then show ?thesis using blk_cached [OF d', of s] set by simp
    next
      case 2
      then obtain t where t: "t \<in> set ?q" "cs_id t = b" by auto
      then have "t \<in> set (bk_queue ?st)" using 2(1) s(1) set by auto
      then show ?thesis using blk_cached [OF d', of t] blk_cached [OF d t(1)] t(2) 2(1) by simp
    next
      case 3
      moreover have "cs_id ` set (bk_queue ?st) = cs_id ` set ?q"
        using arg_cong [OF ids, of set] by simp
      moreover have "b \<noteq> cs_id s" using 3 s(1) i by auto
      ultimately show ?thesis by (simp add: blk_uncached)
    qed
  qed
qed

lemma distinct_take_drop_Suc: "distinct xs \<Longrightarrow> distinct (take i xs @ drop (Suc i) xs)"
proof -
  assume d: "distinct xs"
  have "set (take i xs) \<inter> set (drop (Suc i) xs) = {}" by (rule set_take_disj_set_drop_if_distinct [OF d]) simp
  then show ?thesis using d by simp
qed

lemma evict_spec:
  assumes ok: "cache_ok st" and un: "unheld st" and full: "length (bk_queue st) = BLOCK_CACHE_SIZE"
  shows "\<exists>st'. evict st = Inr st' \<and> cache_ok st' \<and> unheld st' \<and> blk st' = blk st \<and>
    length (bk_queue st') < BLOCK_CACHE_SIZE \<and> set (bk_queue st') \<subseteq> set (bk_queue st)"
proof -
  let ?q = "bk_queue st"
  have ne: "?q \<noteq> []" using full by (auto simp: BLOCK_CACHE_SIZE_def)
  then have "find_position (\<lambda>s. cs_strong s = 1) ?q \<noteq> None"
    using un by (auto simp: find_position_None unheld_def)
  then obtain idx where f: "find_position (\<lambda>s. cs_strong s = 1) ?q = Some idx" by blast
  then have idx: "idx < length ?q" by (simp add: find_position_Some)
  let ?s = "?q ! idx" and ?q' = "remove_nth idx ?q"
  define st' where "st' = \<lparr> bk_queue = ?q', bk_disk = BlockCache_drop (cs_cache ?s) (bk_disk st) \<rparr>"
  have d: "distinct (map cs_id ?q)" using ok by (simp add: cache_ok_def)
  then have dq: "distinct ?q" by (simp add: distinct_map)
  have set: "set ?q' = set ?q - {?s}" using set_remove_nth [OF dq idx] .
  have mem: "?s \<in> set ?q" using idx by simp
  have s: "bc_block_id (cs_cache ?s) = cs_id ?s" "length (bc_cache (cs_cache ?s)) = BLOCK_SZ"
    "\<not> bc_modified (cs_cache ?s) \<Longrightarrow> bc_cache (cs_cache ?s) = bk_disk st (cs_id ?s)"
    using ok mem by (simp_all add: cache_ok_def)
  have disk: "bk_disk st' = (bk_disk st)(cs_id ?s := bc_cache (cs_cache ?s))"
    using s by (auto simp: st'_def BlockCache_drop_def BlockCache_sync_def)
  have "distinct ?q'" unfolding remove_nth_def by (rule distinct_take_drop_Suc [OF dq])
  moreover have "inj_on cs_id (set ?q')" using d set by (auto simp: distinct_map inj_on_def)
  ultimately have d': "distinct (map cs_id ?q')" by (simp add: distinct_map)
  have other: "cs_id t \<noteq> cs_id ?s" if "t \<in> set ?q'" for t
    using that set mem d by (auto simp: distinct_map inj_on_def)
  have ok': "cache_ok st'"
    using ok d' idx other set s(2) by (auto simp: cache_ok_def disk, auto simp: st'_def length_remove_nth)
  have "blk st' = blk st"
  proof
    fix b
    show "blk st' b = blk st b"
    proof (cases "b \<in> cs_id ` set ?q'")
      case True
      then obtain t where t: "t \<in> set ?q'" "cs_id t = b" by auto
      then have "t \<in> set ?q" using set by simp
      then show ?thesis
        using blk_cached [of st' t] blk_cached [OF d, of t] d' t by (simp add: st'_def)
    next
      case False
      then have "blk st' b = bk_disk st' b" by (simp add: blk_uncached st'_def)
      also have "\<dots> = blk st b"
      proof (cases "b = cs_id ?s")
        case True
        then show ?thesis using blk_cached [OF d mem] by (simp add: disk)
      next
        case no: False
        then have "b \<notin> cs_id ` set ?q" using False set by auto
        then show ?thesis using no by (simp add: disk blk_uncached)
      qed
      finally show ?thesis .
    qed
  qed
  moreover have "evict st = Inr st'" using f by (simp add: evict_def st'_def)
  moreover have "unheld st'" using un set by (auto simp: unheld_def st'_def)
  moreover have "length (bk_queue st') < BLOCK_CACHE_SIZE"
    using idx full by (simp add: st'_def length_remove_nth)
  ultimately show ?thesis using ok' set by (auto simp: st'_def)
qed

section \<open>Access to a block\<close>

text \<open>While a block is held, its slot has two references and every other slot one.\<close>

definition held :: "nat \<Rightarrow> nat \<Rightarrow> BlockState \<Rightarrow> bool" where
  "held b i st \<longleftrightarrow> i < length (bk_queue st) \<and> cs_id (bk_queue st ! i) = b \<and> cs_strong (bk_queue st ! i) = 2 \<and>
     (\<forall>j < length (bk_queue st). j \<noteq> i \<longrightarrow> cs_strong (bk_queue st ! j) = 1)"

text \<open>Counting a reference changes no block.\<close>

lemma slot_strong:
  assumes ok: "cache_ok st" and i: "i < length (bk_queue st)"
  shows "cache_ok (st\<lparr> bk_queue := (bk_queue st)[i := (bk_queue st ! i)\<lparr> cs_strong := k \<rparr>] \<rparr>)"
    "blk (st\<lparr> bk_queue := (bk_queue st)[i := (bk_queue st ! i)\<lparr> cs_strong := k \<rparr>] \<rparr>) = blk st"
proof -
  let ?s = "(bk_queue st ! i)\<lparr> cs_strong := k \<rparr>"
  have mem: "bk_queue st ! i \<in> set (bk_queue st)" using i by simp
  then have s: "cs_id ?s = cs_id (bk_queue st ! i)" "bc_block_id (cs_cache ?s) = cs_id ?s"
    "length (bc_cache (cs_cache ?s)) = BLOCK_SZ" "bc_modified (cs_cache ?s) \<or> bc_cache (cs_cache ?s) = bk_disk st (cs_id ?s)"
    using ok by (auto simp: cache_ok_def)
  have "distinct (map cs_id (bk_queue st))" using ok by (simp add: cache_ok_def)
  from blk_cached [OF this mem] have "(blk st)(cs_id ?s := bc_cache (cs_cache ?s)) = blk st" by (intro ext) simp
  then show "cache_ok (st\<lparr> bk_queue := (bk_queue st)[i := ?s] \<rparr>)"
    "blk (st\<lparr> bk_queue := (bk_queue st)[i := ?s] \<rparr>) = blk st"
    using slot_update [OF ok i s] by simp_all
qed

lemma push_block:
  assumes ok: "cache_ok st" and un: "unheld st" and new: "b \<notin> cs_id ` set (bk_queue st)"
    and room: "length (bk_queue st) < BLOCK_CACHE_SIZE"
  defines "st' \<equiv> st\<lparr> bk_queue := bk_queue st @
    [\<lparr> cs_id = b, cs_cache = BlockCache_new b (bk_disk st), cs_strong = 2 \<rparr>] \<rparr>"
  shows "cache_ok st'" "held b (length (bk_queue st)) st'" "blk st' = blk st"
proof -
  show ok': "cache_ok st'"
    using ok new room by (auto simp: cache_ok_def st'_def BlockCache_new_def)
  show "held b (length (bk_queue st)) st'"
    using un by (auto simp: held_def st'_def unheld_def nth_append)
  have d: "distinct (map cs_id (bk_queue st'))" "distinct (map cs_id (bk_queue st))"
    using ok ok' by (simp_all add: cache_ok_def)
  show "blk st' = blk st"
  proof
    fix c
    show "blk st' c = blk st c"
    proof (cases "c \<in> cs_id ` set (bk_queue st)")
      case True
      then obtain s where s: "s \<in> set (bk_queue st)" "cs_id s = c" by auto
      then show ?thesis using blk_cached [OF d(1), of s] blk_cached [OF d(2) s(1)] by (simp add: st'_def)
    next
      case False
      then show ?thesis
        using blk_cached [OF d(1), of "\<lparr> cs_id = b, cs_cache = BlockCache_new b (bk_disk st), cs_strong = 2 \<rparr>"]
          blk_uncached [of c st] blk_uncached [of c st']
        by (cases "c = b") (simp_all add: st'_def BlockCache_new_def)
    qed
  qed
qed

lemma get_block_cache_spec:
  assumes ok: "cache_ok st" and un: "unheld st"
  shows "\<exists>i st1. get_block_cache b st = Inr (i, st1) \<and> cache_ok st1 \<and> held b i st1 \<and> blk st1 = blk st"
proof (cases "find_position (\<lambda>s. cs_id s = b) (bk_queue st)")
  case (Some i)
  then have i: "i < length (bk_queue st)" "cs_id (bk_queue st ! i) = b" by (simp_all add: find_position_Some)
  let ?s = "(bk_queue st ! i)\<lparr> cs_strong := cs_strong (bk_queue st ! i) + 1 \<rparr>"
  have mem: "bk_queue st ! i \<in> set (bk_queue st)" using i by simp
  note slot_strong [OF ok i(1), of "cs_strong (bk_queue st ! i) + 1"]
  moreover have "held b i (st\<lparr> bk_queue := (bk_queue st)[i := ?s] \<rparr>)"
    using i un mem by (simp add: held_def unheld_def)
  ultimately show ?thesis using Some by (simp add: get_block_cache_def)
next
  case None
  then have new: "b \<notin> cs_id ` set (bk_queue st)" by (auto simp: find_position_None)
  show ?thesis
  proof (cases "length (bk_queue st) = BLOCK_CACHE_SIZE")
    case True
    then obtain st' where e: "evict st = Inr st'" "cache_ok st'" "unheld st'" "blk st' = blk st"
      "length (bk_queue st') < BLOCK_CACHE_SIZE" "set (bk_queue st') \<subseteq> set (bk_queue st)"
      using evict_spec [OF ok un] by blast
    have "b \<notin> cs_id ` set (bk_queue st')" using new e(6) by blast
    from push_block [OF e(2,3) this e(5)] show ?thesis
      using None True e by (simp add: get_block_cache_def)
  next
    case False
    then have "length (bk_queue st) < BLOCK_CACHE_SIZE" using ok by (simp add: cache_ok_def)
    from push_block [OF ok un new this] show ?thesis
      using None False by (simp add: get_block_cache_def)
  qed
qed

lemma release_spec:
  assumes ok: "cache_ok st" and h: "held b i st"
  shows "cache_ok (release i st)" "unheld (release i st)" "blk (release i st) = blk st"
proof -
  have i: "i < length (bk_queue st)" "cs_id (bk_queue st ! i) = b" using h by (simp_all add: held_def)
  let ?s = "(bk_queue st ! i)\<lparr> cs_strong := cs_strong (bk_queue st ! i) - 1 \<rparr>"
  show "cache_ok (release i st)" "blk (release i st) = blk st"
    using slot_strong [OF ok i(1)] by (simp_all add: release_def)
  have "cs_strong (((bk_queue st)[i := ?s]) ! j) = 1" if "j < length (bk_queue st)" for j
    using that h by (cases "j = i") (simp_all add: held_def)
  then show "unheld (release i st)"
    by (auto simp: unheld_def release_def in_set_conv_nth)
qed

lemma block_read_spec:
  assumes ok: "cache_ok st" "unheld st" and off: "off + n \<le> BLOCK_SZ" "off < BLOCK_SZ"
  shows "\<exists>st'. block_read b n off f st = Inr (f (take n (drop off (blk st b))), st') \<and>
    cache_ok st' \<and> unheld st' \<and> blk st' = blk st"
proof -
  obtain i st1 where g: "get_block_cache b st = Inr (i, st1)" "cache_ok st1" "held b i st1" "blk st1 = blk st"
    using get_block_cache_spec [OF ok] by blast
  have i: "i < length (bk_queue st1)" "cs_id (bk_queue st1 ! i) = b" using g(3) by (simp_all add: held_def)
  have d: "distinct (map cs_id (bk_queue st1))" using g(2) by (simp add: cache_ok_def)
  have c: "bc_cache (cs_cache (bk_queue st1 ! i)) = blk st b"
    using blk_cached [OF d, of "bk_queue st1 ! i"] i g(4) by simp
  have "BlockCache_read n off f (cs_cache (bk_queue st1 ! i)) = Inr (f (take n (drop off (blk st b))))"
    using off length_blk [OF ok(1), of b] by (simp add: BlockCache_read_def get_ref_def addr_of_offset_def c)
  then show ?thesis
    using g(1,4) release_spec [OF g(2,3)] by (simp add: block_read_def)
qed

definition splice :: "nat \<Rightarrow> 'a list \<Rightarrow> 'a list \<Rightarrow> 'a list" where
  "splice off new old = take off old @ new @ drop (off + length new) old"

lemma block_modify_spec:
  assumes ok: "cache_ok st" "unheld st" and off: "off + n \<le> BLOCK_SZ" "off < BLOCK_SZ"
    and f: "f (take n (drop off (blk st b))) = (v, bs)" "length bs = n"
  shows "\<exists>st'. block_modify b n off f st = Inr (v, st') \<and> cache_ok st' \<and> unheld st' \<and>
    blk st' = (blk st)(b := splice off bs (blk st b))"
proof -
  obtain i st1 where g: "get_block_cache b st = Inr (i, st1)" "cache_ok st1" "held b i st1" "blk st1 = blk st"
    using get_block_cache_spec [OF ok] by blast
  have i: "i < length (bk_queue st1)" "cs_id (bk_queue st1 ! i) = b" using g(3) by (simp_all add: held_def)
  have d: "distinct (map cs_id (bk_queue st1))" using g(2) by (simp add: cache_ok_def)
  let ?s = "bk_queue st1 ! i"
  have mem: "?s \<in> set (bk_queue st1)" using i by simp
  have c: "bc_cache (cs_cache ?s) = blk st b" using blk_cached [OF d mem] i g(4) by simp
  define c' where "c' = (cs_cache ?s)\<lparr> bc_modified := True, bc_cache := splice off bs (blk st b) \<rparr>"
  have run: "BlockCache_modify n off f (cs_cache ?s) = Inr (v, c')"
    using off f length_blk [OF ok(1), of b]
    by (simp add: BlockCache_modify_def get_mut_def addr_of_offset_def c c'_def splice_def)
  have len: "length (splice off bs (blk st b)) = BLOCK_SZ"
    using off f(2) length_blk [OF ok(1), of b] by (simp add: splice_def)
  let ?st = "st1\<lparr> bk_queue := (bk_queue st1)[i := ?s\<lparr> cs_cache := c' \<rparr>] \<rparr>"
  have u: "cache_ok ?st" "blk ?st = (blk st1)(b := splice off bs (blk st b))"
    using slot_update [OF g(2) i(1), of "?s\<lparr> cs_cache := c' \<rparr>"] g(2) mem len i(2)
    by (simp_all add: c'_def cache_ok_def)
  have "held b i ?st" using g(3) i by (simp add: held_def)
  from release_spec [OF u(1) this] show ?thesis
    using g(1,4) run u(2) by (simp add: block_modify_def)
qed

section \<open>The interface of block storage\<close>

text \<open>What a file system relies on: a block holds what was last written to it.\<close>

locale block_store =
  fixes read_at :: "nat \<Rightarrow> nat \<Rightarrow> nat \<Rightarrow> (u8 list \<Rightarrow> 'v) \<Rightarrow> 's \<Rightarrow> ('v \<times> 's) res"
    and modify_at :: "nat \<Rightarrow> nat \<Rightarrow> nat \<Rightarrow> (u8 list \<Rightarrow> 'w \<times> u8 list) \<Rightarrow> 's \<Rightarrow> ('w \<times> 's) res"
    and view :: "'s \<Rightarrow> nat \<Rightarrow> u8 list"
    and ok :: "'s \<Rightarrow> bool"
  assumes view_len: "ok s \<Longrightarrow> length (view s b) = BLOCK_SZ"
    and read_ok: "\<lbrakk> ok s; off + n \<le> BLOCK_SZ; off < BLOCK_SZ \<rbrakk> \<Longrightarrow>
        \<exists>s'. read_at b n off f s = Inr (f (take n (drop off (view s b))), s') \<and> ok s' \<and> view s' = view s"
    and modify_ok: "\<lbrakk> ok s; off + n \<le> BLOCK_SZ; off < BLOCK_SZ; g (take n (drop off (view s b))) = (w, bs); length bs = n \<rbrakk> \<Longrightarrow>
        \<exists>s'. modify_at b n off g s = Inr (w, s') \<and> ok s' \<and> view s' = (view s)(b := splice off bs (view s b))"
begin

lemma read_after_modify:
  assumes "ok s" "off + n \<le> BLOCK_SZ" "off < BLOCK_SZ" "length bs = n"
  shows "\<exists>s1 s2. modify_at b n off (\<lambda>_. (w, bs)) s = Inr (w, s1) \<and> read_at b n off f s1 = Inr (f bs, s2)"
proof -
  obtain s1 where m: "modify_at b n off (\<lambda>_. (w, bs)) s = Inr (w, s1)" "ok s1"
    "view s1 = (view s)(b := splice off bs (view s b))"
    using modify_ok [OF assms(1-3), of "\<lambda>_. (w, bs)" b w bs] assms(4) by auto
  have "take n (drop off (view s1 b)) = bs"
    using m(3) view_len [OF assms(1), of b] assms(2,4) by (simp add: splice_def)
  then show ?thesis using read_ok [OF m(2) assms(2,3), of b f] m(1) by auto
qed

end

definition blocks_ok :: "BlockState \<Rightarrow> bool" where
  "blocks_ok st \<longleftrightarrow> cache_ok st \<and> unheld st"

interpretation bs: block_store block_read block_modify blk blocks_ok
proof (unfold_locales, goal_cases)
  case (1 s b)
  then show ?case by (simp add: blocks_ok_def length_blk)
next
  case (2 s off n b f)
  then show ?case using block_read_spec [of s off n b f] by (simp add: blocks_ok_def)
next
  case (3 s off n g b w bs)
  then show ?case using block_modify_spec [of s off n g b w bs] by (simp add: blocks_ok_def)
qed

section \<open>Writing back\<close>

lemma sync_slots_spec:
  assumes "distinct (map cs_id q)" "\<forall>s \<in> set q. bc_block_id (cs_cache s) = cs_id s"
    "\<forall>s \<in> set q. \<not> bc_modified (cs_cache s) \<longrightarrow> bc_cache (cs_cache s) = d (cs_id s)"
    "sync_slots q d = (q', d')"
  shows "map cs_id q' = map cs_id q \<and> map (\<lambda>s. bc_cache (cs_cache s)) q' = map (\<lambda>s. bc_cache (cs_cache s)) q \<and>
    map (\<lambda>s. bc_block_id (cs_cache s)) q' = map (\<lambda>s. bc_block_id (cs_cache s)) q \<and> (\<forall>s \<in> set q'. \<not> bc_modified (cs_cache s)) \<and>
    (\<forall>b. d' b = (case map_of (map (\<lambda>s. (cs_id s, s)) q) b of None \<Rightarrow> d b | Some s \<Rightarrow> bc_cache (cs_cache s)))"
  using assms
proof (induction q arbitrary: d q')
  case (Cons s q)
  obtain c d1 where c: "BlockCache_sync (cs_cache s, d) = (c, d1)" by (cases "BlockCache_sync (cs_cache s, d)")
  obtain q1 where q1: "sync_slots q d1 = (q1, d')" "q' = s\<lparr> cs_cache := c \<rparr> # q1"
    using Cons.prems(4) c by (auto simp: Let_def split: prod.splits)
  have s: "bc_block_id (cs_cache s) = cs_id s"
    "\<not> bc_modified (cs_cache s) \<Longrightarrow> bc_cache (cs_cache s) = d (cs_id s)" "cs_id s \<notin> cs_id ` set q"
    using Cons.prems by auto
  have d1: "d1 = d(cs_id s := bc_cache (cs_cache s))" "bc_cache c = bc_cache (cs_cache s)" "\<not> bc_modified c"
    "bc_block_id c = bc_block_id (cs_cache s)"
    using c s(1,2) by (auto simp: BlockCache_sync_def split: if_splits)
  have "\<forall>t \<in> set q. \<not> bc_modified (cs_cache t) \<longrightarrow> bc_cache (cs_cache t) = d1 (cs_id t)"
  proof
    fix t assume t: "t \<in> set q"
    then have "cs_id t \<noteq> cs_id s" using s(3) by (metis image_eqI)
    then show "\<not> bc_modified (cs_cache t) \<longrightarrow> bc_cache (cs_cache t) = d1 (cs_id t)"
      using Cons.prems(3) t by (simp add: d1(1))
  qed
  then have ih: "map cs_id q1 = map cs_id q" "map (\<lambda>s. bc_cache (cs_cache s)) q1 = map (\<lambda>s. bc_cache (cs_cache s)) q"
    "\<forall>t \<in> set q1. \<not> bc_modified (cs_cache t)" "map (\<lambda>s. bc_block_id (cs_cache s)) q1 = map (\<lambda>s. bc_block_id (cs_cache s)) q"
    "\<And>b. d' b = (case map_of (map (\<lambda>s. (cs_id s, s)) q) b of None \<Rightarrow> d1 b | Some s \<Rightarrow> bc_cache (cs_cache s))"
    using Cons.IH [OF _ _ _ q1(1)] Cons.prems(1,2) by auto
  have none: "map_of (map (\<lambda>s. (cs_id s, s)) q) (cs_id s) = None"
    using s(3) by (simp add: map_of_eq_None_iff image_image)
  show ?case
    using ih(1-4) d1(2-4) q1(2) none by (auto simp: ih(5) d1(1) split: option.splits)
qed auto

lemma sync_all_spec:
  assumes "cache_ok st"
  shows "cache_ok (block_cache_sync_all st)" "blk (block_cache_sync_all st) = blk st"
    "bk_disk (block_cache_sync_all st) = blk st"
proof -
  obtain q d where q: "sync_slots (bk_queue st) (bk_disk st) = (q, d)" by fastforce
  have st': "block_cache_sync_all st = \<lparr> bk_queue = q, bk_disk = d \<rparr>" using q by (simp add: block_cache_sync_all_def)
  have dist: "distinct (map cs_id (bk_queue st))" using assms by (simp add: cache_ok_def)
  have s: "map cs_id q = map cs_id (bk_queue st)" "map (\<lambda>s. bc_cache (cs_cache s)) q = map (\<lambda>s. bc_cache (cs_cache s)) (bk_queue st)"
    "map (\<lambda>s. bc_block_id (cs_cache s)) q = map (\<lambda>s. bc_block_id (cs_cache s)) (bk_queue st)"
    "\<And>b. d b = (case map_of (map (\<lambda>s. (cs_id s, s)) (bk_queue st)) b of None \<Rightarrow> bk_disk st b | Some s \<Rightarrow> bc_cache (cs_cache s))"
    using sync_slots_spec [OF dist _ _ q] assms by (auto simp: cache_ok_def)
  have d: "d = blk st" by (intro ext) (simp add: s(4) blk_def slot_of_def)
  have slot: "\<exists>t \<in> set (bk_queue st). cs_id t = cs_id x \<and> bc_cache (cs_cache t) = bc_cache (cs_cache x) \<and>
      bc_block_id (cs_cache t) = bc_block_id (cs_cache x)" if x: "x \<in> set q" for x
  proof -
    obtain i where i: "i < length q" "x = q ! i" using x by (auto simp: in_set_conv_nth)
    have len: "length q = length (bk_queue st)" using arg_cong [OF s(1), of length] by simp
    have "map cs_id q ! i = map cs_id (bk_queue st) ! i" "map (\<lambda>s. bc_cache (cs_cache s)) q ! i = map (\<lambda>s. bc_cache (cs_cache s)) (bk_queue st) ! i"
      "map (\<lambda>s. bc_block_id (cs_cache s)) q ! i = map (\<lambda>s. bc_block_id (cs_cache s)) (bk_queue st) ! i"
      by (simp_all only: s)
    then show ?thesis using i len by (intro bexI [of _ "bk_queue st ! i"]) simp_all
  qed
  have cached: "bc_cache (cs_cache x) = blk st (cs_id x) \<and> bc_block_id (cs_cache x) = cs_id x" if x: "x \<in> set q" for x
  proof -
    obtain t where t: "t \<in> set (bk_queue st)" "cs_id t = cs_id x" "bc_cache (cs_cache t) = bc_cache (cs_cache x)"
      "bc_block_id (cs_cache t) = bc_block_id (cs_cache x)" using slot [OF x] by blast
    then show ?thesis using blk_cached [OF dist t(1)] assms by (simp add: cache_ok_def)
  qed
  have len: "length q = length (bk_queue st)" using arg_cong [OF s(1), of length] by simp
  show ok: "cache_ok (block_cache_sync_all st)"
    using assms cached length_blk [OF assms] s(1) len unfolding st' by (simp add: cache_ok_def d)
  show "bk_disk (block_cache_sync_all st) = blk st" by (simp add: st' d)
  show "blk (block_cache_sync_all st) = blk st"
  proof
    fix b
    show "blk (block_cache_sync_all st) b = blk st b"
      using blk_cached [of "block_cache_sync_all st"] blk_uncached [of b "block_cache_sync_all st"] cached ok
      by (cases "b \<in> cs_id ` set q") (auto simp: st' d cache_ok_def)
  qed
qed

text \<open>C4. The block cache is transparent: whatever is cached, evicted or written back, a read
  returns the bytes that were last written to the block, a write changes those bytes and no
  others, neither panics when no block is held elsewhere, and \<^verbatim>\<open>block_cache_sync_all\<close> leaves on
  the disk exactly what reads return.\<close>

theorem block_cache_refines_array:
  assumes "cache_ok st" "unheld st" "off + n \<le> 512" "off < 512" "length bs = n"
  shows "(\<exists>st'. block_read b n off (\<lambda>x. x) st = Inr (take n (drop off (blk st b)), st') \<and>
      cache_ok st' \<and> unheld st' \<and> blk st' = blk st) \<and>
    (\<exists>st'. block_modify b n off (\<lambda>_. ((), bs)) st = Inr ((), st') \<and> cache_ok st' \<and> unheld st' \<and>
      blk st' = (blk st)(b := splice off bs (blk st b))) \<and>
    cache_ok (block_cache_sync_all st) \<and> blk (block_cache_sync_all st) = blk st \<and>
    bk_disk (block_cache_sync_all st) = blk st"
  using block_read_spec [OF assms(1,2), of off n b "\<lambda>x. x"] assms(3-5)
    block_modify_spec [OF assms(1,2), of off n "\<lambda>_. ((), bs)" b "()" bs] sync_all_spec [OF assms(1)]
  by (simp add: BLOCK_SZ_def)

definition example_disk :: disk where
  "example_disk b = replicate BLOCK_SZ 0"

lemma new_blocks_ok: "(\<And>b. length (disk b) = BLOCK_SZ) \<Longrightarrow>
    cache_ok (BlockCacheManager_new disk) \<and> unheld (BlockCacheManager_new disk) \<and> blk (BlockCacheManager_new disk) = disk"
  by (auto simp: cache_ok_def unheld_def BlockCacheManager_new_def blk_def slot_of_def)

theorem block_cache_refines_array_witness:
  "\<exists>st'. block_modify 3 2 5 (\<lambda>_. ((), [1, 2])) (BlockCacheManager_new example_disk) = Inr ((), st') \<and>
     take 2 (drop 5 (blk st' 3)) = [1, 2] \<and> bk_disk st' 3 = example_disk 3"
proof -
  have ok: "cache_ok (BlockCacheManager_new example_disk)" "unheld (BlockCacheManager_new example_disk)"
    "blk (BlockCacheManager_new example_disk) = example_disk"
    using new_blocks_ok [of example_disk] by (simp_all add: example_disk_def)
  obtain st' where m: "block_modify 3 2 5 (\<lambda>_. ((), [1, 2])) (BlockCacheManager_new example_disk) = Inr ((), st')"
    "blk st' = example_disk(3 := splice 5 [1, 2] (example_disk 3))"
    using block_cache_refines_array [OF ok(1,2), of 5 2 "[1, 2]" 3] ok(3) by auto
  have "bk_disk st' 3 = example_disk 3"
    using m(1) by (auto simp: block_modify_def get_block_cache_def BlockCacheManager_new_def bindR_eq_Inr
        BLOCK_CACHE_SIZE_def release_def split: prod.splits)
  then show ?thesis using m by (simp add: splice_def example_disk_def BLOCK_SZ_def)
qed

end
