(* ===== verification/Bytes.thy ===== *)
theory Bytes
  imports Prelude
begin

text \<open>
  Little-endian encodings of the integers that the file systems keep on disk, and the
  strings of the standard library: a string is the list of its characters (Unicode scalar
  values), and slices by byte positions follow the UTF-8 widths of the characters.
\<close>

unbundle bit_operations_syntax

section \<open>Integers as bytes\<close>

definition u16_le :: "u8 list \<Rightarrow> u16" where
  "u16_le bs = ucast (bs ! 0) OR push_bit 8 (ucast (bs ! 1))"

definition u32_le :: "u8 list \<Rightarrow> u32" where
  "u32_le bs = ucast (bs ! 0) OR push_bit 8 (ucast (bs ! 1)) OR push_bit 16 (ucast (bs ! 2)) OR
     push_bit 24 (ucast (bs ! 3))"

definition le_u16 :: "u16 \<Rightarrow> u8 list" where
  "le_u16 w = [ucast w, ucast (drop_bit 8 w)]"

definition le_u32 :: "u32 \<Rightarrow> u8 list" where
  "le_u32 w = [ucast w, ucast (drop_bit 8 w), ucast (drop_bit 16 w), ucast (drop_bit 24 w)]"

lemma length_le [simp]: "length (le_u16 v) = 2" "length (le_u32 w) = 4"
  by (simp_all add: le_u16_def le_u32_def)

lemma u16_le_u16 [simp]: "u16_le (le_u16 w) = w"
  by (rule bit_eqI) (auto simp: u16_le_def le_u16_def bit_simps dest: bit_imp_le_length)

lemma u32_le_u32 [simp]: "u32_le (le_u32 w) = w"
proof (rule bit_word_eqI)
  fix n assume "n < LENGTH(32)"
  then consider "n < 8" | "8 \<le> n" "n < 16" | "16 \<le> n" "n < 24" | "24 \<le> n" "n < 32" by fastforce
  then show "bit (u32_le (le_u32 w)) n = bit w n"
    by cases (auto simp: u32_le_def le_u32_def bit_simps)
qed

lemma u16_le_append [simp]: "u16_le (le_u16 w @ bs) = w"
  using u16_le_u16 [of w] by (simp add: u16_le_def le_u16_def)

lemma u32_le_append [simp]: "u32_le (le_u32 w @ bs) = w"
  using u32_le_u32 [of w] by (simp add: u32_le_def le_u32_def)

lemma le_u32_u32: "length bs = 4 \<Longrightarrow> le_u32 (u32_le bs) = bs"
proof -
  assume "length bs = 4"
  then obtain a b c d where bs: "bs = [a, b, c, d]"
    by (auto simp: length_Suc_conv eval_nat_numeral)
  have "ucast (u32_le bs) = a" "ucast (drop_bit 8 (u32_le bs)) = b" "ucast (drop_bit 16 (u32_le bs)) = c"
    "ucast (drop_bit 24 (u32_le bs)) = d"
    by (rule bit_eqI, auto simp: u32_le_def bs bit_simps dest: bit_imp_le_length)+
  then show ?thesis by (simp add: le_u32_def bs)
qed

section \<open>Strings\<close>

type_synonym rstring = "u32 list"

definition utf8_width :: "u32 \<Rightarrow> nat" where
  "utf8_width c = (if c < 0x80 then 1 else if c < 0x800 then 2 else if c < 0x10000 then 3 else 4)"

definition str_len :: "rstring \<Rightarrow> nat" where
  "str_len s = sum_list (map utf8_width s)"

text \<open>\<^verbatim>\<open>&s[a..]\<close> and \<^verbatim>\<open>&s[..b]\<close>; a position inside a character panics.\<close>

fun str_from :: "nat \<Rightarrow> rstring \<Rightarrow> rstring res" where
  "str_from n s =
     (if n = 0 then Inr s
      else case s of
        [] \<Rightarrow> Inl Index_out_of_bounds
      | c # cs \<Rightarrow> if utf8_width c \<le> n then str_from (n - utf8_width c) cs else Inl Index_out_of_bounds)"

fun str_upto :: "nat \<Rightarrow> rstring \<Rightarrow> rstring res" where
  "str_upto n s =
     (if n = 0 then Inr []
      else case s of
        [] \<Rightarrow> Inl Index_out_of_bounds
      | c # cs \<Rightarrow>
          if utf8_width c \<le> n then bindR (str_upto (n - utf8_width c) cs) (\<lambda>r. Inr (c # r))
          else Inl Index_out_of_bounds)"

declare str_from.simps [simp del] str_upto.simps [simp del]

definition str_slice :: "nat \<Rightarrow> nat \<Rightarrow> rstring \<Rightarrow> rstring res" where
  "str_slice a b s = bindR (str_from a s) (str_upto (b - a))"

text \<open>\<^verbatim>\<open>char::from_u32\<close>: surrogates and values above the Unicode range are no characters.\<close>

definition char_from_u32 :: "u32 \<Rightarrow> u32 option" where
  "char_from_u32 c = (if 0xD800 \<le> c \<and> c \<le> 0xDFFF \<or> 0x10FFFF < c then None else Some c)"

definition ascii :: "rstring \<Rightarrow> bool" where
  "ascii s \<longleftrightarrow> (\<forall>c \<in> set s. c < 0x80)"

lemma ascii_len: "ascii s \<Longrightarrow> str_len s = length s"
  by (induction s) (auto simp: ascii_def str_len_def utf8_width_def)

lemma ascii_from: "\<lbrakk> ascii s; n \<le> length s \<rbrakk> \<Longrightarrow> str_from n s = Inr (drop n s)"
proof (induction s arbitrary: n)
  case (Cons c cs)
  then show ?case
    by (cases n) (auto simp: str_from.simps [of _ "c # cs"] ascii_def utf8_width_def)
qed (simp add: str_from.simps)

lemma ascii_upto: "\<lbrakk> ascii s; n \<le> length s \<rbrakk> \<Longrightarrow> str_upto n s = Inr (take n s)"
proof (induction s arbitrary: n)
  case (Cons c cs)
  then show ?case
    by (cases n) (auto simp: str_upto.simps [of _ "c # cs"] ascii_def utf8_width_def)
qed (simp add: str_upto.simps)

lemma ascii_drop: "ascii s \<Longrightarrow> ascii (drop n s)"
  by (auto simp: ascii_def dest: in_set_dropD)

lemma ascii_slice: "\<lbrakk> ascii s; a \<le> b; b \<le> length s \<rbrakk> \<Longrightarrow> str_slice a b s = Inr (take (b - a) (drop a s))"
  by (simp add: str_slice_def ascii_from ascii_upto ascii_drop)

lemma ascii_char: "c < 0x80 \<Longrightarrow> char_from_u32 c = Some c"
  by (auto simp: char_from_u32_def word_less_nat_alt word_le_nat_alt)

end
