(* ===== verification/Fat_Table.thy ===== *)
theory Fat_Table
  imports Block_Cache Bytes
begin

text \<open>
  The FAT32 super block, the file allocation table and cluster access:
  \<^verbatim>\<open>fs/fat32/super_block.rs\<close>, \<^verbatim>\<open>fs/fat32/fat.rs\<close> and the cluster part of \<^verbatim>\<open>fs/fat32/fs.rs\<close>.
  Sector and cluster numbers are natural numbers: they come from 16- and 32-bit fields, so
  the 64-bit arithmetic on them does not wrap; the subtraction of 2 from a cluster number is
  kept at its width because it does for the clusters 0 and 1.
\<close>

section \<open>The super block\<close>

record Fat32SB =
  sb_bytes_per_sector :: u16
  sb_sectors_per_cluster :: u8
  sb_reserved_sectors_cnt :: u16
  sb_fat_cnt :: u8
  sb_total_sectors_32 :: u32
  sb_fat_size_32 :: u32
  sb_root_cluster :: u32

text \<open>The fields of the layout that are read, at their offsets in the \<^verbatim>\<open>repr(C)\<close> structure.\<close>

record Fat32SBLayout =
  sl_bytes_per_sector :: "u8 list"
  sl_sectors_per_cluster :: u8
  sl_reserved_sectors_cnt :: u16
  sl_fat_cnt :: u8
  sl_total_sectors_32 :: u32
  sl_fat_size_32 :: u32
  sl_root_cluster :: u32
  sl_fs_type :: "u8 list"

definition SB_LAYOUT_SIZE :: nat where "SB_LAYOUT_SIZE = 92"

definition Fat32SBLayout_of :: "u8 list \<Rightarrow> Fat32SBLayout" where
  "Fat32SBLayout_of bs =
     \<lparr> sl_bytes_per_sector = take 2 (drop 11 bs), sl_sectors_per_cluster = bs ! 13,
       sl_reserved_sectors_cnt = u16_le (drop 14 bs), sl_fat_cnt = bs ! 16,
       sl_total_sectors_32 = u32_le (drop 32 bs), sl_fat_size_32 = u32_le (drop 36 bs),
       sl_root_cluster = u32_le (drop 44 bs), sl_fs_type = take 8 (drop 82 bs) \<rparr>"

definition FAT32_NAME :: "u8 list" where
  "FAT32_NAME = [0x46, 0x41, 0x54, 0x33, 0x32, 0x20, 0x20, 0x20]"

definition Fat32SBLayout_is_valid :: "Fat32SBLayout \<Rightarrow> bool" where
  "Fat32SBLayout_is_valid l = (sl_fs_type l = FAT32_NAME)"

definition Fat32SB_from_layout :: "Fat32SBLayout \<Rightarrow> Fat32SB" where
  "Fat32SB_from_layout l =
     \<lparr> sb_bytes_per_sector = ucast (sl_bytes_per_sector l ! 0) OR push_bit 8 (ucast (sl_bytes_per_sector l ! 1)),
       sb_sectors_per_cluster = sl_sectors_per_cluster l,
       sb_reserved_sectors_cnt = sl_reserved_sectors_cnt l, sb_fat_cnt = sl_fat_cnt l,
       sb_total_sectors_32 = sl_total_sectors_32 l, sb_fat_size_32 = sl_fat_size_32 l,
       sb_root_cluster = sl_root_cluster l \<rparr>"

definition root_sector :: "Fat32SB \<Rightarrow> nat" where
  "root_sector sb = unat (sb_reserved_sectors_cnt sb) + unat (sb_fat_cnt sb) * unat (sb_fat_size_32 sb)"

section \<open>The file allocation table\<close>

record FAT =
  fat_start_sector :: nat
  fat_sb :: Fat32SB

definition FAT_from_sb :: "Fat32SB \<Rightarrow> FAT" where
  "FAT_from_sb sb = \<lparr> fat_start_sector = unat (sb_reserved_sectors_cnt sb), fat_sb = sb \<rparr>"

text \<open>The scan for a free entry starts at cluster 3 and has no end.\<close>

partial_function (option) alloc_scan ::
  "FAT \<Rightarrow> nat \<Rightarrow> BlockState \<Rightarrow> ((nat \<times> nat) \<times> BlockState) res option" where
  "alloc_scan fat offset st =
     bindO (Some (block_read (offset div BLOCK_SZ) 4 (offset mod BLOCK_SZ) u32_le st)) (\<lambda>(num, st1).
       let cluster_id = (if num = 0 then (offset - fat_start_sector fat * BLOCK_SZ) div 4 else 0) in
       if cluster_id \<noteq> 0 then Some (Inr ((offset, cluster_id), st1))
       else alloc_scan fat (offset + 4) st1)"

definition END_OF_CHAIN :: u32 where "END_OF_CHAIN = 0x0FFFFFFF"

definition alloc_new_cluster :: "FAT \<Rightarrow> BlockState \<Rightarrow> (nat option \<times> BlockState) res option" where
  "alloc_new_cluster fat st =
     bindO (alloc_scan fat (fat_start_sector fat * BLOCK_SZ + 3 * 4) st) (\<lambda>((offset, cluster_id), st1).
     bindO (Some (block_modify (offset div BLOCK_SZ) 4 (offset mod BLOCK_SZ) (\<lambda>_. ((), le_u32 END_OF_CHAIN)) st1))
       (\<lambda>(_, st2). Some (Inr (Some cluster_id, st2))))"

definition increase_cluster :: "FAT \<Rightarrow> nat \<Rightarrow> BlockState \<Rightarrow> (nat option \<times> BlockState) res option" where
  "increase_cluster fat cluster_id st =
     bindO (alloc_new_cluster fat st) (\<lambda>(new, st1).
       case new of
         None \<Rightarrow> Some (Inr (None, st1))
       | Some new_cluster_id \<Rightarrow>
           let fat_offset = fat_start_sector fat * BLOCK_SZ + cluster_id * 4 in
           bindO (Some (block_modify (fat_offset div BLOCK_SZ) 4 (fat_offset mod BLOCK_SZ)
               (\<lambda>_. ((), le_u32 (of_nat new_cluster_id))) st1))
             (\<lambda>(_, st2). Some (Inr (Some new_cluster_id, st2))))"

definition next_cluster_id :: "FAT \<Rightarrow> nat \<Rightarrow> BlockState \<Rightarrow> (nat option \<times> BlockState) res" where
  "next_cluster_id fat cluster st =
     (let fat_offset = fat_start_sector fat * BLOCK_SZ + cluster * 4 in
      bindR (block_read (fat_offset div BLOCK_SZ) 4 (fat_offset mod BLOCK_SZ) u32_le st) (\<lambda>(nxt, st').
        Inr (if nxt \<ge> 0x0FFFFFF8 then None else Some (unat nxt), st')))"

text \<open>A remainder by zero panics; so does a division.\<close>

definition div_zero :: panic where
  "div_zero = Explicit_panic ''attempt to divide by zero''"

definition next_dentry_id :: "FAT \<Rightarrow> nat \<Rightarrow> nat \<Rightarrow> BlockState \<Rightarrow> ((nat \<times> nat) option \<times> BlockState) res" where
  "next_dentry_id fat sector_id offset st =
     (if offset \<ge> 512 \<or> offset mod 32 \<noteq> 0 then Inr (None, st)
      else
        let next_offset = offset + 32 in
        if next_offset \<ge> 512 then
          let next_sector_id = sector_id + 1; spc = unat (sb_sectors_per_cluster (fat_sb fat)) in
          if spc = 0 then Inl div_zero
          else if next_sector_id mod spc = 0 then
            bindR (next_cluster_id fat sector_id st) (\<lambda>(n, st'). Inr (map_option (\<lambda>s. (s, 0)) n, st'))
          else Inr (Some (next_sector_id, 0), st)
        else Inr (Some (sector_id, next_offset), st))"

definition cluster_id_to_sector_id :: "FAT \<Rightarrow> nat \<Rightarrow> nat option" where
  "cluster_id_to_sector_id fat cluster =
     (if cluster < 2 then None
      else Some (root_sector (fat_sb fat) + (cluster - 2) * unat (sb_sectors_per_cluster (fat_sb fat))))"

definition sector_id_to_cluster_id :: "FAT \<Rightarrow> nat \<Rightarrow> nat option res" where
  "sector_id_to_cluster_id fat sector =
     (if sector < root_sector (fat_sb fat) then Inr None
      else if sb_sectors_per_cluster (fat_sb fat) = 0 then Inl div_zero
      else Inr (Some ((sector - root_sector (fat_sb fat)) div unat (sb_sectors_per_cluster (fat_sb fat)) + 2)))"

section \<open>Clusters\<close>

record Fat32FS =
  fs_sb :: Fat32SB
  fs_fat :: FAT

definition Fat32FS_load :: "BlockState \<Rightarrow> (Fat32FS \<times> BlockState) res" where
  "Fat32FS_load st =
     bindR (block_read 0 SB_LAYOUT_SIZE 0 Fat32SBLayout_of st) (\<lambda>(layout, st').
       bindR (assertR (Fat32SBLayout_is_valid layout)) (\<lambda>_.
         Inr (\<lparr> fs_sb = Fat32SB_from_layout layout, fs_fat = FAT_from_sb (Fat32SB_from_layout layout) \<rparr>, st')))"

partial_function (option) chain_loop ::
  "FAT \<Rightarrow> nat list \<Rightarrow> nat \<Rightarrow> BlockState \<Rightarrow> (nat list \<times> BlockState) res option" where
  "chain_loop fat chain cluster st =
     bindO (Some (next_cluster_id fat cluster st)) (\<lambda>(n, st').
       case n of
         None \<Rightarrow> Some (Inr (chain @ [cluster], st'))
       | Some nxt \<Rightarrow> chain_loop fat (chain @ [cluster]) nxt st')"

definition cluster_chain :: "Fat32FS \<Rightarrow> nat \<Rightarrow> BlockState \<Rightarrow> (nat list \<times> BlockState) res option" where
  "cluster_chain fs start_cluster st = chain_loop (fs_fat fs) [] start_cluster st"

definition cluster_offset :: "Fat32SB \<Rightarrow> nat \<Rightarrow> nat" where
  "cluster_offset sb cluster =
     unat (of_nat (root_sector sb) + (of_nat cluster - 2) * of_nat (unat (sb_sectors_per_cluster sb)) :: usize)"

definition cluster_bytes :: "Fat32SB \<Rightarrow> nat" where
  "cluster_bytes sb = unat (sb_bytes_per_sector sb) * unat (sb_sectors_per_cluster sb)"

definition CLUSTER_SIZE :: nat where "CLUSTER_SIZE = 4096"

text \<open>The loops over the sectors of a cluster; the cluster's buffer has 4096 bytes, and a slice
  past its end panics.\<close>

definition read_sector_into :: "nat \<Rightarrow> nat \<Rightarrow> nat \<Rightarrow> (nat \<times> u8 list) \<times> BlockState \<Rightarrow> ((nat \<times> u8 list) \<times> BlockState) res" where
  "read_sector_into cl_offset cl_size i = (\<lambda>((read_size, buf), st).
     bindR (block_read (cl_offset + i) BLOCK_SZ 0 (\<lambda>x. x) st) (\<lambda>(data, st').
       let copy_size = min (cl_size - read_size) (length data) in
       if read_size + copy_size \<le> length buf then
         Inr ((read_size + copy_size, splice read_size (take copy_size data) buf), st')
       else Inl Index_out_of_bounds))"

definition read_cluster :: "Fat32FS \<Rightarrow> nat \<Rightarrow> u8 list \<Rightarrow> BlockState \<Rightarrow> (u8 list \<times> BlockState) res" where
  "read_cluster fs cluster buf st =
     bindR (foldR (read_sector_into (cluster_offset (fs_sb fs) cluster) (cluster_bytes (fs_sb fs)))
         [0..<unat (sb_sectors_per_cluster (fs_sb fs))] ((0, buf), st))
       (\<lambda>((_, buf'), st'). Inr (buf', st'))"

definition write_sector_from :: "nat \<Rightarrow> nat \<Rightarrow> u8 list \<Rightarrow> nat \<Rightarrow> nat \<times> BlockState \<Rightarrow> (nat \<times> BlockState) res" where
  "write_sector_from cl_offset cl_size buf i = (\<lambda>(write_size, st).
     let copy_size = min (cl_size - write_size) BLOCK_SZ in
     if write_size + copy_size \<le> length buf then
       bindR (block_modify (cl_offset + i) BLOCK_SZ 0
           (\<lambda>data. ((), splice 0 (take copy_size (drop write_size buf)) data)) st)
         (\<lambda>(_, st'). Inr (write_size + copy_size, st'))
     else Inl Index_out_of_bounds)"

definition write_cluster :: "Fat32FS \<Rightarrow> nat \<Rightarrow> u8 list \<Rightarrow> BlockState \<Rightarrow> BlockState res" where
  "write_cluster fs cluster buf st =
     bindR (foldR (write_sector_from (cluster_offset (fs_sb fs) cluster) (cluster_bytes (fs_sb fs)) buf)
         [0..<unat (sb_sectors_per_cluster (fs_sb fs))] (0, st))
       (\<lambda>(_, st'). Inr st')"

section \<open>Entries of the table\<close>

definition fat_block :: "FAT \<Rightarrow> nat \<Rightarrow> nat" where
  "fat_block fat c = fat_start_sector fat + c div 128"

definition fat_entry :: "FAT \<Rightarrow> BlockState \<Rightarrow> nat \<Rightarrow> u32" where
  "fat_entry fat st c = u32_le (take 4 (drop (c mod 128 * 4) (blk st (fat_block fat c))))"

definition fat_link :: "u32 \<Rightarrow> nat option" where
  "fat_link e = (if e \<ge> 0x0FFFFFF8 then None else Some (unat e))"

lemma fat_place:
  "(fat_start_sector fat * BLOCK_SZ + c * 4) div BLOCK_SZ = fat_block fat c"
  "(fat_start_sector fat * BLOCK_SZ + c * 4) mod BLOCK_SZ = c mod 128 * 4"
  "c * 4 mod BLOCK_SZ = c mod 128 * 4"
proof -
  define x y where "x = c div 128" and "y = c mod 128"
  have c: "c = x * 128 + y" and y: "y < 128" by (simp_all add: x_def y_def)
  have "fat_start_sector fat * BLOCK_SZ + c * 4 = (fat_start_sector fat + x) * 512 + y * 4" "y * 4 < 512"
    using y by (simp_all add: c BLOCK_SZ_def algebra_simps)
  then show "(fat_start_sector fat * BLOCK_SZ + c * 4) div BLOCK_SZ = fat_block fat c"
    "(fat_start_sector fat * BLOCK_SZ + c * 4) mod BLOCK_SZ = c mod 128 * 4"
    unfolding fat_block_def x_def [symmetric] y_def [symmetric] by (simp_all add: BLOCK_SZ_def)
  show "c * 4 mod BLOCK_SZ = c mod 128 * 4"
    using mod_mult_mult2 [of c 4 128] by (simp add: BLOCK_SZ_def)
qed

lemma fat_fits: "c mod 128 * 4 + 4 \<le> BLOCK_SZ" "c mod 128 * 4 < BLOCK_SZ"
  using mod_less_divisor [of 128 c] unfolding BLOCK_SZ_def by linarith+

lemma fat_read:
  assumes "blocks_ok st"
  shows "\<exists>st'. block_read (fat_block fat c) 4 (c mod 128 * 4) u32_le st = Inr (fat_entry fat st c, st') \<and>
    blocks_ok st' \<and> blk st' = blk st"
  using bs.read_ok [OF assms fat_fits(1) [of c] fat_fits(2) [of c], where b = "fat_block fat c" and f = u32_le] by (simp add: fat_entry_def)

lemma fat_entry_view: "blk st' = blk st \<Longrightarrow> fat_entry fat st' = fat_entry fat st"
  by (rule ext) (simp add: fat_entry_def)

lemma length_splice [simp]: "off + length new \<le> length old \<Longrightarrow> length (splice off new old) = length old"
  by (simp add: splice_def)

lemma splice_other:
  assumes "length old = n" "off + length new \<le> n" "off' + k \<le> off \<or> off + length new \<le> off'" "off' + k \<le> n"
  shows "take k (drop off' (splice off new old)) = take k (drop off' old)"
proof (rule nth_equalityI)
  show len: "length (take k (drop off' (splice off new old))) = length (take k (drop off' old))"
    using assms by simp
  fix i assume "i < length (take k (drop off' (splice off new old)))"
  then have "i < k" by simp
  then show "take k (drop off' (splice off new old)) ! i = take k (drop off' old) ! i"
    using assms by (auto simp: splice_def nth_append)
qed

lemma splice_same: "\<lbrakk> off + length new \<le> length old \<rbrakk> \<Longrightarrow> take (length new) (drop off (splice off new old)) = new"
  by (simp add: splice_def)

definition set_fat :: "FAT \<Rightarrow> nat \<Rightarrow> u32 \<Rightarrow> disk \<Rightarrow> disk" where
  "set_fat fat c w V = V(fat_block fat c := splice (c mod 128 * 4) (le_u32 w) (V (fat_block fat c)))"

lemma fat_write:
  assumes ok: "blocks_ok st"
  shows "\<exists>st'. block_modify (fat_block fat c) 4 (c mod 128 * 4) (\<lambda>_. ((), le_u32 w)) st = Inr ((), st') \<and>
    blocks_ok st' \<and> fat_entry fat st' = (fat_entry fat st)(c := w) \<and>
    (\<forall>b. b \<noteq> fat_block fat c \<longrightarrow> blk st' b = blk st b) \<and> blk st' = set_fat fat c w (blk st)"
proof -
  obtain st' where m: "block_modify (fat_block fat c) 4 (c mod 128 * 4) (\<lambda>_. ((), le_u32 w)) st = Inr ((), st')"
    "blocks_ok st'" "blk st' = (blk st)(fat_block fat c := splice (c mod 128 * 4) (le_u32 w) (blk st (fat_block fat c)))"
    using bs.modify_ok [OF ok fat_fits(1) [of c] fat_fits(2) [of c], where b = "fat_block fat c" and
        g = "\<lambda>_. ((), le_u32 w)" and w = "()" and bs = "le_u32 w"] by auto
  have len: "length (blk st b) = BLOCK_SZ" for b by (rule bs.view_len [OF ok])
  have "fat_entry fat st' d = ((fat_entry fat st)(c := w)) d" for d
  proof (cases "d = c")
    case True
    then show ?thesis
      using splice_same [of "c mod 128 * 4" "le_u32 w" "blk st (fat_block fat c)"] fat_fits(1) [of c] len
      by (simp add: fat_entry_def m(3))
  next
    case False
    show ?thesis
    proof (cases "fat_block fat d = fat_block fat c")
      case same: True
      then have "d mod 128 \<noteq> c mod 128"
        using False by (metis add_left_cancel div_mult_mod_eq fat_block_def)
      then have "d mod 128 * 4 + 4 \<le> c mod 128 * 4 \<or> c mod 128 * 4 + length (le_u32 w) \<le> d mod 128 * 4"
        by (simp, linarith)
      from splice_other [OF len _ this] show ?thesis
        using False same fat_fits(1) [of c] fat_fits(1) [of d] by (simp add: fat_entry_def m(3))
    qed (use False in \<open>simp add: fat_entry_def m(3)\<close>)
  qed
  then show ?thesis using m by (intro exI [of _ st']) (auto simp: set_fat_def)
qed

lemma next_cluster_id_spec:
  assumes "blocks_ok st"
  shows "\<exists>st'. next_cluster_id fat c st = Inr (fat_link (fat_entry fat st c), st') \<and> blocks_ok st' \<and> blk st' = blk st"
  using fat_read [OF assms, of fat c]
  by (auto simp: next_cluster_id_def Let_def fat_place fat_link_def)

section \<open>Allocation\<close>

lemma alloc_scan_step:
  assumes "blocks_ok st" "0 < k"
  shows "\<exists>st1. blocks_ok st1 \<and> blk st1 = blk st \<and>
    alloc_scan fat (fat_start_sector fat * BLOCK_SZ + k * 4) st =
      (if fat_entry fat st k = 0 then Some (Inr ((fat_start_sector fat * BLOCK_SZ + k * 4, k), st1))
       else alloc_scan fat (fat_start_sector fat * BLOCK_SZ + (k + 1) * 4) st1)"
proof -
  obtain st1 where r: "block_read (fat_block fat k) 4 (k mod 128 * 4) u32_le st = Inr (fat_entry fat st k, st1)"
    "blocks_ok st1" "blk st1 = blk st"
    using fat_read [OF assms(1)] by blast
  moreover have "fat_start_sector fat * BLOCK_SZ + (k + 1) * 4 = fat_start_sector fat * BLOCK_SZ + k * 4 + 4" by simp
  ultimately show ?thesis
    using assms(2) by (intro exI [of _ st1], subst alloc_scan.simps) (simp only: fat_place Let_def, simp)
qed

lemma alloc_scan_spec:
  assumes "blocks_ok st" "0 < k" "k \<le> c" "fat_entry fat st c = 0" "\<forall>d. k \<le> d \<and> d < c \<longrightarrow> fat_entry fat st d \<noteq> 0"
  shows "\<exists>st'. alloc_scan fat (fat_start_sector fat * BLOCK_SZ + k * 4) st =
      Some (Inr ((fat_start_sector fat * BLOCK_SZ + c * 4, c), st')) \<and> blocks_ok st' \<and> blk st' = blk st"
  using assms
proof (induction "c - k" arbitrary: k st)
  case 0
  then have "k = c" by simp
  then show ?case using alloc_scan_step [OF 0(2,3), of fat] 0 by auto
next
  case (Suc n)
  obtain st1 where s: "blocks_ok st1" "blk st1 = blk st"
    "alloc_scan fat (fat_start_sector fat * BLOCK_SZ + k * 4) st =
       (if fat_entry fat st k = 0 then Some (Inr ((fat_start_sector fat * BLOCK_SZ + k * 4, k), st1))
        else alloc_scan fat (fat_start_sector fat * BLOCK_SZ + (k + 1) * 4) st1)"
    using alloc_scan_step [OF Suc.prems(1,2), of fat] by blast
  have "fat_entry fat st k \<noteq> 0" "k + 1 \<le> c" "n = c - (k + 1)" using Suc.hyps(2) Suc.prems(5) by auto
  moreover note e = fat_entry_view [OF s(2), of fat]
  ultimately show ?case
    using Suc.hyps(1) [OF \<open>n = c - (k + 1)\<close> s(1)] Suc.prems s(2,3) by (auto simp: e)
qed

lemma alloc_new_cluster_spec:
  assumes ok: "blocks_ok st" and c: "3 \<le> c" "fat_entry fat st c = 0" "\<forall>d. 3 \<le> d \<and> d < c \<longrightarrow> fat_entry fat st d \<noteq> 0"
  shows "\<exists>st'. alloc_new_cluster fat st = Some (Inr (Some c, st')) \<and> blocks_ok st' \<and>
    fat_entry fat st' = (fat_entry fat st)(c := END_OF_CHAIN) \<and> (\<forall>b. b \<noteq> fat_block fat c \<longrightarrow> blk st' b = blk st b) \<and>
    blk st' = set_fat fat c END_OF_CHAIN (blk st)"
proof -
  obtain st1 where s: "alloc_scan fat (fat_start_sector fat * BLOCK_SZ + 3 * 4) st =
      Some (Inr ((fat_start_sector fat * BLOCK_SZ + c * 4, c), st1))" "blocks_ok st1" "blk st1 = blk st"
    using alloc_scan_spec [OF ok _ c] by auto
  obtain st' where w: "block_modify (fat_block fat c) 4 (c mod 128 * 4) (\<lambda>_. ((), le_u32 END_OF_CHAIN)) st1 = Inr ((), st')"
    "blocks_ok st'" "fat_entry fat st' = (fat_entry fat st1)(c := END_OF_CHAIN)"
    "\<forall>b. b \<noteq> fat_block fat c \<longrightarrow> blk st' b = blk st1 b" "blk st' = set_fat fat c END_OF_CHAIN (blk st1)"
    using fat_write [OF s(2)] by blast
  have "fat_entry fat st1 = fat_entry fat st" by (rule fat_entry_view [OF s(3)])
  then show ?thesis using s w by (simp add: alloc_new_cluster_def fat_place)
qed

text \<open>C28. Allocating a cluster: the first entry from cluster 3 on that is zero is marked as the
  end of a chain and its number returned; every other entry and every block that does not hold
  this entry keeps its contents.\<close>

theorem alloc_new_cluster_correct:
  assumes "blocks_ok st" "3 \<le> c" "fat_entry fat st c = 0" "\<forall>d. 3 \<le> d \<and> d < c \<longrightarrow> fat_entry fat st d \<noteq> 0"
  shows "\<exists>st'. alloc_new_cluster fat st = Some (Inr (Some c, st')) \<and> blocks_ok st' \<and>
    fat_entry fat st' = (fat_entry fat st)(c := END_OF_CHAIN) \<and>
    fat_link (fat_entry fat st' c) = None \<and> (\<forall>b. b \<noteq> fat_block fat c \<longrightarrow> blk st' b = blk st b)"
  using alloc_new_cluster_spec [OF assms] by (auto simp: fat_link_def END_OF_CHAIN_def)

definition example_fat :: FAT where
  "example_fat = FAT_from_sb \<lparr> sb_bytes_per_sector = 512, sb_sectors_per_cluster = 8, sb_reserved_sectors_cnt = 1,
     sb_fat_cnt = 1, sb_total_sectors_32 = 1000, sb_fat_size_32 = 1, sb_root_cluster = 2 \<rparr>"

lemma fat_entry_replicate:
  assumes "blk st (fat_block fat c) = replicate BLOCK_SZ x"
  shows "fat_entry fat st c = u32_le [x, x, x, x]"
proof -
  have "min 4 (BLOCK_SZ - c mod 128 * 4) = Suc (Suc (Suc (Suc 0)))" using fat_fits(1) [of c] by simp
  then have "take 4 (drop (c mod 128 * 4) (replicate BLOCK_SZ x)) = [x, x, x, x]"
    unfolding drop_replicate take_replicate by simp
  then show ?thesis by (simp only: fat_entry_def assms)
qed

definition example_blocks :: BlockState where
  "example_blocks = BlockCacheManager_new example_disk"

lemma example_blocks_ok: "blocks_ok example_blocks" "blk example_blocks = example_disk" "fat_entry fat example_blocks c = 0"
proof -
  show ok: "blocks_ok example_blocks" "blk example_blocks = example_disk"
    using new_blocks_ok [of example_disk] by (simp_all add: blocks_ok_def example_blocks_def example_disk_def)
  show "fat_entry fat example_blocks c = 0"
    using fat_entry_replicate [of example_blocks fat c 0] by (simp add: ok(2) example_disk_def u32_le_def)
qed

theorem alloc_new_cluster_witness:
  "\<exists>st'. alloc_new_cluster example_fat example_blocks = Some (Inr (Some 3, st')) \<and>
     fat_entry example_fat st' 3 = 0x0FFFFFFF"
proof -
  have "\<forall>d. 3 \<le> d \<and> d < 3 \<longrightarrow> fat_entry example_fat example_blocks d \<noteq> 0" using leD by blast
  then obtain st' where "alloc_new_cluster example_fat example_blocks = Some (Inr (Some 3, st'))"
    "fat_entry example_fat st' = (fat_entry example_fat example_blocks)(3 := END_OF_CHAIN)"
    using alloc_new_cluster_correct [OF example_blocks_ok(1) order_refl example_blocks_ok(3), of example_fat] by blast
  then show ?thesis by (simp add: END_OF_CHAIN_def)
qed

text \<open>The scan for a free entry does not stop at the end of the table: when every entry of
  the table is in use, \<^verbatim>\<open>alloc_new_cluster\<close> still succeeds and overwrites four bytes of a block
  behind the table.\<close>

theorem alloc_beyond_table:
  assumes "blocks_ok st" "fat = FAT_from_sb sb"
    and full: "\<forall>d. 3 \<le> d \<and> d < unat (sb_fat_size_32 sb) * 128 \<longrightarrow> fat_entry fat st d \<noteq> 0"
    and c: "unat (sb_fat_size_32 sb) * 128 \<le> c" "3 \<le> c" "fat_entry fat st c = 0"
  shows "\<exists>c' st'. alloc_new_cluster fat st = Some (Inr (Some c', st')) \<and> unat (sb_fat_size_32 sb) * 128 \<le> c' \<and>
    fat_block fat c' \<ge> unat (sb_reserved_sectors_cnt sb) + unat (sb_fat_size_32 sb) \<and>
    blk st' (fat_block fat c') \<noteq> blk st (fat_block fat c')"
proof -
  define c' where "c' = (LEAST d. 3 \<le> d \<and> fat_entry fat st d = 0)"
  have c': "3 \<le> c'" "fat_entry fat st c' = 0" "\<forall>d. 3 \<le> d \<and> d < c' \<longrightarrow> fat_entry fat st d \<noteq> 0"
    using LeastI [of "\<lambda>d. 3 \<le> d \<and> fat_entry fat st d = 0" c] c not_less_Least
    unfolding c'_def by blast+
  have ge: "unat (sb_fat_size_32 sb) * 128 \<le> c'" using full c'(1,2) by (meson not_le_imp_less)
  obtain st' where a: "alloc_new_cluster fat st = Some (Inr (Some c', st'))"
    "fat_entry fat st' = (fat_entry fat st)(c' := END_OF_CHAIN)"
    using alloc_new_cluster_spec [OF assms(1) c'] by blast
  have "blk st' (fat_block fat c') \<noteq> blk st (fat_block fat c')"
  proof
    assume "blk st' (fat_block fat c') = blk st (fat_block fat c')"
    then have "fat_entry fat st' c' = fat_entry fat st c'" by (simp add: fat_entry_def)
    then show False using a(2) c'(2) by (simp add: END_OF_CHAIN_def)
  qed
  moreover have "unat (sb_fat_size_32 sb) \<le> c' div 128"
    using div_le_mono [OF ge, of 128] by simp
  then have "fat_block fat c' \<ge> unat (sb_reserved_sectors_cnt sb) + unat (sb_fat_size_32 sb)"
    by (simp add: fat_block_def assms(2) FAT_from_sb_def)
  ultimately show ?thesis using a(1) ge by blast
qed

text \<open>A disk whose only table sector is full.\<close>

definition full_fat_disk :: disk where
  "full_fat_disk b = replicate BLOCK_SZ (if b = 1 then 0xFF else 0)"

theorem alloc_beyond_table_witness:
  "\<exists>c st'. alloc_new_cluster example_fat (BlockCacheManager_new full_fat_disk) = Some (Inr (Some c, st')) \<and> 128 \<le> c"
proof -
  let ?st = "BlockCacheManager_new full_fat_disk"
  have ok: "blocks_ok ?st" "blk ?st = full_fat_disk"
    using new_blocks_ok [of full_fat_disk] by (simp_all add: blocks_ok_def full_fat_disk_def)
  have e: "fat_entry example_fat ?st d = (if d < 128 then 0xFFFFFFFF else 0)" for d
  proof -
    have "fat_block example_fat d = 1 \<longleftrightarrow> d < 128"
      by (simp add: fat_block_def example_fat_def FAT_from_sb_def div_eq_0_iff)
    then show ?thesis
      using fat_entry_replicate [of ?st example_fat d "if d < 128 then 0xFF else 0"]
      by (simp add: ok(2) full_fat_disk_def u32_le_def)
  qed
  have "\<exists>c' st'. alloc_new_cluster example_fat ?st = Some (Inr (Some c', st')) \<and> unat (1 :: u32) * 128 \<le> c' \<and>
      fat_block example_fat c' \<ge> unat (1 :: u16) + unat (1 :: u32) \<and>
      blk st' (fat_block example_fat c') \<noteq> blk ?st (fat_block example_fat c')"
    using alloc_beyond_table [OF ok(1), of example_fat "fat_sb example_fat" 200] e
    by (simp add: example_fat_def FAT_from_sb_def)
  then show ?thesis by auto
qed

section \<open>Chains\<close>

fun fat_chain :: "(nat \<Rightarrow> u32) \<Rightarrow> nat list \<Rightarrow> bool" where
  "fat_chain e [] = False"
| "fat_chain e [c] = (fat_link (e c) = None)"
| "fat_chain e (c # d # cs) = (fat_link (e c) = Some d \<and> fat_chain e (d # cs))"

lemma chain_loop_spec:
  assumes "blocks_ok st" "fat_chain (fat_entry fat st) (c # cs)"
  shows "\<exists>st'. chain_loop fat pre c st = Some (Inr (pre @ c # cs, st')) \<and> blocks_ok st' \<and> blk st' = blk st"
  using assms
proof (induction cs arbitrary: pre c st)
  case Nil
  obtain st' where n: "next_cluster_id fat c st = Inr (fat_link (fat_entry fat st c), st')" "blocks_ok st'" "blk st' = blk st"
    using next_cluster_id_spec [OF Nil.prems(1)] by blast
  then show ?case using Nil.prems(2) by (subst chain_loop.simps) simp
next
  case (Cons d cs)
  obtain st1 where n: "next_cluster_id fat c st = Inr (fat_link (fat_entry fat st c), st1)" "blocks_ok st1" "blk st1 = blk st"
    using next_cluster_id_spec [OF Cons.prems(1)] by blast
  have "fat_chain (fat_entry fat st1) (d # cs)" using Cons.prems(2) fat_entry_view [OF n(3)] by simp
  then obtain st' where "chain_loop fat (pre @ [c]) d st1 = Some (Inr ((pre @ [c]) @ d # cs, st'))"
    "blocks_ok st'" "blk st' = blk st1"
    using Cons.IH [OF n(2)] by blast
  then show ?case using n Cons.prems(2) by (subst chain_loop.simps) simp
qed

lemma fat_chain_append:
  assumes "fat_chain e (cs @ [c])" "fat_link w = Some n" "fat_link (e' n) = None"
    "e' c = w" "\<forall>d \<in> set cs. e' d = e d"
  shows "fat_chain e' (cs @ [c, n])"
  using assms
proof (induction cs)
  case (Cons d cs)
  then show ?case by (cases cs) auto
qed simp

text \<open>C12. Growing a file by one cluster: \<^verbatim>\<open>increase_cluster\<close> of the last cluster of a chain takes
  the first free cluster, and the chain that \<^verbatim>\<open>cluster_chain\<close> then reads is the old one with the
  new cluster at its end.\<close>

theorem increase_cluster_extends:
  assumes ok: "blocks_ok st" and chain: "fat_chain (fat_entry (fs_fat fs) st) (cs @ [c])" "distinct (cs @ [c])"
    and n: "3 \<le> n" "n < 0x0FFFFFF8" "n \<notin> set (cs @ [c])" "fat_entry (fs_fat fs) st n = 0"
      "\<forall>d. 3 \<le> d \<and> d < n \<longrightarrow> fat_entry (fs_fat fs) st d \<noteq> 0"
  shows "\<exists>st1 st2 st3. cluster_chain fs (hd (cs @ [c])) st = Some (Inr (cs @ [c], st1)) \<and>
    increase_cluster (fs_fat fs) c st1 = Some (Inr (Some n, st2)) \<and>
    cluster_chain fs (hd (cs @ [c])) st2 = Some (Inr (cs @ [c, n], st3))"
proof -
  let ?fat = "fs_fat fs"
  have hd: "cs @ c # ys = hd (cs @ [c]) # tl (cs @ c # ys)" for ys by (cases cs) simp_all
  obtain st1 where s1: "cluster_chain fs (hd (cs @ [c])) st = Some (Inr (cs @ [c], st1))" "blocks_ok st1" "blk st1 = blk st"
    using chain_loop_spec [OF ok, of ?fat "hd (cs @ [c])" "tl (cs @ [c])" "[]"] chain(1) hd [of "[]"]
    by (auto simp: cluster_chain_def)
  note e1 = fat_entry_view [OF s1(3), of ?fat]
  obtain st2 where s2: "alloc_new_cluster ?fat st1 = Some (Inr (Some n, st2))" "blocks_ok st2"
    "fat_entry ?fat st2 = (fat_entry ?fat st)(n := END_OF_CHAIN)"
    using alloc_new_cluster_spec [OF s1(2) n(1), of ?fat] n(4,5) by (auto simp: e1)
  obtain st3 where s3: "block_modify (fat_block ?fat c) 4 (c mod 128 * 4) (\<lambda>_. ((), le_u32 (of_nat n))) st2 = Inr ((), st3)"
    "blocks_ok st3" "fat_entry ?fat st3 = (fat_entry ?fat st)(n := END_OF_CHAIN, c := of_nat n)"
    using fat_write [OF s2(2), of ?fat c "of_nat n"] by (auto simp: s2(3))
  have inc: "increase_cluster ?fat c st1 = Some (Inr (Some n, st3))"
    using s2(1) s3(1) by (simp add: increase_cluster_def Let_def fat_place)
  have "unat (of_nat n :: u32) = n" using n(2) by (simp add: unat_of_nat take_bit_nat_eq_self)
  then have "fat_link (of_nat n) = Some n" using n(2) by (simp add: fat_link_def word_le_nat_alt)
  then have "fat_chain (fat_entry ?fat st3) (cs @ [c, n])"
    using chain n(3) by (intro fat_chain_append [OF chain(1)]) (auto simp: s3(3) fat_link_def END_OF_CHAIN_def)
  then obtain st4 where "cluster_chain fs (hd (cs @ [c])) st3 = Some (Inr (cs @ [c, n], st4))"
    using chain_loop_spec [OF s3(2), of ?fat "hd (cs @ [c])" "tl (cs @ [c, n])" "[]"] hd [of "[n]"]
    by (auto simp: cluster_chain_def)
  then show ?thesis using s1(1) inc by blast
qed

theorem increase_cluster_extends_witness:
  "\<exists>st0 st1 st2 st3. block_modify (fat_block example_fat 2) 4 (2 mod 128 * 4) (\<lambda>_. ((), le_u32 END_OF_CHAIN)) example_blocks = Inr ((), st0) \<and>
     cluster_chain \<lparr> fs_sb = fat_sb example_fat, fs_fat = example_fat \<rparr> 2 st0 = Some (Inr ([2], st1)) \<and>
     increase_cluster example_fat 2 st1 = Some (Inr (Some 3, st2)) \<and>
     cluster_chain \<lparr> fs_sb = fat_sb example_fat, fs_fat = example_fat \<rparr> 2 st2 = Some (Inr ([2, 3], st3))"
proof -
  let ?fs = "\<lparr> fs_sb = fat_sb example_fat, fs_fat = example_fat \<rparr>"
  obtain st0 where s0: "block_modify (fat_block example_fat 2) 4 (2 mod 128 * 4) (\<lambda>_. ((), le_u32 END_OF_CHAIN)) example_blocks = Inr ((), st0)"
    "blocks_ok st0" "fat_entry example_fat st0 = (fat_entry example_fat example_blocks)(2 := END_OF_CHAIN)"
    using fat_write [OF example_blocks_ok(1), of example_fat 2 END_OF_CHAIN] by blast
  have "\<exists>st1 st2 st3. cluster_chain ?fs (hd ([] @ [2])) st0 = Some (Inr ([] @ [2], st1)) \<and>
     increase_cluster (fs_fat ?fs) 2 st1 = Some (Inr (Some 3, st2)) \<and>
     cluster_chain ?fs (hd ([] @ [2])) st2 = Some (Inr ([] @ [2, 3], st3))"
    by (rule increase_cluster_extends [OF s0(2)])
      (auto simp: s0(3) example_blocks_ok(3) fat_link_def END_OF_CHAIN_def)
  then show ?thesis using s0(1) by auto
qed

section \<open>Cluster contents\<close>

lemma foldR_snoc: "foldR f (xs @ [x]) s = bindR (foldR f xs s) (f x)"
  by (simp add: foldR_append bindR_def split: sum.splits)

lemma splice_append: "length pre = n \<Longrightarrow> splice n new (pre @ rest) = pre @ new @ drop (length new) rest"
  by (simp add: splice_def)

definition cluster_fits :: "Fat32SB \<Rightarrow> bool" where
  "cluster_fits sb = (sb_bytes_per_sector sb = 512 \<and> sb_sectors_per_cluster sb \<le> 8)"

lemma cluster_fits_bytes:
  "cluster_fits sb \<Longrightarrow> cluster_bytes sb = unat (sb_sectors_per_cluster sb) * BLOCK_SZ \<and> cluster_bytes sb \<le> CLUSTER_SIZE"
  by (auto simp: cluster_fits_def cluster_bytes_def BLOCK_SZ_def CLUSTER_SIZE_def word_le_nat_alt)

lemma write_sectors:
  assumes "blocks_ok st" "length buf = CLUSTER_SIZE" "n = m * BLOCK_SZ" "n \<le> CLUSTER_SIZE" "k \<le> m"
  shows "\<exists>st'. foldR (write_sector_from off n buf) [0..<k] (0, st) = Inr (k * BLOCK_SZ, st') \<and> blocks_ok st' \<and>
    blk st' = (\<lambda>b. if off \<le> b \<and> b < off + k then take BLOCK_SZ (drop ((b - off) * BLOCK_SZ) buf) else blk st b)"
  using assms(5)
proof (induction k)
  case 0
  have "(\<lambda>b. if off \<le> b \<and> b < off + 0 then take BLOCK_SZ (drop ((b - off) * BLOCK_SZ) buf) else blk st b) = blk st"
    by (rule ext) (use leD in auto)
  then show ?case using assms(1) by simp
next
  case (Suc k)
  then obtain st1 where s: "foldR (write_sector_from off n buf) [0..<k] (0, st) = Inr (k * BLOCK_SZ, st1)" "blocks_ok st1"
    "blk st1 = (\<lambda>b. if off \<le> b \<and> b < off + k then take BLOCK_SZ (drop ((b - off) * BLOCK_SZ) buf) else blk st b)"
    by auto
  have le: "Suc k * BLOCK_SZ \<le> n" using Suc.prems assms(3) by (simp add: mult_le_mono1 del: mult_Suc)
  then have copy: "min (n - k * BLOCK_SZ) BLOCK_SZ = BLOCK_SZ" "k * BLOCK_SZ + BLOCK_SZ \<le> length buf"
    using assms(2,4) by auto
  define piece where "piece = take BLOCK_SZ (drop (k * BLOCK_SZ) buf)"
  have lp: "length piece = BLOCK_SZ" using copy(2) by (simp add: piece_def)
  have "\<exists>st2. block_modify (off + k) BLOCK_SZ 0 (\<lambda>data. ((), splice 0 piece data)) st1 = Inr ((), st2) \<and> blocks_ok st2 \<and>
      blk st2 = (blk st1)(off + k := splice 0 (splice 0 piece (blk st1 (off + k))) (blk st1 (off + k)))"
    using bs.modify_ok [OF s(2), where b = "off + k" and off = 0 and n = BLOCK_SZ and g = "\<lambda>data. ((), splice 0 piece data)"
        and w = "()" and bs = "splice 0 piece (blk st1 (off + k))"] lp bs.view_len [OF s(2), of "off + k"]
    by (simp add: BLOCK_SZ_def)
  then obtain st2 where m: "block_modify (off + k) BLOCK_SZ 0 (\<lambda>data. ((), splice 0 piece data)) st1 = Inr ((), st2)" "blocks_ok st2"
    "blk st2 = (blk st1)(off + k := splice 0 (splice 0 piece (blk st1 (off + k))) (blk st1 (off + k)))"
    by blast
  have "splice 0 (splice 0 piece (blk st1 (off + k))) (blk st1 (off + k)) = piece"
    using lp bs.view_len [OF s(2), of "off + k"] by (simp add: splice_def)
  then have b2: "blk st2 = (blk st1)(off + k := piece)" using m(3) by simp
  have "blk st2 = (\<lambda>b. if off \<le> b \<and> b < off + Suc k then take BLOCK_SZ (drop ((b - off) * BLOCK_SZ) buf) else blk st b)"
    unfolding b2 s(3) by (rule ext) (auto simp: piece_def)
  moreover have "write_sector_from off n buf k (k * BLOCK_SZ, st1) = Inr (Suc k * BLOCK_SZ, st2)"
    using m(1) copy by (simp add: write_sector_from_def Let_def piece_def)
  ultimately show ?case using s(1) m(2) by (auto simp: foldR_snoc)
qed

lemma read_sectors:
  assumes "blocks_ok st" "length buf = CLUSTER_SIZE" "n = m * BLOCK_SZ" "n \<le> CLUSTER_SIZE" "k \<le> m"
  shows "\<exists>st'. foldR (read_sector_into off n) [0..<k] ((0, buf), st) =
      Inr ((k * BLOCK_SZ, concat (map (\<lambda>i. blk st (off + i)) [0..<k]) @ drop (k * BLOCK_SZ) buf), st') \<and>
      blocks_ok st' \<and> blk st' = blk st"
  using assms(5)
proof (induction k)
  case 0
  then show ?case using assms(1) by auto
next
  case (Suc k)
  let ?c = "\<lambda>k. concat (map (\<lambda>i. blk st (off + i)) [0..<k])"
  have len: "length (blk st b) = BLOCK_SZ" for b by (rule bs.view_len [OF assms(1)])
  have lc: "length (?c j) = j * BLOCK_SZ" for j by (induction j) (simp_all add: len)
  from Suc obtain st1 where s: "foldR (read_sector_into off n) [0..<k] ((0, buf), st) = Inr ((k * BLOCK_SZ, ?c k @ drop (k * BLOCK_SZ) buf), st1)"
    "blocks_ok st1" "blk st1 = blk st"
    by auto
  have le: "Suc k * BLOCK_SZ \<le> n" using Suc.prems assms(3) by (simp add: mult_le_mono1 del: mult_Suc)
  then have copy: "min (n - k * BLOCK_SZ) BLOCK_SZ = BLOCK_SZ" "k * BLOCK_SZ + BLOCK_SZ \<le> length buf" "k * BLOCK_SZ \<le> length buf"
    using assms(2,4) by auto
  obtain st2 where r: "block_read (off + k) BLOCK_SZ 0 (\<lambda>x. x) st1 = Inr (blk st (off + k), st2)" "blocks_ok st2" "blk st2 = blk st"
    using bs.read_ok [OF s(2), where b = "off + k" and off = 0 and n = BLOCK_SZ and f = "\<lambda>x. x"] s(3) len [of "off + k"]
    by (auto simp: BLOCK_SZ_def)
  have "splice (k * BLOCK_SZ) (blk st (off + k)) (?c k @ drop (k * BLOCK_SZ) buf) = ?c (Suc k) @ drop (Suc k * BLOCK_SZ) buf"
    unfolding splice_append [OF lc] len by simp
  then have "read_sector_into off n k ((k * BLOCK_SZ, ?c k @ drop (k * BLOCK_SZ) buf), st1) =
      Inr ((Suc k * BLOCK_SZ, ?c (Suc k) @ drop (Suc k * BLOCK_SZ) buf), st2)"
    using r(1) copy lc [of k] len [of "off + k"] by (simp add: read_sector_into_def Let_def del: concat_append upt_Suc)
  then show ?case using s(1) r(2,3) by (auto simp: foldR_snoc)
qed

lemma concat_pieces: "k * n \<le> length xs \<Longrightarrow> concat (map (\<lambda>i. take n (drop (i * n) xs)) [0..<k]) = take (k * n) xs"
  by (induction k) (simp_all add: add.commute [of n] take_add)

text \<open>C29. With 512-byte sectors and at most eight of them to a cluster, what \<^verbatim>\<open>write_cluster\<close>
  stores is what \<^verbatim>\<open>read_cluster\<close> then delivers (up to the size of a cluster), and only the blocks
  of that cluster change.\<close>

theorem cluster_roundtrip:
  assumes ok: "blocks_ok st" and fits: "cluster_fits (fs_sb fs)" and len: "length data = CLUSTER_SIZE" "length buf = CLUSTER_SIZE"
  shows "\<exists>st1 st2. write_cluster fs cluster data st = Inr st1 \<and>
    read_cluster fs cluster buf st1 = Inr (take (cluster_bytes (fs_sb fs)) data @ drop (cluster_bytes (fs_sb fs)) buf, st2) \<and>
    blk st2 = blk st1 \<and>
    (\<forall>b. b < cluster_offset (fs_sb fs) cluster \<or>
       cluster_offset (fs_sb fs) cluster + unat (sb_sectors_per_cluster (fs_sb fs)) \<le> b \<longrightarrow> blk st1 b = blk st b)"
proof -
  let ?n = "cluster_bytes (fs_sb fs)" and ?m = "unat (sb_sectors_per_cluster (fs_sb fs))" and ?off = "cluster_offset (fs_sb fs) cluster"
  have n: "?n = ?m * BLOCK_SZ" "?n \<le> CLUSTER_SIZE" using cluster_fits_bytes [OF fits] by auto
  obtain st1 where w: "foldR (write_sector_from ?off ?n data) [0..<?m] (0, st) = Inr (?m * BLOCK_SZ, st1)" "blocks_ok st1"
    "blk st1 = (\<lambda>b. if ?off \<le> b \<and> b < ?off + ?m then take BLOCK_SZ (drop ((b - ?off) * BLOCK_SZ) data) else blk st b)"
    using write_sectors [OF ok len(1) n order_refl] by blast
  obtain st2 where r: "foldR (read_sector_into ?off ?n) [0..<?m] ((0, buf), st1) =
      Inr ((?m * BLOCK_SZ, concat (map (\<lambda>i. blk st1 (?off + i)) [0..<?m]) @ drop (?m * BLOCK_SZ) buf), st2)" "blk st2 = blk st1"
    using read_sectors [OF w(2) len(2) n order_refl] by blast
  have "map (\<lambda>i. blk st1 (?off + i)) [0..<?m] = map (\<lambda>i. take BLOCK_SZ (drop (i * BLOCK_SZ) data)) [0..<?m]"
    by (simp add: w(3))
  then have "concat (map (\<lambda>i. blk st1 (?off + i)) [0..<?m]) = take ?n data"
    using concat_pieces [of ?m BLOCK_SZ data] n len(1) by (simp del: map_eq_conv)
  then have "read_cluster fs cluster buf st1 = Inr (take ?n data @ drop ?n buf, st2)"
    using r(1) n(1) by (simp add: read_cluster_def)
  moreover have "write_cluster fs cluster data st = Inr st1" using w(1) by (simp add: write_cluster_def)
  moreover have "\<forall>b. b < ?off \<or> ?off + ?m \<le> b \<longrightarrow> blk st1 b = blk st b" by (simp add: w(3))
  ultimately show ?thesis using r(2) by blast
qed

theorem cluster_roundtrip_witness:
  "\<exists>st1 st2. write_cluster \<lparr> fs_sb = fat_sb example_fat, fs_fat = example_fat \<rparr> 2 (replicate CLUSTER_SIZE 7) example_blocks = Inr st1 \<and>
     read_cluster \<lparr> fs_sb = fat_sb example_fat, fs_fat = example_fat \<rparr> 2 (replicate CLUSTER_SIZE 0) st1 = Inr (replicate CLUSTER_SIZE 7, st2)"
proof -
  have sb: "cluster_fits (fat_sb example_fat)" "cluster_bytes (fat_sb example_fat) = CLUSTER_SIZE"
    by (simp_all add: cluster_fits_def example_fat_def FAT_from_sb_def cluster_bytes_def CLUSTER_SIZE_def)
  show ?thesis
    using cluster_roundtrip [OF example_blocks_ok(1), of "\<lparr> fs_sb = fat_sb example_fat, fs_fat = example_fat \<rparr>"
        "replicate CLUSTER_SIZE 7" "replicate CLUSTER_SIZE 0" 2] sb by auto
qed

text \<open>The conversions between cluster and sector numbers: the first sector of a cluster belongs
  to it, and so does each of the others.\<close>

lemma sector_of_cluster:
  assumes "2 \<le> c" "i < unat (sb_sectors_per_cluster (fat_sb fat))"
  shows "\<exists>s. cluster_id_to_sector_id fat c = Some s \<and> sector_id_to_cluster_id fat (s + i) = Inr (Some c)"
  using assms by (auto simp: cluster_id_to_sector_id_def sector_id_to_cluster_id_def)

end
