(* ===== verification/Fat32_Dir.thy ===== *)
theory Fat32_Dir
  imports Fat_Table
begin

text \<open>
  FAT32 directories (\<^verbatim>\<open>os/src/fs/fat32/dentry.rs\<close> and the directory operations of
  \<^verbatim>\<open>fs.rs\<close> and \<^verbatim>\<open>inode.rs\<close>): the 32-byte layouts of short and long entries, the handle of an
  entry, and finding, adding and removing entries.

  A directory is a sequence of 32-byte slots.  The second half of the file gives it the
  meaning of a list of items, an item being an entry whose name fits one long slot or the
  remains of a deleted slot, and shows that the operations refine the list operations.
\<close>

unbundle bit_operations_syntax

section \<open>Layout of a short entry\<close>

record Fat32DentryLayout =
  dl_name :: "u8 list"
  dl_ext :: "u8 list"
  dl_attr :: u8
  dl_reserved :: u8
  dl_create_time_ms :: u8
  dl_create_time :: u16
  dl_create_date :: u16
  dl_last_access_date :: u16
  dl_start_cluster_high :: u16
  dl_last_modify_time :: u16
  dl_last_modify_date :: u16
  dl_start_cluster_low :: u16
  dl_file_size :: u32

definition DENTRY_SIZE :: nat where "DENTRY_SIZE = 32"

definition Fat32DentryLayout_of :: "u8 list \<Rightarrow> Fat32DentryLayout" where
  "Fat32DentryLayout_of bs =
     \<lparr> dl_name = take 8 bs, dl_ext = take 3 (drop 8 bs), dl_attr = bs ! 11, dl_reserved = bs ! 12,
       dl_create_time_ms = bs ! 13, dl_create_time = u16_le (drop 14 bs), dl_create_date = u16_le (drop 16 bs),
       dl_last_access_date = u16_le (drop 18 bs), dl_start_cluster_high = u16_le (drop 20 bs),
       dl_last_modify_time = u16_le (drop 22 bs), dl_last_modify_date = u16_le (drop 24 bs),
       dl_start_cluster_low = u16_le (drop 26 bs), dl_file_size = u32_le (drop 28 bs) \<rparr>"

definition Fat32DentryLayout_bytes :: "Fat32DentryLayout \<Rightarrow> u8 list" where
  "Fat32DentryLayout_bytes l =
     dl_name l @ dl_ext l @ [dl_attr l, dl_reserved l, dl_create_time_ms l] @ le_u16 (dl_create_time l) @
     le_u16 (dl_create_date l) @ le_u16 (dl_last_access_date l) @ le_u16 (dl_start_cluster_high l) @
     le_u16 (dl_last_modify_time l) @ le_u16 (dl_last_modify_date l) @ le_u16 (dl_start_cluster_low l) @
     le_u32 (dl_file_size l)"

definition ATTR_SYSTEM :: u8 where "ATTR_SYSTEM = 4"
definition ATTR_VOLUME_ID :: u8 where "ATTR_VOLUME_ID = 8"
definition ATTR_DIRECTORY :: u8 where "ATTR_DIRECTORY = 16"
definition ATTR_ARCHIVE :: u8 where "ATTR_ARCHIVE = 32"

definition from_bits_truncate :: "u8 \<Rightarrow> u8" where
  "from_bits_truncate b = b AND 0x3F"

text \<open>The loop of \<^verbatim>\<open>Fat32DentryLayout::new\<close> over the characters of the name: the index, the two
  name fields and whether they hold a capital.\<close>

definition is_ascii_uppercase :: "u32 \<Rightarrow> bool" where
  "is_ascii_uppercase c \<longleftrightarrow> 0x41 \<le> c \<and> c \<le> 0x5A"

fun short_name :: "rstring \<Rightarrow> nat \<Rightarrow> u8 list \<Rightarrow> u8 list \<Rightarrow> bool \<Rightarrow> bool \<Rightarrow> u8 list \<times> u8 list \<times> bool \<times> bool" where
  "short_name [] i name ext name_capital ext_capital = (name, ext, name_capital, ext_capital)"
| "short_name (c # cs) i name ext name_capital ext_capital =
     (if c = 0x2E then short_name cs 8 name ext name_capital ext_capital
      else if i < 8 then
        short_name cs (i + 1) (name[i := ucast c]) ext (is_ascii_uppercase c \<or> name_capital) ext_capital
      else if i < 11 then
        short_name cs (i + 1) name (ext[i - 8 := ucast c]) name_capital (is_ascii_uppercase c \<or> ext_capital)
      else (name, ext, name_capital, ext_capital))"

definition Fat32DentryLayout_new :: "rstring \<Rightarrow> u8 \<Rightarrow> nat \<Rightarrow> u32 \<Rightarrow> Fat32DentryLayout" where
  "Fat32DentryLayout_new file_name attr start_cluster file_size =
     (let (name, ext, name_capital, ext_capital) =
        short_name file_name 0 (replicate 8 0) (replicate 3 0) False False in
      \<lparr> dl_name = name, dl_ext = ext, dl_attr = attr,
        dl_reserved = (if name_capital then 0x08 else 0) OR (if ext_capital then 0x10 else 0),
        dl_create_time_ms = 0, dl_create_time = 0, dl_create_date = 0, dl_last_access_date = 0,
        dl_start_cluster_high = of_nat (start_cluster div 0x10000), dl_last_modify_time = 0, dl_last_modify_date = 0,
        dl_start_cluster_low = of_nat start_cluster, dl_file_size = file_size \<rparr>)"

definition dl_is_long :: "Fat32DentryLayout \<Rightarrow> bool" where
  "dl_is_long l \<longleftrightarrow> dl_attr l AND 0x0F = 0x0F"

definition dl_is_deleted :: "Fat32DentryLayout \<Rightarrow> bool" where
  "dl_is_deleted l \<longleftrightarrow> dl_name l ! 0 = 0xE5"

definition dl_is_empty :: "Fat32DentryLayout \<Rightarrow> bool" where
  "dl_is_empty l \<longleftrightarrow> dl_name l ! 0 = 0"

definition dl_attributes :: "Fat32DentryLayout \<Rightarrow> u8" where
  "dl_attributes l = from_bits_truncate (dl_attr l)"

definition dl_start_cluster_id :: "Fat32DentryLayout \<Rightarrow> u32" where
  "dl_start_cluster_id l = push_bit 16 (ucast (dl_start_cluster_high l)) OR ucast (dl_start_cluster_low l)"

definition dl_set_deleted :: "Fat32DentryLayout \<Rightarrow> Fat32DentryLayout" where
  "dl_set_deleted l = l\<lparr> dl_name := (dl_name l)[0 := 0xE5] \<rparr>"

text \<open>Characters are pushed up to the first space; every byte is a character.\<close>

definition short_chars :: "u8 list \<Rightarrow> rstring" where
  "short_chars bs = map ucast (takeWhile (\<lambda>b. b \<noteq> 0x20) bs)"

definition dl_full_name :: "Fat32DentryLayout \<Rightarrow> rstring" where
  "dl_full_name l = short_chars (dl_name l) @ [0x2E] @ short_chars (dl_ext l)"

section \<open>Layout of a long entry\<close>

record Fat32LDentryLayout =
  ll_order :: u8
  ll_name1 :: "u16 list"
  ll_attr :: u8
  ll_reserved :: u8
  ll_checksum :: u8
  ll_name2 :: "u16 list"
  ll_start_cluster :: u16
  ll_name3 :: "u16 list"

definition u16s_le :: "nat \<Rightarrow> u8 list \<Rightarrow> u16 list" where
  "u16s_le n bs = map (\<lambda>i. u16_le (drop (2 * i) bs)) [0..<n]"

definition Fat32LDentryLayout_of :: "u8 list \<Rightarrow> Fat32LDentryLayout" where
  "Fat32LDentryLayout_of bs =
     \<lparr> ll_order = bs ! 0, ll_name1 = u16s_le 5 (drop 1 bs), ll_attr = bs ! 11, ll_reserved = bs ! 12,
       ll_checksum = bs ! 13, ll_name2 = u16s_le 6 (drop 14 bs), ll_start_cluster = u16_le (drop 26 bs),
       ll_name3 = u16s_le 2 (drop 28 bs) \<rparr>"

definition Fat32LDentryLayout_bytes :: "Fat32LDentryLayout \<Rightarrow> u8 list" where
  "Fat32LDentryLayout_bytes l =
     ll_order l # concat (map le_u16 (ll_name1 l)) @ [ll_attr l, ll_reserved l, ll_checksum l] @
     concat (map le_u16 (ll_name2 l)) @ le_u16 (ll_start_cluster l) @ concat (map le_u16 (ll_name3 l))"

fun long_name :: "rstring \<Rightarrow> nat \<Rightarrow> u16 list \<Rightarrow> u16 list \<Rightarrow> u16 list \<Rightarrow> (u16 list \<times> u16 list \<times> u16 list) res" where
  "long_name [] i name1 name2 name3 = Inr (name1, name2, name3)"
| "long_name (c # cs) i name1 name2 name3 =
     (if i < 5 then long_name cs (i + 1) (name1[i := ucast c]) name2 name3
      else if i < 11 then long_name cs (i + 1) name1 (name2[i - 5 := ucast c]) name3
      else if i - 11 < length name3 then long_name cs (i + 1) name1 name2 (name3[i - 11 := ucast c])
      else Inl Index_out_of_bounds)"

definition Fat32LDentryLayout_new :: "u8 \<Rightarrow> rstring \<Rightarrow> bool \<Rightarrow> Fat32LDentryLayout res" where
  "Fat32LDentryLayout_new order name is_end =
     bindR (long_name name 0 (replicate 5 0) (replicate 6 0) (replicate 2 0)) (\<lambda>(name1, name2, name3).
       Inr \<lparr> ll_order = (if is_end then order OR 0x40 else order), ll_name1 = name1, ll_attr = 0x0F, ll_reserved = 0,
         ll_checksum = 0, ll_name2 = name2, ll_start_cluster = 0, ll_name3 = name3 \<rparr>)"

definition from_short_layout :: "Fat32DentryLayout \<Rightarrow> Fat32LDentryLayout option" where
  "from_short_layout l =
     (if dl_attr l AND 0x0F \<noteq> 0x0F then None
      else
        let pair = (\<lambda>a b. ucast a OR push_bit 8 (ucast b)) :: u8 \<Rightarrow> u8 \<Rightarrow> u16; n = (\<lambda>i. dl_name l ! i); e = (\<lambda>i. dl_ext l ! i) in
        Some \<lparr> ll_order = n 0,
          ll_name1 = [pair (n 1) (n 2), pair (n 3) (n 4), pair (n 5) (n 6), pair (n 7) (e 0), pair (e 1) (e 2)],
          ll_attr = dl_attr l, ll_reserved = dl_reserved l, ll_checksum = dl_create_time_ms l,
          ll_name2 = [dl_create_time l, dl_create_date l, dl_last_access_date l, dl_start_cluster_high l,
            dl_last_modify_time l, dl_last_modify_date l],
          ll_start_cluster = dl_start_cluster_low l,
          ll_name3 = [ucast (dl_file_size l), ucast (drop_bit 16 (dl_file_size l))] \<rparr>)"

definition ll_is_end :: "Fat32LDentryLayout \<Rightarrow> bool" where
  "ll_is_end l \<longleftrightarrow> ll_order l AND 0x40 \<noteq> 0"

definition ll_is_deleted :: "Fat32LDentryLayout \<Rightarrow> bool" where
  "ll_is_deleted l \<longleftrightarrow> ll_order l = 0xE5"

definition ll_is_empty :: "Fat32LDentryLayout \<Rightarrow> bool" where
  "ll_is_empty l \<longleftrightarrow> ll_order l = 0"

definition ll_is_valid :: "Fat32LDentryLayout \<Rightarrow> bool" where
  "ll_is_valid l \<longleftrightarrow> \<not> ll_is_end l \<and> \<not> ll_is_deleted l \<and> \<not> ll_is_empty l"

text \<open>One of the three loops of \<^verbatim>\<open>Fat32LDentryLayout::name\<close>: the characters so far and whether a
  zero ended the name.\<close>

fun long_chars :: "u16 list \<Rightarrow> rstring \<Rightarrow> (rstring \<times> bool) res" where
  "long_chars [] name = Inr (name, False)"
| "long_chars (w # ws) name =
     (if w = 0 then Inr (name, True)
      else bindR (unwrapR (char_from_u32 (ucast w))) (\<lambda>c. long_chars ws (name @ [c])))"

definition ll_full_name :: "Fat32LDentryLayout \<Rightarrow> rstring res" where
  "ll_full_name l =
     bindR (long_chars (ll_name1 l) []) (\<lambda>(name, finished).
       if finished then Inr name
       else bindR (long_chars (ll_name2 l) name) (\<lambda>(name, finished).
         if finished then Inr name
         else bindR (long_chars (ll_name3 l) name) (\<lambda>(name, _). Inr name)))"

section \<open>The handle of an entry\<close>

record Fat32Dentry =
  de_sector_id :: nat
  de_sector_offset :: nat
  de_deleted :: bool
  de_fat :: FAT

definition Fat32Dentry_new :: "nat \<Rightarrow> nat \<Rightarrow> FAT \<Rightarrow> Fat32Dentry" where
  "Fat32Dentry_new sector_id sector_offset fat =
     \<lparr> de_sector_id = sector_id, de_sector_offset = sector_offset, de_deleted = False, de_fat = fat \<rparr>"

definition Fat32Dentry_new_deleted :: "FAT \<Rightarrow> Fat32Dentry" where
  "Fat32Dentry_new_deleted fat = \<lparr> de_sector_id = 0, de_sector_offset = 0, de_deleted = True, de_fat = fat \<rparr>"

definition read_dentry :: "Fat32Dentry \<Rightarrow> BlockState \<Rightarrow> (Fat32DentryLayout \<times> BlockState) res" where
  "read_dentry d st = block_read (de_sector_id d) DENTRY_SIZE (de_sector_offset d) Fat32DentryLayout_of st"

definition write_dentry :: "Fat32Dentry \<Rightarrow> Fat32DentryLayout \<Rightarrow> BlockState \<Rightarrow> (unit \<times> BlockState) res" where
  "write_dentry d layout st =
     block_modify (de_sector_id d) DENTRY_SIZE (de_sector_offset d) (\<lambda>_. ((), Fat32DentryLayout_bytes layout)) st"

definition has_attr :: "u8 \<Rightarrow> Fat32Dentry \<Rightarrow> BlockState \<Rightarrow> (bool \<times> BlockState) res" where
  "has_attr a d st = bindR (read_dentry d st) (\<lambda>(l, st'). Inr (dl_attributes l = a, st'))"

definition Fat32Dentry_is_system :: "Fat32Dentry \<Rightarrow> BlockState \<Rightarrow> (bool \<times> BlockState) res" where
  "Fat32Dentry_is_system = has_attr ATTR_SYSTEM"

definition Fat32Dentry_is_dir :: "Fat32Dentry \<Rightarrow> BlockState \<Rightarrow> (bool \<times> BlockState) res" where
  "Fat32Dentry_is_dir = has_attr ATTR_DIRECTORY"

definition Fat32Dentry_is_volume_id :: "Fat32Dentry \<Rightarrow> BlockState \<Rightarrow> (bool \<times> BlockState) res" where
  "Fat32Dentry_is_volume_id = has_attr ATTR_VOLUME_ID"

text \<open>The conjunction stops at the first test that fails.\<close>

definition Fat32Dentry_is_file :: "Fat32Dentry \<Rightarrow> BlockState \<Rightarrow> (bool \<times> BlockState) res" where
  "Fat32Dentry_is_file d st =
     bindR (Fat32Dentry_is_dir d st) (\<lambda>(dir, st1).
       if dir then Inr (False, st1)
       else bindR (Fat32Dentry_is_volume_id d st1) (\<lambda>(vol, st2).
         if vol then Inr (False, st2)
         else bindR (Fat32Dentry_is_system d st2) (\<lambda>(sys, st3). Inr (\<not> sys, st3))))"

definition Fat32Dentry_is_deleted :: "Fat32Dentry \<Rightarrow> bool" where
  "Fat32Dentry_is_deleted d = de_deleted d"

definition Fat32Dentry_is_long :: "Fat32Dentry \<Rightarrow> BlockState \<Rightarrow> (bool \<times> BlockState) res" where
  "Fat32Dentry_is_long d st = bindR (read_dentry d st) (\<lambda>(l, st'). Inr (dl_is_long l, st'))"

definition step_dentry :: "FAT \<Rightarrow> nat \<times> nat \<Rightarrow> BlockState \<Rightarrow> ((nat \<times> nat) \<times> BlockState) res" where
  "step_dentry fat = (\<lambda>(sector_id, offset) st.
     bindR (next_dentry_id fat sector_id offset st) (\<lambda>(n, st'). bindR (unwrapR n) (\<lambda>p. Inr (p, st'))))"

definition read_long :: "nat \<times> nat \<Rightarrow> BlockState \<Rightarrow> (Fat32LDentryLayout \<times> BlockState) res" where
  "read_long = (\<lambda>(sector_id, offset) st. block_read sector_id DENTRY_SIZE offset Fat32LDentryLayout_of st)"

partial_function (option) name_loop ::
  "FAT \<Rightarrow> nat \<times> nat \<Rightarrow> rstring \<Rightarrow> BlockState \<Rightarrow> (rstring \<times> BlockState) res option" where
  "name_loop fat p name st =
     bindO (Some (read_long p st)) (\<lambda>(layout, st1).
     bindO (Some (ll_full_name layout)) (\<lambda>piece.
       if ll_is_end layout then Some (Inr (piece @ name, st1))
       else bindO (Some (step_dentry fat p st1)) (\<lambda>(p', st2). name_loop fat p' (piece @ name) st2)))"

definition Fat32Dentry_name :: "Fat32Dentry \<Rightarrow> BlockState \<Rightarrow> (rstring \<times> BlockState) res option" where
  "Fat32Dentry_name d st =
     bindO (Some (Fat32Dentry_is_long d st)) (\<lambda>(long, st1).
       if long then name_loop (de_fat d) (de_sector_id d, de_sector_offset d) [] st1
       else Some (block_read (de_sector_id d) DENTRY_SIZE (de_sector_offset d) (\<lambda>bs. dl_full_name (Fat32DentryLayout_of bs)) st1))"

partial_function (option) end_loop ::
  "FAT \<Rightarrow> nat \<times> nat \<Rightarrow> BlockState \<Rightarrow> ((nat \<times> nat) \<times> BlockState) res option" where
  "end_loop fat p st =
     bindO (Some (read_long p st)) (\<lambda>(layout, st1).
     bindO (Some (step_dentry fat p st1)) (\<lambda>(p', st2).
       if ll_is_end layout then Some (Inr (p', st2)) else end_loop fat p' st2))"

definition to_end :: "Fat32Dentry \<Rightarrow> BlockState \<Rightarrow> ((nat \<times> nat) \<times> BlockState) res option" where
  "to_end d st =
     bindO (Some (Fat32Dentry_is_long d st)) (\<lambda>(long, st1).
       if \<not> long then Some (Inr ((de_sector_id d, de_sector_offset d), st1))
       else end_loop (de_fat d) (de_sector_id d, de_sector_offset d) st1)"

definition Fat32Dentry_file_size :: "Fat32Dentry \<Rightarrow> BlockState \<Rightarrow> (nat \<times> BlockState) res option" where
  "Fat32Dentry_file_size d st =
     bindO (to_end d st) (\<lambda>((sector_id, offset), st1).
       Some (block_read sector_id DENTRY_SIZE offset (\<lambda>bs. unat (dl_file_size (Fat32DentryLayout_of bs))) st1))"

definition Fat32Dentry_set_file_size :: "Fat32Dentry \<Rightarrow> nat \<Rightarrow> BlockState \<Rightarrow> (unit \<times> BlockState) res option" where
  "Fat32Dentry_set_file_size d n st =
     bindO (to_end d st) (\<lambda>((sector_id, offset), st1).
       Some (block_modify sector_id DENTRY_SIZE offset
         (\<lambda>bs. ((), Fat32DentryLayout_bytes ((Fat32DentryLayout_of bs)\<lparr> dl_file_size := of_nat n \<rparr>))) st1))"

definition Fat32Dentry_start_cluster_id :: "Fat32Dentry \<Rightarrow> BlockState \<Rightarrow> (nat \<times> BlockState) res option" where
  "Fat32Dentry_start_cluster_id d st =
     bindO (to_end d st) (\<lambda>((sector_id, offset), st1).
       Some (block_read sector_id DENTRY_SIZE offset (\<lambda>bs. unat (dl_start_cluster_id (Fat32DentryLayout_of bs))) st1))"

section \<open>Entries of a directory\<close>

text \<open>\<^verbatim>\<open>Fat32FS::next_dentry_id\<close> is the same text as \<^verbatim>\<open>FAT::next_dentry_id\<close>, with the super block
  of the file system.\<close>

definition Fat32FS_next_dentry_id :: "Fat32FS \<Rightarrow> nat \<Rightarrow> nat \<Rightarrow> BlockState \<Rightarrow> ((nat \<times> nat) option \<times> BlockState) res" where
  "Fat32FS_next_dentry_id fs sector_id offset st =
     (if offset \<ge> 512 \<or> offset mod 32 \<noteq> 0 then Inr (None, st)
      else
        let next_offset = offset + 32 in
        if next_offset \<ge> 512 then
          let next_sector_id = sector_id + 1; spc = unat (sb_sectors_per_cluster (fs_sb fs)) in
          if spc = 0 then Inl div_zero
          else if next_sector_id mod spc = 0 then
            bindR (next_cluster_id (fs_fat fs) sector_id st) (\<lambda>(n, st'). Inr (map_option (\<lambda>s. (s, 0)) n, st'))
          else Inr (Some (next_sector_id, 0), st)
        else Inr (Some (sector_id, next_offset), st))"

definition step_fs :: "Fat32FS \<Rightarrow> nat \<times> nat \<Rightarrow> BlockState \<Rightarrow> ((nat \<times> nat) \<times> BlockState) res" where
  "step_fs fs = (\<lambda>(sector_id, offset) st.
     bindR (Fat32FS_next_dentry_id fs sector_id offset st) (\<lambda>(n, st'). bindR (unwrapR n) (\<lambda>p. Inr (p, st'))))"

partial_function (option) skip_long ::
  "Fat32FS \<Rightarrow> nat \<times> nat \<Rightarrow> BlockState \<Rightarrow> ((nat \<times> nat) \<times> BlockState) res option" where
  "skip_long fs p st =
     bindO (Some (read_long p st)) (\<lambda>(layout, st1).
     bindO (Some (step_fs fs p st1)) (\<lambda>(p', st2).
       if ll_is_end layout then Some (Inr (p', st2)) else skip_long fs p' st2))"

definition get_dentry :: "Fat32FS \<Rightarrow> nat \<times> nat \<Rightarrow> BlockState \<Rightarrow> ((Fat32Dentry option \<times> nat \<times> nat) \<times> BlockState) res option" where
  "get_dentry fs p st =
     (case p of (sector_id, offset) \<Rightarrow>
       if offset \<ge> 512 \<or> offset mod 32 \<noteq> 0 then Some (Inr ((None, p), st))
       else bindO (Some (block_read sector_id DENTRY_SIZE offset Fat32DentryLayout_of st)) (\<lambda>(layout, st1).
         let dentry = (if dl_is_empty layout then None
               else if dl_is_deleted layout then Some (Fat32Dentry_new_deleted (fs_fat fs))
               else Some (Fat32Dentry_new sector_id offset (fs_fat fs)));
             is_long_entry = (\<not> dl_is_empty layout \<and> \<not> dl_is_deleted layout \<and> dl_is_long layout) in
         bindO (if is_long_entry then skip_long fs p st1 else Some (Inr (p, st1))) (\<lambda>(p1, st2).
         bindO (Some (step_fs fs p1 st2)) (\<lambda>(p2, st3). Some (Inr ((dentry, p2), st3))))))"

partial_function (option) find_empty ::
  "Fat32FS \<Rightarrow> nat \<times> nat \<Rightarrow> BlockState \<Rightarrow> ((nat \<times> nat) \<times> BlockState) res option" where
  "find_empty fs p st =
     bindO (Some (block_read (fst p) DENTRY_SIZE (snd p) (\<lambda>bs. dl_is_empty (Fat32DentryLayout_of bs)) st)) (\<lambda>(found, st1).
       if found then Some (Inr (p, st1))
       else bindO (Some (step_fs fs p st1)) (\<lambda>(p', st2). find_empty fs p' st2))"

text \<open>The loop that writes the pieces of the name; \<^verbatim>\<open>order\<close> is a byte and wraps.  Every turn
  advances the position by at least one byte.\<close>

function write_pieces :: "Fat32FS \<Rightarrow> rstring \<Rightarrow> nat \<Rightarrow> u8 \<Rightarrow> nat \<times> nat \<Rightarrow> BlockState \<Rightarrow> ((nat \<times> nat) \<times> BlockState) res" where
  "write_pieces fs name pos order p st =
     (if pos < str_len name then
        let copy_len = min 13 (str_len name - pos) in
        bindR (str_slice pos (pos + copy_len) name) (\<lambda>piece.
        bindR (Fat32LDentryLayout_new order piece (pos + copy_len = str_len name)) (\<lambda>layout.
        bindR (block_modify (fst p) DENTRY_SIZE (snd p) (\<lambda>_. ((), Fat32LDentryLayout_bytes layout)) st) (\<lambda>(_, st1).
        bindR (step_fs fs p st1) (\<lambda>(p', st2).
          write_pieces fs name (pos + copy_len) (order + 1) p' st2))))
      else Inr (p, st))"
  by pat_completeness auto
termination
  by (relation "measure (\<lambda>(fs, name, pos, order, p, st). str_len name - pos)") auto

declare write_pieces.simps [simp del]

definition insert_dentry ::
  "Fat32FS \<Rightarrow> nat \<Rightarrow> rstring \<Rightarrow> u8 \<Rightarrow> u32 \<Rightarrow> nat \<Rightarrow> BlockState \<Rightarrow> (Fat32Dentry option \<times> BlockState) res option" where
  "insert_dentry fs cluster_id name attr file_size start_cluster st =
     bindO (Some (unwrapR (cluster_id_to_sector_id (fs_fat fs) cluster_id))) (\<lambda>sector_id.
     bindO (find_empty fs (sector_id, 0) st) (\<lambda>(p, st1).
     bindO (Some (write_pieces fs name 0 1 p st1)) (\<lambda>((sector_id, offset), st2).
     bindO (Some (block_modify sector_id DENTRY_SIZE offset
         (\<lambda>_. ((), Fat32DentryLayout_bytes (Fat32DentryLayout_new name attr start_cluster file_size))) st2)) (\<lambda>(_, st3).
       Some (Inr (Some (Fat32Dentry_new sector_id offset (fs_fat fs)), st3))))))"

text \<open>The end mark is tested after the order byte has been overwritten with \<^verbatim>\<open>0xE5\<close>.\<close>

partial_function (option) remove_pieces ::
  "Fat32FS \<Rightarrow> nat \<times> nat \<Rightarrow> BlockState \<Rightarrow> ((nat \<times> nat) \<times> BlockState) res option" where
  "remove_pieces fs p st =
     bindO (Some (block_modify (fst p) DENTRY_SIZE (snd p)
       (\<lambda>bs. let layout = (Fat32LDentryLayout_of bs)\<lparr> ll_order := 0xE5 \<rparr> in
          (ll_is_end layout, Fat32LDentryLayout_bytes layout)) st)) (\<lambda>(is_end, st1).
     bindO (Some (step_fs fs p st1)) (\<lambda>(p', st2).
       if is_end then Some (Inr (p', st2)) else remove_pieces fs p' st2))"

definition remove_dentry :: "Fat32FS \<Rightarrow> Fat32Dentry \<Rightarrow> BlockState \<Rightarrow> (unit \<times> BlockState) res option" where
  "remove_dentry fs dentry st =
     bindO (Some (Fat32Dentry_is_long dentry st)) (\<lambda>(long, st1).
     bindO (if long then remove_pieces fs (de_sector_id dentry, de_sector_offset dentry) st1
            else Some (Inr ((de_sector_id dentry, de_sector_offset dentry), st1))) (\<lambda>((sector_id, offset), st2).
       Some (block_modify sector_id DENTRY_SIZE offset
         (\<lambda>bs. ((), Fat32DentryLayout_bytes (dl_set_deleted (Fat32DentryLayout_of bs)))) st2)))"

section \<open>Directory inodes\<close>

datatype Fat32InodeType = Fat32_File | Fat32_Dir | Fat32_VolumeId

datatype InodeType = Regular | Directory | BlockDevice | CharDevice | PipeInode

record Fat32Inode =
  in_type :: Fat32InodeType
  in_dentry :: "Fat32Dentry option"
  in_start_cluster :: nat
  in_fs :: Fat32FS

definition root_inode :: "Fat32FS \<Rightarrow> Fat32Inode" where
  "root_inode fs = \<lparr> in_type = Fat32_Dir, in_dentry = None, in_start_cluster = unat (sb_root_cluster (fs_sb fs)), in_fs = fs \<rparr>"

text \<open>A directory entry of the kernel: a name and the inode.\<close>

record Dentry =
  dn_name :: rstring
  dn_inode :: Fat32Inode

definition dentry_type :: "Fat32Dentry \<Rightarrow> BlockState \<Rightarrow> (Fat32InodeType \<times> BlockState) res" where
  "dentry_type d st =
     bindR (Fat32Dentry_is_file d st) (\<lambda>(file, st1).
       if file then Inr (Fat32_File, st1)
       else bindR (Fat32Dentry_is_dir d st1) (\<lambda>(dir, st2). Inr (if dir then Fat32_Dir else Fat32_VolumeId, st2)))"

partial_function (option) lookup_loop ::
  "Fat32FS \<Rightarrow> rstring \<Rightarrow> nat \<times> nat \<Rightarrow> BlockState \<Rightarrow> (Dentry option \<times> BlockState) res option" where
  "lookup_loop fs name p st =
     bindO (get_dentry fs p st) (\<lambda>((d, p'), st1).
       case d of
         None \<Rightarrow> Some (Inr (None, st1))
       | Some dentry \<Rightarrow>
           bindO (Some (dentry_type dentry st1)) (\<lambda>(itype, st2).
           bindO (Fat32Dentry_name dentry st2) (\<lambda>(n, st3).
             if n = name then
               bindO (Fat32Dentry_start_cluster_id dentry st3) (\<lambda>(c, st4).
                 Some (Inr (Some \<lparr> dn_name = name, dn_inode =
                   \<lparr> in_type = itype, in_dentry = Some dentry, in_start_cluster = c, in_fs = fs \<rparr> \<rparr>, st4)))
             else lookup_loop fs name p' st3)))"

definition lookup :: "Fat32Inode \<Rightarrow> rstring \<Rightarrow> BlockState \<Rightarrow> (Dentry option \<times> BlockState) res option" where
  "lookup inode name st =
     bindO (Some (unwrapR (cluster_id_to_sector_id (fs_fat (in_fs inode)) (in_start_cluster inode)))) (\<lambda>sector_id.
       lookup_loop (in_fs inode) name (sector_id, 0) st)"

definition create :: "Fat32Inode \<Rightarrow> rstring \<Rightarrow> InodeType \<Rightarrow> BlockState \<Rightarrow> (Dentry option \<times> BlockState) res option" where
  "create inode name itype st =
     bindO (lookup inode name st) (\<lambda>(found, st1).
       if found \<noteq> None then Some (Inr (None, st1))
       else
         let fs = in_fs inode;
             attr = (case itype of Regular \<Rightarrow> ATTR_ARCHIVE | Directory \<Rightarrow> ATTR_DIRECTORY | _ \<Rightarrow> ATTR_ARCHIVE) in
         bindO (alloc_new_cluster (fs_fat fs) st1) (\<lambda>(c, st2).
         bindO (Some (unwrapR c)) (\<lambda>start_cluster.
         bindO (insert_dentry fs (in_start_cluster inode) name attr 0 start_cluster st2) (\<lambda>(d, st3).
         bindO (Some (unwrapR d)) (\<lambda>dentry.
           Some (Inr (Some \<lparr> dn_name = name, dn_inode =
             \<lparr> in_type = (if itype = Regular then Fat32_File else Fat32_Dir), in_dentry = Some dentry,
               in_start_cluster = start_cluster, in_fs = fs \<rparr> \<rparr>, st3)))))))"

partial_function (option) unlink_loop ::
  "Fat32FS \<Rightarrow> rstring \<Rightarrow> nat \<times> nat \<Rightarrow> BlockState \<Rightarrow> (bool \<times> BlockState) res option" where
  "unlink_loop fs name p st =
     bindO (get_dentry fs p st) (\<lambda>((d, p'), st1).
       case d of
         None \<Rightarrow> Some (Inr (False, st1))
       | Some dentry \<Rightarrow>
           bindO (Fat32Dentry_name dentry st1) (\<lambda>(n, st2).
             if n = name then bindO (remove_dentry fs dentry st2) (\<lambda>(_, st3). Some (Inr (True, st3)))
             else unlink_loop fs name p' st2))"

definition unlink :: "Fat32Inode \<Rightarrow> rstring \<Rightarrow> BlockState \<Rightarrow> (bool \<times> BlockState) res option" where
  "unlink inode name st =
     bindO (Some (unwrapR (cluster_id_to_sector_id (fs_fat (in_fs inode)) (in_start_cluster inode)))) (\<lambda>sector_id.
       unlink_loop (in_fs inode) name (sector_id, 0) st)"

partial_function (option) ls_loop ::
  "Fat32FS \<Rightarrow> rstring list \<Rightarrow> nat \<times> nat \<Rightarrow> BlockState \<Rightarrow> (rstring list \<times> BlockState) res option" where
  "ls_loop fs v p st =
     bindO (get_dentry fs p st) (\<lambda>((d, p'), st1).
       case d of
         None \<Rightarrow> Some (Inr (v, st1))
       | Some dentry \<Rightarrow> bindO (Fat32Dentry_name dentry st1) (\<lambda>(n, st2). ls_loop fs (v @ [n]) p' st2))"

definition ls :: "Fat32Inode \<Rightarrow> BlockState \<Rightarrow> (rstring list \<times> BlockState) res option" where
  "ls inode st =
     bindO (Some (unwrapR (cluster_id_to_sector_id (fs_fat (in_fs inode)) (in_start_cluster inode)))) (\<lambda>sector_id.
       ls_loop (in_fs inode) [] (sector_id, 0) st)"

section \<open>Layouts and bytes\<close>

lemma le_u16_u16: "2 \<le> length bs \<Longrightarrow> le_u16 (u16_le bs) = take 2 bs"
proof -
  assume "2 \<le> length bs"
  then obtain a b r where bs: "bs = a # b # r"
    by (metis Suc_le_length_iff numeral_2_eq_2)
  have "ucast (u16_le bs) = a" "ucast (drop_bit 8 (u16_le bs)) = b"
    by (rule bit_word_eqI, auto simp: u16_le_def bs bit_simps dest: bit_imp_le_length)+
  then show ?thesis by (simp add: le_u16_def bs)
qed

lemma le_u32_u32_take: "4 \<le> length bs \<Longrightarrow> le_u32 (u32_le bs) = take 4 bs"
  using le_u32_u32 [of "take 4 bs"] by (simp add: u32_le_def)

lemma take_drop_drop: "take n (drop m bs) @ drop (m + n) bs = drop m bs"
  by (metis add.commute append_take_drop_id drop_drop)

lemma Fat32DentryLayout_bytes_of:
  assumes "length bs = DENTRY_SIZE"
  shows "Fat32DentryLayout_bytes (Fat32DentryLayout_of bs) = bs"
proof -
  have l: "length bs = 32" using assms by (simp add: DENTRY_SIZE_def)
  have w: "le_u16 (u16_le (drop m bs)) = take 2 (drop m bs)" if "m \<le> 30" for m
    using that l by (intro le_u16_u16) simp
  have "le_u32 (u32_le (drop 28 bs)) = drop 28 bs" using le_u32_u32_take [of "drop 28 bs"] l by simp
  moreover have "[bs ! 11, bs ! 12, bs ! 13] @ drop 14 bs = drop 11 bs"
    using l Cons_nth_drop_Suc [of 11 bs] Cons_nth_drop_Suc [of 12 bs] Cons_nth_drop_Suc [of 13 bs] by simp
  moreover have "take 8 bs @ take 3 (drop 8 bs) @ drop 11 bs = bs"
    using take_drop_drop [of 3 8 bs] by simp
  ultimately show ?thesis
    using take_drop_drop [of 2 14 bs] take_drop_drop [of 2 16 bs] take_drop_drop [of 2 18 bs] take_drop_drop [of 2 20 bs]
      take_drop_drop [of 2 22 bs] take_drop_drop [of 2 24 bs] take_drop_drop [of 2 26 bs]
    by (simp add: Fat32DentryLayout_bytes_def Fat32DentryLayout_of_def w)
qed

definition dl_wf :: "Fat32DentryLayout \<Rightarrow> bool" where
  "dl_wf l \<longleftrightarrow> length (dl_name l) = 8 \<and> length (dl_ext l) = 3"

lemma length_dl_bytes: "dl_wf l \<Longrightarrow> length (Fat32DentryLayout_bytes l) = DENTRY_SIZE"
  by (simp add: dl_wf_def Fat32DentryLayout_bytes_def DENTRY_SIZE_def)

lemma drop_append_length: "length xs = n \<Longrightarrow> drop n (xs @ ys) = ys"
  by simp

lemma Fat32DentryLayout_of_bytes:
  assumes "dl_wf l"
  shows "Fat32DentryLayout_of (Fat32DentryLayout_bytes l) = l"
proof -
  define h where "h = dl_name l @ dl_ext l @ [dl_attr l, dl_reserved l, dl_create_time_ms l]"
  have h: "length h = 14" "take 8 h = dl_name l" "take 3 (drop 8 h) = dl_ext l" "h ! 11 = dl_attr l" "h ! 12 = dl_reserved l"
    "h ! 13 = dl_create_time_ms l"
    using assms by (simp_all add: h_def dl_wf_def nth_append)
  have d: "drop (n + 2) xs = drop 2 (drop n xs)" for n and xs :: "u8 list" by simp
  have d2: "drop 2 (le_u16 w @ r) = r" for w r by simp
  define b where "b = Fat32DentryLayout_bytes l"
  have b: "b = h @ le_u16 (dl_create_time l) @ le_u16 (dl_create_date l) @ le_u16 (dl_last_access_date l) @
     le_u16 (dl_start_cluster_high l) @ le_u16 (dl_last_modify_time l) @ le_u16 (dl_last_modify_date l) @
     le_u16 (dl_start_cluster_low l) @ le_u32 (dl_file_size l)"
    by (simp add: b_def h_def Fat32DentryLayout_bytes_def)
  note f14 = drop_append_length [OF h(1)]
  have drops: "drop 16 b = drop 2 (drop 14 b)" "drop 18 b = drop 2 (drop 16 b)" "drop 20 b = drop 2 (drop 18 b)"
    "drop 22 b = drop 2 (drop 20 b)" "drop 24 b = drop 2 (drop 22 b)" "drop 26 b = drop 2 (drop 24 b)" "drop 28 b = drop 2 (drop 26 b)"
    by simp_all
  have hd: "take 8 b = dl_name l" "take 3 (drop 8 b) = dl_ext l" "b ! 11 = dl_attr l" "b ! 12 = dl_reserved l"
    "b ! 13 = dl_create_time_ms l"
    using h by (simp_all add: b nth_append)
  have "u16_le (drop 14 b) = dl_create_time l" "u16_le (drop 16 b) = dl_create_date l" "u16_le (drop 18 b) = dl_last_access_date l"
    "u16_le (drop 20 b) = dl_start_cluster_high l" "u16_le (drop 22 b) = dl_last_modify_time l"
    "u16_le (drop 24 b) = dl_last_modify_date l" "u16_le (drop 26 b) = dl_start_cluster_low l" "u32_le (drop 28 b) = dl_file_size l"
    unfolding drops unfolding b f14 d2 by (simp_all only: u16_le_append u32_le_u32)
  then show ?thesis
    unfolding b_def [symmetric] Fat32DentryLayout_of_def hd by simp
qed

lemma u16s_le_Suc: "u16s_le (Suc n) bs = u16_le bs # u16s_le n (drop 2 bs)"
  unfolding u16s_le_def upt_conv_Cons [OF zero_less_Suc] by (simp add: map_Suc_upt [symmetric] del: upt_Suc)

lemma u16s_le_concat: "length ws = n \<Longrightarrow> u16s_le n (concat (map le_u16 ws) @ r) = ws"
  by (induction ws arbitrary: n) (auto simp: u16s_le_Suc u16s_le_def [of 0])

lemma concat_u16s_le: "2 * n \<le> length bs \<Longrightarrow> concat (map le_u16 (u16s_le n bs)) = take (2 * n) bs"
proof (induction n arbitrary: bs)
  case (Suc n)
  then show ?case using take_add [of 2 "2 * n" bs] by (simp add: u16s_le_Suc le_u16_u16)
qed (simp add: u16s_le_def)

lemma Fat32LDentryLayout_bytes_of:
  assumes "length bs = DENTRY_SIZE"
  shows "Fat32LDentryLayout_bytes (Fat32LDentryLayout_of bs) = bs"
proof -
  have l: "length bs = 32" using assms by (simp add: DENTRY_SIZE_def)
  have "concat (map le_u16 (u16s_le 5 (drop 1 bs))) = take 10 (drop 1 bs)"
    "concat (map le_u16 (u16s_le 6 (drop 14 bs))) = take 12 (drop 14 bs)"
    "concat (map le_u16 (u16s_le 2 (drop 28 bs))) = drop 28 bs"
    "le_u16 (u16_le (drop 26 bs)) = take 2 (drop 26 bs)"
    using l concat_u16s_le [of 5 "drop 1 bs"] concat_u16s_le [of 6 "drop 14 bs"] concat_u16s_le [of 2 "drop 28 bs"]
      le_u16_u16 [of "drop 26 bs"] by simp_all
  moreover have "[bs ! 11, bs ! 12, bs ! 13] @ drop 14 bs = drop 11 bs"
    using l Cons_nth_drop_Suc [of 11 bs] Cons_nth_drop_Suc [of 12 bs] Cons_nth_drop_Suc [of 13 bs] by simp
  moreover have "bs ! 0 # drop 1 bs = bs" using l Cons_nth_drop_Suc [of 0 bs] by simp
  ultimately show ?thesis
    using take_drop_drop [of 10 1 bs] take_drop_drop [of 12 14 bs] take_drop_drop [of 2 26 bs]
    by (simp add: Fat32LDentryLayout_bytes_def Fat32LDentryLayout_of_def)
qed

definition ll_wf :: "Fat32LDentryLayout \<Rightarrow> bool" where
  "ll_wf l \<longleftrightarrow> length (ll_name1 l) = 5 \<and> length (ll_name2 l) = 6 \<and> length (ll_name3 l) = 2"

lemma length_concat_le: "length (concat (map le_u16 ws)) = 2 * length ws"
  by (induction ws) simp_all

lemma length_ll_bytes: "ll_wf l \<Longrightarrow> length (Fat32LDentryLayout_bytes l) = DENTRY_SIZE"
  by (simp add: ll_wf_def Fat32LDentryLayout_bytes_def DENTRY_SIZE_def length_concat_le)

lemma Fat32LDentryLayout_of_bytes:
  assumes "ll_wf l"
  shows "Fat32LDentryLayout_of (Fat32LDentryLayout_bytes l) = l"
proof -
  define n1 where "n1 = concat (map le_u16 (ll_name1 l))"
  define n2 where "n2 = concat (map le_u16 (ll_name2 l))"
  define n3 where "n3 = concat (map le_u16 (ll_name3 l))"
  define b where "b = Fat32LDentryLayout_bytes l"
  have len: "length n1 = 10" "length n2 = 12" "length n3 = 4"
    using assms by (simp_all add: ll_wf_def n1_def n2_def n3_def length_concat_le)
  have b: "b = ll_order l # n1 @ [ll_attr l, ll_reserved l, ll_checksum l] @ n2 @ le_u16 (ll_start_cluster l) @ n3"
    by (simp add: b_def Fat32LDentryLayout_bytes_def n1_def n2_def n3_def)
  have p: "b ! 0 = ll_order l" "b ! 11 = ll_attr l" "b ! 12 = ll_reserved l" "b ! 13 = ll_checksum l"
    using len(1) by (simp_all add: b nth_append)
  have d: "drop 1 b = n1 @ [ll_attr l, ll_reserved l, ll_checksum l] @ n2 @ le_u16 (ll_start_cluster l) @ n3"
    "drop 14 b = n2 @ le_u16 (ll_start_cluster l) @ n3" "drop 26 b = le_u16 (ll_start_cluster l) @ n3" "drop 28 b = n3"
    using len by (simp_all add: b)
  have "u16s_le 5 (drop 1 b) = ll_name1 l" "u16s_le 6 (drop 14 b) = ll_name2 l" "u16s_le 2 (drop 28 b) = ll_name3 l"
    using assms u16s_le_concat [of "ll_name3 l" 2 "[]"] unfolding d n1_def n2_def n3_def ll_wf_def by (simp_all add: u16s_le_concat)
  moreover have "u16_le (drop 26 b) = ll_start_cluster l" by (simp add: d)
  ultimately show ?thesis unfolding b_def [symmetric] Fat32LDentryLayout_of_def p by simp
qed

text \<open>The conversion of a short layout reads the same bytes as the long layout does.\<close>

lemma from_short_layout_same_bytes:
  assumes "length bs = DENTRY_SIZE" "dl_is_long (Fat32DentryLayout_of bs)"
  shows "from_short_layout (Fat32DentryLayout_of bs) = Some (Fat32LDentryLayout_of bs)"
proof -
  have l: "length bs = 32" using assms by (simp add: DENTRY_SIZE_def)
  have "u16s_le 5 xs = [u16_le xs, u16_le (drop 2 xs), u16_le (drop 4 xs), u16_le (drop 6 xs), u16_le (drop 8 xs)]"
    "u16s_le 6 xs = [u16_le xs, u16_le (drop 2 xs), u16_le (drop 4 xs), u16_le (drop 6 xs), u16_le (drop 8 xs), u16_le (drop 10 xs)]"
    "u16s_le 2 xs = [u16_le xs, u16_le (drop 2 xs)]" for xs
    by (simp_all add: eval_nat_numeral u16s_le_Suc u16s_le_def [of 0])
  moreover have "ucast (u32_le xs) = u16_le xs" "ucast (drop_bit 16 (u32_le xs)) = u16_le (drop 2 xs)" if "4 \<le> length xs" for xs
    using that by (intro bit_word_eqI, auto simp: u32_le_def u16_le_def bit_simps dest: bit_imp_le_length)+
  ultimately show ?thesis
    using assms(2) l
    by (simp add: from_short_layout_def dl_is_long_def Fat32DentryLayout_of_def Fat32LDentryLayout_of_def u16_le_def Let_def numeral_2_eq_2 [symmetric])
qed
section \<open>Names\<close>

lemma long_name_spec:
  assumes "length n1 = 5" "length n2 = 6" "length n3 = 2" "i + length cs \<le> 13"
  shows "\<exists>m1 m2 m3. long_name cs i n1 n2 n3 = Inr (m1, m2, m3) \<and> length m1 = 5 \<and> length m2 = 6 \<and> length m3 = 2 \<and>
    m1 @ m2 @ m3 = take i (n1 @ n2 @ n3) @ map ucast cs @ drop (i + length cs) (n1 @ n2 @ n3)"
  using assms
proof (induction cs arbitrary: i n1 n2 n3)
  case Nil
  then show ?case using append_take_drop_id [of i "n1 @ n2 @ n3"] by (simp del: append_take_drop_id take_append drop_append)
next
  case (Cons c cs)
  define all where "all = n1 @ n2 @ n3"
  have la: "length all = 13" using Cons.prems by (simp add: all_def)
  obtain k1 k2 k3 where k: "long_name (c # cs) i n1 n2 n3 = long_name cs (i + 1) k1 k2 k3" "length k1 = 5" "length k2 = 6" "length k3 = 2"
    "k1 @ k2 @ k3 = all[i := ucast c]"
  proof (cases "i < 5")
    case True
    then show ?thesis using Cons.prems that [of "n1[i := ucast c]" n2 n3] by (simp add: all_def list_update_append)
  next
    case False
    show ?thesis
    proof (cases "i < 11")
      case True
      then have "i - 5 < 6" using False by simp
      then show ?thesis using True False Cons.prems that [of n1 "n2[i - 5 := ucast c]" n3] by (simp add: all_def list_update_append)
    next
      case b: False
      then have "\<not> i - 5 < 6" "i - 5 - 6 = i - 11" "i - 11 < 2" using Cons.prems(4) by simp_all
      then show ?thesis using b False Cons.prems that [of n1 n2 "n3[i - 11 := ucast c]"] by (simp add: all_def list_update_append)
    qed
  qed
  obtain m1 m2 m3 where m: "long_name cs (i + 1) k1 k2 k3 = Inr (m1, m2, m3)" "length m1 = 5" "length m2 = 6" "length m3 = 2"
    "m1 @ m2 @ m3 = take (i + 1) (k1 @ k2 @ k3) @ map ucast cs @ drop (i + 1 + length cs) (k1 @ k2 @ k3)"
    using Cons.IH [OF k(2-4), of "i + 1"] Cons.prems(4) by auto
  have "take (i + 1) (all[i := ucast c]) = take i all @ [ucast c]"
    using la Cons.prems(4) by (simp add: take_Suc_conv_app_nth)
  then show ?case using k(1) m unfolding k(5) by (simp add: all_def)
qed

lemma long_chars_append:
  "long_chars (xs @ ys) name = bindR (long_chars xs name) (\<lambda>(n, finished). if finished then Inr (n, True) else long_chars ys n)"
  by (induction xs arbitrary: name) (auto simp: bindR_def split: sum.splits)

lemma ll_full_name_concat:
  "ll_full_name l = bindR (long_chars (ll_name1 l @ ll_name2 l @ ll_name3 l) []) (\<lambda>(n, _). Inr n)"
  by (auto simp: ll_full_name_def long_chars_append bindR_def split: sum.splits)

definition plain_name :: "rstring \<Rightarrow> bool" where
  "plain_name s \<longleftrightarrow> ascii s \<and> 0 \<notin> set s"

lemma ascii_u16:
  assumes "c < (0x80 :: u32)"
  shows "ucast (ucast c :: u16) = c" "ucast c = (0 :: u16) \<longleftrightarrow> c = 0"
proof -
  have "unat c < 2 ^ 16" using assms by (simp add: word_less_nat_alt)
  then show "ucast (ucast c :: u16) = c"
    by (simp add: word_unat_eq_iff unsigned_ucast_eq unsigned_take_bit_eq take_bit_nat_eq_self)
  then show "ucast c = (0 :: u16) \<longleftrightarrow> c = 0" by auto
qed

lemma long_chars_plain: "plain_name cs \<Longrightarrow> long_chars (map ucast cs @ replicate n 0) pre = Inr (pre @ cs, 0 < n)"
proof (induction cs arbitrary: pre)
  case Nil
  then show ?case by (cases n) simp_all
next
  case (Cons c cs)
  then show ?case by (simp add: plain_name_def ascii_def ascii_u16 ascii_char unwrapR_def)
qed

lemma Fat32LDentryLayout_new_spec:
  assumes "plain_name name" "length name \<le> 13"
  shows "\<exists>l. Fat32LDentryLayout_new order name is_end = Inr l \<and> ll_wf l \<and> ll_full_name l = Inr name \<and> ll_attr l = 0x0F \<and>
    ll_order l = (if is_end then order OR 0x40 else order)"
proof -
  have z: "replicate 5 0 @ replicate 6 0 @ replicate 2 (0 :: u16) = replicate 13 0"
    by (simp add: replicate_add [symmetric])
  obtain m1 m2 m3 where m: "long_name name 0 (replicate 5 0) (replicate 6 0) (replicate 2 0) = Inr (m1, m2, m3)"
    "length m1 = 5" "length m2 = 6" "length m3 = 2" "m1 @ m2 @ m3 = map ucast name @ replicate (13 - length name) 0"
    using long_name_spec [of "replicate 5 0" "replicate 6 0" "replicate 2 0" 0 name] assms(2) unfolding z by auto
  then show ?thesis
    using long_chars_plain [OF assms(1), of "13 - length name" "[]"]
    by (simp add: Fat32LDentryLayout_new_def ll_wf_def ll_full_name_concat)
qed

lemma short_name_wf: "\<lbrakk> short_name cs i name ext b b' = (name', ext', r) \<rbrakk> \<Longrightarrow> length name' = length name \<and> length ext' = length ext"
  by (induction cs arbitrary: i name ext b b') (auto split: if_splits)

lemma Fat32DentryLayout_new_spec:
  assumes "c < 2 ^ 32"
  shows "dl_wf (Fat32DentryLayout_new name attr c n)" "unat (dl_start_cluster_id (Fat32DentryLayout_new name attr c n)) = c"
    "dl_file_size (Fat32DentryLayout_new name attr c n) = n" "dl_attr (Fat32DentryLayout_new name attr c n) = attr"
proof -
  obtain nm ex b b' where s: "short_name name 0 (replicate 8 0) (replicate 3 0) False False = (nm, ex, b, b')"
    by (metis prod_cases4)
  show "dl_wf (Fat32DentryLayout_new name attr c n)" "dl_file_size (Fat32DentryLayout_new name attr c n) = n"
    "dl_attr (Fat32DentryLayout_new name attr c n) = attr"
    using short_name_wf [OF s] by (simp_all add: dl_wf_def Fat32DentryLayout_new_def s)
  have d: "c div 0x10000 = drop_bit 16 c" by (simp add: drop_bit_eq_div)
  have "push_bit 16 (ucast (of_nat (c div 0x10000) :: u16)) OR ucast (of_nat c :: u16) = (of_nat c :: u32)"
    unfolding d by (rule bit_word_eqI) (auto simp: bit_simps bit_of_nat_iff_bit)
  then show "unat (dl_start_cluster_id (Fat32DentryLayout_new name attr c n)) = c"
    using assms by (simp add: dl_start_cluster_id_def Fat32DentryLayout_new_def s unat_of_nat take_bit_nat_eq_self)
qed

section \<open>Computations over the blocks\<close>

text \<open>Running a computation from any state whose blocks have the contents \<^term>\<open>V\<close> returns
  \<^term>\<open>v\<close> and leaves the contents \<^term>\<open>W\<close>, whatever is cached.\<close>

definition does :: "(BlockState \<Rightarrow> ('a \<times> BlockState) res option) \<Rightarrow> disk \<Rightarrow> 'a \<Rightarrow> disk \<Rightarrow> bool" where
  "does m V v W \<longleftrightarrow> (\<forall>st. blocks_ok st \<and> blk st = V \<longrightarrow>
     (\<exists>st'. m st = Some (Inr (v, st')) \<and> blocks_ok st' \<and> blk st' = W))"

lemma doesD: "\<lbrakk> does m V v W; blocks_ok st; blk st = V \<rbrakk> \<Longrightarrow> \<exists>st'. m st = Some (Inr (v, st')) \<and> blocks_ok st' \<and> blk st' = W"
  by (simp add: does_def)

lemma does_ext: "\<lbrakk> \<And>st. m st = m' st; does m' V v W \<rbrakk> \<Longrightarrow> does m V v W"
  by (simp add: does_def)

lemma does_return: "does (\<lambda>st. Some (Inr (v, st))) V v V"
  by (simp add: does_def)

lemma does_bind: "\<lbrakk> does m V v W; does (k v) W w X \<rbrakk> \<Longrightarrow> does (\<lambda>st. bindO (m st) (case_prod k)) V w X"
  by (fastforce simp: does_def)

lemma does_bindR:
  "\<lbrakk> does (\<lambda>st. Some (m st)) V v W; does (\<lambda>st. Some (k v st)) W w X \<rbrakk> \<Longrightarrow>
    does (\<lambda>st. Some (bindR (m st) (case_prod k))) V w X"
  by (fastforce simp: does_def)

section \<open>Slots\<close>

type_synonym place = "nat \<times> nat"

definition slot :: "disk \<Rightarrow> place \<Rightarrow> u8 list" where
  "slot V p = take DENTRY_SIZE (drop (snd p) (V (fst p)))"

definition place_ok :: "place \<Rightarrow> bool" where
  "place_ok p \<longleftrightarrow> snd p < 512 \<and> snd p mod 32 = 0"

definition disk_ok :: "disk \<Rightarrow> bool" where
  "disk_ok V \<longleftrightarrow> (\<forall>b. length (V b) = BLOCK_SZ)"

definition set_slot :: "disk \<Rightarrow> place \<Rightarrow> u8 list \<Rightarrow> disk" where
  "set_slot V p bs = V(fst p := splice (snd p) bs (V (fst p)))"

lemma place_fits: "place_ok p \<Longrightarrow> snd p + DENTRY_SIZE \<le> BLOCK_SZ" "place_ok p \<Longrightarrow> snd p < BLOCK_SZ"
proof -
  assume "place_ok p"
  then obtain k where k: "snd p = 32 * k" "snd p < 512" unfolding place_ok_def by (metis mod_0_imp_dvd dvdE)
  then show "snd p + DENTRY_SIZE \<le> BLOCK_SZ" "snd p < BLOCK_SZ" by (simp_all add: DENTRY_SIZE_def BLOCK_SZ_def)
qed

lemma length_slot: "\<lbrakk> disk_ok V; place_ok p \<rbrakk> \<Longrightarrow> length (slot V p) = DENTRY_SIZE"
  using place_fits(1) [of p] by (simp add: slot_def disk_ok_def)

lemma disk_ok_set_slot: "\<lbrakk> disk_ok V; place_ok p; length bs = DENTRY_SIZE \<rbrakk> \<Longrightarrow> disk_ok (set_slot V p bs)"
  using place_fits(1) [of p] by (simp add: disk_ok_def set_slot_def)

lemma slot_set_slot:
  assumes "disk_ok V" "place_ok p" "place_ok q" "length bs = DENTRY_SIZE"
  shows "slot (set_slot V p bs) q = (if q = p then bs else slot V q)"
proof -
  note f = place_fits(1) [OF assms(2)] place_fits(1) [OF assms(3)]
  have len: "length (V b) = BLOCK_SZ" for b using assms(1) by (simp add: disk_ok_def)
  show ?thesis
  proof (cases "q = p")
    case True
    then show ?thesis using splice_same [of "snd p" bs "V (fst p)"] f(1) assms(4) len
      by (simp add: slot_def set_slot_def)
  next
    case False
    show ?thesis
    proof (cases "fst q = fst p")
      case same: True
      obtain i j where ij: "snd p = 32 * i" "snd q = 32 * j"
        using assms(2,3) unfolding place_ok_def by (metis mod_0_imp_dvd dvdE)
      moreover have "i \<noteq> j" using same False ij by (metis prod_eq_iff)
      ultimately have "snd q + DENTRY_SIZE \<le> snd p \<or> snd p + length bs \<le> snd q"
        using assms(4) by (simp add: DENTRY_SIZE_def) linarith
      from splice_other [OF len _ this f(2)] show ?thesis
        using False same f(1) assms(4) by (simp add: slot_def set_slot_def)
    qed (use False in \<open>simp add: slot_def set_slot_def\<close>)
  qed
qed

lemma set_slot_other: "b \<noteq> fst p \<Longrightarrow> set_slot V p bs b = V b"
  by (simp add: set_slot_def)

lemma blocks_ok_disk: "blocks_ok st \<Longrightarrow> disk_ok (blk st)"
  by (simp add: disk_ok_def bs.view_len)

lemma does_read:
  assumes "place_ok p"
  shows "does (\<lambda>st. Some (block_read (fst p) DENTRY_SIZE (snd p) f st)) V (f (slot V p)) V"
  unfolding does_def using bs.read_ok [OF _ place_fits [OF assms], where b = "fst p" and f = f] by (auto simp: slot_def)

lemma does_modify:
  assumes "place_ok p" "g (slot V p) = (w, bs)" "length bs = DENTRY_SIZE"
  shows "does (\<lambda>st. Some (block_modify (fst p) DENTRY_SIZE (snd p) g st)) V w (set_slot V p bs)"
  unfolding does_def
proof (intro allI impI, elim conjE)
  fix st assume "blocks_ok st" "blk st = V"
  then show "\<exists>st'. Some (block_modify (fst p) DENTRY_SIZE (snd p) g st) = Some (Inr (w, st')) \<and> blocks_ok st' \<and> blk st' = set_slot V p bs"
    using bs.modify_ok [OF _ place_fits [OF assms(1)], of st g "fst p" w bs] assms(2,3)
    by (auto simp: slot_def set_slot_def)
qed

text \<open>The next slot of a directory that does not leave its cluster.\<close>

definition next_slot :: "FAT \<Rightarrow> place \<Rightarrow> place option" where
  "next_slot fat p =
     (if snd p + 32 < 512 then Some (fst p, snd p + 32)
      else if (fst p + 1) mod unat (sb_sectors_per_cluster (fat_sb fat)) \<noteq> 0 \<and> sb_sectors_per_cluster (fat_sb fat) \<noteq> 0
      then Some (fst p + 1, 0) else None)"

lemma next_slot_ok: "\<lbrakk> next_slot fat p = Some q; place_ok p \<rbrakk> \<Longrightarrow> place_ok q \<and> fst q * 512 + snd q = fst p * 512 + snd p + 32"
proof -
  assume n: "next_slot fat p = Some q" and p: "place_ok p"
  obtain k where k: "snd p = 32 * k" "snd p < 512" using p unfolding place_ok_def by (metis mod_0_imp_dvd dvdE)
  show "place_ok q \<and> fst q * 512 + snd q = fst p * 512 + snd p + 32"
    using n k by (auto simp: next_slot_def place_ok_def split: if_splits)
qed

lemma next_dentry_id_slot: "\<lbrakk> next_slot fat p = Some q; place_ok p \<rbrakk> \<Longrightarrow> next_dentry_id fat (fst p) (snd p) st = Inr (Some q, st)"
  by (auto simp: next_slot_def next_dentry_id_def place_ok_def Let_def unat_eq_zero split: if_splits)

definition fs_ok :: "Fat32FS \<Rightarrow> bool" where
  "fs_ok fs \<longleftrightarrow> fat_sb (fs_fat fs) = fs_sb fs"

lemma Fat32FS_next_dentry_id_same: "fs_ok fs \<Longrightarrow> Fat32FS_next_dentry_id fs = next_dentry_id (fs_fat fs)"
  by (intro ext) (simp add: Fat32FS_next_dentry_id_def next_dentry_id_def fs_ok_def)

lemma does_step: "\<lbrakk> next_slot fat p = Some q; place_ok p \<rbrakk> \<Longrightarrow> does (\<lambda>st. Some (step_dentry fat p st)) V q V"
  by (cases p) (use next_dentry_id_slot [of fat p q] in \<open>simp add: step_dentry_def unwrapR_def does_return\<close>)

lemma does_step_fs: "\<lbrakk> fs_ok fs; next_slot (fs_fat fs) p = Some q; place_ok p \<rbrakk> \<Longrightarrow> does (\<lambda>st. Some (step_fs fs p st)) V q V"
  by (cases p) (use next_dentry_id_slot [of "fs_fat fs" p q] in
      \<open>simp add: step_fs_def unwrapR_def does_return Fat32FS_next_dentry_id_same\<close>)

lemma does_read_long: "place_ok p \<Longrightarrow> does (\<lambda>st. Some (read_long p st)) V (Fat32LDentryLayout_of (slot V p)) V"
  using does_read [of p Fat32LDentryLayout_of V] by (simp add: read_long_def split_beta)

section \<open>Directories as lists of items\<close>

datatype item = Live rstring u8 nat u32 | Dead

definition long_at :: "disk \<Rightarrow> place \<Rightarrow> rstring \<Rightarrow> bool" where
  "long_at V p name \<longleftrightarrow> (let l = Fat32LDentryLayout_of (slot V p) in
     ll_attr l = 0x0F \<and> ll_is_end l \<and> \<not> ll_is_deleted l \<and> ll_full_name l = Inr name)"

definition short_at :: "disk \<Rightarrow> place \<Rightarrow> u8 \<Rightarrow> nat \<Rightarrow> u32 \<Rightarrow> bool" where
  "short_at V p a c z \<longleftrightarrow> (let l = Fat32DentryLayout_of (slot V p) in
     dl_attr l = a \<and> unat (dl_start_cluster_id l) = c \<and> dl_file_size l = z \<and> \<not> dl_is_empty l)"

fun items_at :: "FAT \<Rightarrow> disk \<Rightarrow> place \<Rightarrow> item list \<Rightarrow> place \<Rightarrow> bool" where
  "items_at fat V p [] q = (p = q)"
| "items_at fat V p (Dead # is) q = (dl_is_deleted (Fat32DentryLayout_of (slot V p)) \<and>
     (case next_slot fat p of None \<Rightarrow> False | Some p' \<Rightarrow> items_at fat V p' is q))"
| "items_at fat V p (Live n a c z # is) q = (long_at V p n \<and>
     (case next_slot fat p of None \<Rightarrow> False | Some p1 \<Rightarrow> short_at V p1 a c z \<and>
     (case next_slot fat p1 of None \<Rightarrow> False | Some p2 \<Rightarrow> items_at fat V p2 is q)))"

definition empty_at :: "FAT \<Rightarrow> disk \<Rightarrow> place \<Rightarrow> bool" where
  "empty_at fat V q \<longleftrightarrow> dl_is_empty (Fat32DentryLayout_of (slot V q)) \<and> next_slot fat q \<noteq> None"

definition dir_at :: "FAT \<Rightarrow> disk \<Rightarrow> place \<Rightarrow> item list \<Rightarrow> place \<Rightarrow> bool" where
  "dir_at fat V p is q \<longleftrightarrow> place_ok p \<and> items_at fat V p is q \<and> empty_at fat V q"

text \<open>The handle of a deleted slot refers to the first slot of block 0, the boot sector.\<close>

definition boot_name :: "disk \<Rightarrow> rstring" where
  "boot_name V = dl_full_name (Fat32DentryLayout_of (slot V (0, 0)))"

definition boot_short :: "disk \<Rightarrow> bool" where
  "boot_short V \<longleftrightarrow> \<not> dl_is_long (Fat32DentryLayout_of (slot V (0, 0)))"

definition item_name :: "disk \<Rightarrow> item \<Rightarrow> rstring" where
  "item_name V i = (case i of Live n a c z \<Rightarrow> n | Dead \<Rightarrow> boot_name V)"

lemma layout_fields:
  assumes "length bs = DENTRY_SIZE"
  shows "dl_is_empty (Fat32DentryLayout_of bs) \<longleftrightarrow> bs ! 0 = 0" "dl_is_deleted (Fat32DentryLayout_of bs) \<longleftrightarrow> bs ! 0 = 0xE5"
    "dl_is_long (Fat32DentryLayout_of bs) \<longleftrightarrow> bs ! 11 AND 0x0F = 0x0F"
    "ll_order (Fat32LDentryLayout_of bs) = bs ! 0" "ll_attr (Fat32LDentryLayout_of bs) = bs ! 11"
    "dl_attr (Fat32DentryLayout_of bs) = bs ! 11"
  using assms by (simp_all add: Fat32DentryLayout_of_def Fat32LDentryLayout_of_def dl_is_empty_def dl_is_deleted_def
      dl_is_long_def DENTRY_SIZE_def)

lemma long_at_layout:
  assumes "disk_ok V" "place_ok p" "long_at V p n"
  shows "\<not> dl_is_empty (Fat32DentryLayout_of (slot V p))" "\<not> dl_is_deleted (Fat32DentryLayout_of (slot V p))"
    "dl_is_long (Fat32DentryLayout_of (slot V p))" "dl_attr (Fat32DentryLayout_of (slot V p)) = 0x0F"
  using assms(3) layout_fields [OF length_slot [OF assms(1,2)]]
  by (auto simp: long_at_def Let_def ll_is_end_def ll_is_deleted_def)

lemma does_is_long:
  "place_ok (s, off) \<Longrightarrow> does (\<lambda>st. Some (Fat32Dentry_is_long \<lparr> de_sector_id = s, de_sector_offset = off, de_deleted = d, de_fat = fat \<rparr> st)) V
     (dl_is_long (Fat32DentryLayout_of (slot V (s, off)))) V"
  using does_bindR [OF does_read [of "(s, off)" Fat32DentryLayout_of V] does_return, of "\<lambda>l. dl_is_long l"]
  by (simp add: Fat32Dentry_is_long_def read_dentry_def)

definition slot_type :: "disk \<Rightarrow> place \<Rightarrow> Fat32InodeType" where
  "slot_type V p = (let a = dl_attributes (Fat32DentryLayout_of (slot V p)) in
     if a = ATTR_DIRECTORY then Fat32_Dir else if a = ATTR_VOLUME_ID \<or> a = ATTR_SYSTEM then Fat32_VolumeId else Fat32_File)"

lemma does_has_attr:
  "place_ok (s, off) \<Longrightarrow> does (\<lambda>st. Some (has_attr a \<lparr> de_sector_id = s, de_sector_offset = off, de_deleted = d, de_fat = fat \<rparr> st)) V
     (dl_attributes (Fat32DentryLayout_of (slot V (s, off))) = a) V"
  using does_bindR [OF does_read [of "(s, off)" Fat32DentryLayout_of V] does_return, of "\<lambda>l. dl_attributes l = a"]
  by (simp add: has_attr_def read_dentry_def)

lemma does_dentry_type:
  assumes "place_ok (s, off)"
  shows "does (\<lambda>st. Some (dentry_type \<lparr> de_sector_id = s, de_sector_offset = off, de_deleted = d, de_fat = fat \<rparr> st)) V (slot_type V (s, off)) V"
proof -
  let ?d = "\<lparr> de_sector_id = s, de_sector_offset = off, de_deleted = d, de_fat = fat \<rparr>"
    and ?a = "dl_attributes (Fat32DentryLayout_of (slot V (s, off)))"
  note h = does_has_attr [OF assms, where d = d and fat = fat and V = V]
  have v: "does (\<lambda>st. Some (Fat32Dentry_is_file ?d st)) V (slot_type V (s, off) = Fat32_File) V"
    unfolding Fat32Dentry_is_file_def Fat32Dentry_is_dir_def Fat32Dentry_is_volume_id_def Fat32Dentry_is_system_def
    apply (rule does_bindR [OF h])
    apply (cases "?a = ATTR_DIRECTORY")
     apply (simp add: slot_type_def does_return)
    apply simp
    apply (rule does_bindR [OF h])
    apply (cases "?a = ATTR_VOLUME_ID")
     apply (simp add: slot_type_def does_return)
    apply simp
    apply (rule does_bindR [OF h])
    by (simp add: slot_type_def does_return)
  show ?thesis
    unfolding dentry_type_def
    apply (rule does_bindR [OF v])
    apply (cases "slot_type V (s, off) = Fat32_File")
     apply (simp add: does_return)
    apply (simp add: Fat32Dentry_is_dir_def)
    apply (rule does_bindR [OF h])
    by (auto simp: slot_type_def Let_def does_return split: if_splits)
qed

lemma does_name_live:
  assumes V: "disk_ok V" and p: "place_ok p" and l: "long_at V p n"
  shows "does (Fat32Dentry_name (Fat32Dentry_new (fst p) (snd p) fat)) V n V"
proof -
  have "does (name_loop fat p []) V n V"
    apply (rule does_ext, rule name_loop.simps)
    apply (rule does_bind [OF does_read_long [OF p]])
    using l by (simp add: long_at_def Let_def does_return)
  then show ?thesis
    apply (intro does_ext [of "Fat32Dentry_name (Fat32Dentry_new (fst p) (snd p) fat)"], unfold Fat32Dentry_name_def Fat32Dentry_new_def)
     apply (rule refl)
    apply (rule does_bind [OF does_is_long])
    using p long_at_layout [OF V p l] by simp_all
qed

lemma does_name_dead:
  assumes "boot_short V"
  shows "does (Fat32Dentry_name (Fat32Dentry_new_deleted fat)) V (boot_name V) V"
proof -
  have p: "place_ok (0, 0)" by (simp add: place_ok_def)
  show ?thesis
    apply (intro does_ext [of "Fat32Dentry_name (Fat32Dentry_new_deleted fat)"], unfold Fat32Dentry_name_def Fat32Dentry_new_deleted_def)
     apply (rule refl)
    apply (rule does_bind [OF does_is_long [OF p]])
    using assms does_read [OF p, of "\<lambda>bs. dl_full_name (Fat32DentryLayout_of bs)" V] by (simp add: boot_short_def boot_name_def)
qed

lemma does_to_end_live:
  assumes V: "disk_ok V" and p: "place_ok p" and l: "long_at V p n" and q: "next_slot fat p = Some q"
  shows "does (to_end (Fat32Dentry_new (fst p) (snd p) fat)) V q V"
proof -
  have "does (end_loop fat p) V q V"
    apply (rule does_ext, rule end_loop.simps)
    apply (rule does_bind [OF does_read_long [OF p]])
    apply (rule does_bind [OF does_step [OF q p]])
    using l by (simp add: long_at_def Let_def does_return)
  then show ?thesis
    apply (intro does_ext [of "to_end (Fat32Dentry_new (fst p) (snd p) fat)"], unfold to_end_def Fat32Dentry_new_def)
     apply (rule refl)
    apply (rule does_bind [OF does_is_long])
    using p long_at_layout [OF V p l] by simp_all
qed

lemma does_end_read:
  assumes "disk_ok V" "place_ok p" "long_at V p n" "next_slot fat p = Some q"
  shows "does (\<lambda>st. bindO (to_end (Fat32Dentry_new (fst p) (snd p) fat) st)
    (\<lambda>((sector_id, offset), st1). Some (block_read sector_id DENTRY_SIZE offset f st1))) V (f (slot V q)) V"
proof (rule does_bind [OF does_to_end_live [OF assms]])
  show "does (case q of (sector_id, offset) \<Rightarrow> \<lambda>st1. Some (block_read sector_id DENTRY_SIZE offset f st1)) V (f (slot V q)) V"
    using does_read [of q f V] next_slot_ok [OF assms(4,2)] by (cases q) simp
qed

lemma does_start_cluster_live:
  assumes "disk_ok V" "place_ok p" "long_at V p n" "next_slot fat p = Some q" "short_at V q a c z"
  shows "does (Fat32Dentry_start_cluster_id (Fat32Dentry_new (fst p) (snd p) fat)) V c V"
    "does (Fat32Dentry_file_size (Fat32Dentry_new (fst p) (snd p) fat)) V (unat z) V"
  using does_end_read [OF assms(1-4), of "\<lambda>bs. unat (dl_start_cluster_id (Fat32DentryLayout_of bs))"]
    does_end_read [OF assms(1-4), of "\<lambda>bs. unat (dl_file_size (Fat32DentryLayout_of bs))"] assms(5)
  by (simp_all add: Fat32Dentry_start_cluster_id_def [abs_def] Fat32Dentry_file_size_def [abs_def] short_at_def Let_def)

section \<open>Reading a directory\<close>

lemma get_dentry_eq:
  assumes "place_ok p"
  shows "get_dentry fs p st =
    bindO (Some (block_read (fst p) DENTRY_SIZE (snd p) Fat32DentryLayout_of st)) (\<lambda>(l, st1).
    bindO (if \<not> dl_is_empty l \<and> \<not> dl_is_deleted l \<and> dl_is_long l then skip_long fs p st1 else Some (Inr (p, st1))) (\<lambda>(p1, st2).
    bindO (Some (step_fs fs p1 st2)) (\<lambda>(p2, st3).
      Some (Inr ((if dl_is_empty l then None else if dl_is_deleted l then Some (Fat32Dentry_new_deleted (fs_fat fs))
        else Some (Fat32Dentry_new (fst p) (snd p) (fs_fat fs)), p2), st3)))))"
  using assms by (cases p) (simp add: get_dentry_def place_ok_def Let_def cong: if_cong)

lemma does_get_dentry:
  assumes p: "place_ok p" and fs: "fs_ok fs" and l: "l = Fat32DentryLayout_of (slot V p)"
    and m: "does (\<lambda>st. if \<not> dl_is_empty l \<and> \<not> dl_is_deleted l \<and> dl_is_long l then skip_long fs p st else Some (Inr (p, st))) V p1 V"
    and p1: "place_ok p1" "next_slot (fs_fat fs) p1 = Some p2"
  shows "does (get_dentry fs p) V (if dl_is_empty l then None else if dl_is_deleted l then Some (Fat32Dentry_new_deleted (fs_fat fs))
    else Some (Fat32Dentry_new (fst p) (snd p) (fs_fat fs)), p2) V"
proof (rule does_ext, rule get_dentry_eq [OF p], rule does_bind [OF does_read [OF p]], fold l)
  show "does (\<lambda>st1. bindO (if \<not> dl_is_empty l \<and> \<not> dl_is_deleted l \<and> dl_is_long l then skip_long fs p st1 else Some (Inr (p, st1))) (\<lambda>(p1, st2).
      bindO (Some (step_fs fs p1 st2)) (\<lambda>(p2, st3).
        Some (Inr ((if dl_is_empty l then None else if dl_is_deleted l then Some (Fat32Dentry_new_deleted (fs_fat fs))
          else Some (Fat32Dentry_new (fst p) (snd p) (fs_fat fs)), p2), st3)))))
    V (if dl_is_empty l then None else if dl_is_deleted l then Some (Fat32Dentry_new_deleted (fs_fat fs))
      else Some (Fat32Dentry_new (fst p) (snd p) (fs_fat fs)), p2) V"
    by (rule does_bind [OF m], rule does_bind [OF does_step_fs [OF fs p1(2,1)]], rule does_return)
qed

lemma does_skip_long:
  assumes "fs_ok fs" "place_ok p" "long_at V p n" "next_slot (fs_fat fs) p = Some q"
  shows "does (skip_long fs p) V q V"
  apply (rule does_ext, rule skip_long.simps)
  apply (rule does_bind [OF does_read_long [OF assms(2)]])
  apply (rule does_bind [OF does_step_fs [OF assms(1,4,2)]])
  using assms(3) by (simp add: long_at_def Let_def does_return)

lemma get_dentry_live:
  assumes "disk_ok V" "fs_ok fs" "place_ok p" "long_at V p n" "next_slot (fs_fat fs) p = Some p1" "next_slot (fs_fat fs) p1 = Some p2"
  shows "does (get_dentry fs p) V (Some (Fat32Dentry_new (fst p) (snd p) (fs_fat fs)), p2) V"
  using does_get_dentry [OF assms(3,2) refl, of V p1 p2] does_skip_long [OF assms(2-5)]
    long_at_layout [OF assms(1,3,4)] next_slot_ok [OF assms(5,3)] assms(6) by simp

lemma get_dentry_dead:
  assumes "fs_ok fs" "place_ok p" "dl_is_deleted (Fat32DentryLayout_of (slot V p))" "next_slot (fs_fat fs) p = Some p1"
  shows "does (get_dentry fs p) V (Some (Fat32Dentry_new_deleted (fs_fat fs)), p1) V"
  using does_get_dentry [OF assms(2,1) refl, of V p p1] does_return [of p V] assms
  by (simp add: dl_is_deleted_def dl_is_empty_def)

lemma get_dentry_empty:
  assumes "fs_ok fs" "place_ok p" "empty_at (fs_fat fs) V p"
  shows "\<exists>p1. does (get_dentry fs p) V (None, p1) V"
proof -
  obtain p1 where "next_slot (fs_fat fs) p = Some p1" using assms(3) by (auto simp: empty_at_def)
  then show ?thesis
    using does_get_dentry [OF assms(2,1) refl, of V p p1] does_return [of p V] assms
    by (intro exI [of _ p1]) (simp add: empty_at_def)
qed

lemma items_at_place_ok: "\<lbrakk> items_at fat V p is q; place_ok p \<rbrakk> \<Longrightarrow> place_ok q"
proof (induction "is" arbitrary: p)
  case (Cons i "is")
  then show ?case by (cases i) (auto split: option.splits dest: next_slot_ok)
qed simp

lemma dir_entry_live:
  assumes V: "disk_ok V" and fs: "fs_ok fs" and d: "dir_at (fs_fat fs) V p (Live n a c z # is) q" and f: "f = Fat32Dentry_new (fst p) (snd p) (fs_fat fs)"
  shows "\<exists>p'. does (get_dentry fs p) V (Some f, p') V \<and> dir_at (fs_fat fs) V p' is q \<and> items_at (fs_fat fs) V p [Live n a c z] p'"
    "does (Fat32Dentry_name f) V n V" "does (\<lambda>st. Some (dentry_type f st)) V Fat32_File V"
    "does (Fat32Dentry_start_cluster_id f) V c V" "does (Fat32Dentry_file_size f) V (unat z) V"
proof -
  have p: "place_ok p" using d by (simp add: dir_at_def)
  obtain p1 p2 where i: "long_at V p n" "next_slot (fs_fat fs) p = Some p1" "next_slot (fs_fat fs) p1 = Some p2" "short_at V p1 a c z"
    "items_at (fs_fat fs) V p2 is q" "empty_at (fs_fat fs) V q"
    using d by (auto simp: dir_at_def split: option.splits)
  have p2: "place_ok p2" using next_slot_ok [OF i(2) p] next_slot_ok [OF i(3)] by simp
  show "\<exists>p'. does (get_dentry fs p) V (Some f, p') V \<and> dir_at (fs_fat fs) V p' is q \<and> items_at (fs_fat fs) V p [Live n a c z] p'"
    using get_dentry_live [OF V fs p i(1-3)] i p2 f by (intro exI [of _ p2]) (simp add: dir_at_def)
  show "does (Fat32Dentry_name f) V n V" "does (Fat32Dentry_start_cluster_id f) V c V" "does (Fat32Dentry_file_size f) V (unat z) V"
    unfolding f by (rule does_name_live [OF V p i(1)] does_start_cluster_live [OF V p i(1,2,4)])+
  have "slot_type V (fst p, snd p) = Fat32_File"
    using long_at_layout(4) [OF V p i(1)] by (simp add: slot_type_def dl_attributes_def from_bits_truncate_def ATTR_DIRECTORY_def ATTR_VOLUME_ID_def ATTR_SYSTEM_def)
  then show "does (\<lambda>st. Some (dentry_type f st)) V Fat32_File V"
    using does_dentry_type [of "fst p" "snd p" False "fs_fat fs" V] p unfolding f Fat32Dentry_new_def by simp
qed

lemma dir_entry_dead:
  assumes fs: "fs_ok fs" and d: "dir_at (fs_fat fs) V p (Dead # is) q" and f: "f = Fat32Dentry_new_deleted (fs_fat fs)" and b: "boot_short V"
  shows "\<exists>p'. does (get_dentry fs p) V (Some f, p') V \<and> dir_at (fs_fat fs) V p' is q \<and> items_at (fs_fat fs) V p [Dead] p'"
    "does (Fat32Dentry_name f) V (boot_name V) V" "does (\<lambda>st. Some (dentry_type f st)) V (slot_type V (0, 0)) V"
proof -
  have p: "place_ok p" using d by (simp add: dir_at_def)
  obtain p1 where i: "dl_is_deleted (Fat32DentryLayout_of (slot V p))" "next_slot (fs_fat fs) p = Some p1"
    "items_at (fs_fat fs) V p1 is q" "empty_at (fs_fat fs) V q"
    using d by (auto simp: dir_at_def split: option.splits)
  show "\<exists>p'. does (get_dentry fs p) V (Some f, p') V \<and> dir_at (fs_fat fs) V p' is q \<and> items_at (fs_fat fs) V p [Dead] p'"
    using get_dentry_dead [OF fs p i(1,2)] i next_slot_ok [OF i(2) p] f by (intro exI [of _ p1]) (simp add: dir_at_def)
  show "does (Fat32Dentry_name f) V (boot_name V) V" unfolding f by (rule does_name_dead [OF b])
  show "does (\<lambda>st. Some (dentry_type f st)) V (slot_type V (0, 0)) V"
    using does_dentry_type [of 0 0 True "fs_fat fs" V] unfolding f Fat32Dentry_new_deleted_def by (simp add: place_ok_def)
qed

text \<open>The next item, whatever it is.\<close>

lemma dir_entry:
  assumes V: "disk_ok V" and fs: "fs_ok fs" and d: "dir_at (fs_fat fs) V p (i # is) q" and b: "i = Dead \<longrightarrow> boot_short V"
  shows "\<exists>f p' t. does (get_dentry fs p) V (Some f, p') V \<and> does (Fat32Dentry_name f) V (item_name V i) V \<and>
    does (\<lambda>st. Some (dentry_type f st)) V t V \<and> dir_at (fs_fat fs) V p' is q \<and> items_at (fs_fat fs) V p [i] p'"
proof (cases i)
  case (Live n a c z)
  then show ?thesis using dir_entry_live [OF V fs d [unfolded Live] refl] by (auto simp: item_name_def simp del: split_paired_Ex items_at.simps)
next
  case Dead
  then show ?thesis using dir_entry_dead [OF fs d [unfolded Dead] refl] b by (auto simp: item_name_def simp del: split_paired_Ex items_at.simps)
qed

lemma dir_end:
  assumes "fs_ok fs" "dir_at (fs_fat fs) V p [] q"
  shows "\<exists>p1. does (get_dentry fs p) V (None, p1) V"
  using get_dentry_empty [OF assms(1), of p V] assms(2) by (auto simp: dir_at_def)

text \<open>Listing a directory gives the names of its entries and, for every deleted slot, the name
  that the boot sector would have as an entry.\<close>

lemma ls_loop_spec:
  assumes V: "disk_ok V" and fs: "fs_ok fs" and d: "dir_at (fs_fat fs) V p is q" "Dead \<in> set is \<longrightarrow> boot_short V"
  shows "does (ls_loop fs v p) V (v @ map (item_name V) is) V"
  using d
proof (induction "is" arbitrary: p v)
  case Nil
  then obtain p1 where g: "does (get_dentry fs p) V (None, p1) V" using dir_end [OF fs] by blast
  show ?case
    by (rule does_ext, rule ls_loop.simps, rule does_bind [OF g]) (simp add: does_return)
next
  case (Cons i "is")
  then obtain f p' where f: "does (get_dentry fs p) V (Some f, p') V" "does (Fat32Dentry_name f) V (item_name V i) V"
    "dir_at (fs_fat fs) V p' is q"
    using dir_entry [OF V fs Cons.prems(1)] by auto
  have "does (ls_loop fs (v @ [item_name V i]) p') V (v @ map (item_name V) (i # is)) V"
    using Cons.IH [OF f(3), of "v @ [item_name V i]"] Cons.prems(2) by simp
  then show ?case
    by (intro does_ext [OF ls_loop.simps], intro does_bind [OF f(1)]) (simp add: does_bind [OF f(2)])
qed

lemma lookup_loop_skip:
  assumes V: "disk_ok V" and fs: "fs_ok fs" and d: "dir_at (fs_fat fs) V p (i # is) q" "i = Dead \<longrightarrow> boot_short V" "name \<noteq> item_name V i"
    and rest: "\<And>p'. dir_at (fs_fat fs) V p' is q \<Longrightarrow> does (lookup_loop fs name p') V r V"
  shows "does (lookup_loop fs name p) V r V"
proof -
  obtain f p' t where f: "does (get_dentry fs p) V (Some f, p') V" "does (Fat32Dentry_name f) V (item_name V i) V"
    "does (\<lambda>st. Some (dentry_type f st)) V t V" "dir_at (fs_fat fs) V p' is q"
    using dir_entry [OF V fs d(1,2)] by auto
  show ?thesis
    by (intro does_ext [OF lookup_loop.simps], intro does_bind [OF f(1)])
      (simp, intro does_bind [OF f(3)] does_bind [OF f(2)], simp add: d(3) [symmetric] rest [OF f(4)])
qed

lemma lookup_loop_none:
  assumes "disk_ok V" "fs_ok fs" "dir_at (fs_fat fs) V p is q" "Dead \<in> set is \<longrightarrow> boot_short V" "name \<notin> item_name V ` set is"
  shows "does (lookup_loop fs name p) V None V"
  using assms(3-5)
proof (induction "is" arbitrary: p)
  case Nil
  then obtain p1 where g: "does (get_dentry fs p) V (None, p1) V" using dir_end [OF assms(2)] by blast
  show ?case
    by (rule does_ext, rule lookup_loop.simps, rule does_bind [OF g]) (simp add: does_return)
next
  case (Cons i "is")
  show ?case by (rule lookup_loop_skip [OF assms(1,2) Cons.prems(1)]) (use Cons in auto)
qed

lemma lookup_loop_found:
  assumes "disk_ok V" "fs_ok fs" "dir_at (fs_fat fs) V p (pre @ Live name a c z # post) q" "Dead \<in> set pre \<longrightarrow> boot_short V"
    "name \<notin> item_name V ` set pre"
  shows "\<exists>f. does (lookup_loop fs name p) V (Some \<lparr> dn_name = name, dn_inode =
      \<lparr> in_type = Fat32_File, in_dentry = Some f, in_start_cluster = c, in_fs = fs \<rparr> \<rparr>) V \<and>
    does (Fat32Dentry_file_size f) V (unat z) V"
proof -
  define P where "P r \<longleftrightarrow> (\<exists>f. r = Some \<lparr> dn_name = name, dn_inode =
      \<lparr> in_type = Fat32_File, in_dentry = Some f, in_start_cluster = c, in_fs = fs \<rparr> \<rparr> \<and>
    does (Fat32Dentry_file_size f) V (unat z) V)" for r
  have "\<exists>r. P r \<and> does (lookup_loop fs name p) V r V"
    using assms(3-5)
  proof (induction pre arbitrary: p)
    case Nil
    let ?f = "Fat32Dentry_new (fst p) (snd p) (fs_fat fs)"
    note e = dir_entry_live [OF assms(1,2) Nil.prems(1) [unfolded append_Nil] refl]
    obtain p' where g: "does (get_dentry fs p) V (Some ?f, p') V" using e(1) by blast
    have "does (lookup_loop fs name p) V (Some \<lparr> dn_name = name, dn_inode =
      \<lparr> in_type = Fat32_File, in_dentry = Some ?f, in_start_cluster = c, in_fs = fs \<rparr> \<rparr>) V"
      by (intro does_ext [OF lookup_loop.simps], intro does_bind [OF g])
        (simp, intro does_bind [OF e(3)] does_bind [OF e(2)], simp, intro does_bind [OF e(4)], rule does_return)
    then show ?case using e(5) by (auto simp: P_def)
  next
    case (Cons i pre)
    obtain f p' t where f: "dir_at (fs_fat fs) V p' (pre @ Live name a c z # post) q" "does (get_dentry fs p) V (Some f, p') V"
      "does (Fat32Dentry_name f) V (item_name V i) V" "does (\<lambda>st. Some (dentry_type f st)) V t V"
      using dir_entry [OF assms(1,2) Cons.prems(1) [unfolded append_Cons]] Cons.prems(2) by auto
    obtain r where r: "P r" "does (lookup_loop fs name p') V r V" using Cons.IH [OF f(1)] Cons.prems by auto
    have "item_name V i \<noteq> name" using Cons.prems(3) by auto
    then have "does (lookup_loop fs name p) V r V"
      by (intro does_ext [OF lookup_loop.simps], intro does_bind [OF f(2)])
        (simp, intro does_bind [OF f(4)] does_bind [OF f(3)], simp add: r(2))
    then show ?case using r(1) by blast
  qed
  then show ?thesis by (auto simp: P_def)
qed

section \<open>Adding an entry\<close>

definition place_idx :: "place \<Rightarrow> nat" where
  "place_idx p = fst p * 512 + snd p"

lemma next_slot_idx: "\<lbrakk> next_slot fat p = Some q; place_ok p \<rbrakk> \<Longrightarrow> place_ok q \<and> place_idx q = place_idx p + 32"
  using next_slot_ok [of fat p q] by (simp add: place_idx_def)

lemma items_at_append: "items_at fat V p (xs @ ys) q \<longleftrightarrow> (\<exists>m. items_at fat V p xs m \<and> items_at fat V m ys q)"
proof (induction xs arbitrary: p)
  case (Cons i xs)
  then show ?case by (cases i) (auto split: option.splits)
qed simp

lemma items_at_idx: "\<lbrakk> items_at fat V p is q; place_ok p \<rbrakk> \<Longrightarrow> place_ok q \<and> place_idx p \<le> place_idx q"
proof (induction "is" arbitrary: p)
  case (Cons i "is")
  then show ?case by (cases i) (fastforce split: option.splits dest: next_slot_idx)+
qed simp

lemma items_at_cong:
  assumes "items_at fat V p is q" "place_ok p"
    "\<And>r. \<lbrakk> place_ok r; place_idx p \<le> place_idx r; place_idx r < place_idx q \<rbrakk> \<Longrightarrow> slot W r = slot V r"
  shows "items_at fat W p is q"
  using assms
proof (induction "is" arbitrary: p)
  case (Cons i "is")
  show ?case
  proof (cases i)
    case (Live n a c z)
    then obtain p1 p2 where i: "long_at V p n" "next_slot fat p = Some p1" "next_slot fat p1 = Some p2" "short_at V p1 a c z" "items_at fat V p2 is q"
      using Cons.prems(1) by (auto split: option.splits)
    note s = next_slot_idx [OF i(2) Cons.prems(2)] next_slot_idx [OF i(3)] items_at_idx [OF i(5)]
    have "slot W p = slot V p" "slot W p1 = slot V p1" using s Cons.prems by auto
    moreover have "items_at fat W p2 is q" by (rule Cons.IH [OF i(5)]) (use s Cons.prems(3) in auto)
    ultimately show ?thesis using i Live by (simp add: long_at_def short_at_def)
  next
    case Dead
    then obtain p1 where i: "dl_is_deleted (Fat32DentryLayout_of (slot V p))" "next_slot fat p = Some p1" "items_at fat V p1 is q"
      using Cons.prems(1) by (auto split: option.splits)
    note s = next_slot_idx [OF i(2) Cons.prems(2)] items_at_idx [OF i(3)]
    have "slot W p = slot V p" using s Cons.prems by auto
    moreover have "items_at fat W p1 is q" by (rule Cons.IH [OF i(3)]) (use s Cons.prems(3) in auto)
    ultimately show ?thesis using i Dead by simp
  qed
qed simp

lemma find_empty_step:
  assumes "fs_ok fs" "place_ok p" "next_slot (fs_fat fs) p = Some p'" "\<not> dl_is_empty (Fat32DentryLayout_of (slot V p))"
    "does (find_empty fs p') V q V"
  shows "does (find_empty fs p) V q V"
  by (intro does_ext [OF find_empty.simps], intro does_bind [OF does_read [OF assms(2)]])
    (simp add: assms(4), intro does_bind [OF does_step_fs [OF assms(1,3,2)]], simp add: assms(5))

lemma find_empty_reach:
  assumes V: "disk_ok V" and fs: "fs_ok fs" and d: "items_at (fs_fat fs) V p is q" "place_ok p" and q: "does (find_empty fs q) V r V"
  shows "does (find_empty fs p) V r V"
  using d
proof (induction "is" arbitrary: p)
  case Nil
  then show ?case using q by simp
next
  case (Cons i "is")
  show ?case
  proof (cases i)
    case (Live n a c z)
    then obtain p1 p2 where i: "long_at V p n" "next_slot (fs_fat fs) p = Some p1" "next_slot (fs_fat fs) p1 = Some p2" "short_at V p1 a c z"
      "items_at (fs_fat fs) V p2 is q"
      using Cons.prems(1) by (auto split: option.splits)
    note s = next_slot_idx [OF i(2) Cons.prems(2)] next_slot_idx [OF i(3)]
    have "does (find_empty fs p1) V r V"
      using find_empty_step [OF fs _ i(3)] i(4) s Cons.IH [OF i(5)] by (simp add: short_at_def Let_def)
    then show ?thesis using find_empty_step [OF fs Cons.prems(2) i(2)] long_at_layout(1) [OF V Cons.prems(2) i(1)] by blast
  next
    case Dead
    then obtain p1 where i: "dl_is_deleted (Fat32DentryLayout_of (slot V p))" "next_slot (fs_fat fs) p = Some p1" "items_at (fs_fat fs) V p1 is q"
      using Cons.prems(1) by (auto split: option.splits)
    then show ?thesis
      using find_empty_step [OF fs Cons.prems(2) i(2)] Cons.IH [OF i(3)] next_slot_idx [OF i(2) Cons.prems(2)]
      by (simp add: dl_is_empty_def dl_is_deleted_def)
  qed
qed

lemma find_empty_here:
  "\<lbrakk> place_ok q; dl_is_empty (Fat32DentryLayout_of (slot V q)) \<rbrakk> \<Longrightarrow> does (find_empty fs q) V q V"
  by (intro does_ext [OF find_empty.simps], intro does_bind [OF does_read]) (simp_all add: does_return)

lemma find_empty_spec:
  assumes "disk_ok V" "fs_ok fs" "items_at (fs_fat fs) V p is q" "place_ok p" "empty_at (fs_fat fs) V q"
  shows "does (find_empty fs p) V q V"
  using find_empty_reach [OF assms(1-4)] find_empty_here [of q V fs] assms(5) items_at_place_ok [OF assms(3,4)]
  by (simp add: empty_at_def)

definition piece_name :: "rstring \<Rightarrow> bool" where
  "piece_name name \<longleftrightarrow> plain_name name \<and> name \<noteq> [] \<and> length name \<le> 13"

definition entry_name :: "rstring \<Rightarrow> bool" where
  "entry_name name \<longleftrightarrow> piece_name name \<and> hd name \<noteq> 0x2E"

lemma short_name_keeps: "\<lbrakk> short_name cs i name ext b b' = (name', r); 0 < i \<rbrakk> \<Longrightarrow> name' ! 0 = name ! 0"
  by (induction cs arbitrary: i name ext b b') (auto split: if_splits)

lemma Fat32DentryLayout_new_nonempty:
  assumes "entry_name name"
  shows "\<not> dl_is_empty (Fat32DentryLayout_new name attr c z)"
proof -
  obtain h t where n: "name = h # t" using assms by (cases name) (auto simp: entry_name_def piece_name_def)
  have h: "h < 0x80" "h \<noteq> 0" "h \<noteq> 0x2E" using assms by (auto simp: n entry_name_def piece_name_def plain_name_def ascii_def)
  obtain nm r where s: "short_name t 1 ((replicate 8 0)[0 := ucast h]) (replicate 3 0) (is_ascii_uppercase h \<or> False) False = (nm, r)"
    by (metis surj_pair)
  have "nm ! 0 = ucast h" using short_name_keeps [OF s] by (simp add: numeral_eq_Suc)
  moreover have "ucast h \<noteq> (0 :: u8)"
  proof
    assume "ucast h = (0 :: u8)"
    then have "unat h mod 256 = 0" by (simp add: word_unat_eq_iff unsigned_ucast_eq take_bit_eq_mod)
    then show False using h(1,2) by (simp add: word_less_nat_alt unat_eq_zero)
  qed
  ultimately show ?thesis
    using h(3) s by (simp add: dl_is_empty_def Fat32DentryLayout_new_def n split: prod.splits)
qed

lemma does_write_pieces:
  assumes fs: "fs_ok fs" and q: "place_ok q" "next_slot (fs_fat fs) q = Some q1" and n: "piece_name name"
  shows "\<exists>l. Fat32LDentryLayout_new 1 name True = Inr l \<and>
    does (\<lambda>st. Some (write_pieces fs name 0 1 q st)) V q1 (set_slot V q (Fat32LDentryLayout_bytes l))"
proof -
  have name: "plain_name name" "length name \<le> 13" "0 < length name" "str_len name = length name"
    using n ascii_len [of name] by (auto simp: piece_name_def plain_name_def)
  obtain l where l: "Fat32LDentryLayout_new 1 name True = Inr l" "ll_wf l"
    using Fat32LDentryLayout_new_spec [OF name(1,2), of 1 True] by blast
  have piece: "str_slice 0 (length name) name = Inr name"
    using ascii_slice [of name 0 "length name"] name(1) by (simp add: plain_name_def)
  have w: "does (\<lambda>st. Some (block_modify (fst q) DENTRY_SIZE (snd q) (\<lambda>_. ((), Fat32LDentryLayout_bytes l)) st)) V ()
      (set_slot V q (Fat32LDentryLayout_bytes l))"
    by (rule does_modify [OF q(1)]) (simp_all add: length_ll_bytes [OF l(2)])
  have stop: "write_pieces fs name (length name) order = (\<lambda>p st. Inr (p, st))" for order
    using name(4) by (intro ext, subst write_pieces.simps) simp
  have "min 13 (length name) = length name" using name(2) by simp
  then have eq: "write_pieces fs name 0 1 q st =
      bindR (block_modify (fst q) DENTRY_SIZE (snd q) (\<lambda>_. ((), Fat32LDentryLayout_bytes l)) st) (\<lambda>(_, st1).
      bindR (step_fs fs q st1) (\<lambda>(p', st2). Inr (p', st2)))" for st
    using name piece l(1)
    by (subst write_pieces.simps) (simp add: Let_def stop)
  have "does (\<lambda>st. Some (write_pieces fs name 0 1 q st)) V q1 (set_slot V q (Fat32LDentryLayout_bytes l))"
    unfolding eq by (rule does_bindR [OF w], rule does_bindR [OF does_step_fs [OF fs q(2,1)]], rule does_return)
  then show ?thesis using l(1) by blast
qed

lemma place_idx_block: "\<lbrakk> place_idx p \<le> place_idx q; place_ok q \<rbrakk> \<Longrightarrow> fst p \<le> fst q"
  by (simp add: place_idx_def place_ok_def)

text \<open>What an insertion of such a name writes: a long slot and a short slot at the first empty
  place.\<close>

lemma insert_dentry_writes:
  assumes V: "disk_ok V" and fs: "fs_ok fs" and cid: "cluster_id_to_sector_id (fs_fat fs) cid = Some s"
    and d: "dir_at (fs_fat fs) V (s, 0) is q" and nx: "next_slot (fs_fat fs) q = Some q1" and n: "piece_name name" and c: "c < 2 ^ 32"
  shows "\<exists>W. does (insert_dentry fs cid name a z c) V (Some (Fat32Dentry_new (fst q1) (snd q1) (fs_fat fs))) W \<and> disk_ok W \<and>
    long_at W q name \<and> slot W q1 = Fat32DentryLayout_bytes (Fat32DentryLayout_new name a c z) \<and>
    (\<forall>r. place_ok r \<longrightarrow> r \<noteq> q \<longrightarrow> r \<noteq> q1 \<longrightarrow> slot W r = slot V r) \<and> (\<forall>b. b < s \<longrightarrow> W b = V b) \<and>
    items_at (fs_fat fs) W (s, 0) is q"
proof -
  let ?fat = "fs_fat fs" and ?sh = "Fat32DentryLayout_new name a c z"
  have d': "place_ok (s, 0)" "items_at ?fat V (s, 0) is q" "empty_at ?fat V q" using d by (auto simp: dir_at_def)
  note q = items_at_idx [OF d'(2,1)]
  obtain l where l: "Fat32LDentryLayout_new 1 name True = Inr l"
    "does (\<lambda>st. Some (write_pieces fs name 0 1 q st)) V q1 (set_slot V q (Fat32LDentryLayout_bytes l))"
    using does_write_pieces [OF fs _ nx n] q by blast
  have lw: "ll_wf l" "ll_full_name l = Inr name" "ll_attr l = 0x0F" "ll_order l = 0x41"
    using Fat32LDentryLayout_new_spec [of name 1 True] n l(1) by (auto simp: piece_name_def)
  note sh = Fat32DentryLayout_new_spec [OF c, of name a z]
  define V1 where "V1 = set_slot V q (Fat32LDentryLayout_bytes l)"
  define W where "W = set_slot V1 q1 (Fat32DentryLayout_bytes ?sh)"
  note len = length_ll_bytes [OF lw(1)] length_dl_bytes [OF sh(1)]
  have idx: "place_idx q1 = place_idx q + 32" "place_ok q1" using q next_slot_idx [OF nx] by auto
  then have neq: "q \<noteq> q1" by auto
  have V1: "disk_ok V1" "\<And>r. place_ok r \<Longrightarrow> slot V1 r = (if r = q then Fat32LDentryLayout_bytes l else slot V r)"
    using disk_ok_set_slot [OF V _ len(1)] slot_set_slot [OF V _ _ len(1)] q by (auto simp: V1_def)
  have W: "disk_ok W" "\<And>r. place_ok r \<Longrightarrow> slot W r = (if r = q1 then Fat32DentryLayout_bytes ?sh else if r = q then Fat32LDentryLayout_bytes l else slot V r)"
    using disk_ok_set_slot [OF V1(1) _ len(2)] slot_set_slot [OF V1(1) _ _ len(2)] idx V1(2) by (auto simp: W_def)
  have "does (\<lambda>st. Some (block_modify (fst q1) DENTRY_SIZE (snd q1) (\<lambda>_. ((), Fat32DentryLayout_bytes ?sh)) st)) V1 () W"
    unfolding W_def by (rule does_modify [OF idx(2)]) (simp_all add: len)
  then have "does (insert_dentry fs cid name a z c) V (Some (Fat32Dentry_new (fst q1) (snd q1) ?fat)) W"
    unfolding insert_dentry_def [abs_def] cid unwrapR_def option.case bindO_simps
    by (intro does_bind [OF find_empty_spec [OF V fs d'(2,1,3)]] does_bind [OF l(2) [folded V1_def]])
      (cases q1, simp, rule does_bind, assumption, rule does_return)
  moreover have "items_at ?fat W (s, 0) is q"
    by (rule items_at_cong [OF d'(2,1)]) (use W(2) idx in auto)
  moreover have "long_at W q name"
    using W(2) [of q] q neq lw by (simp add: long_at_def Let_def Fat32LDentryLayout_of_bytes ll_is_end_def ll_is_deleted_def)
  moreover have "s \<le> fst q" "s \<le> fst q1"
    using place_idx_block [of "(s, 0)" q] place_idx_block [of "(s, 0)" q1] q idx by auto
  then have "\<forall>b. b < s \<longrightarrow> W b = V b" by (simp add: W_def V1_def set_slot_other)
  ultimately show ?thesis using W idx(2) by (intro exI [of _ W]) simp
qed

lemma insert_dentry_spec:
  assumes V: "disk_ok V" and fs: "fs_ok fs" and cid: "cluster_id_to_sector_id (fs_fat fs) cid = Some s"
    and d: "dir_at (fs_fat fs) V (s, 0) is q"
    and nx: "next_slot (fs_fat fs) q = Some q1" "next_slot (fs_fat fs) q1 = Some q2" "empty_at (fs_fat fs) V q2"
    and n: "entry_name name" and c: "c < 2 ^ 32"
  shows "\<exists>W. does (insert_dentry fs cid name a z c) V (Some (Fat32Dentry_new (fst q1) (snd q1) (fs_fat fs))) W \<and> disk_ok W \<and>
    dir_at (fs_fat fs) W (s, 0) (is @ [Live name a c z]) q2 \<and> (\<forall>b. b < s \<longrightarrow> W b = V b)"
proof -
  have "piece_name name" using n by (simp add: entry_name_def)
  then obtain W where W: "does (insert_dentry fs cid name a z c) V (Some (Fat32Dentry_new (fst q1) (snd q1) (fs_fat fs))) W"
    "disk_ok W" "long_at W q name" "slot W q1 = Fat32DentryLayout_bytes (Fat32DentryLayout_new name a c z)"
    "\<And>r. \<lbrakk> place_ok r; r \<noteq> q; r \<noteq> q1 \<rbrakk> \<Longrightarrow> slot W r = slot V r" "\<forall>b. b < s \<longrightarrow> W b = V b" "items_at (fs_fat fs) W (s, 0) is q"
    using insert_dentry_writes [OF V fs cid d nx(1) _ c] by blast
  have p: "place_ok (s, 0)" using d by (simp add: dir_at_def)
  note q = items_at_idx [OF W(7) p]
  have idx: "place_idx q1 = place_idx q + 32" "place_idx q2 = place_idx q1 + 32" "place_ok q2"
    using q next_slot_idx [OF nx(1)] next_slot_idx [OF nx(2)] by auto
  then have "q2 \<noteq> q" "q2 \<noteq> q1" by auto
  then have "empty_at (fs_fat fs) W q2" using nx(3) W(5) [OF idx(3)] by (simp add: empty_at_def)
  moreover have "short_at W q1 a c z"
    using W(4) Fat32DentryLayout_new_spec [OF c, of name a z] Fat32DentryLayout_new_nonempty [OF n]
    by (simp add: short_at_def Let_def Fat32DentryLayout_of_bytes)
  then have "items_at (fs_fat fs) W (s, 0) (is @ [Live name a c z]) q2"
    unfolding items_at_append using W(3,7) nx(1,2) by (intro exI [of _ q]) simp
  ultimately show ?thesis using W(1,2,6) p by (intro exI [of _ W]) (simp add: dir_at_def)
qed

section \<open>Removing an entry\<close>

lemma dl_wf_of: "length bs = DENTRY_SIZE \<Longrightarrow> dl_wf (Fat32DentryLayout_of bs)"
  by (simp add: dl_wf_def Fat32DentryLayout_of_def DENTRY_SIZE_def)

lemma ll_wf_of: "ll_wf (Fat32LDentryLayout_of bs)"
  by (simp add: ll_wf_def Fat32LDentryLayout_of_def u16s_le_def)

lemma remove_dentry_spec:
  assumes V: "disk_ok V" and fs: "fs_ok fs" and p: "place_ok p" "long_at V p n" "next_slot (fs_fat fs) p = Some p1"
  shows "\<exists>W. does (remove_dentry fs (Fat32Dentry_new (fst p) (snd p) (fs_fat fs))) V () W \<and> disk_ok W \<and>
    (\<forall>r. place_ok r \<longrightarrow> r \<noteq> p \<longrightarrow> r \<noteq> p1 \<longrightarrow> slot W r = slot V r) \<and> (\<forall>b. b \<noteq> fst p \<longrightarrow> b \<noteq> fst p1 \<longrightarrow> W b = V b) \<and>
    dl_is_deleted (Fat32DentryLayout_of (slot W p)) \<and> dl_is_deleted (Fat32DentryLayout_of (slot W p1))"
proof -
  define lb where "lb = Fat32LDentryLayout_bytes ((Fat32LDentryLayout_of (slot V p))\<lparr> ll_order := 0xE5 \<rparr>)"
  define V1 where "V1 = set_slot V p lb"
  define sb where "sb = Fat32DentryLayout_bytes (dl_set_deleted (Fat32DentryLayout_of (slot V1 p1)))"
  define W where "W = set_slot V1 p1 sb"
  have p1: "place_ok p1" "place_idx p1 = place_idx p + 32" using next_slot_idx [OF p(3,1)] by auto
  then have ne: "p1 \<noteq> p" by auto
  have wf: "ll_wf ((Fat32LDentryLayout_of (slot V p))\<lparr> ll_order := 0xE5 \<rparr>)" using ll_wf_of [of "slot V p"] by (simp add: ll_wf_def)
  have lb: "length lb = DENTRY_SIZE" "lb ! 0 = 0xE5" using length_ll_bytes [OF wf] by (simp_all add: lb_def Fat32LDentryLayout_bytes_def)
  have V1: "disk_ok V1" "\<And>r. place_ok r \<Longrightarrow> slot V1 r = (if r = p then lb else slot V r)"
    using disk_ok_set_slot [OF V p(1) lb(1)] slot_set_slot [OF V p(1) _ lb(1)] by (auto simp: V1_def)
  have wfs: "dl_wf (dl_set_deleted (Fat32DentryLayout_of (slot V1 p1)))"
    using dl_wf_of [OF length_slot [OF V1(1) p1(1)]] by (simp add: dl_wf_def dl_set_deleted_def)
  have sb: "length sb = DENTRY_SIZE" "sb ! 0 = 0xE5"
    using length_dl_bytes [OF wfs] wfs by (simp_all add: sb_def Fat32DentryLayout_bytes_def dl_set_deleted_def dl_wf_def nth_append)
  have W: "disk_ok W" "\<And>r. place_ok r \<Longrightarrow> slot W r = (if r = p1 then sb else if r = p then lb else slot V r)"
    using disk_ok_set_slot [OF V1(1) p1(1) sb(1)] slot_set_slot [OF V1(1) p1(1) _ sb(1)] V1(2) by (auto simp: W_def)
  have m: "does (\<lambda>st. Some (block_modify (fst p) DENTRY_SIZE (snd p)
      (\<lambda>bs. let layout = (Fat32LDentryLayout_of bs)\<lparr> ll_order := 0xE5 \<rparr> in (ll_is_end layout, Fat32LDentryLayout_bytes layout)) st)) V True V1"
    unfolding V1_def by (rule does_modify [OF p(1)]) (simp_all add: lb lb_def [symmetric] ll_is_end_def)
  have "does (remove_pieces fs p) V p1 V1"
    by (intro does_ext [OF remove_pieces.simps], intro does_bind [OF m] does_bind [OF does_step_fs [OF fs p(3,1)]]) (simp add: does_return)
  then have r: "does (\<lambda>st. if True then remove_pieces fs (fst p, snd p) st else Some (Inr ((fst p, snd p), st))) V p1 V1" by simp
  have s: "does (\<lambda>st. Some (block_modify (fst p1) DENTRY_SIZE (snd p1)
      (\<lambda>bs. ((), Fat32DentryLayout_bytes (dl_set_deleted (Fat32DentryLayout_of bs)))) st)) V1 () W"
    unfolding W_def by (rule does_modify [OF p1(1)]) (simp_all add: sb sb_def [symmetric])
  have "place_ok (fst p, snd p)" using p(1) by simp
  note il = does_is_long [OF this, where d = False and fat = "fs_fat fs" and V = V, unfolded prod.collapse]
  have "does (remove_dentry fs (Fat32Dentry_new (fst p) (snd p) (fs_fat fs))) V () W"
    unfolding remove_dentry_def [abs_def] Fat32Dentry_new_def
    by (rule does_bind [OF il]) (simp add: long_at_layout [OF V p(1,2)], rule does_bind [OF r [simplified]], use s in \<open>cases p1, simp\<close>)
  moreover have "slot W p = lb" "slot W p1 = sb" using W(2) p(1) p1(1) ne by auto
  then have "dl_is_deleted (Fat32DentryLayout_of (slot W p))" "dl_is_deleted (Fat32DentryLayout_of (slot W p1))"
    using layout_fields(2) [OF lb(1)] layout_fields(2) [OF sb(1)] lb(2) sb(2) by simp_all
  moreover have "\<forall>b. b \<noteq> fst p \<longrightarrow> b \<noteq> fst p1 \<longrightarrow> W b = V b" by (simp add: W_def V1_def set_slot_other)
  ultimately show ?thesis using W by (intro exI [of _ W]) auto
qed

lemma unlink_loop_none:
  assumes "disk_ok V" "fs_ok fs" "dir_at (fs_fat fs) V p is q" "Dead \<in> set is \<longrightarrow> boot_short V" "name \<notin> item_name V ` set is"
  shows "does (unlink_loop fs name p) V False V"
  using assms(3-5)
proof (induction "is" arbitrary: p)
  case Nil
  then obtain p1 where g: "does (get_dentry fs p) V (None, p1) V" using dir_end [OF assms(2)] by blast
  show ?case
    by (rule does_ext, rule unlink_loop.simps, rule does_bind [OF g]) (simp add: does_return)
next
  case (Cons i "is")
  obtain f p' where f: "does (get_dentry fs p) V (Some f, p') V" "does (Fat32Dentry_name f) V (item_name V i) V" "dir_at (fs_fat fs) V p' is q"
    using dir_entry [OF assms(1,2) Cons.prems(1)] Cons.prems(2) by auto
  have "does (unlink_loop fs name p') V False V" "item_name V i \<noteq> name" using Cons.IH [OF f(3)] Cons.prems by auto
  then show ?case
    by (intro does_ext [OF unlink_loop.simps], intro does_bind [OF f(1)]) (simp, intro does_bind [OF f(2)], simp)
qed

text \<open>The entry that \<^verbatim>\<open>unlink\<close> removes lies right behind the entries before it, and the only slots
  that change are its own two.\<close>

lemma unlink_loop_found:
  assumes V: "disk_ok V" and fs: "fs_ok fs" and d: "dir_at (fs_fat fs) V p (pre @ Live name a c z # post) q" "Dead \<in> set pre \<longrightarrow> boot_short V"
    "name \<notin> item_name V ` set pre"
  shows "\<exists>W r1 r2. does (unlink_loop fs name p) V True W \<and> disk_ok W \<and> items_at (fs_fat fs) W p (pre @ Dead # Dead # post) q \<and>
    items_at (fs_fat fs) V p pre r1 \<and> next_slot (fs_fat fs) r1 = Some r2 \<and> place_idx r2 < place_idx q \<and>
    (\<forall>r. place_ok r \<longrightarrow> r \<noteq> r1 \<longrightarrow> r \<noteq> r2 \<longrightarrow> slot W r = slot V r) \<and> (\<forall>b. b \<noteq> fst r1 \<longrightarrow> b \<noteq> fst r2 \<longrightarrow> W b = V b)"
  using d
proof (induction pre arbitrary: p)
  case Nil
  let ?f = "Fat32Dentry_new (fst p) (snd p) (fs_fat fs)"
  have p: "place_ok p" using Nil.prems by (simp add: dir_at_def)
  note e = dir_entry_live [OF V fs Nil.prems(1) [unfolded append_Nil] refl]
  obtain p' where g: "does (get_dentry fs p) V (Some ?f, p') V" using e(1) by blast
  obtain p1 p2 where i: "long_at V p name" "next_slot (fs_fat fs) p = Some p1" "next_slot (fs_fat fs) p1 = Some p2" "items_at (fs_fat fs) V p2 post q"
    using Nil.prems(1) by (auto simp: dir_at_def split: option.splits)
  note idx = next_slot_idx [OF i(2) p] next_slot_idx [OF i(3)] items_at_idx [OF i(4)]
  obtain W where W: "does (remove_dentry fs ?f) V () W" "disk_ok W" "\<And>r. \<lbrakk> place_ok r; r \<noteq> p; r \<noteq> p1 \<rbrakk> \<Longrightarrow> slot W r = slot V r"
    "\<forall>b. b \<noteq> fst p \<longrightarrow> b \<noteq> fst p1 \<longrightarrow> W b = V b" "dl_is_deleted (Fat32DentryLayout_of (slot W p))" "dl_is_deleted (Fat32DentryLayout_of (slot W p1))"
    using remove_dentry_spec [OF V fs p i(1,2)] by blast
  have "does (unlink_loop fs name p) V True W"
    by (intro does_ext [OF unlink_loop.simps], intro does_bind [OF g])
      (simp, intro does_bind [OF e(2)], simp, intro does_bind [OF W(1)], rule does_return)
  moreover have "items_at (fs_fat fs) W p2 post q"
  proof (rule items_at_cong [OF i(4)])
    show "place_ok p2" using idx by blast
    fix r assume r: "place_ok r" "place_idx p2 \<le> place_idx r"
    then have "r \<noteq> p" "r \<noteq> p1" using idx by auto
    then show "slot W r = slot V r" using W(3) r(1) by blast
  qed
  then have "items_at (fs_fat fs) W p (Dead # Dead # post) q" using W(5,6) i(2,3) by simp
  moreover have "place_idx p1 < place_idx q" using idx by auto
  ultimately show ?case using W(2-4) i(2) by (intro exI [of _ W] exI [of _ p] exI [of _ p1]) simp
next
  case (Cons i pre)
  have p: "place_ok p" using Cons.prems by (simp add: dir_at_def)
  obtain f p' where f: "does (get_dentry fs p) V (Some f, p') V" "does (Fat32Dentry_name f) V (item_name V i) V"
    "dir_at (fs_fat fs) V p' (pre @ Live name a c z # post) q" "items_at (fs_fat fs) V p [i] p'"
    using dir_entry [OF V fs Cons.prems(1) [unfolded append_Cons]] Cons.prems(2) by (auto simp del: items_at.simps)
  obtain W r1 r2 where W: "does (unlink_loop fs name p') V True W" "disk_ok W" "items_at (fs_fat fs) W p' (pre @ Dead # Dead # post) q"
    "items_at (fs_fat fs) V p' pre r1" "next_slot (fs_fat fs) r1 = Some r2" "place_idx r2 < place_idx q"
    "\<And>r. \<lbrakk> place_ok r; r \<noteq> r1; r \<noteq> r2 \<rbrakk> \<Longrightarrow> slot W r = slot V r" "\<forall>b. b \<noteq> fst r1 \<longrightarrow> b \<noteq> fst r2 \<longrightarrow> W b = V b"
    using Cons.IH [OF f(3)] Cons.prems(2,3) by auto
  note idx = items_at_idx [OF f(4) p] items_at_idx [OF W(4)] next_slot_idx [OF W(5)]
  have "items_at (fs_fat fs) W p [i] p'"
    by (rule items_at_cong [OF f(4) p], rule W(7)) (use idx in auto)
  then have "items_at (fs_fat fs) W p ([i] @ pre @ Dead # Dead # post) q" unfolding items_at_append [of _ _ _ "[i]"] using W(3) by blast
  moreover have "items_at (fs_fat fs) V p ([i] @ pre) r1" unfolding items_at_append [of _ _ _ "[i]"] using f(4) W(4) by blast
  moreover have "item_name V i \<noteq> name" using Cons.prems(3) by auto
  then have "does (unlink_loop fs name p) V True W"
    by (intro does_ext [OF unlink_loop.simps], intro does_bind [OF f(1)]) (simp, intro does_bind [OF f(2)], simp add: W(1))
  ultimately show ?case using W(2,5-8) by (intro exI [of _ W] exI [of _ r1] exI [of _ r2]) (auto simp del: items_at.simps)
qed

section \<open>Properties\<close>

text \<open>C30. The layouts of a directory slot and their 32 bytes.  Decoding the bytes of a layout gives
  back the layout in all its fields, for short and for long slots, and encoding a decoded slot
  gives back its bytes.  So a piece of a name that one long slot holds, at most thirteen ASCII
  characters, comes back from the bytes of its long slot, and the start cluster, the size and the
  attributes come back from the bytes of the short one.\<close>

theorem dentry_layout_roundtrip:
  assumes "plain_name name" "length name \<le> 13" "c < 2 ^ 32" "length bs = DENTRY_SIZE" "dl_wf short" "ll_wf long"
  shows "(\<exists>l. Fat32LDentryLayout_new order name is_end = Inr l \<and>
      ll_full_name (Fat32LDentryLayout_of (Fat32LDentryLayout_bytes l)) = Inr name) \<and>
    (let l = Fat32DentryLayout_of (Fat32DentryLayout_bytes (Fat32DentryLayout_new name attr c z)) in
      unat (dl_start_cluster_id l) = c \<and> dl_file_size l = z \<and> dl_attr l = attr) \<and>
    Fat32DentryLayout_of (Fat32DentryLayout_bytes short) = short \<and> Fat32LDentryLayout_of (Fat32LDentryLayout_bytes long) = long \<and>
    Fat32DentryLayout_bytes (Fat32DentryLayout_of bs) = bs \<and> Fat32LDentryLayout_bytes (Fat32LDentryLayout_of bs) = bs"
  using Fat32LDentryLayout_new_spec [OF assms(1,2), of order is_end] Fat32DentryLayout_new_spec [OF assms(3), of name attr z]
    Fat32DentryLayout_bytes_of [OF assms(4)] Fat32LDentryLayout_bytes_of [OF assms(4)] assms(5,6)
  by (auto simp: Fat32LDentryLayout_of_bytes Fat32DentryLayout_of_bytes Let_def)

theorem dentry_layout_roundtrip_witness:
  "(\<exists>l. Fat32LDentryLayout_new 1 [0x61, 0x2E, 0x63] True = Inr l \<and>
    ll_full_name (Fat32LDentryLayout_of (Fat32LDentryLayout_bytes l)) = Inr [0x61, 0x2E, 0x63]) \<and>
   (let short = Fat32DentryLayout_new [0x61] ATTR_ARCHIVE 5 7 in
     Fat32DentryLayout_of (Fat32DentryLayout_bytes short) = short)"
proof -
  have "dl_wf (Fat32DentryLayout_new [0x61] ATTR_ARCHIVE 5 7)" using Fat32DentryLayout_new_spec(1) [of 5] by simp
  then show ?thesis
    using dentry_layout_roundtrip [of "[0x61, 0x2E, 0x63]" 0 "replicate DENTRY_SIZE 0" "Fat32DentryLayout_new [0x61] ATTR_ARCHIVE 5 7"
        "Fat32LDentryLayout_of []" 1 True] ll_wf_of [of "[]"]
    by (auto simp: plain_name_def ascii_def Let_def)
qed

text \<open>A file system on the example volume of the allocation table, with an empty root directory
  in block 2.\<close>

definition example_fs :: Fat32FS where
  "example_fs = \<lparr> fs_sb = fat_sb example_fat, fs_fat = example_fat \<rparr>"

lemma example_fs_ok: "fs_ok example_fs" "cluster_id_to_sector_id (fs_fat example_fs) 2 = Some 2" "in_start_cluster (root_inode example_fs) = 2"
  by (simp_all add: fs_ok_def example_fs_def cluster_id_to_sector_id_def root_sector_def example_fat_def FAT_from_sb_def root_inode_def)

lemma example_dir:
  "disk_ok example_disk" "dir_at (fs_fat example_fs) example_disk (2, 0) [] (2, 0)"
  "next_slot (fs_fat example_fs) (2, 0) = Some (2, 32)" "next_slot (fs_fat example_fs) (2, 32) = Some (2, 64)"
  "empty_at (fs_fat example_fs) example_disk (2, 64)" "boot_short example_disk"
proof -
  have s: "slot example_disk (b, k) = replicate DENTRY_SIZE 0" if "k + DENTRY_SIZE \<le> BLOCK_SZ" for b k
    using that by (simp add: slot_def example_disk_def)
  have z: "slot example_disk (2, 0) = replicate DENTRY_SIZE 0" "slot example_disk (2, 64) = replicate DENTRY_SIZE 0"
    "slot example_disk (0, 0) = replicate DENTRY_SIZE 0"
    by (simp_all add: s DENTRY_SIZE_def BLOCK_SZ_def)
  have l: "length (replicate DENTRY_SIZE 0) = DENTRY_SIZE" by simp
  show "disk_ok example_disk" by (simp add: disk_ok_def example_disk_def)
  show n: "next_slot (fs_fat example_fs) (2, 0) = Some (2, 32)" "next_slot (fs_fat example_fs) (2, 32) = Some (2, 64)"
    by (simp_all add: next_slot_def)
  show "dir_at (fs_fat example_fs) example_disk (2, 0) [] (2, 0)" "empty_at (fs_fat example_fs) example_disk (2, 64)"
    using n layout_fields(1) [OF l] by (simp_all add: dir_at_def place_ok_def empty_at_def z next_slot_def DENTRY_SIZE_def)
  show "boot_short example_disk" using layout_fields(3) [OF l] by (simp add: boot_short_def z DENTRY_SIZE_def)
qed


text \<open>The example volume with one file in its root directory.\<close>

lemma example_entry:
  obtains V where "does (insert_dentry example_fs 2 [0x61] ATTR_ARCHIVE 7 5) example_disk (Some (Fat32Dentry_new 2 32 (fs_fat example_fs))) V"
    "disk_ok V" "dir_at (fs_fat example_fs) V (2, 0) [Live [0x61] ATTR_ARCHIVE 5 7] (2, 64)"
proof -
  have "entry_name [0x61]" by (simp add: entry_name_def piece_name_def plain_name_def ascii_def)
  then show ?thesis
    using that insert_dentry_spec [OF example_dir(1) example_fs_ok(1,2) example_dir(2-5), of "[0x61]" 5 ATTR_ARCHIVE 7] by auto
qed


definition fat_word :: "FAT \<Rightarrow> disk \<Rightarrow> nat \<Rightarrow> u32" where
  "fat_word fat V c = u32_le (take 4 (drop (c mod 128 * 4) (V (fat_block fat c))))"

lemma fat_entry_word: "fat_entry fat st = fat_word fat (blk st)"
  by (rule ext) (simp add: fat_entry_def fat_word_def)

text \<open>Contents of the blocks are always those of some state.\<close>

lemma disk_state: "disk_ok V \<Longrightarrow> \<exists>st. blocks_ok st \<and> blk st = V"
  using new_blocks_ok [of V] by (intro exI [of _ "BlockCacheManager_new V"]) (simp add: disk_ok_def blocks_ok_def)

lemma does_disk_ok: "\<lbrakk> does m V v W; disk_ok V \<rbrakk> \<Longrightarrow> disk_ok W"
  using disk_state [of V] blocks_ok_disk by (fastforce simp: does_def)

lemma does_alloc:
  assumes V: "disk_ok V" and c: "3 \<le> c" "fat_word fat V c = 0" "\<forall>d. 3 \<le> d \<and> d < c \<longrightarrow> fat_word fat V d \<noteq> 0"
  shows "does (alloc_new_cluster fat) V (Some c) (set_fat fat c END_OF_CHAIN V)"
    "fat_word fat (set_fat fat c END_OF_CHAIN V) = (fat_word fat V)(c := END_OF_CHAIN)"
proof -
  have a: "\<exists>st'. alloc_new_cluster fat st = Some (Inr (Some c, st')) \<and> blocks_ok st' \<and>
      fat_entry fat st' = (fat_entry fat st)(c := END_OF_CHAIN) \<and> blk st' = set_fat fat c END_OF_CHAIN (blk st)"
    if "blocks_ok st" "blk st = V" for st
    using alloc_new_cluster_spec [OF that(1) c(1), of fat] c(2,3) that(2) unfolding fat_entry_word by blast
  then show "does (alloc_new_cluster fat) V (Some c) (set_fat fat c END_OF_CHAIN V)" unfolding does_def by blast
  obtain st where st: "blocks_ok st" "blk st = V" using disk_state [OF V] by blast
  from a [OF this] show "fat_word fat (set_fat fat c END_OF_CHAIN V) = (fat_word fat V)(c := END_OF_CHAIN)"
    unfolding fat_entry_word st(2) by metis
qed

lemma dir_at_above:
  assumes "dir_at fat V (s, 0) is q" "\<And>b. s \<le> b \<Longrightarrow> W b = V b"
  shows "dir_at fat W (s, 0) is q"
proof -
  have same: "slot W r = slot V r" if "place_ok r" "place_idx (s, 0) \<le> place_idx r" for r
    using assms(2) [of "fst r"] place_idx_block [OF that(2,1)] by (simp add: slot_def)
  have d: "place_ok (s, 0)" "items_at fat V (s, 0) is q" "empty_at fat V q" using assms(1) by (auto simp: dir_at_def)
  have "items_at fat W (s, 0) is q" by (rule items_at_cong [OF d(2,1)]) (rule same)
  then show ?thesis using d same [of q] items_at_idx [OF d(2,1)] by (simp add: dir_at_def empty_at_def)
qed

definition type_attr :: "InodeType \<Rightarrow> u8" where
  "type_attr t = (if t = Directory then ATTR_DIRECTORY else ATTR_ARCHIVE)"

lemma boot_block0: "W 0 = V 0 \<Longrightarrow> item_name W = item_name V \<and> boot_short W = boot_short V"
  by (auto simp: item_name_def boot_name_def boot_short_def slot_def split: item.splits)

lemma lookup_at:
  "cluster_id_to_sector_id (fs_fat (in_fs inode)) (in_start_cluster inode) = Some s \<Longrightarrow>
    lookup inode name = lookup_loop (in_fs inode) name (s, 0)"
  by (simp add: lookup_def [abs_def] unwrapR_def)

lemma create_new_spec:
  assumes "does (lookup inode name) V None V" "does (alloc_new_cluster (fs_fat (in_fs inode))) V (Some c) V1"
    "does (insert_dentry (in_fs inode) (in_start_cluster inode) name (type_attr t) 0 c) V1 (Some f) W"
  shows "does (create inode name t) V (Some \<lparr> dn_name = name, dn_inode = \<lparr> in_type = (if t = Regular then Fat32_File else Fat32_Dir),
    in_dentry = Some f, in_start_cluster = c, in_fs = in_fs inode \<rparr> \<rparr>) W"
proof -
  have a: "(case t of Regular \<Rightarrow> ATTR_ARCHIVE | Directory \<Rightarrow> ATTR_DIRECTORY | _ \<Rightarrow> ATTR_ARCHIVE) = type_attr t"
    by (cases t) (simp_all add: type_attr_def)
  show ?thesis
    unfolding create_def [abs_def] a Let_def
    by (rule does_bind [OF assms(1)], simp split del: if_split, rule does_bind [OF assms(2)], simp add: unwrapR_def split del: if_split,
        rule does_bind [OF assms(3)]) (simp add: does_return)
qed

lemma create_existing_spec:
  assumes "does (lookup inode name) V (Some dn) V"
  shows "does (create inode name t) V None V"
  unfolding create_def [abs_def] by (rule does_bind [OF assms]) (simp add: does_return)

text \<open>C32. Creating a file or directory in a directory as above, under a name that no entry has.  The
  name is ASCII, at most thirteen characters and does not begin with a dot, and the cluster of the
  directory has room for two more slots and the end marker.  Then \<^verbatim>\<open>create\<close> takes the first
  free cluster, marks it as a chain of its own and adds an entry with that start cluster and size
  0 at the end of the directory.  Looking the name up afterwards gives this entry.  Creating the
  name again changes nothing and returns nothing.\<close>

theorem create_correct:
  assumes V: "disk_ok V" and fs: "fs_ok (in_fs inode)" and s: "cluster_id_to_sector_id (fs_fat (in_fs inode)) (in_start_cluster inode) = Some s"
    and d: "dir_at (fs_fat (in_fs inode)) V (s, 0) is q" "Dead \<in> set is \<longrightarrow> boot_short V"
    and room: "next_slot (fs_fat (in_fs inode)) q = Some q1" "next_slot (fs_fat (in_fs inode)) q1 = Some q2" "empty_at (fs_fat (in_fs inode)) V q2"
    and n: "entry_name name" "name \<notin> item_name V ` set is"
    and c: "3 \<le> c" "c < 2 ^ 32" "fat_word (fs_fat (in_fs inode)) V c = 0" "\<forall>d. 3 \<le> d \<and> d < c \<longrightarrow> fat_word (fs_fat (in_fs inode)) V d \<noteq> 0"
      "fat_block (fs_fat (in_fs inode)) c < s" "fat_block (fs_fat (in_fs inode)) c \<noteq> 0"
  shows "\<exists>W dn. does (create inode name t) V (Some dn) W \<and> in_start_cluster (dn_inode dn) = c \<and>
    dir_at (fs_fat (in_fs inode)) W (s, 0) (is @ [Live name (type_attr t) c 0]) q2 \<and>
    (\<forall>k. fat_block (fs_fat (in_fs inode)) k < s \<longrightarrow>
      fat_word (fs_fat (in_fs inode)) W k = (if k = c then END_OF_CHAIN else fat_word (fs_fat (in_fs inode)) V k)) \<and>
    (\<exists>f. does (lookup inode name) W (Some \<lparr> dn_name = name, dn_inode =
          \<lparr> in_type = Fat32_File, in_dentry = Some f, in_start_cluster = c, in_fs = in_fs inode \<rparr> \<rparr>) W) \<and>
    does (create inode name t) W None W"
proof -
  let ?fs = "in_fs inode" let ?fat = "fs_fat ?fs"
  define V1 where "V1 = set_fat ?fat c END_OF_CHAIN V"
  note alloc = does_alloc [OF V c(1,3,4), folded V1_def]
  have V1: "disk_ok V1" "\<And>b. b \<noteq> fat_block ?fat c \<Longrightarrow> V1 b = V b"
    using does_disk_ok [OF alloc(1) V] by (simp_all add: V1_def set_fat_def)
  have d1: "dir_at ?fat V1 (s, 0) is q" by (rule dir_at_above [OF d(1)]) (use V1(2) c(5) in auto)
  have "place_ok q" "place_idx (s, 0) \<le> place_idx q"
    using d(1) items_at_idx [of ?fat V "(s, 0)" "is" q] by (simp_all add: dir_at_def)
  then have "place_ok q2" "place_idx (s, 0) \<le> place_idx q2" using next_slot_idx [OF room(1)] next_slot_idx [OF room(2)] by auto
  then have "V1 (fst q2) = V (fst q2)" using place_idx_block [of "(s, 0)" q2] V1(2) c(5) by auto
  then have e2: "empty_at ?fat V1 q2" using room(3) by (simp add: empty_at_def slot_def)
  obtain W where W: "does (insert_dentry ?fs (in_start_cluster inode) name (type_attr t) 0 c) V1 (Some (Fat32Dentry_new (fst q1) (snd q1) ?fat)) W"
    "disk_ok W" "dir_at ?fat W (s, 0) (is @ [Live name (type_attr t) c 0]) q2" "\<And>b. b < s \<Longrightarrow> W b = V1 b"
    using insert_dentry_spec [OF V1(1) fs s d1 room(1,2) e2 n(1) c(2)] by blast
  have none: "does (lookup inode name) V None V" unfolding lookup_at [OF s] by (rule lookup_loop_none [OF V fs d n(2)])
  have "W 0 = V 0" using W(4) V1(2) c(5,6) by auto
  then have boot: "item_name W = item_name V" "boot_short W = boot_short V" using boot_block0 by blast+
  obtain f where f: "does (lookup inode name) W (Some \<lparr> dn_name = name, dn_inode =
      \<lparr> in_type = Fat32_File, in_dentry = Some f, in_start_cluster = c, in_fs = ?fs \<rparr> \<rparr>) W"
    using lookup_loop_found [OF W(2) fs W(3)] d(2) n(2) boot unfolding lookup_at [OF s] by auto
  have "fat_word ?fat W k = (if k = c then END_OF_CHAIN else fat_word ?fat V k)" if "fat_block ?fat k < s" for k
    using W(4) [OF that] fun_cong [OF alloc(2), of k] by (simp add: fat_word_def)
  then show ?thesis
    using create_new_spec [OF none alloc(1) W(1)] W(3) f create_existing_spec [OF f, of t] by (intro exI conjI) auto
qed

theorem create_correct_witness:
  "\<exists>W dn. does (create (root_inode example_fs) [0x61] Directory) example_disk (Some dn) W \<and> in_start_cluster (dn_inode dn) = 3 \<and>
     dir_at (fs_fat example_fs) W (2, 0) [Live [0x61] ATTR_DIRECTORY 3 0] (2, 64)"
proof -
  have z: "fat_word (fs_fat example_fs) example_disk k = 0" for k
    using example_blocks_ok(3) [of "fs_fat example_fs" k] unfolding fat_entry_word example_blocks_ok(2) by simp
  have fs: "in_fs (root_inode example_fs) = example_fs" by (simp add: root_inode_def)
  have b: "fat_block (fs_fat example_fs) 3 = 1" by (simp add: fat_block_def example_fs_def example_fat_def FAT_from_sb_def)
  have n: "entry_name [0x61]" by (simp add: entry_name_def piece_name_def plain_name_def ascii_def)
  have "\<forall>d. 3 \<le> d \<and> d < 3 \<longrightarrow> fat_word (fs_fat example_fs) example_disk d \<noteq> 0" using leD by blast
  then have "\<exists>W dn. does (create (root_inode example_fs) [0x61] Directory) example_disk (Some dn) W \<and> in_start_cluster (dn_inode dn) = 3 \<and>
     dir_at (fs_fat example_fs) W (2, 0) ([] @ [Live [0x61] (type_attr Directory) 3 0]) (2, 64)"
    using create_correct [of example_disk "root_inode example_fs" 2 "[]" "(2, 0)" "(2, 32)" "(2, 64)" "[0x61]" 3 Directory, unfolded fs]
      example_dir example_fs_ok z b n by auto
  then show ?thesis by (simp add: type_attr_def)
qed



text \<open>A name that begins with a dot leaves the first byte of its short slot zero, which marks
  an empty slot: the next insertion into the directory starts in that slot and overwrites the
  start cluster and the size of the file.\<close>

theorem dot_file_overwritten:
  assumes V: "disk_ok V" and fs: "fs_ok fs" and cid: "cluster_id_to_sector_id (fs_fat fs) cid = Some s"
    and d: "dir_at (fs_fat fs) V (s, 0) is q" and nx: "next_slot (fs_fat fs) q = Some q1" and n: "piece_name name" "hd name = 0x2E" and c: "c < 2 ^ 32"
  shows "\<exists>W. does (insert_dentry fs cid name a z c) V (Some (Fat32Dentry_new (fst q1) (snd q1) (fs_fat fs))) W \<and>
    does (find_empty fs (s, 0)) W q1 W"
proof -
  obtain W where W: "does (insert_dentry fs cid name a z c) V (Some (Fat32Dentry_new (fst q1) (snd q1) (fs_fat fs))) W"
    "disk_ok W" "long_at W q name" "slot W q1 = Fat32DentryLayout_bytes (Fat32DentryLayout_new name a c z)" "items_at (fs_fat fs) W (s, 0) is q"
    using insert_dentry_writes [OF V fs cid d nx n(1) c] by blast
  have p: "place_ok (s, 0)" using d by (simp add: dir_at_def)
  note q = items_at_idx [OF W(5) p]
  obtain t where t: "name = 0x2E # t" using n by (cases name) (auto simp: piece_name_def)
  obtain nm r where sn: "short_name t 8 (replicate 8 0) (replicate 3 0) False False = (nm, r)" by (metis surj_pair)
  have "nm ! 0 = 0" using short_name_keeps [OF sn] by simp
  then have "dl_is_empty (Fat32DentryLayout_new name a c z)"
    using sn by (simp add: dl_is_empty_def Fat32DentryLayout_new_def t split: prod.splits)
  then have e: "dl_is_empty (Fat32DentryLayout_of (slot W q1))"
    unfolding W(4) Fat32DentryLayout_of_bytes [OF Fat32DentryLayout_new_spec(1) [OF c]] .
  have "does (find_empty fs q1) W q1 W" using find_empty_here e next_slot_idx [OF nx] q by blast
  then have "does (find_empty fs q) W q1 W"
    using find_empty_step [OF fs _ nx] long_at_layout(1) [OF W(2) _ W(3)] q by blast
  then show ?thesis using W(1) find_empty_reach [OF W(2) fs W(5) p] by blast
qed

theorem dot_file_overwritten_witness:
  "\<exists>W. does (insert_dentry example_fs 2 [0x2E, 0x61] ATTR_ARCHIVE 7 5) example_disk (Some (Fat32Dentry_new 2 32 (fs_fat example_fs))) W \<and>
    does (find_empty example_fs (2, 0)) W (2, 32) W"
proof -
  have n: "piece_name [0x2E, 0x61]" by (simp add: piece_name_def plain_name_def ascii_def)
  show ?thesis
    using dot_file_overwritten [OF example_dir(1) example_fs_ok(1,2) example_dir(2,3) n, of 5 ATTR_ARCHIVE 7] by simp
qed

end
