(* ===== verification/Fat32_File.thy ===== *)
theory Fat32_File
  imports Fat32_Dir Timer
begin

text \<open>
  FAT32 files (\<^verbatim>\<open>os/src/fs/fat32/inode.rs\<close>) and the status record of
  \<^verbatim>\<open>os/src/fs/inode.rs\<close>: reading and writing at an offset, growing a file, reading it
  whole.  File positions are numbers below \<^verbatim>\<open>2^64\<close>; the one subtraction that can pass zero, of
  the position from the size in \<^verbatim>\<open>read_at\<close>, is kept at its width.
\<close>

unbundle bit_operations_syntax

section \<open>Status\<close>

record Stat =
  st_dev :: u64
  st_ino :: u64
  st_mode :: u32
  st_nlink :: u32
  st_uid :: u32
  st_gid :: u32
  st_rdev :: u64
  st_pad :: u64
  st_size :: "64 word"
  st_blksize :: u32
  st_pad2 :: u32
  st_blocks :: u64
  st_atime :: TimeSpec
  st_mtime :: TimeSpec
  st_ctime :: TimeSpec
  st_unused :: u64

definition Stat_new :: "u64 \<Rightarrow> u64 \<Rightarrow> u32 \<Rightarrow> u32 \<Rightarrow> u64 \<Rightarrow> 64 word \<Rightarrow> 64 word \<Rightarrow> 64 word \<Rightarrow> 64 word \<Rightarrow> Stat" where
  "Stat_new dev ino mode nlink rdev sz atime_sec mtime_sec ctime_sec =
     \<lparr> st_dev = dev, st_ino = ino, st_mode = mode, st_nlink = nlink, st_uid = 0, st_gid = 0, st_rdev = rdev, st_pad = 0,
       st_size = sz, st_blksize = of_nat BLOCK_SZ, st_pad2 = 0,
       st_blocks = (sz + of_nat BLOCK_SZ - 1) div of_nat BLOCK_SZ,
       st_atime = \<lparr> tv_sec = atime_sec, tv_nsec = 0 \<rparr>, st_mtime = \<lparr> tv_sec = mtime_sec, tv_nsec = 0 \<rparr>,
       st_ctime = \<lparr> tv_sec = ctime_sec, tv_nsec = 0 \<rparr>, st_unused = 0 \<rparr>"

definition MODE_NULL :: u32 where "MODE_NULL = 0"
definition MODE_DIR :: u32 where "MODE_DIR = 0x4000"
definition MODE_FILE :: u32 where "MODE_FILE = 0x8000"

definition StatMode_from_bits :: "u32 \<Rightarrow> u32 option" where
  "StatMode_from_bits b = (if b AND NOT (MODE_DIR OR MODE_FILE) = 0 then Some b else None)"

definition Stat_is_dir :: "Stat \<Rightarrow> bool res" where
  "Stat_is_dir s = bindR (unwrapR (StatMode_from_bits (st_mode s))) (\<lambda>m. Inr (m AND MODE_DIR = MODE_DIR))"

definition Stat_is_file :: "Stat \<Rightarrow> bool res" where
  "Stat_is_file s = bindR (unwrapR (StatMode_from_bits (st_mode s))) (\<lambda>m. Inr (m AND MODE_FILE = MODE_FILE))"

section \<open>Sizes\<close>

definition Fat32Inode_is_dir :: "Fat32Inode \<Rightarrow> bool" where
  "Fat32Inode_is_dir inode \<longleftrightarrow> in_type inode = Fat32_Dir"

definition Fat32Inode_is_file :: "Fat32Inode \<Rightarrow> bool" where
  "Fat32Inode_is_file inode \<longleftrightarrow> in_type inode = Fat32_File"

definition Fat32Inode_file_size :: "Fat32Inode \<Rightarrow> BlockState \<Rightarrow> (nat \<times> BlockState) res option" where
  "Fat32Inode_file_size inode st =
     bindO (Some (unwrapR (in_dentry inode))) (\<lambda>dentry. Fat32Dentry_file_size dentry st)"

definition Fat32Inode_set_file_size :: "Fat32Inode \<Rightarrow> nat \<Rightarrow> BlockState \<Rightarrow> (unit \<times> BlockState) res option" where
  "Fat32Inode_set_file_size inode n st =
     bindO (Some (unwrapR (in_dentry inode))) (\<lambda>dentry. Fat32Dentry_set_file_size dentry n st)"

text \<open>The loop condition of \<^verbatim>\<open>increase_size\<close> reads the length of the chain taken before the
  loop.\<close>

partial_function (option) increase_loop ::
  "FAT \<Rightarrow> nat list \<Rightarrow> nat \<Rightarrow> nat \<Rightarrow> BlockState \<Rightarrow> (unit \<times> BlockState) res option" where
  "increase_loop fat chain sz last_cluster_id st =
     (if length chain * CLUSTER_SIZE < sz then
        bindO (increase_cluster fat last_cluster_id st) (\<lambda>(new, st1).
        bindO (Some (unwrapR new)) (\<lambda>n. increase_loop fat chain sz n st1))
      else Some (Inr ((), st)))"

definition increase_size :: "Fat32Inode \<Rightarrow> nat \<Rightarrow> BlockState \<Rightarrow> (unit \<times> BlockState) res option" where
  "increase_size inode sz st =
     bindO (Fat32Inode_file_size inode st) (\<lambda>(old, st1).
       if sz < old then Some (Inr ((), st1))
       else bindO (Fat32Inode_set_file_size inode sz st1) (\<lambda>(_, st2).
         bindO (cluster_chain (in_fs inode) (in_start_cluster inode) st2) (\<lambda>(chain, st3).
           if length chain * CLUSTER_SIZE \<ge> sz then Some (Inr ((), st3))
           else bindO (Some (unwrapR (if chain = [] then None else Some (last chain)))) (\<lambda>last_cluster_id.
             increase_loop (fs_fat (in_fs inode)) chain sz last_cluster_id st3))))"

section \<open>Reading and writing\<close>

definition usize_sub :: "nat \<Rightarrow> nat \<Rightarrow> nat" where
  "usize_sub a b = (a + 2 ^ 64 - b) mod 2 ^ 64"

text \<open>The position after a cluster has been passed over, and whether all of it was.\<close>

definition pass_over :: "nat \<Rightarrow> nat \<Rightarrow> nat \<times> bool" where
  "pass_over offset pos =
     (if pos < offset then
        let pass_size = min CLUSTER_SIZE (offset - pos) in (pos + pass_size, pass_size = CLUSTER_SIZE)
      else (pos, False))"

text \<open>The body of the loop over the clusters, with the bytes read so far, the position, the
  caller's buffer and the cluster buffer; the flag says whether the loop goes on.\<close>

definition read_body :: "Fat32Inode \<Rightarrow> nat \<Rightarrow> nat \<Rightarrow> nat \<times> nat \<times> u8 list \<times> u8 list \<Rightarrow> BlockState \<Rightarrow>
    ((bool \<times> nat \<times> nat \<times> u8 list \<times> u8 list) \<times> BlockState) res option" where
  "read_body inode offset cluster_id v st =
     (case v of (read_size, pos0, buf, cluster_buf0) \<Rightarrow>
       case pass_over offset pos0 of (pos, skip) \<Rightarrow>
         if skip then Some (Inr ((True, read_size, pos, buf, cluster_buf0), st))
         else
           bindO (Some (unwrapR (in_dentry inode))) (\<lambda>dentry.
           bindO (Some (read_cluster (in_fs inode) cluster_id cluster_buf0 st)) (\<lambda>(cluster_buf, st1).
           bindO (Fat32Dentry_file_size dentry st1) (\<lambda>(sz, st2).
             let copy_size = min (usize_sub sz pos) (length buf - read_size) in
             if pos mod CLUSTER_SIZE + copy_size > length cluster_buf then Some (Inl Index_out_of_bounds)
             else
               let buf' = splice read_size (take copy_size (drop (pos mod CLUSTER_SIZE) cluster_buf)) buf in
               if read_size + copy_size \<ge> length buf then
                 Some (Inr ((False, read_size + copy_size, pos + copy_size, buf', cluster_buf), st2))
               else bindO (Fat32Dentry_file_size dentry st2) (\<lambda>(sz', st3).
                 Some (Inr ((\<not> pos + copy_size \<ge> sz', read_size + copy_size, pos + copy_size, buf', cluster_buf), st3)))))))"

primrec read_clusters :: "Fat32Inode \<Rightarrow> nat \<Rightarrow> nat list \<Rightarrow> nat \<times> nat \<times> u8 list \<times> u8 list \<Rightarrow> BlockState \<Rightarrow>
    ((nat \<times> nat \<times> u8 list \<times> u8 list) \<times> BlockState) res option" where
  "read_clusters inode offset [] v st = Some (Inr (v, st))"
| "read_clusters inode offset (cluster_id # cs) v st =
     bindO (read_body inode offset cluster_id v st) (\<lambda>((go, v'), st').
       if go then read_clusters inode offset cs v' st' else Some (Inr (v', st')))"

definition read_at :: "Fat32Inode \<Rightarrow> nat \<Rightarrow> u8 list \<Rightarrow> BlockState \<Rightarrow> ((nat \<times> u8 list) \<times> BlockState) res option" where
  "read_at inode offset buf st =
     bindO (cluster_chain (in_fs inode) (in_start_cluster inode) st) (\<lambda>(chain, st1).
     bindO (read_clusters inode offset chain (0, 0, buf, replicate CLUSTER_SIZE 0) st1) (\<lambda>((read_size, _, buf', _), st2).
       Some (Inr ((read_size, buf'), st2))))"

definition write_body :: "Fat32FS \<Rightarrow> nat \<Rightarrow> u8 list \<Rightarrow> nat \<Rightarrow> nat \<times> nat \<times> u8 list \<Rightarrow> BlockState \<Rightarrow>
    ((bool \<times> nat \<times> nat \<times> u8 list) \<times> BlockState) res option" where
  "write_body fs offset buf cluster_id v st =
     (case v of (write_size, pos0, cluster_buf0) \<Rightarrow>
       case pass_over offset pos0 of (pos, skip) \<Rightarrow>
         if skip then Some (Inr ((True, write_size, pos, cluster_buf0), st))
         else
           bindO (Some (read_cluster fs cluster_id cluster_buf0 st)) (\<lambda>(cluster_buf1, st1).
             let copy_size = min (length buf - write_size) (CLUSTER_SIZE - pos mod CLUSTER_SIZE);
                 cluster_buf = splice (pos mod CLUSTER_SIZE) (take copy_size (drop write_size buf)) cluster_buf1 in
             bindO (Some (write_cluster fs cluster_id cluster_buf st1)) (\<lambda>st2.
               Some (Inr ((\<not> write_size + copy_size \<ge> length buf, write_size + copy_size, pos + copy_size, cluster_buf), st2)))))"

primrec write_clusters :: "Fat32FS \<Rightarrow> nat \<Rightarrow> u8 list \<Rightarrow> nat list \<Rightarrow> nat \<times> nat \<times> u8 list \<Rightarrow> BlockState \<Rightarrow>
    ((nat \<times> nat \<times> u8 list) \<times> BlockState) res option" where
  "write_clusters fs offset buf [] v st = Some (Inr (v, st))"
| "write_clusters fs offset buf (cluster_id # cs) v st =
     bindO (write_body fs offset buf cluster_id v st) (\<lambda>((go, v'), st').
       if go then write_clusters fs offset buf cs v' st' else Some (Inr (v', st')))"

definition write_at :: "Fat32Inode \<Rightarrow> nat \<Rightarrow> u8 list \<Rightarrow> BlockState \<Rightarrow> (nat \<times> BlockState) res option" where
  "write_at inode offset buf st =
     bindO (increase_size inode ((offset + length buf) mod 2 ^ 64) st) (\<lambda>(_, st1).
     bindO (cluster_chain (in_fs inode) (in_start_cluster inode) st1) (\<lambda>(chain, st2).
     bindO (write_clusters (in_fs inode) offset buf chain (0, 0, replicate CLUSTER_SIZE 0) st2) (\<lambda>((write_size, _), st3).
       Some (Inr (write_size, st3)))))"

section \<open>The file interface\<close>

definition Fat32Inode_clear :: "Fat32Inode \<Rightarrow> BlockState \<Rightarrow> (unit \<times> BlockState) res option" where
  "Fat32Inode_clear inode st = Fat32Inode_set_file_size inode 0 st"

definition Fat32Inode_link :: "Fat32Inode \<Rightarrow> rstring \<Rightarrow> Dentry \<Rightarrow> bool" where
  "Fat32Inode_link inode name target = False"

definition Fat32Inode_read :: "Fat32Inode \<Rightarrow> u8 list \<Rightarrow> BlockState \<Rightarrow> ((nat \<times> u8 list) \<times> BlockState) res option" where
  "Fat32Inode_read inode buf st = read_at inode 0 buf st"

definition Fat32Inode_write :: "Fat32Inode \<Rightarrow> u8 list \<Rightarrow> BlockState \<Rightarrow> (nat \<times> BlockState) res option" where
  "Fat32Inode_write inode buf st = write_at inode 0 buf st"

partial_function (option) file_read_all_loop ::
  "Fat32Inode \<Rightarrow> nat \<Rightarrow> u8 list \<Rightarrow> u8 list \<Rightarrow> BlockState \<Rightarrow> (u8 list \<times> BlockState) res option" where
  "file_read_all_loop inode total_read_size buffer v st =
     bindO (read_at inode total_read_size buffer st) (\<lambda>((len, buffer), st1).
       if len = 0 then Some (Inr (v, st1))
       else file_read_all_loop inode (total_read_size + len) buffer (v @ take len buffer) st1)"

definition Fat32Inode_read_all :: "Fat32Inode \<Rightarrow> BlockState \<Rightarrow> (u8 list \<times> BlockState) res option" where
  "Fat32Inode_read_all inode st = file_read_all_loop inode 0 (replicate 512 0) [] st"

definition Fat32Inode_fstat :: "Fat32Inode \<Rightarrow> BlockState \<Rightarrow> (Stat option \<times> BlockState) res option" where
  "Fat32Inode_fstat inode st =
     (let mode = (case in_type inode of Fat32_File \<Rightarrow> MODE_FILE | Fat32_Dir \<Rightarrow> MODE_DIR | _ \<Rightarrow> MODE_NULL) in
      bindO (Some (unwrapR (in_dentry inode))) (\<lambda>dentry.
      bindO (Fat32Dentry_file_size dentry st) (\<lambda>(sz, st1).
        Some (Inr (Some (Stat_new 0 0 mode 1 0 (of_nat sz) 0 0 0), st1)))))"

section \<open>Clusters of a file\<close>

definition full_clusters :: "Fat32FS \<Rightarrow> bool" where
  "full_clusters fs \<longleftrightarrow> sb_bytes_per_sector (fs_sb fs) = 512 \<and> sb_sectors_per_cluster (fs_sb fs) = 8 \<and> fs_ok fs"

definition clus :: "Fat32FS \<Rightarrow> disk \<Rightarrow> nat \<Rightarrow> u8 list" where
  "clus fs V c = concat (map (\<lambda>i. V (cluster_offset (fs_sb fs) c + i)) [0..<8])"

definition set_clus :: "Fat32FS \<Rightarrow> nat \<Rightarrow> u8 list \<Rightarrow> disk \<Rightarrow> disk" where
  "set_clus fs c data V = (\<lambda>b. if cluster_offset (fs_sb fs) c \<le> b \<and> b < cluster_offset (fs_sb fs) c + 8
     then take BLOCK_SZ (drop ((b - cluster_offset (fs_sb fs) c) * BLOCK_SZ) data) else V b)"

lemma full_clusters_size:
  "full_clusters fs \<Longrightarrow> cluster_bytes (fs_sb fs) = 8 * BLOCK_SZ \<and> cluster_bytes (fs_sb fs) \<le> CLUSTER_SIZE \<and> unat (sb_sectors_per_cluster (fs_sb fs)) = 8"
  by (simp add: full_clusters_def cluster_bytes_def BLOCK_SZ_def CLUSTER_SIZE_def)

lemma length_concat_uniform: "\<forall>x \<in> set xs. length x = n \<Longrightarrow> length (concat xs) = length xs * n"
  by (induction xs) simp_all

lemma length_clus: "disk_ok V \<Longrightarrow> length (clus fs V c) = CLUSTER_SIZE"
  using length_concat_uniform [of "map (\<lambda>i. V (cluster_offset (fs_sb fs) c + i)) [0..<8]" BLOCK_SZ]
  by (simp add: clus_def disk_ok_def BLOCK_SZ_def CLUSTER_SIZE_def del: length_concat)

lemma does_read_cluster:
  assumes fs: "full_clusters fs" and buf: "length buf = CLUSTER_SIZE"
  shows "does (\<lambda>st. Some (read_cluster fs c buf st)) V (clus fs V c) V"
  unfolding does_def
proof (intro allI impI, elim conjE)
  fix st assume st: "blocks_ok st" "blk st = V"
  note n = full_clusters_size [OF fs]
  obtain st' where "foldR (read_sector_into (cluster_offset (fs_sb fs) c) (cluster_bytes (fs_sb fs))) [0..<8] ((0, buf), st) =
      Inr ((8 * BLOCK_SZ, clus fs V c @ drop (8 * BLOCK_SZ) buf), st')" "blocks_ok st'" "blk st' = V"
    using read_sectors [OF st(1) buf, of "cluster_bytes (fs_sb fs)" 8 8] n st(2) unfolding clus_def by auto
  moreover have "drop (8 * BLOCK_SZ) buf = []" using buf by (simp add: BLOCK_SZ_def CLUSTER_SIZE_def)
  ultimately show "\<exists>st'. Some (read_cluster fs c buf st) = Some (Inr (clus fs V c, st')) \<and> blocks_ok st' \<and> blk st' = V"
    using n by (simp add: read_cluster_def del: upt_conv_Nil)
qed

lemma does_write_cluster:
  assumes fs: "full_clusters fs" and data: "length data = CLUSTER_SIZE" and k: "does k (set_clus fs c data V) w W"
  shows "does (\<lambda>st. bindO (Some (write_cluster fs c data st)) k) V w W"
  unfolding does_def
proof (intro allI impI, elim conjE)
  fix st assume st: "blocks_ok st" "blk st = V"
  note n = full_clusters_size [OF fs]
  obtain st' where "foldR (write_sector_from (cluster_offset (fs_sb fs) c) (cluster_bytes (fs_sb fs)) data) [0..<8] (0, st) =
      Inr (8 * BLOCK_SZ, st')" "blocks_ok st'" "blk st' = set_clus fs c data V"
    using write_sectors [OF st(1) data, of "cluster_bytes (fs_sb fs)" 8 8] n st(2) unfolding set_clus_def by auto
  then show "\<exists>st'. bindO (Some (write_cluster fs c data st)) k = Some (Inr (w, st')) \<and> blocks_ok st' \<and> blk st' = W"
    using n doesD [OF k] by (simp add: write_cluster_def)
qed

lemma clus_set_clus:
  assumes "length data = CLUSTER_SIZE"
  shows "clus fs (set_clus fs c data V) c = data"
proof -
  have "map (\<lambda>i. set_clus fs c data V (cluster_offset (fs_sb fs) c + i)) [0..<8] = map (\<lambda>i. take BLOCK_SZ (drop (i * BLOCK_SZ) data)) [0..<8]"
    by (intro map_cong refl) (simp add: set_clus_def)
  moreover have "8 * BLOCK_SZ = length data" using assms by (simp add: BLOCK_SZ_def CLUSTER_SIZE_def)
  ultimately show ?thesis using concat_pieces [of 8 BLOCK_SZ data] by (simp only: clus_def order_refl take_all)
qed

lemma does_cluster_chain:
  assumes "fat_chain (fat_word (fs_fat fs) V) (c # cs)"
  shows "does (cluster_chain fs c) V (c # cs) V"
  unfolding does_def cluster_chain_def
  using chain_loop_spec [of _ "fs_fat fs" c cs "[]"] assms by (auto simp: fat_entry_word)

section \<open>The end slot of an entry\<close>

text \<open>A handle from \<^verbatim>\<open>lookup\<close> refers to the long slot of its entry, a handle from \<^verbatim>\<open>create\<close> to the
  short one; both lead to the slot that holds the size.\<close>

definition ends_at :: "Fat32FS \<Rightarrow> disk \<Rightarrow> Fat32Dentry \<Rightarrow> place \<Rightarrow> bool" where
  "ends_at fs V f e \<longleftrightarrow> (let p = (de_sector_id f, de_sector_offset f) in
     de_fat f = fs_fat fs \<and> place_ok p \<and>
     (p = e \<and> \<not> dl_is_long (Fat32DentryLayout_of (slot V p)) \<or> (\<exists>n. long_at V p n) \<and> next_slot (fs_fat fs) p = Some e))"

definition size_at :: "disk \<Rightarrow> place \<Rightarrow> nat" where
  "size_at V e = unat (dl_file_size (Fat32DentryLayout_of (slot V e)))"

definition set_size :: "place \<Rightarrow> nat \<Rightarrow> disk \<Rightarrow> disk" where
  "set_size e n V = set_slot V e (Fat32DentryLayout_bytes ((Fat32DentryLayout_of (slot V e))\<lparr> dl_file_size := of_nat n \<rparr>))"

lemma ends_at_ok: "ends_at fs V f e \<Longrightarrow> place_ok e"
  using next_slot_ok by (fastforce simp: ends_at_def Let_def)

lemma does_to_end:
  assumes V: "disk_ok V" and e: "ends_at fs V f e"
  shows "does (to_end f) V e V"
proof -
  define p where "p = (de_sector_id f, de_sector_offset f)"
  obtain d where f: "f = \<lparr> de_sector_id = fst p, de_sector_offset = snd p, de_deleted = d, de_fat = fs_fat fs \<rparr>" and p: "place_ok p"
    using e by (cases f) (auto simp: ends_at_def Let_def p_def)
  note il = does_is_long [of "fst p" "snd p" d "fs_fat fs" V]
  consider "p = e" "\<not> dl_is_long (Fat32DentryLayout_of (slot V p))" | n where "long_at V p n" "next_slot (fs_fat fs) p = Some e"
    using e by (auto simp: ends_at_def Let_def p_def)
  then show ?thesis
  proof cases
    case 1
    then show ?thesis
      using p unfolding to_end_def [abs_def] f
      by (intro does_bind [OF il]) (simp_all add: does_return)
  next
    case (2 n)
    have l: "does (end_loop (fs_fat fs) p) V e V"
      by (intro does_ext [OF end_loop.simps], intro does_bind [OF does_read_long [OF p]] does_bind [OF does_step [OF 2(2) p]])
        (use 2(1) in \<open>simp add: long_at_def Let_def does_return\<close>)
    then show ?thesis
      using p long_at_layout(3) [OF V p 2(1)] unfolding to_end_def [abs_def] f
      by (intro does_bind [OF il]) simp_all
  qed
qed

lemma does_file_size:
  assumes "disk_ok V" "ends_at fs V f e"
  shows "does (Fat32Dentry_file_size f) V (size_at V e) V"
  unfolding Fat32Dentry_file_size_def [abs_def]
  by (rule does_bind [OF does_to_end [OF assms]])
    (use does_read [OF ends_at_ok [OF assms(2)], of "\<lambda>bs. unat (dl_file_size (Fat32DentryLayout_of bs))" V] in
      \<open>cases e, simp add: size_at_def\<close>)

lemma does_set_file_size:
  assumes "disk_ok V" "ends_at fs V f e"
  shows "does (Fat32Dentry_set_file_size f n) V () (set_size e n V)"
  unfolding Fat32Dentry_set_file_size_def [abs_def]
proof (rule does_bind [OF does_to_end [OF assms]])
  let ?l = "(Fat32DentryLayout_of (slot V e))\<lparr> dl_file_size := of_nat n \<rparr>"
  have e: "place_ok e" by (rule ends_at_ok [OF assms(2)])
  have "dl_wf ?l" using dl_wf_of [OF length_slot [OF assms(1) e]] by (simp add: dl_wf_def)
  then have "does (\<lambda>st. Some (block_modify (fst e) DENTRY_SIZE (snd e)
      (\<lambda>bs. ((), Fat32DentryLayout_bytes ((Fat32DentryLayout_of bs)\<lparr> dl_file_size := of_nat n \<rparr>))) st)) V () (set_size e n V)"
    unfolding set_size_def by (intro does_modify [OF e]) (simp_all add: length_dl_bytes)
  then show "does (case e of (sector_id, offset) \<Rightarrow> \<lambda>st1. Some (block_modify sector_id DENTRY_SIZE offset
      (\<lambda>bs. ((), Fat32DentryLayout_bytes ((Fat32DentryLayout_of bs)\<lparr> dl_file_size := of_nat n \<rparr>))) st1)) V () (set_size e n V)"
    by (cases e) simp
qed

section \<open>Reading\<close>

definition content :: "Fat32FS \<Rightarrow> disk \<Rightarrow> nat list \<Rightarrow> u8 list" where
  "content fs V cs = concat (map (clus fs V) cs)"

lemma length_content: "disk_ok V \<Longrightarrow> length (content fs V cs) = length cs * CLUSTER_SIZE"
  by (induction cs) (simp_all add: content_def length_clus)

lemma CLUSTER_pos: "0 < CLUSTER_SIZE"
  by (simp add: CLUSTER_SIZE_def)

lemma drop_concat_uniform:
  "\<lbrakk> \<forall>x \<in> set xs. length x = n; i < length xs; r \<le> n \<rbrakk> \<Longrightarrow>
    drop (i * n + r) (concat xs) = drop r (xs ! i) @ concat (drop (Suc i) xs)"
proof (induction xs arbitrary: i)
  case (Cons x xs)
  then show ?case by (cases i) (simp_all add: add.assoc)
qed simp

lemma content_slice:
  assumes "disk_ok V" "pos div CLUSTER_SIZE < length cs" "pos mod CLUSTER_SIZE + k \<le> CLUSTER_SIZE"
  shows "take k (drop pos (content fs V cs)) = take k (drop (pos mod CLUSTER_SIZE) (clus fs V (cs ! (pos div CLUSTER_SIZE))))"
proof -
  have "pos = pos div CLUSTER_SIZE * CLUSTER_SIZE + pos mod CLUSTER_SIZE" by simp
  moreover have "drop (pos div CLUSTER_SIZE * CLUSTER_SIZE + pos mod CLUSTER_SIZE) (concat (map (clus fs V) cs)) =
      drop (pos mod CLUSTER_SIZE) (map (clus fs V) cs ! (pos div CLUSTER_SIZE)) @ concat (drop (Suc (pos div CLUSTER_SIZE)) (map (clus fs V) cs))"
    using assms by (intro drop_concat_uniform) (auto simp: length_clus)
  ultimately show ?thesis using assms length_clus [OF assms(1)] unfolding content_def by simp
qed

lemma pass_over_skip: "Suc i * CLUSTER_SIZE \<le> offset \<Longrightarrow> pass_over offset (i * CLUSTER_SIZE) = (Suc i * CLUSTER_SIZE, True)"
  using CLUSTER_pos by (simp add: pass_over_def Let_def min_def)

lemma pass_over_here: "pass_over offset (offset div CLUSTER_SIZE * CLUSTER_SIZE) = (offset, False)"
proof -
  define i r where "i = offset div CLUSTER_SIZE" and "r = offset mod CLUSTER_SIZE"
  have "offset = i * CLUSTER_SIZE + r" "r < CLUSTER_SIZE" using CLUSTER_pos by (simp_all add: i_def r_def)
  then show ?thesis unfolding i_def [symmetric] by (simp add: pass_over_def Let_def)
qed

lemma pass_over_past: "offset \<le> pos \<Longrightarrow> pass_over offset pos = (pos, False)"
  by (simp add: pass_over_def)

lemma read_clusters_skip:
  "\<lbrakk> k \<le> length cs; (i + k) * CLUSTER_SIZE \<le> offset \<rbrakk> \<Longrightarrow>
    read_clusters inode offset cs (r, i * CLUSTER_SIZE, buf, cb) st =
    read_clusters inode offset (drop k cs) (r, (i + k) * CLUSTER_SIZE, buf, cb) st"
proof (induction k arbitrary: i cs)
  case (Suc k)
  then obtain c cs' where cs: "cs = c # cs'" by (cases cs) auto
  have "Suc i * CLUSTER_SIZE \<le> (i + Suc k) * CLUSTER_SIZE" by (rule mult_le_mono1) simp
  then have "Suc i * CLUSTER_SIZE \<le> offset" using Suc.prems(2) by (rule le_trans)
  then have "read_clusters inode offset cs (r, i * CLUSTER_SIZE, buf, cb) st = read_clusters inode offset cs' (r, Suc i * CLUSTER_SIZE, buf, cb) st"
    by (simp add: cs read_body_def pass_over_skip del: mult_Suc)
  then show ?case using Suc.IH [of cs' "Suc i"] Suc.prems by (simp add: cs)
qed simp

text \<open>What \<^verbatim>\<open>read_at\<close> does with the cluster the offset lies in.\<close>

definition read_count :: "nat \<Rightarrow> nat \<Rightarrow> nat \<Rightarrow> nat" where
  "read_count sz offset len = min (usize_sub sz offset) len"

lemma usize_sub_le: "\<lbrakk> b \<le> a; a < 2 ^ 64 \<rbrakk> \<Longrightarrow> usize_sub a b = a - b"
proof -
  assume "b \<le> a" "a < 2 ^ 64"
  then have "a + 2 ^ 64 - b = (a - b) + 2 ^ 64" "a - b < 2 ^ 64" by simp_all
  then show ?thesis by (simp only: usize_sub_def mod_add_self2 mod_less)
qed

lemma size_at_less: "size_at V e < 2 ^ 32"
  unfolding size_at_def by (rule order_less_le_trans [OF unsigned_less]) simp

definition file_at :: "Fat32Inode \<Rightarrow> disk \<Rightarrow> place \<Rightarrow> nat list \<Rightarrow> bool" where
  "file_at inode V e cs \<longleftrightarrow> disk_ok V \<and> full_clusters (in_fs inode) \<and> (\<exists>f. in_dentry inode = Some f \<and> ends_at (in_fs inode) V f e) \<and>
     cs \<noteq> [] \<and> hd cs = in_start_cluster inode \<and> fat_chain (fat_word (fs_fat (in_fs inode)) V) cs"

lemma does_file_chain:
  assumes "file_at inode V e cs"
  shows "does (cluster_chain (in_fs inode) (in_start_cluster inode)) V cs V"
  using assms does_cluster_chain [of "in_fs inode" V] by (cases cs) (auto simp: file_at_def)

lemma does_read_body:
  assumes F: "file_at inode V e cs" and pos: "pass_over offset pos0 = (pos, False)" and r: "r + k \<le> length buf" "k = read_count (size_at V e) pos (length buf - r)"
    and fit: "pos mod CLUSTER_SIZE + k \<le> CLUSTER_SIZE" and cb: "length cb = CLUSTER_SIZE"
  shows "does (read_body inode offset c (r, pos0, buf, cb)) V
    (r + k < length buf \<and> pos + k < size_at V e, r + k, pos + k,
     splice r (take k (drop (pos mod CLUSTER_SIZE) (clus (in_fs inode) V c))) buf, clus (in_fs inode) V c) V"
proof -
  obtain f where f: "in_dentry inode = Some f" "ends_at (in_fs inode) V f e" and V: "disk_ok V" and fs: "full_clusters (in_fs inode)"
    using F by (auto simp: file_at_def)
  note sz = does_file_size [OF V f(2)]
  note rc = does_read_cluster [OF fs cb, of c V]
  have ok: "\<not> pos mod CLUSTER_SIZE + k > length (clus (in_fs inode) V c)" using fit by (simp add: length_clus [OF V])
  show ?thesis
  proof (cases "r + k < length buf")
    case True
    show ?thesis
      unfolding read_body_def [abs_def] f(1) unwrapR_def prod.case pos option.case bindO_simps if_False
      apply (rule does_bind [OF rc])
      apply (rule does_bind [OF sz])
      using True ok r(2)
      apply (simp add: Let_def read_count_def [symmetric])
      apply (rule does_ext [OF refl], rule does_bind [OF sz])
      by (simp add: does_return not_le)
  next
    case False
    show ?thesis
      unfolding read_body_def [abs_def] f(1) unwrapR_def prod.case pos option.case bindO_simps if_False
      apply (rule does_bind [OF rc])
      apply (rule does_bind [OF sz])
      using False ok r
      by (simp add: Let_def read_count_def [symmetric] does_return)
  qed
qed

lemma read_clusters_at:
  assumes F: "file_at inode V e cs" and i: "offset div CLUSTER_SIZE < length cs"
    and k: "k = read_count (size_at V e) offset (length buf)" and fit: "offset mod CLUSTER_SIZE + k \<le> CLUSTER_SIZE"
    and stop: "k = length buf \<or> size_at V e \<le> offset + k"
  shows "does (read_at inode offset buf) V (k, take k (drop offset (content (in_fs inode) V cs)) @ drop k buf) V"
proof -
  let ?i = "offset div CLUSTER_SIZE" and ?fs = "in_fs inode"
  have V: "disk_ok V" using F by (simp add: file_at_def)
  have kb: "k \<le> length buf" by (simp add: k read_count_def)
  let ?v = "(0, offset div CLUSTER_SIZE * CLUSTER_SIZE, buf, replicate CLUSTER_SIZE 0)"
  have b: "does (read_body inode offset (cs ! ?i) ?v) V
      (False, k, offset + k, splice 0 (take k (drop (offset mod CLUSTER_SIZE) (clus ?fs V (cs ! ?i)))) buf, clus ?fs V (cs ! ?i)) V"
    using does_read_body [OF F pass_over_here _ _ fit, of 0 buf "replicate CLUSTER_SIZE 0" "cs ! ?i"] kb k stop by auto
  have lk: "length (take k (drop (offset mod CLUSTER_SIZE) (clus ?fs V (cs ! ?i)))) = k"
    using fit by (simp add: length_clus [OF V])
  have "splice 0 (take k (drop (offset mod CLUSTER_SIZE) (clus ?fs V (cs ! ?i)))) buf = take k (drop offset (content ?fs V cs)) @ drop k buf"
    unfolding content_slice [OF V i fit] splice_def lk by simp
  with b have r0: "does (read_clusters inode offset (drop ?i cs) ?v) V
      (k, offset + k, take k (drop offset (content ?fs V cs)) @ drop k buf, clus ?fs V (cs ! ?i)) V"
    unfolding Cons_nth_drop_Suc [OF i, symmetric]
    by (intro does_ext [OF read_clusters.simps(2)], intro does_bind [OF b]) (simp add: does_return)
  have eq: "read_clusters inode offset cs (0, 0, buf, replicate CLUSTER_SIZE 0) st = read_clusters inode offset (drop ?i cs) ?v st" for st
    using read_clusters_skip [of ?i cs 0 offset inode 0 buf "replicate CLUSTER_SIZE 0" st] i by simp
  have r: "does (read_clusters inode offset cs (0, 0, buf, replicate CLUSTER_SIZE 0)) V
      (k, offset + k, take k (drop offset (content ?fs V cs)) @ drop k buf, clus ?fs V (cs ! ?i)) V"
    by (rule does_ext [OF eq r0])
  show ?thesis
    unfolding read_at_def [abs_def]
    by (rule does_bind [OF does_file_chain [OF F]], rule does_bind [OF r]) (simp add: does_return)
qed

lemma read_at_beyond_chain:
  assumes F: "file_at inode V e cs" and i: "length cs * CLUSTER_SIZE \<le> offset"
  shows "does (read_at inode offset buf) V (0, buf) V"
proof -
  have "read_clusters inode offset cs (0, 0, buf, replicate CLUSTER_SIZE 0) st =
      Some (Inr ((0, length cs * CLUSTER_SIZE, buf, replicate CLUSTER_SIZE 0), st))" for st
    using read_clusters_skip [of "length cs" cs 0 offset inode 0 buf "replicate CLUSTER_SIZE 0" st] i by simp
  then have r: "does (read_clusters inode offset cs (0, 0, buf, replicate CLUSTER_SIZE 0)) V (0, length cs * CLUSTER_SIZE, buf, replicate CLUSTER_SIZE 0) V"
    by (simp add: does_def)
  show ?thesis
    unfolding read_at_def [abs_def]
    by (rule does_bind [OF does_file_chain [OF F]], rule does_bind [OF r]) (simp add: does_return)
qed

text \<open>Reading whole blocks of 512 bytes never crosses the end of a cluster.\<close>

lemma read_at_block:
  assumes F: "file_at inode V e cs" and off: "offset mod 512 = 0 \<or> offset = size_at V e" "offset \<le> size_at V e" and sz: "size_at V e \<le> length cs * CLUSTER_SIZE"
    and buf: "length buf = 512"
  shows "does (read_at inode offset buf) V (min (size_at V e - offset) 512,
    take 512 (drop offset (take (size_at V e) (content (in_fs inode) V cs))) @ drop (min (size_at V e - offset) 512) buf) V"
proof -
  let ?n = "size_at V e" and ?C = "content (in_fs inode) V cs"
  define k where "k = min (?n - offset) 512"
  have C: "length ?C = length cs * CLUSTER_SIZE" using F by (simp add: file_at_def length_content)
  have rc: "k = read_count ?n offset (length buf)"
    using usize_sub_le [OF off(2)] size_at_less [of V e] buf by (simp add: read_count_def k_def)
  have t: "take 512 (drop offset (take ?n ?C)) = take k (drop offset ?C)"
    by (simp add: k_def drop_take min.commute)
  show ?thesis
  proof (cases "offset div CLUSTER_SIZE < length cs")
    case True
    have "offset mod CLUSTER_SIZE + k \<le> CLUSTER_SIZE"
    proof (cases "offset = ?n")
      case True
      then show ?thesis using mod_less_divisor [OF CLUSTER_pos, of offset] by (simp add: k_def)
    next
      case False
      then obtain m where m: "offset = 512 * m" using off(1) by (metis mod_0_imp_dvd dvdE)
      have "offset mod CLUSTER_SIZE = 512 * (m mod 8)" unfolding m CLUSTER_SIZE_def using mult_mod_right [of 512 m 8] by simp
      then show ?thesis using mod_less_divisor [of 8 m] by (simp add: k_def CLUSTER_SIZE_def)
    qed
    moreover have "k = length buf \<or> ?n \<le> offset + k" using off(2) buf by (auto simp: k_def)
    ultimately show ?thesis
      using read_clusters_at [OF F True rc] unfolding t k_def [symmetric] by blast
  next
    case False
    then have "length cs \<le> offset div CLUSTER_SIZE" by simp
    then have "length cs * CLUSTER_SIZE \<le> offset" using div_times_less_eq_dividend le_trans mult_le_mono1 by blast
    moreover from this have "offset = ?n" using off(2) sz by simp
    ultimately show ?thesis using read_at_beyond_chain [OF F, of offset buf] by simp
  qed
qed

lemma read_all_loop_spec:
  assumes F: "file_at inode V e cs" and sz: "size_at V e \<le> length cs * CLUSTER_SIZE"
    and off: "offset mod 512 = 0 \<or> offset = size_at V e" "offset \<le> size_at V e" and buf: "length buf = 512"
  shows "does (file_read_all_loop inode offset buf v) V (v @ drop offset (take (size_at V e) (content (in_fs inode) V cs))) V"
  using off buf
proof (induction "size_at V e - offset" arbitrary: offset buf v rule: less_induct)
  case less
  let ?n = "size_at V e" and ?T = "take (size_at V e) (content (in_fs inode) V cs)"
  have T: "length ?T = ?n" using sz F by (simp add: file_at_def length_content)
  define k where "k = min (?n - offset) 512"
  define buf' where "buf' = take 512 (drop offset ?T) @ drop k buf"
  have r: "does (read_at inode offset buf) V (k, buf') V"
    unfolding k_def buf'_def by (rule read_at_block [OF F less.prems(1,2) sz less.prems(3)])
  define piece where "piece = take 512 (drop offset ?T)"
  have lp: "length piece = k" "k \<le> 512" using T unfolding piece_def k_def length_take length_drop by simp_all
  have b': "length buf' = 512" "take k buf' = take 512 (drop offset ?T)"
    using less.prems(3) lp unfolding buf'_def piece_def [symmetric] by simp_all
  show ?case
  proof (cases "k = 0")
    case True
    then have "drop offset ?T = []" using less.prems(2) T by (simp add: k_def)
    then show ?thesis
      using True by (intro does_ext [OF file_read_all_loop.simps], intro does_bind [OF r]) (simp add: does_return)
  next
    case False
    have k: "offset + k \<le> ?n" "k = 512 \<or> offset + k = ?n" using less.prems(2) by (auto simp: k_def)
    have "(offset + k) mod 512 = 0 \<or> offset + k = ?n" using k less.prems(1) by (auto simp: mod_add_eq)
    then have n: "does (file_read_all_loop inode (offset + k) buf' (v @ take k buf')) V (v @ take k buf' @ drop (offset + k) ?T) V"
      using less.hyps [OF _ _ k(1) b'(1), of "v @ take k buf'"] False less.prems(2) k(1) by simp
    have "take 512 (drop offset ?T) @ drop (offset + k) ?T = drop offset ?T"
      using k T by (cases "k = 512") (simp_all add: k_def take_drop_drop min_def split: if_splits)
    then have "v @ take k buf' @ drop (offset + k) ?T = v @ drop offset ?T" using b'(2) by simp
    with n show ?thesis
      using False by (intro does_ext [OF file_read_all_loop.simps], intro does_bind [OF r]) simp
  qed
qed

section \<open>Writing\<close>

definition valid_cluster :: "nat \<Rightarrow> bool" where
  "valid_cluster c \<longleftrightarrow> 2 \<le> c \<and> c < 2 ^ 39"

lemma root_sector_less: "root_sector sb < 2 ^ 48"
proof -
  have "unat (sb_reserved_sectors_cnt sb) < 2 ^ 16" "unat (sb_fat_cnt sb) < 2 ^ 8" "unat (sb_fat_size_32 sb) < 2 ^ 32"
    using unsigned_less [of "sb_reserved_sectors_cnt sb"] unsigned_less [of "sb_fat_cnt sb"] unsigned_less [of "sb_fat_size_32 sb"] by simp_all
  moreover from this have "unat (sb_fat_cnt sb) * unat (sb_fat_size_32 sb) \<le> 2 ^ 8 * 2 ^ 32" by (intro mult_mono) simp_all
  ultimately show ?thesis by (simp add: root_sector_def)
qed

lemma cluster_offset_valid:
  assumes "valid_cluster c" "sb_sectors_per_cluster sb = 8"
  shows "cluster_offset sb c = root_sector sb + (c - 2) * 8"
proof -
  have "(of_nat (root_sector sb) + (of_nat c - 2) * of_nat (unat (sb_sectors_per_cluster sb)) :: usize) = of_nat (root_sector sb + (c - 2) * 8)"
    using assms by (simp add: valid_cluster_def of_nat_diff)
  moreover have "c - 2 < 2 ^ 39" using assms(1) unfolding valid_cluster_def by linarith
  then have "root_sector sb + (c - 2) * 8 < 2 ^ 64" if "d = c - 2" for d
    using root_sector_less [of sb] unfolding that [symmetric] by simp
  then have "root_sector sb + (c - 2) * 8 < 2 ^ 64" by blast
  ultimately show ?thesis unfolding cluster_offset_def by (simp only: unat_of_nat len_of_numeral_defs take_bit_nat_eq_self) (simp add: take_bit_nat_eq_self)
qed

definition cluster_blocks :: "Fat32FS \<Rightarrow> nat \<Rightarrow> nat set" where
  "cluster_blocks fs c = {cluster_offset (fs_sb fs) c ..< cluster_offset (fs_sb fs) c + 8}"

lemma cluster_blocks_disjoint:
  assumes "full_clusters fs" "valid_cluster c" "valid_cluster d" "c \<noteq> d" "b \<in> cluster_blocks fs c"
  shows "b \<notin> cluster_blocks fs d"
proof -
  have s: "sb_sectors_per_cluster (fs_sb fs) = 8" using assms(1) by (simp add: full_clusters_def)
  show ?thesis
    using assms(2-5) unfolding cluster_blocks_def cluster_offset_valid [OF assms(2) s] cluster_offset_valid [OF assms(3) s] valid_cluster_def by auto
qed

lemma set_clus_other: "b \<notin> cluster_blocks fs c \<Longrightarrow> set_clus fs c data V b = V b"
  by (auto simp: set_clus_def cluster_blocks_def)

lemma clus_cong: "(\<And>b. b \<in> cluster_blocks fs c \<Longrightarrow> W b = V b) \<Longrightarrow> clus fs W c = clus fs V c"
  unfolding clus_def by (intro arg_cong [of _ _ concat] map_cong refl) (simp add: cluster_blocks_def)

lemma content_cong: "(\<And>b c. \<lbrakk> c \<in> set cs; b \<in> cluster_blocks fs c \<rbrakk> \<Longrightarrow> W b = V b) \<Longrightarrow> content fs W cs = content fs V cs"
  unfolding content_def by (intro arg_cong [of _ _ concat] map_cong refl clus_cong) blast

lemma disk_ok_set_clus: "\<lbrakk> disk_ok V; length data = CLUSTER_SIZE \<rbrakk> \<Longrightarrow> disk_ok (set_clus fs c data V)"
proof -
  assume V: "disk_ok V" and d: "length data = CLUSTER_SIZE"
  have "length (take BLOCK_SZ (drop (j * BLOCK_SZ) data)) = BLOCK_SZ" if "j < 8" for j
    using that d by (simp add: BLOCK_SZ_def CLUSTER_SIZE_def)
  then show ?thesis using V unfolding disk_ok_def set_clus_def by auto
qed

lemma write_clusters_skip:
  "\<lbrakk> k \<le> length cs; (i + k) * CLUSTER_SIZE \<le> offset \<rbrakk> \<Longrightarrow>
    write_clusters fs offset buf cs (w, i * CLUSTER_SIZE, cb) st =
    write_clusters fs offset buf (drop k cs) (w, (i + k) * CLUSTER_SIZE, cb) st"
proof (induction k arbitrary: i cs)
  case (Suc k)
  then obtain c cs' where cs: "cs = c # cs'" by (cases cs) auto
  have "Suc i * CLUSTER_SIZE \<le> (i + Suc k) * CLUSTER_SIZE" by (rule mult_le_mono1) simp
  then have "Suc i * CLUSTER_SIZE \<le> offset" using Suc.prems(2) by (rule le_trans)
  then have "write_clusters fs offset buf cs (w, i * CLUSTER_SIZE, cb) st = write_clusters fs offset buf cs' (w, Suc i * CLUSTER_SIZE, cb) st"
    by (simp add: cs write_body_def pass_over_skip del: mult_Suc)
  then show ?case using Suc.IH [of cs' "Suc i"] Suc.prems by (simp add: cs)
qed simp

lemma does_write_body:
  assumes fs: "full_clusters fs" and V: "disk_ok V" and pos: "pass_over offset pos0 = (pos, False)" and cb: "length cb = CLUSTER_SIZE"
    and k: "k = min (length buf - w) (CLUSTER_SIZE - pos mod CLUSTER_SIZE)" and w: "w \<le> length buf"
    and data: "data = splice (pos mod CLUSTER_SIZE) (take k (drop w buf)) (clus fs V c)"
  shows "does (write_body fs offset buf c (w, pos0, cb)) V (w + k < length buf, w + k, pos + k, data) (set_clus fs c data V)"
    "length data = CLUSTER_SIZE"
proof -
  have "length (take k (drop w buf)) = k" using k w by simp
  then show len: "length data = CLUSTER_SIZE"
    using k mod_less_divisor [OF CLUSTER_pos, of pos] unfolding data by (subst length_splice) (simp_all add: length_clus [OF V])
  show "does (write_body fs offset buf c (w, pos0, cb)) V (w + k < length buf, w + k, pos + k, data) (set_clus fs c data V)"
    unfolding write_body_def [abs_def] prod.case pos if_False Let_def k [symmetric]
    by (rule does_bind [OF does_read_cluster [OF fs cb]], unfold data [symmetric], rule does_write_cluster [OF fs len])
      (simp add: does_return not_le)
qed

lemma splice_cons:
  assumes "length a = n" "r \<le> n" "length x = n - r" "length y \<le> length b"
  shows "splice r (x @ y) (a @ b) = splice r x a @ splice 0 y b"
  using assms by (simp add: splice_def)

lemma splice_in_first: "r + length x \<le> length a \<Longrightarrow> splice r x (a @ b) = splice r x a @ b"
  by (simp add: splice_def)

lemma write_clusters_spec:
  assumes fs: "full_clusters fs" and V: "disk_ok V" and cs: "cs \<noteq> []" "distinct cs" "\<forall>c \<in> set cs. valid_cluster c"
    and pos: "pass_over offset pos0 = (pos, False)" "offset \<le> pos" and cb: "length cb = CLUSTER_SIZE" and w: "w \<le> length buf"
    and room: "pos mod CLUSTER_SIZE + (length buf - w) \<le> length cs * CLUSTER_SIZE"
  shows "\<exists>W v. does (write_clusters fs offset buf cs (w, pos0, cb)) V (length buf, v) W \<and> disk_ok W \<and>
    content fs W cs = splice (pos mod CLUSTER_SIZE) (drop w buf) (content fs V cs) \<and>
    (\<forall>b. (\<forall>c \<in> set cs. b \<notin> cluster_blocks fs c) \<longrightarrow> W b = V b)"
  using V cs pos cb w room
proof (induction cs arbitrary: V w pos0 pos cb)
  case (Cons c cs)
  let ?r = "pos mod CLUSTER_SIZE"
  define k where "k = min (length buf - w) (CLUSTER_SIZE - ?r)"
  define data where "data = splice ?r (take k (drop w buf)) (clus fs V c)"
  define V1 where "V1 = set_clus fs c data V"
  note b = does_write_body [OF fs Cons.prems(1,5,7) k_def Cons.prems(8) data_def, folded V1_def]
  have V1: "disk_ok V1" using disk_ok_set_clus [OF Cons.prems(1) b(2)] by (simp add: V1_def)
  have c1: "clus fs V1 c = data" using clus_set_clus [OF b(2)] by (simp add: V1_def)
  have apart: "b \<notin> cluster_blocks fs c" if "d \<in> set cs" "b \<in> cluster_blocks fs d" for b d
    using that Cons.prems(3,4) cluster_blocks_disjoint [OF fs, of d c b] by auto
  have rest: "content fs V1 cs = content fs V cs"
    by (rule content_cong) (use apart set_clus_other in \<open>auto simp: V1_def\<close>)
  have r: "?r < CLUSTER_SIZE" using CLUSTER_pos by simp
  have lc: "length (clus fs V c) = CLUSTER_SIZE" by (rule length_clus [OF Cons.prems(1)])
  have cont: "content fs U (c # cs) = clus fs U c @ content fs U cs" for U by (simp add: content_def)
  show ?case
  proof (cases "w + k < length buf")
    case False
    then have k: "k = length buf - w" "take k (drop w buf) = drop w buf" "length buf - w \<le> CLUSTER_SIZE - ?r"
      using Cons.prems(8) by (auto simp: k_def)
    have "does (write_clusters fs offset buf (c # cs) (w, pos0, cb)) V (length buf, pos + k, data) V1"
      using False k(1) Cons.prems(8)
      by (intro does_ext [OF write_clusters.simps(2)], intro does_bind [OF b(1)]) (simp add: does_return)
    moreover have "content fs V1 (c # cs) = splice ?r (drop w buf) (content fs V (c # cs))"
      using k(3) r by (simp add: cont c1 rest data_def k(2) splice_in_first lc)
    ultimately show ?thesis
      using V1 set_clus_other by (intro exI [of _ V1] exI [of _ "(pos + k, data)"]) (auto simp: V1_def simp del: write_clusters.simps)
  next
    case True
    then have k: "k = CLUSTER_SIZE - ?r" by (auto simp: k_def)
    have "pos + k = pos div CLUSTER_SIZE * CLUSTER_SIZE + CLUSTER_SIZE"
      using r k div_mult_mod_eq [of pos CLUSTER_SIZE] by linarith
    then have pk: "(pos + k) mod CLUSTER_SIZE = 0" by simp
    have l: "?r + (length buf - w) \<le> CLUSTER_SIZE + length cs * CLUSTER_SIZE" using Cons.prems(9) by simp
    then have room': "(pos + k) mod CLUSTER_SIZE + (length buf - (w + k)) \<le> length cs * CLUSTER_SIZE"
      using True r k unfolding pk by linarith
    have ne: "cs \<noteq> []" using l True r k by (cases cs) auto
    obtain W v where W: "does (write_clusters fs offset buf cs (w + k, pos + k, data)) V1 (length buf, v) W" "disk_ok W"
      "content fs W cs = splice 0 (drop (w + k) buf) (content fs V1 cs)"
      "\<And>b. \<forall>c \<in> set cs. b \<notin> cluster_blocks fs c \<Longrightarrow> W b = V1 b"
      using Cons.IH [OF V1 ne _ _ pass_over_past _ b(2) _ room'] Cons.prems(3,4,6) True pk by auto
    have "does (write_clusters fs offset buf (c # cs) (w, pos0, cb)) V (length buf, v) W"
      using True W(1) by (intro does_ext [OF write_clusters.simps(2)], intro does_bind [OF b(1)]) simp
    moreover have "clus fs W c = data" unfolding c1 [symmetric] by (rule clus_cong) (use W(4) apart in blast)
    moreover have "splice ?r (drop w buf) (clus fs V c @ content fs V cs) = data @ splice 0 (drop (w + k) buf) (content fs V cs)"
    proof -
      have "drop w buf = take k (drop w buf) @ drop (w + k) buf" by (metis add.commute append_take_drop_id drop_drop)
      moreover have "splice ?r (take k (drop w buf) @ drop (w + k) buf) (clus fs V c @ content fs V cs) =
          splice ?r (take k (drop w buf)) (clus fs V c) @ splice 0 (drop (w + k) buf) (content fs V cs)"
        using lc r True room' pk k by (intro splice_cons) (auto simp: length_content [OF Cons.prems(1)])
      ultimately show ?thesis by (simp add: data_def)
    qed
    ultimately show ?thesis
      using W(2,3,4) rest set_clus_other by (intro exI [of _ W] exI [of _ v]) (auto simp: cont V1_def simp del: write_clusters.simps)
  qed
qed simp

lemma fat_chain_cong: "\<forall>c \<in> set cs. e' c = e c \<Longrightarrow> fat_chain e' cs = fat_chain e cs"
  by (induction e cs rule: fat_chain.induct) auto

text \<open>The directory entry and the clusters of the file do not overlap.\<close>

definition file_apart :: "Fat32Inode \<Rightarrow> place \<Rightarrow> nat list \<Rightarrow> bool" where
  "file_apart inode e cs \<longleftrightarrow> (let fs = in_fs inode in
     fs_fat fs = FAT_from_sb (fs_sb fs) \<and> 1 \<le> unat (sb_fat_cnt (fs_sb fs)) \<and> distinct cs \<and>
     (\<forall>c \<in> set cs. valid_cluster c \<and> c < unat (sb_fat_size_32 (fs_sb fs)) * 128) \<and>
     (\<forall>b \<in> {de_sector_id (the (in_dentry inode)), fst e}. root_sector (fs_sb fs) \<le> b \<and> (\<forall>c \<in> set cs. b \<notin> cluster_blocks fs c)))"

lemma fat_block_below:
  assumes "file_apart inode e cs" "c \<in> set cs"
  shows "fat_block (fs_fat (in_fs inode)) c < root_sector (fs_sb (in_fs inode))"
proof -
  let ?sb = "fs_sb (in_fs inode)"
  have "c div 128 < unat (sb_fat_size_32 ?sb)"
    using assms by (auto simp: file_apart_def Let_def less_mult_imp_div_less)
  moreover have "unat (sb_fat_size_32 ?sb) \<le> unat (sb_fat_cnt ?sb) * unat (sb_fat_size_32 ?sb)"
    using assms(1) by (simp add: file_apart_def Let_def)
  ultimately have "c div 128 < unat (sb_fat_cnt ?sb) * unat (sb_fat_size_32 ?sb)" by (rule less_le_trans)
  then show ?thesis using assms(1) by (simp add: fat_block_def root_sector_def file_apart_def Let_def FAT_from_sb_def)
qed

lemma file_at_cong:
  assumes F: "file_at inode V e cs" and W: "disk_ok W"
    and same: "\<forall>b \<in> {de_sector_id (the (in_dentry inode)), fst e}. W b = V b" "\<forall>c \<in> set cs. W (fat_block (fs_fat (in_fs inode)) c) = V (fat_block (fs_fat (in_fs inode)) c)"
  shows "file_at inode W e cs" "size_at W e = size_at V e"
proof -
  obtain f where f: "in_dentry inode = Some f" "ends_at (in_fs inode) V f e" using F by (auto simp: file_at_def)
  have s: "slot W (de_sector_id f, off) = slot V (de_sector_id f, off)" "slot W e = slot V e" for off
    using same(1) f(1) by (simp_all add: slot_def)
  then show "size_at W e = size_at V e" by (simp add: size_at_def)
  have "fat_chain (fat_word (fs_fat (in_fs inode)) W) cs = fat_chain (fat_word (fs_fat (in_fs inode)) V) cs"
    by (rule fat_chain_cong) (use same(2) in \<open>simp add: fat_word_def\<close>)
  moreover have "ends_at (in_fs inode) W f e" using f(2) s by (simp add: ends_at_def Let_def long_at_def)
  ultimately show "file_at inode W e cs" using F W f(1) by (simp add: file_at_def)
qed

lemma slot_set_size:
  assumes V: "disk_ok V" and e: "place_ok e"
  shows "disk_ok (set_size e n V)" "Fat32DentryLayout_of (slot (set_size e n V) e) = (Fat32DentryLayout_of (slot V e))\<lparr> dl_file_size := of_nat n \<rparr>"
    "place_ok r \<Longrightarrow> r \<noteq> e \<Longrightarrow> slot (set_size e n V) r = slot V r"
proof -
  let ?l = "(Fat32DentryLayout_of (slot V e))\<lparr> dl_file_size := of_nat n \<rparr>"
  have wf: "dl_wf ?l" using dl_wf_of [OF length_slot [OF V e]] by (simp add: dl_wf_def)
  note len = length_dl_bytes [OF wf]
  show "disk_ok (set_size e n V)" unfolding set_size_def by (rule disk_ok_set_slot [OF V e len])
  show "Fat32DentryLayout_of (slot (set_size e n V) e) = ?l"
    unfolding set_size_def using slot_set_slot [OF V e e len] Fat32DentryLayout_of_bytes [OF wf] by simp
  show "place_ok r \<Longrightarrow> r \<noteq> e \<Longrightarrow> slot (set_size e n V) r = slot V r"
    unfolding set_size_def using slot_set_slot [OF V e _ len] by simp
qed

lemma file_at_set_size:
  assumes F: "file_at inode V e cs" and A: "file_apart inode e cs" and n: "n < 2 ^ 32"
  shows "file_at inode (set_size e n V) e cs" "size_at (set_size e n V) e = n" "content (in_fs inode) (set_size e n V) cs = content (in_fs inode) V cs"
proof -
  obtain f where f: "in_dentry inode = Some f" "ends_at (in_fs inode) V f e" and V: "disk_ok V" using F by (auto simp: file_at_def)
  have e: "place_ok e" by (rule ends_at_ok [OF f(2)])
  note s = slot_set_size [OF V e, where n = n]
  let ?p = "(de_sector_id f, de_sector_offset f)"
  have p: "place_ok ?p" using f(2) by (simp add: ends_at_def Let_def)
  show "size_at (set_size e n V) e = n" using n by (simp add: size_at_def s(2) unat_of_nat take_bit_nat_eq_self)
  have other: "set_size e n V b = V b" if "b \<noteq> fst e" for b using that by (simp add: set_size_def set_slot_other)
  have "ends_at (in_fs inode) (set_size e n V) f e"
  proof (cases "?p = e")
    case True
    have "next_slot (fs_fat (in_fs inode)) e \<noteq> Some e" using next_slot_idx [of "fs_fat (in_fs inode)" e e] e by auto
    then show ?thesis using f(2) True s(2) p by (auto simp: ends_at_def Let_def dl_is_long_def)
  next
    case False
    then show ?thesis using f(2) s(3) [OF p] by (simp add: ends_at_def Let_def long_at_def)
  qed
  moreover have "fat_chain (fat_word (fs_fat (in_fs inode)) (set_size e n V)) cs = fat_chain (fat_word (fs_fat (in_fs inode)) V) cs"
  proof (rule fat_chain_cong, rule ballI)
    fix c assume "c \<in> set cs"
    then have "fat_block (fs_fat (in_fs inode)) c \<noteq> fst e" using fat_block_below [OF A] A by (fastforce simp: file_apart_def Let_def)
    then show "fat_word (fs_fat (in_fs inode)) (set_size e n V) c = fat_word (fs_fat (in_fs inode)) V c" by (simp add: fat_word_def other)
  qed
  ultimately show "file_at inode (set_size e n V) e cs" using F s(1) f(1) by (simp add: file_at_def)
  show "content (in_fs inode) (set_size e n V) cs = content (in_fs inode) V cs"
  proof (rule content_cong, rule other)
    fix b c assume "c \<in> set cs" "b \<in> cluster_blocks (in_fs inode) c"
    then show "b \<noteq> fst e" using A by (auto simp: file_apart_def Let_def)
  qed
qed

lemma does_increase_size:
  assumes F: "file_at inode V e cs" and A: "file_apart inode e cs" and n: "n < 2 ^ 32" "n \<le> length cs * CLUSTER_SIZE"
  shows "does (increase_size inode n) V () (if n < size_at V e then V else set_size e n V)"
proof -
  obtain f where f: "in_dentry inode = Some f" "ends_at (in_fs inode) V f e" and V: "disk_ok V" using F by (auto simp: file_at_def)
  have fz: "does (Fat32Inode_file_size inode) V (size_at V e) V" "does (Fat32Inode_set_file_size inode n) V () (set_size e n V)"
    using does_file_size [OF V f(2)] does_set_file_size [OF V f(2)]
    by (simp_all add: Fat32Inode_file_size_def [abs_def] Fat32Inode_set_file_size_def [abs_def] f(1) unwrapR_def)
  note ch = does_file_chain [OF file_at_set_size(1) [OF F A n(1)]]
  show ?thesis
  proof (cases "n < size_at V e")
    case True
    then show ?thesis unfolding increase_size_def [abs_def] by (intro does_bind [OF fz(1)]) (simp add: does_return)
  next
    case False
    then show ?thesis
      unfolding increase_size_def [abs_def]
      by (intro does_bind [OF fz(1)]) (simp, rule does_bind [OF fz(2)], rule does_bind [OF ch], use n(2) in \<open>simp add: does_return\<close>)
  qed
qed

lemma splice_second: "length a = n \<Longrightarrow> splice (n + r) x (a @ b) = a @ splice r x b"
  by (simp add: splice_def)

lemma content_append: "content fs V (xs @ ys) = content fs V xs @ content fs V ys"
  by (simp add: content_def)

lemma write_clusters_file:
  assumes F: "file_at inode V e cs" and A: "file_apart inode e cs" and buf: "buf \<noteq> []" "offset + length buf \<le> length cs * CLUSTER_SIZE"
  shows "\<exists>W v. does (write_clusters (in_fs inode) offset buf cs (0, 0, replicate CLUSTER_SIZE 0)) V (length buf, v) W \<and>
    file_at inode W e cs \<and> size_at W e = size_at V e \<and> content (in_fs inode) W cs = splice offset buf (content (in_fs inode) V cs)"
proof -
  let ?fs = "in_fs inode" let ?i = "offset div CLUSTER_SIZE" let ?ds = "drop ?i cs"
  have V: "disk_ok V" and fs: "full_clusters ?fs" using F by (auto simp: file_at_def)
  have cs: "distinct cs" "\<forall>c \<in> set cs. valid_cluster c" using A by (auto simp: file_apart_def Let_def)
  have off: "offset = ?i * CLUSTER_SIZE + offset mod CLUSTER_SIZE" by simp
  have "offset < length cs * CLUSTER_SIZE" using buf by (cases buf) auto
  then have i: "?i < length cs" by (simp add: less_mult_imp_div_less)
  have "length ?ds * CLUSTER_SIZE = length cs * CLUSTER_SIZE - ?i * CLUSTER_SIZE" by (simp add: diff_mult_distrib)
  then have room: "offset mod CLUSTER_SIZE + (length buf - 0) \<le> length ?ds * CLUSTER_SIZE"
    using buf(2) off by linarith
  have ds: "?ds \<noteq> []" "distinct ?ds" "\<forall>c \<in> set ?ds. valid_cluster c" using i cs by (auto dest: in_set_dropD)
  obtain W v where W: "does (write_clusters ?fs offset buf ?ds (0, ?i * CLUSTER_SIZE, replicate CLUSTER_SIZE 0)) V (length buf, v) W" "disk_ok W"
    "content ?fs W ?ds = splice (offset mod CLUSTER_SIZE) buf (content ?fs V ?ds)"
    "\<And>b. \<forall>c \<in> set ?ds. b \<notin> cluster_blocks ?fs c \<Longrightarrow> W b = V b"
    using write_clusters_spec [OF fs V ds pass_over_here order_refl _ _ room, of "replicate CLUSTER_SIZE 0"] by auto
  have "write_clusters ?fs offset buf cs (0, 0, replicate CLUSTER_SIZE 0) st =
      write_clusters ?fs offset buf ?ds (0, ?i * CLUSTER_SIZE, replicate CLUSTER_SIZE 0) st" for st
    using write_clusters_skip [of ?i cs 0 offset ?fs buf 0 "replicate CLUSTER_SIZE 0" st] i by simp
  from does_ext [OF this W(1)] have w: "does (write_clusters ?fs offset buf cs (0, 0, replicate CLUSTER_SIZE 0)) V (length buf, v) W" .
  have s8: "sb_sectors_per_cluster (fs_sb ?fs) = 8" using fs by (simp add: full_clusters_def)
  have low: "W b = V b" if "b < root_sector (fs_sb ?fs)" for b
  proof (rule W(4), rule ballI)
    fix c assume "c \<in> set ?ds"
    then have "valid_cluster c" using ds(3) by blast
    then show "b \<notin> cluster_blocks ?fs c" using cluster_offset_valid [OF _ s8] that by (simp add: cluster_blocks_def)
  qed
  have dir: "W b = V b" if "b \<in> {de_sector_id (the (in_dentry inode)), fst e}" for b
  proof (rule W(4), rule ballI)
    fix c assume "c \<in> set ?ds"
    then have "c \<in> set cs" by (rule in_set_dropD)
    then show "b \<notin> cluster_blocks ?fs c" using that A by (auto simp: file_apart_def Let_def)
  qed
  have f: "file_at inode W e cs" "size_at W e = size_at V e"
    using file_at_cong [OF F W(2)] dir low fat_block_below [OF A] by blast+
  have "distinct (take ?i cs @ ?ds)" using cs(1) by simp
  then have "c \<noteq> d" if "c \<in> set (take ?i cs)" "d \<in> set ?ds" for c d using that unfolding distinct_append by blast
  then have head: "content ?fs W (take ?i cs) = content ?fs V (take ?i cs)"
    using W(4) cs(2) cluster_blocks_disjoint [OF fs] by (intro content_cong) (meson in_set_dropD in_set_takeD)
  have la: "length (content ?fs V (take ?i cs)) = ?i * CLUSTER_SIZE" using i by (simp add: length_content [OF V])
  have split: "content ?fs U cs = content ?fs U (take ?i cs) @ content ?fs U ?ds" for U
    by (simp only: content_append [symmetric] append_take_drop_id)
  have "content ?fs W cs = splice offset buf (content ?fs V cs)"
    using splice_second [OF la, of "offset mod CLUSTER_SIZE" buf "content ?fs V ?ds"]
    unfolding split head W(3) off [symmetric] by simp
  then show ?thesis using w f by blast
qed

section \<open>Growing past the chain\<close>

lemma word_fits:
  assumes "q mod 4 = (0 :: nat)"
  shows "q mod BLOCK_SZ + 4 \<le> BLOCK_SZ" "q mod BLOCK_SZ < BLOCK_SZ"
proof -
  obtain j where "q = j * 4" using assms by (metis mod_0_imp_dvd dvdE mult.commute)
  then show "q mod BLOCK_SZ + 4 \<le> BLOCK_SZ" "q mod BLOCK_SZ < BLOCK_SZ"
    using fat_fits [of j] fat_place(3) [of j] by simp_all
qed

lemma alloc_scan_result:
  assumes "alloc_scan fat off st = Some r"
  shows "blocks_ok st \<and> off mod 4 = 0 \<longrightarrow> (\<exists>o' c st'. r = Inr ((o', c), st') \<and> blocks_ok st' \<and> o' mod 4 = 0)"
proof -
  define P where "P fat off st r \<longleftrightarrow> (blocks_ok st \<and> off mod 4 = 0 \<longrightarrow> (\<exists>o' c st'. r = Inr ((o', c), st') \<and> blocks_ok st' \<and> o' mod 4 = 0))"
    for fat :: FAT and off :: nat and st and r :: "((nat \<times> nat) \<times> BlockState) res"
  have "P fat off st r"
  proof (rule alloc_scan.raw_induct [where P = P, OF _ assms])
    fix scan fat off st r
    assume IH: "\<And>fat off st r. scan fat off st = Some r \<Longrightarrow> P fat off st r"
      and eq: "bindO (Some (block_read (off div BLOCK_SZ) 4 (off mod BLOCK_SZ) u32_le st)) (\<lambda>(num, st1).
         let cluster_id = (if num = 0 then (off - fat_start_sector fat * BLOCK_SZ) div 4 else 0) in
         if cluster_id \<noteq> 0 then Some (Inr ((off, cluster_id), st1)) else scan fat (off + 4) st1) = Some r"
    show "P fat off st r"
      unfolding P_def
    proof (intro impI, elim conjE)
      assume ok: "blocks_ok st" "off mod 4 = 0"
      obtain num st1 where rd: "block_read (off div BLOCK_SZ) 4 (off mod BLOCK_SZ) u32_le st = Inr (num, st1)" "blocks_ok st1"
        using bs.read_ok [OF ok(1) word_fits [OF ok(2)], of "off div BLOCK_SZ" u32_le] by blast
      have "(off + 4) mod 4 = 0" using ok(2) by simp
      then show "\<exists>o' c st'. r = Inr ((o', c), st') \<and> blocks_ok st' \<and> o' mod 4 = 0"
        using eq rd ok(2) IH [of fat "off + 4" st1 r] unfolding P_def by (simp add: Let_def split: if_splits) auto
    qed
  qed
  then show ?thesis by (simp add: P_def)
qed

lemma increase_cluster_result:
  assumes "increase_cluster fat c st = Some r" "blocks_ok st"
  shows "\<exists>n st'. r = Inr (Some n, st') \<and> blocks_ok st'"
proof -
  obtain r1 where r1: "alloc_scan fat (fat_start_sector fat * BLOCK_SZ + 3 * 4) st = Some r1"
    using assms(1) unfolding increase_cluster_def alloc_new_cluster_def
    by (cases "alloc_scan fat (fat_start_sector fat * BLOCK_SZ + 3 * 4) st") (simp_all add: bindO_def)
  have al: "(fat_start_sector fat * BLOCK_SZ + k * 4) mod 4 = 0" for k
  proof -
    have "fat_start_sector fat * BLOCK_SZ + k * 4 = (fat_start_sector fat * 128 + k) * 4" by (simp add: BLOCK_SZ_def)
    then show ?thesis by (simp only: mod_mult_self2_is_0)
  qed
  have "\<exists>o' n st1. r1 = Inr ((o', n), st1) \<and> blocks_ok st1 \<and> o' mod 4 = 0"
    using mp [OF alloc_scan_result [OF r1] conjI [OF assms(2) al]] .
  then obtain q n st1 where a: "r1 = Inr ((q, n), st1)" "blocks_ok st1" "q mod 4 = 0" by (elim exE conjE)
  have w: "\<exists>st'. block_modify (p div BLOCK_SZ) 4 (p mod BLOCK_SZ) (\<lambda>_. ((), le_u32 x)) s = Inr ((), st') \<and> blocks_ok st'"
    if "p mod 4 = 0" "blocks_ok s" for p x s
    using bs.modify_ok [OF that(2) word_fits [OF that(1)], of "\<lambda>_. ((), le_u32 x)" "p div BLOCK_SZ" "()" "le_u32 x"] by auto
  obtain st2 where m1: "block_modify (q div BLOCK_SZ) 4 (q mod BLOCK_SZ) (\<lambda>_. ((), le_u32 END_OF_CHAIN)) st1 = Inr ((), st2)" "blocks_ok st2"
    using w [OF a(3,2)] by blast
  obtain st3 where m2: "block_modify ((fat_start_sector fat * BLOCK_SZ + c * 4) div BLOCK_SZ) 4 ((fat_start_sector fat * BLOCK_SZ + c * 4) mod BLOCK_SZ)
      (\<lambda>_. ((), le_u32 (of_nat n))) st2 = Inr ((), st3)" "blocks_ok st3"
    using w [OF al m1(2)] by blast
  show ?thesis
    using assms(1) r1 a(1) m1 m2 by (intro exI [of _ n] exI [of _ st3]) (simp add: increase_cluster_def alloc_new_cluster_def Let_def)
qed

lemma increase_loop_diverges:
  assumes "length chain * CLUSTER_SIZE < sz" "blocks_ok st"
  shows "increase_loop fat chain sz c st = None"
proof (rule ccontr)
  assume "increase_loop fat chain sz c st \<noteq> None"
  then obtain r where r: "increase_loop fat chain sz c st = Some r" by blast
  define P where "P fat chain sz c st r \<longleftrightarrow> \<not> (length chain * CLUSTER_SIZE < sz \<and> blocks_ok st)"
    for fat :: FAT and chain :: "nat list" and sz c :: nat and st and r :: "(unit \<times> BlockState) res"
  have "P fat chain sz c st r"
  proof (rule increase_loop.raw_induct [where P = P, OF _ r])
    fix loop :: "FAT \<Rightarrow> nat list \<Rightarrow> nat \<Rightarrow> nat \<Rightarrow> BlockState \<Rightarrow> (unit \<times> BlockState) res option" and fat chain sz c st r
    assume IH: "\<And>fat chain sz c st r. loop fat chain sz c st = Some r \<Longrightarrow> P fat chain sz c st r"
      and eq: "(if length chain * CLUSTER_SIZE < sz then bindO (increase_cluster fat c st) (\<lambda>(new, st1).
          bindO (Some (unwrapR new)) (\<lambda>n. loop fat chain sz n st1)) else Some (Inr ((), st))) = Some r"
    show "P fat chain sz c st r"
      unfolding P_def
    proof (rule notI, elim conjE)
      assume l: "length chain * CLUSTER_SIZE < sz" and ok: "blocks_ok st"
      then have eq': "bindO (increase_cluster fat c st) (\<lambda>(new, st1). bindO (Some (unwrapR new)) (\<lambda>n. loop fat chain sz n st1)) = Some r"
        using eq by simp
      then obtain r1 where r1: "increase_cluster fat c st = Some r1" by (cases "increase_cluster fat c st") (simp_all add: bindO_def)
      obtain n st' where n: "r1 = Inr (Some n, st')" "blocks_ok st'" using increase_cluster_result [OF r1 ok] by blast
      then have "loop fat chain sz n st' = Some r" using eq' r1 by (simp add: unwrapR_def)
      from IH [OF this] show False using l n(2) by (simp add: P_def)
    qed
  qed
  then show False using assms by (simp add: P_def)
qed

section \<open>Properties\<close>

text \<open>A file of five bytes in cluster 3 of the example volume, found through its long slot.\<close>

definition example_file :: Fat32Inode where
  "example_file = \<lparr> in_type = Fat32_File, in_dentry = Some (Fat32Dentry_new 2 0 (fs_fat example_fs)), in_start_cluster = 3, in_fs = example_fs \<rparr>"

lemma example_file_at: "\<exists>W. file_at example_file W (2, 32) [3] \<and> size_at W (2, 32) = 5"
proof -
  let ?fat = "fs_fat example_fs"
  define V1 where "V1 = set_fat ?fat 3 END_OF_CHAIN example_disk"
  have z: "fat_word ?fat example_disk k = 0" for k
    using example_blocks_ok(3) [of ?fat k] unfolding fat_entry_word example_blocks_ok(2) by simp
  have "\<forall>d. 3 \<le> d \<and> d < 3 \<longrightarrow> fat_word ?fat example_disk d \<noteq> 0" using leD by blast
  note alloc = does_alloc [OF example_dir(1) order_refl z this, folded V1_def]
  have b: "fat_block ?fat 3 = 1" by (simp add: fat_block_def example_fs_def example_fat_def FAT_from_sb_def)
  have V1: "disk_ok V1" "\<And>b. 2 \<le> b \<Longrightarrow> V1 b = example_disk b"
    using does_disk_ok [OF alloc(1) example_dir(1)] b by (simp_all add: V1_def set_fat_def)
  have d: "dir_at ?fat V1 (2, 0) [] (2, 0)" by (rule dir_at_above [OF example_dir(2)]) (rule V1(2))
  have e: "empty_at ?fat V1 (2, 64)" using example_dir(5) V1(2) [of 2] by (simp add: empty_at_def slot_def)
  have n: "entry_name [0x61]" by (simp add: entry_name_def piece_name_def plain_name_def ascii_def)
  obtain W where W: "disk_ok W" "dir_at ?fat W (2, 0) [Live [0x61] ATTR_ARCHIVE 3 5] (2, 64)" "\<And>b. b < 2 \<Longrightarrow> W b = V1 b"
    using insert_dentry_spec [OF V1(1) example_fs_ok(1,2) d example_dir(3,4) e n, of 3 ATTR_ARCHIVE 5] by auto
  have i: "long_at W (2, 0) [0x61]" "short_at W (2, 32) ATTR_ARCHIVE 3 5" using W(2) example_dir(3,4) by (auto simp: dir_at_def)
  have "fat_word ?fat W 3 = fat_word ?fat V1 3" using W(3) [of 1] by (simp add: fat_word_def b)
  then have "fat_chain (fat_word ?fat W) [3]" using alloc(2) by (simp add: fat_link_def END_OF_CHAIN_def)
  moreover have "full_clusters example_fs"
    using example_fs_ok(1) by (simp add: full_clusters_def) (simp add: example_fs_def example_fat_def FAT_from_sb_def)
  moreover have "ends_at example_fs W (Fat32Dentry_new 2 0 ?fat) (2, 32)"
    using i(1) example_dir(3) by (auto simp: ends_at_def Let_def Fat32Dentry_new_def place_ok_def)
  ultimately have "file_at example_file W (2, 32) [3]" using W(1) by (simp add: file_at_def example_file_def)
  moreover have "size_at W (2, 32) = 5" using i(2) by (simp add: size_at_def short_at_def Let_def)
  ultimately show ?thesis by blast
qed

lemma example_file_apart: "file_apart example_file (2, 32) [3]"
proof -
  have v: "valid_cluster 3" by (simp add: valid_cluster_def)
  have sb: "sb_sectors_per_cluster (fs_sb example_fs) = 8" "root_sector (fs_sb example_fs) = 2"
    by (simp_all add: example_fs_def example_fat_def FAT_from_sb_def root_sector_def)
  have "cluster_offset (fs_sb example_fs) 3 = 10" using cluster_offset_valid [OF v sb(1)] sb(2) by simp
  then show ?thesis
    using v sb by (simp add: file_apart_def Let_def example_file_def cluster_blocks_def Fat32Dentry_new_def)
      (simp add: example_fs_def example_fat_def FAT_from_sb_def)
qed

text \<open>C34. Reading a file whole: \<^verbatim>\<open>read_all\<close> returns, and what it returns are the bytes of the
  clusters of the file, in the order of its chain, cut off at the size in its directory entry.\<close>

theorem read_all_correct:
  assumes "file_at inode V e cs" "size_at V e \<le> length cs * CLUSTER_SIZE"
  shows "does (Fat32Inode_read_all inode) V (take (size_at V e) (content (in_fs inode) V cs)) V"
  using read_all_loop_spec [OF assms, of 0 "replicate 512 0" "[]"] by (simp add: Fat32Inode_read_all_def [abs_def])

theorem read_all_correct_witness:
  "\<exists>V. size_at V (2, 32) = 5 \<and> does (Fat32Inode_read_all example_file) V (take 5 (content example_fs V [3])) V"
proof -
  obtain V where "file_at example_file V (2, 32) [3]" "size_at V (2, 32) = 5" using example_file_at by blast
  then show ?thesis using read_all_correct [of example_file V "(2, 32)" "[3]"] by (auto simp: CLUSTER_SIZE_def example_file_def)
qed

text \<open>Reading at an offset inside the chain.\<close>

lemma read_at_inside:
  assumes F: "file_at inode V e cs" and i: "offset div CLUSTER_SIZE < length cs" and off: "offset + length buf < 2 ^ 32"
  shows "let k = (if offset \<le> size_at V e then min (size_at V e - offset) (length buf) else length buf) in
    if offset mod CLUSTER_SIZE + k \<le> CLUSTER_SIZE
    then does (read_at inode offset buf) V (k, take k (drop offset (content (in_fs inode) V cs)) @ drop k buf) V
    else \<forall>st. blocks_ok st \<and> blk st = V \<longrightarrow> read_at inode offset buf st = Some (Inl Index_out_of_bounds)"
proof -
  define k where "k = (if offset \<le> size_at V e then min (size_at V e - offset) (length buf) else length buf)"
  have rc: "k = read_count (size_at V e) offset (length buf)"
  proof (cases "offset \<le> size_at V e")
    case True
    then show ?thesis using usize_sub_le [OF True] size_at_less [of V e] by (simp add: k_def read_count_def)
  next
    case False
    then have "usize_sub (size_at V e) offset = size_at V e + 2 ^ 64 - offset" using off by (simp add: usize_sub_def)
    then show ?thesis using False off by (simp add: k_def read_count_def)
  qed
  have stop: "k = length buf \<or> size_at V e \<le> offset + k" by (auto simp: k_def)
  have panic: "read_at inode offset buf st = Some (Inl Index_out_of_bounds)"
    if big: "\<not> offset mod CLUSTER_SIZE + k \<le> CLUSTER_SIZE" and st: "blocks_ok st" "blk st = V" for st
  proof -
    let ?i = "offset div CLUSTER_SIZE" and ?fs = "in_fs inode"
    obtain f where f: "in_dentry inode = Some f" "ends_at ?fs V f e" and V: "disk_ok V" and fs: "full_clusters ?fs" using F by (auto simp: file_at_def)
    obtain st1 where c: "cluster_chain ?fs (in_start_cluster inode) st = Some (Inr (cs, st1))" "blocks_ok st1" "blk st1 = V"
      using doesD [OF does_file_chain [OF F] st] by blast
    have lz: "length (replicate CLUSTER_SIZE 0) = CLUSTER_SIZE" by simp
    obtain st2 where r: "read_cluster ?fs (cs ! ?i) (replicate CLUSTER_SIZE 0) st1 = Inr (clus ?fs V (cs ! ?i), st2)" "blocks_ok st2" "blk st2 = V"
      using doesD [OF does_read_cluster [OF fs lz] c(2,3)] by blast
    obtain st3 where s: "Fat32Dentry_file_size f st2 = Some (Inr (size_at V e, st3))"
      using doesD [OF does_file_size [OF V f(2)] r(2,3)] by blast
    have "read_body inode offset (cs ! ?i) (0, ?i * CLUSTER_SIZE, buf, replicate CLUSTER_SIZE 0) st1 = Some (Inl Index_out_of_bounds)"
      using big rc by (simp add: read_body_def pass_over_here f(1) unwrapR_def r(1) s length_clus [OF V] read_count_def Let_def)
    moreover have "read_clusters inode offset cs (0, 0, buf, replicate CLUSTER_SIZE 0) st1 =
        read_clusters inode offset (cs ! ?i # drop (Suc ?i) cs) (0, ?i * CLUSTER_SIZE, buf, replicate CLUSTER_SIZE 0) st1"
      using read_clusters_skip [of ?i cs 0 offset inode 0 buf "replicate CLUSTER_SIZE 0" st1] i by (simp add: Cons_nth_drop_Suc)
    ultimately show ?thesis using c(1) by (simp add: read_at_def)
  qed
  show ?thesis
    unfolding k_def [symmetric] Let_def using read_clusters_at [OF F i rc _ stop] panic by auto
qed

text \<open>C35. Reading at any offset below 4 GiB, in every case.  An offset beyond the clusters of the file
  reads nothing and leaves the buffer.  Otherwise the number of bytes wanted is the smaller of the
  buffer and of what is left of the file.  When they end in the cluster they begin in, exactly these
  bytes are delivered.  When they go on into the next cluster the call panics.  When the offset is
  beyond the size, the difference wraps around, and the whole buffer is filled from the cluster.\<close>

theorem read_at_cases:
  assumes F: "file_at inode V e cs" and off: "offset + length buf < 2 ^ 32"
  shows "let k = (if offset \<le> size_at V e then min (size_at V e - offset) (length buf) else length buf) in
    if length cs * CLUSTER_SIZE \<le> offset then does (read_at inode offset buf) V (0, buf) V
    else if offset mod CLUSTER_SIZE + k \<le> CLUSTER_SIZE
    then does (read_at inode offset buf) V (k, take k (drop offset (content (in_fs inode) V cs)) @ drop k buf) V
    else \<forall>st. blocks_ok st \<and> blk st = V \<longrightarrow> read_at inode offset buf st = Some (Inl Index_out_of_bounds)"
proof (cases "length cs * CLUSTER_SIZE \<le> offset")
  case True
  then show ?thesis using read_at_beyond_chain [OF F True] by (simp add: Let_def)
next
  case False
  then have "offset div CLUSTER_SIZE < length cs" by (simp add: less_mult_imp_div_less)
  then show ?thesis using read_at_inside [OF F _ off] False by simp
qed

theorem read_at_cases_witness:
  "\<exists>V. does (read_at example_file 2 [0, 0]) V (2, take 2 (drop 2 (content example_fs V [3]))) V \<and>
     does (read_at example_file 0x4000 [0, 0]) V (0, [0, 0]) V"
proof -
  obtain V where "file_at example_file V (2, 32) [3]" "size_at V (2, 32) = 5" using example_file_at by blast
  then show ?thesis
    using read_at_cases [of example_file V "(2, 32)" "[3]" 2 "[0, 0]"] read_at_cases [of example_file V "(2, 32)" "[3]" "0x4000" "[0, 0]"]
    by (auto simp: CLUSTER_SIZE_def example_file_def Let_def numeral_2_eq_2 [symmetric])
qed

text \<open>C13. Writing inside the chain of a file: the bytes are stored at the offset, across cluster
  boundaries, every other byte of the file stays, the size becomes at least the end of the write
  and the number of bytes is returned; the file is then read back with the new contents.\<close>

theorem write_at_correct:
  assumes F: "file_at inode V e cs" and A: "file_apart inode e cs" and buf: "buf \<noteq> []" "offset + length buf \<le> length cs * CLUSTER_SIZE"
    and sz: "offset + length buf < 2 ^ 32" "size_at V e \<le> length cs * CLUSTER_SIZE"
  shows "\<exists>W. does (write_at inode offset buf) V (length buf) W \<and> file_at inode W e cs \<and>
    size_at W e = max (size_at V e) (offset + length buf) \<and>
    content (in_fs inode) W cs = splice offset buf (content (in_fs inode) V cs) \<and>
    does (Fat32Inode_read_all inode) W (take (max (size_at V e) (offset + length buf)) (splice offset buf (content (in_fs inode) V cs))) W"
proof -
  let ?n = "offset + length buf"
  define V1 where "V1 = (if ?n < size_at V e then V else set_size e ?n V)"
  note s = file_at_set_size [OF F A sz(1)]
  have V1: "file_at inode V1 e cs" "size_at V1 e = max (size_at V e) ?n" "content (in_fs inode) V1 cs = content (in_fs inode) V cs"
    using F s by (auto simp: V1_def)
  have m: "?n mod 2 ^ 64 = ?n" using sz(1) by simp
  note inc = does_increase_size [OF F A sz(1) buf(2), folded V1_def]
  obtain W v where W: "does (write_clusters (in_fs inode) offset buf cs (0, 0, replicate CLUSTER_SIZE 0)) V1 (length buf, v) W"
    "file_at inode W e cs" "size_at W e = size_at V1 e" "content (in_fs inode) W cs = splice offset buf (content (in_fs inode) V1 cs)"
    using write_clusters_file [OF V1(1) A buf] by blast
  have "does (write_at inode offset buf) V (length buf) W"
    unfolding write_at_def [abs_def] m
    by (rule does_bind [OF inc], rule does_bind [OF does_file_chain [OF V1(1)]], rule does_bind [OF W(1)]) (simp add: does_return split_beta)
  moreover have "does (Fat32Inode_read_all inode) W (take (size_at W e) (content (in_fs inode) W cs)) W"
    using read_all_loop_spec [OF W(2), of 0 "replicate 512 0" "[]"] W(3) V1(2) buf(2) sz(2) by (simp add: Fat32Inode_read_all_def [abs_def])
  ultimately show ?thesis using W V1 by (intro exI [of _ W]) simp
qed

theorem write_at_correct_witness:
  "\<exists>V W. does (write_at example_file 3 [7, 8, 9]) V 3 W \<and> size_at V (2, 32) = 5 \<and> size_at W (2, 32) = 6"
proof -
  obtain V where V: "file_at example_file V (2, 32) [3]" "size_at V (2, 32) = 5" using example_file_at by blast
  have l: "(3 :: nat) + length [7 :: u8, 8, 9] \<le> length [3 :: nat] * CLUSTER_SIZE" by (simp add: CLUSTER_SIZE_def)
  show ?thesis
    using write_at_correct [OF V(1) example_file_apart _ l] V(2) by (auto simp: CLUSTER_SIZE_def numeral_3_eq_3 [symmetric])
qed

text \<open>Growing a file beyond the clusters it has never returns: the loop in \<^verbatim>\<open>increase_size\<close>
  tests the length of the chain it read before the loop, so it goes on allocating clusters for
  ever.  The same holds for every write that needs a new cluster.\<close>

theorem increase_size_diverges:
  assumes F: "file_at inode V e cs" and A: "file_apart inode e cs" and n: "length cs * CLUSTER_SIZE < n" "n < 2 ^ 32" "size_at V e \<le> n"
    and st: "blocks_ok st" "blk st = V" and buf: "offset + length buf = n"
  shows "increase_size inode n st = None \<and> write_at inode offset buf st = None"
proof -
  let ?fs = "in_fs inode"
  obtain f where f: "in_dentry inode = Some f" "ends_at ?fs V f e" and V: "disk_ok V" using F by (auto simp: file_at_def)
  obtain st1 where s1: "Fat32Inode_file_size inode st = Some (Inr (size_at V e, st1))" "blocks_ok st1" "blk st1 = V"
    using doesD [OF does_file_size [OF V f(2)] st] by (auto simp: Fat32Inode_file_size_def f(1) unwrapR_def)
  obtain st2 where s2: "Fat32Inode_set_file_size inode n st1 = Some (Inr ((), st2))" "blocks_ok st2" "blk st2 = set_size e n V"
    using doesD [OF does_set_file_size [OF V f(2)] s1(2,3)] by (auto simp: Fat32Inode_set_file_size_def f(1) unwrapR_def)
  obtain st3 where s3: "cluster_chain ?fs (in_start_cluster inode) st2 = Some (Inr (cs, st3))" "blocks_ok st3"
    using doesD [OF does_file_chain [OF file_at_set_size(1) [OF F A n(2)]] s2(2,3)] by blast
  have ne: "cs \<noteq> []" using F by (simp add: file_at_def)
  have "increase_size inode n st = None"
    using s1(1) s2(1) s3 n(1,3) ne increase_loop_diverges [OF n(1) s3(2)] by (simp add: increase_size_def unwrapR_def)
  moreover have "(offset + length buf) mod 2 ^ 64 = n" using buf n(2) by simp
  ultimately show ?thesis by (simp add: write_at_def bindO_def)
qed

theorem increase_size_diverges_witness:
  "\<exists>st. blocks_ok st \<and> write_at example_file 4096 [1] st = None"
proof -
  obtain V where V: "file_at example_file V (2, 32) [3]" "size_at V (2, 32) = 5" using example_file_at by blast
  then obtain st where st: "blocks_ok st" "blk st = V" using disk_state by (auto simp: file_at_def)
  show ?thesis
    using increase_size_diverges [OF V(1) example_file_apart _ _ _ st, of 4097 4096 "[1]"] V(2) st(1) by (auto simp: CLUSTER_SIZE_def)
qed

end
