(* ===== verification/Vfs.thy ===== *)
theory Vfs
  imports Pipe Fat32_File Task
begin

text \<open>
  File objects: \<^verbatim>\<open>os/src/fs/mod.rs\<close>, \<^verbatim>\<open>file.rs\<close>, \<^verbatim>\<open>inode.rs\<close>, \<^verbatim>\<open>defs.rs\<close>, \<^verbatim>\<open>stdio.rs\<close>, \<^verbatim>\<open>fs.rs\<close>, \<^verbatim>\<open>path.rs\<close>
  and \<^verbatim>\<open>ext4/\<close>.  A file behind an \<^verbatim>\<open>Arc\<close> is a reference into the tables of a \<^verbatim>\<open>FileWorld\<close>; a call
  of a method of \<^verbatim>\<open>dyn File\<close> or \<^verbatim>\<open>dyn Inode\<close> is a case distinction on the reference that ends in
  the definitions for the console, for pipes (\<^verbatim>\<open>Pipe\<close>), for FAT32 (\<^verbatim>\<open>Fat32_File\<close>) or for ext4.
  The functions of the crate \<^verbatim>\<open>ext4_rs\<close> that the ext4 inode calls are fields of a record that is
  an argument; its state is a type variable.
\<close>

unbundle bit_operations_syntax

section \<open>Flags and paths\<close>

definition O_RDONLY :: "32 word" where "O_RDONLY = 0"
definition O_RDWR :: "32 word" where "O_RDWR = 0x2"
definition O_CREAT :: "32 word" where "O_CREAT = 0x40"
definition O_TRUNC :: "32 word" where "O_TRUNC = 0x200"
definition O_DIRECTORY :: "32 word" where "O_DIRECTORY = 0x10000"

text \<open>All the flags of \<^verbatim>\<open>OpenFlags\<close>, in the order of the declaration.\<close>

definition OpenFlags_all :: "32 word" where
  "OpenFlags_all =
     O_RDONLY OR 0x1 OR O_RDWR OR O_CREAT OR 0x80 OR 0x100 OR O_TRUNC OR 0x400 OR 0x800 OR 0x1000 OR
     0x101000 OR 0x101000 OR O_DIRECTORY OR 0x20000 OR 0x80000 OR
     0x2000 OR 0x4000 OR 0x8000 OR 0x40000 OR 0x200000 OR 0x410000"

definition OpenFlags_from_bits :: "32 word \<Rightarrow> 32 word option" where
  "OpenFlags_from_bits b = (if b AND NOT OpenFlags_all = 0 then Some b else None)"

definition open_contains :: "32 word \<Rightarrow> 32 word \<Rightarrow> bool" where
  "open_contains flags f \<longleftrightarrow> flags AND f = f"

lemmas open_flag_defs = O_RDONLY_def O_RDWR_def O_CREAT_def O_TRUNC_def O_DIRECTORY_def

definition rstring_of :: "string \<Rightarrow> rstring" where
  "rstring_of s = map (\<lambda>c. of_nat (of_char c)) s"

text \<open>The bytes of a string: a character from 128 up takes two.\<close>

definition utf8_char :: "char \<Rightarrow> u8 list" where
  "utf8_char c =
     (let n = of_char c :: nat in
      if n < 128 then [of_nat n] else [of_nat (192 + n div 64), of_nat (128 + n mod 64)])"

definition as_bytes :: "string \<Rightarrow> u8 list" where
  "as_bytes s = concat (map utf8_char s)"

datatype Path = Path (pa_path: string)

text \<open>Paths are compared as strings, which is by their characters.\<close>

instantiation Path :: linorder
begin

definition less_eq_Path :: "Path \<Rightarrow> Path \<Rightarrow> bool" where
  "less_eq_Path p q \<longleftrightarrow> ord_class.lexordp_eq (map (of_char :: char \<Rightarrow> nat) (pa_path p)) (map of_char (pa_path q))"

definition less_Path :: "Path \<Rightarrow> Path \<Rightarrow> bool" where
  "less_Path p q \<longleftrightarrow> ord_class.lexordp (map (of_char :: char \<Rightarrow> nat) (pa_path p)) (map of_char (pa_path q))"

instance
proof
  fix p q r :: Path
  show "p < q \<longleftrightarrow> p \<le> q \<and> \<not> q \<le> p"
    by (auto simp: less_Path_def less_eq_Path_def lexordp_conv_lexordp_eq)
  show "p \<le> p" by (simp add: less_eq_Path_def lexordp_eq_refl)
  show "p \<le> q \<Longrightarrow> q \<le> r \<Longrightarrow> p \<le> r" by (auto simp: less_eq_Path_def intro: lexordp_eq_trans)
  show "p = q" if "p \<le> q" "q \<le> p"
  proof -
    have "map (of_char :: char \<Rightarrow> nat) (pa_path p) = map of_char (pa_path q)"
      using that lexordp_eq_antisym unfolding less_eq_Path_def by blast
    moreover have "inj (of_char :: char \<Rightarrow> nat)" by (rule injI) (metis char_of_char)
    ultimately show ?thesis by (intro Path.expand) (simp add: inj_map_eq_map)
  qed
  show "p \<le> q \<or> q \<le> p" using lexordp_eq_linear unfolding less_eq_Path_def by blast
qed

end

definition Path_is_absolute :: "Path \<Rightarrow> bool" where
  "Path_is_absolute p \<longleftrightarrow> (case pa_path p of [] \<Rightarrow> False | c # _ \<Rightarrow> c = CHR ''/'')"

definition Path_is_relative :: "Path \<Rightarrow> bool" where
  "Path_is_relative p \<longleftrightarrow> \<not> Path_is_absolute p"

section \<open>File systems\<close>

datatype FileSystemType = VFAT | EXT4

definition FileSystemType_from_str :: "string \<Rightarrow> FileSystemType option res" where
  "FileSystemType_from_str name =
     (if name = ''vfat'' then Inr (Some VFAT)
      else if name = ''ext4'' then Inr (Some EXT4)
      else Inl (Explicit_panic ''[FileSystemType] unknown file system type''))"

definition FileSystemType_to_str :: "FileSystemType \<Rightarrow> string" where
  "FileSystemType_to_str t = (case t of VFAT \<Rightarrow> ''vfat'' | EXT4 \<Rightarrow> ''ext4'')"

record 'f FileSystemManager =
  mounted_fs :: "(Path, 'f) btree"

definition FileSystemManager_new :: "'f FileSystemManager" where
  "FileSystemManager_new = \<lparr> mounted_fs = [] \<rparr>"

definition mount :: "'f \<Rightarrow> string \<Rightarrow> 'f FileSystemManager \<Rightarrow> 'f FileSystemManager" where
  "mount fs path m = m\<lparr> mounted_fs := snd (bt_insert (Path path) fs (mounted_fs m)) \<rparr>"

definition unmount :: "string \<Rightarrow> 'f FileSystemManager \<Rightarrow> 'f FileSystemManager" where
  "unmount path m = m\<lparr> mounted_fs := snd (bt_remove (Path path) (mounted_fs m)) \<rparr>"

definition rootfs :: "'f FileSystemManager \<Rightarrow> 'f res" where
  "rootfs m = unwrapR (bt_get (Path ''/'') (mounted_fs m))"

section \<open>The objects\<close>

record Ext4Inode =
  e_ino :: u32
  e_fpos :: usize

record 'e FileWorld =
  fw_pipes :: "PipeWorld list"
  fw_console :: "u8 list"
  fw_fat :: "Fat32Inode list"
  fw_blocks :: BlockState
  fw_ext4 :: "Ext4Inode list"
  fw_disk :: 'e

text \<open>What the ext4 inode calls of \<^verbatim>\<open>ext4_rs\<close>.  \<^verbatim>\<open>ext4_open_from\<close> gives the number of the inode it
  found, or nothing for an error.  The flag of \<^verbatim>\<open>ext4_file_write\<close> says whether the kernel may read
  the buffer.\<close>

record Ext4File =
  ef_inode :: u32
  ef_fsize :: u64
  ef_fpos :: usize

definition Ext4File_new :: Ext4File where
  "Ext4File_new = \<lparr> ef_inode = 0, ef_fsize = 0, ef_fpos = 0 \<rparr>"

record 'e ext4_rs =
  ext4_open_from :: "u32 \<Rightarrow> string \<Rightarrow> 'e \<Rightarrow> (u32 option \<times> 'e) res option"
  ext4_file_remove :: "u32 \<Rightarrow> string \<Rightarrow> 'e \<Rightarrow> (bool \<times> 'e) res option"
  ext4_dir_mk :: "u32 \<Rightarrow> string \<Rightarrow> 'e \<Rightarrow> (bool \<times> 'e) res option"
  ext4_dir_remove :: "u32 \<Rightarrow> string \<Rightarrow> 'e \<Rightarrow> (bool \<times> 'e) res option"
  ext4_file_read :: "Ext4File \<Rightarrow> u8 list \<Rightarrow> 'e \<Rightarrow> ((usize \<times> u8 list) \<times> 'e) res option"
  ext4_file_write :: "bool \<Rightarrow> Ext4File \<Rightarrow> u8 list \<Rightarrow> 'e \<Rightarrow> (unit \<times> 'e) res option"
  ext4_inode_size :: "u32 \<Rightarrow> 'e \<Rightarrow> (u64 \<times> 'e) res option"

section \<open>Ext4 inodes\<close>

definition Ext4Inode_lookup ::
  "'e ext4_rs \<Rightarrow> nat \<Rightarrow> string \<Rightarrow> 'e FileWorld \<Rightarrow> (WorkDir option \<times> 'e FileWorld) res option" where
  "Ext4Inode_lookup x n name w =
     bindO (ext4_open_from x (e_ino (fw_ext4 w ! n)) name (fw_disk w)) (\<lambda>(r, e).
       case r of
         None \<Rightarrow> Some (Inr (None, w\<lparr> fw_disk := e \<rparr>))
       | Some ino \<Rightarrow>
           Some (Inr (Some \<lparr> wd_name = name, wd_inode = Ext4Ref (length (fw_ext4 w)) \<rparr>,
             w\<lparr> fw_disk := e, fw_ext4 := fw_ext4 w @ [\<lparr> e_ino = ino, e_fpos = 0 \<rparr>] \<rparr>)))"

definition Ext4Inode_unlink :: "'e ext4_rs \<Rightarrow> nat \<Rightarrow> string \<Rightarrow> 'e FileWorld \<Rightarrow> (bool \<times> 'e FileWorld) res option" where
  "Ext4Inode_unlink x n name w =
     bindO (ext4_file_remove x (e_ino (fw_ext4 w ! n)) name (fw_disk w)) (\<lambda>(ok, e).
       Some (Inr (ok, w\<lparr> fw_disk := e \<rparr>)))"

definition Ext4Inode_mkdir :: "'e ext4_rs \<Rightarrow> nat \<Rightarrow> string \<Rightarrow> 'e FileWorld \<Rightarrow> (bool \<times> 'e FileWorld) res option" where
  "Ext4Inode_mkdir x n name w =
     bindO (ext4_dir_mk x (e_ino (fw_ext4 w ! n)) name (fw_disk w)) (\<lambda>(ok, e).
       Some (Inr (ok, w\<lparr> fw_disk := e \<rparr>)))"

definition Ext4Inode_rmdir :: "'e ext4_rs \<Rightarrow> nat \<Rightarrow> string \<Rightarrow> 'e FileWorld \<Rightarrow> (bool \<times> 'e FileWorld) res option" where
  "Ext4Inode_rmdir x n name w =
     bindO (ext4_dir_remove x (e_ino (fw_ext4 w ! n)) name (fw_disk w)) (\<lambda>(ok, e).
       Some (Inr (ok, w\<lparr> fw_disk := e \<rparr>)))"

definition Ext4Inode_read_at ::
  "'e ext4_rs \<Rightarrow> nat \<Rightarrow> usize \<Rightarrow> u8 list \<Rightarrow> 'e FileWorld \<Rightarrow> ((usize \<times> u8 list) \<times> 'e FileWorld) res option" where
  "Ext4Inode_read_at x n offset buf w =
     bindO (ext4_file_read x
         (Ext4File_new\<lparr> ef_inode := e_ino (fw_ext4 w ! n), ef_fpos := offset, ef_fsize := offset \<rparr>) buf (fw_disk w))
       (\<lambda>(r, e). Some (Inr (r, w\<lparr> fw_disk := e \<rparr>)))"

text \<open>The handle that is written through keeps the inode number 0 it was made with.\<close>

definition Ext4Inode_write_at ::
  "'e ext4_rs \<Rightarrow> bool \<Rightarrow> nat \<Rightarrow> usize \<Rightarrow> u8 list \<Rightarrow> 'e FileWorld \<Rightarrow> (usize \<times> 'e FileWorld) res option" where
  "Ext4Inode_write_at x can_read n offset buf w =
     bindO (ext4_inode_size x (e_ino (fw_ext4 w ! n)) (fw_disk w)) (\<lambda>(sz, e1).
     bindO (ext4_file_write x can_read (Ext4File_new\<lparr> ef_fpos := offset, ef_fsize := sz \<rparr>) buf e1) (\<lambda>(_, e2).
       Some (Inr (of_nat (length buf), w\<lparr> fw_disk := e2 \<rparr>))))"

definition Ext4Inode_read ::
  "'e ext4_rs \<Rightarrow> nat \<Rightarrow> u8 list \<Rightarrow> 'e FileWorld \<Rightarrow> ((usize \<times> u8 list) \<times> 'e FileWorld) res option" where
  "Ext4Inode_read x n buf w =
     bindO (Ext4Inode_read_at x n (e_fpos (fw_ext4 w ! n)) buf w) (\<lambda>((k, buf'), w1).
       Some (Inr ((k, buf'),
         w1\<lparr> fw_ext4 := (fw_ext4 w1)[n := (fw_ext4 w1 ! n)\<lparr> e_fpos := e_fpos (fw_ext4 w1 ! n) + k \<rparr>] \<rparr>)))"

definition Ext4Inode_write ::
  "'e ext4_rs \<Rightarrow> bool \<Rightarrow> nat \<Rightarrow> u8 list \<Rightarrow> 'e FileWorld \<Rightarrow> (usize \<times> 'e FileWorld) res option" where
  "Ext4Inode_write x can_read n buf w = Ext4Inode_write_at x can_read n 0 buf w"

section \<open>Methods of inodes\<close>

definition Inode_fstype :: "InodeRef \<Rightarrow> FileSystemType" where
  "Inode_fstype r = (case r of Fat32Ref _ \<Rightarrow> VFAT | Ext4Ref _ \<Rightarrow> EXT4)"

text \<open>The entry of FAT32 becomes an object of its own.\<close>

definition fat_dentry ::
  "string \<Rightarrow> Dentry option \<times> BlockState \<Rightarrow> 'e FileWorld \<Rightarrow> WorkDir option \<times> 'e FileWorld" where
  "fat_dentry name r w =
     (case r of
        (None, st) \<Rightarrow> (None, w\<lparr> fw_blocks := st \<rparr>)
      | (Some d, st) \<Rightarrow>
          (Some \<lparr> wd_name = name, wd_inode = Fat32Ref (length (fw_fat w)) \<rparr>,
           w\<lparr> fw_blocks := st, fw_fat := fw_fat w @ [dn_inode d] \<rparr>))"

definition Inode_lookup ::
  "'e ext4_rs \<Rightarrow> InodeRef \<Rightarrow> string \<Rightarrow> 'e FileWorld \<Rightarrow> (WorkDir option \<times> 'e FileWorld) res option" where
  "Inode_lookup x r name w =
     (case r of
        Fat32Ref n \<Rightarrow>
          bindO (lookup (fw_fat w ! n) (rstring_of name) (fw_blocks w)) (\<lambda>d. Some (Inr (fat_dentry name d w)))
      | Ext4Ref n \<Rightarrow> Ext4Inode_lookup x n name w)"

definition Inode_create ::
  "InodeRef \<Rightarrow> string \<Rightarrow> InodeType \<Rightarrow> 'e FileWorld \<Rightarrow> (WorkDir option \<times> 'e FileWorld) res option" where
  "Inode_create r name type' w =
     (case r of
        Fat32Ref n \<Rightarrow>
          bindO (create (fw_fat w ! n) (rstring_of name) type' (fw_blocks w)) (\<lambda>d. Some (Inr (fat_dentry name d w)))
      | Ext4Ref n \<Rightarrow> Some (Inl Todo))"

definition Inode_unlink :: "'e ext4_rs \<Rightarrow> InodeRef \<Rightarrow> string \<Rightarrow> 'e FileWorld \<Rightarrow> (bool \<times> 'e FileWorld) res option" where
  "Inode_unlink x r name w =
     (case r of
        Fat32Ref n \<Rightarrow>
          bindO (unlink (fw_fat w ! n) (rstring_of name) (fw_blocks w)) (\<lambda>(ok, st). Some (Inr (ok, w\<lparr> fw_blocks := st \<rparr>)))
      | Ext4Ref n \<Rightarrow> Ext4Inode_unlink x n name w)"

definition Inode_link :: "InodeRef \<Rightarrow> string \<Rightarrow> WorkDir \<Rightarrow> 'e FileWorld \<Rightarrow> (bool \<times> 'e FileWorld) res option" where
  "Inode_link r name target w = (case r of Fat32Ref n \<Rightarrow> Some (Inr (False, w)) | Ext4Ref n \<Rightarrow> Some (Inl Todo))"

definition Inode_clear :: "InodeRef \<Rightarrow> 'e FileWorld \<Rightarrow> (unit \<times> 'e FileWorld) res option" where
  "Inode_clear r w =
     (case r of
        Fat32Ref n \<Rightarrow>
          bindO (Fat32Inode_clear (fw_fat w ! n) (fw_blocks w)) (\<lambda>(_, st). Some (Inr ((), w\<lparr> fw_blocks := st \<rparr>)))
      | Ext4Ref n \<Rightarrow> Some (Inl Todo))"

definition Inode_read_at ::
  "'e ext4_rs \<Rightarrow> InodeRef \<Rightarrow> usize \<Rightarrow> u8 list \<Rightarrow> 'e FileWorld \<Rightarrow> ((usize \<times> u8 list) \<times> 'e FileWorld) res option" where
  "Inode_read_at x r offset buf w =
     (case r of
        Fat32Ref n \<Rightarrow>
          bindO (read_at (fw_fat w ! n) (unat offset) buf (fw_blocks w)) (\<lambda>((k, buf'), st).
            Some (Inr ((of_nat k, buf'), w\<lparr> fw_blocks := st \<rparr>)))
      | Ext4Ref n \<Rightarrow> Ext4Inode_read_at x n offset buf w)"

text \<open>The default \<^verbatim>\<open>read_all\<close> of the trait, which both kinds of inode use.\<close>

partial_function (option) Inode_read_all_loop ::
  "'e ext4_rs \<Rightarrow> InodeRef \<Rightarrow> usize \<Rightarrow> u8 list \<Rightarrow> u8 list \<Rightarrow> 'e FileWorld \<Rightarrow> (u8 list \<times> 'e FileWorld) res option" where
  "Inode_read_all_loop x r pos buffer v w =
     bindO (Inode_read_at x r pos buffer w) (\<lambda>((len, buffer'), w1).
       if len = 0 then Some (Inr (v, w1))
       else if unat len > length buffer' then Some (Inl Index_out_of_bounds)
       else Inode_read_all_loop x r (pos + len) buffer' (v @ take (unat len) buffer') w1)"

definition Inode_read_all :: "'e ext4_rs \<Rightarrow> InodeRef \<Rightarrow> 'e FileWorld \<Rightarrow> (u8 list \<times> 'e FileWorld) res option" where
  "Inode_read_all x r w = Inode_read_all_loop x r 0 (replicate 512 0) [] w"

section \<open>Waiting, and access to user pages\<close>

text \<open>What a call that may wait depends on: the answers of the console, and what the other tasks do to a
  pipe.  The kernel may access the pages of a user only while the bit SUM of \<^verbatim>\<open>sstatus\<close> is set, and
  reaches them through the page table that is active.  Switching tasks saves neither, so a task that
  has waited finds both as the other tasks left them: \<open>io_sum io n\<close> is the bit after the \<open>n\<close>-th wait,
  and \<open>io_active io n\<close> is nothing when the page table of the caller is active then; otherwise it is the
  bytes that the active one has at the addresses of the caller's buffer.\<close>

record io_env =
  io_getchar :: "nat \<Rightarrow> usize"
  io_others :: "PipeWorld \<Rightarrow> PipeWorld"
  io_sum :: "nat \<Rightarrow> bool"
  io_active :: "nat \<Rightarrow> (nat \<Rightarrow> u8) option"

text \<open>A buffer is kernel memory, or user pages with the bit SUM as it is when the file is called.\<close>

datatype Buffer = Kernel_buf | User_buf bool

text \<open>An access to user pages without the bit traps, and \<^verbatim>\<open>trap_from_kernel\<close> panics.  After
  \<^verbatim>\<open>wait_return\<close> the trap goes to the entry for users instead, with no defined result: the model
  stops at the access in both cases.\<close>

definition user_fault :: panic where
  "user_fault = Explicit_panic ''a trap from kernel!''"

section \<open>The console\<close>

text \<open>\<^verbatim>\<open>Stdin::read\<close> sets the bit SUM and asks the firmware for a character until there is one;
  \<^term>\<open>getchar n\<close> is the answer to the \<^term>\<open>n\<close>-th question, and between two questions the task
  is suspended.  After a wait, the character goes to the address space that is active.\<close>

partial_function (option) stdin_loop :: "(nat \<Rightarrow> usize) \<Rightarrow> nat \<Rightarrow> (nat \<times> usize) option" where
  "stdin_loop getchar n = (if getchar n = 0 then stdin_loop getchar (Suc n) else Some (n, getchar n))"

definition Stdin_read :: "io_env \<Rightarrow> Buffer \<Rightarrow> u8 list \<Rightarrow> (usize \<times> u8 list) res option" where
  "Stdin_read io k user_buf =
     map_option (\<lambda>(n, c).
         if user_buf = [] then Inl Index_out_of_bounds
         else if k = Kernel_buf \<or> n = 0 then Inr (1, user_buf[0 := ucast c])
         else if \<not> io_sum io n then Inl user_fault
         else Inr (1, if io_active io n = None then user_buf[0 := ucast c] else user_buf))
       (stdin_loop (io_getchar io) 0)"

text \<open>\<^verbatim>\<open>core::str::from_utf8\<close> accepts the well-formed sequences of bytes.\<close>

definition utf8_cont :: "u8 \<Rightarrow> bool" where
  "utf8_cont b \<longleftrightarrow> 0x80 \<le> b \<and> b \<le> 0xBF"

definition utf8_second :: "u8 \<Rightarrow> u8 \<Rightarrow> bool" where
  "utf8_second a b \<longleftrightarrow> utf8_cont b \<and>
     (a = 0xE0 \<longrightarrow> 0xA0 \<le> b) \<and> (a = 0xED \<longrightarrow> b \<le> 0x9F) \<and> (a = 0xF0 \<longrightarrow> 0x90 \<le> b) \<and> (a = 0xF4 \<longrightarrow> b \<le> 0x8F)"

fun from_utf8 :: "u8 list \<Rightarrow> bool" where
  "from_utf8 [] = True"
| "from_utf8 (a # bs) =
     (if a < 0x80 then from_utf8 bs
      else if 0xC2 \<le> a \<and> a \<le> 0xDF then (case bs of b # r \<Rightarrow> utf8_cont b \<and> from_utf8 r | _ \<Rightarrow> False)
      else if 0xE0 \<le> a \<and> a \<le> 0xEF then
        (case bs of b # c # r \<Rightarrow> utf8_second a b \<and> utf8_cont c \<and> from_utf8 r | _ \<Rightarrow> False)
      else if 0xF0 \<le> a \<and> a \<le> 0xF4 then
        (case bs of b # c # d # r \<Rightarrow> utf8_second a b \<and> utf8_cont c \<and> utf8_cont d \<and> from_utf8 r | _ \<Rightarrow> False)
      else False)"

text \<open>\<^verbatim>\<open>Stdout::write\<close> sets the bit SUM itself.\<close>

definition Stdout_write :: "u8 list \<Rightarrow> 'e FileWorld \<Rightarrow> (usize \<times> 'e FileWorld) res" where
  "Stdout_write user_buf w =
     (if from_utf8 user_buf
      then Inr (of_nat (length user_buf), w\<lparr> fw_console := fw_console w @ user_buf \<rparr>)
      else Inl Unwrap_none)"

section \<open>Methods of files\<close>

text \<open>The read end of the \<^term>\<open>i\<close>-th pipe is the file \<^term>\<open>2 * i\<close>, the write end the file
  \<^term>\<open>2 * i + 1\<close>.\<close>

definition pipe_of :: "nat \<Rightarrow> nat" where "pipe_of e = e div 2"

definition end_of :: "nat \<Rightarrow> PipeEnd" where "end_of e = (if even e then Read_end else Write_end)"

definition pipe_handle :: "nat \<Rightarrow> Pipe" where
  "pipe_handle e = (if even e then read_end_with_buffer else write_end_with_buffer)"

definition pipe_count :: "nat \<Rightarrow> (nat \<Rightarrow> nat) \<Rightarrow> 'e FileWorld \<Rightarrow> 'e FileWorld" where
  "pipe_count e f w =
     (let p = fw_pipes w ! pipe_of e in
      w\<lparr> fw_pipes := (fw_pipes w)[pipe_of e := p\<lparr> pw_strong := (pw_strong p)(end_of e := f (pw_strong p (end_of e))) \<rparr>] \<rparr>)"

text \<open>\<^verbatim>\<open>Arc::clone\<close> and the drop of an \<^verbatim>\<open>Arc\<close>: only the pipes look at the number of references.\<close>

definition file_clone :: "File \<Rightarrow> 'e FileWorld \<Rightarrow> 'e FileWorld" where
  "file_clone f w = (case f of PipeFile e \<Rightarrow> pipe_count e Suc w | _ \<Rightarrow> w)"

definition file_drop :: "File \<Rightarrow> 'e FileWorld \<Rightarrow> 'e FileWorld" where
  "file_drop f w = (case f of PipeFile e \<Rightarrow> pipe_count e (\<lambda>n. n - 1) w | _ \<Rightarrow> w)"

definition file_readable :: "File \<Rightarrow> bool" where
  "file_readable f =
     (case f of Stdin \<Rightarrow> True | Stdout \<Rightarrow> False | PipeFile e \<Rightarrow> Pipe_readable (pipe_handle e) | InodeFile r \<Rightarrow> True)"

definition file_writable :: "File \<Rightarrow> bool" where
  "file_writable f =
     (case f of Stdin \<Rightarrow> False | Stdout \<Rightarrow> True | PipeFile e \<Rightarrow> Pipe_writable (pipe_handle e) | InodeFile r \<Rightarrow> True)"

text \<open>\<^verbatim>\<open>Pipe::read\<close> and \<^verbatim>\<open>Pipe::write\<close> on a buffer in user pages, as the loops of \<^verbatim>\<open>Pipe\<close> with the
  accesses to the buffer; \<open>n\<close> counts the waits.  After a wait the reader calls \<^verbatim>\<open>wait_return\<close>, which
  makes the page table of the caller active again; the writer does not, and goes on with the bytes
  of the address space that is active.\<close>

definition read_turn_user :: "bool \<Rightarrow> PipeWorld \<Rightarrow> Reader \<Rightarrow> (turn \<times> PipeWorld \<times> Reader) res" where
  "read_turn_user may w b =
     (if \<not> may \<and> available_read (pw_ring w) \<noteq> 0 \<and> rd_next b < length (rd_buf b) then Inl user_fault
      else read_turn w b)"

partial_function (option) read_loop_user ::
  "io_env \<Rightarrow> nat \<Rightarrow> bool \<Rightarrow> PipeWorld \<Rightarrow> Reader \<Rightarrow> (nat \<times> PipeWorld \<times> Reader) res option" where
  "read_loop_user io n may w b =
     (case read_turn_user may w b of
        Inl e \<Rightarrow> Some (Inl e)
      | Inr (t, w', b') \<Rightarrow>
          (case t of
             Return k \<Rightarrow> Some (Inr (k, w', b'))
           | Again \<Rightarrow> read_loop_user io n may w' b'
           | Wait \<Rightarrow> read_loop_user io (Suc n) (io_sum io (Suc n)) (io_others io w') b'))"

definition Pipe_read_user ::
  "io_env \<Rightarrow> bool \<Rightarrow> Pipe \<Rightarrow> u8 list \<Rightarrow> PipeWorld \<Rightarrow> (nat \<times> PipeWorld \<times> u8 list) res option" where
  "Pipe_read_user io may p buf w =
     (if Pipe_readable p then
        map_option (\<lambda>r. bindR r (\<lambda>(n, w', b). Inr (n, w', rd_buf b)))
          (read_loop_user io 0 may w \<lparr> rd_buf = buf, rd_next = 0, rd_already = 0 \<rparr>)
      else Some (Inl Assert_failed))"

definition write_turn_user :: "bool \<Rightarrow> PipeWorld \<Rightarrow> Writer \<Rightarrow> (turn \<times> PipeWorld \<times> Writer) res" where
  "write_turn_user may w b =
     (if \<not> may \<and> available_write (pw_ring w) \<noteq> 0 \<and> wr_next b < length (wr_buf b) then Inl user_fault
      else write_turn w b)"

definition active_buf :: "(nat \<Rightarrow> u8) option \<Rightarrow> u8 list \<Rightarrow> u8 list" where
  "active_buf a buf = (case a of None \<Rightarrow> buf | Some f \<Rightarrow> map f [0..<length buf])"

partial_function (option) write_loop_user ::
  "io_env \<Rightarrow> nat \<Rightarrow> bool \<Rightarrow> u8 list \<Rightarrow> PipeWorld \<Rightarrow> Writer \<Rightarrow> (nat \<times> PipeWorld \<times> Writer) res option" where
  "write_loop_user io n may buf w b =
     (case write_turn_user may w b of
        Inl e \<Rightarrow> Some (Inl e)
      | Inr (t, w', b') \<Rightarrow>
          (case t of
             Return k \<Rightarrow> Some (Inr (k, w', b'))
           | Again \<Rightarrow> write_loop_user io n may buf w' b'
           | Wait \<Rightarrow> write_loop_user io (Suc n) (io_sum io (Suc n)) buf (io_others io w')
               (b'\<lparr> wr_buf := active_buf (io_active io (Suc n)) buf \<rparr>)))"

definition Pipe_write_user :: "io_env \<Rightarrow> bool \<Rightarrow> Pipe \<Rightarrow> u8 list \<Rightarrow> PipeWorld \<Rightarrow> (nat \<times> PipeWorld) res option" where
  "Pipe_write_user io may p buf w =
     (if Pipe_writable p then
        map_option (\<lambda>r. bindR r (\<lambda>(n, w', b). Inr (n, w')))
          (write_loop_user io 0 may buf w \<lparr> wr_buf = buf, wr_next = 0, wr_already = 0 \<rparr>)
      else Some (Inl Assert_failed))"

text \<open>\<^verbatim>\<open>Fat32Inode::write\<close> of a buffer that the kernel may not read: it grows the file and reads the
  first cluster before it copies from the buffer.\<close>

definition Fat32Inode_write_fault :: "Fat32Inode \<Rightarrow> u8 list \<Rightarrow> BlockState \<Rightarrow> (nat \<times> BlockState) res option" where
  "Fat32Inode_write_fault inode buf st =
     (if buf = [] then Fat32Inode_write inode buf st
      else
        bindO (increase_size inode (length buf mod 2 ^ 64) st) (\<lambda>(_, st1).
        bindO (cluster_chain (in_fs inode) (in_start_cluster inode) st1) (\<lambda>(chain, st2).
          case chain of
            [] \<Rightarrow> Some (Inr (0, st2))
          | cluster_id # _ \<Rightarrow>
              bindO (Some (read_cluster (in_fs inode) cluster_id (replicate CLUSTER_SIZE 0) st2)) (\<lambda>_. Some (Inl user_fault)))))"

text \<open>The methods \<^verbatim>\<open>read\<close> and \<^verbatim>\<open>write\<close> of \<^verbatim>\<open>dyn File\<close>.  Whoever reads into a user buffer has set the bit
  SUM.\<close>

definition file_read ::
  "'e ext4_rs \<Rightarrow> io_env \<Rightarrow> Buffer \<Rightarrow> File \<Rightarrow> u8 list \<Rightarrow> 'e FileWorld \<Rightarrow> ((usize \<times> u8 list) \<times> 'e FileWorld) res option" where
  "file_read x io k f buf w =
     (case f of
        Stdin \<Rightarrow> bindO (Stdin_read io k buf) (\<lambda>r. Some (Inr (r, w)))
      | Stdout \<Rightarrow> Some (Inl (Explicit_panic ''Cannot read from stdout!''))
      | PipeFile e \<Rightarrow>
          bindO (case k of
                   Kernel_buf \<Rightarrow> Pipe_read (io_others io) (pipe_handle e) buf (fw_pipes w ! pipe_of e)
                 | User_buf may \<Rightarrow> Pipe_read_user io may (pipe_handle e) buf (fw_pipes w ! pipe_of e)) (\<lambda>(n, p, buf').
            Some (Inr ((of_nat n, buf'), w\<lparr> fw_pipes := (fw_pipes w)[pipe_of e := p] \<rparr>)))
      | InodeFile (Fat32Ref n) \<Rightarrow>
          bindO (Fat32Inode_read (fw_fat w ! n) buf (fw_blocks w)) (\<lambda>((k, buf'), st).
            Some (Inr ((of_nat k, buf'), w\<lparr> fw_blocks := st \<rparr>)))
      | InodeFile (Ext4Ref n) \<Rightarrow> Ext4Inode_read x n buf w)"

definition file_write ::
  "'e ext4_rs \<Rightarrow> io_env \<Rightarrow> Buffer \<Rightarrow> File \<Rightarrow> u8 list \<Rightarrow> 'e FileWorld \<Rightarrow> (usize \<times> 'e FileWorld) res option" where
  "file_write x io k f buf w =
     (case f of
        Stdin \<Rightarrow> Some (Inl (Explicit_panic ''Cannot write to stdin!''))
      | Stdout \<Rightarrow> Some (Stdout_write buf w)
      | PipeFile e \<Rightarrow>
          bindO (case k of
                   Kernel_buf \<Rightarrow> Pipe_write (io_others io) (pipe_handle e) buf (fw_pipes w ! pipe_of e)
                 | User_buf may \<Rightarrow> Pipe_write_user io may (pipe_handle e) buf (fw_pipes w ! pipe_of e)) (\<lambda>(n, p).
            Some (Inr (of_nat n, w\<lparr> fw_pipes := (fw_pipes w)[pipe_of e := p] \<rparr>)))
      | InodeFile (Fat32Ref n) \<Rightarrow>
          bindO (if k = User_buf False then Fat32Inode_write_fault (fw_fat w ! n) buf (fw_blocks w)
                 else Fat32Inode_write (fw_fat w ! n) buf (fw_blocks w)) (\<lambda>(k, st).
            Some (Inr (of_nat k, w\<lparr> fw_blocks := st \<rparr>)))
      | InodeFile (Ext4Ref n) \<Rightarrow> Ext4Inode_write x (k \<noteq> User_buf False) n buf w)"

definition file_fstat :: "File \<Rightarrow> 'e FileWorld \<Rightarrow> (Stat option \<times> 'e FileWorld) res option" where
  "file_fstat f w =
     (case f of
        PipeFile e \<Rightarrow> bindO (Some (Pipe_fstat (pipe_handle e))) (\<lambda>_. Some (Inr (None, w)))
      | InodeFile (Fat32Ref n) \<Rightarrow>
          bindO (Fat32Inode_fstat (fw_fat w ! n) (fw_blocks w)) (\<lambda>(s, st). Some (Inr (s, w\<lparr> fw_blocks := st \<rparr>)))
      | InodeFile (Ext4Ref n) \<Rightarrow> Some (Inl Todo)
      | _ \<Rightarrow> Some (Inr (None, w)))"

definition file_is_dir :: "File \<Rightarrow> 'e FileWorld \<Rightarrow> (bool \<times> 'e FileWorld) res option" where
  "file_is_dir f w =
     (case f of
        InodeFile (Ext4Ref n) \<Rightarrow> Some (Inl Todo)
      | _ \<Rightarrow>
          bindO (file_fstat f w) (\<lambda>(s, w1).
            case s of
              Some stat \<Rightarrow> bindO (Some (Stat_is_dir stat)) (\<lambda>b. Some (Inr (b, w1)))
            | None \<Rightarrow> Some (Inr (True, w1))))"

definition file_hang_up :: "File \<Rightarrow> 'e FileWorld \<Rightarrow> bool res" where
  "file_hang_up f w =
     (case f of PipeFile e \<Rightarrow> hang_up (pipe_handle e) (fw_pipes w ! pipe_of e) | _ \<Rightarrow> Inl Todo)"

definition file_r_ready :: "File \<Rightarrow> 'e FileWorld \<Rightarrow> bool" where
  "file_r_ready f w = (case f of PipeFile e \<Rightarrow> r_ready (fw_pipes w ! pipe_of e) | _ \<Rightarrow> True)"

definition file_w_ready :: "File \<Rightarrow> 'e FileWorld \<Rightarrow> bool" where
  "file_w_ready f w = (case f of PipeFile e \<Rightarrow> w_ready (fw_pipes w ! pipe_of e) | _ \<Rightarrow> True)"

section \<open>Casts and open\<close>

definition cast_file_to_inode :: "File \<Rightarrow> InodeRef option" where
  "cast_file_to_inode f = (case f of InodeFile (Fat32Ref n) \<Rightarrow> Some (Fat32Ref n) | _ \<Rightarrow> None)"

definition cast_inode_to_file :: "InodeRef \<Rightarrow> File option" where
  "cast_inode_to_file r = (case r of Fat32Ref n \<Rightarrow> Some (InodeFile (Fat32Ref n)) | Ext4Ref n \<Rightarrow> Some (InodeFile (Ext4Ref n)))"

definition open_file ::
  "'e ext4_rs \<Rightarrow> InodeRef \<Rightarrow> string \<Rightarrow> 32 word \<Rightarrow> 'e FileWorld \<Rightarrow> (WorkDir option \<times> 'e FileWorld) res option" where
  "open_file x inode name flags w =
     bindO (Inode_lookup x inode name w) (\<lambda>(found, w1).
       if open_contains flags O_CREAT then
         (case found of
            Some dentry \<Rightarrow> bindO (Inode_clear (wd_inode dentry) w1) (\<lambda>(_, w2). Some (Inr (Some dentry, w2)))
          | None \<Rightarrow>
              Inode_create inode name (if open_contains flags O_DIRECTORY then Directory else Regular) w1)
       else
         (case found of
            Some dentry \<Rightarrow>
              if open_contains flags O_TRUNC
              then bindO (Inode_clear (wd_inode dentry) w1) (\<lambda>(_, w2). Some (Inr (Some dentry, w2)))
              else Some (Inr (Some dentry, w1))
          | None \<Rightarrow> Some (Inr (None, w1))))"

section \<open>Facts\<close>

lemma mount_rootfs:
  assumes "bt_sorted (mounted_fs m)"
  shows "rootfs (mount fs ''/'' m) = Inr fs" "path \<noteq> ''/'' \<Longrightarrow> rootfs (mount fs path m) = rootfs m"
    "rootfs (unmount ''/'' m) = Inl Unwrap_none" "bt_sorted (mounted_fs (mount fs path m))"
  using assms bt.put_get [OF assms] bt.del_get [OF assms] bt.put_wf [OF assms]
  by (simp_all add: rootfs_def mount_def unmount_def unwrapR_def)

lemma FileSystemType_round_trip: "FileSystemType_from_str (FileSystemType_to_str t) = Inr (Some t)"
  by (cases t) (simp_all add: FileSystemType_from_str_def FileSystemType_to_str_def)

text \<open>Reading the console returns as soon as a character arrives, and only then.\<close>

lemma stdin_loop_None: "\<forall>i \<ge> n. getchar i = 0 \<Longrightarrow> stdin_loop getchar n = None"
proof (rule ccontr)
  assume z: "\<forall>i \<ge> n. getchar i = 0" and "stdin_loop getchar n \<noteq> None"
  then obtain c where c: "stdin_loop getchar n = Some c" by fastforce
  have "\<exists>i \<ge> n. getchar i \<noteq> 0"
    by (rule stdin_loop.raw_induct [where P = "\<lambda>g n c. \<exists>i \<ge> n. g i \<noteq> 0", OF _ c])
      (force split: if_splits dest: Suc_leD)
  then show False using z by auto
qed

lemma stdin_loop_Some:
  assumes "getchar (n + d) \<noteq> 0" "\<forall>i < d. getchar (n + i) = 0"
  shows "stdin_loop getchar n = Some (n + d, getchar (n + d))"
  using assms
proof (induction d arbitrary: n)
  case 0
  then show ?case by (simp add: stdin_loop.simps)
next
  case (Suc d)
  have "getchar n = 0" using Suc.prems(2) by force
  moreover have "getchar (Suc n + i) = 0" if "i < d" for i using Suc.prems(2) that by force
  then have "stdin_loop getchar (Suc n) = Some (Suc n + d, getchar (Suc n + d))" using Suc.prems(1) by (intro Suc.IH) auto
  ultimately show ?case by (simp add: stdin_loop.simps [of getchar n])
qed

lemma Stdin_read_waits:
  fixes io :: io_env
  assumes "buf \<noteq> []"
  defines "n \<equiv> LEAST i. io_getchar io i \<noteq> 0"
  shows "Stdin_read io k buf =
    (if \<forall>i. io_getchar io i = 0 then None
     else if k \<noteq> Kernel_buf \<and> 0 < n \<and> \<not> io_sum io n then Some (Inl user_fault)
     else Some (Inr (1, if k = Kernel_buf \<or> n = 0 \<or> io_active io n = None then buf[0 := ucast (io_getchar io n)] else buf)))"
proof (cases "\<forall>i. io_getchar io i = 0")
  case True
  then show ?thesis by (simp add: Stdin_read_def stdin_loop_None)
next
  case False
  then obtain j where j: "io_getchar io j \<noteq> 0" by blast
  have "stdin_loop (io_getchar io) 0 = Some (0 + n, io_getchar io (0 + n))"
    unfolding n_def using LeastI [of "\<lambda>i. io_getchar io i \<noteq> 0", OF j] not_less_Least by (intro stdin_loop_Some) force+
  then show ?thesis using False assms(1) by (auto simp: Stdin_read_def)
qed

text \<open>Calls on user buffers that do not wait, with the bit SUM set, do what the loops of \<^verbatim>\<open>Pipe\<close> do.  A
  write of a buffer that the kernel may not read traps as soon as there is room.\<close>

lemma read_loop_user_quick: "quick_read w b y \<Longrightarrow> read_loop_user io n True w b = Some (Inr y)"
  by (induction rule: quick_read.induct) (subst read_loop_user.simps, simp add: read_turn_user_def)+

lemma write_loop_user_traps:
  "\<lbrakk> available_write (pw_ring w) \<noteq> 0; wr_next b < length (wr_buf b) \<rbrakk> \<Longrightarrow>
    write_loop_user io n False buf w b = Some (Inl user_fault)"
  by (subst write_loop_user.simps) (simp add: write_turn_user_def)

lemma from_utf8_ascii: "\<forall>b \<in> set bs. b < 0x80 \<Longrightarrow> from_utf8 bs"
  by (induction bs) simp_all

text \<open>Casting an inode to a file always works; casting it back works for FAT32 only.\<close>

lemma cast_round_trip:
  "Option.bind (cast_inode_to_file r) cast_file_to_inode = (case r of Fat32Ref n \<Rightarrow> Some r | Ext4Ref n \<Rightarrow> None)"
  by (cases r) (simp_all add: cast_inode_to_file_def cast_file_to_inode_def)

end
