(* ===== verification/File_Table.thy ===== *)
theory File_Table
  imports System Vfs
begin

text \<open>
  File descriptors: \<^verbatim>\<open>alloc_fd\<close> of \<^verbatim>\<open>os/src/task/task.rs\<close> and the calls of \<^verbatim>\<open>os/src/syscall/fs.rs\<close>, with
  \<^verbatim>\<open>sys_execve\<close> of \<^verbatim>\<open>os/src/syscall/process.rs\<close>, which opens a file.  The state of a call is the kernel
  and the world of file objects; \<^verbatim>\<open>load\<close> reads a byte of the running address space.  A descriptor
  table is a list, and refines a finite map from numbers to files.
\<close>

unbundle bit_operations_syntax

section \<open>Descriptor tables\<close>

type_synonym fd_table = "File option list"

type_synonym 'e sys = "Kernel \<times> 'e FileWorld"

definition EACCES :: usize where "EACCES = - 13"
definition ENOTDIR :: usize where "ENOTDIR = - 20"
definition ENOTTY :: usize where "ENOTTY = - 25"
definition AT_FDCWD :: "32 word" where "AT_FDCWD = - 100"

definition alloc_fd :: "fd_table \<Rightarrow> nat \<times> fd_table" where
  "alloc_fd tbl =
     (case List.find (\<lambda>fd. tbl ! fd = None) [0..<length tbl] of
        Some fd \<Rightarrow> (fd, tbl)
      | None \<Rightarrow> (length tbl, tbl @ [None]))"

text \<open>The two tests every call starts with: the number is in the table, and its entry is taken.\<close>

definition fd_get :: "usize \<Rightarrow> fd_table \<Rightarrow> File option" where
  "fd_get fd tbl = (if unat fd \<ge> length tbl then None else tbl ! unat fd)"

text \<open>\<^verbatim>\<open>inner.fd_table[i] = Some(file)\<close>, which drops what was there.\<close>

definition fd_store :: "nat \<Rightarrow> File \<Rightarrow> fd_table \<times> 'e FileWorld \<Rightarrow> (fd_table \<times> 'e FileWorld) res" where
  "fd_store i f = (\<lambda>(tbl, w).
     bindR (nthR tbl i) (\<lambda>old.
       Inr (tbl[i := Some f], case old of None \<Rightarrow> w | Some g \<Rightarrow> file_drop g w)))"

abbreviation table_of :: "task_ref \<Rightarrow> Kernel \<Rightarrow> fd_table" where
  "table_of t k \<equiv> t_fd_table (task k t)"

definition put_table :: "task_ref \<Rightarrow> fd_table \<Rightarrow> Kernel \<Rightarrow> Kernel" where
  "put_table t tbl k = upd_task t (\<lambda>c. c\<lparr> t_fd_table := tbl \<rparr>) k"

definition install_fd :: "task_ref \<Rightarrow> File \<Rightarrow> 'e sys \<Rightarrow> (usize \<times> 'e sys) res" where
  "install_fd t f = (\<lambda>(k, w).
     case alloc_fd (table_of t k) of
       (fd, tbl) \<Rightarrow> bindR (fd_store fd f (tbl, w)) (\<lambda>(tbl', w'). Inr (of_nat fd, put_table t tbl' k, w')))"

section \<open>Reading and writing\<close>

text \<open>The buffer of the caller is the bytes at its addresses.\<close>

definition user_bytes :: "(usize \<Rightarrow> u8) \<Rightarrow> usize \<Rightarrow> usize \<Rightarrow> u8 list" where
  "user_bytes load buf len = map (\<lambda>i. load (buf + of_nat i)) [0..<unat len]"

text \<open>\<^verbatim>\<open>sys_write\<close> makes the slice while the bit SUM is set and clears the bit before it calls \<^verbatim>\<open>write\<close>;
  \<^verbatim>\<open>sys_read\<close> keeps it set.\<close>

definition sys_write ::
  "'e ext4_rs \<Rightarrow> io_env \<Rightarrow> (usize \<Rightarrow> u8) \<Rightarrow> usize \<Rightarrow> usize \<Rightarrow> usize \<Rightarrow> 'e sys \<Rightarrow> (usize \<times> 'e FileWorld) res option" where
  "sys_write x io load fd buf len = (\<lambda>(k, w).
     bindO (Some (unwrapR (current_task k))) (\<lambda>t.
       case fd_get fd (table_of t k) of
         None \<Rightarrow> Some (Inr (EBADF, w))
       | Some file \<Rightarrow>
           if \<not> file_writable file then Some (Inr (EACCES, w))
           else file_write x io (User_buf False) file (user_bytes load buf len) w))"

definition sys_read ::
  "'e ext4_rs \<Rightarrow> io_env \<Rightarrow> (usize \<Rightarrow> u8) \<Rightarrow> usize \<Rightarrow> usize \<Rightarrow> usize \<Rightarrow> 'e sys \<Rightarrow>
     ((usize \<times> u8 list) \<times> 'e FileWorld) res option" where
  "sys_read x io load fd buf len = (\<lambda>(k, w).
     bindO (Some (unwrapR (current_task k))) (\<lambda>t.
       let bytes = user_bytes load buf len in
       case fd_get fd (table_of t k) of
         None \<Rightarrow> Some (Inr ((EBADF, bytes), w))
       | Some file \<Rightarrow>
           if \<not> file_readable file then Some (Inr ((EACCES, bytes), w))
           else file_read x io (User_buf True) file bytes w))"

text \<open>\<^verbatim>\<open>sys_writev\<close> keeps the bit SUM set and the task's cell borrowed while it writes; a pipe that is full suspends the
  task, which borrows the cell again.\<close>

partial_function (option) write_loop_held ::
  "PipeWorld \<Rightarrow> Writer \<Rightarrow> (nat \<times> PipeWorld \<times> Writer) res option" where
  "write_loop_held w b =
     (case write_turn w b of
        Inl e \<Rightarrow> Some (Inl e)
      | Inr (t, w', b') \<Rightarrow>
          (case t of
             Return n \<Rightarrow> Some (Inr (n, w', b'))
           | Again \<Rightarrow> write_loop_held w' b'
           | Wait \<Rightarrow> Some (Inl Already_borrowed)))"

definition file_write_held ::
  "'e ext4_rs \<Rightarrow> io_env \<Rightarrow> File \<Rightarrow> u8 list \<Rightarrow> 'e FileWorld \<Rightarrow> (usize \<times> 'e FileWorld) res option" where
  "file_write_held x io f buf w =
     (case f of
        PipeFile e \<Rightarrow>
          bindO (write_loop_held (fw_pipes w ! pipe_of e) \<lparr> wr_buf = buf, wr_next = 0, wr_already = 0 \<rparr>) (\<lambda>(n, p, b).
            Some (Inr (of_nat n, w\<lparr> fw_pipes := (fw_pipes w)[pipe_of e := p] \<rparr>)))
      | _ \<Rightarrow> file_write x io (User_buf True) f buf w)"

record Iovec =
  iov_base :: usize
  iov_len :: usize

primrec writev_loop ::
  "'e ext4_rs \<Rightarrow> io_env \<Rightarrow> (usize \<Rightarrow> u8) \<Rightarrow> (usize \<Rightarrow> Iovec) \<Rightarrow> usize \<Rightarrow> File \<Rightarrow> nat \<Rightarrow> usize \<times> 'e FileWorld \<Rightarrow>
     (usize \<times> 'e FileWorld) res option" where
  "writev_loop x io load iovs iov file 0 s = Some (Inr s)"
| "writev_loop x io load iovs iov file (Suc n) s =
     bindO (writev_loop x io load iovs iov file n s) (\<lambda>(total_len, w).
       let v = iovs (iov + 16 * of_nat n) in
       bindO (file_write_held x io file (user_bytes load (iov_base v) (iov_len v)) w) (\<lambda>(k, w1).
         Some (Inr (total_len + k, w1))))"

definition sys_writev ::
  "'e ext4_rs \<Rightarrow> io_env \<Rightarrow> (usize \<Rightarrow> u8) \<Rightarrow> (usize \<Rightarrow> Iovec) \<Rightarrow> usize \<Rightarrow> usize \<Rightarrow> usize \<Rightarrow> 'e sys \<Rightarrow>
     (usize \<times> 'e FileWorld) res option" where
  "sys_writev x io load iovs fd iov iovcnt = (\<lambda>(k, w).
     bindO (Some (unwrapR (current_task k))) (\<lambda>t.
       case fd_get fd (table_of t k) of
         None \<Rightarrow> Some (Inr (EBADF, w))
       | Some file \<Rightarrow>
           if \<not> file_writable file then Some (Inr (EACCES, w))
           else writev_loop x io load iovs iov file (unat iovcnt) (0, w)))"

text \<open>\<^verbatim>\<open>sys_sendfile\<close> moves one buffer of 10000 bytes in the kernel; neither \<^verbatim>\<open>offset\<close> nor \<^verbatim>\<open>count\<close> is used.\<close>

definition sys_sendfile ::
  "'e ext4_rs \<Rightarrow> io_env \<Rightarrow> usize \<Rightarrow> usize \<Rightarrow> usize \<Rightarrow> usize \<Rightarrow> 'e sys \<Rightarrow> (usize \<times> 'e FileWorld) res option" where
  "sys_sendfile x io out_fd in_fd offset cnt = (\<lambda>(k, w).
     bindO (Some (unwrapR (current_task k))) (\<lambda>t.
       case (fd_get out_fd (table_of t k), fd_get in_fd (table_of t k)) of
         (Some out_file, Some in_file) \<Rightarrow>
           bindO (file_read x io Kernel_buf in_file (replicate 10000 0) w) (\<lambda>((read_size, buf), w1).
             if unat read_size > length buf then Some (Inl Index_out_of_bounds)
             else file_write x io Kernel_buf out_file (take (unat read_size) buf) w1)
       | _ \<Rightarrow> Some (Inr (EBADF, w))))"

section \<open>Opening\<close>

definition install_dentry :: "task_ref \<Rightarrow> WorkDir \<Rightarrow> 'e sys \<Rightarrow> (usize \<times> 'e sys) res" where
  "install_dentry t dentry s = bindR (unwrapR (cast_inode_to_file (wd_inode dentry))) (\<lambda>file. install_fd t file s)"

definition sys_open ::
  "'e ext4_rs \<Rightarrow> (usize \<Rightarrow> u8) \<Rightarrow> usize \<Rightarrow> 32 word \<Rightarrow> 'e sys \<Rightarrow> (usize \<times> 'e sys) res option" where
  "sys_open x load path flags = (\<lambda>(k, w).
     bindO (Some (unwrapR (current_task k))) (\<lambda>t.
     bindO (Some (current_user_token k)) (\<lambda>token.
     bindO (translated_str load token path) (\<lambda>name.
     bindO (Some (unwrapR (OpenFlags_from_bits flags))) (\<lambda>fl.
     bindO (open_file x (wd_inode (t_work_dir (task k t))) name fl w) (\<lambda>(found, w1).
       case found of
         Some dentry \<Rightarrow> Some (install_dentry t dentry (k, w1))
       | None \<Rightarrow> Some (Inr (ENOENT, k, w1))))))))"

definition sys_openat ::
  "'e ext4_rs \<Rightarrow> (usize \<Rightarrow> u8) \<Rightarrow> 32 word \<Rightarrow> usize \<Rightarrow> 32 word \<Rightarrow> 'e sys \<Rightarrow> (usize \<times> 'e sys) res option" where
  "sys_openat x load dirfd path flags = (\<lambda>(k, w).
     if dirfd = AT_FDCWD then sys_open x load path flags (k, w)
     else
       bindO (Some (unwrapR (current_task k))) (\<lambda>t.
         case fd_get (scast dirfd) (table_of t k) of
           None \<Rightarrow> Some (Inr (EBADF, k, w))
         | Some dir \<Rightarrow>
             bindO (Some (unwrapR (cast_file_to_inode dir))) (\<lambda>inode.
             bindO (translated_str load (MemorySet_token (t_memory_set (task k t))) path) (\<lambda>name.
             bindO (Some (unwrapR (OpenFlags_from_bits flags))) (\<lambda>fl.
             bindO (open_file x inode name fl w) (\<lambda>(found, w1).
               case found of
                 Some dentry \<Rightarrow> Some (install_dentry t dentry (k, w1))
               | None \<Rightarrow> Some (Inr (ENOENT, k, w1))))))))"

text \<open>\<^verbatim>\<open>sys_mkdirat64\<close> takes a relative path from the root, not from the working directory, and
  leaves the new directory open.\<close>

definition sys_mkdirat64 ::
  "'e ext4_rs \<Rightarrow> InodeRef \<Rightarrow> (usize \<Rightarrow> u8) \<Rightarrow> 32 word \<Rightarrow> usize \<Rightarrow> 'e sys \<Rightarrow> (usize \<times> 'e sys) res option" where
  "sys_mkdirat64 x root load dirfd path = (\<lambda>(k, w).
     bindO (Some (unwrapR (current_task k))) (\<lambda>t.
     let make = (\<lambda>inode w0.
       bindO (map_option Inr (c_ptr_to_string load path)) (\<lambda>name.
       bindO (open_file x inode name O_RDONLY w0) (\<lambda>(found, w1).
         if found \<noteq> None then Some (Inr (- 1, k, w1))
         else
           bindO (open_file x inode name (O_DIRECTORY OR O_CREAT) w1) (\<lambda>(made, w2).
             case made of
               Some dentry \<Rightarrow> Some (install_dentry t dentry (k, w2))
             | None \<Rightarrow> Some (Inr (EACCES, k, w2))))))
     in
     if dirfd = AT_FDCWD then make root w
     else
       (case fd_get (scast dirfd) (table_of t k) of
          None \<Rightarrow> Some (Inr (EBADF, k, w))
        | Some dir \<Rightarrow>
            bindO (file_is_dir dir w) (\<lambda>(is_dir, w1).
              if \<not> is_dir then Some (Inr (ENOTDIR, k, w1))
              else bindO (Some (unwrapR (cast_file_to_inode dir))) (\<lambda>inode. make inode w1)))))"

section \<open>Descriptors\<close>

definition sys_close :: "usize \<Rightarrow> 'e sys \<Rightarrow> (usize \<times> 'e sys) res" where
  "sys_close fd = (\<lambda>(k, w).
     bindR (unwrapR (current_task k)) (\<lambda>t.
       case fd_get fd (table_of t k) of
         None \<Rightarrow> Inr (EBADF, k, w)
       | Some f \<Rightarrow> Inr (0, put_table t ((table_of t k)[unat fd := None]) k, file_drop f w)))"

text \<open>The pair at the end is what is stored at the address the caller gave.\<close>

definition sys_pipe :: "'e sys \<Rightarrow> (usize \<times> (u32 \<times> u32) \<times> 'e sys) res" where
  "sys_pipe = (\<lambda>(k, w).
     bindR (unwrapR (current_task k)) (\<lambda>t.
       let n = length (fw_pipes w);
           w1 = w\<lparr> fw_pipes := fw_pipes w @ [snd (snd make_pipe)] \<rparr>
       in
       bindR (install_fd t (PipeFile (2 * n)) (k, w1)) (\<lambda>(read_fd, s1).
       bindR (install_fd t (PipeFile (2 * n + 1)) s1) (\<lambda>(write_fd, s2).
         Inr (0, (ucast read_fd, ucast write_fd), s2)))))"

definition sys_dup :: "usize \<Rightarrow> 'e sys \<Rightarrow> (usize \<times> 'e sys) res" where
  "sys_dup fd = (\<lambda>(k, w).
     bindR (unwrapR (current_task k)) (\<lambda>t.
       case fd_get fd (table_of t k) of
         None \<Rightarrow> Inr (EBADF, k, w)
       | Some f \<Rightarrow> install_fd t f (k, file_clone f w)))"

function grow_table :: "nat \<Rightarrow> fd_table \<Rightarrow> fd_table" where
  "grow_table new_fd tbl = (if length tbl \<le> new_fd then grow_table new_fd (tbl @ [None]) else tbl)"
  by auto
termination by (relation "measure (\<lambda>(new_fd, tbl). Suc new_fd - length tbl)") auto

declare grow_table.simps [simp del]

definition sys_dup3 :: "usize \<Rightarrow> usize \<Rightarrow> 'e sys \<Rightarrow> (usize \<times> 'e sys) res" where
  "sys_dup3 fd new_fd = (\<lambda>(k, w).
     bindR (unwrapR (current_task k)) (\<lambda>t.
       case fd_get fd (table_of t k) of
         None \<Rightarrow> Inr (EBADF, k, w)
       | Some f \<Rightarrow>
           let tbl = grow_table (unat new_fd) (table_of t k);
               again = (\<lambda>(tbl, w). fd_store (unat new_fd) f (tbl, file_clone f w))
           in
           bindR (if tbl ! unat new_fd \<noteq> None then again (tbl, w) else Inr (tbl, w)) (\<lambda>s1.
           bindR (again s1) (\<lambda>(tbl2, w2). Inr (new_fd, put_table t tbl2 k, w2)))))"

definition F_DUPFD :: "32 word" where "F_DUPFD = 0"
definition F_DUPFD_CLOEXEC :: "32 word" where "F_DUPFD_CLOEXEC = 1030"
definition F_SETFD :: "32 word" where "F_SETFD = 2"
definition F_SETFL :: "32 word" where "F_SETFL = 4"

lemmas fcntl_defs = F_DUPFD_def F_DUPFD_CLOEXEC_def F_SETFD_def F_SETFL_def

definition sys_fcntl :: "usize \<Rightarrow> 32 word \<Rightarrow> usize \<Rightarrow> 'e sys \<Rightarrow> (usize \<times> 'e sys) res" where
  "sys_fcntl fd cmd arg = (\<lambda>(k, w).
     bindR (unwrapR (current_task k)) (\<lambda>t.
       case fd_get fd (table_of t k) of
         None \<Rightarrow> Inr (EBADF, k, w)
       | Some f \<Rightarrow>
           if cmd = F_DUPFD then install_fd t f (k, file_clone f w)
           else if cmd = F_DUPFD_CLOEXEC then install_fd t f (k, file_clone f w)
           else if cmd = F_SETFD then Inr (0, k, w)
           else if cmd = F_SETFL then Inr (0, k, w)
           else Inl Todo))"

section \<open>Names and attributes\<close>

definition sys_fstat :: "usize \<Rightarrow> 'e sys \<Rightarrow> ((usize \<times> Stat option) \<times> 'e sys) res option" where
  "sys_fstat fd = (\<lambda>(k, w).
     bindO (Some (unwrapR (current_task k))) (\<lambda>t.
       case fd_get fd (table_of t k) of
         None \<Rightarrow> Some (Inr ((EBADF, None), k, w))
       | Some file \<Rightarrow>
           bindO (file_fstat file w) (\<lambda>(stat, w1).
             case stat of
               None \<Rightarrow> Some (Inr ((EBADF, None), k, w1))
             | Some s \<Rightarrow> Some (Inr ((0, Some s), k, w1)))))"

definition sys_linkat ::
  "'e ext4_rs \<Rightarrow> (usize \<Rightarrow> u8) \<Rightarrow> usize \<Rightarrow> usize \<Rightarrow> 'e sys \<Rightarrow> (usize \<times> 'e sys) res option" where
  "sys_linkat x load old_name new_name = (\<lambda>(k, w).
     bindO (Some (current_user_token k)) (\<lambda>token.
     bindO (translated_str load token old_name) (\<lambda>old.
     bindO (translated_str load token new_name) (\<lambda>new.
     bindO (Some (unwrapR (current_task k))) (\<lambda>t.
     let dir = wd_inode (t_work_dir (task k t)) in
     bindO (Inode_lookup x dir old w) (\<lambda>(found, w1).
     bindO (Some (unwrapR found)) (\<lambda>target.
     bindO (Inode_link dir new target w1) (\<lambda>(ok, w2).
       Some (Inr (if ok then 0 else ENOENT, k, w2))))))))))"

definition sys_unlinkat ::
  "'e ext4_rs \<Rightarrow> (usize \<Rightarrow> u8) \<Rightarrow> usize \<Rightarrow> 'e sys \<Rightarrow> (usize \<times> 'e sys) res option" where
  "sys_unlinkat x load name = (\<lambda>(k, w).
     bindO (Some (current_user_token k)) (\<lambda>token.
     bindO (translated_str load token name) (\<lambda>nm.
     bindO (Some (unwrapR (current_task k))) (\<lambda>t.
     bindO (Inode_unlink x (wd_inode (t_work_dir (task k t))) nm w) (\<lambda>(ok, w1).
       Some (Inr (if ok then 0 else ENOENT, k, w1)))))))"

definition fill_slice :: "byte_slice \<Rightarrow> u8 list \<Rightarrow> kmem \<Rightarrow> kmem" where
  "fill_slice s bs m = fold (\<lambda>(i, b) m. bytes_array_write (bs_page s) (bs_lo s + i) b m) (zip [0..<slice_len s] bs) m"

fun fill_slices :: "byte_slice list \<Rightarrow> u8 list \<Rightarrow> kmem \<Rightarrow> kmem" where
  "fill_slices [] bs m = m"
| "fill_slices (s # ss) bs m = fill_slices ss (drop (slice_len s) bs) (fill_slice s bs m)"

definition sys_getcwd :: "usize \<Rightarrow> usize \<Rightarrow> Kernel \<Rightarrow> (usize \<times> Kernel) res option" where
  "sys_getcwd buf len k =
     bindO (Some (current_user_token k)) (\<lambda>token.
     bindO (Some (unwrapR (current_task k))) (\<lambda>t.
     let path = as_bytes (wd_name (t_work_dir (task k t)));
         n = min len (of_nat (length path))
     in
     bindO (translated_byte_buffer token buf n (mm_mem (k_mm k))) (\<lambda>v.
       Some (Inr (buf, k\<lparr> k_mm := (k_mm k)\<lparr> mm_mem := fill_slices v path (mm_mem (k_mm k)) \<rparr> \<rparr>)))))"

definition sys_chdir ::
  "'e ext4_rs \<Rightarrow> (usize \<Rightarrow> u8) \<Rightarrow> usize \<Rightarrow> 'e sys \<Rightarrow> (usize \<times> 'e sys) res option" where
  "sys_chdir x load path = (\<lambda>(k, w).
     bindO (Some (current_user_token k)) (\<lambda>token.
     bindO (translated_str load token path) (\<lambda>name.
     bindO (Some (unwrapR (current_task k))) (\<lambda>t.
     bindO (open_file x (wd_inode (t_work_dir (task k t))) name (O_RDWR OR O_DIRECTORY) w) (\<lambda>(found, w1).
     bindO (Some (unwrapR found)) (\<lambda>dir.
       Some (Inr (0, upd_task t (\<lambda>c. c\<lparr> t_work_dir := dir \<rparr>) k, w1))))))))"

definition sys_umount2 :: "usize \<Rightarrow> 32 word \<Rightarrow> usize" where "sys_umount2 target flags = 0"

definition sys_mount :: "usize \<Rightarrow> usize \<Rightarrow> usize \<Rightarrow> u32 \<Rightarrow> usize \<Rightarrow> usize" where
  "sys_mount source target fs flags data = 0"

definition sys_ioctl :: "usize \<Rightarrow> usize \<Rightarrow> usize \<Rightarrow> usize" where "sys_ioctl fd request arg = ENOTTY"

section \<open>Executing a file\<close>

text \<open>The loops that collect the arguments and the environment.  The second one takes the address of
  the slot for the address of the string in it.\<close>

partial_function (option) args_loop ::
  "(usize \<Rightarrow> usize) \<Rightarrow> (usize \<Rightarrow> u8) \<Rightarrow> usize \<Rightarrow> string list \<Rightarrow> string list option" where
  "args_loop load64 load args v =
     (if load64 args = 0 then Some v
      else Option.bind (c_ptr_to_string load (load64 args)) (\<lambda>s. args_loop load64 load (args + 8) (v @ [s])))"

partial_function (option) envp_loop ::
  "(usize \<Rightarrow> usize) \<Rightarrow> (usize \<Rightarrow> u8) \<Rightarrow> usize \<Rightarrow> string list \<Rightarrow> string list option" where
  "envp_loop load64 load envp v =
     (if load64 envp = 0 then Some v
      else Option.bind (c_ptr_to_string load envp) (\<lambda>s. envp_loop load64 load (envp + 8) (v @ [s])))"

text \<open>A script is handed to the shell.\<close>

definition shell_script :: "string \<Rightarrow> string list \<Rightarrow> string \<times> string list" where
  "shell_script path args =
     (if length path \<ge> 3 \<and> drop (length path - 3) path = ''.sh''
      then (''./busybox'', ''/busybox'' # ''sh'' # args)
      else (path, args))"

text \<open>\<^verbatim>\<open>exec\<close> copies the strings as their bytes.\<close>

definition sys_execve ::
  "symbols \<Rightarrow> usize \<Rightarrow> (u8 list \<Rightarrow> ElfFile option) \<Rightarrow> 'e ext4_rs \<Rightarrow> (usize \<Rightarrow> usize) \<Rightarrow> (usize \<Rightarrow> u8) \<Rightarrow>
     usize \<Rightarrow> usize \<Rightarrow> usize \<Rightarrow> 'e sys \<Rightarrow> (usize \<times> 'e sys) res option" where
  "sys_execve sy sstatus parse x load64 load path args envp = (\<lambda>(k, w).
     bindO (map_option Inr (c_ptr_to_string load path)) (\<lambda>path0.
     bindO (map_option Inr (args_loop load64 load args [])) (\<lambda>args0.
     bindO (if envp \<noteq> 0 then map_option Inr (envp_loop load64 load envp []) else Some (Inr [])) (\<lambda>envp_vec.
     case shell_script path0 args0 of
       (path1, args_vec) \<Rightarrow>
         bindO (Some (unwrapR (current_task k))) (\<lambda>t.
         bindO (open_file x (wd_inode (t_work_dir (task k t))) path1 O_RDONLY w) (\<lambda>(found, w1).
           case found of
             None \<Rightarrow> Some (Inr (ENOENT, k, w1))
           | Some dentry \<Rightarrow>
               bindO (Inode_read_all x (wd_inode dentry) w1) (\<lambda>(all_data, w2).
               bindO (Some (exec sy sstatus parse t all_data (map as_bytes args_vec) (map as_bytes envp_vec) k)) (\<lambda>k'.
                 Some (Inr (of_nat (length args_vec), k', w2))))))))))"

section \<open>Tables as maps\<close>

definition fd_map :: "fd_table \<Rightarrow> nat \<Rightarrow> File option" where
  "fd_map tbl i = (if i < length tbl then tbl ! i else None)"

text \<open>The descriptor that is free and has the lowest number.\<close>

definition lowest_free :: "(nat \<Rightarrow> File option) \<Rightarrow> nat" where
  "lowest_free m = (LEAST i. m i = None)"

text \<open>The kernel changed in the descriptors of one task only, which are now the given ones.\<close>

definition sets_fds :: "task_ref \<Rightarrow> (nat \<Rightarrow> File option) \<Rightarrow> Kernel \<Rightarrow> Kernel \<Rightarrow> bool" where
  "sets_fds t m k k' \<longleftrightarrow> k' = put_table t (table_of t k') k \<and> fd_map (table_of t k') = m"

lemma fd_get_map: "fd_get fd tbl = fd_map tbl (unat fd)"
  by (simp add: fd_get_def fd_map_def)

lemma fd_map_update [simp]: "i < length tbl \<Longrightarrow> fd_map (tbl[i := v]) = (fd_map tbl)(i := v)"
  by (auto simp: fd_map_def fun_eq_iff nth_list_update)

lemma fd_map_grow [simp]: "fd_map (tbl @ replicate n None) = fd_map tbl"
  by (auto simp: fd_map_def fun_eq_iff nth_append)

lemma fd_map_push [simp]: "fd_map (tbl @ [None]) = fd_map tbl"
  using fd_map_grow [of tbl 1] by simp

lemma alloc_fd_spec:
  assumes "alloc_fd tbl = (n, tbl')"
  shows "n = lowest_free (fd_map tbl)" "n < length tbl'" "tbl' ! n = None" "fd_map tbl' = fd_map tbl" "tbl' = tbl \<or> tbl' = tbl @ [None]"
proof -
  have "n = lowest_free (fd_map tbl) \<and> n < length tbl' \<and> tbl' ! n = None \<and> fd_map tbl' = fd_map tbl \<and> (tbl' = tbl \<or> tbl' = tbl @ [None])"
  proof (cases "List.find (\<lambda>fd. tbl ! fd = None) [0..<length tbl]")
    case None
    then have "\<forall>i < length tbl. tbl ! i \<noteq> None" by (auto simp: find_None_iff)
    then have "lowest_free (fd_map tbl) = length tbl"
      unfolding lowest_free_def by (intro Least_equality) (auto simp: fd_map_def not_less [symmetric] split: if_splits)
    then show ?thesis using None assms by (auto simp: alloc_fd_def nth_append)
  next
    case (Some fd)
    then obtain i where i: "i < length tbl" "tbl ! i = None" "fd = i" "\<forall>j < i. tbl ! j \<noteq> None"
      by (auto simp: find_Some_iff)
    then have "lowest_free (fd_map tbl) = i"
      unfolding lowest_free_def by (intro Least_equality) (auto simp: fd_map_def not_less [symmetric] split: if_splits)
    then show ?thesis using Some assms i by (auto simp: alloc_fd_def)
  qed
  then show "n = lowest_free (fd_map tbl)" "n < length tbl'" "tbl' ! n = None" "fd_map tbl' = fd_map tbl" "tbl' = tbl \<or> tbl' = tbl @ [None]"
    by auto
qed

lemma table_of_put [simp]: "t < length (k_tasks k) \<Longrightarrow> table_of t (put_table t tbl k) = tbl"
  by (simp add: put_table_def)

lemma k_tasks_put [simp]: "length (k_tasks (put_table t tbl k)) = length (k_tasks k)"
  by (simp add: put_table_def upd_task_def)

lemma put_put [simp]: "put_table t b (put_table t a k) = put_table t b k" if "t < length (k_tasks k)"
  using that by (simp add: put_table_def upd_task_def)

lemma sets_fds_put: "t < length (k_tasks k) \<Longrightarrow> sets_fds t (fd_map tbl) k (put_table t tbl k)"
  by (simp add: sets_fds_def)

lemma install_fd_spec:
  assumes "t < length (k_tasks k)"
  shows "\<exists>k'. install_fd t f (k, w) = Inr (of_nat (lowest_free (fd_map (table_of t k))), k', w) \<and>
    sets_fds t ((fd_map (table_of t k))(lowest_free (fd_map (table_of t k)) \<mapsto> f)) k k'"
proof -
  obtain n tbl where a: "alloc_fd (table_of t k) = (n, tbl)" by (cases "alloc_fd (table_of t k)")
  note s = alloc_fd_spec [OF a]
  have "install_fd t f (k, w) = Inr (of_nat n, put_table t (tbl[n := Some f]) k, w)"
    using s(2,3) by (simp add: install_fd_def a fd_store_def nthR_def)
  then show ?thesis using s assms sets_fds_put [of t k "tbl[n := Some f]"] by auto
qed

lemma grow_table_append: "grow_table n tbl = tbl @ replicate (Suc n - length tbl) None"
proof (induction n tbl rule: grow_table.induct)
  case (1 n tbl)
  then show ?case
    by (cases "length tbl \<le> n") (simp_all add: grow_table.simps [of n tbl] Suc_diff_le replicate_append_same [symmetric])
qed

lemma sys_dup3_spec:
  assumes "current_task k = Some t" "t < length (k_tasks k)" "fd_map (table_of t k) (unat fd) = Some f"
  shows "\<exists>k' w'. sys_dup3 fd new_fd (k, w) = Inr (new_fd, k', w') \<and>
    sets_fds t ((fd_map (table_of t k))(unat new_fd \<mapsto> f)) k k' \<and>
    w' = (case fd_map (table_of t k) (unat new_fd) of
            None \<Rightarrow> file_clone f w
          | Some g \<Rightarrow> file_drop f (file_clone f (file_drop g (file_clone f w))))"
proof -
  let ?tbl = "grow_table (unat new_fd) (table_of t k)"
  have l: "unat new_fd < length ?tbl" by (simp add: grow_table_append)
  have m: "fd_map ?tbl = fd_map (table_of t k)" by (simp add: grow_table_append)
  have n: "?tbl ! unat new_fd = fd_map (table_of t k) (unat new_fd)" using l m by (metis fd_map_def)
  have "sets_fds t ((fd_map (table_of t k))(unat new_fd \<mapsto> f)) k (put_table t (?tbl[unat new_fd := Some f]) k)"
    using sets_fds_put [OF assms(2), of "?tbl[unat new_fd := Some f]"] l m by simp
  then show ?thesis
    using assms l n
    by (cases "fd_map (table_of t k) (unat new_fd)")
      (simp_all add: sys_dup3_def fd_get_map fd_store_def nthR_def unwrapR_def Let_def)
qed

lemma current_task_put [simp]: "current_task (put_table t tbl k) = current_task k"
  by (simp add: current_task_def put_table_def upd_task_def)

lemma sets_fds_trans:
  assumes "sets_fds t m k k1" "sets_fds t m' k1 k2" "t < length (k_tasks k)"
  shows "sets_fds t m' k k2"
  using assms by (metis sets_fds_def put_put)

lemma sets_fdsD:
  assumes "sets_fds t m k k'"
  shows "fd_map (table_of t k') = m" "current_task k' = current_task k" "length (k_tasks k') = length (k_tasks k)"
  using assms by (metis sets_fds_def, metis sets_fds_def current_task_put, metis sets_fds_def k_tasks_put)

lemma lowest_free_le: "lowest_free (fd_map tbl) \<le> length tbl"
  unfolding lowest_free_def by (intro Least_le) (simp add: fd_map_def)

lemma lowest_free_None: "fd_map tbl (lowest_free (fd_map tbl)) = None"
  unfolding lowest_free_def by (rule LeastI [of _ "length tbl"]) (simp add: fd_map_def)

text \<open>The two descriptors \<^verbatim>\<open>sys_pipe\<close> gives.\<close>

definition pipe_fds :: "(nat \<Rightarrow> File option) \<Rightarrow> nat \<times> nat" where
  "pipe_fds m = (let a = lowest_free m in (a, lowest_free (m(a := Some Stdin))))"

lemma lowest_free_Some: "lowest_free (m(a := Some f)) = lowest_free (m(a := Some g))"
  unfolding lowest_free_def by (rule arg_cong [where f = Least]) auto

lemma sys_pipe_spec:
  fixes k w
  defines "n \<equiv> length (fw_pipes w)"
  assumes "current_task k = Some t" "t < length (k_tasks k)" "pipe_fds (fd_map (table_of t k)) = (a, b)"
  shows "\<exists>k'. sys_pipe (k, w) = Inr (0, (ucast (of_nat a :: usize), ucast (of_nat b :: usize)), k',
        w\<lparr> fw_pipes := fw_pipes w @ [snd (snd make_pipe)] \<rparr>) \<and>
    sets_fds t ((fd_map (table_of t k))(a \<mapsto> PipeFile (2 * n), b \<mapsto> PipeFile (2 * n + 1))) k k'"
proof -
  let ?m = "fd_map (table_of t k)" and ?w = "w\<lparr> fw_pipes := fw_pipes w @ [snd (snd make_pipe)] \<rparr>"
  have ab: "a = lowest_free ?m" "b = lowest_free (?m(a \<mapsto> PipeFile (2 * n)))"
    using assms(4) lowest_free_Some [of ?m _ Stdin "PipeFile (2 * n)"] by (auto simp: pipe_fds_def Let_def)
  obtain k1 where k1: "install_fd t (PipeFile (2 * n)) (k, ?w) = Inr (of_nat a, k1, ?w)"
    "sets_fds t (?m(a \<mapsto> PipeFile (2 * n))) k k1"
    using install_fd_spec [OF assms(3)] ab(1) by blast
  have t1: "t < length (k_tasks k1)" using assms(3) sets_fdsD(3) [OF k1(2)] by simp
  obtain k2 where k2: "install_fd t (PipeFile (2 * n + 1)) (k1, ?w) = Inr (of_nat b, k2, ?w)"
    "sets_fds t (?m(a \<mapsto> PipeFile (2 * n), b \<mapsto> PipeFile (2 * n + 1))) k1 k2"
    using install_fd_spec [OF t1] ab(2) sets_fdsD(1) [OF k1(2)] by auto
  show ?thesis
    using k1(1) k2(1) sets_fds_trans [OF k1(2) k2(2) assms(3)] assms(2)
    by (auto simp: sys_pipe_def Let_def unwrapR_def n_def)
qed

lemma pipe_fds_bounds:
  assumes "pipe_fds (fd_map tbl) = (a, b)"
  shows "a \<noteq> b" "a \<le> length tbl" "b \<le> Suc (length tbl)" "fd_map tbl a = None" "fd_map tbl b = None"
proof -
  let ?m = "(fd_map tbl)(a := Some Stdin)"
  have ab: "a = lowest_free (fd_map tbl)" "b = lowest_free ?m"
    using assms by (auto simp: pipe_fds_def Let_def)
  have e: "?m (Suc (length tbl)) = None" using lowest_free_le [of tbl] ab(1) by (simp add: fd_map_def)
  have "?m b = None" unfolding ab(2) lowest_free_def by (rule LeastI) (rule e)
  moreover have "b \<le> Suc (length tbl)" unfolding ab(2) lowest_free_def by (rule Least_le) (rule e)
  ultimately show "a \<noteq> b" "a \<le> length tbl" "b \<le> Suc (length tbl)" "fd_map tbl a = None" "fd_map tbl b = None"
    using lowest_free_le [of tbl] lowest_free_None [of tbl] ab(1) by (auto split: if_splits)
qed

lemma unat_fd_u32: "n < 2 ^ 32 \<Longrightarrow> unat (ucast (ucast (of_nat n :: usize) :: u32) :: usize) = n"
  by (simp add: unsigned_ucast_eq unsigned_of_nat take_bit_nat_eq_self)

text \<open>Whole calls on a pipe that need not wait.\<close>

lemma write_turn_fits:
  assumes w: "pipe_ok w" and c: "length (pipe_items w) + length buf \<le> 3200" "length (pipe_items w) < 3200"
  shows "\<exists>w' b'. write_turn w \<lparr> wr_buf = buf, wr_next = 0, wr_already = 0 \<rparr> = Inr (Return (length buf), w', b') \<and> pipe_ok w' \<and>
    pipe_items w' = pipe_items w @ buf \<and> pw_strong w' = pw_strong w"
proof -
  have b: "wr_ok \<lparr> wr_buf = buf, wr_next = 0, wr_already = 0 \<rparr>" by (simp add: wr_ok_def)
  have "length buf \<le> RING_BUFFER_SIZE - length (pipe_items w)" "RING_BUFFER_SIZE - length (pipe_items w) \<noteq> 0"
    using c by (simp_all add: RING_BUFFER_SIZE_def)
  then show ?thesis using write_turn_spec [OF w b] by (auto simp: min_absorb2)
qed

lemma quick_read_ready:
  assumes w: "pipe_ok w" and c: "pipe_items w \<noteq> []" "length buf \<le> length (pipe_items w)"
  shows "\<exists>w' b'. quick_read w \<lparr> rd_buf = buf, rd_next = 0, rd_already = 0 \<rparr> (length buf, w', b') \<and>
    rd_buf b' = take (length buf) (pipe_items w) \<and> pipe_ok w' \<and>
    pipe_items w' = drop (length buf) (pipe_items w) \<and> pw_strong w' = pw_strong w"
proof -
  let ?b = "\<lparr> rd_buf = buf, rd_next = 0, rd_already = 0 \<rparr>"
  have b: "rd_ok ?b" by (simp add: rd_ok_def)
  obtain w' where t: "read_turn w ?b = Inr (Return (length buf), w', rd_fill (length buf) (pipe_items w) ?b)"
      "pipe_items w' = drop (length buf) (pipe_items w)" "pipe_ok w'" "pw_strong w' = pw_strong w"
    using read_turn_spec [OF w b] c by (auto simp: min_absorb2)
  show ?thesis
    using last_turn [OF t(1)] t(2-4) c by (intro exI [of _ w'] exI [of _ "rd_fill (length buf) (pipe_items w) ?b"]) (simp add: rd_fill_def)
qed

section \<open>References to pipe ends\<close>

definition refs :: "nat \<Rightarrow> 'e FileWorld \<Rightarrow> nat" where
  "refs e w = pw_strong (fw_pipes w ! pipe_of e) (end_of e)"

definition held_refs :: "nat \<Rightarrow> fd_table \<Rightarrow> nat" where
  "held_refs e tbl = count_list tbl (Some (PipeFile e))"

text \<open>Each pipe end is counted once for every descriptor of the table, and \<^term>\<open>c e\<close> times more for
  what other tasks hold.\<close>

definition refs_ok :: "(nat \<Rightarrow> nat) \<Rightarrow> fd_table \<Rightarrow> 'e FileWorld \<Rightarrow> bool" where
  "refs_ok c tbl w \<longleftrightarrow>
     (\<forall>e. Some (PipeFile e) \<in> set tbl \<longrightarrow> pipe_of e < length (fw_pipes w)) \<and>
     (\<forall>e. if pipe_of e < length (fw_pipes w) then refs e w = held_refs e tbl + c e else c e = 0)"

definition pipe_there :: "File \<Rightarrow> 'e FileWorld \<Rightarrow> bool" where
  "pipe_there f w \<longleftrightarrow> (\<forall>e. f = PipeFile e \<longrightarrow> pipe_of e < length (fw_pipes w))"

lemma pipe_end_eq: "pipe_of a = pipe_of b \<Longrightarrow> end_of a = end_of b \<Longrightarrow> a = b"
  unfolding pipe_of_def end_of_def
  by (metis PipeEnd.distinct(1) dvd_mult_div_cancel odd_two_times_div_two_succ)

lemma refs_pipe_count:
  "pipe_of e < length (fw_pipes w) \<Longrightarrow> refs d (pipe_count e f w) = (if d = e then f (refs e w) else refs d w)"
  by (cases "pipe_of d = pipe_of e"; cases "end_of d = end_of e")
    (auto simp: refs_def pipe_count_def Let_def dest: pipe_end_eq)

lemma pipes_count [simp]:
  "length (fw_pipes (pipe_count e f w)) = length (fw_pipes w)"
  "length (fw_pipes (file_clone g w)) = length (fw_pipes w)"
  "length (fw_pipes (file_drop g w)) = length (fw_pipes w)"
  by (simp_all add: pipe_count_def file_clone_def file_drop_def Let_def split: File.splits)

lemma pipe_there_count [simp]:
  "pipe_there f (file_clone g w) = pipe_there f w" "pipe_there f (file_drop g w) = pipe_there f w"
  by (simp_all add: pipe_there_def)

lemma refs_clone: "pipe_there f w \<Longrightarrow> refs e (file_clone f w) = refs e w + (if f = PipeFile e then 1 else 0)"
  by (cases f) (auto simp: file_clone_def pipe_there_def refs_pipe_count)

lemma refs_drop:
  "pipe_there f w \<Longrightarrow> refs e (file_drop f w) = refs e w - (if f = PipeFile e then 1 else 0)"
  by (cases f) (auto simp: file_drop_def pipe_there_def refs_pipe_count)

lemma count_list_update:
  "i < length xs \<Longrightarrow> count_list (xs[i := v]) x + (if xs ! i = x then 1 else 0) = count_list xs x + (if v = x then 1 else 0)"
proof (induction xs arbitrary: i)
  case (Cons y ys)
  then show ?case
  proof (cases i)
    case (Suc j)
    then show ?thesis using Cons.IH [of j] Cons.prems by (auto split: if_splits)
  qed simp
qed simp

lemma held_update:
  "i < length tbl \<Longrightarrow> held_refs e (tbl[i := v]) + (if tbl ! i = Some (PipeFile e) then 1 else 0) =
     held_refs e tbl + (if v = Some (PipeFile e) then 1 else 0)"
  unfolding held_refs_def by (rule count_list_update)

lemma held_grow [simp]: "held_refs e (tbl @ replicate n None) = held_refs e tbl" "held_refs e (tbl @ [None]) = held_refs e tbl"
proof -
  have "count_list (replicate n None) (Some (PipeFile e)) = 0" by (induction n) simp_all
  then show "held_refs e (tbl @ replicate n None) = held_refs e tbl" "held_refs e (tbl @ [None]) = held_refs e tbl"
    by (simp_all add: held_refs_def)
qed

lemma refs_ok_grow [simp]:
  "refs_ok c (tbl @ replicate n None) w = refs_ok c tbl w" "refs_ok c (tbl @ [None]) w = refs_ok c tbl w"
  by (auto simp: refs_ok_def)

lemma refs_ok_there: "refs_ok c tbl w \<Longrightarrow> Some f \<in> set tbl \<Longrightarrow> pipe_there f w"
  by (auto simp: refs_ok_def pipe_there_def)

lemma refs_ok_update:
  assumes "refs_ok c tbl w" "i < length tbl" "length (fw_pipes w') = length (fw_pipes w)"
    and "\<And>f. v = Some f \<Longrightarrow> pipe_there f w"
    and "\<And>e. refs e w' = refs e w + (if v = Some (PipeFile e) then 1 else 0) - (if tbl ! i = Some (PipeFile e) then 1 else 0)"
  shows "refs_ok c (tbl[i := v]) w'"
proof -
  have "refs e w' = held_refs e (tbl[i := v]) + c e" if "pipe_of e < length (fw_pipes w)" for e
  proof -
    have r: "refs e w = held_refs e tbl + c e" using assms(1) that by (simp add: refs_ok_def)
    have "tbl ! i = Some (PipeFile e) \<Longrightarrow> 0 < held_refs e tbl"
      using nth_mem [OF assms(2)] unfolding held_refs_def by (metis count_list_0_iff gr0I)
    then show ?thesis
      using held_update [OF assms(2), of e v] assms(5) [of e] r by (auto split: if_splits)
  qed
  moreover have "pipe_of e < length (fw_pipes w)" if "Some (PipeFile e) \<in> set (tbl[i := v])" for e
    using that set_update_subset_insert [of tbl i v] assms(1,4) by (auto simp: refs_ok_def pipe_there_def)
  ultimately show ?thesis using assms(1,3) by (auto simp: refs_ok_def)
qed

lemma refs_ok_store:
  assumes "refs_ok c tbl w" "fd_store i f (tbl, file_clone f w) = Inr (tbl', w')" "pipe_there f w"
  shows "refs_ok c tbl' w' \<and> pipe_there f w'"
proof -
  have i: "i < length tbl" and t: "tbl' = tbl[i := Some f]"
    and w': "w' = (case tbl ! i of None \<Rightarrow> file_clone f w | Some g \<Rightarrow> file_drop g (file_clone f w))"
    using assms(2) by (auto simp: fd_store_def nthR_def split: if_splits option.splits)
  have g: "pipe_there g w" if "tbl ! i = Some g" for g
    using refs_ok_there [OF assms(1)] nth_mem [OF i] that by metis
  show ?thesis
    unfolding t using assms(1,3) i g
    by (intro conjI refs_ok_update) (auto simp: w' refs_clone refs_drop split: option.splits)
qed

lemma refs_ok_close:
  assumes "refs_ok c tbl w" "i < length tbl" "tbl ! i = Some f"
  shows "refs_ok c (tbl[i := None]) (file_drop f w)"
  using assms refs_ok_there [OF assms(1), of f] nth_mem [OF assms(2)]
  by (intro refs_ok_update) (auto simp: refs_drop)

lemma install_fd_alloc:
  assumes "install_fd t f (k, w) = Inr (r, k', w')"
  obtains n tbl where "alloc_fd (table_of t k) = (n, tbl)" "n < length tbl" "tbl ! n = None" "w' = w"
    "k' = put_table t (tbl[n := Some f]) k" "tbl = table_of t k \<or> tbl = table_of t k @ [None]"
proof -
  obtain n tbl where a: "alloc_fd (table_of t k) = (n, tbl)" by (cases "alloc_fd (table_of t k)")
  note s = alloc_fd_spec [OF a]
  show ?thesis using assms s by (intro that [OF a]) (auto simp: install_fd_def a fd_store_def nthR_def)
qed

definition fd_inv :: "(nat \<Rightarrow> nat) \<Rightarrow> task_ref \<Rightarrow> Kernel \<Rightarrow> 'e FileWorld \<Rightarrow> bool" where
  "fd_inv c t k w \<longleftrightarrow> current_task k = Some t \<and> t < length (k_tasks k) \<and> refs_ok c (table_of t k) w"

lemma fd_inv_refs: "fd_inv c t k w \<Longrightarrow> refs_ok c (table_of t k) w"
  by (simp add: fd_inv_def)

lemma fd_inv_put: "fd_inv c t k w \<Longrightarrow> refs_ok c tbl w' \<Longrightarrow> fd_inv c t (put_table t tbl k) w'"
  by (simp add: fd_inv_def)

lemma fd_inv_install:
  assumes "fd_inv c t k w" "install_fd t f (k, file_clone f w) = Inr (r, k', w')" "pipe_there f w"
  shows "fd_inv c t k' w'"
proof -
  obtain n tbl where a: "n < length tbl" "tbl ! n = None" "w' = file_clone f w"
      "k' = put_table t (tbl[n := Some f]) k" "tbl = table_of t k \<or> tbl = table_of t k @ [None]"
    using install_fd_alloc [OF assms(2)] by metis
  have "refs_ok c tbl w" using a(5) assms(1) by (auto simp: fd_inv_def)
  moreover have "fd_store n f (tbl, file_clone f w) = Inr (tbl[n := Some f], w')"
    using a(1,2,3) by (simp add: fd_store_def nthR_def)
  ultimately have "refs_ok c (tbl[n := Some f]) w'" using refs_ok_store [of c tbl w n f "tbl[n := Some f]" w'] assms(3) by blast
  then show ?thesis using a(4) fd_inv_put [OF assms(1)] by simp
qed

text \<open>What one task does to its descriptors: any of the calls that return.\<close>

inductive fd_step :: "'e ext4_rs \<Rightarrow> 'e sys \<Rightarrow> 'e sys \<Rightarrow> bool" for x :: "'e ext4_rs" where
  closes: "sys_close fd s = Inr (r, s') \<Longrightarrow> fd_step x s s'"
| dups: "sys_dup fd s = Inr (r, s') \<Longrightarrow> fd_step x s s'"
| dup3s: "sys_dup3 fd new_fd s = Inr (r, s') \<Longrightarrow> fd_step x s s'"
| fcntls: "sys_fcntl fd cmd arg s = Inr (r, s') \<Longrightarrow> fd_step x s s'"
| pipes: "sys_pipe s = Inr (r, p, s') \<Longrightarrow> fd_step x s s'"
| opens: "sys_openat x load dirfd path flags s = Some (Inr (r, s')) \<Longrightarrow> fd_step x s s'"

lemma fd_get_table:
  assumes "fd_get fd tbl = Some f"
  shows "unat fd < length tbl" "tbl ! unat fd = Some f" "Some f \<in> set tbl"
proof -
  show i: "unat fd < length tbl" and f: "tbl ! unat fd = Some f"
    using assms by (auto simp: fd_get_def not_le split: if_splits)
  show "Some f \<in> set tbl" using nth_mem [OF i] f by simp
qed

lemma Inode_lookup_pipes: "Inode_lookup x r name w = Some (Inr (d, w')) \<Longrightarrow> fw_pipes w' = fw_pipes w"
  by (auto simp: Inode_lookup_def Ext4Inode_lookup_def fat_dentry_def outcome split: InodeRef.splits option.splits prod.splits)

lemma Inode_clear_pipes: "Inode_clear r w = Some (Inr (u, w')) \<Longrightarrow> fw_pipes w' = fw_pipes w"
  by (auto simp: Inode_clear_def outcome split: InodeRef.splits)

lemma Inode_create_pipes: "Inode_create r name ty w = Some (Inr (d, w')) \<Longrightarrow> fw_pipes w' = fw_pipes w"
  by (auto simp: Inode_create_def fat_dentry_def outcome split: InodeRef.splits option.splits prod.splits)

lemma open_file_pipes: "open_file x r name fl w = Some (Inr (d, w')) \<Longrightarrow> fw_pipes w' = fw_pipes w"
  by (auto simp: open_file_def outcome split: if_splits option.splits
      dest!: Inode_lookup_pipes Inode_clear_pipes Inode_create_pipes)

lemma refs_ok_pipes: "fw_pipes w' = fw_pipes w \<Longrightarrow> refs_ok c tbl w' = refs_ok c tbl w"
  by (simp add: refs_ok_def refs_def)

lemma pipe_there_inode: "pipe_there (InodeFile r) w" "file_clone (InodeFile r) w = w"
  by (simp_all add: pipe_there_def file_clone_def)

lemma fd_inv_dentry:
  assumes "fd_inv c t k w" "install_dentry t d (k, w) = Inr (r, k', w')"
  shows "fd_inv c t k' w'"
proof -
  obtain q where "install_fd t (InodeFile q) (k, file_clone (InodeFile q) w) = Inr (r, k', w')"
    using assms(2) by (auto simp: install_dentry_def cast_inode_to_file_def unwrapR_def pipe_there_inode(2) split: InodeRef.splits)
  from fd_inv_install [OF assms(1) this pipe_there_inode(1)] show ?thesis .
qed

lemma fd_inv_opened:
  assumes "fd_inv c t k w"
    "bindO (open_file x inode name fl w) (\<lambda>(found, w1).
       case found of Some d \<Rightarrow> Some (install_dentry t d (k, w1)) | None \<Rightarrow> Some (Inr (ENOENT, k, w1))) = Some (Inr (r, k', w'))"
  shows "fd_inv c t k' w'"
proof -
  obtain found w1 where o: "open_file x inode name fl w = Some (Inr (found, w1))"
    "(case found of Some d \<Rightarrow> Some (install_dentry t d (k, w1)) | None \<Rightarrow> Some (Inr (ENOENT, k, w1))) = Some (Inr (r, k', w'))"
    using assms(2) by (auto simp: outcome)
  have "fd_inv c t k w1" using assms(1) refs_ok_pipes [OF open_file_pipes [OF o(1)]] by (simp add: fd_inv_def)
  then show ?thesis using o(2) fd_inv_dentry by (auto split: option.splits)
qed

lemma fd_inv_open:
  assumes "fd_inv c t k w" "sys_open x load path flags (k, w) = Some (Inr (r, k', w'))"
  shows "fd_inv c t k' w'"
proof -
  have t: "current_task k = Some t" using assms(1) by (simp add: fd_inv_def)
  obtain name fl where "bindO (open_file x (wd_inode (t_work_dir (task k t))) name fl w) (\<lambda>(found, w1).
       case found of Some d \<Rightarrow> Some (install_dentry t d (k, w1)) | None \<Rightarrow> Some (Inr (ENOENT, k, w1))) = Some (Inr (r, k', w'))"
    using assms(2) t unfolding sys_open_def prod.case bindO_eq_Inr by (auto simp: unwrapR_def bindO_eq_Inr)
  then show ?thesis by (rule fd_inv_opened [OF assms(1)])
qed

lemma fd_inv_openat:
  assumes "fd_inv c t k w" "sys_openat x load dirfd path flags (k, w) = Some (Inr (r, k', w'))"
  shows "fd_inv c t k' w'"
proof (cases "dirfd = AT_FDCWD")
  case True
  then show ?thesis using assms fd_inv_open by (simp add: sys_openat_def)
next
  case False
  have t: "current_task k = Some t" using assms(1) by (simp add: fd_inv_def)
  show ?thesis
  proof (cases "fd_get (scast dirfd) (table_of t k)")
    case None
    then show ?thesis using assms False t by (simp add: sys_openat_def unwrapR_def)
  next
    case (Some dir)
    then obtain inode name fl where "bindO (open_file x inode name fl w) (\<lambda>(found, w1).
       case found of Some d \<Rightarrow> Some (install_dentry t d (k, w1)) | None \<Rightarrow> Some (Inr (ENOENT, k, w1))) = Some (Inr (r, k', w'))"
      using assms(2) t False unfolding sys_openat_def prod.case bindO_eq_Inr by (fastforce simp: unwrapR_def bindO_eq_Inr)
    then show ?thesis by (rule fd_inv_opened [OF assms(1)])
  qed
qed

lemma fd_inv_dup:
  assumes "fd_inv c t k w" "fd_get fd (table_of t k) = Some f" "install_fd t f (k, file_clone f w) = Inr (r, k', w')"
  shows "fd_inv c t k' w'"
  by (rule fd_inv_install [OF assms(1,3) refs_ok_there [OF fd_inv_refs [OF assms(1)] fd_get_table(3) [OF assms(2)]]])

lemma fd_inv_close:
  assumes "fd_inv c t k w" "sys_close fd (k, w) = Inr (r, k', w')"
  shows "fd_inv c t k' w'"
proof (cases "fd_get fd (table_of t k)")
  case None
  then show ?thesis using assms by (simp add: sys_close_def unwrapR_def fd_inv_def)
next
  case (Some f)
  have "refs_ok c ((table_of t k)[unat fd := None]) (file_drop f w)"
    by (rule refs_ok_close [OF fd_inv_refs [OF assms(1)] fd_get_table(1,2) [OF Some]])
  moreover have "k' = put_table t ((table_of t k)[unat fd := None]) k \<and> w' = file_drop f w"
    using assms Some by (simp add: sys_close_def unwrapR_def fd_inv_def)
  ultimately show ?thesis using fd_inv_put [OF assms(1)] by simp
qed

lemma fd_inv_dup3:
  assumes "fd_inv c t k w" "sys_dup3 fd new_fd (k, w) = Inr (r, k', w')"
  shows "fd_inv c t k' w'"
proof (cases "fd_get fd (table_of t k)")
  case None
  then show ?thesis using assms by (simp add: sys_dup3_def unwrapR_def fd_inv_def)
next
  case (Some f)
  let ?tbl = "grow_table (unat new_fd) (table_of t k)"
  have ok: "refs_ok c ?tbl w" "pipe_there f w"
    using fd_inv_refs [OF assms(1)] refs_ok_there [OF fd_inv_refs [OF assms(1)] fd_get_table(3) [OF Some]]
    by (simp_all add: grow_table_append)
  obtain tbl1 w1 where 1: "if ?tbl ! unat new_fd \<noteq> None then fd_store (unat new_fd) f (?tbl, file_clone f w) = Inr (tbl1, w1) else (tbl1, w1) = (?tbl, w)"
    and 2: "\<exists>tbl2. fd_store (unat new_fd) f (tbl1, file_clone f w1) = Inr (tbl2, w') \<and> k' = put_table t tbl2 k"
    using assms Some by (auto simp: sys_dup3_def unwrapR_def fd_inv_def Let_def outcome split: if_splits)
  have "refs_ok c tbl1 w1 \<and> pipe_there f w1"
    using 1 ok refs_ok_store [OF ok(1) _ ok(2), of "unat new_fd" tbl1 w1] by (auto split: if_splits)
  moreover obtain tbl2 where s: "fd_store (unat new_fd) f (tbl1, file_clone f w1) = Inr (tbl2, w')" "k' = put_table t tbl2 k"
    using 2 by blast
  ultimately have "refs_ok c tbl2 w'" using refs_ok_store [OF _ s(1), of c] by blast
  then show ?thesis using fd_inv_put [OF assms(1)] s(2) by simp
qed

lemma refs_new_pipe:
  assumes "refs_ok c tbl w"
  defines "n \<equiv> length (fw_pipes w)"
  defines "w' \<equiv> w\<lparr> fw_pipes := fw_pipes w @ [snd (snd make_pipe)] \<rparr>"
  assumes "i < length tbl" "j < length tbl" "i \<noteq> j" "tbl ! i = None" "tbl ! j = None"
  shows "refs_ok c (tbl[i := Some (PipeFile (2 * n)), j := Some (PipeFile (2 * n + 1))]) w'"
proof -
  let ?t1 = "tbl[i := Some (PipeFile (2 * n))]" and ?t2 = "tbl[i := Some (PipeFile (2 * n)), j := Some (PipeFile (2 * n + 1))]"
  have h: "held_refs e ?t2 = held_refs e tbl + (if e = 2 * n \<or> e = 2 * n + 1 then 1 else 0)" for e
    using held_update [of i tbl e "Some (PipeFile (2 * n))"] held_update [of j ?t1 e "Some (PipeFile (2 * n + 1))"] assms(4-8)
    by (auto split: if_splits)
  have new: "held_refs e tbl = 0 \<and> c e = 0" if "\<not> pipe_of e < n" for e
    using assms(1) that unfolding refs_ok_def n_def held_refs_def by (metis count_list_0_iff)
  have e: "pipe_of e < Suc n \<longleftrightarrow> pipe_of e < n \<or> e = 2 * n \<or> e = 2 * n + 1" for e
    by (auto simp: pipe_of_def)
  have old: "refs e w' = refs e w" if "pipe_of e < n" for e
    using that by (simp add: refs_def w'_def n_def nth_append)
  have one: "refs e w' = 1" if "e = 2 * n \<or> e = 2 * n + 1" for e
    using that by (auto simp: refs_def w'_def n_def nth_append pipe_of_def make_pipe_def)
  have "refs e w' = held_refs e ?t2 + c e" if "pipe_of e < Suc n" for e
  proof (cases "pipe_of e < n")
    case True
    then have "e \<noteq> 2 * n" "e \<noteq> 2 * n + 1" by (auto simp: pipe_of_def)
    then show ?thesis using True old h assms(1) by (simp add: refs_ok_def n_def)
  next
    case False
    then show ?thesis using that e one h new by auto
  qed
  moreover have "pipe_of e < Suc n" if "Some (PipeFile e) \<in> set ?t2" for e
  proof (rule ccontr)
    assume "\<not> pipe_of e < Suc n"
    then have "held_refs e ?t2 = 0" using h [of e] new [of e] e [of e] by auto
    then show False using that unfolding held_refs_def by (simp add: count_list_0_iff)
  qed
  moreover have "length (fw_pipes w') = Suc n" by (simp add: w'_def n_def)
  ultimately show ?thesis using new by (auto simp: refs_ok_def)
qed

lemma fd_inv_pipe:
  assumes "fd_inv c t k w" "sys_pipe (k, w) = Inr (r, p, k', w')"
  shows "fd_inv c t k' w'"
proof -
  let ?n = "length (fw_pipes w)" and ?w = "w\<lparr> fw_pipes := fw_pipes w @ [snd (snd make_pipe)] \<rparr>"
  let ?R = "Some (PipeFile (2 * ?n))" and ?W = "Some (PipeFile (2 * ?n + 1))"
  have t: "current_task k = Some t" "t < length (k_tasks k)" "refs_ok c (table_of t k) w" using assms(1) by (simp_all add: fd_inv_def)
  obtain r1 k1 w1 r2 where i: "install_fd t (PipeFile (2 * ?n)) (k, ?w) = Inr (r1, k1, w1)"
      "install_fd t (PipeFile (2 * ?n + 1)) (k1, w1) = Inr (r2, k', w')"
    using assms(2) t(1) unfolding sys_pipe_def prod.case Let_def by (auto simp: unwrapR_def bindR_eq_Inr)
  obtain a tbl where a: "a < length tbl" "tbl ! a = None" "w1 = ?w" "k1 = put_table t (tbl[a := ?R]) k"
      "tbl = table_of t k \<or> tbl = table_of t k @ [None]"
    by (rule install_fd_alloc [OF i(1)])
  have tk1: "table_of t k1 = tbl[a := ?R]" using a(4) t(2) by simp
  obtain b tbl2 where b0: "b < length tbl2" "tbl2 ! b = None" "w' = w1" "k' = put_table t (tbl2[b := ?W]) k1"
      "tbl2 = table_of t k1 \<or> tbl2 = table_of t k1 @ [None]"
    by (rule install_fd_alloc [OF i(2)])
  have b: "b < length tbl2" "tbl2 ! b = None" "w' = ?w" "k' = put_table t (tbl2[b := ?W]) k"
      "tbl2 = tbl[a := ?R] \<or> tbl2 = tbl[a := ?R] @ [None]"
    using b0 a(3,4) t(2) unfolding tk1 by simp_all
  obtain T where T: "tbl2 = T[a := ?R]" "refs_ok c T w" "a < length T" "T ! a = None"
  proof (cases "tbl2 = tbl[a := ?R]")
    case True
    then show ?thesis using that [of tbl] a t(3) by auto
  next
    case False
    then have "tbl2 = (tbl @ [None])[a := ?R]" using b(5) a(1) by (simp add: list_update_append)
    then show ?thesis using that [of "tbl @ [None]"] a t(3) by (auto simp: nth_append)
  qed
  have ab: "a \<noteq> b" using b(1,2) T(1) by auto
  then have Tb: "b < length T" "T ! b = None" using b(1,2) T(1) by auto
  have "refs_ok c (tbl2[b := ?W]) ?w"
    using refs_new_pipe [OF T(2,3) Tb(1) ab T(4) Tb(2)] T(1) by simp
  then show ?thesis using fd_inv_put [OF assms(1)] b(3,4) by simp
qed

lemma fd_inv_step:
  assumes "fd_step x (k, w) (k', w')" "fd_inv c t k w"
  shows "fd_inv c t k' w'"
  using assms(1)
proof (cases rule: fd_step.cases)
  case (closes fd r)
  then show ?thesis using fd_inv_close [OF assms(2)] by blast
next
  case (dups fd r)
  then show ?thesis using fd_inv_dup [OF assms(2)] assms(2) by (auto simp: sys_dup_def unwrapR_def fd_inv_def split: option.splits)
next
  case (dup3s fd new_fd r)
  then show ?thesis using fd_inv_dup3 [OF assms(2)] by blast
next
  case (fcntls fd cmd arg r)
  then show ?thesis
    using fd_inv_dup [OF assms(2)] assms(2) by (auto simp: sys_fcntl_def unwrapR_def fd_inv_def split: option.splits if_splits)
next
  case (pipes r p)
  then show ?thesis using fd_inv_pipe [OF assms(2)] by blast
next
  case (opens load dirfd path flags r)
  then show ?thesis using fd_inv_openat [OF assms(2)] by blast
qed

lemma fd_inv_steps:
  assumes "(fd_step x)\<^sup>*\<^sup>* s s'" "fd_inv c t (fst s) (snd s)"
  shows "fd_inv c t (fst s') (snd s')"
  using assms
proof (induction rule: rtranclp_induct)
  case (step y z)
  then show ?case using fd_inv_step [of x "fst y" "snd y" "fst z" "snd z"] by simp
qed

section \<open>Properties\<close>

text \<open>C15. A descriptor table behaves as a finite map from numbers to files.  A call on a number
  that is not in the map returns \<^verbatim>\<open>EBADF\<close> and changes nothing.  Otherwise \<^verbatim>\<open>close\<close> removes the
  number, \<^verbatim>\<open>dup\<close> and \<^verbatim>\<open>fcntl(F_DUPFD)\<close> enter the same file at the lowest number that is free and
  return it, and \<^verbatim>\<open>dup3\<close> enters it at the number asked for; only the caller's table changes.\<close>

theorem fd_table_refines:
  assumes "current_task k = Some t" "t < length (k_tasks k)"
  shows "case fd_map (table_of t k) (unat fd) of
      None \<Rightarrow>
        sys_close fd (k, w) = Inr (EBADF, k, w) \<and> sys_dup fd (k, w) = Inr (EBADF, k, w) \<and>
        sys_fcntl fd cmd arg (k, w) = Inr (EBADF, k, w) \<and> sys_dup3 fd new_fd (k, w) = Inr (EBADF, k, w)
    | Some f \<Rightarrow>
        (\<exists>k'. sys_close fd (k, w) = Inr (0, k', file_drop f w) \<and>
           sets_fds t ((fd_map (table_of t k))(unat fd := None)) k k') \<and>
        (\<exists>k'. sys_dup fd (k, w) = Inr (of_nat (lowest_free (fd_map (table_of t k))), k', file_clone f w) \<and>
           sys_fcntl fd F_DUPFD arg (k, w) = sys_dup fd (k, w) \<and>
           sets_fds t ((fd_map (table_of t k))(lowest_free (fd_map (table_of t k)) \<mapsto> f)) k k') \<and>
        (\<exists>k' w'. sys_dup3 fd new_fd (k, w) = Inr (new_fd, k', w') \<and>
           sets_fds t ((fd_map (table_of t k))(unat new_fd \<mapsto> f)) k k')"
proof (cases "fd_map (table_of t k) (unat fd)")
  case None
  then show ?thesis
    using assms(1) by (simp add: sys_close_def sys_dup_def sys_fcntl_def sys_dup3_def fd_get_map unwrapR_def)
next
  case (Some f)
  have i: "unat fd < length (table_of t k)" using Some by (simp add: fd_map_def split: if_splits)
  have "sys_close fd (k, w) = Inr (0, put_table t ((table_of t k)[unat fd := None]) k, file_drop f w)"
    using assms(1) Some by (simp add: sys_close_def fd_get_map unwrapR_def)
  moreover have "sets_fds t ((fd_map (table_of t k))(unat fd := None)) k (put_table t ((table_of t k)[unat fd := None]) k)"
    using sets_fds_put [OF assms(2), of "(table_of t k)[unat fd := None]"] i by simp
  moreover have "sys_dup fd (k, w) = install_fd t f (k, file_clone f w)" "sys_fcntl fd F_DUPFD arg (k, w) = sys_dup fd (k, w)"
    using assms(1) Some by (simp_all add: sys_dup_def sys_fcntl_def fd_get_map unwrapR_def)
  ultimately show ?thesis
    using Some install_fd_spec [OF assms(2), of f "file_clone f w"] sys_dup3_spec [OF assms Some, of new_fd w] by auto
qed

text \<open>The parameters at an example: an ext4 file system without files, a silent console and no other
  tasks.\<close>

definition example_ext4 :: "unit ext4_rs" where
  "example_ext4 = \<lparr>
     ext4_open_from = (\<lambda>_ _ e. Some (Inr (None, e))), ext4_file_remove = (\<lambda>_ _ e. Some (Inr (False, e))),
     ext4_dir_mk = (\<lambda>_ _ e. Some (Inr (False, e))), ext4_dir_remove = (\<lambda>_ _ e. Some (Inr (False, e))),
     ext4_file_read = (\<lambda>_ buf e. Some (Inr ((0, buf), e))), ext4_file_write = (\<lambda>_ _ _ e. Some (Inr ((), e))),
     ext4_inode_size = (\<lambda>_ e. Some (Inr (0, e))) \<rparr>"

definition example_io :: io_env where
  "example_io = \<lparr> io_getchar = (\<lambda>_. 0), io_others = id, io_sum = (\<lambda>_. False), io_active = (\<lambda>_. None) \<rparr>"

definition example_world :: "unit FileWorld" where
  "example_world = \<lparr> fw_pipes = [], fw_console = [], fw_fat = [],
     fw_blocks = BlockCacheManager_new (\<lambda>_. replicate 512 0), fw_ext4 = [\<lparr> e_ino = 2, e_fpos = 0 \<rparr>], fw_disk = () \<rparr>"

lemma example_running_task:
  "current_task example_running = Some 0" "length (k_tasks example_running) = 1"
  "table_of 0 example_running = [Some Stdin, Some Stdout, Some Stdout]"
  by (simp_all add: current_task_def example_running_current example_running_def example_boot_def run_tasks_turn_def fetch_task_def tm_fetch_def
      tm_add_def TaskManager_new_def upd_task_def example_tcb_def init_fd_table_def)

theorem fd_table_refines_witness:
  "\<exists>k'. sys_dup 1 (example_running, example_world) = Inr (3, k', example_world) \<and>
     fd_map (table_of 0 k') 3 = Some Stdout"
proof -
  let ?m = "fd_map (table_of 0 example_running)"
  have m: "?m (unat (1 :: usize)) = Some Stdout" by (simp add: fd_map_def example_running_task)
  have l: "lowest_free ?m = 3"
    unfolding lowest_free_def example_running_task
    by (rule Least_equality) (auto simp: fd_map_def nth_Cons split: nat.splits if_splits)
  show ?thesis
    using fd_table_refines [of example_running 0 1 example_world 0 0 0] m l example_running_task(1,2)
    by (auto simp: file_clone_def sets_fds_def)
qed

text \<open>C5. The reference counts of pipe ends follow the descriptors.  Whatever sequence of open, close,
  dup, dup3, fcntl and pipe calls a task makes, each end of each pipe is counted once for every
  descriptor of the task that refers to it and once for every reference other tasks hold, and no
  descriptor refers to a pipe that does not exist.  So the read end of a pipe made by the task sees
  the end of file exactly when the task has closed every descriptor of the write end.\<close>

theorem pipe_references:
  assumes "current_task k = Some t" "t < length (k_tasks k)" "refs_ok c (table_of t k) w"
    "(fd_step x)\<^sup>*\<^sup>* (k, w) (k', w')"
  shows "refs_ok c (table_of t k') w' \<and>
    (\<forall>i. length (fw_pipes w) \<le> i \<and> i < length (fw_pipes w') \<longrightarrow>
       (pw_strong (fw_pipes w' ! i) Write_end = 0 \<longleftrightarrow> Some (PipeFile (2 * i + 1)) \<notin> set (table_of t k')))"
proof -
  have inv: "refs_ok c (table_of t k') w'"
    using fd_inv_steps [OF assms(4), of c t] assms(1-3) by (simp add: fd_inv_def)
  moreover have "pw_strong (fw_pipes w' ! i) Write_end = 0 \<longleftrightarrow> Some (PipeFile (2 * i + 1)) \<notin> set (table_of t k')"
    if i: "length (fw_pipes w) \<le> i" "i < length (fw_pipes w')" for i
  proof -
    have p: "pipe_of (2 * i + 1) = i" "end_of (2 * i + 1) = Write_end" by (simp_all add: pipe_of_def end_of_def)
    have "c (2 * i + 1) = 0" using assms(3) i(1) p(1) unfolding refs_ok_def by (metis not_le)
    then have "pw_strong (fw_pipes w' ! i) Write_end = held_refs (2 * i + 1) (table_of t k')"
      using inv i(2) p unfolding refs_ok_def refs_def by (metis add.right_neutral)
    then show ?thesis unfolding held_refs_def by (simp add: count_list_0_iff)
  qed
  ultimately show ?thesis by simp
qed

lemma example_refs: "refs_ok (\<lambda>_. 0) (table_of 0 example_running) example_world"
  by (simp add: refs_ok_def example_running_task example_world_def)

theorem pipe_references_witness:
  "\<exists>k' w'. (fd_step example_ext4)\<^sup>*\<^sup>* (example_running, example_world) (k', w') \<and> length (fw_pipes w') = 1 \<and>
     (pw_strong (fw_pipes w' ! 0) Write_end = 0 \<longleftrightarrow> Some (PipeFile 1) \<notin> set (table_of 0 k'))"
proof -
  obtain a b where ab: "pipe_fds (fd_map (table_of 0 example_running)) = (a, b)" by fastforce
  obtain r p k' where s: "sys_pipe (example_running, example_world) =
      Inr (r, p, k', example_world\<lparr> fw_pipes := fw_pipes example_world @ [snd (snd make_pipe)] \<rparr>)"
    using sys_pipe_spec [OF example_running_task(1) _ ab, of example_world] example_running_task(2) by auto
  let ?w = "example_world\<lparr> fw_pipes := fw_pipes example_world @ [snd (snd make_pipe)] \<rparr>"
  have st: "(fd_step example_ext4)\<^sup>*\<^sup>* (example_running, example_world) (k', ?w)"
    using fd_step.pipes [OF s] by (rule r_into_rtranclp)
  have "pw_strong (fw_pipes ?w ! 0) Write_end = 0 \<longleftrightarrow> Some (PipeFile 1) \<notin> set (table_of 0 k')"
    using pipe_references [OF example_running_task(1) _ example_refs st] example_running_task(2) by (simp add: example_world_def)
  then show ?thesis using st by (intro exI [of _ k'] exI [of _ ?w]) (simp add: example_world_def)
qed

lemma length_user_bytes [simp]: "length (user_bytes load buf len) = unat len"
  by (simp add: user_bytes_def)

text \<open>Calls on the descriptors of the \<^term>\<open>i\<close>-th pipe.\<close>

lemma pipe_files [simp]:
  "pipe_of (2 * i) = i" "pipe_of (Suc (2 * i)) = i" "end_of (Suc (2 * i)) = Write_end"
  by (simp_all add: pipe_of_def end_of_def)

text \<open>The bytes that \<^verbatim>\<open>writev\<close> is given: those of its buffers, one after the other.\<close>

definition writev_bytes :: "(usize \<Rightarrow> u8) \<Rightarrow> (usize \<Rightarrow> Iovec) \<Rightarrow> usize \<Rightarrow> nat \<Rightarrow> u8 list" where
  "writev_bytes load iovs iov n =
     concat (map (\<lambda>j. user_bytes load (iov_base (iovs (iov + 16 * of_nat j))) (iov_len (iovs (iov + 16 * of_nat j)))) [0..<n])"

lemma writev_pipe:
  assumes i: "i < length (fw_pipes w)" "pipe_ok (fw_pipes w ! i)" "length (pipe_items (fw_pipes w ! i)) < 3200"
    and n: "length (pipe_items (fw_pipes w ! i)) + length (writev_bytes load iovs iov n) \<le> 3200"
      "\<forall>j < n. iov_len (iovs (iov + 16 * of_nat j)) \<noteq> 0"
  shows "\<exists>p. writev_loop x io load iovs iov (PipeFile (2 * i + 1)) n (0, w) =
      Some (Inr (of_nat (length (writev_bytes load iovs iov n)), w\<lparr> fw_pipes := (fw_pipes w)[i := p] \<rparr>)) \<and>
    pipe_ok p \<and> pipe_items p = pipe_items (fw_pipes w ! i) @ writev_bytes load iovs iov n \<and> pw_strong p = pw_strong (fw_pipes w ! i)"
  using n
proof (induction n)
  case 0
  then show ?case using i(2) by (intro exI [of _ "fw_pipes w ! i"]) (simp add: writev_bytes_def)
next
  case (Suc n)
  let ?v = "iovs (iov + 16 * of_nat n)" and ?bs = "\<lambda>n. writev_bytes load iovs iov n"
  let ?u = "user_bytes load (iov_base ?v) (iov_len ?v)"
  have bs: "?bs (Suc n) = ?bs n @ ?u" by (simp add: writev_bytes_def)
  have "0 < length ?u" using Suc.prems(2) by (simp add: unat_gt_0)
  then have l: "length (pipe_items (fw_pipes w ! i)) + length (?bs n) < 3200" using Suc.prems(1) bs by simp
  then obtain p where p: "writev_loop x io load iovs iov (PipeFile (2 * i + 1)) n (0, w) =
      Some (Inr (of_nat (length (?bs n)), w\<lparr> fw_pipes := (fw_pipes w)[i := p] \<rparr>))"
      "pipe_ok p" "pipe_items p = pipe_items (fw_pipes w ! i) @ ?bs n" "pw_strong p = pw_strong (fw_pipes w ! i)"
    using Suc by auto
  obtain q b where q: "write_turn p \<lparr> wr_buf = ?u, wr_next = 0, wr_already = 0 \<rparr> = Inr (Return (length ?u), q, b)"
      "pipe_ok q" "pipe_items q = pipe_items p @ ?u" "pw_strong q = pw_strong p"
    using write_turn_fits [OF p(2), of ?u] p(3) l Suc.prems(1) bs by auto
  have "write_loop_held p \<lparr> wr_buf = ?u, wr_next = 0, wr_already = 0 \<rparr> = Some (Inr (length ?u, q, b))"
    using q(1) by (subst write_loop_held.simps) simp
  then show ?case
    using p q i(1) by (intro exI [of _ q]) (simp add: bs file_write_held_def Let_def)
qed

lemma writev_descriptor:
  assumes "current_task k = Some t" "fd_map (table_of t k) (unat fd) = Some (PipeFile (2 * i + 1))"
    and "i < length (fw_pipes w)" "pipe_ok (fw_pipes w ! i)" "length (pipe_items (fw_pipes w ! i)) < 3200"
    and "length (pipe_items (fw_pipes w ! i)) + length (writev_bytes load iovs iov (unat cnt)) \<le> 3200"
      "\<forall>j < unat cnt. iov_len (iovs (iov + 16 * of_nat j)) \<noteq> 0"
  shows "\<exists>p. sys_writev x io load iovs fd iov cnt (k, w) =
      Some (Inr (of_nat (length (writev_bytes load iovs iov (unat cnt))), w\<lparr> fw_pipes := (fw_pipes w)[i := p] \<rparr>)) \<and>
    pipe_ok p \<and> pipe_items p = pipe_items (fw_pipes w ! i) @ writev_bytes load iovs iov (unat cnt) \<and>
    pw_strong p = pw_strong (fw_pipes w ! i)"
  using writev_pipe [OF assms(3-7), of x io] assms(1,2)
  by (simp add: sys_writev_def fd_get_map unwrapR_def file_writable_def Pipe_writable_def)

lemma read_descriptor:
  assumes "current_task k = Some t" "fd_map (table_of t k) (unat fd) = Some (PipeFile (2 * i))"
    and "quick_read (fw_pipes w ! i) \<lparr> rd_buf = user_bytes load buf len, rd_next = 0, rd_already = 0 \<rparr> (j, p, b)"
  shows "sys_read x io load fd buf len (k, w) = Some (Inr ((of_nat j, rd_buf b), w\<lparr> fw_pipes := (fw_pipes w)[i := p] \<rparr>))"
  using assms(1,2) read_loop_user_quick [OF assms(3)]
  by (simp add: sys_read_def fd_get_map unwrapR_def file_readable_def Pipe_readable_def file_read_def Pipe_read_user_def Let_def)

text \<open>\<^verbatim>\<open>write\<close> on a pipe with room panics, whatever is to be written: the kernel may not read the
  caller's buffer any more.\<close>

lemma sys_write_pipe_traps:
  assumes "current_task k = Some t" "fd_map (table_of t k) (unat fd) = Some (PipeFile e)"
    and "pipe_ok (fw_pipes w ! pipe_of e)" "length (pipe_items (fw_pipes w ! pipe_of e)) < 3200" "0 < len"
  shows "sys_write x io load fd buf len (k, w) = Some (Inl user_fault)"
proof -
  have "available_write (pw_ring (fw_pipes w ! pipe_of e)) \<noteq> 0"
    using assms(3,4) available_write_eq by (simp add: pipe_ok_def RING_BUFFER_SIZE_def)
  then show ?thesis
    using assms(1,2,5)
    by (simp add: sys_write_def fd_get_map unwrapR_def file_writable_def Pipe_writable_def file_write_def Pipe_write_user_def
        write_loop_user_traps unat_gt_0 word_neq_0_conv)
qed

lemma close_write_end:
  assumes "current_task k = Some t" "t < length (k_tasks k)" "i < length (fw_pipes w)"
    "fd_map (table_of t k) (unat fd) = Some (PipeFile (2 * i + 1))" "pw_strong (fw_pipes w ! i) Write_end = 1"
  shows "\<exists>k' p. sys_close fd (k, w) = Inr (0, k', w\<lparr> fw_pipes := (fw_pipes w)[i := p] \<rparr>) \<and>
    sets_fds t ((fd_map (table_of t k))(unat fd := None)) k k' \<and> pw_ring p = pw_ring (fw_pipes w ! i) \<and> pw_strong p Write_end = 0"
proof -
  have "unat fd < length (table_of t k)" using assms(4) by (simp add: fd_map_def split: if_splits)
  then have "sets_fds t ((fd_map (table_of t k))(unat fd := None)) k (put_table t ((table_of t k)[unat fd := None]) k)"
    using sets_fds_put [OF assms(2), of "(table_of t k)[unat fd := None]"] by simp
  then show ?thesis
    using assms by (auto simp: sys_close_def fd_get_map unwrapR_def file_drop_def pipe_count_def Let_def)
qed

lemma pipe_made:
  fixes w :: "'e FileWorld"
  defines "i \<equiv> length (fw_pipes w)"
  assumes k: "current_task k = Some t" "t < length (k_tasks k)" "length (table_of t k) < 2 ^ 31"
  shows "\<exists>rfd wfd :: u32. \<exists>k1 w1. sys_pipe (k, w) = Inr (0, (rfd, wfd), k1, w1) \<and> rfd \<noteq> wfd \<and>
    current_task k1 = Some t \<and> t < length (k_tasks k1) \<and>
    fd_map (table_of t k1) (unat (ucast rfd :: usize)) = Some (PipeFile (2 * i)) \<and>
    fd_map (table_of t k1) (unat (ucast wfd :: usize)) = Some (PipeFile (2 * i + 1)) \<and>
    i < length (fw_pipes w1) \<and> pipe_ok (fw_pipes w1 ! i) \<and> pipe_items (fw_pipes w1 ! i) = [] \<and>
    pw_strong (fw_pipes w1 ! i) Write_end = 1"
proof -
  let ?m = "fd_map (table_of t k)" and ?p0 = "snd (snd make_pipe)"
  obtain a b where ab: "pipe_fds ?m = (a, b)" by fastforce
  note bd = pipe_fds_bounds [OF ab]
  define rfd wfd :: u32 where fd: "rfd = ucast (of_nat a :: usize)" "wfd = ucast (of_nat b :: usize)"
  have u: "unat (ucast rfd :: usize) = a" "unat (ucast wfd :: usize) = b"
    using unat_fd_u32 [of a] unat_fd_u32 [of b] bd(2,3) k(3) unfolding fd by simp_all
  then have ne: "rfd \<noteq> wfd" using bd(1) by auto
  define w1 where "w1 = w\<lparr> fw_pipes := fw_pipes w @ [?p0] \<rparr>"
  obtain k1 where k1: "sys_pipe (k, w) = Inr (0, (rfd, wfd), k1, w1)"
      "sets_fds t (?m(a \<mapsto> PipeFile (2 * i), b \<mapsto> PipeFile (2 * i + 1))) k k1"
    using sys_pipe_spec [OF k(1,2) ab, of w] by (auto simp: fd w1_def i_def)
  have "fw_pipes w1 ! i = ?p0" "i < length (fw_pipes w1)" "pipe_ok ?p0" "pipe_items ?p0 = []" "pw_strong ?p0 Write_end = 1"
    using make_pipe_ok [of "fst make_pipe" "fst (snd make_pipe)" ?p0] by (simp_all add: w1_def i_def) (simp add: make_pipe_def)
  then show ?thesis
    using k1(1) ne sets_fdsD [OF k1(2)] k u bd(1) by (intro exI [of _ rfd] exI [of _ wfd] exI [of _ k1] exI [of _ w1]) simp
qed

lemma pipe_write_read:
  fixes load :: "usize \<Rightarrow> u8"
  assumes k: "current_task k = Some t" "fd_map (table_of t k) (unat rfd) = Some (PipeFile (2 * i))"
      "fd_map (table_of t k) (unat wfd) = Some (PipeFile (2 * i + 1))"
    and w: "i < length (fw_pipes w)" "pipe_ok (fw_pipes w ! i)" "pipe_items (fw_pipes w ! i) = []"
    and iov: "\<forall>j < unat cnt. iov_len (iovs (iov + 16 * of_nat j)) \<noteq> 0"
  defines "bs \<equiv> writev_bytes load iovs iov (unat cnt)"
  assumes len: "bs \<noteq> []" "length bs \<le> 3200" "unat n \<le> length bs"
  shows "\<exists>w2 w3. sys_writev x io load iovs wfd iov cnt (k, w) = Some (Inr (of_nat (length bs), w2)) \<and>
    sys_read x io load rfd rbuf n (k, w2) = Some (Inr ((n, take (unat n) bs), w3)) \<and>
    i < length (fw_pipes w3) \<and> pipe_ok (fw_pipes w3 ! i) \<and> pipe_items (fw_pipes w3 ! i) = drop (unat n) bs \<and>
    pw_strong (fw_pipes w3 ! i) = pw_strong (fw_pipes w ! i)"
proof -
  obtain p2 where p2: "sys_writev x io load iovs wfd iov cnt (k, w) = Some (Inr (of_nat (length bs), w\<lparr> fw_pipes := (fw_pipes w)[i := p2] \<rparr>))"
      "pipe_ok p2" "pipe_items p2 = bs" "pw_strong p2 = pw_strong (fw_pipes w ! i)"
    using writev_descriptor [OF k(1,3) w(1,2), of load iovs iov cnt x io] w(3) len(2) iov unfolding bs_def by auto
  define w2 where "w2 = w\<lparr> fw_pipes := (fw_pipes w)[i := p2] \<rparr>"
  have l2: "pipe_items p2 \<noteq> []" "length (user_bytes load rbuf n) \<le> length (pipe_items p2)"
    using len p2(3) by auto
  obtain p3 b where p3: "quick_read p2 \<lparr> rd_buf = user_bytes load rbuf n, rd_next = 0, rd_already = 0 \<rparr> (unat n, p3, b)"
      "rd_buf b = take (unat n) bs" "pipe_ok p3" "pipe_items p3 = drop (unat n) bs" "pw_strong p3 = pw_strong p2"
    using quick_read_ready [OF p2(2) l2] p2(3) by auto
  have "sys_read x io load rfd rbuf n (k, w2) = Some (Inr ((n, take (unat n) bs), w2\<lparr> fw_pipes := (fw_pipes w2)[i := p3] \<rparr>))"
    using read_descriptor [OF k(1,2), of w2 load rbuf n "unat n" p3 b x io] p3(1,2) w(1) by (simp add: w2_def)
  then show ?thesis
    using p2 p3 w(1) by (intro exI [of _ w2] exI [of _ "w2\<lparr> fw_pipes := (fw_pipes w2)[i := p3] \<rparr>"]) (simp add: w2_def)
qed

text \<open>Reading a pipe that has no writers any more.\<close>

lemma closed_read:
  assumes k: "current_task k = Some t" "fd_map (table_of t k) (unat rfd) = Some (PipeFile (2 * i))"
    and w: "i < length (fw_pipes w)" "pipe_ok (fw_pipes w ! i)" "pw_strong (fw_pipes w ! i) Write_end = 0"
  defines "xs \<equiv> pipe_items (fw_pipes w ! i)"
  shows "\<exists>w'. sys_read x io load rfd rbuf m (k, w) =
      Some (Inr ((of_nat (min (unat m) (length xs)), take (unat m) xs @ drop (length xs) (user_bytes load rbuf m)), w')) \<and>
    i < length (fw_pipes w') \<and> pipe_ok (fw_pipes w' ! i) \<and> pw_strong (fw_pipes w' ! i) Write_end = 0 \<and>
    pipe_items (fw_pipes w' ! i) = drop (unat m) xs"
proof -
  obtain p b where p: "quick_read (fw_pipes w ! i) \<lparr> rd_buf = user_bytes load rbuf m, rd_next = 0, rd_already = 0 \<rparr>
      (min (unat m) (length xs), p, b)" "rd_buf b = take (unat m) xs @ drop (length xs) (user_bytes load rbuf m)"
      "pipe_ok p" "pw_strong p = pw_strong (fw_pipes w ! i)" "pipe_items p = drop (unat m) xs"
    using quick_read_closed [OF w(2,3), of "user_bytes load rbuf m"] unfolding xs_def by auto
  show ?thesis
    using read_descriptor [OF k p(1), of x io] p w by (intro exI [of _ "w\<lparr> fw_pipes := (fw_pipes w)[i := p] \<rparr>"]) simp
qed

lemma pipe_close_read:
  assumes k: "current_task k = Some t" "t < length (k_tasks k)" "fd_map (table_of t k) (unat rfd) = Some (PipeFile (2 * i))"
      "fd_map (table_of t k) (unat wfd) = Some (PipeFile (2 * i + 1))"
    and w: "i < length (fw_pipes w)" "pipe_ok (fw_pipes w ! i)" "pw_strong (fw_pipes w ! i) Write_end = 1"
  defines "xs \<equiv> pipe_items (fw_pipes w ! i)"
  shows "\<exists>k2 w4 w5 w6. sys_close wfd (k, w) = Inr (0, k2, w4) \<and>
    sys_read x io load rfd rbuf m (k2, w4) =
      Some (Inr ((of_nat (min (unat m) (length xs)), take (unat m) xs @ drop (length xs) (user_bytes load rbuf m)), w5)) \<and>
    (length xs \<le> unat m \<longrightarrow>
      sys_read x io load rfd rbuf q (k2, w5) = Some (Inr ((0, user_bytes load rbuf q), w6)))"
proof -
  obtain k2 p where c: "sys_close wfd (k, w) = Inr (0, k2, w\<lparr> fw_pipes := (fw_pipes w)[i := p] \<rparr>)"
      "sets_fds t ((fd_map (table_of t k))(unat wfd := None)) k k2" "pw_ring p = pw_ring (fw_pipes w ! i)" "pw_strong p Write_end = 0"
    using close_write_end [OF k(1,2) w(1) k(4) w(3)] by blast
  define w4 where "w4 = w\<lparr> fw_pipes := (fw_pipes w)[i := p] \<rparr>"
  have "unat rfd \<noteq> unat wfd" using k(3,4) by auto
  then have k2: "current_task k2 = Some t" "fd_map (table_of t k2) (unat rfd) = Some (PipeFile (2 * i))"
    using sets_fdsD [OF c(2)] k(1,3) by simp_all
  have p: "i < length (fw_pipes w4)" "pipe_ok (fw_pipes w4 ! i)" "pw_strong (fw_pipes w4 ! i) Write_end = 0" "pipe_items (fw_pipes w4 ! i) = xs"
    using w c(3,4) by (simp_all add: pipe_ok_def xs_def w4_def)
  obtain w5 where r: "sys_read x io load rfd rbuf m (k2, w4) =
      Some (Inr ((of_nat (min (unat m) (length xs)), take (unat m) xs @ drop (length xs) (user_bytes load rbuf m)), w5))"
    and w5: "i < length (fw_pipes w5)" "pipe_ok (fw_pipes w5 ! i)" "pw_strong (fw_pipes w5 ! i) Write_end = 0"
      "pipe_items (fw_pipes w5 ! i) = drop (unat m) xs"
    using closed_read [OF k2 p(1-3), of x io load rbuf m] unfolding p(4) by blast
  obtain w6 where "sys_read x io load rfd rbuf q (k2, w5) = Some (Inr ((of_nat (min (unat q) (length xs - unat m)),
      take (unat q) (drop (unat m) xs) @ drop (length xs - unat m) (user_bytes load rbuf q)), w6))"
    using closed_read [OF k2 w5(1-3), of x io load rbuf q] unfolding w5(4) by auto
  then have "length xs \<le> unat m \<longrightarrow> sys_read x io load rfd rbuf q (k2, w5) = Some (Inr ((0, user_bytes load rbuf q), w6))" by simp
  then show ?thesis using c(1) r unfolding w4_def by blast
qed

text \<open>C16. A pipe through its descriptors, from the call that makes it to the end of file.  \<^verbatim>\<open>pipe\<close>
  gives two different descriptors.  What \<^verbatim>\<open>writev\<close> puts into the second from any number of buffers, none
  of them empty and 3200 bytes together at most, \<^verbatim>\<open>read\<close> takes from the first, oldest bytes first,
  without waiting.  After \<^verbatim>\<open>close\<close> of the second, a \<^verbatim>\<open>read\<close> gives what is left, as far as it fits, and
  leaves the rest of the caller's buffer as it was; once all is read, the next \<^verbatim>\<open>read\<close> returns 0, the end
  of file, and leaves the buffer.  The plain \<^verbatim>\<open>write\<close> cannot be used in place of \<^verbatim>\<open>writev\<close>: on a pipe with
  room it panics for every buffer that is not empty.\<close>

theorem pipe_descriptors:
  fixes load iovs iov cnt
  defines "bs \<equiv> writev_bytes load iovs iov (unat cnt)"
  assumes k: "current_task k = Some t" "t < length (k_tasks k)" "length (table_of t k) < 2 ^ 31"
    and iov: "0 < cnt" "\<forall>j < unat cnt. iov_len (iovs (iov + 16 * of_nat j)) \<noteq> 0" "length bs \<le> 3200"
    and n: "unat n \<le> length bs"
  shows "\<exists>rfd wfd k1 w1 w2 w3 k2 w4 w5 w6.
    sys_pipe (k, w) = Inr (0, (rfd, wfd), k1, w1) \<and> rfd \<noteq> wfd \<and>
    sys_writev x io load iovs (ucast wfd) iov cnt (k1, w1) = Some (Inr (of_nat (length bs), w2)) \<and>
    sys_read x io load (ucast rfd) rbuf n (k1, w2) = Some (Inr ((n, take (unat n) bs), w3)) \<and>
    sys_close (ucast wfd) (k1, w3) = Inr (0, k2, w4) \<and>
    sys_read x io load (ucast rfd) rbuf m (k2, w4) =
      Some (Inr ((of_nat (min (unat m) (length bs - unat n)),
        take (unat m) (drop (unat n) bs) @ drop (length bs - unat n) (user_bytes load rbuf m)), w5)) \<and>
    (length bs - unat n \<le> unat m \<longrightarrow>
      sys_read x io load (ucast rfd) rbuf q (k2, w5) = Some (Inr ((0, user_bytes load rbuf q), w6))) \<and>
    (0 < len \<longrightarrow> sys_write x io load (ucast wfd) buf len (k1, w1) = Some (Inl user_fault))"
proof -
  let ?i = "length (fw_pipes w)"
  obtain rfd wfd :: u32 and k1 w1 where 1: "sys_pipe (k, w) = Inr (0, (rfd, wfd), k1, w1)" "rfd \<noteq> wfd"
      "current_task k1 = Some t" "t < length (k_tasks k1)"
      "fd_map (table_of t k1) (unat (ucast rfd :: usize)) = Some (PipeFile (2 * ?i))"
      "fd_map (table_of t k1) (unat (ucast wfd :: usize)) = Some (PipeFile (2 * ?i + 1))"
      "?i < length (fw_pipes w1)" "pipe_ok (fw_pipes w1 ! ?i)" "pipe_items (fw_pipes w1 ! ?i) = []"
      "pw_strong (fw_pipes w1 ! ?i) Write_end = 1"
    using pipe_made [OF k, of w] by metis
  obtain c where c: "unat cnt = Suc c" using iov(1) by (cases "unat cnt") (auto simp: word_less_nat_alt)
  have "user_bytes load (iov_base (iovs (iov + 16 * of_nat c))) (iov_len (iovs (iov + 16 * of_nat c))) \<noteq> []"
    using iov(2) c length_user_bytes by (metis lessI list.size(3) unat_eq_0)
  then have "bs \<noteq> []" by (simp add: bs_def writev_bytes_def c)
  then obtain w2 w3 where 2: "sys_writev x io load iovs (ucast wfd) iov cnt (k1, w1) = Some (Inr (of_nat (length bs), w2))"
      "sys_read x io load (ucast rfd) rbuf n (k1, w2) = Some (Inr ((n, take (unat n) bs), w3))"
      "?i < length (fw_pipes w3)" "pipe_ok (fw_pipes w3 ! ?i)" "pipe_items (fw_pipes w3 ! ?i) = drop (unat n) bs"
      "pw_strong (fw_pipes w3 ! ?i) = pw_strong (fw_pipes w1 ! ?i)"
    using pipe_write_read [OF 1(3,5-9) iov(2), of load n x io rbuf] iov(3) n unfolding bs_def by blast
  have s: "pw_strong (fw_pipes w3 ! ?i) Write_end = 1" using 2(6) 1(10) by simp
  obtain k2 w4 w5 w6 where 3: "sys_close (ucast wfd) (k1, w3) = Inr (0, k2, w4)"
      "sys_read x io load (ucast rfd) rbuf m (k2, w4) = Some (Inr ((of_nat (min (unat m) (length bs - unat n)),
        take (unat m) (drop (unat n) bs) @ drop (length bs - unat n) (user_bytes load rbuf m)), w5))"
      "length bs - unat n \<le> unat m \<longrightarrow> sys_read x io load (ucast rfd) rbuf q (k2, w5) = Some (Inr ((0, user_bytes load rbuf q), w6))"
    using pipe_close_read [OF 1(3,4,5,6) 2(3,4) s, of x io load rbuf m q] unfolding 2(5) length_drop by blast
  have "0 < len \<longrightarrow> sys_write x io load (ucast wfd) buf len (k1, w1) = Some (Inl user_fault)"
    using sys_write_pipe_traps [OF 1(3,6), of w1 len x io load buf] 1(8,9) by simp
  then show ?thesis using 1(1,2) 2(1,2) 3 by blast
qed

theorem pipe_descriptors_witness:
  "\<exists>rfd wfd k1 w1 w2 w3 k2 w4 w5 w6. sys_pipe (example_running, example_world) = Inr (0, (rfd, wfd), k1, w1) \<and>
    sys_writev example_ext4 example_io (\<lambda>a. ucast a) (\<lambda>a. \<lparr> iov_base = 65 + a, iov_len = 1 \<rparr>) (ucast wfd) 0 2 (k1, w1) = Some (Inr (2, w2)) \<and>
    sys_read example_ext4 example_io (\<lambda>a. ucast a) (ucast rfd) 7 1 (k1, w2) = Some (Inr ((1, [65]), w3)) \<and>
    sys_close (ucast wfd) (k1, w3) = Inr (0, k2, w4) \<and>
    sys_read example_ext4 example_io (\<lambda>a. ucast a) (ucast rfd) 7 2 (k2, w4) = Some (Inr ((1, [81, 8]), w5)) \<and>
    sys_read example_ext4 example_io (\<lambda>a. ucast a) (ucast rfd) 7 1 (k2, w5) = Some (Inr ((0, [7]), w6))"
proof -
  let ?l = "\<lambda>a :: usize. ucast a :: u8" and ?v = "\<lambda>a. \<lparr> iov_base = 65 + a, iov_len = 1 \<rparr>"
  have u: "writev_bytes ?l ?v 0 (unat (2 :: usize)) = [65, 81]" "user_bytes ?l 7 1 = [7]" "user_bytes ?l 7 2 = [7, 8]"
    by (simp_all add: writev_bytes_def user_bytes_def upt_rec)
  have p: "0 < length (k_tasks example_running)" "length (table_of 0 example_running) < 2 ^ 31" "0 < (2 :: usize)"
    "\<forall>j < unat (2 :: usize). iov_len (?v (0 + 16 * of_nat j)) \<noteq> 0" "length (writev_bytes ?l ?v 0 (unat (2 :: usize))) \<le> 3200"
    "unat (1 :: usize) \<le> length (writev_bytes ?l ?v 0 (unat (2 :: usize)))"
    unfolding u by (simp_all add: example_running_task)
  note d = pipe_descriptors [OF example_running_task(1) p, where w = example_world and x = example_ext4 and io = example_io
      and rbuf = 7 and m = 2 and q = 1 and buf = 0 and len = 1, unfolded u]
  have v: "of_nat (length [65, 81 :: u8]) = (2 :: usize)" "take (unat (1 :: usize)) [65, 81 :: u8] = [65]"
    "of_nat (min (unat (2 :: usize)) (length [65, 81 :: u8] - unat (1 :: usize))) = (1 :: usize)"
    "take (unat (2 :: usize)) (drop (unat (1 :: usize)) [65, 81]) @ drop (length [65, 81 :: u8] - unat (1 :: usize)) [7, 8] = [81, 8 :: u8]"
    "length [65, 81 :: u8] - unat (1 :: usize) \<le> unat (2 :: usize)" by simp_all
  from d [unfolded v(1-4)] v(5) show ?thesis by blast
qed

section \<open>The ext4 root\<close>

text \<open>The kernel mounts ext4 at its root, and most of the calls that change a directory are not
  implemented there: opening with \<^verbatim>\<open>O_CREAT\<close> panics once the name has been looked up, found or not;
  so does opening with \<^verbatim>\<open>O_TRUNC\<close> a file that is there, and so do \<^verbatim>\<open>fstat\<close> and \<^verbatim>\<open>openat\<close> on a
  descriptor of an ext4 file.\<close>

lemma Ext4_lookup_ref:
  "Inode_lookup x (Ext4Ref n) name w = Some (Inr (Some d, w1)) \<Longrightarrow> \<exists>m. wd_inode d = Ext4Ref m"
  by (auto simp: Inode_lookup_def Ext4Inode_lookup_def outcome split: option.splits)

lemma open_creat_on_ext4:
  assumes "Inode_lookup x (Ext4Ref n) name w = Some (Inr (found, w1))" "open_contains flags O_CREAT"
  shows "open_file x (Ext4Ref n) name flags w = Some (Inl Todo)"
proof (cases found)
  case None
  then show ?thesis using assms by (simp add: open_file_def Inode_create_def)
next
  case (Some d)
  then show ?thesis using assms Ext4_lookup_ref [of x n name w d w1] by (auto simp: open_file_def Inode_clear_def)
qed

lemma open_trunc_on_ext4:
  assumes "Inode_lookup x (Ext4Ref n) name w = Some (Inr (Some d, w1))" "open_contains flags O_TRUNC"
  shows "open_file x (Ext4Ref n) name flags w = Some (Inl Todo)"
  using assms Ext4_lookup_ref [OF assms(1)] by (auto simp: open_file_def Inode_clear_def)

lemma fd_calls_on_ext4:
  assumes "current_task k = Some t" "fd_map (table_of t k) (unat fd) = Some (InodeFile (Ext4Ref n))"
  shows "sys_fstat fd (k, w) = Some (Inl Todo)"
    "dirfd \<noteq> AT_FDCWD \<Longrightarrow> scast dirfd = fd \<Longrightarrow> sys_openat x load dirfd path flags (k, w) = Some (Inl Unwrap_none)"
    "dirfd \<noteq> AT_FDCWD \<Longrightarrow> scast dirfd = fd \<Longrightarrow> sys_mkdirat64 x root load dirfd path (k, w) = Some (Inl Todo)"
  using assms
  by (simp_all add: sys_fstat_def sys_openat_def sys_mkdirat64_def fd_get_map unwrapR_def file_fstat_def file_is_dir_def
      cast_file_to_inode_def Let_def)

text \<open>\<^verbatim>\<open>mkdirat\<close> on the ext4 root never makes a directory: if the name is there it returns an error,
  and if not it panics.\<close>

lemma mkdirat_on_ext4:
  assumes "current_task k = Some t" "c_ptr_to_string load path = Some name"
    "Inode_lookup x (Ext4Ref n) name w = Some (Inr (found, w1))"
    "Inode_lookup x (Ext4Ref n) name w1 = Some (Inr (found', w2))"
  shows "sys_mkdirat64 x (Ext4Ref n) load AT_FDCWD path (k, w) =
    (if found = None then Some (Inl Todo) else Some (Inr (- 1, k, w1)))"
proof -
  have "open_file x (Ext4Ref n) name O_RDONLY w = Some (Inr (found, w1))"
    using assms(3) by (simp add: open_file_def open_contains_def open_flag_defs split: option.splits)
  moreover have "open_file x (Ext4Ref n) name (O_DIRECTORY OR O_CREAT) w1 = Some (Inl Todo)"
    by (rule open_creat_on_ext4 [OF assms(4)]) (simp add: open_contains_def open_flag_defs)
  ultimately show ?thesis using assms(1,2) by (simp add: sys_mkdirat64_def unwrapR_def Let_def)
qed

text \<open>\<^verbatim>\<open>chdir\<close> to a name that does not exist panics.\<close>

lemma chdir_missing:
  assumes "current_user_token k = Inr token" "translated_str load token path = Some (Inr name)" "current_task k = Some t"
    "Inode_lookup x (wd_inode (t_work_dir (task k t))) name w = Some (Inr (None, w1))"
  shows "sys_chdir x load path (k, w) = Some (Inl Unwrap_none)"
  using assms by (simp add: sys_chdir_def open_file_def open_contains_def open_flag_defs unwrapR_def)

text \<open>What is written to an ext4 file goes to the inode number 0, whatever the file is.\<close>

lemma ext4_write_ignores_inode:
  assumes "ext4_inode_size x (e_ino (fw_ext4 w ! n)) (fw_disk w) = Some (Inr (sz, e1))"
  shows "file_write x io k (InodeFile (Ext4Ref n)) buf w =
    bindO (ext4_file_write x (k \<noteq> User_buf False) \<lparr> ef_inode = 0, ef_fsize = sz, ef_fpos = 0 \<rparr> buf e1) (\<lambda>(_, e2).
      Some (Inr (of_nat (length buf), w\<lparr> fw_disk := e2 \<rparr>)))"
  using assms by (simp add: file_write_def Ext4Inode_write_def Ext4Inode_write_at_def Ext4File_new_def)

text \<open>Bytes that are not UTF-8 on the standard output panic, as in the simplest case of one byte from
  128 up.\<close>

lemma stdout_not_utf8: "0x80 \<le> b \<Longrightarrow> Stdout_write [b] w = Inl Unwrap_none"
  by (simp add: Stdout_write_def word_le_nat_alt word_less_nat_alt)

end
