(* ===== verification/Bit_Set.thy ===== *)
theory Bit_Set
  imports Prelude
begin

text \<open>
  Sets of small numbers kept as arrays of words: the interface that the descriptor sets of
  \<^verbatim>\<open>os/src/syscall/ppoll.rs\<close> and the bitmaps of \<^verbatim>\<open>ext4_rs\<close> share, and the facts on single bits that
  both rest on.
\<close>

unbundle bit_operations_syntax

section \<open>The interface\<close>

locale bit_set =
  fixes is_set :: "nat \<Rightarrow> 's \<Rightarrow> bool res"
    and ins :: "nat \<Rightarrow> 's \<Rightarrow> 's res"
    and del :: "nat \<Rightarrow> 's \<Rightarrow> 's res"
    and members :: "'s \<Rightarrow> nat set"
    and cap :: "'s \<Rightarrow> nat"
    and ok :: "'s \<Rightarrow> bool"
  assumes is_set_in: "ok s \<Longrightarrow> i < cap s \<Longrightarrow> is_set i s = Inr (i \<in> members s)"
    and ins_in: "ok s \<Longrightarrow> i < cap s \<Longrightarrow> \<exists>s'. ins i s = Inr s' \<and> ok s' \<and> members s' = insert i (members s) \<and> cap s' = cap s"
    and del_in: "ok s \<Longrightarrow> i < cap s \<Longrightarrow> \<exists>s'. del i s = Inr s' \<and> ok s' \<and> members s' = members s - {i} \<and> cap s' = cap s"
    and out: "ok s \<Longrightarrow> cap s \<le> i \<Longrightarrow> i < 2 ^ 32 \<Longrightarrow>
        is_set i s = Inl Index_out_of_bounds \<and> ins i s = Inl Index_out_of_bounds \<and> del i s = Inl Index_out_of_bounds"
    and bounded: "members s \<subseteq> {..<cap s}"
begin

lemma ins_del:
  assumes "ok s" "i < cap s"
  shows "\<exists>s' s''. ins i s = Inr s' \<and> del i s' = Inr s'' \<and> is_set i s' = Inr True \<and> is_set i s'' = Inr False \<and> members s'' = members s - {i}"
proof -
  obtain s' where s': "ins i s = Inr s'" "ok s'" "members s' = insert i (members s)" "cap s' = cap s" using ins_in [OF assms] by blast
  obtain s'' where "del i s' = Inr s''" "ok s''" "members s'' = members s' - {i}" "cap s'' = cap s"
    using del_in [of s' i] assms s'(2,4) by auto
  then show ?thesis using s' is_set_in [of s' i] is_set_in [of s'' i] assms by auto
qed

lemma del_list:
  assumes "ok s" "\<forall>i \<in> set is. i < cap s"
  shows "\<exists>s'. foldR del is s = Inr s' \<and> ok s' \<and> members s' = members s - set is \<and> cap s' = cap s"
  using assms
proof (induction "is" arbitrary: s)
  case (Cons i "is")
  obtain s1 where s1: "del i s = Inr s1" "ok s1" "members s1 = members s - {i}" "cap s1 = cap s"
    using del_in [of s i] Cons.prems by auto
  then show ?case using Cons.IH [of s1] Cons.prems by auto
qed simp

text \<open>The loop that collects the members.\<close>

lemma collect:
  assumes "ok s" "n \<le> cap s"
  shows "foldR (\<lambda>i v. bindR (is_set i s) (\<lambda>b. Inr (if b then v @ [f i] else v))) [0..<n] [] =
    Inr (map f (filter (\<lambda>i. i \<in> members s) [0..<n]))"
  using assms(2)
proof (induction n)
  case (Suc n)
  then show ?case using is_set_in [OF assms(1), of n] by (simp add: foldR_append)
qed simp

lemma collect_all: "set (filter (\<lambda>i. i \<in> members s) [0..<cap s]) = members s"
  using bounded [of s] by auto

lemma card_members: "card (members s) = length (filter (\<lambda>i. i \<in> members s) [0..<cap s])"
  using distinct_card [of "filter (\<lambda>i. i \<in> members s) [0..<cap s]"] collect_all by simp

end

section \<open>Arrays of words\<close>

definition bits_of :: "'a :: len word list \<Rightarrow> nat set" where
  "bits_of ws = {i. i < LENGTH('a) * length ws \<and> bit (ws ! (i div LENGTH('a))) (i mod LENGTH('a))}"

lemma bits_index:
  fixes ws :: "'a :: len word list"
  assumes "i < LENGTH('a) * length ws"
  shows "i div LENGTH('a) < length ws"
  using assms by (simp add: less_mult_imp_div_less mult.commute)

lemma bits_of_update:
  fixes ws :: "'a :: len word list"
  assumes "i < LENGTH('a) * length ws" "\<And>j. j < LENGTH('a) \<Longrightarrow> bit x j = (if j = i mod LENGTH('a) then b else bit (ws ! (i div LENGTH('a))) j)"
  shows "bits_of (ws[i div LENGTH('a) := x]) = (if b then insert i (bits_of ws) else bits_of ws - {i})"
proof -
  have eq: "j = i" if "j div LENGTH('a) = i div LENGTH('a)" "j mod LENGTH('a) = i mod LENGTH('a)" for j
    using that by (metis div_mult_mod_eq)
  have "j \<in> bits_of (ws[i div LENGTH('a) := x]) \<longleftrightarrow> j < LENGTH('a) * length ws \<and> (if j = i then b else j \<in> bits_of ws)" for j
    using assms(1) bits_index [OF assms(1)] assms(2) [of "j mod LENGTH('a)"] eq [of j]
    by (cases "j div LENGTH('a) = i div LENGTH('a)") (auto simp: bits_of_def nth_list_update)
  then show ?thesis using assms(1) by (auto simp: bits_of_def)
qed

lemma bits_of_set:
  fixes ws :: "'a :: len word list"
  assumes "i < LENGTH('a) * length ws"
  shows "bits_of (ws[i div LENGTH('a) := ws ! (i div LENGTH('a)) OR push_bit (i mod LENGTH('a)) 1]) = insert i (bits_of ws)"
  using bits_of_update [OF assms, of "ws ! (i div LENGTH('a)) OR push_bit (i mod LENGTH('a)) 1" True]
  by (auto simp: bit_simps)

lemma bits_of_clr:
  fixes ws :: "'a :: len word list"
  assumes "i < LENGTH('a) * length ws"
  shows "bits_of (ws[i div LENGTH('a) := ws ! (i div LENGTH('a)) AND NOT (push_bit (i mod LENGTH('a)) 1)]) = bits_of ws - {i}"
  using bits_of_update [OF assms, of "ws ! (i div LENGTH('a)) AND NOT (push_bit (i mod LENGTH('a)) 1)" False]
  by (auto simp: bit_simps)

lemma bits_of_test:
  fixes ws :: "'a :: len word list"
  assumes "i < LENGTH('a) * length ws"
  shows "push_bit (i mod LENGTH('a)) 1 AND ws ! (i div LENGTH('a)) \<noteq> 0 \<longleftrightarrow> i \<in> bits_of ws"
proof -
  have "push_bit (i mod LENGTH('a)) 1 AND ws ! (i div LENGTH('a)) \<noteq> 0 \<longleftrightarrow> bit (ws ! (i div LENGTH('a))) (i mod LENGTH('a))"
    unfolding bit_eq_iff [of "push_bit _ _ AND _"] by (auto simp: bit_simps)
  then show ?thesis using assms by (simp add: bits_of_def)
qed

lemma bits_of_bounded: "bits_of (ws :: 'a :: len word list) \<subseteq> {..<LENGTH('a) * length ws}"
  by (auto simp: bits_of_def)

lemma bits_of_Cons:
  fixes x :: "'a :: len word"
  shows "bits_of (x # ws) = {i. i < LENGTH('a) \<and> bit x i} \<union> (+) LENGTH('a) ` bits_of ws"
proof -
  have "i \<in> bits_of (x # ws) \<longleftrightarrow> i < LENGTH('a) \<and> bit x i \<or> (\<exists>j \<in> bits_of ws. i = LENGTH('a) + j)" for i
  proof (cases "i < LENGTH('a)")
    case True
    then show ?thesis by (auto simp: bits_of_def)
  next
    case False
    then obtain j where "i = LENGTH('a) + j" using le_Suc_ex by (metis not_less)
    then show ?thesis by (auto simp: bits_of_def div_add_self1)
  qed
  then show ?thesis by blast
qed

lemma card_bits_of:
  fixes ws :: "'a :: len word list"
  shows "card (bits_of ws) = sum_list (map (\<lambda>x. length (filter (bit x) [0..<LENGTH('a)])) ws)"
proof (induction ws)
  case Nil
  then show ?case by (simp add: bits_of_def)
next
  case (Cons x ws)
  have "{i. i < LENGTH('a) \<and> bit x i} = set (filter (bit x) [0..<LENGTH('a)])" by auto
  then have "card {i. i < LENGTH('a) \<and> bit x i} = length (filter (bit x) [0..<LENGTH('a)])"
    by (metis distinct_card distinct_filter distinct_upt)
  moreover have "finite (bits_of ws)" using bits_of_bounded [of ws] finite_subset by blast
  moreover have "{i. i < LENGTH('a) \<and> bit x i} \<inter> (+) LENGTH('a) ` bits_of ws = {}" by auto
  ultimately show ?case
    unfolding bits_of_Cons using Cons by (simp add: card_Un_disjoint card_image)
qed

end
