(* ===== verification/Poll.thy ===== *)
theory Poll
  imports File_Table Bit_Set
begin

text \<open>
  Waiting for descriptors: \<^verbatim>\<open>os/src/syscall/ppoll.rs\<close>.  The array of \<^verbatim>\<open>PollFd\<close> in user memory is a store
  from addresses to entries of eight bytes; \<^verbatim>\<open>others n\<close> is what the rest of the system does while the
  caller is suspended for the \<^verbatim>\<open>n\<close>-th time.  The calls do not set the bit SUM; user memory is taken to be
  accessible.
\<close>

unbundle bit_operations_syntax

section \<open>ppoll\<close>

record PollFd =
  pf_fd :: u32
  pf_events :: u16
  pf_revents :: u16

definition POLLIN :: u16 where "POLLIN = 0x001"
definition POLLOUT :: u16 where "POLLOUT = 0x004"
definition POLLHUP :: u16 where "POLLHUP = 0x010"

definition poll_contains :: "u16 \<Rightarrow> u16 \<Rightarrow> bool" where
  "poll_contains e f \<longleftrightarrow> e AND f = f"

definition poll_file :: "File \<Rightarrow> 'e FileWorld \<Rightarrow> PollFd \<Rightarrow> (usize \<times> PollFd) res" where
  "poll_file f w p =
     bindR (file_hang_up f w) (\<lambda>hup.
       let input = poll_contains (pf_events p) POLLIN \<and> file_r_ready f w;
           output = poll_contains (pf_events p) POLLOUT \<and> file_w_ready f w;
           r1 = (if hup then pf_revents p OR POLLHUP else pf_revents p);
           r2 = (if input then r1 OR POLLIN else r1);
           r3 = (if output then r2 OR POLLOUT else r2)
       in Inr (if hup \<or> input \<or> output then 1 else 0, p\<lparr> pf_revents := r3 \<rparr>))"

definition poll_entry ::
  "fd_table \<Rightarrow> 'e FileWorld \<Rightarrow> usize \<Rightarrow> usize \<times> (usize \<Rightarrow> PollFd) \<Rightarrow> (usize \<times> (usize \<Rightarrow> PollFd)) res" where
  "poll_entry tbl w a = (\<lambda>(done', umem).
     if a = 0 then Inl Unwrap_none
     else
       bindR (nthR tbl (unat (pf_fd (umem a)))) (\<lambda>entry.
         case entry of
           None \<Rightarrow> Inr (done', umem)
         | Some f \<Rightarrow> bindR (poll_file f w (umem a)) (\<lambda>(trigger, p). Inr (done' + trigger, umem(a := p)))))"

definition poll_scan ::
  "fd_table \<Rightarrow> 'e FileWorld \<Rightarrow> usize \<Rightarrow> usize \<Rightarrow> usize \<times> (usize \<Rightarrow> PollFd) \<Rightarrow> (usize \<times> (usize \<Rightarrow> PollFd)) res" where
  "poll_scan tbl w fds nfds s = foldR (\<lambda>i. poll_entry tbl w (fds + 8 * of_nat i)) [0..<unat nfds] s"

text \<open>The number of events starts at zero, and every pass adds one to it for itself.\<close>

partial_function (option) ppoll_loop ::
  "(nat \<Rightarrow> 'e sys \<Rightarrow> 'e sys) \<Rightarrow> usize \<Rightarrow> usize \<Rightarrow> nat \<Rightarrow> usize \<times> (usize \<Rightarrow> PollFd) \<Rightarrow> 'e sys \<Rightarrow>
     (usize \<times> (usize \<Rightarrow> PollFd) \<times> 'e sys) res option" where
  "ppoll_loop others fds nfds n x s =
     (case s of (k, w) \<Rightarrow>
       bindO (Some (unwrapR (current_task k))) (\<lambda>t.
       bindO (Some (poll_scan (table_of t k) w fds nfds x)) (\<lambda>(done', umem).
         if 0 <s done' + 1 then Some (Inr (done' + 1, umem, k, w))
         else
           bindO (Some (suspend_current_and_run_next k)) (\<lambda>k'.
             ppoll_loop others fds nfds (Suc n) (done' + 1, umem) (others n (k', w))))))"

text \<open>The mask of the caller is kept at \<^term>\<open>raw\<close>, an address of the kernel's heap, while the call runs
  with the mask it was given.\<close>

definition sys_ppoll ::
  "(nat \<Rightarrow> 'e sys \<Rightarrow> 'e sys) \<Rightarrow> usize \<Rightarrow> usize \<Rightarrow> usize \<Rightarrow> usize \<Rightarrow> usize \<Rightarrow> (usize \<Rightarrow> usize) \<Rightarrow> (usize \<Rightarrow> PollFd) \<Rightarrow>
     'e sys \<Rightarrow> (usize \<times> (usize \<Rightarrow> PollFd) \<times> 'e sys) res option" where
  "sys_ppoll others raw fds nfds tmo_p sigmask sigs umem = (\<lambda>(k, w).
     bindO (Some (current_user_token k)) (\<lambda>_.
     bindO (Some (if sigmask \<noteq> 0 then sys_sigprocmask SIG_SETMASK sigmask raw (sigs(raw := 0)) k
                  else Inr (SUCCESS, sigs(raw := 0), k))) (\<lambda>(_, sigs1, k1).
     bindO (ppoll_loop others fds nfds 0 (0, umem) (k1, w)) (\<lambda>(done', umem', k2, w2).
     bindO (Some (if sigmask \<noteq> 0 then sys_sigprocmask SIG_SETMASK raw 0 sigs1 k2
                  else Inr (SUCCESS, sigs1, k2))) (\<lambda>(_, _, k3).
       Some (Inr (done', umem', k3, w2)))))))"

section \<open>Sets of descriptors\<close>

record FdSet =
  fs_bits :: "u64 list"

definition FdSet_empty :: FdSet where
  "FdSet_empty = \<lparr> fs_bits = replicate 16 0 \<rparr>"

definition fd_elt :: "usize \<Rightarrow> usize" where "fd_elt d = drop_bit 6 d"

definition fd_mask :: "usize \<Rightarrow> u64" where "fd_mask d = push_bit (unat (d AND 0x3F)) 1"

definition clr_all :: "FdSet \<Rightarrow> FdSet res" where
  "clr_all s = foldR (\<lambda>i s. bindR (nthR (fs_bits s) i) (\<lambda>_. Inr (s\<lparr> fs_bits := (fs_bits s)[i := 0] \<rparr>))) [0..<16] s"

definition FdSet_is_set :: "usize \<Rightarrow> FdSet \<Rightarrow> bool res" where
  "FdSet_is_set d s = bindR (nthR (fs_bits s) (unat (fd_elt d))) (\<lambda>x. Inr (fd_mask d AND x \<noteq> 0))"

definition FdSet_set :: "usize \<Rightarrow> FdSet \<Rightarrow> FdSet res" where
  "FdSet_set d s =
     bindR (nthR (fs_bits s) (unat (fd_elt d))) (\<lambda>x. Inr (s\<lparr> fs_bits := (fs_bits s)[unat (fd_elt d) := x OR fd_mask d] \<rparr>))"

definition FdSet_clr :: "usize \<Rightarrow> FdSet \<Rightarrow> FdSet res" where
  "FdSet_clr d s =
     bindR (nthR (fs_bits s) (unat (fd_elt d))) (\<lambda>x. Inr (s\<lparr> fs_bits := (fs_bits s)[unat (fd_elt d) := x AND NOT (fd_mask d)] \<rparr>))"

definition get_fd_vec :: "FdSet \<Rightarrow> usize list res" where
  "get_fd_vec s =
     foldR (\<lambda>i v. bindR (FdSet_is_set (of_nat i) s) (\<lambda>b. Inr (if b then v @ [of_nat i] else v))) [0..<1024] []"

definition count_ones :: "u64 \<Rightarrow> u32" where
  "count_ones x = of_nat (length (filter (bit x) [0..<64]))"

definition set_num :: "FdSet \<Rightarrow> u32" where
  "set_num s = fold (\<lambda>x sum'. sum' + count_ones x) (fs_bits s) 0"

section \<open>pselect\<close>

definition select_count ::
  "(File \<Rightarrow> 'e FileWorld \<Rightarrow> bool) \<Rightarrow> fd_table \<Rightarrow> 'e FileWorld \<Rightarrow> usize \<Rightarrow> FdSet option \<Rightarrow> 32 word \<Rightarrow> 32 word res" where
  "select_count ready tbl w nfds fds done' =
     (case fds of
        None \<Rightarrow> Inr done'
      | Some s \<Rightarrow>
          foldR (\<lambda>i d.
            bindR (FdSet_is_set (of_nat i) s) (\<lambda>b.
              if \<not> b then Inr d
              else bindR (nthR tbl i) (\<lambda>entry.
                case entry of Some f \<Rightarrow> Inr (if ready f w then d + 1 else d) | None \<Rightarrow> Inr d)))
            [0..<unat nfds] done')"

definition select_clear ::
  "(File \<Rightarrow> 'e FileWorld \<Rightarrow> bool) \<Rightarrow> fd_table \<Rightarrow> 'e FileWorld \<Rightarrow> usize \<Rightarrow> FdSet option \<Rightarrow> FdSet option res" where
  "select_clear ready tbl w nfds fds =
     (case fds of
        None \<Rightarrow> Inr None
      | Some s \<Rightarrow>
          bindR (foldR (\<lambda>i s.
            bindR (FdSet_is_set (of_nat i) s) (\<lambda>b.
              if \<not> b then Inr s
              else bindR (nthR tbl i) (\<lambda>entry.
                case entry of
                  Some f \<Rightarrow> if \<not> ready f w then FdSet_clr (of_nat i) s else Inr s
                | None \<Rightarrow> Inr s)))
            [0..<unat nfds] s) (\<lambda>s'. Inr (Some s')))"

text \<open>\<^term>\<open>now n\<close> is the \<^term>\<open>n\<close>-th reading of the clock.\<close>

partial_function (option) pselect_loop ::
  "(nat \<Rightarrow> TimeSpec) \<Rightarrow> (nat \<Rightarrow> 'e sys \<Rightarrow> 'e sys) \<Rightarrow> usize \<Rightarrow> FdSet option \<Rightarrow> FdSet option \<Rightarrow> TimeSpec option \<Rightarrow> nat \<Rightarrow>
     'e sys \<Rightarrow> (32 word \<times> 'e sys) res option" where
  "pselect_loop now others nfds read_fds write_fds timeout n s =
     (case s of (k, w) \<Rightarrow>
       bindO (Some (unwrapR (current_task k))) (\<lambda>t.
       bindO (Some (select_count file_r_ready (table_of t k) w nfds read_fds 0)) (\<lambda>d1.
       bindO (Some (select_count file_w_ready (table_of t k) w nfds write_fds d1)) (\<lambda>d2.
         if d2 \<noteq> 0 then Some (Inr (d2, k, w))
         else if (case timeout of
                    Some at \<Rightarrow> TimeSpec_partial_cmp (now (Suc n)) at \<in> {Some Greater, Some Equal}
                  | None \<Rightarrow> False)
         then Some (Inr (d2, k, w))
         else
           bindO (Some (suspend_current_and_run_next k)) (\<lambda>k'.
             pselect_loop now others nfds read_fds write_fds timeout (Suc n) (others n (k', w)))))))"

definition pselect ::
  "(nat \<Rightarrow> TimeSpec) \<Rightarrow> (nat \<Rightarrow> 'e sys \<Rightarrow> 'e sys) \<Rightarrow> usize \<Rightarrow> FdSet option \<Rightarrow> FdSet option \<Rightarrow> FdSet option \<Rightarrow> TimeSpec option \<Rightarrow>
     'e sys \<Rightarrow> (usize \<times> (FdSet option \<times> FdSet option \<times> FdSet option) \<times> 'e sys) res option" where
  "pselect now others nfds read_fds write_fds exception_fds timeout s =
     bindO (pselect_loop now others nfds read_fds write_fds (map_option (\<lambda>ts. TimeSpec_add ts (now 0)) timeout) 0 s)
       (\<lambda>(done', k, w).
     bindO (Some (unwrapR (current_task k))) (\<lambda>t.
     bindO (Some (select_clear file_r_ready (table_of t k) w nfds read_fds)) (\<lambda>read_fds'.
     bindO (Some (select_clear file_w_ready (table_of t k) w nfds write_fds)) (\<lambda>write_fds'.
       Some (Inr (scast done', (read_fds', write_fds', map_option (\<lambda>_. FdSet_empty) exception_fds), k, w))))))"

section \<open>Descriptor sets are sets\<close>

definition fdset_ok :: "FdSet \<Rightarrow> bool" where
  "fdset_ok s \<longleftrightarrow> length (fs_bits s) = 16"

definition fdset_members :: "FdSet \<Rightarrow> nat set" where
  "fdset_members s = bits_of (fs_bits s)"

lemma fd_index:
  assumes "i < 2 ^ 32"
  shows "unat (fd_elt (of_nat i)) = i div 64" "fd_mask (of_nat i) = push_bit (i mod 64) 1"
proof -
  have u: "unat (of_nat i :: usize) = i" using assms by (simp add: unat_of_nat)
  then show "unat (fd_elt (of_nat i)) = i div 64" by (simp add: fd_elt_def unat_drop_bit del: drop_bit_numeral_minus_bit1)
  have "unat ((of_nat i :: usize) AND 0x3F) = i mod 64"
    using u unat_take_bit [of 6 "of_nat i :: usize"] by (simp add: take_bit_eq_mask mask_eq_exp_minus_1)
  then show "fd_mask (of_nat i) = push_bit (i mod 64) 1" by (simp add: fd_mask_def)
qed

interpretation fdset: bit_set "\<lambda>i. FdSet_is_set (of_nat i)" "\<lambda>i. FdSet_set (of_nat i)" "\<lambda>i. FdSet_clr (of_nat i)"
  fdset_members "\<lambda>s. 64 * length (fs_bits s)" fdset_ok
proof unfold_locales
  fix s i assume s: "fdset_ok s"
  { assume i: "i < 64 * length (fs_bits s)"
    then have b: "i < 2 ^ 32" and d: "i div 64 < length (fs_bits s)" using s by (auto simp: fdset_ok_def)
    show "FdSet_is_set (of_nat i) s = Inr (i \<in> fdset_members s)"
      using bits_of_test [of i "fs_bits s"] i d by (simp add: FdSet_is_set_def fd_index [OF b] nthR_def fdset_members_def)
    show "\<exists>s'. FdSet_set (of_nat i) s = Inr s' \<and> fdset_ok s' \<and> fdset_members s' = insert i (fdset_members s) \<and>
        64 * length (fs_bits s') = 64 * length (fs_bits s)"
      using bits_of_set [of i "fs_bits s"] i d s by (simp add: FdSet_set_def fd_index [OF b] nthR_def fdset_members_def fdset_ok_def)
    show "\<exists>s'. FdSet_clr (of_nat i) s = Inr s' \<and> fdset_ok s' \<and> fdset_members s' = fdset_members s - {i} \<and>
        64 * length (fs_bits s') = 64 * length (fs_bits s)"
      using bits_of_clr [of i "fs_bits s"] i d s by (simp add: FdSet_clr_def fd_index [OF b] nthR_def fdset_members_def fdset_ok_def) }
  { assume i: "64 * length (fs_bits s) \<le> i" "i < 2 ^ 32"
    then have "\<not> i div 64 < length (fs_bits s)" by (simp add: div_less_iff_less_mult mult.commute)
    then show "FdSet_is_set (of_nat i) s = Inl Index_out_of_bounds \<and> FdSet_set (of_nat i) s = Inl Index_out_of_bounds \<and>
        FdSet_clr (of_nat i) s = Inl Index_out_of_bounds"
      by (simp add: FdSet_is_set_def FdSet_set_def FdSet_clr_def fd_index [OF i(2)] nthR_def) }
next
  fix s show "fdset_members s \<subseteq> {..<64 * length (fs_bits s)}"
    using bits_of_bounded [of "fs_bits s"] by (simp add: fdset_members_def)
qed

lemma select_step:
  assumes "fdset_ok s" "i < 1024" "i < length tbl"
  shows "\<exists>s'. bindR (FdSet_is_set (of_nat i) s) (\<lambda>b.
      if \<not> b then Inr s
      else bindR (nthR tbl i) (\<lambda>entry.
        case entry of Some f \<Rightarrow> if \<not> ready f w then FdSet_clr (of_nat i) s else Inr s | None \<Rightarrow> Inr s)) = Inr s' \<and>
    fdset_ok s' \<and>
    fdset_members s' = {j \<in> fdset_members s. j = i \<longrightarrow> (case tbl ! i of Some f \<Rightarrow> ready f w | None \<Rightarrow> True)}"
proof -
  have i: "i < 64 * length (fs_bits s)" using assms(1,2) by (simp add: fdset_ok_def)
  obtain s' where "FdSet_clr (of_nat i) s = Inr s'" "fdset_ok s'" "fdset_members s' = fdset_members s - {i}"
    using fdset.del_in [OF assms(1) i] by blast
  then show ?thesis
    using fdset.is_set_in [OF assms(1) i] assms(1,3)
    by (cases "i \<in> fdset_members s"; cases "tbl ! i") (auto simp: nthR_def)
qed

lemma select_clear_spec:
  assumes "fdset_ok s" "unat nfds \<le> 1024" "unat nfds \<le> length tbl"
  shows "\<exists>s'. select_clear ready tbl w nfds (Some s) = Inr (Some s') \<and> fdset_ok s' \<and>
    fdset_members s' = {i \<in> fdset_members s. i < unat nfds \<longrightarrow> (case tbl ! i of Some f \<Rightarrow> ready f w | None \<Rightarrow> True)}"
proof -
  let ?step = "\<lambda>i s. bindR (FdSet_is_set (of_nat i) s) (\<lambda>b.
      if \<not> b then Inr s
      else bindR (nthR tbl i) (\<lambda>entry.
        case entry of Some f \<Rightarrow> if \<not> ready f w then FdSet_clr (of_nat i) s else Inr s | None \<Rightarrow> Inr s))"
  have "\<exists>s'. foldR ?step [0..<n] s = Inr s' \<and> fdset_ok s' \<and>
    fdset_members s' = {i \<in> fdset_members s. i < n \<longrightarrow> (case tbl ! i of Some f \<Rightarrow> ready f w | None \<Rightarrow> True)}"
    if "n \<le> 1024" "n \<le> length tbl" for n
    using that
  proof (induction n)
    case 0
    then show ?case using assms(1) by simp
  next
    case (Suc n)
    then obtain s1 where s1: "foldR ?step [0..<n] s = Inr s1" "fdset_ok s1"
      "fdset_members s1 = {i \<in> fdset_members s. i < n \<longrightarrow> (case tbl ! i of Some f \<Rightarrow> ready f w | None \<Rightarrow> True)}" by auto
    obtain s2 where s2: "?step n s1 = Inr s2" "fdset_ok s2"
      "fdset_members s2 = {j \<in> fdset_members s1. j = n \<longrightarrow> (case tbl ! n of Some f \<Rightarrow> ready f w | None \<Rightarrow> True)}"
      using select_step [OF s1(2), of n tbl ready w] Suc.prems by auto
    have "foldR ?step [0..<Suc n] s = Inr s2" using s1(1) s2(1) by (simp add: foldR_append)
    moreover have "fdset_members s2 = {i \<in> fdset_members s. i < Suc n \<longrightarrow> (case tbl ! i of Some f \<Rightarrow> ready f w | None \<Rightarrow> True)}"
      unfolding s2(3) s1(3) by (auto simp: less_Suc_eq)
    ultimately show ?case using s2(2) by blast
  qed
  from this [of "unat nfds"] show ?thesis using assms(2,3) by (auto simp: select_clear_def)
qed

lemma poll_entry_done:
  assumes "poll_entry tbl w a (d, umem) = Inr (d', umem')"
  shows "d' = d \<or> d' = d + 1"
  using assms by (auto simp: poll_entry_def poll_file_def Let_def outcome split: if_splits option.splits)

lemma poll_scan_done:
  assumes "poll_scan tbl w fds nfds (0, umem) = Inr (d, umem')"
  shows "unat d \<le> unat nfds"
proof -
  have "unat d \<le> n" if "foldR (\<lambda>i. poll_entry tbl w (fds + 8 * of_nat i)) [0..<n] (0, umem) = Inr (d, umem')" for n d umem'
    using that
  proof (induction n arbitrary: d umem')
    case (Suc n)
    then obtain d1 u1 where 1: "foldR (\<lambda>i. poll_entry tbl w (fds + 8 * of_nat i)) [0..<n] (0, umem) = Inr (d1, u1)"
      "poll_entry tbl w (fds + 8 * of_nat n) (d1, u1) = Inr (d, umem')"
      by (auto simp: foldR_append outcome)
    have "d = d1 \<or> d = d1 + 1" by (rule poll_entry_done [OF 1(2)])
    moreover have "unat (d1 + 1) \<le> Suc (unat d1)" by (simp add: unat_word_ariths)
    ultimately show ?case using Suc.IH [OF 1(1)] by auto
  qed simp
  then show ?thesis using assms by (simp add: poll_scan_def)
qed

text \<open>\<^verbatim>\<open>ppoll\<close> never waits: the first pass always returns, with one more than the number of
  descriptors that have an event.\<close>

lemma ppoll_at_once:
  assumes "current_task k = Some t" "unat nfds < 2 ^ 62"
    "poll_scan (table_of t k) w fds nfds (0, umem) = Inr (d, umem')"
  shows "ppoll_loop others fds nfds n (0, umem) (k, w) = Some (Inr (d + 1, umem', k, w))"
proof -
  have b: "int (unat d) < 2 ^ 62"
    using le_less_trans [OF poll_scan_done [OF assms(3)] assms(2)] by (metis of_nat_less_iff of_nat_numeral of_nat_power)
  have u: "unat (d + 1) = unat d + 1" using poll_scan_done [OF assms(3)] assms(2) by (simp add: unat_word_ariths)
  then have "uint (d + 1) = int (unat d) + 1" by (metis of_nat_1 of_nat_add uint_nat)
  then have "sint (d + 1) = int (unat d) + 1"
    unfolding sint_uint using b by (simp add: signed_take_bit_int_eq_self_iff)
  then have "0 < sint (d + 1)" by simp
  then show ?thesis using assms by (subst ppoll_loop.simps) (simp add: unwrapR_def word_sless_alt)
qed

text \<open>Polling anything but the read end of a pipe panics, and so does a descriptor beyond the table.\<close>

lemma poll_entry_panics:
  assumes "a \<noteq> 0"
  shows "length tbl \<le> unat (pf_fd (umem a)) \<Longrightarrow> poll_entry tbl w a (d, umem) = Inl Index_out_of_bounds"
    "unat (pf_fd (umem a)) < length tbl \<Longrightarrow> tbl ! unat (pf_fd (umem a)) = Some f \<Longrightarrow> f = Stdin \<or> f = Stdout \<or> f = InodeFile r \<Longrightarrow>
       poll_entry tbl w a (d, umem) = Inl Todo"
  using assms by (auto simp: poll_entry_def nthR_def poll_file_def file_hang_up_def)

lemma set_num_card:
  assumes "fdset_ok s"
  shows "set_num s = of_nat (card (fdset_members s))"
proof -
  have "fold (\<lambda>x sum'. sum' + count_ones x) xs a = a + of_nat (sum_list (map (\<lambda>x. length (filter (bit x) [0..<64])) xs))" for xs a
    by (induction xs arbitrary: a) (simp_all add: count_ones_def)
  then show ?thesis using card_bits_of [of "fs_bits s"] by (simp add: set_num_def fdset_members_def)
qed

text \<open>C37. A descriptor set is a set of the numbers below 1024: \<^verbatim>\<open>set\<close>, \<^verbatim>\<open>clr\<close> and \<^verbatim>\<open>is_set\<close> insert, remove and
  test a member and leave the others, \<^verbatim>\<open>get_fd_vec\<close> lists the members in increasing order and
  \<^verbatim>\<open>set_num\<close> counts them; a number from 1024 up panics with an index out of bounds.\<close>

theorem fdset_refines_set:
  assumes "fdset_ok s" "i < 1024"
  shows "FdSet_is_set (of_nat i) s = Inr (i \<in> fdset_members s) \<and>
    (\<exists>s'. FdSet_set (of_nat i) s = Inr s' \<and> fdset_ok s' \<and> fdset_members s' = insert i (fdset_members s)) \<and>
    (\<exists>s'. FdSet_clr (of_nat i) s = Inr s' \<and> fdset_ok s' \<and> fdset_members s' = fdset_members s - {i}) \<and>
    get_fd_vec s = Inr (map of_nat (sorted_list_of_set (fdset_members s))) \<and>
    set_num s = of_nat (card (fdset_members s)) \<and>
    FdSet_set (of_nat (1024 + i)) s = Inl Index_out_of_bounds"
proof -
  have c: "64 * length (fs_bits s) = 1024" using assms(1) by (simp add: fdset_ok_def)
  have "sorted_list_of_set (fdset_members s) = filter (\<lambda>i. i \<in> fdset_members s) [0..<1024]"
    using fdset.collect_all [of s] unfolding c
    by (metis distinct_filter distinct_upt sorted_list_of_set.idem_if_sorted_distinct sorted_wrt_filter sorted_upt)
  then have "get_fd_vec s = Inr (map of_nat (sorted_list_of_set (fdset_members s)))"
    unfolding get_fd_vec_def using fdset.collect [OF assms(1), of 1024 of_nat] c by simp
  then show ?thesis
    using fdset.is_set_in [OF assms(1), of i] fdset.ins_in [OF assms(1), of i] fdset.del_in [OF assms(1), of i]
      fdset.out [OF assms(1), of "1024 + i"] set_num_card [OF assms(1)] assms(2) c by auto
qed

theorem fdset_refines_set_witness:
  "\<exists>s'. FdSet_set 7 FdSet_empty = Inr s' \<and> fdset_members s' = {7}"
proof -
  have "fdset_ok FdSet_empty" "fdset_members FdSet_empty = {}"
    by (auto simp: fdset_ok_def FdSet_empty_def fdset_members_def bits_of_def nth_replicate less_mult_imp_div_less mult.commute)
  then show ?thesis using fdset_refines_set [of FdSet_empty 7] by auto
qed

end
