(* ===== verification/Ext4_Util.thy ===== *)
theory Ext4_Util
  imports Bit_Set Bytes
begin

text \<open>
  \<^verbatim>\<open>os/libs/ext4_rs/src/utils.rs\<close>: checksums, bitmaps and paths of the ext4 library.
\<close>

unbundle bit_operations_syntax

section \<open>Checksums\<close>

definition CRC32C_TAB :: "u32 list" where
  "CRC32C_TAB =
    [
     0x00000000, 0xF26B8303, 0xE13B70F7, 0x1350F3F4, 0xC79A971F, 0x35F1141C, 0x26A1E7E8, 0xD4CA64EB,
     0x8AD958CF, 0x78B2DBCC, 0x6BE22838, 0x9989AB3B, 0x4D43CFD0, 0xBF284CD3, 0xAC78BF27, 0x5E133C24,
     0x105EC76F, 0xE235446C, 0xF165B798, 0x030E349B, 0xD7C45070, 0x25AFD373, 0x36FF2087, 0xC494A384,
     0x9A879FA0, 0x68EC1CA3, 0x7BBCEF57, 0x89D76C54, 0x5D1D08BF, 0xAF768BBC, 0xBC267848, 0x4E4DFB4B,
     0x20BD8EDE, 0xD2D60DDD, 0xC186FE29, 0x33ED7D2A, 0xE72719C1, 0x154C9AC2, 0x061C6936, 0xF477EA35,
     0xAA64D611, 0x580F5512, 0x4B5FA6E6, 0xB93425E5, 0x6DFE410E, 0x9F95C20D, 0x8CC531F9, 0x7EAEB2FA,
     0x30E349B1, 0xC288CAB2, 0xD1D83946, 0x23B3BA45, 0xF779DEAE, 0x05125DAD, 0x1642AE59, 0xE4292D5A,
     0xBA3A117E, 0x4851927D, 0x5B016189, 0xA96AE28A, 0x7DA08661, 0x8FCB0562, 0x9C9BF696, 0x6EF07595,
     0x417B1DBC, 0xB3109EBF, 0xA0406D4B, 0x522BEE48, 0x86E18AA3, 0x748A09A0, 0x67DAFA54, 0x95B17957,
     0xCBA24573, 0x39C9C670, 0x2A993584, 0xD8F2B687, 0x0C38D26C, 0xFE53516F, 0xED03A29B, 0x1F682198,
     0x5125DAD3, 0xA34E59D0, 0xB01EAA24, 0x42752927, 0x96BF4DCC, 0x64D4CECF, 0x77843D3B, 0x85EFBE38,
     0xDBFC821C, 0x2997011F, 0x3AC7F2EB, 0xC8AC71E8, 0x1C661503, 0xEE0D9600, 0xFD5D65F4, 0x0F36E6F7,
     0x61C69362, 0x93AD1061, 0x80FDE395, 0x72966096, 0xA65C047D, 0x5437877E, 0x4767748A, 0xB50CF789,
     0xEB1FCBAD, 0x197448AE, 0x0A24BB5A, 0xF84F3859, 0x2C855CB2, 0xDEEEDFB1, 0xCDBE2C45, 0x3FD5AF46,
     0x7198540D, 0x83F3D70E, 0x90A324FA, 0x62C8A7F9, 0xB602C312, 0x44694011, 0x5739B3E5, 0xA55230E6,
     0xFB410CC2, 0x092A8FC1, 0x1A7A7C35, 0xE811FF36, 0x3CDB9BDD, 0xCEB018DE, 0xDDE0EB2A, 0x2F8B6829,
     0x82F63B78, 0x709DB87B, 0x63CD4B8F, 0x91A6C88C, 0x456CAC67, 0xB7072F64, 0xA457DC90, 0x563C5F93,
     0x082F63B7, 0xFA44E0B4, 0xE9141340, 0x1B7F9043, 0xCFB5F4A8, 0x3DDE77AB, 0x2E8E845F, 0xDCE5075C,
     0x92A8FC17, 0x60C37F14, 0x73938CE0, 0x81F80FE3, 0x55326B08, 0xA759E80B, 0xB4091BFF, 0x466298FC,
     0x1871A4D8, 0xEA1A27DB, 0xF94AD42F, 0x0B21572C, 0xDFEB33C7, 0x2D80B0C4, 0x3ED04330, 0xCCBBC033,
     0xA24BB5A6, 0x502036A5, 0x4370C551, 0xB11B4652, 0x65D122B9, 0x97BAA1BA, 0x84EA524E, 0x7681D14D,
     0x2892ED69, 0xDAF96E6A, 0xC9A99D9E, 0x3BC21E9D, 0xEF087A76, 0x1D63F975, 0x0E330A81, 0xFC588982,
     0xB21572C9, 0x407EF1CA, 0x532E023E, 0xA145813D, 0x758FE5D6, 0x87E466D5, 0x94B49521, 0x66DF1622,
     0x38CC2A06, 0xCAA7A905, 0xD9F75AF1, 0x2B9CD9F2, 0xFF56BD19, 0x0D3D3E1A, 0x1E6DCDEE, 0xEC064EED,
     0xC38D26C4, 0x31E6A5C7, 0x22B65633, 0xD0DDD530, 0x0417B1DB, 0xF67C32D8, 0xE52CC12C, 0x1747422F,
     0x49547E0B, 0xBB3FFD08, 0xA86F0EFC, 0x5A048DFF, 0x8ECEE914, 0x7CA56A17, 0x6FF599E3, 0x9D9E1AE0,
     0xD3D3E1AB, 0x21B862A8, 0x32E8915C, 0xC083125F, 0x144976B4, 0xE622F5B7, 0xF5720643, 0x07198540,
     0x590AB964, 0xAB613A67, 0xB831C993, 0x4A5A4A90, 0x9E902E7B, 0x6CFBAD78, 0x7FAB5E8C, 0x8DC0DD8F,
     0xE330A81A, 0x115B2B19, 0x020BD8ED, 0xF0605BEE, 0x24AA3F05, 0xD6C1BC06, 0xC5914FF2, 0x37FACCF1,
     0x69E9F0D5, 0x9B8273D6, 0x88D28022, 0x7AB90321, 0xAE7367CA, 0x5C18E4C9, 0x4F48173D, 0xBD23943E,
     0xF36E6F75, 0x0105EC76, 0x12551F82, 0xE03E9C81, 0x34F4F86A, 0xC69F7B69, 0xD5CF889D, 0x27A40B9E,
     0x79B737BA, 0x8BDCB4B9, 0x988C474D, 0x6AE7C44E, 0xBE2DA0A5, 0x4C4623A6, 0x5F16D052, 0xAD7D5351
    ]"

fun crc32 :: "u32 \<Rightarrow> u8 list \<Rightarrow> nat \<Rightarrow> u32 list \<Rightarrow> u32 res" where
  "crc32 crc p 0 tab = Inr crc"
| "crc32 crc p (Suc size') tab =
     bindR (nthR p 0) (\<lambda>b.
     bindR (nthR tab (unat (ucast crc XOR b))) (\<lambda>e.
       crc32 (e XOR drop_bit 8 crc) (tl p) size' tab))"

definition ext4_crc32c :: "u32 \<Rightarrow> u8 list \<Rightarrow> u32 \<Rightarrow> u32 res" where
  "ext4_crc32c crc buf size' = crc32 crc buf (unat size') CRC32C_TAB"

section \<open>Bitmaps\<close>

definition ext4_bmap_is_bit_set :: "u8 list \<Rightarrow> u32 \<Rightarrow> bool res" where
  "ext4_bmap_is_bit_set bmap b =
     bindR (nthR bmap (unat (drop_bit 3 b))) (\<lambda>x. Inr (x AND push_bit (unat (b AND 7)) 1 \<noteq> 0))"

definition ext4_bmap_is_bit_clr :: "u8 list \<Rightarrow> u32 \<Rightarrow> bool res" where
  "ext4_bmap_is_bit_clr bmap b = bindR (ext4_bmap_is_bit_set bmap b) (\<lambda>x. Inr (\<not> x))"

definition ext4_bmap_bit_set :: "u32 \<Rightarrow> u8 list \<Rightarrow> u8 list res" where
  "ext4_bmap_bit_set b bmap =
     bindR (nthR bmap (unat (drop_bit 3 b))) (\<lambda>x.
       Inr (bmap[unat (drop_bit 3 b) := x OR push_bit (unat (b AND 7)) 1]))"

definition ext4_bmap_bit_clr :: "u32 \<Rightarrow> u8 list \<Rightarrow> u8 list res" where
  "ext4_bmap_bit_clr b bmap =
     bindR (nthR bmap (unat (drop_bit 3 b))) (\<lambda>x.
       Inr (bmap[unat (drop_bit 3 b) := x AND NOT (push_bit (unat (b AND 7)) 1)]))"

text \<open>\<^verbatim>\<open>ext4_bmap_bit_find_clr\<close> has three loops: bit by bit to the next byte, byte by byte, and
  over what is left.  The first one reports the bit the search started from.\<close>

function find_clr_head :: "u8 list \<Rightarrow> u32 \<Rightarrow> u32 \<Rightarrow> u32 \<Rightarrow> ((u32 option + unit) \<times> u32 \<times> u32) res" where
  "find_clr_head bmap sbit i bcnt =
     (if i AND 7 \<noteq> 0 then
        if bcnt = 0 then Inr (Inl None, i, bcnt)
        else
          bindR (ext4_bmap_is_bit_clr bmap i) (\<lambda>c.
            if c then Inr (Inl (Some sbit), i, bcnt) else find_clr_head bmap sbit (i + 1) (bcnt - 1))
      else Inr (Inr (), i, bcnt))"
  by pat_completeness auto
termination
  by (relation "measure (\<lambda>(bmap, sbit, i, bcnt). unat bcnt)") (simp_all add: unat_minus_one unat_gt_0)

function find_clr_bytes :: "u8 list \<Rightarrow> u32 \<Rightarrow> u32 \<Rightarrow> ((u32 option + unit) \<times> u8 list \<times> u32 \<times> u32) res" where
  "find_clr_bytes bmap sbit bcnt =
     (if bcnt \<ge> 8 then
        bindR (nthR bmap 0) (\<lambda>x.
        bindR (if x \<noteq> 0xFF
               then foldR (\<lambda>i r. if r \<noteq> None then Inr r
                 else bindR (ext4_bmap_is_bit_clr bmap (of_nat i)) (\<lambda>c. Inr (if c then Some (sbit + of_nat i) else None))) [0..<8] None
               else Inr None) (\<lambda>r.
          if r \<noteq> None then Inr (Inl r, bmap, sbit, bcnt)
          else find_clr_bytes (drop 1 bmap) (sbit + 8) (bcnt - 8)))
      else Inr (Inr (), bmap, sbit, bcnt))"
  by pat_completeness auto
termination
  by (relation "measure (\<lambda>(bmap, sbit, bcnt). unat bcnt)") (simp_all add: unat_sub word_le_nat_alt)

declare find_clr_head.simps [simp del] find_clr_bytes.simps [simp del]

definition ext4_bmap_bit_find_clr :: "u8 list \<Rightarrow> u32 \<Rightarrow> u32 \<Rightarrow> u32 option res" where
  "ext4_bmap_bit_find_clr bmap sbit ebit =
     bindR (find_clr_head bmap sbit sbit (ebit - sbit)) (\<lambda>(r, i, bcnt).
       case r of
         Inl x \<Rightarrow> Inr x
       | Inr _ \<Rightarrow>
           if unat (drop_bit 3 i) > length bmap then Inl Index_out_of_bounds
           else
             bindR (find_clr_bytes (drop (unat (drop_bit 3 i)) bmap) i bcnt) (\<lambda>(r, bmap', sbit', bcnt').
               case r of
                 Inl x \<Rightarrow> Inr x
               | Inr _ \<Rightarrow>
                   foldR (\<lambda>i r. if r \<noteq> None then Inr r
                     else bindR (ext4_bmap_is_bit_clr bmap' (of_nat i)) (\<lambda>c. Inr (if c then Some (sbit' + of_nat i) else None)))
                     [0..<unat bcnt'] None))"

definition ext4_bmap_bits_free :: "u32 \<Rightarrow> u32 \<Rightarrow> u8 list \<Rightarrow> u8 list res" where
  "ext4_bmap_bits_free start_bit end_bit bmap =
     foldR (\<lambda>b. ext4_bmap_bit_clr (of_nat b)) [unat start_bit..<Suc (unat end_bit)] bmap"

section \<open>Paths\<close>

definition slash :: u32 where "slash = 47"

text \<open>The position of the next component's end, and whether it is the last one.\<close>

fun path_check_from :: "nat \<Rightarrow> rstring \<Rightarrow> nat option" where
  "path_check_from i [] = None"
| "path_check_from i (c # cs) = (if c = slash then Some i else path_check_from (Suc i) cs)"

definition ext4_path_check :: "rstring \<Rightarrow> nat \<times> bool" where
  "ext4_path_check path = (case path_check_from 0 path of Some i \<Rightarrow> (i, False) | None \<Rightarrow> (str_len path, True))"

fun path_check_new_from :: "nat \<Rightarrow> rstring \<Rightarrow> (nat \<times> bool) option" where
  "path_check_new_from i [] = None"
| "path_check_new_from i (c # cs) =
     (if i \<ge> 255 then None
      else if c = slash then Some (i, False)
      else if c = 0 then Some (i, True)
      else path_check_new_from (Suc i) cs)"

definition path_check_new :: "rstring \<Rightarrow> nat \<times> bool" where
  "path_check_new path = (case path_check_new_from 0 path of Some r \<Rightarrow> r | None \<Rightarrow> (str_len path, True))"

section \<open>Checksums bit by bit\<close>

text \<open>The definition the table stands for: one division step by the reversed polynomial for every
  bit.\<close>

definition crc_bit :: "u32 \<Rightarrow> u32" where
  "crc_bit c = (if bit c 0 then drop_bit 1 c XOR 0x82F63B78 else drop_bit 1 c)"

definition crc_byte :: "u8 \<Rightarrow> u32 \<Rightarrow> u32" where
  "crc_byte b c = (crc_bit ^^ 8) (c XOR ucast b)"

lemma crc_bit_xor: "crc_bit (a XOR b) = crc_bit a XOR crc_bit b"
  by (auto simp: crc_bit_def bit_simps intro!: bit_eqI)

lemma crc_bits_xor: "(crc_bit ^^ n) (a XOR b) = (crc_bit ^^ n) a XOR (crc_bit ^^ n) b"
  by (induction n) (simp_all add: crc_bit_xor)

lemma crc_bits_shift: "take_bit n c = 0 \<Longrightarrow> (crc_bit ^^ n) c = drop_bit n c"
proof (induction n)
  case (Suc n)
  have z: "\<not> bit c i" if "i < Suc n" "i < 32" for i
    using arg_cong [OF Suc.prems, of "\<lambda>x. bit x i"] that by (simp add: bit_take_bit_iff)
  have "take_bit n c = 0" using z by (auto intro!: bit_eqI simp: bit_take_bit_iff dest: bit_imp_le_length)
  then have "(crc_bit ^^ n) c = drop_bit n c" by (rule Suc.IH)
  moreover have "\<not> bit (drop_bit n c) 0" using z [of n] bit_imp_le_length [of c n] by (auto simp: bit_drop_bit_eq)
  ultimately show ?case by (simp add: crc_bit_def [of "drop_bit n c"] drop_bit_drop_bit)
qed simp

lemma crc_table_double:
  assumes "k < 8"
  shows "map (\<lambda>i. (crc_bit ^^ 8) (of_nat i)) [0..<2 ^ Suc k] =
    map (\<lambda>i. (crc_bit ^^ 8) (of_nat i)) [0..<2 ^ k] @
    map (\<lambda>x. (crc_bit ^^ 8) (2 ^ k) XOR x) (map (\<lambda>i. (crc_bit ^^ 8) (of_nat i)) [0..<2 ^ k])"
proof -
  have x: "2 ^ k + of_nat i = (2 ^ k XOR of_nat i :: u32)" if "i < 2 ^ k" for i
  proof -
    have "2 ^ k AND i = 0"
      using that by (metis and.commute and_exp_eq_0_iff_not_bit bit_nat_def div_less even_zero)
    then have "2 ^ k + i = 2 ^ k XOR i" by (rule disjunctive_add_eq_xor)
    then show ?thesis by (metis of_nat_xor_eq of_nat_add of_nat_numeral of_nat_power)
  qed
  have "[0..<2 ^ Suc k] = [0..<2 ^ k] @ map (\<lambda>i. 2 ^ k + i) [0..<(2 :: nat) ^ k]"
    using upt_add_eq_append [of 0 "2 ^ k" "2 ^ k"] map_add_upt [of "2 ^ k" "2 ^ k"] by (simp add: mult_2 add.commute)
  then show ?thesis by (simp add: x crc_bits_xor)
qed
lemma crc_powers:
  "(crc_bit ^^ 8) 0 = 0"
  "(crc_bit ^^ 8) 1 = 0xF26B8303" "(crc_bit ^^ 8) 2 = 0xE13B70F7" "(crc_bit ^^ 8) 4 = 0xC79A971F" "(crc_bit ^^ 8) 8 = 0x8AD958CF"
  "(crc_bit ^^ 8) 16 = 0x105EC76F" "(crc_bit ^^ 8) 32 = 0x20BD8EDE" "(crc_bit ^^ 8) 64 = 0x417B1DBC" "(crc_bit ^^ 8) 128 = 0x82F63B78"
  by code_simp+

lemma CRC32C_TAB_eq: "CRC32C_TAB = map (\<lambda>i. (crc_bit ^^ 8) (of_nat i)) [0..<256]"
proof -
  let ?f = "\<lambda>n. map (\<lambda>i. (crc_bit ^^ 8) (of_nat i)) [0..<n]"
  have 0: "?f 1 = [0]" by (simp add: crc_powers)
  have "?f 2 = [0, 0xF26B8303]" using crc_table_double [of 0] 0 crc_powers by simp
  then have "?f 4 = take 4 CRC32C_TAB" using crc_table_double [of 1] crc_powers by (simp add: CRC32C_TAB_def)
  then have "?f 8 = take 8 CRC32C_TAB" using crc_table_double [of 2] crc_powers by (simp add: CRC32C_TAB_def)
  then have "?f 16 = take 16 CRC32C_TAB" using crc_table_double [of 3] crc_powers by (simp add: CRC32C_TAB_def)
  then have "?f 32 = take 32 CRC32C_TAB" using crc_table_double [of 4] crc_powers by (simp add: CRC32C_TAB_def)
  then have "?f 64 = take 64 CRC32C_TAB" using crc_table_double [of 5] crc_powers by (simp add: CRC32C_TAB_def)
  then have "?f 128 = take 128 CRC32C_TAB" using crc_table_double [of 6] crc_powers by (simp add: CRC32C_TAB_def)
  then have "?f 256 = take 256 CRC32C_TAB" using crc_table_double [of 7] crc_powers by (simp add: CRC32C_TAB_def)
  then show ?thesis by (simp add: CRC32C_TAB_def)
qed

lemma crc_table_step:
  "nthR CRC32C_TAB (unat (ucast crc XOR b)) = Inr ((crc_bit ^^ 8) (ucast (ucast crc XOR b :: u8)))"
proof -
  have "unat (ucast crc XOR b :: u8) < 256" using unsigned_less [of "ucast crc XOR b :: u8"] by simp
  then show ?thesis by (simp add: CRC32C_TAB_eq nthR_def)
qed

lemma crc_byte_table: "(crc_bit ^^ 8) (ucast (ucast crc XOR b :: u8)) XOR drop_bit 8 crc = crc_byte b crc"
proof -
  let ?hi = "push_bit 8 (drop_bit 8 crc)"
  have h: "take_bit 8 ?hi = 0" "drop_bit 8 ?hi = drop_bit 8 crc"
    using bit_imp_le_length [of crc] by (auto intro!: bit_eqI simp: bit_simps)
  have "crc XOR ucast b = ucast (ucast crc XOR b :: u8) XOR ?hi"
    by (rule bit_eqI) (auto simp: bit_simps)
  then show ?thesis by (simp add: crc_byte_def crc_bits_xor crc_bits_shift [OF h(1)] h(2))
qed

lemma crc32_fold:
  "n \<le> length buf \<Longrightarrow> crc32 crc buf n CRC32C_TAB = Inr (fold crc_byte (take n buf) crc)"
proof (induction n arbitrary: crc buf)
  case (Suc n)
  then obtain b r where "buf = b # r" by (cases buf) auto
  then show ?case using Suc by (simp add: nthR_def [of "b # r"] crc_table_step crc_byte_table)
qed simp

lemma crc32_short: "length buf < n \<Longrightarrow> crc32 crc buf n CRC32C_TAB = Inl Index_out_of_bounds"
proof (induction n arbitrary: crc buf)
  case (Suc n)
  show ?case
  proof (cases buf)
    case (Cons b r)
    then show ?thesis using Suc by (simp add: nthR_def [of "b # r"] crc_table_step)
  qed (simp add: nthR_def)
qed simp

text \<open>C38. The table-driven checksum is the CRC-32C: for every starting value and every buffer,
  \<^verbatim>\<open>ext4_crc32c\<close> is the division of the first \<^term>\<open>n\<close> bytes by the reversed Castagnoli polynomial,
  done bit by bit, so the checksum of one piece continued over a second one is the checksum of
  both; a length beyond the buffer panics.\<close>

theorem crc32c_correct:
  "(unat n \<le> length buf \<longrightarrow> ext4_crc32c crc buf n = Inr (fold crc_byte (take (unat n) buf) crc)) \<and>
   (length buf < unat n \<longrightarrow> ext4_crc32c crc buf n = Inl Index_out_of_bounds) \<and>
   (length xs < 2 ^ 32 \<and> unat n \<le> length buf \<longrightarrow>
      bindR (ext4_crc32c crc xs (of_nat (length xs))) (\<lambda>c. ext4_crc32c c buf n) =
        Inr (fold crc_byte (xs @ take (unat n) buf) crc))"
  by (simp add: ext4_crc32c_def crc32_fold crc32_short unat_of_nat)

theorem crc32c_correct_witness: "ext4_crc32c 0 [1, 128] 2 = Inr (fold crc_byte [1, 128] 0)"
  using crc32c_correct [of 2 "[1, 128]" 0 "[]"] by simp

section \<open>Bitmaps are sets\<close>

definition bmap_ok :: "u8 list \<Rightarrow> bool" where
  "bmap_ok bmap \<longleftrightarrow> 8 * length bmap < 2 ^ 32"

lemma bmap_index:
  assumes "i < 2 ^ 32"
  shows "unat (drop_bit 3 (of_nat i :: u32)) = i div 8" "unat ((of_nat i :: u32) AND 7) = i mod 8"
proof -
  have u: "unat (of_nat i :: u32) = i" using assms by (simp add: unat_of_nat)
  then show "unat (drop_bit 3 (of_nat i :: u32)) = i div 8" by (simp add: unat_drop_bit)
  show "unat ((of_nat i :: u32) AND 7) = i mod 8"
    using u unat_take_bit [of 3 "of_nat i :: u32"] by (simp add: take_bit_eq_mask mask_eq_exp_minus_1)
qed

interpretation bmap: bit_set "\<lambda>i bm. ext4_bmap_is_bit_set bm (of_nat i)" "\<lambda>i. ext4_bmap_bit_set (of_nat i)"
  "\<lambda>i. ext4_bmap_bit_clr (of_nat i)" bits_of "\<lambda>bm. 8 * length bm" bmap_ok
proof unfold_locales
  fix s :: "u8 list" and i :: nat
  assume s: "bmap_ok s"
  { assume i: "i < 8 * length s"
    then have b: "i < 2 ^ 32" and d: "i div 8 < length s" using s by (auto simp: bmap_ok_def)
    show "ext4_bmap_is_bit_set s (of_nat i) = Inr (i \<in> bits_of s)"
      using bits_of_test [of i s] i d by (simp add: ext4_bmap_is_bit_set_def bmap_index [OF b] nthR_def and.commute)
    show "\<exists>s'. ext4_bmap_bit_set (of_nat i) s = Inr s' \<and> bmap_ok s' \<and> bits_of s' = insert i (bits_of s) \<and> 8 * length s' = 8 * length s"
      using bits_of_set [of i s] i d s by (simp add: ext4_bmap_bit_set_def bmap_index [OF b] nthR_def bmap_ok_def)
    show "\<exists>s'. ext4_bmap_bit_clr (of_nat i) s = Inr s' \<and> bmap_ok s' \<and> bits_of s' = bits_of s - {i} \<and> 8 * length s' = 8 * length s"
      using bits_of_clr [of i s] i d s by (simp add: ext4_bmap_bit_clr_def bmap_index [OF b] nthR_def bmap_ok_def) }
  { assume i: "8 * length s \<le> i" "i < 2 ^ 32"
    then have "\<not> i div 8 < length s" by (simp add: div_less_iff_less_mult mult.commute)
    then show "ext4_bmap_is_bit_set s (of_nat i) = Inl Index_out_of_bounds \<and> ext4_bmap_bit_set (of_nat i) s = Inl Index_out_of_bounds \<and>
        ext4_bmap_bit_clr (of_nat i) s = Inl Index_out_of_bounds"
      by (simp add: ext4_bmap_is_bit_set_def ext4_bmap_bit_set_def ext4_bmap_bit_clr_def bmap_index [OF i(2)] nthR_def) }
next
  fix s :: "u8 list" show "bits_of s \<subseteq> {..<8 * length s}" using bits_of_bounded [of s] by simp
qed

lemma bit_clr_eq: "bmap_ok bm \<Longrightarrow> i < 8 * length bm \<Longrightarrow> ext4_bmap_is_bit_clr bm (of_nat i) = Inr (i \<notin> bits_of bm)"
  by (simp add: ext4_bmap_is_bit_clr_def bmap.is_set_in)

lemma bits_free_spec:
  assumes "bmap_ok bm" "unat b < 8 * length bm"
  shows "\<exists>bm'. ext4_bmap_bits_free a b bm = Inr bm' \<and> length bm' = length bm \<and> bits_of bm' = bits_of bm - {unat a..unat b}"
proof -
  have "\<forall>i \<in> set [unat a..<Suc (unat b)]. i < 8 * length bm" using assms(2) by auto
  from bmap.del_list [OF assms(1) this] show ?thesis
    by (auto simp: ext4_bmap_bits_free_def simp flip: atLeastLessThanSuc_atLeastAtMost)
qed

section \<open>Searching a bitmap\<close>

lemma find_append: "List.find P (xs @ ys) = (case List.find P xs of Some x \<Rightarrow> Some x | None \<Rightarrow> List.find P ys)"
  by (induction xs) auto

lemma find_in: "List.find P xs = Some x \<Longrightarrow> x \<in> set xs"
  by (auto simp: find_Some_iff)

lemma find_shift: "List.find P [d..<d + n] = map_option ((+) d) (List.find (\<lambda>j. P (d + j)) [0..<n])"
  by (induction n) (auto simp: find_append split: option.splits)

lemma find_upt_split:
  assumes "a \<le> b" "b \<le> c"
  shows "List.find P [a..<c] = (case List.find P [a..<b] of Some x \<Rightarrow> Some x | None \<Rightarrow> List.find P [b..<c])"
proof -
  have "[a..<c] = [a..<b] @ [b..<c]" using assms by (metis le_add_diff_inverse upt_add_eq_append)
  then show ?thesis by (simp add: find_append)
qed

abbreviation find_clr :: "u8 list \<Rightarrow> nat list \<Rightarrow> nat option" where
  "find_clr bm \<equiv> List.find (\<lambda>j. j \<notin> bits_of bm)"

lemma find_clr_loop:
  fixes s :: u32
  assumes "bmap_ok bm" "n \<le> 8 * length bm"
  shows "foldR (\<lambda>i r. if r \<noteq> None then Inr r
      else bindR (ext4_bmap_is_bit_clr bm (of_nat i)) (\<lambda>c. Inr (if c then Some (s + of_nat i) else None))) [0..<n] None =
    Inr (map_option (\<lambda>i. s + of_nat i) (find_clr bm [0..<n]))"
  using assms(2)
proof (induction n)
  case (Suc n)
  then show ?case using bit_clr_eq [OF assms(1), of n] by (auto simp: foldR_append find_append split: option.splits)
qed simp

definition align8 :: "nat \<Rightarrow> nat" where "align8 n = 8 * ((n + 7) div 8)"

lemma align8_props:
  "n \<le> align8 n" "8 dvd align8 n" "n mod 8 = 0 \<Longrightarrow> align8 n = n" "n mod 8 \<noteq> 0 \<Longrightarrow> n < align8 n \<and> align8 (Suc n) = align8 n"
  unfolding align8_def by (auto, presburger+)

lemma find_clr_head_spec:
  assumes "bmap_ok bm" "unat i + unat b \<le> 8 * length bm"
  shows "\<exists>r i' b'. find_clr_head bm s i b = Inr (r, i', b') \<and>
    (case find_clr bm [unat i..<min (unat i + unat b) (align8 (unat i))] of
       Some c \<Rightarrow> r = Inl (Some s)
     | None \<Rightarrow>
         if align8 (unat i) \<le> unat i + unat b
         then r = Inr () \<and> unat i' = align8 (unat i) \<and> unat b' = unat i + unat b - align8 (unat i)
         else r = Inl None)"
  using assms
proof (induction bm s i b rule: find_clr_head.induct)
  case (1 bm s i b)
  have i: "of_nat (unat i) = i" "unat i < 2 ^ 32" using unsigned_less [of i] by simp_all
  have m: "i AND 7 \<noteq> 0 \<longleftrightarrow> unat i mod 8 \<noteq> 0" using bmap_index(2) [OF i(2)] i(1) by (metis unat_eq_0)
  show ?case
  proof (cases "unat i mod 8 = 0")
    case True
    then show ?thesis using m align8_props(3) [of "unat i"] by (simp add: find_clr_head.simps [of bm])
  next
    case False
    note al = align8_props(4) [OF False]
    show ?thesis
    proof (cases "b = 0")
      case True
      then show ?thesis using False m al by (simp add: find_clr_head.simps [of bm])
    next
      case b: False
      then have ub: "0 < unat b" "unat (b - 1) = unat b - 1" by (simp_all add: unat_gt_0 unat_minus_one)
      then have "unat i + 1 < 2 ^ 32" using 1(2,3) by (simp add: bmap_ok_def)
      then have ui: "unat (i + 1) = Suc (unat i)" by (simp add: unat_word_ariths)
      have c: "ext4_bmap_is_bit_clr bm i = Inr (unat i \<notin> bits_of bm)"
        using bit_clr_eq [OF 1(2), of "unat i"] 1(3) ub(1) i(1) by simp
      have up: "[unat i..<min (unat i + unat b) (align8 (unat i))] = unat i # [Suc (unat i)..<min (unat i + unat b) (align8 (unat i))]"
        using ub(1) al by (simp add: upt_rec)
      show ?thesis
      proof (cases "unat i \<in> bits_of bm")
        case False
        then show ?thesis using m \<open>unat i mod 8 \<noteq> 0\<close> b c up by (simp add: find_clr_head.simps [of bm])
      next
        case True
        have e: "Suc (unat i) + unat (b - 1) = unat i + unat b" "align8 (Suc (unat i)) = align8 (unat i)"
          using ub al by simp_all
        have nz: "i AND 7 \<noteq> 0" and cf: "ext4_bmap_is_bit_clr bm i = Inr False" using m \<open>unat i mod 8 \<noteq> 0\<close> c True by simp_all
        have le: "unat (i + 1) + unat (b - 1) \<le> 8 * length bm" using ui ub 1(3) by simp
        have "find_clr_head bm s i b = find_clr_head bm s (i + 1) (b - 1)"
          using nz b cf by (simp add: find_clr_head.simps [of bm s i])
        moreover have "find_clr bm (unat i # xs) = find_clr bm xs" for xs using True by simp
        ultimately show ?thesis
          using 1(1) [of False, OF nz b cf _ 1(2) le, unfolded ui e] unfolding up by simp
      qed
    qed
  qed
qed

lemma bits_of_drop: "j \<in> bits_of (drop 1 (bm :: u8 list)) \<longleftrightarrow> 8 + j \<in> bits_of bm"
proof (cases bm)
  case (Cons x xs)
  then show ?thesis using bits_of_Cons [of x xs] by (auto simp: image_iff)
qed (simp add: bits_of_def)

lemma bits_of_drop_bytes: "j \<in> bits_of (drop n (bm :: u8 list)) \<longleftrightarrow> 8 * n + j \<in> bits_of bm"
proof (induction n arbitrary: j bm)
  case (Suc n)
  have "j \<in> bits_of (drop (Suc n) bm) \<longleftrightarrow> j \<in> bits_of (drop n (drop 1 bm))" by simp
  also have "\<dots> \<longleftrightarrow> 8 * n + j \<in> bits_of (drop 1 bm)" by (rule Suc.IH)
  also have "\<dots> \<longleftrightarrow> 8 * Suc n + j \<in> bits_of bm" by (simp only: bits_of_drop) (simp add: algebra_simps)
  finally show ?case .
qed simp

lemma find_clr_full_byte:
  assumes "bm \<noteq> []" "bm ! 0 = 0xFF"
  shows "find_clr bm [0..<8] = None"
proof -
  have "j \<in> bits_of bm" if "j < 8" for j
  proof -
    have "j = 0 \<or> j = 1 \<or> j = 2 \<or> j = 3 \<or> j = 4 \<or> j = 5 \<or> j = 6 \<or> j = 7" using that by linarith
    then have "bit (0xFF :: u8) j" by auto
    then show ?thesis using assms that by (cases bm) (auto simp: bits_of_def)
  qed
  then show ?thesis by (simp add: find_None_iff)
qed

lemma find_clr_bytes_spec:
  assumes "bmap_ok bm" "unat b \<le> 8 * length bm"
  shows "\<exists>r bm' s' b'. find_clr_bytes bm s b = Inr (r, bm', s', b') \<and>
    (case find_clr bm [0..<8 * (unat b div 8)] of
       Some c \<Rightarrow> r = Inl (Some (s + of_nat c))
     | None \<Rightarrow> r = Inr () \<and> bm' = drop (unat b div 8) bm \<and> s' = s + of_nat (8 * (unat b div 8)) \<and> unat b' = unat b mod 8)"
  using assms
proof (induction bm s b rule: find_clr_bytes.induct)
  case (1 bm s b)
  show ?case
  proof (cases "8 \<le> b")
    case False
    then have "unat b < 8" by (simp add: word_le_nat_alt)
    then show ?thesis using False by (simp add: find_clr_bytes.simps [of bm])
  next
    case True
    then have ub: "8 \<le> unat b" "unat (b - 8) = unat b - 8" by (simp_all add: word_le_nat_alt unat_sub)
    then have ne: "bm \<noteq> []" and l8: "8 \<le> 8 * length bm" using 1(3) by auto
    let ?r = "map_option (\<lambda>i. s + of_nat i) (find_clr bm [0..<8])"
    have r: "(if bm ! 0 \<noteq> 0xFF
        then foldR (\<lambda>i r. if r \<noteq> None then Inr r
          else bindR (ext4_bmap_is_bit_clr bm (of_nat i)) (\<lambda>c. Inr (if c then Some (s + of_nat i) else None))) [0..<8] None
        else Inr None) = Inr ?r"
      using find_clr_loop [OF 1(2) l8, of s] find_clr_full_byte [OF ne] by simp
    have n0: "nthR bm 0 = Inr (bm ! 0)" using ne by (simp add: nthR_def)
    have d: "unat b div 8 = Suc ((unat b - 8) div 8)" using ub(1) by (simp add: le_div_geq)
    have sp: "find_clr bm [0..<8 * (unat b div 8)] =
      (case find_clr bm [0..<8] of Some c \<Rightarrow> Some c
       | None \<Rightarrow> map_option ((+) 8) (find_clr (drop 1 bm) [0..<8 * ((unat b - 8) div 8)]))"
    proof -
      have e: "8 * (unat b div 8) = 8 + 8 * ((unat b - 8) div 8)" using d by simp
      show ?thesis
        using find_upt_split [of 0 8 "8 + 8 * ((unat b - 8) div 8)" "\<lambda>j. j \<notin> bits_of bm"]
        unfolding e find_shift [of _ 8] bits_of_drop by simp
    qed
    show ?thesis
    proof (cases "find_clr bm [0..<8]")
      case (Some c)
      then show ?thesis
        using True n0 r sp unfolding find_clr_bytes.simps [of bm] by simp
    next
      case None
      have step: "find_clr_bytes bm s b = find_clr_bytes (drop 1 bm) (s + 8) (b - 8)"
        using True n0 r None unfolding find_clr_bytes.simps [of bm] by simp
      have ok: "bmap_ok (drop 1 bm)" "unat (b - 8) \<le> 8 * length (drop 1 bm)" using 1(2,3) ub by (auto simp: bmap_ok_def)
      note ih = 1(1) [OF True n0 _ _ ok, unfolded ub(2), of None]
      have rn: "?r = None" using None by simp
      show ?thesis using ih [OF r [unfolded rn]] step sp None d le_mod_geq [OF ub(1)] by (auto simp: map_option_case algebra_simps split: option.splits)
    qed
  qed
qed

lemma find_clr_tail:
  assumes "bmap_ok bm" "unat b \<le> 8 * length bm"
  shows "bindR (find_clr_bytes bm s b) (\<lambda>(r, bmap', sbit', bcnt').
      case r of
        Inl x \<Rightarrow> Inr x
      | Inr _ \<Rightarrow>
          foldR (\<lambda>i r. if r \<noteq> None then Inr r
            else bindR (ext4_bmap_is_bit_clr bmap' (of_nat i)) (\<lambda>c. Inr (if c then Some (sbit' + of_nat i) else None)))
            [0..<unat bcnt'] None) =
    Inr (map_option (\<lambda>c. s + of_nat c) (find_clr bm [0..<unat b]))"
proof -
  let ?q = "unat b div 8" and ?m = "unat b mod 8"
  have "find_clr bm [0..<8 * q + m] =
    (case find_clr bm [0..<8 * q] of Some c \<Rightarrow> Some c | None \<Rightarrow> map_option ((+) (8 * q)) (find_clr (drop q bm) [0..<m]))" for q m
    using find_upt_split [of 0 "8 * q" "8 * q + m" "\<lambda>j. j \<notin> bits_of bm"] unfolding find_shift bits_of_drop_bytes by simp
  from this [of ?q ?m] have sp: "find_clr bm [0..<unat b] =
    (case find_clr bm [0..<8 * ?q] of Some c \<Rightarrow> Some c | None \<Rightarrow> map_option ((+) (8 * ?q)) (find_clr (drop ?q bm) [0..<?m]))"
    by simp
  obtain r bm' s' b' where f: "find_clr_bytes bm s b = Inr (r, bm', s', b')"
    "case find_clr bm [0..<8 * ?q] of Some c \<Rightarrow> r = Inl (Some (s + of_nat c))
     | None \<Rightarrow> r = Inr () \<and> bm' = drop ?q bm \<and> s' = s + of_nat (8 * ?q) \<and> unat b' = ?m"
    using find_clr_bytes_spec [OF assms, of s] by blast
  show ?thesis
  proof (cases "find_clr bm [0..<8 * ?q]")
    case (Some c)
    then show ?thesis using f sp by simp
  next
    case None
    have "8 * ?q + ?m = unat b" by simp
    then have m: "?m \<le> 8 * length (drop ?q bm)" using assms(2) unfolding length_drop diff_mult_distrib2 by linarith
    have "bmap_ok (drop ?q bm)" using assms(1) by (auto simp: bmap_ok_def)
    note loop = find_clr_loop [OF this m, of "s + of_nat (8 * ?q)"]
    have "r = Inr ()" "bm' = drop ?q bm" "s' = s + of_nat (8 * ?q)" "unat b' = ?m" using f(2) None by simp_all
    then have "?thesis \<longleftrightarrow> map_option (\<lambda>i. s + of_nat (8 * ?q) + of_nat i) (find_clr (drop ?q bm) [0..<?m]) =
        map_option (\<lambda>c. s + of_nat c) (find_clr bm [0..<unat b])"
      unfolding f(1) bindR_simps prod.case sum.case by (simp only: loop sum.inject sum.case)
    then show ?thesis using sp None by (simp add: option.map_comp comp_def add.assoc)
  qed
qed

text \<open>C39. The search for a clear bit: over any range inside the bitmap, \<^verbatim>\<open>ext4_bmap_bit_find_clr\<close> finds
  nothing exactly when every bit of the range is set, and otherwise reports the first clear bit of
  the range, as a plain search would, except that when this bit lies before the next multiple of 8
  from the start, it reports the start.  A search that starts at a multiple of 8 is right.\<close>

theorem find_clr_correct:
  assumes "bmap_ok bm" "sbit \<le> ebit" "unat ebit \<le> 8 * length bm"
  shows "ext4_bmap_bit_find_clr bm sbit ebit =
    Inr (case find_clr bm [unat sbit..<unat ebit] of
           None \<Rightarrow> None
         | Some c \<Rightarrow> Some (if c < align8 (unat sbit) then sbit else of_nat c))"
proof -
  let ?s = "unat sbit" and ?e = "unat ebit" and ?a = "align8 (unat sbit)"
  have se: "?s \<le> ?e" "unat (ebit - sbit) = ?e - ?s" using assms(2) by (simp_all add: word_le_nat_alt unat_sub)
  then have sum: "?s + unat (ebit - sbit) = ?e" by simp
  obtain r i b where h: "find_clr_head bm sbit sbit (ebit - sbit) = Inr (r, i, b)"
    "case find_clr bm [?s..<min ?e ?a] of Some c \<Rightarrow> r = Inl (Some sbit)
     | None \<Rightarrow> if ?a \<le> ?e then r = Inr () \<and> unat i = ?a \<and> unat b = ?e - ?a else r = Inl None"
    using find_clr_head_spec [OF assms(1), of sbit "ebit - sbit" sbit, unfolded sum, OF assms(3)] by blast
  have sp: "find_clr bm [?s..<?e] = (case find_clr bm [?s..<min ?e ?a] of Some c \<Rightarrow> Some c | None \<Rightarrow> find_clr bm [min ?e ?a..<?e])"
    using se(1) align8_props(1) [of ?s] by (intro find_upt_split) auto
  show ?thesis
  proof (cases "find_clr bm [?s..<min ?e ?a]")
    case (Some c)
    then have "c < ?a" using find_in [of _ _ c] by fastforce
    then show ?thesis using h Some sp by (simp add: ext4_bmap_bit_find_clr_def)
  next
    case None
    show ?thesis
    proof (cases "?a \<le> ?e")
      case False
      then have "min ?e ?a = ?e" by simp
      then have "find_clr bm [?s..<?e] = None" using None by (simp only:)
      then show ?thesis using h None False by (simp add: ext4_bmap_bit_find_clr_def)
    next
      case True
      obtain q where q: "?a = 8 * q" using align8_props(2) [of ?s] by blast
      have tail: "find_clr bm [?s..<?e] = map_option ((+) ?a) (find_clr (drop q bm) [0..<?e - ?a])"
        using sp None True find_shift [of "\<lambda>j. j \<notin> bits_of bm" ?a "?e - ?a"] by (simp add: q bits_of_drop_bytes)
      have r: "r = Inr ()" "unat i = ?a" "unat b = ?e - ?a" using h(2) None True by simp_all
      have di: "unat (drop_bit 3 i) = q" using r(2) q by (simp add: unat_drop_bit)
      have ok: "bmap_ok (drop q bm)" "unat b \<le> 8 * length (drop q bm)" "q \<le> length bm"
        using assms(1,3) r(3) q True by (auto simp: bmap_ok_def)
      have "of_nat (unat i + c) = i + of_nat c" for c by simp
      then have "i + of_nat c = of_nat (?a + c)" for c unfolding r(2) by simp
      then show ?thesis
        using find_clr_tail [OF ok(1,2), of i] h(1) r di ok(3) tail
        by (simp add: ext4_bmap_bit_find_clr_def) (auto split: option.splits)
    qed
  qed
qed

theorem find_clr_correct_witness:
  "ext4_bmap_bit_find_clr [0xFF, 0x01] 0 16 = Inr (Some 9) \<and> ext4_bmap_bit_find_clr [0x02] 1 8 = Inr (Some 1)"
proof -
  have a: "align8 0 = 0" "align8 (Suc 0) = 8" by (simp_all add: align8_def)
  have 1: "find_clr [0xFF, 0x01] [0..<16] = Some 9" "find_clr [0x02] [1..<8] = Some 2"
    by (simp_all add: upt_rec bits_of_def)
  show ?thesis
    using find_clr_correct [of "[0xFF, 0x01]" 0 16] find_clr_correct [of "[0x02]" 1 8] 1 a
    by (simp add: bmap_ok_def)
qed

section \<open>Path components\<close>

lemma path_check_from_eq:
  "path_check_from i path = (if slash \<in> set path then Some (i + length (takeWhile (\<lambda>c. c \<noteq> slash) path)) else None)"
  by (induction i path rule: path_check_from.induct) auto

text \<open>On an ASCII path both functions give the length of the first component and whether it is the
  only one; \<^verbatim>\<open>path_check_new\<close> also stops at a null character, and looks at 255 characters.\<close>

lemma ext4_path_check_ascii:
  assumes "ascii path"
  shows "ext4_path_check path = (length (takeWhile (\<lambda>c. c \<noteq> slash) path), slash \<notin> set path)"
proof (cases "slash \<in> set path")
  case False
  then have t: "takeWhile (\<lambda>c. c \<noteq> slash) path = path" by (auto simp: takeWhile_eq_all_conv)
  show ?thesis unfolding ext4_path_check_def path_check_from_eq t using False ascii_len [OF assms] by simp
qed (simp add: ext4_path_check_def path_check_from_eq)

lemma path_check_new_from_eq:
  "i + length path \<le> 255 \<Longrightarrow> 0 \<notin> set path \<Longrightarrow>
     path_check_new_from i path = (if slash \<in> set path then Some (i + length (takeWhile (\<lambda>c. c \<noteq> slash) path), False) else None)"
  by (induction i path rule: path_check_new_from.induct) auto

lemma path_check_new_agrees:
  assumes "length path \<le> 255" "0 \<notin> set path"
  shows "path_check_new path = ext4_path_check path"
  using path_check_new_from_eq [of 0 path] assms by (simp add: path_check_new_def ext4_path_check_def path_check_from_eq)

end
