(* ===== verification/Block_Dev.thy ===== *)
theory Block_Dev
  imports Fat32_File Frame_Alloc
begin

text \<open>
  \<^verbatim>\<open>os/src/drivers/block\<close>: the two block devices of the kernel, as the byte devices that \<^verbatim>\<open>ext4_rs\<close>
  works on (\<^verbatim>\<open>read_offset\<close> and \<^verbatim>\<open>write_offset\<close>), and the memory that the virtio driver shares with its
  device.  The drivers underneath (\<^verbatim>\<open>VirtIOBlk\<close> of the virtio crate, \<^verbatim>\<open>Vf2SdDriver\<close>) are parameters; what
  is relied on is the locale \<open>block_driver\<close>: a request of one or more whole blocks inside the disk
  succeeds.  What \<^verbatim>\<open>ext4_rs\<close> relies on is the locale \<open>byte_device\<close>.
  Positions are natural numbers: the laws bound the disk below \<open>2 ^ 64\<close> bytes.
\<close>

section \<open>The traits\<close>

text \<open>\<^verbatim>\<open>ext4_rs::BlockDevice\<close> as the record of its methods; \<open>'d\<close> is the state of the device.\<close>

record 'd BlockDevice =
  read_offset :: "usize \<Rightarrow> 'd \<Rightarrow> (u8 list \<times> 'd) res"
  write_offset :: "usize \<Rightarrow> u8 list \<Rightarrow> 'd \<Rightarrow> 'd res"

definition BLOCK_SIZE :: nat where "BLOCK_SIZE = 4096"

text \<open>The driver of the virtio crate: \<open>read_blocks b n\<close> fills a buffer of \<open>n\<close> bytes from block \<open>b\<close> on.\<close>

record 'd blk_driver =
  read_blocks :: "nat \<Rightarrow> nat \<Rightarrow> 'd \<Rightarrow> u8 list option \<times> 'd"
  write_blocks :: "nat \<Rightarrow> u8 list \<Rightarrow> 'd \<Rightarrow> unit option \<times> 'd"

section \<open>The virtio disk\<close>

function VirtIOBlock_read_retry ::
  "'d blk_driver \<Rightarrow> nat \<Rightarrow> nat \<Rightarrow> nat \<Rightarrow> u8 list option \<Rightarrow> 'd \<Rightarrow> (u8 list \<times> 'd) res" where
  "VirtIOBlock_read_retry drv block_id len tries r d =
     (case r of
        Some buf \<Rightarrow> Inr (buf, d)
      | None \<Rightarrow>
          let (r', d') = read_blocks drv block_id len d; tries' = tries + 1 in
          if tries' > 10 then Inl (Explicit_panic ''read_block: failed after 10 retries'')
          else VirtIOBlock_read_retry drv block_id len tries' r' d')"
  by pat_completeness auto
termination
  by (relation "measure (\<lambda>(_, _, _, tries, _, _). 11 - tries)") auto

declare VirtIOBlock_read_retry.simps [simp del]

definition VirtIOBlock_read_block :: "'d blk_driver \<Rightarrow> nat \<Rightarrow> nat \<Rightarrow> 'd \<Rightarrow> (u8 list \<times> 'd) res" where
  "VirtIOBlock_read_block drv block_id len d =
     (let (r, d') = read_blocks drv block_id len d in VirtIOBlock_read_retry drv block_id len 0 r d')"

definition VirtIOBlock_write_block :: "'d blk_driver \<Rightarrow> nat \<Rightarrow> u8 list \<Rightarrow> 'd \<Rightarrow> 'd res" where
  "VirtIOBlock_write_block drv block_id buf d =
     (case write_blocks drv block_id buf d of
        (Some _, d') \<Rightarrow> Inr d'
      | (None, _) \<Rightarrow> Inl (Explicit_panic ''Error when writing VirtIOBlk''))"

definition VirtIOBlock_read_offset :: "'d blk_driver \<Rightarrow> usize \<Rightarrow> 'd \<Rightarrow> (u8 list \<times> 'd) res" where
  "VirtIOBlock_read_offset drv offset d =
     (case read_blocks drv (unat offset div BLOCK_SZ) BLOCK_SIZE d of
        (Some buf, d') \<Rightarrow> Inr (drop (unat offset mod BLOCK_SZ) buf, d')
      | (None, _) \<Rightarrow> Inl (Explicit_panic ''Error when reading VirtIOBlk''))"

function VirtIOBlock_write_loop :: "'d blk_driver \<Rightarrow> nat \<Rightarrow> u8 list \<Rightarrow> nat \<Rightarrow> 'd \<Rightarrow> 'd res" where
  "VirtIOBlock_write_loop drv offset data write_size d =
     (if write_size < length data then
        let block_id = (offset + write_size) div BLOCK_SZ;
            block_offset = (offset + write_size) mod BLOCK_SZ;
            copy_size = min (length data - write_size) (BLOCK_SZ - block_offset)
        in
        (case read_blocks drv block_id BLOCK_SZ d of
           (None, _) \<Rightarrow> Inl (Explicit_panic ''Error when reading VirtIOBlk'')
         | (Some buf, d1) \<Rightarrow>
             (case write_blocks drv block_id (splice block_offset (take copy_size (drop write_size data)) buf) d1 of
                (None, _) \<Rightarrow> Inl (Explicit_panic ''Error when writing VirtIOBlk'')
              | (Some _, d2) \<Rightarrow> VirtIOBlock_write_loop drv offset data (write_size + copy_size) d2))
      else Inr d)"
  by pat_completeness auto
termination
  by (relation "measure (\<lambda>(_, _, data, write_size, _). length data - write_size)") (auto simp: BLOCK_SZ_def)

declare VirtIOBlock_write_loop.simps [simp del]

definition VirtIOBlock_write_offset :: "'d blk_driver \<Rightarrow> usize \<Rightarrow> u8 list \<Rightarrow> 'd \<Rightarrow> 'd res" where
  "VirtIOBlock_write_offset drv offset data d = VirtIOBlock_write_loop drv (unat offset) data 0 d"

definition VirtIOBlock :: "'d blk_driver \<Rightarrow> 'd BlockDevice" where
  "VirtIOBlock drv = \<lparr> read_offset = VirtIOBlock_read_offset drv, write_offset = VirtIOBlock_write_offset drv \<rparr>"

section \<open>The SD card\<close>

record 'd sd_driver =
  sd_read_block :: "nat \<Rightarrow> 'd \<Rightarrow> u8 list \<times> 'd"
  sd_write_block :: "nat \<Rightarrow> u8 list \<Rightarrow> 'd \<Rightarrow> 'd"

primrec SDCard_read_loop :: "'d sd_driver \<Rightarrow> nat \<Rightarrow> nat \<Rightarrow> nat \<Rightarrow> u8 list \<Rightarrow> 'd \<Rightarrow> u8 list \<times> 'd" where
  "SDCard_read_loop drv 0 block_id buf_offset buf d = (buf, d)"
| "SDCard_read_loop drv (Suc n) block_id buf_offset buf d =
     (let (bs, d') = sd_read_block drv block_id d
      in SDCard_read_loop drv n (block_id + 1) (buf_offset + BLOCK_SZ) (splice buf_offset bs buf) d')"

definition SDCard_read_offset :: "'d sd_driver \<Rightarrow> usize \<Rightarrow> 'd \<Rightarrow> (u8 list \<times> 'd) res" where
  "SDCard_read_offset drv offset d =
     (let (buf, d') = SDCard_read_loop drv 8 (unat offset div BLOCK_SZ) 0 (replicate BLOCK_SIZE 0) d
      in Inr (drop (unat offset mod BLOCK_SZ) buf, d'))"

primrec SDCard_write_loop :: "'d sd_driver \<Rightarrow> nat \<Rightarrow> nat \<Rightarrow> nat \<Rightarrow> u8 list \<Rightarrow> 'd \<Rightarrow> 'd res" where
  "SDCard_write_loop drv 0 block_id data_offset data d = Inr d"
| "SDCard_write_loop drv (Suc n) block_id data_offset data d =
     (if data_offset + BLOCK_SZ \<le> length data
      then SDCard_write_loop drv n (block_id + 1) (data_offset + BLOCK_SZ) data
             (sd_write_block drv block_id (take BLOCK_SZ (drop data_offset data)) d)
      else Inl Index_out_of_bounds)"

definition SDCard_write_offset :: "'d sd_driver \<Rightarrow> usize \<Rightarrow> u8 list \<Rightarrow> 'd \<Rightarrow> 'd res" where
  "SDCard_write_offset drv offset data d = SDCard_write_loop drv 8 (unat offset div BLOCK_SZ) 0 data d"

definition SDCard :: "'d sd_driver \<Rightarrow> 'd BlockDevice" where
  "SDCard drv = \<lparr> read_offset = SDCard_read_offset drv, write_offset = SDCard_write_offset drv \<rparr>"

section \<open>Memory shared with the virtio device\<close>

text \<open>The trackers of the frames are dropped when \<^verbatim>\<open>dma_alloc\<close> returns.\<close>

definition dma_alloc :: "usize \<Rightarrow> MM \<Rightarrow> ((usize \<times> KernelAddr) \<times> MM) res" where
  "dma_alloc pages s =
     bindR (frame_alloc_contiguous pages s) (\<lambda>((frames, root_ppn), s1).
       let pa = PhysAddr_from_PhysPageNum root_ppn in
       bindR (foldR FrameTracker_drop frames s1) (\<lambda>s2.
         Inr ((pa_raw pa, KernelAddr_from_PhysAddr pa), s2)))"

primrec dma_dealloc_loop :: "nat \<Rightarrow> PhysPageNum \<Rightarrow> MM \<Rightarrow> MM res" where
  "dma_dealloc_loop 0 ppn_base s = Inr s"
| "dma_dealloc_loop (Suc n) ppn_base s =
     bindR (frame_dealloc ppn_base s) (dma_dealloc_loop n (PhysPageNum (ppn_raw ppn_base + 1)))"

definition dma_dealloc :: "usize \<Rightarrow> usize \<Rightarrow> MM \<Rightarrow> (32 word \<times> MM) res" where
  "dma_dealloc paddr pages s =
     bindR (PhysAddr_from_usize paddr) (\<lambda>pa.
     bindR (PhysPageNum_from_PhysAddr pa) (\<lambda>ppn_base.
     bindR (dma_dealloc_loop (unat pages) ppn_base s) (\<lambda>s'. Inr (0, s'))))"

definition mmio_phys_to_virt :: "usize \<Rightarrow> KernelAddr res" where
  "mmio_phys_to_virt paddr = bindR (PhysAddr_from_usize paddr) (\<lambda>pa. Inr (KernelAddr_from_PhysAddr pa))"

section \<open>What the drivers promise and what the devices promise\<close>

text \<open>The blocks of a disk of \<open>cap\<close> blocks, one after the other.\<close>

definition flat :: "('d \<Rightarrow> nat \<Rightarrow> u8 list) \<Rightarrow> nat \<Rightarrow> 'd \<Rightarrow> u8 list" where
  "flat sectors cap d = concat (map (sectors d) [0..<cap])"

locale block_driver =
  fixes drv :: "'d blk_driver" and sectors :: "'d \<Rightarrow> nat \<Rightarrow> u8 list" and cap :: nat and ok :: "'d \<Rightarrow> bool"
  assumes cap_bound: "cap * BLOCK_SZ < 2 ^ 64"
    and sector_length: "\<lbrakk> ok d; b < cap \<rbrakk> \<Longrightarrow> length (sectors d b) = BLOCK_SZ"
    and read_law: "\<lbrakk> ok d; 0 < k; b + k \<le> cap \<rbrakk> \<Longrightarrow>
          \<exists>d'. read_blocks drv b (k * BLOCK_SZ) d = (Some (concat (map (sectors d) [b..<b + k])), d') \<and>
               ok d' \<and> sectors d' = sectors d"
    and write_law: "\<lbrakk> ok d; b < cap; length buf = BLOCK_SZ \<rbrakk> \<Longrightarrow>
          \<exists>d'. write_blocks drv b buf d = (Some (), d') \<and> ok d' \<and> sectors d' = (sectors d)(b := buf)"

locale byte_device =
  fixes dev :: "'d BlockDevice" and bytes :: "'d \<Rightarrow> u8 list" and size :: nat and ok :: "'d \<Rightarrow> bool"
  assumes size_bound: "size < 2 ^ 64"
    and bytes_length: "ok d \<Longrightarrow> length (bytes d) = size"
    and read_offset_law: "\<lbrakk> ok d; unat off div BLOCK_SZ * BLOCK_SZ + BLOCK_SIZE \<le> size \<rbrakk> \<Longrightarrow>
          \<exists>d'. read_offset dev off d = Inr (take (BLOCK_SIZE - unat off mod BLOCK_SZ) (drop (unat off) (bytes d)), d') \<and>
               ok d' \<and> bytes d' = bytes d"
    and write_offset_law: "\<lbrakk> ok d; unat off + length data \<le> size \<rbrakk> \<Longrightarrow>
          \<exists>d'. write_offset dev off data d = Inr d' \<and> ok d' \<and> bytes d' = splice (unat off) data (bytes d)"

section \<open>The virtio disk is a byte array\<close>

lemma concat_splice:
  assumes "\<forall>x \<in> set xs. length x = n" "b < length xs" "r + length p \<le> n"
  shows "concat (xs[b := splice r p (xs ! b)]) = splice (b * n + r) p (concat xs)"
proof -
  have l: "length (concat (take b xs)) = b * n"
    using length_concat_uniform [of "take b xs" n] assms(1,2) by (auto dest: in_set_takeD)
  have x: "length (xs ! b) = n" using assms by simp
  have "concat xs = concat (take b xs) @ xs ! b @ concat (drop (Suc b) xs)"
    using id_take_nth_drop [OF assms(2)] by (metis concat.simps(2) concat_append)
  moreover have "concat (xs[b := splice r p (xs ! b)]) = concat (take b xs) @ splice r p (xs ! b) @ concat (drop (Suc b) xs)"
    using assms(2) by (simp add: upd_conv_take_nth_drop)
  ultimately show ?thesis
    using splice_in_first [of r p "xs ! b" "concat (drop (Suc b) xs)"] assms(3) x
      splice_second [OF l, of r p "xs ! b @ concat (drop (Suc b) xs)"] by simp
qed

lemma splice_splice:
  "\<lbrakk> off + length p + length q \<le> length bs \<rbrakk> \<Longrightarrow> splice (off + length p) q (splice off p bs) = splice off (p @ q) bs"
  by (simp add: splice_def ac_simps)

lemma take_drop_block:
  assumes "\<forall>x \<in> set xs. length x = n" "b + k \<le> length xs"
  shows "concat (take k (drop b xs)) = take (k * n) (drop (b * n) (concat xs))"
proof -
  have l: "length (concat (take b xs)) = b * n" "length (concat (take k (drop b xs))) = k * n"
    using length_concat_uniform [of "take b xs" n] length_concat_uniform [of "take k (drop b xs)" n] assms
    by (auto dest!: in_set_takeD in_set_dropD)
  have "concat xs = concat (take b xs) @ concat (take k (drop b xs)) @ concat (drop k (drop b xs))"
    by (metis append_take_drop_id concat_append)
  then show ?thesis using l by simp
qed

context block_driver
begin

lemma length_flat: "ok d \<Longrightarrow> length (flat sectors cap d) = cap * BLOCK_SZ"
  using length_concat_uniform [of "map (sectors d) [0..<cap]" BLOCK_SZ] sector_length [of d]
  by (auto simp: flat_def)

lemma flat_update:
  assumes "ok d" "b < cap" "r + length p \<le> BLOCK_SZ" "sectors d' = (sectors d)(b := splice r p (sectors d b))"
  shows "flat sectors cap d' = splice (b * BLOCK_SZ + r) p (flat sectors cap d)"
proof -
  have "map (sectors d') [0..<cap] = (map (sectors d) [0..<cap])[b := splice r p (map (sectors d) [0..<cap] ! b)]"
    using assms(2) by (intro nth_equalityI) (auto simp: assms(4) nth_list_update)
  then show ?thesis
    unfolding flat_def using concat_splice [of "map (sectors d) [0..<cap]" BLOCK_SZ b r p] assms sector_length [of d]
    by auto
qed

lemma read_blocks_flat:
  assumes "ok d" "0 < k" "b + k \<le> cap"
  shows "\<exists>d'. read_blocks drv b (k * BLOCK_SZ) d = (Some (take (k * BLOCK_SZ) (drop (b * BLOCK_SZ) (flat sectors cap d))), d') \<and>
    ok d' \<and> sectors d' = sectors d"
proof -
  have "concat (map (sectors d) [b..<b + k]) = take (k * BLOCK_SZ) (drop (b * BLOCK_SZ) (flat sectors cap d))"
    using take_drop_block [of "map (sectors d) [0..<cap]" BLOCK_SZ b k] assms sector_length [of d]
    by (auto simp: flat_def take_map drop_map)
  then show ?thesis using read_law [OF assms] by metis
qed

lemma write_loop_flat:
  assumes "ok d" "offset + length data \<le> cap * BLOCK_SZ" "write_size \<le> length data"
  shows "\<exists>d'. VirtIOBlock_write_loop drv offset data write_size d = Inr d' \<and> ok d' \<and>
    flat sectors cap d' = splice (offset + write_size) (drop write_size data) (flat sectors cap d)"
  using assms
proof (induction "length data - write_size" arbitrary: write_size d rule: less_induct)
  case less
  show ?case
  proof (cases "write_size < length data")
    case True
    define b r where "b = (offset + write_size) div BLOCK_SZ" and "r = (offset + write_size) mod BLOCK_SZ"
    define c where "c = min (length data - write_size) (BLOCK_SZ - r)"
    define p where "p = take c (drop write_size data)"
    have r: "r < BLOCK_SZ" and pos: "offset + write_size = b * BLOCK_SZ + r"
      by (simp_all add: r_def b_def BLOCK_SZ_def)
    have c: "0 < c" "write_size + c \<le> length data" "r + c \<le> BLOCK_SZ" "length p = c"
      using True r by (auto simp: c_def p_def)
    have "b * BLOCK_SZ < cap * BLOCK_SZ" using pos True less.prems(2) by linarith
    then have b: "b < cap" by simp
    obtain d1 where d1: "read_blocks drv b BLOCK_SZ d = (Some (sectors d b), d1)" "ok d1" "sectors d1 = sectors d"
      using read_law [OF less.prems(1), of 1 b] b by auto
    have len: "length (splice r p (sectors d b)) = BLOCK_SZ"
      using sector_length [OF less.prems(1) b] c by (simp add: splice_def)
    obtain d2 where d2: "write_blocks drv b (splice r p (sectors d b)) d1 = (Some (), d2)" "ok d2"
      "sectors d2 = (sectors d)(b := splice r p (sectors d b))"
      using write_law [OF d1(2) b len] d1(3) by auto
    have f2: "flat sectors cap d2 = splice (offset + write_size) p (flat sectors cap d)"
      using flat_update [OF less.prems(1) b _ d2(3)] c pos by simp
    have dec: "length data - (write_size + c) < length data - write_size" using c(1,2) True by linarith
    obtain d' where d': "VirtIOBlock_write_loop drv offset data (write_size + c) d2 = Inr d'" "ok d'"
      "flat sectors cap d' = splice (offset + (write_size + c)) (drop (write_size + c) data) (flat sectors cap d2)"
      using less.hyps [OF dec d2(2) less.prems(2) c(2)] by blast
    have "drop write_size data = p @ drop (write_size + c) data"
      by (simp add: p_def add.commute [of write_size] flip: drop_drop)
    moreover have "offset + write_size + length p + length (drop (write_size + c) data) \<le> length (flat sectors cap d)"
      using c less.prems(2) length_flat [OF less.prems(1)] by simp
    ultimately have "flat sectors cap d' = splice (offset + write_size) (drop write_size data) (flat sectors cap d)"
      using splice_splice [of "offset + write_size" p "drop (write_size + c) data" "flat sectors cap d"]
      by (simp add: d'(3) f2 c(4) add.assoc)
    moreover have "VirtIOBlock_write_loop drv offset data write_size d = Inr d'"
      using True d1 d2 d'(1)
      by (subst VirtIOBlock_write_loop.simps) (simp add: Let_def b_def [symmetric] r_def [symmetric] c_def [symmetric] p_def [symmetric])
    ultimately show ?thesis using d'(2) by blast
  next
    case False
    then have "splice (offset + write_size) (drop write_size data) (flat sectors cap d) = flat sectors cap d"
      by (simp add: splice_def)
    then show ?thesis using False less.prems(1) by (subst VirtIOBlock_write_loop.simps) simp
  qed
qed

lemma read_block_sector:
  assumes "ok d" "b < cap"
  shows "\<exists>d'. VirtIOBlock_read_block drv b BLOCK_SZ d = Inr (sectors d b, d') \<and> ok d' \<and> sectors d' = sectors d"
proof -
  obtain d1 where "read_blocks drv b BLOCK_SZ d = (Some (sectors d b), d1)" "ok d1" "sectors d1 = sectors d"
    using read_law [OF assms(1), of 1 b] assms(2) by auto
  then show ?thesis by (simp add: VirtIOBlock_read_block_def VirtIOBlock_read_retry.simps)
qed

end

sublocale block_driver \<subseteq> vio: byte_device "VirtIOBlock drv" "flat sectors cap" "cap * BLOCK_SZ" ok
proof (unfold_locales, goal_cases)
  case (3 d off)
  define b where "b = unat off div BLOCK_SZ"
  have off: "unat off = b * BLOCK_SZ + unat off mod BLOCK_SZ" by (simp add: b_def)
  have k: "b + 8 \<le> cap" "8 * BLOCK_SZ = BLOCK_SIZE" using 3(2) by (auto simp: b_def BLOCK_SZ_def BLOCK_SIZE_def)
  obtain d' where d': "read_blocks drv b BLOCK_SIZE d = (Some (take BLOCK_SIZE (drop (b * BLOCK_SZ) (flat sectors cap d))), d')"
    "ok d'" "sectors d' = sectors d"
    using read_blocks_flat [OF 3(1) _ k(1)] unfolding k(2) by auto
  have "drop (unat off mod BLOCK_SZ) (take BLOCK_SIZE (drop (b * BLOCK_SZ) (flat sectors cap d))) =
      take (BLOCK_SIZE - unat off mod BLOCK_SZ) (drop (unat off) (flat sectors cap d))"
    by (subst (2) off) (simp add: drop_take add.commute)
  then show ?case
    using d' by (simp add: VirtIOBlock_def VirtIOBlock_read_offset_def flip: b_def) (simp add: flat_def)
next
  case (4 d off data)
  then show ?case using write_loop_flat [of d "unat off" data 0]
    by (simp add: VirtIOBlock_def VirtIOBlock_write_offset_def)
qed (use cap_bound length_flat in auto)

context block_driver
begin

lemma vio_device: "byte_device (VirtIOBlock drv) (flat sectors cap) (cap * BLOCK_SZ) ok"
  by (rule vio.byte_device_axioms)

end

text \<open>The driver of a disk kept in memory, which never fails inside the disk.\<close>

definition array_driver :: "u8 list list blk_driver" where
  "array_driver = \<lparr>
     read_blocks = (\<lambda>b n d. (if b * BLOCK_SZ + n \<le> length d * BLOCK_SZ
        then Some (take n (drop (b * BLOCK_SZ) (concat d))) else None, d)),
     write_blocks = (\<lambda>b buf d. if b < length d then (Some (), d[b := buf]) else (None, d)) \<rparr>"

definition array_ok :: "nat \<Rightarrow> u8 list list \<Rightarrow> bool" where
  "array_ok n d \<longleftrightarrow> length d = n \<and> (\<forall>x \<in> set d. length x = BLOCK_SZ)"

interpretation ramdisk: block_driver array_driver "\<lambda>d b. if b < length d then d ! b else []" 1024 "array_ok 1024"
proof (unfold_locales, goal_cases)
  case (3 d k b)
  then have "map (\<lambda>b. if b < length d then d ! b else []) [b..<b + k] = take k (drop b d)"
    by (intro nth_equalityI) (auto simp: array_ok_def)
  then show ?case
    using 3 take_drop_block [of d BLOCK_SZ b k] by (auto simp: array_driver_def array_ok_def BLOCK_SZ_def)
next
  case (4 d b buf)
  then show ?case
    by (auto simp: array_driver_def array_ok_def fun_eq_iff nth_list_update dest!: set_update_subset_insert [THEN subsetD])
qed (auto simp: array_ok_def BLOCK_SZ_def)

lemma flat_array: "array_ok n d \<Longrightarrow> flat (\<lambda>d b. if b < length d then d ! b else []) n d = concat d"
proof -
  assume "array_ok n d"
  then have "map (\<lambda>b. if b < length d then d ! b else []) [0..<n] = d"
    by (intro nth_equalityI) (auto simp: array_ok_def)
  then show ?thesis by (simp add: flat_def)
qed

lemma concat_replicate_replicate: "concat (replicate m (replicate n x)) = replicate (m * n) x"
  by (induction m) (auto simp: replicate_add)

text \<open>
  C6.  On any driver that keeps its promises, the virtio disk is an array of bytes.  \<^verbatim>\<open>write_offset\<close>
  terminates and replaces exactly the bytes from the offset on, at any alignment and over any
  number of blocks; \<^verbatim>\<open>read_offset\<close> returns the bytes from the offset up to the end of the eight
  blocks it reads and changes nothing.
\<close>
theorem virtio_refines_bytes:
  assumes "block_driver drv sectors cap ok" "ok d"
  shows "(unat off + length data \<le> cap * BLOCK_SZ \<longrightarrow>
      (\<exists>d'. VirtIOBlock_write_offset drv off data d = Inr d' \<and> ok d' \<and>
        flat sectors cap d' = splice (unat off) data (flat sectors cap d))) \<and>
    (unat off div BLOCK_SZ + 8 \<le> cap \<longrightarrow>
      (\<exists>d'. VirtIOBlock_read_offset drv off d =
          Inr (take (BLOCK_SIZE - unat off mod BLOCK_SZ) (drop (unat off) (flat sectors cap d)), d') \<and>
        ok d' \<and> flat sectors cap d' = flat sectors cap d))"
proof -
  note dev = block_driver.vio_device [OF assms(1)]
  have w: "write_offset (VirtIOBlock drv) = VirtIOBlock_write_offset drv"
    "read_offset (VirtIOBlock drv) = VirtIOBlock_read_offset drv" by (simp_all add: VirtIOBlock_def)
  have "unat off div BLOCK_SZ + 8 \<le> cap \<Longrightarrow> unat off div BLOCK_SZ * BLOCK_SZ + BLOCK_SIZE \<le> cap * BLOCK_SZ"
    by (simp add: BLOCK_SZ_def BLOCK_SIZE_def)
  then show ?thesis
    using byte_device.write_offset_law [OF dev assms(2), of off data] byte_device.read_offset_law [OF dev assms(2), of off]
    unfolding w by blast
qed

theorem virtio_refines_bytes_witness:
  "\<exists>d'. VirtIOBlock_write_offset array_driver 510 [1, 2, 3] (replicate 1024 (replicate 512 0)) = Inr d' \<and>
     take 5 (drop 509 (concat d')) = [0, 1, 2, 3, 0]"
proof -
  have "array_ok 1024 (replicate 1024 (replicate 512 0))" by (simp add: array_ok_def BLOCK_SZ_def)
  from virtio_refines_bytes [OF ramdisk.block_driver_axioms this, of 510 "[1, 2, 3]"]
  obtain d' where d': "VirtIOBlock_write_offset array_driver 510 [1, 2, 3] (replicate 1024 (replicate 512 0)) = Inr d'"
    "array_ok 1024 d'" "concat d' = splice 510 [1, 2, 3] (concat (replicate 1024 (replicate 512 0)))"
    using \<open>array_ok 1024 (replicate 1024 (replicate 512 0))\<close> by (auto simp: BLOCK_SZ_def flat_array)
  then show ?thesis by (auto simp: concat_replicate_replicate splice_def)
qed

section \<open>The SD card\<close>

text \<open>A write of less than eight blocks reads past its data and panics.\<close>

lemma SDCard_write_loop_short:
  "\<lbrakk> data_offset \<le> length data; length data < data_offset + n * BLOCK_SZ \<rbrakk> \<Longrightarrow>
     SDCard_write_loop drv n block_id data_offset data d = Inl Index_out_of_bounds"
  by (induction n arbitrary: block_id data_offset d) auto

lemma SDCard_write_short:
  "length data < BLOCK_SIZE \<Longrightarrow> write_offset (SDCard drv) off data d = Inl Index_out_of_bounds"
  using SDCard_write_loop_short [of 0 data 8 drv] by (simp add: SDCard_def SDCard_write_offset_def BLOCK_SIZE_def BLOCK_SZ_def)

text \<open>An offset inside a block is written at the start of the block.\<close>

lemma SDCard_write_rounds:
  "write_offset (SDCard drv) off data d = write_offset (SDCard drv) (of_nat (unat off div BLOCK_SZ * BLOCK_SZ)) data d"
proof -
  have "unat off div BLOCK_SZ * BLOCK_SZ < 2 ^ 64"
    by (rule le_less_trans [OF div_times_less_eq_dividend]) (use unat_bound [of off] in simp)
  then have "unat (of_nat (unat off div BLOCK_SZ * BLOCK_SZ) :: usize) = unat off div BLOCK_SZ * BLOCK_SZ"
    unfolding unat_of_nat by (intro mod_less) simp
  then show ?thesis by (simp add: SDCard_def SDCard_write_offset_def BLOCK_SZ_def)
qed

section \<open>Memory shared with the virtio device\<close>

lemma FrameTracker_new_all_frames: "fst (FrameTracker_new_all ps m) = map FrameTracker ps"
  by (induction ps arbitrary: m) (simp_all add: FrameTracker_new_def Let_def case_prod_beta)

lemma dropped_are_recycled:
  "foldR FrameTracker_drop fts s = Inr s' \<Longrightarrow>
     set (fa_recycled (mm_falloc s')) = set (fa_recycled (mm_falloc s)) \<union> ppn_raw ` ft_ppn ` set fts"
  by (induction fts arbitrary: s)
    (auto simp: FrameTracker_drop_def frame_dealloc_def fa_dealloc_def outcome split: if_splits)

text \<open>The frames that \<^verbatim>\<open>dma_alloc\<close> returns are already marked as free, so freeing them panics.\<close>

lemma dma_dealloc_panics:
  assumes "fa_inv l (mm_falloc s)" "dma_alloc pages s = Inr ((pa, ka), s')" "pages \<noteq> 0"
  shows "\<exists>e. dma_dealloc pa pages s' = Inl e"
proof -
  let ?c = "fa_current (mm_falloc s)"
  obtain fts root s1 where a: "frame_alloc_contiguous pages s = Inr ((fts, root), s1)"
    and dr: "foldR FrameTracker_drop fts s1 = Inr s'" and pa: "pa = pa_raw (PhysAddr_from_PhysPageNum root)"
    using assms(2) by (auto simp: dma_alloc_def outcome Let_def split: prod.splits)
  have r: "root = PhysPageNum ?c" "fts = map (\<lambda>i. FrameTracker (PhysPageNum (?c + of_nat i))) [0..<unat pages]"
    using a FrameTracker_new_all_frames [of "map (\<lambda>i. PhysPageNum (?c + of_nat i)) [0..<unat pages]" "mm_mem s"]
    by (auto simp: frame_alloc_contiguous_def fa_alloc_contiguous_eq [OF assms(1)] outcome Let_def o_def
        split: if_splits prod.splits)
  have n0: "0 < unat pages" using assms(3) by (simp add: unat_gt_0)
  then have "FrameTracker root \<in> set fts" unfolding r by (auto simp: image_iff intro!: bexI [of _ 0])
  then have rec: "ppn_raw root \<in> set (fa_recycled (mm_falloc s'))" using dropped_are_recycled [OF dr] by force
  have fl: "PhysAddr_floor (PhysAddr pa) = root"
    using fa_inv_current_small [OF assms(1)]
    by (simp add: pa r PhysAddr_from_PhysPageNum_def PhysAddr_floor_def sv39_widths PAGE_SIZE_def word_unat_eq_iff unat_div unat_push_12)
  have "frame_dealloc root s' = Inl (Explicit_panic ''Frame has not been allocated!'')"
    using rec by (simp add: frame_dealloc_def fa_dealloc_def)
  moreover obtain n where "unat pages = Suc n" using n0 gr0_conv_Suc by blast
  ultimately show ?thesis
    by (cases "dma_dealloc pa pages s'")
      (auto simp: dma_dealloc_def PhysAddr_from_usize_def PhysPageNum_from_PhysAddr_def fl outcome Let_def)
qed

text \<open>A device that keeps failing ends in a panic, after eleven retries.\<close>

lemma read_retry_fails:
  assumes "\<And>d. fst (read_blocks drv b n d) = None"
  shows "VirtIOBlock_read_retry drv b n tries None d = Inl (Explicit_panic ''read_block: failed after 10 retries'')"
proof (induction "11 - tries" arbitrary: tries d rule: less_induct)
  case less
  obtain d' where "read_blocks drv b n d = (None, d')" using assms [of d] by (cases "read_blocks drv b n d") auto
  then show ?case using less [of "tries + 1" d'] by (subst VirtIOBlock_read_retry.simps) (simp add: Let_def)
qed

lemma read_block_fails:
  assumes "\<And>d. fst (read_blocks drv b n d) = None"
  shows "VirtIOBlock_read_block drv b n d = Inl (Explicit_panic ''read_block: failed after 10 retries'')"
  using assms [of d] read_retry_fails [OF assms]
  by (cases "read_blocks drv b n d") (auto simp: VirtIOBlock_read_block_def)

end
