(* ===== verification/Ext4_Meta.thy ===== *)
theory Ext4_Meta
  imports Ext4_Util Block_Dev
begin

text \<open>
  \<^verbatim>\<open>os/libs/ext4_rs/src/ext4_structs/block_group.rs\<close> and the accessors of \<^verbatim>\<open>super_block.rs\<close>: the group
  descriptors of ext4, their counters, their checksums and their place on disk.  The superblock
  is the record of the fields these functions read; the device is the record of its methods
  (\<^verbatim>\<open>ext4_rs::BlockDevice\<close>).
\<close>

unbundle bit_operations_syntax

section \<open>The superblock\<close>

record Ext4Superblock =
  sb_inodes_count :: u32
  sb_blocks_count_lo :: u32
  sb_blocks_count_hi :: u32
  sb_free_blocks_count_lo :: u32
  sb_free_blocks_count_hi :: u32
  sb_first_data_block :: u32
  sb_log_block_size :: u32
  sb_blocks_per_group :: u32
  sb_inodes_per_group :: u32
  sb_features_read_only :: u32
  sb_uuid :: "u8 list"
  sb_desc_size :: u16

definition EXT4_MIN_BLOCK_GROUP_DESCRIPTOR_SIZE :: u16 where "EXT4_MIN_BLOCK_GROUP_DESCRIPTOR_SIZE = 32"
definition EXT4_MAX_BLOCK_GROUP_DESCRIPTOR_SIZE :: u16 where "EXT4_MAX_BLOCK_GROUP_DESCRIPTOR_SIZE = 64"
definition EXT4_CRC32_INIT :: u32 where "EXT4_CRC32_INIT = 0xFFFFFFFF"

definition block_size :: "Ext4Superblock \<Rightarrow> u32" where
  "block_size s = push_bit (unat (sb_log_block_size s AND 31)) 1024"

definition blocks_count :: "Ext4Superblock \<Rightarrow> u32" where
  "blocks_count s = ucast (push_bit 32 (ucast (sb_blocks_count_hi s) :: u64)) OR sb_blocks_count_lo s"

text \<open>A division by zero panics.\<close>

definition block_groups_count :: "Ext4Superblock \<Rightarrow> u32 res" where
  "block_groups_count s =
     (if sb_blocks_per_group s = 0 then Inl (Explicit_panic ''attempt to divide by zero'')
      else
        let cnt = (ucast (push_bit 32 (ucast (sb_blocks_count_hi s) :: u64)) OR sb_blocks_count_lo s) div sb_blocks_per_group s
        in Inr (if cnt = 0 then 1 else cnt))"

definition desc_size :: "Ext4Superblock \<Rightarrow> u16" where
  "desc_size s = (if sb_desc_size s < EXT4_MIN_BLOCK_GROUP_DESCRIPTOR_SIZE then EXT4_MIN_BLOCK_GROUP_DESCRIPTOR_SIZE else sb_desc_size s)"

definition get_inodes_in_group_cnt :: "u32 \<Rightarrow> Ext4Superblock \<Rightarrow> u32 res" where
  "get_inodes_in_group_cnt bgid s =
     bindR (block_groups_count s) (\<lambda>block_group_count.
       let total_inodes = ucast (push_bit 32 (ucast (sb_inodes_count s) :: u64)) in
       if bgid < block_group_count - 1 then Inr (sb_inodes_per_group s)
       else Inr (total_inodes - (block_group_count - 1) * sb_inodes_per_group s))"

definition free_blocks_count :: "Ext4Superblock \<Rightarrow> u64" where
  "free_blocks_count s = ucast (sb_free_blocks_count_lo s) OR push_bit 32 (ucast (sb_free_blocks_count_hi s))"

definition set_free_blocks_count :: "u64 \<Rightarrow> Ext4Superblock \<Rightarrow> Ext4Superblock" where
  "set_free_blocks_count free_blocks s =
     s\<lparr> sb_free_blocks_count_lo := ucast (drop_bit 32 (push_bit 32 free_blocks)),
        sb_free_blocks_count_hi := ucast (drop_bit 32 free_blocks) \<rparr>"

section \<open>Group descriptors\<close>

record Ext4BlockGroup =
  bg_block_bitmap_lo :: u32
  bg_inode_bitmap_lo :: u32
  bg_inode_table_first_block_lo :: u32
  bg_free_blocks_count_lo :: u16
  bg_free_inodes_count_lo :: u16
  bg_used_dirs_count_lo :: u16
  bg_flags :: u16
  bg_exclude_bitmap_lo :: u32
  bg_block_bitmap_csum_lo :: u16
  bg_inode_bitmap_csum_lo :: u16
  bg_itable_unused_lo :: u16
  bg_checksum :: u16
  bg_block_bitmap_hi :: u32
  bg_inode_bitmap_hi :: u32
  bg_inode_table_first_block_hi :: u32
  bg_free_blocks_count_hi :: u16
  bg_free_inodes_count_hi :: u16
  bg_used_dirs_count_hi :: u16
  bg_itable_unused_hi :: u16
  bg_exclude_bitmap_hi :: u32
  bg_block_bitmap_csum_hi :: u16
  bg_inode_bitmap_csum_hi :: u16
  bg_reserved :: u32

text \<open>The packed structure as its 64 bytes, and back.\<close>

definition bg_bytes :: "Ext4BlockGroup \<Rightarrow> u8 list" where
  "bg_bytes g =
     le_u32 (bg_block_bitmap_lo g) @ le_u32 (bg_inode_bitmap_lo g) @ le_u32 (bg_inode_table_first_block_lo g) @
     le_u16 (bg_free_blocks_count_lo g) @ le_u16 (bg_free_inodes_count_lo g) @ le_u16 (bg_used_dirs_count_lo g) @
     le_u16 (bg_flags g) @ le_u32 (bg_exclude_bitmap_lo g) @ le_u16 (bg_block_bitmap_csum_lo g) @
     le_u16 (bg_inode_bitmap_csum_lo g) @ le_u16 (bg_itable_unused_lo g) @ le_u16 (bg_checksum g) @
     le_u32 (bg_block_bitmap_hi g) @ le_u32 (bg_inode_bitmap_hi g) @ le_u32 (bg_inode_table_first_block_hi g) @
     le_u16 (bg_free_blocks_count_hi g) @ le_u16 (bg_free_inodes_count_hi g) @ le_u16 (bg_used_dirs_count_hi g) @
     le_u16 (bg_itable_unused_hi g) @ le_u32 (bg_exclude_bitmap_hi g) @ le_u16 (bg_block_bitmap_csum_hi g) @
     le_u16 (bg_inode_bitmap_csum_hi g) @ le_u32 (bg_reserved g)"

definition Ext4BlockGroup_try_from :: "u8 list \<Rightarrow> Ext4BlockGroup res" where
  "Ext4BlockGroup_try_from bs =
     (if length bs < 64 then Inl Index_out_of_bounds
      else Inr \<lparr>
        bg_block_bitmap_lo = u32_le bs, bg_inode_bitmap_lo = u32_le (drop 4 bs),
        bg_inode_table_first_block_lo = u32_le (drop 8 bs), bg_free_blocks_count_lo = u16_le (drop 12 bs),
        bg_free_inodes_count_lo = u16_le (drop 14 bs), bg_used_dirs_count_lo = u16_le (drop 16 bs),
        bg_flags = u16_le (drop 18 bs), bg_exclude_bitmap_lo = u32_le (drop 20 bs),
        bg_block_bitmap_csum_lo = u16_le (drop 24 bs), bg_inode_bitmap_csum_lo = u16_le (drop 26 bs),
        bg_itable_unused_lo = u16_le (drop 28 bs), bg_checksum = u16_le (drop 30 bs),
        bg_block_bitmap_hi = u32_le (drop 32 bs), bg_inode_bitmap_hi = u32_le (drop 36 bs),
        bg_inode_table_first_block_hi = u32_le (drop 40 bs), bg_free_blocks_count_hi = u16_le (drop 44 bs),
        bg_free_inodes_count_hi = u16_le (drop 46 bs), bg_used_dirs_count_hi = u16_le (drop 48 bs),
        bg_itable_unused_hi = u16_le (drop 50 bs), bg_exclude_bitmap_hi = u32_le (drop 52 bs),
        bg_block_bitmap_csum_hi = u16_le (drop 56 bs), bg_inode_bitmap_csum_hi = u16_le (drop 58 bs),
        bg_reserved = u32_le (drop 60 bs) \<rparr>)"

definition get_block_bitmap_block :: "Ext4Superblock \<Rightarrow> Ext4BlockGroup \<Rightarrow> u64" where
  "get_block_bitmap_block s g =
     (let v = ucast (bg_block_bitmap_lo g) in
      if sb_desc_size s > EXT4_MIN_BLOCK_GROUP_DESCRIPTOR_SIZE then v OR push_bit 32 (ucast (bg_block_bitmap_hi g)) else v)"

definition get_inode_bitmap_block :: "Ext4Superblock \<Rightarrow> Ext4BlockGroup \<Rightarrow> u64" where
  "get_inode_bitmap_block s g =
     (let v = ucast (bg_inode_bitmap_lo g) in
      if sb_desc_size s > EXT4_MIN_BLOCK_GROUP_DESCRIPTOR_SIZE then v OR push_bit 32 (ucast (bg_inode_bitmap_hi g)) else v)"

text \<open>The counters of 32 bits: the upper half is shifted by 32 before it is cut to 32 bits.\<close>

definition get_itable_unused :: "Ext4Superblock \<Rightarrow> Ext4BlockGroup \<Rightarrow> u32" where
  "get_itable_unused s g =
     (let v = ucast (bg_itable_unused_lo g) in
      if desc_size s > EXT4_MIN_BLOCK_GROUP_DESCRIPTOR_SIZE then v OR ucast (push_bit 32 (ucast (bg_itable_unused_hi g) :: u64)) else v)"

definition get_used_dirs_count :: "Ext4Superblock \<Rightarrow> Ext4BlockGroup \<Rightarrow> u32" where
  "get_used_dirs_count s g =
     (let v = ucast (bg_used_dirs_count_lo g) in
      if desc_size s > EXT4_MIN_BLOCK_GROUP_DESCRIPTOR_SIZE then v OR ucast (push_bit 32 (ucast (bg_used_dirs_count_hi g) :: u64)) else v)"

definition set_used_dirs_count :: "Ext4Superblock \<Rightarrow> u32 \<Rightarrow> Ext4BlockGroup \<Rightarrow> Ext4BlockGroup" where
  "set_used_dirs_count s cnt g =
     (let g1 = g\<lparr> bg_itable_unused_lo := ucast (drop_bit 16 (push_bit 16 cnt)) \<rparr> in
      if desc_size s > EXT4_MIN_BLOCK_GROUP_DESCRIPTOR_SIZE then g1\<lparr> bg_itable_unused_hi := ucast (drop_bit 16 cnt) \<rparr> else g1)"

definition set_itable_unused :: "Ext4Superblock \<Rightarrow> u32 \<Rightarrow> Ext4BlockGroup \<Rightarrow> Ext4BlockGroup" where
  "set_itable_unused s cnt g =
     (let g1 = g\<lparr> bg_itable_unused_lo := ucast (drop_bit 16 (push_bit 16 cnt)) \<rparr> in
      if desc_size s > EXT4_MIN_BLOCK_GROUP_DESCRIPTOR_SIZE then g1\<lparr> bg_itable_unused_hi := ucast (drop_bit 16 cnt) \<rparr> else g1)"

definition set_free_inodes_count :: "Ext4Superblock \<Rightarrow> u32 \<Rightarrow> Ext4BlockGroup \<Rightarrow> Ext4BlockGroup" where
  "set_free_inodes_count s cnt g =
     (let g1 = g\<lparr> bg_free_inodes_count_lo := ucast (drop_bit 16 (push_bit 16 cnt)) \<rparr> in
      if desc_size s > EXT4_MIN_BLOCK_GROUP_DESCRIPTOR_SIZE then g1\<lparr> bg_free_inodes_count_hi := ucast (drop_bit 16 cnt) \<rparr> else g1)"

definition get_free_inodes_count :: "Ext4BlockGroup \<Rightarrow> u32" where
  "get_free_inodes_count g =
     ucast (push_bit 32 (ucast (bg_free_inodes_count_hi g) :: u64)) OR ucast (bg_free_inodes_count_lo g)"

definition get_inode_table_blk_num :: "Ext4BlockGroup \<Rightarrow> u32" where
  "get_inode_table_blk_num g =
     ucast (push_bit 32 (ucast (bg_inode_table_first_block_hi g) :: u64)) OR bg_inode_table_first_block_lo g"

definition bg_get_free_blocks_count :: "Ext4BlockGroup \<Rightarrow> u64" where
  "bg_get_free_blocks_count g =
     (let v = ucast (bg_free_blocks_count_lo g) in
      if bg_free_blocks_count_hi g \<noteq> 0 then v OR push_bit 32 (ucast (bg_free_blocks_count_hi g)) else v)"

definition bg_set_free_blocks_count :: "u32 \<Rightarrow> Ext4BlockGroup \<Rightarrow> Ext4BlockGroup" where
  "bg_set_free_blocks_count cnt g =
     g\<lparr> bg_free_blocks_count_lo := ucast (drop_bit 16 (push_bit 16 cnt)),
        bg_free_blocks_count_hi := ucast (drop_bit 16 cnt) \<rparr>"

definition ext4_blocks_in_group_cnt :: "Ext4Superblock \<Rightarrow> u32 res" where
  "ext4_blocks_in_group_cnt s =
     bindR (block_groups_count s) (\<lambda>cnt.
       Inr (if blocks_count s mod sb_blocks_per_group s \<noteq> 0 then cnt + 1 else cnt))"

definition ext4_inodes_in_group_cnt :: "u32 \<Rightarrow> Ext4Superblock \<Rightarrow> u32 res" where
  "ext4_inodes_in_group_cnt bgid s =
     bindR (block_groups_count s) (\<lambda>block_group_count.
       let total_inodes = ucast (push_bit 32 (ucast (sb_inodes_count s) :: u64)) in
       if bgid < block_group_count - 1 then Inr (sb_inodes_per_group s)
       else Inr (total_inodes - (block_group_count - 1) * sb_inodes_per_group s))"

section \<open>Checksums of descriptors and bitmaps\<close>

definition get_block_group_checksum :: "u32 \<Rightarrow> Ext4Superblock \<Rightarrow> Ext4BlockGroup \<Rightarrow> u16 res" where
  "get_block_group_checksum bgid s g =
     bindR (ext4_crc32c EXT4_CRC32_INIT (sb_uuid s) (of_nat (length (sb_uuid s)))) (\<lambda>c1.
     bindR (ext4_crc32c c1 (le_u32 bgid) 4) (\<lambda>c2.
     bindR (ext4_crc32c c2 (bg_bytes (g\<lparr> bg_checksum := 0 \<rparr>)) (ucast (desc_size s))) (\<lambda>c3.
       Inr (ucast (c3 AND 0xFFFF)))))"

definition set_block_group_checksum :: "u32 \<Rightarrow> Ext4Superblock \<Rightarrow> Ext4BlockGroup \<Rightarrow> Ext4BlockGroup res" where
  "set_block_group_checksum bgid s g =
     bindR (get_block_group_checksum bgid s g) (\<lambda>csum. Inr (g\<lparr> bg_checksum := csum \<rparr>))"

definition ext4_ialloc_bitmap_csum :: "u8 list \<Rightarrow> Ext4Superblock \<Rightarrow> u32 res" where
  "ext4_ialloc_bitmap_csum bitmap s =
     bindR (ext4_crc32c EXT4_CRC32_INIT (sb_uuid s) (of_nat (length (sb_uuid s)))) (\<lambda>c.
       ext4_crc32c c bitmap ((sb_inodes_per_group s + 7) div 8))"

definition ext4_balloc_bitmap_csum :: "u8 list \<Rightarrow> Ext4Superblock \<Rightarrow> u32 res" where
  "ext4_balloc_bitmap_csum bitmap s =
     bindR (ext4_crc32c EXT4_CRC32_INIT (sb_uuid s) (of_nat (length (sb_uuid s)))) (\<lambda>c.
       ext4_crc32c c bitmap (sb_blocks_per_group s div 8))"

definition set_block_group_ialloc_bitmap_csum ::
  "Ext4Superblock \<Rightarrow> u8 list \<Rightarrow> Ext4BlockGroup \<Rightarrow> Ext4BlockGroup res" where
  "set_block_group_ialloc_bitmap_csum s bitmap g =
     bindR (ext4_ialloc_bitmap_csum bitmap s) (\<lambda>csum.
       if drop_bit 10 (sb_features_read_only s AND 0x400) = 0 then Inr g
       else
         let g1 = g\<lparr> bg_inode_bitmap_csum_lo := ucast (csum AND 0xFFFF) \<rparr>
         in Inr (if desc_size s = EXT4_MAX_BLOCK_GROUP_DESCRIPTOR_SIZE then g1\<lparr> bg_inode_bitmap_csum_hi := ucast (drop_bit 16 csum) \<rparr> else g1))"

definition set_block_group_balloc_bitmap_csum ::
  "Ext4Superblock \<Rightarrow> u8 list \<Rightarrow> Ext4BlockGroup \<Rightarrow> Ext4BlockGroup res" where
  "set_block_group_balloc_bitmap_csum s bitmap g =
     bindR (ext4_balloc_bitmap_csum bitmap s) (\<lambda>csum.
       if drop_bit 10 (sb_features_read_only s AND 0x400) = 0 then Inr g
       else
         let g1 = g\<lparr> bg_block_bitmap_csum_lo := ucast (csum AND 0xFFFF) \<rparr>
         in Inr (if desc_size s = EXT4_MAX_BLOCK_GROUP_DESCRIPTOR_SIZE then g1\<lparr> bg_block_bitmap_csum_hi := ucast (drop_bit 16 csum) \<rparr> else g1))"

section \<open>Place on disk\<close>

text \<open>The descriptors lie in the blocks after the first data block, as many in a block as fit.  The
  computation is shared by \<^verbatim>\<open>sync_block_group_to_disk\<close> and \<^verbatim>\<open>load\<close>: the position of the block and the offset
  in it.\<close>

definition descriptor_place :: "usize \<Rightarrow> Ext4Superblock \<Rightarrow> (usize \<times> usize) res" where
  "descriptor_place bgid s =
     (let block_sz = of_nat BLOCK_SIZE in
      if sb_desc_size s = 0 then Inl (Explicit_panic ''attempt to divide by zero'')
      else
        let dsc_cnt = block_sz div ucast (sb_desc_size s) in
        if dsc_cnt = 0 then Inl (Explicit_panic ''attempt to divide by zero'')
        else
          let dsc_id = bgid div dsc_cnt;
              block_id = ucast (sb_first_data_block s) + dsc_id + 1;
              offset = (bgid mod dsc_cnt) * ucast (sb_desc_size s)
          in Inr (block_id * block_sz, offset))"

definition sync_block_group_to_disk ::
  "'d BlockDevice \<Rightarrow> usize \<Rightarrow> Ext4Superblock \<Rightarrow> Ext4BlockGroup \<Rightarrow> 'd \<Rightarrow> 'd res" where
  "sync_block_group_to_disk dev bgid s g d =
     bindR (descriptor_place bgid s) (\<lambda>(block_pos, offset).
       write_offset dev (block_pos + offset) (bg_bytes g) d)"

definition sync_to_disk_with_csum ::
  "'d BlockDevice \<Rightarrow> usize \<Rightarrow> Ext4Superblock \<Rightarrow> Ext4BlockGroup \<Rightarrow> 'd \<Rightarrow> (Ext4BlockGroup \<times> 'd) res" where
  "sync_to_disk_with_csum dev bgid s g d =
     bindR (set_block_group_checksum (ucast bgid) s g) (\<lambda>g'.
     bindR (sync_block_group_to_disk dev bgid s g' d) (\<lambda>d'. Inr (g', d')))"

definition Ext4BlockGroup_load ::
  "'d BlockDevice \<Rightarrow> Ext4Superblock \<Rightarrow> usize \<Rightarrow> 'd \<Rightarrow> (Ext4BlockGroup \<times> 'd) res" where
  "Ext4BlockGroup_load dev s block_group_idx d =
     bindR (descriptor_place block_group_idx s) (\<lambda>(block_pos, offset).
     bindR (read_offset dev block_pos d) (\<lambda>(data, d').
       if unat offset + 64 \<le> length data
       then bindR (Ext4BlockGroup_try_from (take 64 (drop (unat offset) data))) (\<lambda>bg. Inr (bg, d'))
       else Inl Index_out_of_bounds))"

text \<open>The part of \<^verbatim>\<open>balloc_alloc_block\<close> that takes a block from the bitmap of a group: what the search
  returns is not looked at, and the number starts as zero.\<close>

definition balloc_take :: "u32 \<Rightarrow> u8 list \<Rightarrow> (u32 \<times> u8 list) res" where
  "balloc_take idx_in_bg bitmap =
     bindR (ext4_bmap_bit_find_clr bitmap idx_in_bg 0x8000) (\<lambda>found.
       let rel_blk_idx = (case found of Some b \<Rightarrow> b | None \<Rightarrow> 0) in
       bindR (ext4_bmap_bit_set rel_blk_idx bitmap) (\<lambda>bitmap'. Inr (rel_blk_idx, bitmap')))"

lemma unat_ucast_up:
  "LENGTH('a) \<le> LENGTH('b) \<Longrightarrow> unat (ucast (w :: 'a :: len word) :: 'b :: len word) = unat w"
proof -
  assume "LENGTH('a) \<le> LENGTH('b)"
  then have "unat w < 2 ^ LENGTH('b)"
    by (intro less_le_trans [OF unat_bound [of w]] power_increasing) simp_all
  then show ?thesis by (simp add: unsigned_ucast_eq take_bit_nat_eq_self_iff)
qed

section \<open>Counters\<close>

lemma half_words: "ucast (drop_bit 16 (push_bit 16 (c :: u32))) = (ucast c :: u16)"
  by (rule bit_eqI) (auto simp: bit_simps dest: bit_imp_le_length)

lemma high_half_lost: "ucast (push_bit 32 (ucast (h :: 'a :: len word) :: u64)) = (0 :: u32)"
  by (rule bit_eqI) (auto simp: bit_simps)

text \<open>The count of free blocks in the superblock is kept without loss.\<close>

lemma free_blocks_count_round_trip: "free_blocks_count (set_free_blocks_count n s) = n"
  by (rule bit_eqI) (auto simp: free_blocks_count_def set_free_blocks_count_def bit_simps dest: bit_imp_le_length)

text \<open>The counts of a group keep their lower half only, and setting the number of directories sets
  the number of unused inodes.\<close>

lemma get_free_inodes_count_set:
  "get_free_inodes_count (set_free_inodes_count s cnt g) = take_bit 16 cnt"
  by (rule bit_eqI)
    (auto simp: get_free_inodes_count_def set_free_inodes_count_def half_words high_half_lost Let_def bit_simps dest: bit_imp_le_length)

lemma get_itable_unused_set: "get_itable_unused s (set_itable_unused s cnt g) = take_bit 16 cnt"
  by (rule bit_eqI)
    (auto simp: get_itable_unused_def set_itable_unused_def half_words high_half_lost Let_def bit_simps dest: bit_imp_le_length)

lemma set_used_dirs_count_wrong:
  "get_used_dirs_count s (set_used_dirs_count s cnt g) = get_used_dirs_count s g"
  "get_itable_unused s (set_used_dirs_count s cnt g) = take_bit 16 cnt"
  using get_itable_unused_set [of s cnt g]
  by (simp_all add: get_used_dirs_count_def set_used_dirs_count_def set_itable_unused_def Let_def)

text \<open>The count of free blocks of a group is read with its upper half shifted by 32, and written
  with it shifted by 16.\<close>

lemma bg_free_blocks_count_set:
  "bg_get_free_blocks_count (bg_set_free_blocks_count cnt g) =
     take_bit 16 (ucast cnt) OR push_bit 32 (drop_bit 16 (ucast cnt))"
proof -
  have "bg_get_free_blocks_count g = ucast (bg_free_blocks_count_lo g) OR push_bit 32 (ucast (bg_free_blocks_count_hi g))" for g
    by (simp add: bg_get_free_blocks_count_def Let_def)
  then show ?thesis
    by (intro bit_eqI) (auto simp: bg_set_free_blocks_count_def half_words bit_simps dest: bit_imp_le_length)
qed

lemma bg_free_blocks_count_small:
  assumes "cnt < 0x10000"
  shows "bg_get_free_blocks_count (bg_set_free_blocks_count cnt g) = ucast cnt"
proof -
  have "unat (ucast cnt :: u64) < 2 ^ 16" using assms by (simp add: word_less_nat_alt unat_ucast_up)
  then have "take_bit 16 (ucast cnt :: u64) = ucast cnt" "drop_bit 16 (ucast cnt :: u64) = 0"
    by (simp_all add: word_unat_eq_iff unat_take_bit unat_drop_bit)
  then show ?thesis by (simp add: bg_free_blocks_count_set)
qed

text \<open>The number of inodes of the last group does not depend on the number of inodes.\<close>

lemma last_group_inodes:
  assumes "block_groups_count s = Inr n" "n - 1 \<le> bgid"
  shows "get_inodes_in_group_cnt bgid s = Inr (- ((n - 1) * sb_inodes_per_group s))"
  using assms by (auto simp: get_inodes_in_group_cnt_def high_half_lost Let_def)

section \<open>Layout and checksum\<close>

lemma length_bg_bytes [simp]: "length (bg_bytes g) = 64"
  by (simp add: bg_bytes_def)

lemma bg_bytes_round_trip: "Ext4BlockGroup_try_from (bg_bytes g @ r) = Inr g"
  by (simp add: Ext4BlockGroup_try_from_def) (simp add: bg_bytes_def)

lemma block_group_checksum_eq:
  assumes "length (sb_uuid s) = 16" "sb_desc_size s \<le> 64"
  shows "get_block_group_checksum bgid s g =
    Inr (ucast (fold crc_byte (sb_uuid s @ le_u32 bgid @ take (unat (desc_size s)) (bg_bytes (g\<lparr> bg_checksum := 0 \<rparr>))) EXT4_CRC32_INIT))"
proof -
  have d: "unat (desc_size s) \<le> 64" using assms(2)
    by (auto simp: desc_size_def EXT4_MIN_BLOCK_GROUP_DESCRIPTOR_SIZE_def word_le_nat_alt)
  have ff: "(0xFFFF :: u32) = mask 16" by (simp add: mask_eq_exp_minus_1)
  have m: "ucast (c AND 0xFFFF) = (ucast c :: u16)" for c :: u32
    unfolding ff by (rule bit_eqI) (auto simp: bit_simps dest: bit_imp_le_length)
  show ?thesis using assms(1) d
    by (simp add: get_block_group_checksum_def ext4_crc32c_def crc32_fold unat_ucast_up m)
qed
section \<open>Descriptors on disk\<close>

text \<open>Where the descriptor of group \<open>b\<close> lies, for descriptors of \<open>ds\<close> bytes.\<close>

definition block_pos :: "Ext4Superblock \<Rightarrow> nat \<Rightarrow> nat" where
  "block_pos s b = (unat (sb_first_data_block s) + b div (BLOCK_SIZE div unat (sb_desc_size s)) + 1) * BLOCK_SIZE"

definition desc_pos :: "Ext4Superblock \<Rightarrow> nat \<Rightarrow> nat" where
  "desc_pos s b = block_pos s b + b mod (BLOCK_SIZE div unat (sb_desc_size s)) * unat (sb_desc_size s)"

definition desc_ok :: "Ext4Superblock \<Rightarrow> bool" where
  "desc_ok s \<longleftrightarrow> 64 \<le> sb_desc_size s \<and> sb_desc_size s \<le> 4096"

lemma desc_in_block:
  assumes "0 < unat (sb_desc_size s)" "unat (sb_desc_size s) \<le> BLOCK_SIZE"
  shows "b mod (BLOCK_SIZE div unat (sb_desc_size s)) * unat (sb_desc_size s) + unat (sb_desc_size s) \<le> BLOCK_SIZE"
proof -
  let ?n = "BLOCK_SIZE div unat (sb_desc_size s)"
  have "0 < ?n" using assms by (simp add: div_greater_zero_iff)
  then have "b mod ?n + 1 \<le> ?n" by (simp add: Suc_leI)
  then have "(b mod ?n + 1) * unat (sb_desc_size s) \<le> ?n * unat (sb_desc_size s)" by (rule mult_le_mono1)
  also have "\<dots> \<le> BLOCK_SIZE" by simp
  finally show ?thesis by (simp add: algebra_simps)
qed

lemma desc_pos_apart:
  assumes "0 < unat (sb_desc_size s)" "unat (sb_desc_size s) \<le> BLOCK_SIZE" "a < b"
  shows "desc_pos s a + unat (sb_desc_size s) \<le> desc_pos s b"
proof -
  let ?n = "BLOCK_SIZE div unat (sb_desc_size s)"
  have le: "a div ?n \<le> b div ?n" using assms(3) by (simp add: div_le_mono)
  show ?thesis
  proof (cases "a div ?n = b div ?n")
    case True
    then have "a mod ?n < b mod ?n" using assms(3) by (metis add_less_cancel_left div_mult_mod_eq)
    then have "(a mod ?n + 1) * unat (sb_desc_size s) \<le> b mod ?n * unat (sb_desc_size s)" by (intro mult_le_mono1) simp
    then show ?thesis using True by (simp add: desc_pos_def block_pos_def algebra_simps)
  next
    case False
    then have "(unat (sb_first_data_block s) + a div ?n + 1 + 1) * BLOCK_SIZE \<le> (unat (sb_first_data_block s) + b div ?n + 1) * BLOCK_SIZE"
      using le by (intro mult_le_mono1) simp
    then show ?thesis using desc_in_block [OF assms(1,2), of a] by (simp add: desc_pos_def block_pos_def algebra_simps)
  qed
qed

lemma descriptor_place_eq:
  assumes ds: "0 < unat (sb_desc_size s)" "unat (sb_desc_size s) \<le> BLOCK_SIZE" and fits: "block_pos s (unat b) + BLOCK_SIZE < 2 ^ 64"
  shows "\<exists>p o'. descriptor_place b s = Inr (p, o') \<and> unat p = block_pos s (unat b) \<and> unat (p + o') = desc_pos s (unat b) \<and>
    unat p + unat o' = desc_pos s (unat b)"
proof -
  let ?ds = "ucast (sb_desc_size s) :: usize"
  let ?n = "(of_nat BLOCK_SIZE :: usize) div ?ds"
  let ?m = "BLOCK_SIZE div unat (sb_desc_size s)"
  let ?p = "(ucast (sb_first_data_block s) + b div ?n + 1) * of_nat BLOCK_SIZE"
  let ?o = "b mod ?n * ?ds"
  have u: "unat ?ds = unat (sb_desc_size s)" by (simp add: unat_ucast_up)
  have bs: "unat (of_nat BLOCK_SIZE :: usize) = BLOCK_SIZE" by (simp add: BLOCK_SIZE_def)
  have n: "unat ?n = ?m" by (simp add: unat_div u bs)
  have "0 < ?m" using ds by (simp add: div_greater_zero_iff)
  then have n0: "?n \<noteq> 0" using n by (metis less_irrefl unat_0)
  have d0: "sb_desc_size s \<noteq> 0" using ds(1) by auto
  have q: "(unat (sb_first_data_block s) + unat b div ?m + 1) * BLOCK_SIZE < 2 ^ 64"
    using fits by (simp add: block_pos_def)
  then have q1: "unat (sb_first_data_block s) + unat b div ?m + 1 < 2 ^ 64" by (simp add: BLOCK_SIZE_def)
  have k: "unat (ucast (sb_first_data_block s) + b div ?n + 1) = unat (sb_first_data_block s) + unat b div ?m + 1"
  proof -
    have "unat (b div ?n) = unat b div ?m" unfolding unat_div u bs ..
    then show ?thesis
      using q1 unat_add_small [of "ucast (sb_first_data_block s) :: usize" "b div ?n"]
        unat_add_small [of "ucast (sb_first_data_block s) + b div ?n" 1] by (simp add: unat_ucast_up)
  qed
  have p: "unat ?p = block_pos s (unat b)"
    using q unfolding block_pos_def unat_word_ariths(2) k bs by (intro mod_less) simp
  have o1: "unat b mod ?m * unat (sb_desc_size s) + unat (sb_desc_size s) \<le> BLOCK_SIZE"
    by (rule desc_in_block [OF ds])
  have o2: "unat ?o = unat b mod ?m * unat (sb_desc_size s)"
    using o1 unfolding unat_word_ariths(2) unat_mod n u by (intro mod_less) (simp add: BLOCK_SIZE_def)
  have po: "unat (?p + ?o) = unat ?p + unat ?o"
    using fits o1 by (intro unat_add_small) (simp add: p o2)
  have "descriptor_place b s = Inr (?p, ?o)"
    using d0 n0 by (simp add: descriptor_place_def Let_def)
  then show ?thesis using p po o2 by (auto simp: desc_pos_def)
qed
context byte_device
begin

lemma load_spec:
  assumes "ok d" "desc_ok s" "block_pos s (unat b) + BLOCK_SIZE \<le> size"
  shows "\<exists>d' g. Ext4BlockGroup_load dev s b d = Inr (g, d') \<and> ok d' \<and> bytes d' = bytes d \<and>
    Ext4BlockGroup_try_from (take 64 (drop (desc_pos s (unat b)) (bytes d))) = Inr g"
proof -
  have ds: "64 \<le> unat (sb_desc_size s)" "unat (sb_desc_size s) \<le> BLOCK_SIZE"
    using assms(2) by (simp_all add: desc_ok_def word_le_nat_alt BLOCK_SIZE_def)
  obtain p o' where p: "descriptor_place b s = Inr (p, o')" "unat p = block_pos s (unat b)"
    "unat p + unat o' = desc_pos s (unat b)"
    using descriptor_place_eq [of s b] ds assms(3) size_bound by auto
  have al: "unat p mod BLOCK_SZ = 0" "unat p div BLOCK_SZ * BLOCK_SZ = unat p"
    unfolding p(2) block_pos_def by (simp_all add: BLOCK_SZ_def BLOCK_SIZE_def)
  obtain d' where d': "read_offset dev p d = Inr (take BLOCK_SIZE (drop (unat p) (bytes d)), d')" "ok d'" "bytes d' = bytes d"
    using read_offset_law [OF assms(1), of p] assms(3) al p(2) by auto
  have o': "unat o' + 64 \<le> BLOCK_SIZE"
    using desc_in_block [of s "unat b"] ds p(2,3) by (simp add: desc_pos_def)
  then have "take 64 (drop (unat o') (take BLOCK_SIZE (drop (unat p) (bytes d)))) = take 64 (drop (desc_pos s (unat b)) (bytes d))"
    using p(3) by (simp add: drop_take min_def add.commute)
  moreover have len: "length (take BLOCK_SIZE (drop (unat p) (bytes d))) = BLOCK_SIZE"
    using bytes_length [OF assms(1)] assms(3) p(2) by simp
  moreover have "\<not> length (take 64 (drop (desc_pos s (unat b)) (bytes d))) < 64"
    using bytes_length [OF assms(1)] assms(3) p(2,3) o' by simp
  then obtain g where "Ext4BlockGroup_try_from (take 64 (drop (desc_pos s (unat b)) (bytes d))) = Inr g"
    by (simp add: Ext4BlockGroup_try_from_def)
  ultimately show ?thesis
    using p(1) d' o' by (simp add: Ext4BlockGroup_load_def)
qed

lemma sync_spec:
  assumes "ok d" "desc_ok s" "block_pos s (unat b) + BLOCK_SIZE \<le> size"
  shows "\<exists>d'. sync_block_group_to_disk dev b s g d = Inr d' \<and> ok d' \<and>
    bytes d' = splice (desc_pos s (unat b)) (bg_bytes g) (bytes d) \<and> desc_pos s (unat b) + 64 \<le> size"
proof -
  have ds: "64 \<le> unat (sb_desc_size s)" "unat (sb_desc_size s) \<le> BLOCK_SIZE"
    using assms(2) by (simp_all add: desc_ok_def word_le_nat_alt BLOCK_SIZE_def)
  obtain p o' where p: "descriptor_place b s = Inr (p, o')" "unat (p + o') = desc_pos s (unat b)"
    using descriptor_place_eq [of s b] ds assms(3) size_bound by auto
  have "desc_pos s (unat b) + 64 \<le> size"
    using desc_in_block [of s "unat b"] ds assms(3) by (simp add: desc_pos_def)
  then show ?thesis
    using write_offset_law [OF assms(1), of "p + o'" "bg_bytes g"] p by (simp add: sync_block_group_to_disk_def)
qed

lemma load_after_sync:
  assumes "ok d" "desc_ok s" "block_pos s (unat b) + BLOCK_SIZE \<le> size" "sync_block_group_to_disk dev b s g d = Inr d'"
  shows "ok d' \<and> (\<exists>d''. Ext4BlockGroup_load dev s b d' = Inr (g, d'')) \<and>
    (\<forall>c. c \<noteq> b \<and> block_pos s (unat c) + BLOCK_SIZE \<le> size \<longrightarrow>
      (\<exists>h d1 d2. Ext4BlockGroup_load dev s c d = Inr (h, d1) \<and> Ext4BlockGroup_load dev s c d' = Inr (h, d2)))"
proof (intro conjI allI impI)
  have d': "ok d'" "bytes d' = splice (desc_pos s (unat b)) (bg_bytes g) (bytes d)" "desc_pos s (unat b) + 64 \<le> size"
    using sync_spec [OF assms(1-3), of g] assms(4) by auto
  then show "ok d'" by simp
  have len: "length (bytes d) = size" by (rule bytes_length [OF assms(1)])
  have "take 64 (drop (desc_pos s (unat b)) (bytes d')) = bg_bytes g"
    using splice_same [of "desc_pos s (unat b)" "bg_bytes g" "bytes d"] d' len by simp
  then show "\<exists>d''. Ext4BlockGroup_load dev s b d' = Inr (g, d'')"
    using load_spec [OF d'(1) assms(2,3)] bg_bytes_round_trip [of g "[]"] by auto
  fix c assume c: "c \<noteq> b \<and> block_pos s (unat c) + BLOCK_SIZE \<le> size"
  have ds: "64 \<le> unat (sb_desc_size s)" "unat (sb_desc_size s) \<le> BLOCK_SIZE"
    using assms(2) by (simp_all add: desc_ok_def word_le_nat_alt BLOCK_SIZE_def)
  have "unat c < unat b \<or> unat b < unat c" using c by (metis linorder_neq_iff word_unat_eq_iff)
  then have "desc_pos s (unat c) + 64 \<le> desc_pos s (unat b) \<or> desc_pos s (unat b) + 64 \<le> desc_pos s (unat c)"
    using desc_pos_apart [of s "unat c" "unat b"] desc_pos_apart [of s "unat b" "unat c"] ds by linarith
  moreover have "desc_pos s (unat c) + 64 \<le> size"
    using sync_spec [OF assms(1,2), of c g] c by auto
  ultimately have "take 64 (drop (desc_pos s (unat c)) (bytes d')) = take 64 (drop (desc_pos s (unat c)) (bytes d))"
    using splice_other [OF len, of "desc_pos s (unat b)" "bg_bytes g" "desc_pos s (unat c)" 64] d'(2,3) by simp
  then show "\<exists>h d1 d2. Ext4BlockGroup_load dev s c d = Inr (h, d1) \<and> Ext4BlockGroup_load dev s c d' = Inr (h, d2)"
    using load_spec [OF assms(1,2), of c] load_spec [OF d'(1) assms(2), of c] c by auto
qed

end

text \<open>
  C7.  On the virtio disk, with descriptors of 64 bytes and a UUID of 16: \<^verbatim>\<open>sync_to_disk_with_csum\<close>
  sets the checksum to the low 16 bits of the CRC-32C of the UUID, the number of the group and the
  descriptor with its checksum cleared, and writes the descriptor; \<^verbatim>\<open>load\<close> then returns it, its
  checksum verifies, and every other group on the disk loads as before.
\<close>
theorem group_descriptor_store:
  assumes "block_driver drv sectors cap ok" "ok d" "sb_desc_size s = 64" "length (sb_uuid s) = 16"
    and "block_pos s (unat b) + BLOCK_SIZE \<le> cap * BLOCK_SZ"
  shows "\<exists>g' d' d''. sync_to_disk_with_csum (VirtIOBlock drv) b s g d = Inr (g', d') \<and> ok d' \<and>
    g' = g\<lparr> bg_checksum := ucast (fold crc_byte (sb_uuid s @ le_u32 (ucast b) @ bg_bytes (g\<lparr> bg_checksum := 0 \<rparr>)) EXT4_CRC32_INIT) \<rparr> \<and>
    Ext4BlockGroup_load (VirtIOBlock drv) s b d' = Inr (g', d'') \<and>
    get_block_group_checksum (ucast b) s g' = Inr (bg_checksum g') \<and>
    (\<forall>c. c \<noteq> b \<and> block_pos s (unat c) + BLOCK_SIZE \<le> cap * BLOCK_SZ \<longrightarrow>
      (\<exists>h d1 d2. Ext4BlockGroup_load (VirtIOBlock drv) s c d = Inr (h, d1) \<and>
        Ext4BlockGroup_load (VirtIOBlock drv) s c d' = Inr (h, d2)))"
proof -
  note dev = block_driver.vio_device [OF assms(1)]
  have s: "desc_ok s" by (simp add: desc_ok_def assms(3))
  have ds: "unat (desc_size s) = 64" by (simp add: desc_size_def assms(3) EXT4_MIN_BLOCK_GROUP_DESCRIPTOR_SIZE_def)
  let ?csum = "ucast (fold crc_byte (sb_uuid s @ le_u32 (ucast b) @ bg_bytes (g\<lparr> bg_checksum := 0 \<rparr>)) EXT4_CRC32_INIT) :: u16"
  have c: "get_block_group_checksum (ucast b) s h = Inr ?csum" if "h\<lparr> bg_checksum := 0 \<rparr> = g\<lparr> bg_checksum := 0 \<rparr>" for h
    using block_group_checksum_eq [OF assms(4), of "ucast b" h] by (simp add: assms(3) ds that)
  let ?g = "g\<lparr> bg_checksum := ?csum \<rparr>"
  obtain d' where d': "sync_block_group_to_disk (VirtIOBlock drv) b s ?g d = Inr d'"
    using byte_device.sync_spec [OF dev assms(2) s assms(5)] by blast
  have "sync_to_disk_with_csum (VirtIOBlock drv) b s g d = Inr (?g, d')"
    by (simp add: sync_to_disk_with_csum_def set_block_group_checksum_def c d' del: fold_append)
  moreover have "get_block_group_checksum (ucast b) s ?g = Inr (bg_checksum ?g)" by (simp add: c)
  ultimately show ?thesis
    using byte_device.load_after_sync [OF dev assms(2) s assms(5) d'] by blast
qed

definition example_superblock :: Ext4Superblock where
  "example_superblock = \<lparr> sb_inodes_count = 128, sb_blocks_count_lo = 128, sb_blocks_count_hi = 0,
     sb_free_blocks_count_lo = 100, sb_free_blocks_count_hi = 0, sb_first_data_block = 0, sb_log_block_size = 2,
     sb_blocks_per_group = 64, sb_inodes_per_group = 64, sb_features_read_only = 0x400,
     sb_uuid = replicate 16 7, sb_desc_size = 64 \<rparr>"

definition example_group :: Ext4BlockGroup where
  "example_group = Ext4BlockGroup.make 1 2 3 40 50 6 0 0 0 0 9 0 0 0 0 0 0 0 0 0 0 0 0"

theorem group_descriptor_store_witness:
  "\<exists>g' d' d''. sync_to_disk_with_csum (VirtIOBlock array_driver) 1 example_superblock example_group (replicate 1024 (replicate 512 0)) = Inr (g', d') \<and>
     Ext4BlockGroup_load (VirtIOBlock array_driver) example_superblock 1 d' = Inr (g', d'')"
proof -
  have ok: "array_ok 1024 (replicate 1024 (replicate 512 0))" by (simp add: array_ok_def BLOCK_SZ_def)
  have "sb_desc_size example_superblock = 64" "length (sb_uuid example_superblock) = 16"
    "block_pos example_superblock (unat (1 :: usize)) + BLOCK_SIZE \<le> 1024 * BLOCK_SZ"
    by (simp_all add: example_superblock_def block_pos_def BLOCK_SIZE_def BLOCK_SZ_def)
  from group_descriptor_store [OF ramdisk.block_driver_axioms ok this] show ?thesis by blast
qed

text \<open>With descriptors of 32 bytes the write runs over the next descriptor: its first field becomes
  the upper half of the block number of the bitmap.\<close>

lemma sync_32_overwrites:
  assumes "length bs = n" "p + 128 \<le> n"
  shows "\<exists>h. Ext4BlockGroup_try_from (take 64 (drop (p + 32) (splice p (bg_bytes g) bs))) = Inr h \<and>
    bg_block_bitmap_lo h = bg_block_bitmap_hi g"
proof -
  have "drop (p + 32) (splice p (bg_bytes g) bs) = drop 32 (bg_bytes g) @ drop (p + 64) bs"
    using assms by (simp add: splice_def)
  moreover have "u32_le (take 64 (drop 32 (bg_bytes g) @ drop (p + 64) bs)) = bg_block_bitmap_hi g"
    by (simp add: bg_bytes_def take_append)
  ultimately show ?thesis using assms by (simp add: Ext4BlockGroup_try_from_def)
qed

text \<open>\<^verbatim>\<open>balloc_alloc_block\<close> does not look at the result of the search: in a full group it takes block 0.\<close>

lemma balloc_take_full:
  assumes "ext4_bmap_bit_find_clr bitmap idx 0x8000 = Inr None" "bitmap \<noteq> []"
  shows "\<exists>bitmap'. balloc_take idx bitmap = Inr (0, bitmap')"
  using assms by (cases bitmap) (auto simp: balloc_take_def ext4_bmap_bit_set_def nthR_def)

end
