(* ===== verification/Ext4_Extent.thy ===== *)
theory Ext4_Extent
  imports Ext4_Meta
begin

text \<open>
  \<^verbatim>\<open>os/libs/ext4_rs/src/ext4_structs/extent.rs\<close>: extents and the search for the extent of a block through
  the tree of index nodes on disk.  The functions that work on raw pointers into the inode
  (\<^verbatim>\<open>Ext4ExtentPath\<close>) are not modelled.
\<close>

unbundle bit_operations_syntax

section \<open>Entries\<close>

record Ext4ExtentHeader =
  eh_magic :: u16
  eh_entries_count :: u16
  eh_max_entries_count :: u16
  eh_depth :: u16
  eh_generation :: u32

record Ext4ExtentIndex =
  ei_first_block :: u32
  ei_leaf_lo :: u32
  ei_leaf_hi :: u16
  ei_padding :: u16

record Ext4Extent =
  ee_first_block :: u32
  ee_block_count :: u16
  ee_start_hi :: u16
  ee_start_lo :: u32

definition EXT_INIT_MAX_LEN :: u16 where "EXT_INIT_MAX_LEN = 32768"
definition EXT_UNWRITTEN_MAX_LEN :: u16 where "EXT_UNWRITTEN_MAX_LEN = 65535"

definition Ext4ExtentIndex_pblock :: "Ext4ExtentIndex \<Rightarrow> u64" where
  "Ext4ExtentIndex_pblock i = ucast (ei_leaf_lo i) OR push_bit 32 (ucast (ei_leaf_hi i))"

definition is_unwritten :: "Ext4Extent \<Rightarrow> bool" where
  "is_unwritten e \<longleftrightarrow> ee_block_count e > EXT_INIT_MAX_LEN"

definition get_actual_len :: "Ext4Extent \<Rightarrow> u16" where
  "get_actual_len e = (if is_unwritten e then ee_block_count e - EXT_INIT_MAX_LEN else ee_block_count e)"

definition Ext4Extent_pblock :: "Ext4Extent \<Rightarrow> u32" where
  "Ext4Extent_pblock e = ucast ((ucast (ee_start_lo e) :: u64) OR push_bit 32 (ucast (ee_start_hi e)))"

definition can_append :: "Ext4Extent \<Rightarrow> Ext4Extent \<Rightarrow> bool" where
  "can_append e nxt \<longleftrightarrow>
     ee_first_block e + ucast (get_actual_len e) = ee_first_block nxt \<and>
     (if is_unwritten e then get_actual_len e + get_actual_len nxt \<le> EXT_UNWRITTEN_MAX_LEN
      else get_actual_len e + get_actual_len nxt \<le> EXT_INIT_MAX_LEN)"

definition can_prepend :: "Ext4Extent \<Rightarrow> Ext4Extent \<Rightarrow> bool" where
  "can_prepend e prev \<longleftrightarrow>
     ee_first_block prev + ucast (get_actual_len prev) = ee_first_block e \<and>
     (if is_unwritten e then get_actual_len e + get_actual_len prev \<le> EXT_UNWRITTEN_MAX_LEN
      else get_actual_len e + get_actual_len prev \<le> EXT_INIT_MAX_LEN)"

definition mark_unwritten :: "Ext4Extent \<Rightarrow> Ext4Extent" where
  "mark_unwritten e = e\<lparr> ee_block_count := ee_block_count e OR EXT_INIT_MAX_LEN \<rparr>"

definition store_pblock :: "u64 \<Rightarrow> Ext4Extent \<Rightarrow> Ext4Extent" where
  "store_pblock pblock e =
     e\<lparr> ee_start_lo := ucast pblock AND 0xffffffff,
        ee_start_hi := ucast (push_bit 1 (push_bit 31 (ucast pblock :: u32))) \<rparr>"

section \<open>Nodes\<close>

text \<open>The structures are read at the start of a slice, given by its bytes.  A slice shorter than the
  structure is read past its end, which has no defined result: the model stops there.  Only
  \<^verbatim>\<open>Ext4ExtentIndex\<close> cuts the slice first, to twelve of its elements, whose size is \<open>esz\<close>.\<close>

definition past_end :: panic where
  "past_end = Explicit_panic ''read past the end of a slice''"

definition Ext4ExtentHeader_try_from :: "u8 list \<Rightarrow> Ext4ExtentHeader res" where
  "Ext4ExtentHeader_try_from bs =
     (if length bs < 12 then Inl past_end
      else Inr \<lparr> eh_magic = u16_le bs, eh_entries_count = u16_le (drop 2 bs), eh_max_entries_count = u16_le (drop 4 bs),
                 eh_depth = u16_le (drop 6 bs), eh_generation = u32_le (drop 8 bs) \<rparr>)"

definition Ext4ExtentIndex_try_from :: "nat \<Rightarrow> u8 list \<Rightarrow> Ext4ExtentIndex res" where
  "Ext4ExtentIndex_try_from esz bs =
     (if length bs < 12 * esz then Inl Index_out_of_bounds
      else Inr \<lparr> ei_first_block = u32_le bs, ei_leaf_lo = u32_le (drop 4 bs),
                 ei_leaf_hi = u16_le (drop 8 bs), ei_padding = u16_le (drop 10 bs) \<rparr>)"

definition Ext4Extent_try_from :: "u8 list \<Rightarrow> Ext4Extent res" where
  "Ext4Extent_try_from bs =
     (if length bs < 12 then Inl past_end
      else Inr \<lparr> ee_first_block = u32_le bs, ee_block_count = u16_le (drop 4 bs),
                 ee_start_hi = u16_le (drop 6 bs), ee_start_lo = u32_le (drop 8 bs) \<rparr>)"

record ExtentTreeNode =
  tn_header :: Ext4ExtentHeader
  tn_extents :: "Ext4Extent list"
  tn_indexes :: "Ext4ExtentIndex list"

text \<open>The entries \<open>ens\<close> of a node: entry \<open>en\<close> starts at element \<^verbatim>\<open>step + en * step\<close>, computed in 16 bits.\<close>

fun load_entries :: "nat \<Rightarrow> u16 \<Rightarrow> (u8 list \<Rightarrow> 'e res) \<Rightarrow> u8 list \<Rightarrow> nat list \<Rightarrow> 'e list res" where
  "load_entries esz step rd data [] = Inr []"
| "load_entries esz step rd data (en # ens) =
     (let idx = unat (step + of_nat en * step) * esz in
      if idx \<le> length data
      then bindR (rd (drop idx data)) (\<lambda>e. bindR (load_entries esz step rd data ens) (\<lambda>es. Inr (e # es)))
      else Inl Index_out_of_bounds)"

definition load_entries_of :: "nat \<Rightarrow> u16 \<Rightarrow> u8 list \<Rightarrow> ExtentTreeNode res" where
  "load_entries_of esz step data =
     bindR (Ext4ExtentHeader_try_from data) (\<lambda>h.
       let ens = [0..<unat (eh_entries_count h)] in
       if eh_depth h = 0
       then bindR (load_entries esz step Ext4Extent_try_from data ens) (\<lambda>es.
              Inr \<lparr> tn_header = h, tn_extents = es, tn_indexes = [] \<rparr>)
       else bindR (load_entries esz step (Ext4ExtentIndex_try_from esz) data ens) (\<lambda>is.
              Inr \<lparr> tn_header = h, tn_extents = [], tn_indexes = is \<rparr>))"

definition load_from_header :: "u32 list \<Rightarrow> ExtentTreeNode res" where
  "load_from_header data = load_entries_of 4 3 (concat (map le_u32 data))"

definition load_node :: "u8 list \<Rightarrow> ExtentTreeNode res" where
  "load_node data = load_entries_of 1 12 data"

section \<open>The search\<close>

record Ext4ExtentPathNew =
  pn_depth :: nat
  pn_first_block :: u32
  pn_block_count :: u16
  pn_start_hi :: u16
  pn_start_lo :: u32
  pn_p_block :: "u64 option"

definition covers :: "u32 \<Rightarrow> Ext4Extent \<Rightarrow> bool" where
  "covers block_id e \<longleftrightarrow> block_id \<ge> ee_first_block e \<and> block_id < ee_first_block e + ucast (ee_block_count e)"

definition extent_path :: "u16 \<Rightarrow> Ext4Extent \<Rightarrow> Ext4ExtentPathNew" where
  "extent_path depth e =
     \<lparr> pn_depth = unat depth, pn_first_block = ee_first_block e, pn_block_count = ee_block_count e,
       pn_start_hi = ee_start_hi e, pn_start_lo = ee_start_lo e, pn_p_block = Some (ucast (Ext4Extent_pblock e)) \<rparr>"

definition index_path :: "u16 \<Rightarrow> Ext4ExtentIndex \<Rightarrow> Ext4ExtentPathNew" where
  "index_path depth i =
     \<lparr> pn_depth = unat depth, pn_first_block = ei_first_block i, pn_block_count = ucast (ei_leaf_lo i),
       pn_start_hi = ei_padding i, pn_start_lo = ucast (ei_leaf_hi i), pn_p_block = Some (Ext4ExtentIndex_pblock i) \<rparr>"

partial_function (option) find_extent ::
  "'d BlockDevice \<Rightarrow> u32 \<Rightarrow> ExtentTreeNode \<Rightarrow> Ext4ExtentPathNew list \<Rightarrow> 'd \<Rightarrow> (Ext4ExtentPathNew list \<times> 'd) res option" where
  "find_extent dev block_id node path d =
     (if eh_depth (tn_header node) = 0 then
        (case List.find (covers block_id) (tn_extents node) of
           Some e \<Rightarrow> Some (Inr (path @ [extent_path (eh_depth (tn_header node)) e], d))
         | None \<Rightarrow> Some (Inr (path, d)))
      else
        (case List.find (\<lambda>i. block_id \<ge> ei_first_block i) (tn_indexes node) of
           None \<Rightarrow> Some (Inr (path, d))
         | Some i \<Rightarrow>
             bindO (Some (read_offset dev (ucast (ei_leaf_lo i) * of_nat BLOCK_SIZE) d)) (\<lambda>(node_data, d1).
             bindO (Some (load_node node_data)) (\<lambda>child.
               find_extent dev block_id child (path @ [index_path (eh_depth (tn_header node)) i]) d1))))"

section \<open>Block numbers\<close>

text \<open>Of the 48 bits of a block number an extent keeps 32: the upper half is never stored, and not
  read when it is there.\<close>

lemma pblock_is_low: "Ext4Extent_pblock e = ee_start_lo e"
  by (rule bit_eqI) (auto simp: Ext4Extent_pblock_def bit_simps dest: bit_imp_le_length)

lemma store_pblock_loses:
  "Ext4Extent_pblock (store_pblock p e) = ucast p" "ee_start_hi (store_pblock p e) = 0"
proof -
  have m: "(0xffffffff :: u32) = - 1" by simp
  show "Ext4Extent_pblock (store_pblock p e) = ucast p"
    unfolding pblock_is_low store_pblock_def m by simp
  show "ee_start_hi (store_pblock p e) = 0"
    by (simp add: store_pblock_def)
qed

lemma or_above: "take_bit k a OR push_bit k 1 = take_bit k a + push_bit k (1 :: 'a :: len word)"
  by (rule disjunctive_add [symmetric]) (auto simp: bit_simps)

text \<open>Marking an extent as unwritten keeps its length, but for the longest one: an extent of
  32768 blocks has the same mark as none.\<close>

lemma mark_unwritten_len:
  assumes "0 < ee_block_count e" "ee_block_count e < EXT_INIT_MAX_LEN"
  shows "is_unwritten (mark_unwritten e)" "get_actual_len (mark_unwritten e) = get_actual_len e"
proof -
  have c: "ee_block_count e = take_bit 15 (ee_block_count e)"
    using assms(2) by (simp add: word_unat_eq_iff unat_take_bit EXT_INIT_MAX_LEN_def word_less_nat_alt)
  have p15: "EXT_INIT_MAX_LEN = push_bit 15 1" by (simp add: EXT_INIT_MAX_LEN_def)
  have s: "ee_block_count e OR EXT_INIT_MAX_LEN = ee_block_count e + EXT_INIT_MAX_LEN"
    using or_above [of 15 "ee_block_count e"] c by (simp add: p15)
  have u: "unat (ee_block_count e + EXT_INIT_MAX_LEN) = unat (ee_block_count e) + 32768"
    using assms(2) by (simp add: EXT_INIT_MAX_LEN_def word_less_nat_alt unat_word_ariths)
  show w: "is_unwritten (mark_unwritten e)"
    using assms(1) u by (simp add: is_unwritten_def mark_unwritten_def s word_less_nat_alt) (simp add: EXT_INIT_MAX_LEN_def)
  show "get_actual_len (mark_unwritten e) = get_actual_len e"
    using w order.asym [OF assms(2)] by (simp add: get_actual_len_def) (auto simp: mark_unwritten_def s is_unwritten_def)
qed

section \<open>Encoding of a node\<close>

definition header_bytes :: "Ext4ExtentHeader \<Rightarrow> u8 list" where
  "header_bytes h = le_u16 (eh_magic h) @ le_u16 (eh_entries_count h) @ le_u16 (eh_max_entries_count h) @
     le_u16 (eh_depth h) @ le_u32 (eh_generation h)"

definition index_bytes :: "Ext4ExtentIndex \<Rightarrow> u8 list" where
  "index_bytes i = le_u32 (ei_first_block i) @ le_u32 (ei_leaf_lo i) @ le_u16 (ei_leaf_hi i) @ le_u16 (ei_padding i)"

definition extent_bytes :: "Ext4Extent \<Rightarrow> u8 list" where
  "extent_bytes e = le_u32 (ee_first_block e) @ le_u16 (ee_block_count e) @ le_u16 (ee_start_hi e) @ le_u32 (ee_start_lo e)"

definition node_bytes :: "ExtentTreeNode \<Rightarrow> u8 list" where
  "node_bytes n = header_bytes (tn_header n) @ concat (map extent_bytes (tn_extents n)) @ concat (map index_bytes (tn_indexes n))"

definition node_ok :: "ExtentTreeNode \<Rightarrow> bool" where
  "node_ok n \<longleftrightarrow> unat (eh_entries_count (tn_header n)) = length (tn_extents n) + length (tn_indexes n) \<and>
     (if eh_depth (tn_header n) = 0 then tn_indexes n = [] else tn_extents n = []) \<and>
     length (tn_extents n) + length (tn_indexes n) \<le> 340"

lemma entry_bytes:
  "length (header_bytes h) = 12" "length (index_bytes i) = 12" "length (extent_bytes e) = 12"
  "Ext4ExtentHeader_try_from (header_bytes h @ r) = Inr h"
  "Ext4ExtentIndex_try_from (Suc 0) (index_bytes i @ r) = Inr i"
  "Ext4Extent_try_from (extent_bytes e @ r) = Inr e"
  by (simp_all add: header_bytes_def index_bytes_def extent_bytes_def Ext4ExtentHeader_try_from_def
      Ext4ExtentIndex_try_from_def Ext4Extent_try_from_def)

lemma load_entries_append:
  assumes "\<And>x r. rd (enc x @ r) = Inr x" "\<And>x. length (enc x) = 12" "length hb = 12" "length xs \<le> 340" "n \<le> length xs"
  shows "load_entries 1 12 rd (hb @ concat (map enc xs) @ r) [n..<length xs] = Inr (drop n xs)"
  using assms(5)
proof (induction "length xs - n" arbitrary: n)
  case (Suc k)
  then have n: "n < length xs" by simp
  have u: "unat (12 + of_nat n * 12 :: u16) = 12 + n * 12"
    using n assms(4) by (simp add: unat_word_ariths unat_of_nat)
  have xs: "xs = take n xs @ xs ! n # drop (Suc n) xs" by (rule id_take_nth_drop [OF n])
  have l: "length (concat (map enc (take n xs))) = n * 12"
    using length_concat_uniform [of "map enc (take n xs)" 12] n assms(2) by auto
  have "drop (12 + n * 12) (hb @ concat (map enc xs) @ r) = enc (xs ! n) @ concat (map enc (drop (Suc n) xs)) @ r"
    by (subst xs) (simp add: assms(3) l)
  moreover have "12 + n * 12 \<le> length (hb @ concat (map enc xs) @ r)"
    using length_concat_uniform [of "map enc xs" 12] n assms(2,3) by auto
  ultimately show ?case
    using Suc.hyps(1) [of "Suc n"] Suc.hyps(2) n assms(1)
    by (simp add: upt_conv_Cons [OF n] u Cons_nth_drop_Suc)
qed simp

lemma load_node_bytes:
  assumes "node_ok n"
  shows "load_node (node_bytes n @ r) = Inr n"
proof -
  have e: "load_entries 1 12 Ext4Extent_try_from (header_bytes (tn_header n) @ concat (map extent_bytes (tn_extents n)) @ r)
      [0..<length (tn_extents n)] = Inr (tn_extents n)"
    using assms load_entries_append [of Ext4Extent_try_from extent_bytes "header_bytes (tn_header n)" "tn_extents n" 0 r]
    by (simp add: entry_bytes node_ok_def)
  have i: "load_entries 1 12 (Ext4ExtentIndex_try_from 1) (header_bytes (tn_header n) @ concat (map index_bytes (tn_indexes n)) @ r)
      [0..<length (tn_indexes n)] = Inr (tn_indexes n)"
    using assms load_entries_append [of "Ext4ExtentIndex_try_from 1" index_bytes "header_bytes (tn_header n)" "tn_indexes n" 0 r]
    by (simp add: entry_bytes node_ok_def)
  show ?thesis
    using assms e i by (auto simp: load_node_def load_entries_of_def node_bytes_def node_ok_def entry_bytes Let_def split: if_splits)
qed

text \<open>In the inode the entries are read as slices of 32-bit words, and an index entry asks for twelve
  of them: with two index entries the read of the second one panics.\<close>

lemma second_index_in_inode_panics:
  assumes "length data = 15" "load_from_header data = Inr n" "eh_depth (tn_header n) \<noteq> 0"
  shows "unat (eh_entries_count (tn_header n)) \<le> 1"
proof (rule ccontr)
  let ?bs = "concat (map le_u32 data)"
  assume "\<not> ?thesis"
  then have u: "[0..<unat (eh_entries_count (tn_header n))] = 0 # 1 # [2..<unat (eh_entries_count (tn_header n))]"
    by (simp add: upt_conv_Cons numeral_2_eq_2)
  have len: "length ?bs = 60" using assms(1) length_concat_uniform [of "map le_u32 data" 4] by auto
  obtain h where h: "Ext4ExtentHeader_try_from ?bs = Inr h" "tn_header n = h"
    using assms(2,3) by (auto simp: load_from_header_def load_entries_of_def Let_def outcome split: if_splits)
  then have "\<exists>is. load_entries 4 3 (Ext4ExtentIndex_try_from 4) ?bs [0..<unat (eh_entries_count h)] = Inr is"
    using assms(2,3) by (auto simp: load_from_header_def load_entries_of_def Let_def outcome)
  then show False
    unfolding u [unfolded h(2)] by (auto simp: outcome Let_def Ext4ExtentIndex_try_from_def len split: if_splits)
qed

section \<open>The blocks of an extent\<close>

text \<open>The blocks that an extent counts, as numbers: from its first block on, as many as its count says,
  where the end must be a block number.\<close>

definition in_extent :: "u32 \<Rightarrow> Ext4Extent \<Rightarrow> bool" where
  "in_extent b e \<longleftrightarrow> unat (ee_first_block e) \<le> unat b \<and>
     unat b < unat (ee_first_block e) + unat (ee_block_count e) \<and>
     unat (ee_first_block e) + unat (ee_block_count e) < 2 ^ 32"

lemma covers_in_extent: "covers b e \<longleftrightarrow> in_extent b e"
proof -
  have c: "unat (ucast (ee_block_count e) :: u32) = unat (ee_block_count e)" by (rule unat_ucast_up) simp
  have "unat (ee_block_count e) < 2 ^ 32"
    using unsigned_less [of "ee_block_count e", where ?'a = nat] by simp
  then show ?thesis
    using unsigned_less [of "ee_first_block e", where ?'a = nat]
    by (auto simp: covers_def in_extent_def word_le_nat_alt word_less_nat_alt unat_word_ariths(1) c mod_if split: if_splits)
qed

text \<open>For a written extent these are its blocks.  The count of an unwritten extent carries the mark,
  and the search compares with the count: it reports an unwritten extent also for 32768 blocks
  behind its end.\<close>

lemma written_len: "\<not> is_unwritten e \<Longrightarrow> get_actual_len e = ee_block_count e"
  by (simp add: get_actual_len_def)

lemma unwritten_reported_behind_end:
  assumes "is_unwritten e" "unat (ee_first_block e) + unat (ee_block_count e) < 2 ^ 32"
    "unat (ee_first_block e) + unat (get_actual_len e) \<le> unat b" "unat b < unat (ee_first_block e) + unat (get_actual_len e) + 32768"
    "eh_depth (tn_header n) = 0" "tn_extents n = [e]"
  shows "find_extent dev b n path d = Some (Inr (path @ [extent_path 0 e], d))"
proof -
  have "EXT_INIT_MAX_LEN \<le> ee_block_count e" using assms(1) by (simp add: is_unwritten_def)
  then have "unat (get_actual_len e) + 32768 = unat (ee_block_count e)"
    using assms(1) unat_sub [of EXT_INIT_MAX_LEN "ee_block_count e"]
    by (simp add: get_actual_len_def EXT_INIT_MAX_LEN_def word_le_nat_alt)
  then have "covers b e" using assms(2-4) by (simp add: covers_in_extent in_extent_def)
  then show ?thesis using assms(5,6) by (subst find_extent.simps) simp
qed

section \<open>The search is a descent in a tree\<close>

text \<open>The tree that a disk holds below a node, and the path that the search takes in it: at each index
  node the first index that is not above the block.  A tree is stored on a disk below a node when
  the block of each index begins with the bytes of the child, and the tree below the child is
  stored.\<close>

datatype xtree = XLeaf "Ext4Extent list" | XNode u16 "(Ext4ExtentIndex \<times> xtree) list"

function xsearch :: "u32 \<Rightarrow> xtree \<Rightarrow> Ext4ExtentPathNew list" where
  "xsearch b (XLeaf es) = (case List.find (in_extent b) es of None \<Rightarrow> [] | Some e \<Rightarrow> [extent_path 0 e])"
| "xsearch b (XNode h cs) =
     (case List.find (\<lambda>c. ei_first_block (fst c) \<le> b) cs of None \<Rightarrow> [] | Some c \<Rightarrow> index_path h (fst c) # xsearch b (snd c))"
  by pat_completeness auto
termination
proof (relation "measure (\<lambda>(_, t). size t)", goal_cases)
  case (2 b h cs c)
  then have "c \<in> set cs" by (rule find_in)
  moreover have "size (snd c) \<le> size_prod (\<lambda>_. 0) size c" by (cases c) simp
  ultimately have "size (snd c) \<le> size_list (size_prod (\<lambda>_. 0) size) cs" by (rule size_list_estimation')
  then show ?case by simp
qed simp

inductive stored :: "u8 list \<Rightarrow> xtree \<Rightarrow> ExtentTreeNode \<Rightarrow> bool" for bs where
  stored_leaf: "eh_depth (tn_header n) = 0 \<Longrightarrow> stored bs (XLeaf (tn_extents n)) n"
| stored_node: "\<lbrakk> eh_depth (tn_header n) = h; h \<noteq> 0; tn_indexes n = map fst cs;
      \<forall>c \<in> set cs. (unat (ei_leaf_lo (fst c)) + 1) * BLOCK_SIZE \<le> length bs \<and>
        (\<exists>m r. take BLOCK_SIZE (drop (unat (ei_leaf_lo (fst c)) * BLOCK_SIZE) bs) = node_bytes m @ r \<and> node_ok m \<and>
          stored bs (snd c) m) \<rbrakk> \<Longrightarrow>
    stored bs (XNode h cs) n"

lemma find_map_fst: "List.find (\<lambda>x. P x) (map fst cs) = map_option fst (List.find (\<lambda>c. P (fst c)) cs)"
  by (induction cs) auto

context byte_device
begin

lemma read_ext4_block:
  assumes "ok d" "(unat (b :: u32) + 1) * BLOCK_SIZE \<le> size"
  shows "\<exists>d'. read_offset dev (ucast b * of_nat BLOCK_SIZE) d = Inr (take BLOCK_SIZE (drop (unat b * BLOCK_SIZE) (bytes d)), d') \<and>
    ok d' \<and> bytes d' = bytes d"
proof -
  have "unat b * BLOCK_SIZE < 2 ^ 64" using assms(2) size_bound by (simp add: BLOCK_SIZE_def)
  then have u: "unat (ucast b * of_nat BLOCK_SIZE :: usize) = unat b * BLOCK_SIZE"
    by (simp add: unat_word_ariths(2) unat_ucast_up BLOCK_SIZE_def)
  then have "unat (ucast b * of_nat BLOCK_SIZE :: usize) mod BLOCK_SZ = 0"
    "unat (ucast b * of_nat BLOCK_SIZE :: usize) div BLOCK_SZ * BLOCK_SZ = unat b * BLOCK_SIZE"
    by (simp_all add: BLOCK_SIZE_def BLOCK_SZ_def)
  then show ?thesis
    using read_offset_law [OF assms(1), of "ucast b * of_nat BLOCK_SIZE"] assms(2) u by (simp add: algebra_simps)
qed

lemma find_extent_descends:
  assumes "stored bs t n" "ok d" "bytes d = bs"
  shows "\<exists>d'. find_extent dev b n path d = Some (Inr (path @ xsearch b t, d')) \<and> ok d' \<and> bytes d' = bs"
  using assms
proof (induction arbitrary: path d rule: stored.induct)
  case (stored_leaf n)
  then show ?case by (subst find_extent.simps) (auto simp: covers_in_extent [abs_def] split: option.splits)
next
  case (stored_node n h cs)
  show ?case
  proof (cases "List.find (\<lambda>c. ei_first_block (fst c) \<le> b) cs")
    case None
    then show ?thesis using stored_node by (subst find_extent.simps) (simp add: find_map_fst)
  next
    case (Some c)
    then have c: "c \<in> set cs" by (rule find_in)
    obtain m r where sz: "(unat (ei_leaf_lo (fst c)) + 1) * BLOCK_SIZE \<le> size"
      and blk: "take BLOCK_SIZE (drop (unat (ei_leaf_lo (fst c)) * BLOCK_SIZE) bs) = node_bytes m @ r" "node_ok m"
      and ih: "\<And>path d. ok d \<Longrightarrow> bytes d = bs \<Longrightarrow>
        \<exists>d'. find_extent dev b m path d = Some (Inr (path @ xsearch b (snd c), d')) \<and> ok d' \<and> bytes d' = bs"
      using stored_node.IH c stored_node.prems bytes_length [of d] by fastforce
    have m: "load_node (take BLOCK_SIZE (drop (unat (ei_leaf_lo (fst c)) * BLOCK_SIZE) bs)) = Inr m"
      unfolding blk(1) by (rule load_node_bytes [OF blk(2)])
    obtain d1 where d1: "read_offset dev (ucast (ei_leaf_lo (fst c)) * of_nat BLOCK_SIZE) d =
        Inr (take BLOCK_SIZE (drop (unat (ei_leaf_lo (fst c)) * BLOCK_SIZE) bs), d1)" "ok d1" "bytes d1 = bs"
      using read_ext4_block [OF stored_node.prems(1) sz] stored_node.prems(2) by auto
    obtain d' where "find_extent dev b m (path @ [index_path h (fst c)]) d1 =
        Some (Inr (path @ index_path h (fst c) # xsearch b (snd c), d'))" "ok d'" "bytes d' = bs"
      using ih [OF d1(2,3), of "path @ [index_path h (fst c)]"] by auto
    then show ?thesis using stored_node.hyps Some m d1
      by (subst find_extent.simps) (simp add: find_map_fst)
  qed
qed

end

inductive in_tree :: "Ext4Extent \<Rightarrow> xtree \<Rightarrow> bool" where
  in_leaf: "e \<in> set es \<Longrightarrow> in_tree e (XLeaf es)"
| in_child: "\<lbrakk> c \<in> set cs; in_tree e (snd c) \<rbrakk> \<Longrightarrow> in_tree e (XNode h cs)"

lemma find_holds: "List.find P xs = Some x \<Longrightarrow> P x"
  by (induction xs) (auto split: if_splits)

lemma xsearch_sound:
  assumes "stored bs t n" "p \<in> set (xsearch b t)" "pn_depth p = 0"
  shows "\<exists>e. in_tree e t \<and> in_extent b e \<and> p = extent_path 0 e"
  using assms
proof (induction rule: stored.induct)
  case (stored_leaf n)
  then obtain e where e: "List.find (in_extent b) (tn_extents n) = Some e" "p = extent_path 0 e"
    by (cases "List.find (in_extent b) (tn_extents n)") auto
  show ?case using in_leaf [OF find_in [OF e(1)]] find_holds [OF e(1)] e(2) by blast
next
  case (stored_node n h cs)
  then obtain c where c: "List.find (\<lambda>c. ei_first_block (fst c) \<le> b) cs = Some c"
    "p \<in> insert (index_path h (fst c)) (set (xsearch b (snd c)))"
    by (cases "List.find (\<lambda>c. ei_first_block (fst c) \<le> b) cs") auto
  have "p \<noteq> index_path h (fst c)" using stored_node.hyps(2) stored_node.prems(2) by (auto simp: index_path_def unat_eq_0)
  then have "\<exists>e. in_tree e (snd c) \<and> in_extent b e \<and> p = extent_path 0 e"
    using stored_node.IH find_in [OF c(1)] c(2) stored_node.prems(2) by blast
  then show ?case using in_child [OF find_in [OF c(1)]] by blast
qed

text \<open>
  C40.  The search for the extent of a block on the virtio disk, below a node whose tree is stored on
  the disk as the bytes of its nodes, reads and decodes every node on its way, terminates without a
  panic and leaves the disk as it is.  It returns the path of the descent through the first index of
  each node that is not above the block; what it reports as extent of the block is an extent of the
  tree, and the block is one of those that the extent counts, from its first block up to its first
  block plus its count.  For a written extent the count is the length of the extent.
\<close>
theorem find_extent_correct:
  assumes "block_driver drv sectors cap ok" "ok d" "stored (flat sectors cap d) t n"
  shows "\<exists>d'. find_extent (VirtIOBlock drv) b n path d = Some (Inr (path @ xsearch b t, d')) \<and>
    ok d' \<and> flat sectors cap d' = flat sectors cap d \<and>
    (\<forall>p \<in> set (xsearch b t). pn_depth p = 0 \<longrightarrow> (\<exists>e. in_tree e t \<and> p = extent_path 0 e \<and>
      unat (ee_first_block e) \<le> unat b \<and> unat b < unat (ee_first_block e) + unat (ee_block_count e) \<and>
      (\<not> is_unwritten e \<longrightarrow> get_actual_len e = ee_block_count e)))"
  using byte_device.find_extent_descends [OF block_driver.vio_device [OF assms(1)] assms(3,2) refl, of b path]
    xsearch_sound [OF assms(3)] written_len unfolding in_extent_def by metis

text \<open>A root with one index, whose child is a leaf in block 1 of the disk with one extent.\<close>

definition example_extent :: Ext4Extent where
  "example_extent = \<lparr> ee_first_block = 0, ee_block_count = 8, ee_start_hi = 0, ee_start_lo = 100 \<rparr>"

definition example_index :: Ext4ExtentIndex where
  "example_index = \<lparr> ei_first_block = 0, ei_leaf_lo = 1, ei_leaf_hi = 0, ei_padding = 0 \<rparr>"

definition example_leaf :: ExtentTreeNode where
  "example_leaf = \<lparr> tn_header = \<lparr> eh_magic = 0xF30A, eh_entries_count = 1, eh_max_entries_count = 340, eh_depth = 0, eh_generation = 0 \<rparr>,
     tn_extents = [example_extent], tn_indexes = [] \<rparr>"

definition example_root :: ExtentTreeNode where
  "example_root = \<lparr> tn_header = \<lparr> eh_magic = 0xF30A, eh_entries_count = 1, eh_max_entries_count = 4, eh_depth = 1, eh_generation = 0 \<rparr>,
     tn_extents = [], tn_indexes = [example_index] \<rparr>"

definition example_extent_disk :: "u8 list list" where
  "example_extent_disk = replicate 8 (replicate 512 0) @ (node_bytes example_leaf @ replicate 488 0) # replicate 1015 (replicate 512 0)"

lemma example_stored:
  "array_ok 1024 example_extent_disk"
  "stored (concat example_extent_disk) (XNode 1 [(example_index, XLeaf [example_extent])]) example_root"
proof -
  have len: "length (node_bytes example_leaf) = 24" by (simp add: node_bytes_def example_leaf_def entry_bytes)
  show "array_ok 1024 example_extent_disk" by (simp add: example_extent_disk_def array_ok_def BLOCK_SZ_def len)
  have c: "concat example_extent_disk = replicate 4096 0 @ node_bytes example_leaf @ replicate (488 + 1015 * 512) 0"
    by (simp add: example_extent_disk_def concat_replicate_replicate flip: replicate_add)
  have "take BLOCK_SIZE (drop (1 * BLOCK_SIZE) (concat example_extent_disk)) = node_bytes example_leaf @ replicate 4072 0"
    by (simp add: c BLOCK_SIZE_def len)
  moreover have "node_ok example_leaf" by (simp add: node_ok_def example_leaf_def)
  moreover have "stored (concat example_extent_disk) (XLeaf [example_extent]) example_leaf"
    using stored_leaf [of example_leaf] by (simp add: example_leaf_def)
  moreover have "(1 + 1) * BLOCK_SIZE \<le> length (concat example_extent_disk)" by (simp add: c len BLOCK_SIZE_def)
  ultimately show "stored (concat example_extent_disk) (XNode 1 [(example_index, XLeaf [example_extent])]) example_root"
    by (intro stored_node) (auto simp: example_root_def example_index_def)
qed

theorem find_extent_correct_witness:
  "\<exists>d'. find_extent (VirtIOBlock array_driver) 5 example_root [] example_extent_disk =
     Some (Inr ([index_path 1 example_index, extent_path 0 example_extent], d'))"
proof -
  have s: "stored (flat (\<lambda>d b. if b < length d then d ! b else []) 1024 example_extent_disk)
      (XNode 1 [(example_index, XLeaf [example_extent])]) example_root"
    using example_stored by (simp add: flat_array)
  have "xsearch 5 (XNode 1 [(example_index, XLeaf [example_extent])]) = [index_path 1 example_index, extent_path 0 example_extent]"
    by (simp add: example_index_def example_extent_def in_extent_def)
  then show ?thesis
    using find_extent_correct [OF ramdisk.block_driver_axioms example_stored(1) s, of 5 "[]"] by auto
qed

text \<open>A block whose extent lies below a later index is not found: the search goes down the first one.\<close>

lemma second_subtree_missed:
  assumes "ei_first_block i \<le> b" "\<forall>e \<in> set es. \<not> in_extent b e"
  shows "xsearch b (XNode h ((i, XLeaf es) # cs)) = [index_path h i]"
  using assms by (auto simp: find_None_iff split: option.splits dest: find_in find_holds)

end
