(* ===== verification/Spec2Isabelle.thy ===== *)
theory Spec2Isabelle
  imports Heap_Mmap Poll Ext4_Extent
begin

text \<open>
  Verification of the chaos kernel, a kernel for RISC-V in Rust (\<^verbatim>\<open>src/os\<close>): virtual memory with
  three-level page tables, processes and threads with a round-robin scheduler, signals, semaphores,
  pipes, a FAT32 and an ext4 file system on block devices, and the system calls over them.

  \<^bold>\<open>How the code is modelled.\<close>  A structure is a record, an enum a datatype, an integer of \<open>w\<close> bits a
  word of that width; the release profile is taken, where arithmetic wraps.  A function is a
  function from the old to the new state.  A panic is a value: the results have the type \<open>'a res\<close>,
  which is \<open>panic + 'a\<close>, and each \<^verbatim>\<open>unwrap\<close>, \<^verbatim>\<open>assert!\<close>, index and \<^verbatim>\<open>todo!\<close> of the code is a branch.  A
  loop that may run forever, or waits for other tasks, is a \<open>partial_function\<close> with results of type
  \<open>'a res option\<close>: that such a call returns is always part of the statement.  Code outside the
  repository is an argument: the ELF parser (\<open>Elf_Load\<close>), the block drivers (\<open>Block_Dev\<close>), the file
  operations of \<^verbatim>\<open>ext4_rs\<close> (\<open>Vfs\<close>), the console and the clock.  Logging is left out.

  User memory is a function from addresses to bytes.  In \<^verbatim>\<open>read\<close>, \<^verbatim>\<open>write\<close>, \<^verbatim>\<open>writev\<close> and \<^verbatim>\<open>sendfile\<close> the bit
  SUM, without which the kernel may not access user pages, is modelled (\<open>Buffer\<close>, \<open>user_fault\<close>), with the
  page table that is active after a wait (\<open>io_env\<close>).  In the other calls a user address is taken to be
  accessible where the code uses it, also where it does not set the bit itself (\<^verbatim>\<open>mkdirat\<close>, \<^verbatim>\<open>ppoll\<close>,
  \<^verbatim>\<open>pselect6\<close>).

  \<^bold>\<open>The parts and their theories\<close> (paths under \<^verbatim>\<open>src/os/src\<close> unless \<^verbatim>\<open>ext4_rs\<close> is named):

  \<^item> \<open>Prelude\<close>, \<open>Bytes\<close>, \<open>BTree_Map\<close>, \<open>Bit_Set\<close>: results and their rules (collection \<open>outcome\<close>), words,
    little-endian encodings, strings with UTF-8 widths, ordered maps, sets of bits.  \<open>Config\<close>: \<^verbatim>\<open>config.rs\<close>.
  \<^item> Memory.  \<open>Address\<close> (\<^verbatim>\<open>mm/address.rs\<close>), \<open>Frame_Alloc\<close> (\<^verbatim>\<open>mm/frame_allocator.rs\<close>; record \<open>MM\<close> is the
    allocator with physical memory), \<open>Page_Table\<close> and \<open>User_Buffer\<close> (\<^verbatim>\<open>mm/page_table.rs\<close>), \<open>Memory_Set\<close>,
    \<open>Heap_Mmap\<close> and \<open>Elf_Load\<close> (\<^verbatim>\<open>mm/memory_set.rs\<close>, \<^verbatim>\<open>sys_brk\<close>, \<^verbatim>\<open>sys_mmap\<close>).
  \<^item> Tasks.  \<open>Timer\<close>, \<open>Signal\<close>, \<open>Task_Res\<close>, \<open>Task\<close> (\<^verbatim>\<open>timer.rs\<close>, \<^verbatim>\<open>task/\<close>; record \<open>Kernel\<close> is the list of all
    control blocks with the queues, the processor, the timers and memory), \<open>Process\<close> (fork, clone, exec,
    exit, wait4 and the calls of \<^verbatim>\<open>syscall/process.rs\<close>), \<open>Sync\<close> (\<^verbatim>\<open>sync/\<close>), \<open>Trap\<close> (\<^verbatim>\<open>trap/mod.rs\<close>).
    \<open>Proc_Inv\<close> and \<open>System\<close> make a transition system of them and prove its invariants.
  \<^item> Files.  \<open>Pipe\<close> (\<^verbatim>\<open>fs/pipe.rs\<close>), \<open>Block_Cache\<close> (\<^verbatim>\<open>block/\<close>), \<open>Fat_Table\<close>, \<open>Fat32_Dir\<close>, \<open>Fat32_File\<close>
    (\<^verbatim>\<open>fs/fat32/\<close>), \<open>Vfs\<close> (\<^verbatim>\<open>fs/\<close>: file objects with dynamic dispatch; record \<open>FileWorld\<close>), \<open>File_Table\<close>
    (\<^verbatim>\<open>syscall/fs.rs\<close> and \<^verbatim>\<open>sys_execve\<close>, on \<open>Kernel\<close> and \<open>FileWorld\<close>), \<open>Poll\<close> (\<^verbatim>\<open>syscall/ppoll.rs\<close>).
  \<^item> Disks and ext4.  \<open>Block_Dev\<close> (\<^verbatim>\<open>drivers/block/\<close>), \<open>Ext4_Util\<close>, \<open>Ext4_Meta\<close>, \<open>Ext4_Extent\<close> (\<^verbatim>\<open>ext4_rs\<close>:
    \<^verbatim>\<open>utils.rs\<close>, \<^verbatim>\<open>super_block.rs\<close>, \<^verbatim>\<open>block_group.rs\<close>, \<^verbatim>\<open>extent.rs\<close>).

  \<^bold>\<open>Interfaces.\<close>  Each is a locale with its clients' lemmas, interpreted on the model: \<open>frame_source\<close>
  (frame allocator, frames with memory, process numbers), \<open>finite_map\<close> (ordered maps), \<open>page_map\<close> and
  \<open>page_map_frames\<close> (page tables), \<open>list_iterator\<close> (user buffers), \<open>bounded_queue\<close> (the ring buffer),
  \<open>block_store\<close> (the block cache), \<open>bit_set\<close> (descriptor sets and ext4 bitmaps), \<open>block_driver\<close> (what is
  relied on of a disk driver; a disk in memory satisfies it) and \<open>byte_device\<close> (what ext4 relies on;
  the virtio disk gives it on every \<open>block_driver\<close>).

  \<^bold>\<open>What is shown.\<close>
  \<^item> Memory: mapping and unmapping refine updates of a finite map and keep the tree of tables
    well-formed; a new address space shares the kernel half; no frame is handed out twice; user
    buffers list the bytes of their range; loaded data lies where it belongs; mappings and heap grow
    by exactly the pages that are needed.
  \<^item> Tasks: in every state reached from the first process by any interleaving of kernel entries, each
    ready task is queued once, the process tree is well-formed, and waits and timers belong to blocked
    tasks.  The round robin gives each task its turn; an exited child is found by \<^verbatim>\<open>wait4\<close>; semaphores
    never let more tasks through than they have permits; the kernel stacks in use after any sequence of
    allocations and releases do not overlap.
  \<^item> Files: the pipe is a queue, a write to it never returns a short count, and \<^verbatim>\<open>writev\<close>, \<^verbatim>\<open>read\<close> and \<^verbatim>\<open>close\<close>
    work on it through descriptors up to the end of file, while \<^verbatim>\<open>write\<close> panics; the block cache is an array
    of blocks; cluster chains, directories and file contents of FAT32 are lists under the operations, where
    a directory lies in one cluster and each name fits one long slot; the descriptor table is a finite map
    and the reference counts of pipe ends count descriptors; descriptor sets are sets.
  \<^item> Disks and ext4: the virtio disk is an array of bytes; group descriptors are stored and loaded with
    valid checksums; the checksum is CRC-32C; searches in bitmaps and extent trees do what is stated.
  Several lemmas show where the code fails; they are listed with the source lines as findings.

  \<^bold>\<open>Bounds.\<close>  Physical pages lie below \<open>2 ^ 44\<close>, as the address checks demand.  The invariants of the
  transition system hold while fewer than \<open>0x3000000\<close> tasks exist (\<open>ks_clone\<close>), where kernel stacks would
  leave the kernel space.  A semaphore is followed for fewer than \<open>2 ^ 62\<close> operations, so that its counter
  does not wrap.  A spin lock gives up after \<open>0x10000000\<close> reads, as in the code.  \<open>ppoll_at_once\<close> takes
  fewer than \<open>2 ^ 62\<close> entries and \<open>pipe_descriptors\<close> fewer than \<open>2 ^ 31\<close> descriptors, far beyond memory.
  \<open>kernel_stacks_apart\<close> allows seven million stacks at a time, which is what the address space has room for.
  Disks are smaller than \<open>2 ^ 64\<close> bytes; a node of an extent tree has at most the 340 entries of a block.
  No fuel is used.

  \<^bold>\<open>Not modelled\<close>, with the reason:
  \<^item> boot code, firmware calls, console, logging, the device tree, assembly (trap entry and context
    switch), the registers of the SD controller: effects on hardware;
  \<^item> the kernel heap: an external allocator on a fixed array, running out of it is not considered;
  \<^item> the rest of \<^verbatim>\<open>ext4_rs\<close> (inodes, directories, insertion of extents, the file interface): raw pointers
    into structures that alias each other; its file operations are a parameter of \<open>Vfs\<close>;
  \<^item> \<^verbatim>\<open>sys_getdents64\<close>, which writes past a buffer, and \<^verbatim>\<open>sys_clock_gettime\<close>, which writes to user memory
    before access to it is enabled: their effect is not defined by the code;
  \<^item> the dispatch on the number of a system call, an argument of the trap handler; vendored crates; code
    that is commented out (condition variables, parts of \<^verbatim>\<open>task/process.rs\<close> and \<^verbatim>\<open>syscall/thread.rs\<close>).
  Reference counts of pipe ends follow the descriptor calls of one task; fork and exit treat the table
  of descriptors as a whole and leave the counts.  The block cache and FAT32 work on one disk that does
  not fail: the cache finds a block by its number alone, so its device argument is left out.
\<close>

end
